(* ===== verification/Prelude.thy ===== *)
theory Prelude
  imports Main "HOL-Library.Word"
begin

text \<open>
  Shared ground of the development: the machine integers of the kernel's C code, the
  byte-addressed store every C object lives in, the separation of address ranges, and
  the outcome type that makes failed assertions and context switches values.

  The kernel is compiled for IA-32 (\<open>gcc -m32\<close>, no optimisation): pointers and
  \<open>size_t\<close> are 32 bits wide, integers are little endian and arithmetic wraps around.
  An object whose address the code takes (a list node, a lock, a PCB, a bitmap, a buffer)
  is a range of bytes of the store; loads and stores of 1, 2 and 4 bytes are the only
  accesses.
\<close>

unbundle bit_operations_syntax

named_theorems mem_simps \<open>read-over-write and frame equations of the byte store\<close>
named_theorems sep_intros \<open>introduction rules for separated address ranges\<close>

section \<open>Machine integers\<close>

type_synonym u8 = "8 word"
type_synonym u16 = "16 word"
type_synonym u32 = "32 word"
type_synonym addr = "32 word"

text \<open>The byte store: C memory as seen through the current address space.\<close>

type_synonym mem = "addr \<Rightarrow> u8"

abbreviation NULL :: addr where
  "NULL \<equiv> 0"

definition PAGE_SIZE :: u32 where
  "PAGE_SIZE = 4096"

lemma PAGE_SIZE_neq_0 [simp]: "PAGE_SIZE \<noteq> 0"
  by (simp add: PAGE_SIZE_def)

lemma unat_PAGE_SIZE [simp]: "unat PAGE_SIZE = 4096"
  by (simp add: PAGE_SIZE_def)

text \<open>Unsigned subtraction, addition and multiplication without wrap-around.\<close>

lemma unat_minus_le: "b \<le> a \<Longrightarrow> unat (a - b) = unat a - unat (b :: 'a :: len word)"
  by (rule unat_sub)

lemma unat_plus_lt:
  "unat a + unat b < 2 ^ LENGTH('a) \<Longrightarrow> unat (a + b) = unat a + unat (b :: 'a :: len word)"
  by (simp add: unat_word_ariths)

lemma unat_plus_le: "unat (a + b) \<le> unat a + unat (b :: 'a :: len word)"
  by (simp add: unat_word_ariths)

lemma unat_mult_lt:
  "unat a * unat b < 2 ^ LENGTH('a) \<Longrightarrow> unat (a * b) = unat a * unat (b :: 'a :: len word)"
  by (simp add: unat_word_ariths)

lemma unat_Suc_lt:
  "i < (n :: 'a :: len word) \<Longrightarrow> unat (i + 1) = Suc (unat i)"
proof -
  assume "i < n"
  then have "unat i < unat n" by (simp add: word_less_nat_alt)
  moreover have "unat n < 2 ^ LENGTH('a)" by (rule unsigned_less)
  ultimately have "unat i + unat (1 :: 'a word) < 2 ^ LENGTH('a)"
    by (simp only: unsigned_1)
  then show ?thesis by (simp add: unat_plus_lt)
qed

lemma unat_of_nat_u32 [simp]: "n < 2 ^ 32 \<Longrightarrow> unat (of_nat n :: u32) = n"
  by (simp add: unat_of_nat take_bit_eq_mod)

lemma unat_minus_1_u32 [simp]: "unat (- 1 :: u32) = 4294967295"
  by (simp add: unsigned_minus_1_eq_mask mask_eq_exp_minus_1)

lemma unat_minus_u32: "unat (- x :: u32) = (if x = 0 then 0 else 2 ^ 32 - unat x)"
  using unat_sub_if' [of 0 x] by (auto simp: unat_eq_0)

section \<open>Loads and stores\<close>

definition ld8 :: "mem \<Rightarrow> addr \<Rightarrow> u8" where
  "ld8 m a = m a"

definition st8 :: "mem \<Rightarrow> addr \<Rightarrow> u8 \<Rightarrow> mem" where
  "st8 m a v = m(a := v)"

definition ld16 :: "mem \<Rightarrow> addr \<Rightarrow> u16" where
  "ld16 m a = ucast (m a) OR push_bit 8 (ucast (m (a + 1)))"

definition st16 :: "mem \<Rightarrow> addr \<Rightarrow> u16 \<Rightarrow> mem" where
  "st16 m a v = m(a := ucast v, a + 1 := ucast (drop_bit 8 v))"

definition ld32 :: "mem \<Rightarrow> addr \<Rightarrow> u32" where
  "ld32 m a = ucast (m a) OR push_bit 8 (ucast (m (a + 1)))
     OR push_bit 16 (ucast (m (a + 2))) OR push_bit 24 (ucast (m (a + 3)))"

definition st32 :: "mem \<Rightarrow> addr \<Rightarrow> u32 \<Rightarrow> mem" where
  "st32 m a v = m(a := ucast v, a + 1 := ucast (drop_bit 8 v),
     a + 2 := ucast (drop_bit 16 v), a + 3 := ucast (drop_bit 24 v))"

section \<open>Address ranges\<close>

text \<open>
  \<open>inr x a n\<close>: the address \<open>x\<close> is one of the \<open>n\<close> bytes from \<open>a\<close> on (modulo
  \<open>2 ^ 32\<close>). \<open>sep a n b k\<close>: neither range starts inside the other one, which for
  non-empty ranges says that they are disjoint (\<open>sep_disjoint\<close>).
\<close>

definition inr :: "addr \<Rightarrow> addr \<Rightarrow> nat \<Rightarrow> bool" where
  "inr x a n \<longleftrightarrow> unat (x - a) < n"

definition sep :: "addr \<Rightarrow> nat \<Rightarrow> addr \<Rightarrow> nat \<Rightarrow> bool" where
  "sep a n b k \<longleftrightarrow> n \<le> unat (b - a) \<and> k \<le> unat (a - b)"

lemma sep_sym: "sep a n b k \<Longrightarrow> sep b k a n"
  by (simp add: sep_def)

lemma sep_commute: "sep a n b k \<longleftrightarrow> sep b k a n"
  by (auto simp: sep_def)

lemma inr_self [simp]: "inr a a n \<longleftrightarrow> 0 < n"
  by (simp add: inr_def)

lemma inr_0 [simp]: "\<not> inr x a 0"
  by (simp add: inr_def)

lemma sep_neq: "sep a n b k \<Longrightarrow> 0 < n \<Longrightarrow> a \<noteq> b"
  by (auto simp: sep_def)

lemma unat_diff_cases:
  fixes u w :: "'a :: len word"
  shows "unat (u - w) \<le> unat u \<or> unat (w - u) \<le> unat w"
  by (cases "w \<le> u") (auto simp: unat_minus_le linorder_not_le)

lemma sep_disjoint: "sep a n b k \<Longrightarrow> inr x a n \<Longrightarrow> \<not> inr x b k"
proof
  assume s: "sep a n b k" and xa: "inr x a n" and xb: "inr x b k"
  have "(x - a) - (x - b) = b - a" "(x - b) - (x - a) = a - b"
    by simp_all
  with unat_diff_cases [of "x - a" "x - b"]
  have "unat (b - a) \<le> unat (x - a) \<or> unat (a - b) \<le> unat (x - b)"
    by simp
  with s xa xb show False
    by (auto simp: sep_def inr_def)
qed

lemma sepI_disjoint:
  assumes "0 < n" "0 < k" "\<And>x. inr x a n \<Longrightarrow> inr x b k \<Longrightarrow> False"
  shows "sep a n b k"
  using assms(3) [of b] assms(3) [of a] assms(1,2)
  by (auto simp: sep_def inr_def linorder_not_less [symmetric])

text \<open>A part of a range: an offset and a length that stay inside it.\<close>

lemma inr_part: "inr x (a + i) n' \<Longrightarrow> unat i + n' \<le> n \<Longrightarrow> inr x a n"
proof -
  assume x: "inr x (a + i) n'" and b: "unat i + n' \<le> n"
  have "unat (x - a) \<le> unat (x - (a + i)) + unat i"
    using unat_plus_le [of "x - (a + i)" i] by (simp add: algebra_simps)
  with x b show "inr x a n"
    by (auto simp: inr_def)
qed

lemma sep_parts:
  assumes "sep a n b k" "unat i + n' \<le> n" "unat j + k' \<le> k" "0 < n'" "0 < k'"
  shows "sep (a + i) n' (b + j) k'"
  using assms by (blast intro: sepI_disjoint dest: inr_part sep_disjoint)

lemma sep_offset_left:
  "sep a n b k \<Longrightarrow> unat i + n' \<le> n \<Longrightarrow> 0 < n' \<Longrightarrow> 0 < k \<Longrightarrow> sep (a + i) n' b k"
  using sep_parts [of a n b k i n' 0 k] by simp

lemma sep_offset_right:
  "sep a n b k \<Longrightarrow> unat j + k' \<le> k \<Longrightarrow> 0 < n \<Longrightarrow> 0 < k' \<Longrightarrow> sep a n (b + j) k'"
  using sep_parts [of a n b k 0 n j k'] by simp

lemma sep_self_offset:
  "n \<le> unat (j - i) \<Longrightarrow> k \<le> unat (i - j) \<Longrightarrow> sep (a + i) n (a + j) k"
  by (simp add: sep_def)

text \<open>Fields of one object at constant offsets: decided by evaluation.\<close>

lemma sep_fields [simp]:
  "sep (a + i) n (a + j) k \<longleftrightarrow> n \<le> unat (j - i) \<and> k \<le> unat (i - j)"
  "sep a n (a + j) k \<longleftrightarrow> n \<le> unat j \<and> k \<le> unat (- j)"
  "sep (a + i) n a k \<longleftrightarrow> n \<le> unat (- i) \<and> k \<le> unat i"
  by (auto simp: sep_def)

lemma sep_fields_commuted [simp]:
  "sep (a + i) n (numeral y + a) k \<longleftrightarrow> n \<le> unat (numeral y - i) \<and> k \<le> unat (i - numeral y)"
  "sep (numeral x + a) n (a + j) k \<longleftrightarrow> n \<le> unat (j - numeral x) \<and> k \<le> unat (numeral x - j)"
  "sep (numeral x + a) n (numeral y + a) k \<longleftrightarrow>
     n \<le> unat (numeral y - numeral x :: u32) \<and> k \<le> unat (numeral x - numeral y :: u32)"
  "sep a n (numeral y + a) k \<longleftrightarrow> n \<le> unat (numeral y :: u32) \<and> k \<le> unat (- numeral y :: u32)"
  "sep (numeral x + a) n a k \<longleftrightarrow> n \<le> unat (- numeral x :: u32) \<and> k \<le> unat (numeral x :: u32)"
  by (auto simp: sep_def algebra_simps)

text \<open>Consecutive ranges.\<close>

lemma sep_adjacent: "0 < n \<Longrightarrow> 0 < k \<Longrightarrow> n + k \<le> 2 ^ 32 \<Longrightarrow> sep a n (a + of_nat n) k"
proof -
  assume *: "0 < n" "0 < k" "n + k \<le> 2 ^ 32"
  then have "unat (of_nat n :: u32) = n" by simp
  moreover from this *(1) have "(of_nat n :: u32) \<noteq> 0"
    by (metis less_numeral_extra(3) unsigned_0)
  ultimately show ?thesis
    using * by (simp add: unat_minus_u32)
qed

text \<open>The elements of an array of \<open>n\<close> objects of \<open>w\<close> bytes.\<close>

lemma sep_array_less:
  assumes "i < j" "j < n" "w * n \<le> 2 ^ 32"
  shows "sep (a + of_nat (w * i)) w (a + of_nat (w * j)) w"
proof (cases "w = 0")
  case False
  have b: "w * j + w \<le> 2 ^ 32"
    using assms(2,3) mult_le_mono2 [of "Suc j" n w] by simp
  have d: "w * i \<le> w * j" "w \<le> w * j - w * i" "0 < w * j - w * i"
    using assms(1) False mult_le_mono2 [of "Suc i" j w] by auto
  have u: "unat (of_nat (w * j - w * i) :: u32) = w * j - w * i"
    using b False by simp
  then have n0: "(of_nat (w * j - w * i) :: u32) \<noteq> 0" using d(3) by (metis less_numeral_extra(3) unsigned_0)
  have e: "(of_nat (w * j) - of_nat (w * i) :: u32) = of_nat (w * j - w * i)"
    "(of_nat (w * i) - of_nat (w * j) :: u32) = - of_nat (w * j - w * i)"
    using d(1) by (simp_all only: of_nat_diff minus_diff_eq)
  show ?thesis
    unfolding sep_fields e unat_minus_u32 u using d b n0 by auto
qed (simp add: sep_def)

lemma sep_array:
  "i \<noteq> j \<Longrightarrow> i < n \<Longrightarrow> j < n \<Longrightarrow> w * n \<le> 2 ^ 32 \<Longrightarrow> sep (a + of_nat (w * i)) w (a + of_nat (w * j)) w"
  using sep_array_less [of i j n w a] sep_array_less [of j i n w a] sep_sym by (meson nat_neq_iff)

lemma array_offset:
  assumes "i < n" "w * n \<le> 2 ^ 32" "0 < w"
  shows "unat (of_nat (w * i) :: u32) + w \<le> w * n"
proof -
  have "w * i + w \<le> w * n" using assms(1) mult_le_mono2 [of "Suc i" n w] by simp
  moreover from this assms have "w * i < 2 ^ 32" by linarith
  ultimately show ?thesis by (simp only: unat_of_nat_u32)
qed

section \<open>Reads and writes of ranges\<close>

text \<open>Two stores agree on a range; a write that leaves everything outside a range alone.\<close>

definition eq_on :: "mem \<Rightarrow> mem \<Rightarrow> addr \<Rightarrow> nat \<Rightarrow> bool" where
  "eq_on m m' a n \<longleftrightarrow> (\<forall>x. inr x a n \<longrightarrow> m x = m' x)"

definition only_in :: "mem \<Rightarrow> mem \<Rightarrow> addr \<Rightarrow> nat \<Rightarrow> bool" where
  "only_in m m' a n \<longleftrightarrow> (\<forall>x. \<not> inr x a n \<longrightarrow> m' x = m x)"

lemma only_inD: "only_in m m' a n \<Longrightarrow> \<not> inr x a n \<Longrightarrow> m' x = m x"
  by (simp add: only_in_def)

lemma only_in_refl [simp]: "only_in m m a n"
  by (simp add: only_in_def)

lemma only_in_trans: "only_in m m' a n \<Longrightarrow> only_in m' m'' a n \<Longrightarrow> only_in m m'' a n"
  by (simp add: only_in_def)

lemma only_in_part:
  "only_in m m' (a + i) n' \<Longrightarrow> unat i + n' \<le> n \<Longrightarrow> only_in m m' a n"
  by (auto simp: only_in_def dest: inr_part)

lemma eq_on_part: "eq_on m m' a n \<Longrightarrow> unat i + k \<le> n \<Longrightarrow> eq_on m m' (a + i) k"
  by (auto simp: eq_on_def dest: inr_part)

lemma only_in_sep: "only_in m m' a n \<Longrightarrow> sep a n b k \<Longrightarrow> eq_on m' m b k"
  by (auto simp: only_in_def eq_on_def dest: sep_disjoint)

lemma inr_offset: "inr (a + i) a n \<longleftrightarrow> unat i < n"
  by (simp add: inr_def)

lemma ld8_cong: "eq_on m m' a 1 \<Longrightarrow> ld8 m a = ld8 m' a"
  by (simp add: eq_on_def ld8_def)

lemma ld16_cong: "eq_on m m' a 2 \<Longrightarrow> ld16 m a = ld16 m' a"
  by (simp add: eq_on_def ld16_def inr_offset)

lemma ld32_cong: "eq_on m m' a 4 \<Longrightarrow> ld32 m a = ld32 m' a"
  by (simp add: eq_on_def ld32_def inr_offset)

lemma only_in_st8: "only_in m (st8 m a v) a 1"
  by (simp add: only_in_def st8_def inr_def)

lemma only_in_st16: "only_in m (st16 m a v) a 2"
  by (auto simp: only_in_def st16_def inr_def)

lemma only_in_st32: "only_in m (st32 m a v) a 4"
  by (auto simp: only_in_def st32_def inr_def)

text \<open>
  The interface of a C object type of fixed width: what a load returns after a store, at
  the same place and at a separated one. Every width the kernel uses interprets it.
\<close>

locale c_access =
  fixes ld :: "mem \<Rightarrow> addr \<Rightarrow> 'v" and st :: "mem \<Rightarrow> addr \<Rightarrow> 'v \<Rightarrow> mem" and w :: nat
  assumes width_pos: "0 < w"
    and ld_st: "ld (st m a v) a = v"
    and ld_local: "eq_on m m' a w \<Longrightarrow> ld m a = ld m' a"
    and st_local: "only_in m (st m a v) a w"
    and st_twice: "st (st m a v) a v' = st m a v'"
begin

lemma ld_frame: "only_in m m' b k \<Longrightarrow> sep b k a w \<Longrightarrow> ld m' a = ld m a"
  by (blast intro: ld_local only_in_sep)

lemma st_frame: "sep a w b k \<Longrightarrow> eq_on (st m a v) m b k"
  by (rule only_in_sep [OF st_local])

lemma st_byte: "\<not> inr x a w \<Longrightarrow> st m a v x = m x"
  by (rule only_inD [OF st_local])

end

lemma drop_ucast_parts:
  fixes v :: u32
  shows "ucast (ucast v :: u8) OR push_bit 8 (ucast (ucast (drop_bit 8 v) :: u8))
     OR push_bit 16 (ucast (ucast (drop_bit 16 v) :: u8))
     OR push_bit 24 (ucast (ucast (drop_bit 24 v) :: u8)) = v"
proof (rule bit_word_eqI)
  fix n assume "n < LENGTH(32)"
  then consider "n < 8" | "8 \<le> n" "n < 16" | "16 \<le> n" "n < 24" | "24 \<le> n" "n < 32"
    by (cases "n < 8"; cases "n < 16"; cases "n < 24") auto
  then show "bit ((ucast (ucast v :: u8) :: u32) OR push_bit 8 (ucast (ucast (drop_bit 8 v) :: u8))
     OR push_bit 16 (ucast (ucast (drop_bit 16 v) :: u8))
     OR push_bit 24 (ucast (ucast (drop_bit 24 v) :: u8))) n = bit v n"
    by cases (auto simp: bit_simps)
qed

lemma ld32_st32: "ld32 (st32 m a v) a = v"
  using drop_ucast_parts [of v] by (simp add: ld32_def st32_def)

lemma ld16_st16: "ld16 (st16 m a v) a = v"
proof -
  have "ucast (ucast v :: u8) OR push_bit 8 (ucast (ucast (drop_bit 8 v) :: u8)) = v"
    by (rule bit_word_eqI) (auto simp: bit_simps)
  then show ?thesis by (simp add: ld16_def st16_def)
qed

interpretation b1: c_access ld8 st8 1
  using only_in_st8 ld8_cong by unfold_locales (auto simp: ld8_def st8_def)

interpretation b2: c_access ld16 st16 2
  by unfold_locales (simp_all add: ld16_st16 only_in_st16 ld16_cong, simp add: st16_def fun_eq_iff)

interpretation b4: c_access ld32 st32 4
  by unfold_locales (simp_all add: ld32_st32 only_in_st32 ld32_cong, simp add: st32_def fun_eq_iff)

text \<open>Read over write for every pair of widths, as rewrite rules with a separation premise.\<close>

lemma load_store_same [simp, mem_simps]:
  "ld8 (st8 m a b) a = b" "ld16 (st16 m a h) a = h" "ld32 (st32 m a v) a = v"
  by (simp_all add: b1.ld_st b2.ld_st b4.ld_st)

lemma load_store_sep [simp, mem_simps]:
  "sep a 1 b 1 \<Longrightarrow> ld8 (st8 m a x) b = ld8 m b"
  "sep a 2 b 1 \<Longrightarrow> ld8 (st16 m a y) b = ld8 m b"
  "sep a 4 b 1 \<Longrightarrow> ld8 (st32 m a z) b = ld8 m b"
  "sep a 1 b 2 \<Longrightarrow> ld16 (st8 m a x) b = ld16 m b"
  "sep a 2 b 2 \<Longrightarrow> ld16 (st16 m a y) b = ld16 m b"
  "sep a 4 b 2 \<Longrightarrow> ld16 (st32 m a z) b = ld16 m b"
  "sep a 1 b 4 \<Longrightarrow> ld32 (st8 m a x) b = ld32 m b"
  "sep a 2 b 4 \<Longrightarrow> ld32 (st16 m a y) b = ld32 m b"
  "sep a 4 b 4 \<Longrightarrow> ld32 (st32 m a z) b = ld32 m b"
  by (simp_all only: b1.ld_frame [OF b1.st_local] b1.ld_frame [OF b2.st_local]
      b1.ld_frame [OF b4.st_local] b2.ld_frame [OF b1.st_local] b2.ld_frame [OF b2.st_local]
      b2.ld_frame [OF b4.st_local] b4.ld_frame [OF b1.st_local] b4.ld_frame [OF b2.st_local]
      b4.ld_frame [OF b4.st_local])

text \<open>The store of zeroes, the start of every concrete example.\<close>

lemma load_zero [simp]: "ld8 (\<lambda>_. 0) a = 0" "ld16 (\<lambda>_. 0) a = 0" "ld32 (\<lambda>_. 0) a = 0"
  by (simp_all add: ld8_def ld16_def ld32_def)

section \<open>Outcomes\<close>

text \<open>
  What a kernel routine does to the machine state of type \<open>'s\<close>, seen from the thread that
  calls it:
  \<^item> \<open>Ok a s\<close>: it returns \<open>a\<close> in the state \<open>s\<close>;
  \<^item> \<open>Panic f c\<close>: an assertion \<open>c\<close> of function \<open>f\<close> failed, and \<open>PanicSpin\<close>
    loops forever with interrupts disabled;
  \<^item> \<open>Switched s\<close>: a context switch gave the processor to another thread, which goes on
    in the state \<open>s\<close>; the caller resumes when it is scheduled again;
  \<^item> \<open>Diverge\<close>: a loop of the routine never ends.
\<close>

datatype ('s, 'a) outcome = Ok 'a 's | Panic string string | Switched 's | Diverge

fun obind :: "('s, 'a) outcome \<Rightarrow> ('a \<Rightarrow> 's \<Rightarrow> ('s, 'b) outcome) \<Rightarrow> ('s, 'b) outcome" where
  "obind (Ok a s) f = f a s"
| "obind (Panic fn c) f = Panic fn c"
| "obind (Switched s) f = Switched s"
| "obind Diverge f = Diverge"

lemma obind_cong [fundef_cong]:
  "x = y \<Longrightarrow> (\<And>a s. y = Ok a s \<Longrightarrow> f a s = g a s) \<Longrightarrow> obind x f = obind y g"
  by (cases y) auto

lemma obind_Ok_iff: "obind x f = Ok b t \<longleftrightarrow> (\<exists>a s. x = Ok a s \<and> f a s = Ok b t)"
  by (cases x) auto

lemma obind_assoc: "obind (obind x f) g = obind x (\<lambda>a s. obind (f a s) g)"
  by (cases x) auto

text \<open>A loop given as a partial function: \<open>None\<close> is a loop that never ends.\<close>

fun of_loop :: "('s, 'a) outcome option \<Rightarrow> ('s, 'a) outcome" where
  "of_loop None = Diverge"
| "of_loop (Some r) = r"

text \<open>The \<open>ASSERT\<close> macro of \<open>debug.h\<close> with \<open>DEBUG\<close> set, followed by the rest of the code.\<close>

definition ASSERT :: "string \<Rightarrow> string \<Rightarrow> bool \<Rightarrow> ('s, 'a) outcome \<Rightarrow> ('s, 'a) outcome" where
  "ASSERT fn cond b rest = (if b then rest else Panic fn cond)"

lemma ASSERT_simps [simp]:
  "ASSERT fn cond True rest = rest" "ASSERT fn cond False rest = Panic fn cond"
  by (simp_all add: ASSERT_def)

lemma ASSERT_cong [fundef_cong]:
  "b = b' \<Longrightarrow> (b' \<Longrightarrow> x = y) \<Longrightarrow> ASSERT fn cond b x = ASSERT fn cond b' y"
  by (simp add: ASSERT_def)

lemma ASSERT_Ok_iff: "ASSERT fn cond b x = Ok a s \<longleftrightarrow> b \<and> x = Ok a s"
  by (simp add: ASSERT_def)

end
