(* ===== verification/Machine.thy ===== *)
theory Machine
  imports Prelude
begin

text \<open>
  The machine state the kernel's routines run on, and the interrupt-flag interface of
  \<open>kernel/interrupt.c\<close>.

  The state holds the byte store, the registers the code touches through inline assembly
  (\<open>eflags\<close>, \<open>esp\<close>, \<open>cr3\<close>), what was sent to the screen and to I/O ports, and the scalar
  static variables whose address is never taken. Objects whose address is taken live in
  the byte store, at the addresses the linker gives them: these are the parameters
  collected in the record \<open>symbols\<close>.
\<close>

section \<open>State\<close>

record kstate =
  mem :: mem
  eflags :: u32
  esp :: addr
  cr3 :: u32
  screen :: "u8 list"            \<comment> \<open>bytes passed to \<open>sys_putchar\<close>, newest last\<close>
  ports :: "(u16 \<times> u8) list"     \<comment> \<open>bytes written with \<open>outb\<close>, newest last\<close>
  main_thread :: addr
  thread_tag :: addr
  next_pid :: u16
  ticks :: u32
  in_ports :: "u16 \<Rightarrow> u8"        \<comment> \<open>the byte a device presents at a port to \<open>inb\<close>\<close>
  gdtr :: "u16 \<times> u32"           \<comment> \<open>limit and base loaded by \<open>lgdt\<close>\<close>
  idtr :: "u16 \<times> u32"           \<comment> \<open>limit and base loaded by \<open>lidt\<close>\<close>
  tr :: u16                      \<comment> \<open>selector loaded by \<open>ltr\<close>\<close>
  ctrl_status :: u8
  shift_status :: u8
  alt_status :: u8
  caps_lock_status :: u8
  ext_scancode :: u8
  test_var_a :: u32
  test_var_b :: u32

text \<open>The functions whose address the kernel stores in a table or on a stack.\<close>

datatype kernel_fn =
  Fn_KernelThread | Fn_StartProcess | Fn_GeneralIntHandler | Fn_IntTimerHandler
| Fn_IntKeyboardHandler | Fn_syscall_handler | Fn_sys_getpid | Fn_sys_write | Fn_sys_malloc
| Fn_sys_free | Fn_KeyboardOutput | Fn_u_prog_a | Fn_u_prog_b

text \<open>
  Addresses of the kernel's static objects and functions, and of its string literals, chosen
  by the compiler and the linker.
\<close>

record symbols =
  ready_thread_list :: addr
  all_thread_list :: addr
  pid_lock :: addr
  kernel_memory_pool :: addr
  user_memory_pool :: addr
  kernel_vaddr :: addr
  kernel_arena_descs :: addr
  sym_tss :: addr
  console_lock :: addr
  keyboard_IO_buf :: addr
  sym_IDT :: addr
  idt_table :: addr
  interrupt_name :: addr
  interrupt_entry_table :: addr
  syscall_table :: addr
  fn_addr :: "kernel_fn \<Rightarrow> addr"
  literal :: "string \<Rightarrow> addr"

text \<open>Updating the byte store of a state.\<close>

definition put32 :: "kstate \<Rightarrow> addr \<Rightarrow> u32 \<Rightarrow> kstate" where
  "put32 s a v = s\<lparr>mem := st32 (mem s) a v\<rparr>"

definition put16 :: "kstate \<Rightarrow> addr \<Rightarrow> u16 \<Rightarrow> kstate" where
  "put16 s a v = s\<lparr>mem := st16 (mem s) a v\<rparr>"

definition put8 :: "kstate \<Rightarrow> addr \<Rightarrow> u8 \<Rightarrow> kstate" where
  "put8 s a v = s\<lparr>mem := st8 (mem s) a v\<rparr>"

lemma mem_put [simp, mem_simps]:
  "mem (put8 s a b) = st8 (mem s) a b" "mem (put16 s a h) = st16 (mem s) a h"
  "mem (put32 s a v) = st32 (mem s) a v"
  by (simp_all add: put8_def put16_def put32_def)

lemma regs_put [simp]:
  "eflags (put8 s a b) = eflags s" "eflags (put16 s a h) = eflags s"
  "eflags (put32 s a v) = eflags s"
  "esp (put8 s a b) = esp s" "esp (put16 s a h) = esp s" "esp (put32 s a v) = esp s"
  "cr3 (put8 s a b) = cr3 s" "cr3 (put16 s a h) = cr3 s" "cr3 (put32 s a v) = cr3 s"
  by (simp_all add: put8_def put16_def put32_def)

text \<open>Operations that change nothing but the byte store.\<close>

definition mem_only :: "kstate \<Rightarrow> kstate \<Rightarrow> bool" where
  "mem_only s t \<longleftrightarrow> t = s\<lparr>mem := mem t\<rparr>"

lemma mem_only_refl [simp]: "mem_only s s"
  by (simp add: mem_only_def)

lemma mem_only_put [simp]:
  "mem_only s (put8 s a b)" "mem_only s (put16 s a h)" "mem_only s (put32 s a v)" "mem_only s (s\<lparr>mem := m\<rparr>)"
  by (simp_all add: mem_only_def put8_def put16_def put32_def)

lemma mem_only_trans: "mem_only s t \<Longrightarrow> mem_only t u \<Longrightarrow> mem_only s u"
  unfolding mem_only_def by (cases s; cases t; cases u) simp

lemma mem_onlyD:
  assumes "mem_only s t"
  shows "eflags t = eflags s" "esp t = esp s" "cr3 t = cr3 s" "screen t = screen s" "ports t = ports s"
    "idtr t = idtr s" "gdtr t = gdtr s" "tr t = tr s" "next_pid t = next_pid s" "main_thread t = main_thread s"
    "ticks t = ticks s"
proof -
  have "t = s\<lparr>mem := mem t\<rparr>" using assms by (simp add: mem_only_def)
  then obtain m where "t = s\<lparr>mem := m\<rparr>" by blast
  then show "eflags t = eflags s" "esp t = esp s" "cr3 t = cr3 s" "screen t = screen s" "ports t = ports s"
    "idtr t = idtr s" "gdtr t = gdtr s" "tr t = tr s" "next_pid t = next_pid s" "main_thread t = main_thread s"
    "ticks t = ticks s"
    by simp_all
qed

text \<open>Running an operation of the byte store alone inside the whole state.\<close>

fun on_mem :: "kstate \<Rightarrow> (mem, 'a) outcome \<Rightarrow> (kstate, 'a) outcome" where
  "on_mem s (Ok a m) = Ok a (s\<lparr>mem := m\<rparr>)"
| "on_mem s (Panic fn c) = Panic fn c"
| "on_mem s (Switched m) = Switched (s\<lparr>mem := m\<rparr>)"
| "on_mem s Diverge = Diverge"

lemma on_mem_Ok_iff: "on_mem s x = Ok a t \<longleftrightarrow> (\<exists>m. x = Ok a m \<and> t = s\<lparr>mem := m\<rparr>)"
  by (cases x) auto

section \<open>Port input and output (kernel/io.h)\<close>

definition outb :: "kstate \<Rightarrow> u16 \<Rightarrow> u8 \<Rightarrow> kstate" where
  "outb s port data = s\<lparr>ports := ports s @ [(port, data)]\<rparr>"

definition inb :: "kstate \<Rightarrow> u16 \<Rightarrow> u8" where
  "inb s port = in_ports s port"

lemma mem_outb [simp]: "mem (outb s p d) = mem s" "eflags (outb s p d) = eflags s"
  by (simp_all add: outb_def)

section \<open>The interrupt flag (kernel/interrupt.c)\<close>

datatype int_status = INT_OFF | INT_ON

definition EFLAGS_IF :: u32 where
  "EFLAGS_IF = 0x200"

text \<open>The instructions \<open>sti\<close> and \<open>cli\<close>.\<close>

definition sti :: "kstate \<Rightarrow> kstate" where
  "sti s = s\<lparr>eflags := eflags s OR EFLAGS_IF\<rparr>"

definition cli :: "kstate \<Rightarrow> kstate" where
  "cli s = s\<lparr>eflags := eflags s AND NOT EFLAGS_IF\<rparr>"

definition GetIntStatus :: "kstate \<Rightarrow> int_status" where
  "GetIntStatus s = (if eflags s AND EFLAGS_IF \<noteq> 0 then INT_ON else INT_OFF)"

definition EnableInt :: "kstate \<Rightarrow> int_status \<times> kstate" where
  "EnableInt s = (if INT_ON = GetIntStatus s then (INT_ON, s) else (INT_OFF, sti s))"

definition DisableInt :: "kstate \<Rightarrow> int_status \<times> kstate" where
  "DisableInt s = (if INT_ON = GetIntStatus s then (INT_ON, cli s) else (INT_OFF, s))"

definition SetIntStatus :: "int_status \<Rightarrow> kstate \<Rightarrow> int_status \<times> kstate" where
  "SetIntStatus status s = (if status = INT_ON then EnableInt s else DisableInt s)"

lemma int_status_neq [simp]: "st \<noteq> INT_ON \<longleftrightarrow> st = INT_OFF" "INT_ON \<noteq> st \<longleftrightarrow> st = INT_OFF"
  by (cases st; simp)+

lemma EFLAGS_IF_bit: "bit EFLAGS_IF n \<longleftrightarrow> n = 9"
proof -
  have "EFLAGS_IF = push_bit 9 1"
    by (simp add: EFLAGS_IF_def)
  then have "bit EFLAGS_IF n \<longleftrightarrow> bit (push_bit 9 (1 :: u32)) n"
    by (rule arg_cong)
  then show ?thesis
    by (auto simp only: bit_simps) auto
qed

lemma IF_set_iff: "x AND EFLAGS_IF \<noteq> 0 \<longleftrightarrow> bit (x :: u32) 9"
proof -
  have "x AND EFLAGS_IF = 0 \<longleftrightarrow> (\<forall>n < 32. \<not> (bit x n \<and> n = 9))"
    by (auto simp: bit_eq_iff bit_and_iff EFLAGS_IF_bit)
  then show ?thesis by auto
qed

lemma GetIntStatus_iff: "GetIntStatus s = INT_ON \<longleftrightarrow> bit (eflags s) 9"
  by (simp add: GetIntStatus_def IF_set_iff)

lemma GetIntStatus_cli [simp]: "GetIntStatus (cli s) = INT_OFF"
  using GetIntStatus_iff [of "cli s"]
  by (cases "GetIntStatus (cli s)") (auto simp: cli_def bit_simps EFLAGS_IF_bit)

lemma GetIntStatus_sti [simp]: "GetIntStatus (sti s) = INT_ON"
  by (simp only: GetIntStatus_iff) (simp add: sti_def bit_simps EFLAGS_IF_bit)

lemma GetIntStatus_mem [simp]:
  "GetIntStatus (s\<lparr>mem := m\<rparr>) = GetIntStatus s" "GetIntStatus (put32 s a v) = GetIntStatus s"
  "GetIntStatus (put16 s a h) = GetIntStatus s" "GetIntStatus (put8 s a b) = GetIntStatus s"
  by (simp_all add: GetIntStatus_def)

lemma mem_int [simp]: "mem (cli s) = mem s" "mem (sti s) = mem s"
  by (simp_all add: cli_def sti_def)

lemma cli_sti: "GetIntStatus s = INT_ON \<Longrightarrow> sti (cli s) = s"
proof -
  assume "GetIntStatus s = INT_ON"
  then have "bit (eflags s) 9" by (simp add: GetIntStatus_iff)
  then have "(eflags s AND NOT EFLAGS_IF) OR EFLAGS_IF = eflags s"
    by (intro bit_word_eqI) (auto simp: bit_simps EFLAGS_IF_bit)
  then show ?thesis by (simp add: sti_def cli_def)
qed

lemma cli_sti_mem:
  "GetIntStatus s = INT_ON \<Longrightarrow> sti ((cli s)\<lparr>mem := m\<rparr>) = s\<lparr>mem := m\<rparr>"
proof -
  assume "GetIntStatus s = INT_ON"
  then have "eflags (sti (cli s)) = eflags s"
    by (simp only: cli_sti)
  then show ?thesis by (cases s) (simp add: sti_def cli_def)
qed

text \<open>
  A critical section: disable interrupts, change the store, restore the saved status. The
  flag ends as it began, whatever it was.
\<close>

lemma critical_section [simp]:
  "snd (SetIntStatus (fst (DisableInt s)) ((snd (DisableInt s))\<lparr>mem := m\<rparr>)) = s\<lparr>mem := m\<rparr>"
  by (auto simp: DisableInt_def SetIntStatus_def EnableInt_def cli_sti_mem)

lemma critical_section_id:
  "snd (SetIntStatus (fst (DisableInt s)) (snd (DisableInt s))) = s"
  by (auto simp: DisableInt_def SetIntStatus_def EnableInt_def cli_sti)

lemma DisableInt_off [simp]: "GetIntStatus (snd (DisableInt s)) = INT_OFF"
  by (simp add: DisableInt_def)

lemma DisableInt_regs [simp]:
  "mem (snd (DisableInt s)) = mem s" "esp (snd (DisableInt s)) = esp s"
  "cr3 (snd (DisableInt s)) = cr3 s"
  by (simp_all add: DisableInt_def cli_def)

end
