(* ===== verification/KList.thy ===== *)
theory KList
  imports Machine
begin

text \<open>
  \<open>lib/kernel/list.c\<close>: the intrusive doubly linked lists the scheduler, the semaphores and
  the block allocator use. A node is two pointers in the store, \<open>prev\<close> at offset 0 and
  \<open>next\<close> at offset 4; a list is two sentinel nodes, \<open>head\<close> at offset 0 and \<open>tail\<close> at
  offset 8. Walks that follow \<open>next\<close> need not end on a damaged list, so they are partial
  functions.
\<close>

section \<open>The operations\<close>

abbreviation list_tail :: "addr \<Rightarrow> addr" where
  "list_tail l \<equiv> l + 8"

definition prev_of :: "mem \<Rightarrow> addr \<Rightarrow> addr" where
  "prev_of m e = ld32 m e"

definition next_of :: "mem \<Rightarrow> addr \<Rightarrow> addr" where
  "next_of m e = ld32 m (e + 4)"

definition set_prev :: "mem \<Rightarrow> addr \<Rightarrow> addr \<Rightarrow> mem" where
  "set_prev m e p = st32 m e p"

definition set_next :: "mem \<Rightarrow> addr \<Rightarrow> addr \<Rightarrow> mem" where
  "set_next m e n = st32 m (e + 4) n"

definition list_init :: "kstate \<Rightarrow> addr \<Rightarrow> kstate" where
  "list_init s list =
     (let m1 = set_prev (mem s) list NULL;
          m2 = set_next m1 list (list_tail list);
          m3 = set_prev m2 (list_tail list) list;
          m4 = set_next m3 (list_tail list) NULL
      in s\<lparr>mem := m4\<rparr>)"

text \<open>The pointer updates between \<open>DisableInt\<close> and \<open>SetIntStatus\<close>, in source order.\<close>

definition link_before :: "mem \<Rightarrow> addr \<Rightarrow> addr \<Rightarrow> mem" where
  "link_before m before elem =
     (let m1 = set_next m (prev_of m before) elem;
          m2 = set_prev m1 elem (prev_of m1 before);
          m3 = set_next m2 elem before
      in set_prev m3 before elem)"

definition list_insert_before :: "kstate \<Rightarrow> addr \<Rightarrow> addr \<Rightarrow> (kstate, unit) outcome" where
  "list_insert_before s before elem =
     (let (old_status, s1) = DisableInt s
      in ASSERT ''list_insert_before'' ''elem != NULL'' (elem \<noteq> NULL)
           (Ok () (snd (SetIntStatus old_status (s1\<lparr>mem := link_before (mem s1) before elem\<rparr>)))))"

definition list_push :: "kstate \<Rightarrow> addr \<Rightarrow> addr \<Rightarrow> (kstate, unit) outcome" where
  "list_push s plist elem = list_insert_before s (next_of (mem s) plist) elem"

definition list_append :: "kstate \<Rightarrow> addr \<Rightarrow> addr \<Rightarrow> (kstate, unit) outcome" where
  "list_append s plist elem = list_insert_before s (list_tail plist) elem"

definition unlink :: "mem \<Rightarrow> addr \<Rightarrow> mem" where
  "unlink m pelem =
     (let m1 = set_next m (prev_of m pelem) (next_of m pelem)
      in set_prev m1 (next_of m1 pelem) (prev_of m1 pelem))"

definition list_remove :: "kstate \<Rightarrow> addr \<Rightarrow> (kstate, unit) outcome" where
  "list_remove s pelem =
     (let (old_status, s1) = DisableInt s
      in Ok () (snd (SetIntStatus old_status (s1\<lparr>mem := unlink (mem s1) pelem\<rparr>))))"

definition list_pop :: "kstate \<Rightarrow> addr \<Rightarrow> (kstate, addr) outcome" where
  "list_pop s plist =
     (let elem = next_of (mem s) plist
      in obind (list_remove s elem) (\<lambda>_ s1. Ok elem s1))"

partial_function (option) elem_find_loop ::
  "kstate \<Rightarrow> addr \<Rightarrow> addr \<Rightarrow> addr \<Rightarrow> (kstate, bool) outcome option" where
  "elem_find_loop s plist obj_elem elem =
     (if elem \<noteq> list_tail plist
      then if elem = NULL then Some (Panic ''elem_find'' ''elem != NULL'')
           else if elem = obj_elem then Some (Ok True s)
           else elem_find_loop s plist obj_elem (next_of (mem s) elem)
      else Some (Ok False s))"

definition elem_find :: "kstate \<Rightarrow> addr \<Rightarrow> addr \<Rightarrow> (kstate, bool) outcome" where
  "elem_find s plist obj_elem =
     of_loop (elem_find_loop s plist obj_elem (next_of (mem s) plist))"

definition list_empty :: "mem \<Rightarrow> addr \<Rightarrow> bool" where
  "list_empty m plist \<longleftrightarrow> next_of m plist = list_tail plist"

partial_function (option) list_traversal_loop ::
  "kstate \<Rightarrow> addr \<Rightarrow> (addr \<Rightarrow> int \<Rightarrow> bool) \<Rightarrow> int \<Rightarrow> addr \<Rightarrow> (kstate, addr) outcome option" where
  "list_traversal_loop s plist func arg elem =
     (if elem \<noteq> list_tail plist
      then if func elem arg then Some (Ok elem s)
           else list_traversal_loop s plist func arg (next_of (mem s) elem)
      else Some (Ok NULL s))"

definition list_traversal ::
  "kstate \<Rightarrow> addr \<Rightarrow> (addr \<Rightarrow> int \<Rightarrow> bool) \<Rightarrow> int \<Rightarrow> (kstate, addr) outcome" where
  "list_traversal s plist func arg =
     (if list_empty (mem s) plist then Ok NULL s
      else of_loop (list_traversal_loop s plist func arg (next_of (mem s) plist)))"

partial_function (option) list_len_loop ::
  "kstate \<Rightarrow> addr \<Rightarrow> addr \<Rightarrow> u32 \<Rightarrow> (kstate, u32) outcome option" where
  "list_len_loop s plist elem len =
     (if elem \<noteq> list_tail plist
      then list_len_loop s plist (next_of (mem s) elem) (len + 1)
      else Some (Ok len s))"

definition list_len :: "kstate \<Rightarrow> addr \<Rightarrow> (kstate, u32) outcome" where
  "list_len s plist = of_loop (list_len_loop s plist (next_of (mem s) plist) 0)"

section \<open>Lists in the store\<close>

text \<open>
  \<open>is_list m l xs\<close>: the list at \<open>l\<close> holds exactly the nodes \<open>xs\<close>, in this order. All
  nodes, sentinels included, occupy separate bytes, neighbours point at each other, and
  no element is the null pointer.
\<close>

definition linked :: "mem \<Rightarrow> addr \<Rightarrow> addr \<Rightarrow> bool" where
  "linked m a b \<longleftrightarrow> next_of m a = b \<and> prev_of m b = a"

definition nodes_sep :: "addr set \<Rightarrow> bool" where
  "nodes_sep N \<longleftrightarrow> (\<forall>x \<in> N. \<forall>y \<in> N. x \<noteq> y \<longrightarrow> sep x 8 y 8)"

abbreviation nodes :: "addr \<Rightarrow> addr list \<Rightarrow> addr list" where
  "nodes l xs \<equiv> l # xs @ [list_tail l]"

definition is_list :: "mem \<Rightarrow> addr \<Rightarrow> addr list \<Rightarrow> bool" where
  "is_list m l xs \<longleftrightarrow> successively (linked m) (nodes l xs) \<and> distinct (nodes l xs)
     \<and> nodes_sep (set (nodes l xs)) \<and> NULL \<notin> set xs"

text \<open>A node that can be put into the list.\<close>

definition fresh_node :: "addr \<Rightarrow> addr list \<Rightarrow> addr \<Rightarrow> bool" where
  "fresh_node l xs e \<longleftrightarrow> e \<noteq> NULL \<and> (\<forall>x \<in> set (nodes l xs). sep e 8 x 8)"

text \<open>A change of the store confined to a set of nodes.\<close>

definition only_nodes :: "mem \<Rightarrow> mem \<Rightarrow> addr set \<Rightarrow> bool" where
  "only_nodes m m' N \<longleftrightarrow> (\<forall>y. (\<forall>x \<in> N. \<not> inr y x 8) \<longrightarrow> m' y = m y)"

lemma only_nodes_refl [simp]: "only_nodes m m N"
  by (simp add: only_nodes_def)

lemma only_nodes_mono: "only_nodes m m' N \<Longrightarrow> N \<subseteq> N' \<Longrightarrow> only_nodes m m' N'"
  by (auto simp: only_nodes_def)

lemma only_nodes_trans: "only_nodes m m' N \<Longrightarrow> only_nodes m' m'' N \<Longrightarrow> only_nodes m m'' N"
  by (auto simp: only_nodes_def)

lemma only_nodes_set_prev: "e \<in> N \<Longrightarrow> only_nodes m (set_prev m e p) N"
  using only_in_part [of m "set_prev m e p" e 0 4 8] only_in_st32 [of m e p]
  by (auto simp: only_nodes_def set_prev_def only_in_def)

lemma only_nodes_set_next: "e \<in> N \<Longrightarrow> only_nodes m (set_next m e p) N"
  using only_in_part [of m "set_next m e p" e 4 4 8] only_in_st32 [of m "e + 4" p]
  by (auto simp: only_nodes_def set_next_def only_in_def)

lemma only_nodes_eq_on:
  assumes "only_nodes m m' N" "\<And>x. x \<in> N \<Longrightarrow> sep x 8 a n"
  shows "eq_on m' m a n"
proof -
  have "m' y = m y" if "inr y a n" for y
    using assms(1) sep_disjoint [OF assms(2)] that by (auto simp: only_nodes_def)
  then show ?thesis by (simp add: eq_on_def)
qed

text \<open>Fields of separated nodes do not interfere.\<close>

lemma node_fields [simp]:
  "prev_of (set_prev m a v) a = v" "next_of (set_next m a v) a = v"
  "prev_of (set_next m a v) a = prev_of m a" "next_of (set_prev m a v) a = next_of m a"
  by (simp_all add: prev_of_def next_of_def set_prev_def set_next_def)

lemma node_fields_sep:
  assumes "a = b \<or> sep a 8 b 8"
  shows "prev_of (set_prev m a v) b = (if a = b then v else prev_of m b)"
    "next_of (set_next m a v) b = (if a = b then v else next_of m b)"
    "prev_of (set_next m a v) b = prev_of m b" "next_of (set_prev m a v) b = next_of m b"
  using assms sep_parts [of a 8 b 8 0 4 0 4] sep_parts [of a 8 b 8 4 4 4 4]
    sep_parts [of a 8 b 8 4 4 0 4] sep_parts [of a 8 b 8 0 4 4 4]
  by (auto simp: prev_of_def next_of_def set_prev_def set_next_def)

lemma node_eq_on:
  "eq_on m m' x 8 \<Longrightarrow> prev_of m x = prev_of m' x"
  "eq_on m m' x 8 \<Longrightarrow> next_of m x = next_of m' x"
proof -
  assume "eq_on m m' x 8"
  then have "eq_on m m' x 4" "eq_on m m' (x + 4) 4"
    using inr_part [of _ x 0 4 8] inr_part [of _ x 4 4 8] by (auto simp: eq_on_def)
  then show "prev_of m x = prev_of m' x" "next_of m x = next_of m' x"
    by (simp_all add: prev_of_def next_of_def ld32_cong)
qed

lemma nodes_sepD: "nodes_sep N \<Longrightarrow> x \<in> N \<Longrightarrow> y \<in> N \<Longrightarrow> x \<noteq> y \<Longrightarrow> sep x 8 y 8"
  by (simp add: nodes_sep_def)

lemma nodes_sep_subset: "nodes_sep N \<Longrightarrow> N' \<subseteq> N \<Longrightarrow> nodes_sep N'"
  by (auto simp: nodes_sep_def)

lemma nodes_sep_insert:
  "nodes_sep (insert e N) \<longleftrightarrow> nodes_sep N \<and> (\<forall>x \<in> N. e \<noteq> x \<longrightarrow> sep e 8 x 8)"
  by (auto simp: nodes_sep_def dest: sep_sym)

lemma fresh_node_notin: "fresh_node l xs e \<Longrightarrow> e \<notin> set (nodes l xs)"
  by (auto simp: fresh_node_def sep_def)

text \<open>What linking a node in and out does to the pointers of the nodes around it.\<close>

lemma link_before_fields:
  assumes N: "nodes_sep N" "e \<in> N" "b \<in> N" "prev_of m b \<in> N" "x \<in> N"
    and d: "prev_of m b \<noteq> b" "e \<noteq> b" "e \<noteq> prev_of m b"
  shows "next_of (link_before m b e) x =
      (if x = prev_of m b then e else if x = e then b else next_of m x)"
    and "prev_of (link_before m b e) x =
      (if x = b then e else if x = e then prev_of m b else prev_of m x)"
proof -
  have "prev_of m b = x \<or> sep (prev_of m b) 8 x 8" "e = x \<or> sep e 8 x 8" "b = x \<or> sep b 8 x 8"
    "prev_of m b = b \<or> sep (prev_of m b) 8 b 8"
    using N nodes_sepD by blast+
  then show "next_of (link_before m b e) x =
      (if x = prev_of m b then e else if x = e then b else next_of m x)"
    "prev_of (link_before m b e) x =
      (if x = b then e else if x = e then prev_of m b else prev_of m x)"
    using d by (auto simp: link_before_def Let_def node_fields_sep)
qed

lemma unlink_fields:
  assumes N: "nodes_sep N" "e \<in> N" "prev_of m e \<in> N" "next_of m e \<in> N" "x \<in> N"
    and d: "prev_of m e \<noteq> e"
  shows "next_of (unlink m e) x = (if x = prev_of m e then next_of m e else next_of m x)"
    and "prev_of (unlink m e) x = (if x = next_of m e then prev_of m e else prev_of m x)"
    and "only_nodes m (unlink m e) {prev_of m e, next_of m e}"
proof -
  have s: "prev_of m e = x \<or> sep (prev_of m e) 8 x 8" "next_of m e = x \<or> sep (next_of m e) 8 x 8"
    "prev_of m e = e \<or> sep (prev_of m e) 8 e 8"
    using N nodes_sepD by blast+
  then have u: "unlink m e = set_prev (set_next m (prev_of m e) (next_of m e)) (next_of m e) (prev_of m e)"
    using d by (simp add: unlink_def Let_def node_fields_sep)
  show "next_of (unlink m e) x = (if x = prev_of m e then next_of m e else next_of m x)"
    "prev_of (unlink m e) x = (if x = next_of m e then prev_of m e else prev_of m x)"
    using s d by (simp_all add: u node_fields_sep)
  show "only_nodes m (unlink m e) {prev_of m e, next_of m e}"
    unfolding u by (intro only_nodes_trans [OF only_nodes_set_next only_nodes_set_prev]) auto
qed

lemma link_before_only: "only_nodes m (link_before m b e) {prev_of m b, b, e}"
  unfolding link_before_def Let_def
  by (intro only_nodes_trans [OF only_nodes_trans [OF only_nodes_trans
        [OF only_nodes_set_next only_nodes_set_prev] only_nodes_set_next] only_nodes_set_prev])
    auto

lemma successively_mono_on:
  "successively P xs \<Longrightarrow> (\<And>x y. x \<in> set xs \<Longrightarrow> y \<in> set xs \<Longrightarrow> P x y \<Longrightarrow> Q x y) \<Longrightarrow>
   successively Q xs"
  by (induction P xs rule: successively.induct) auto

lemma successively_split:
  "successively R (as @ p # b # bs) \<longleftrightarrow>
     successively R (as @ [p]) \<and> R p b \<and> successively R (b # bs)"
  by (auto simp: successively_append_iff)

text \<open>Links that survive a change of the pointers around one place of the chain.\<close>

lemma linked_keep:
  assumes "successively (linked m) xs"
    and "\<And>x y. x \<in> set xs \<Longrightarrow> y \<in> set xs \<Longrightarrow> linked m x y \<Longrightarrow>
      next_of m' x = next_of m x \<and> prev_of m' y = prev_of m y"
  shows "successively (linked m') xs"
  using assms(1) by (rule successively_mono_on) (use assms(2) in \<open>auto simp: linked_def\<close>)

lemma chain_insert:
  assumes chain: "successively (linked m) (as @ p # b # bs)"
    and d: "distinct (as @ p # b # bs)" and N: "nodes_sep (insert e (set (as @ p # b # bs)))"
    and e: "e \<notin> set (as @ p # b # bs)"
  shows "successively (linked (link_before m b e)) (as @ p # e # b # bs)"
proof -
  let ?m = "link_before m b e"
  have parts: "successively (linked m) (as @ [p])" "successively (linked m) (b # bs)"
    and pb: "next_of m p = b" "prev_of m b = p"
    using chain by (simp_all add: successively_split linked_def)
  have ne: "p \<noteq> b" "e \<noteq> b" "e \<noteq> p" "b \<notin> set (as @ [p])" "p \<notin> set (b # bs)"
    "e \<notin> set (as @ [p])" "e \<notin> set (b # bs)"
    using d e by auto
  have next': "next_of ?m x = (if x = p then e else if x = e then b else next_of m x)"
    and prev': "prev_of ?m x = (if x = b then e else if x = e then p else prev_of m x)"
    if "x \<in> insert e (set (as @ p # b # bs))" for x
    using link_before_fields [OF N, of e b m x] that pb ne by simp_all
  have "successively (linked ?m) (as @ [p])"
  proof (rule linked_keep [OF parts(1)])
    fix x y assume *: "x \<in> set (as @ [p])" "y \<in> set (as @ [p])" "linked m x y"
    then have "x \<noteq> p" "x \<noteq> e" "y \<noteq> b" "y \<noteq> e"
      using ne pb unfolding linked_def by metis+
    then show "next_of ?m x = next_of m x \<and> prev_of ?m y = prev_of m y"
      using * next' [of x] prev' [of y] by auto
  qed
  moreover have "successively (linked ?m) (b # bs)"
  proof (rule linked_keep [OF parts(2)])
    fix x y assume *: "x \<in> set (b # bs)" "y \<in> set (b # bs)" "linked m x y"
    then have "x \<noteq> p" "x \<noteq> e" "y \<noteq> b" "y \<noteq> e"
      using ne pb unfolding linked_def by metis+
    then show "next_of ?m x = next_of m x \<and> prev_of ?m y = prev_of m y"
      using * next' [of x] prev' [of y] by auto
  qed
  moreover have "linked ?m p e" "linked ?m e b"
    using ne by (simp_all add: linked_def next' prev')
  ultimately show ?thesis
    by (simp add: successively_append_iff)
qed

lemma chain_remove:
  assumes chain: "successively (linked m) (as @ p # e # n # bs)"
    and d: "distinct (as @ p # e # n # bs)" and N: "nodes_sep (set (as @ p # e # n # bs))"
  shows "successively (linked (unlink m e)) (as @ p # n # bs)"
    and "prev_of m e = p" "next_of m e = n" "only_nodes m (unlink m e) {p, n}"
proof -
  let ?m = "unlink m e"
  have parts: "successively (linked m) (as @ [p])" "successively (linked m) (n # bs)"
    and pn: "next_of m p = e" "prev_of m n = e"
    using chain by (auto simp: successively_append_iff linked_def)
  show pe: "prev_of m e = p" and ne: "next_of m e = n"
    using chain by (auto simp: successively_append_iff linked_def)
  note f = unlink_fields [OF N, of e m, unfolded pe ne]
  show "only_nodes m ?m {p, n}"
    using f(3) [of p] d by auto
  have ne: "e \<notin> set (as @ [p])" "e \<notin> set (n # bs)" "p \<noteq> e"
    using d by auto
  have next': "next_of ?m x = (if x = p then n else next_of m x)"
    and prev': "prev_of ?m x = (if x = n then p else prev_of m x)"
    if "x \<in> set (as @ p # e # n # bs)" for x
    using f(1,2) [of x] ne(3) that by simp_all
  have "successively (linked ?m) (as @ [p])"
  proof (rule linked_keep [OF parts(1)])
    fix x y assume *: "x \<in> set (as @ [p])" "y \<in> set (as @ [p])" "linked m x y"
    then have "x \<noteq> p" "y \<noteq> n"
      using ne pn unfolding linked_def by metis+
    then show "next_of ?m x = next_of m x \<and> prev_of ?m y = prev_of m y"
      using * next' [of x] prev' [of y] by auto
  qed
  moreover have "successively (linked ?m) (n # bs)"
  proof (rule linked_keep [OF parts(2)])
    fix x y assume *: "x \<in> set (n # bs)" "y \<in> set (n # bs)" "linked m x y"
    then have "x \<noteq> p" "y \<noteq> n"
      using ne pn unfolding linked_def by metis+
    then show "next_of ?m x = next_of m x \<and> prev_of ?m y = prev_of m y"
      using * next' [of x] prev' [of y] by auto
  qed
  moreover have "linked ?m p n"
    by (simp add: linked_def next' prev')
  ultimately show "successively (linked ?m) (as @ p # n # bs)"
    by (simp add: successively_append_iff)
qed

section \<open>The operations on represented lists\<close>

lemma is_list_nodes:
  assumes "is_list m l xs"
  shows "nodes_sep (set (nodes l xs))" "distinct (nodes l xs)" "NULL \<notin> set xs"
    "successively (linked m) (nodes l xs)"
  using assms unfolding is_list_def by blast+

lemma is_list_insert:
  assumes l: "is_list m l (xs @ ys)" and e: "fresh_node l (xs @ ys) e"
    and b: "b = hd (ys @ [list_tail l])"
  shows "is_list (link_before m b e) l (xs @ e # ys)"
    and "only_nodes m (link_before m b e) (insert e (set (nodes l (xs @ ys))))"
proof -
  define as where "as = butlast (l # xs)"
  define p where "p = last (l # xs)"
  define bs where "bs = tl (ys @ [list_tail l])"
  have front: "l # xs = as @ [p]"
    by (simp add: as_def p_def)
  have rest: "ys @ [list_tail l] = b # bs"
    by (cases ys) (auto simp: b bs_def)
  have eq: "nodes l (xs @ ys) = as @ p # b # bs" "nodes l (xs @ e # ys) = as @ p # e # b # bs"
    using front rest by (metis append.assoc append_Cons append_Nil)+
  note L = is_list_nodes [OF l, unfolded eq]
  have ne: "e \<notin> set (as @ p # b # bs)" "nodes_sep (insert e (set (as @ p # b # bs)))" "e \<noteq> NULL"
    using fresh_node_notin [OF e] e L(1) unfolding eq [symmetric]
    by (simp_all only: nodes_sep_insert fresh_node_def) auto
  have "successively (linked (link_before m b e)) (as @ p # e # b # bs)"
    using chain_insert [OF L(4) L(2) ne(2,1)] .
  moreover have "distinct (as @ p # e # b # bs)"
    using L(2) ne(1) by auto
  moreover have "nodes_sep (set (as @ p # e # b # bs))"
    using ne(2) by (rule nodes_sep_subset) auto
  ultimately show "is_list (link_before m b e) l (xs @ e # ys)"
    using L(3) ne(3) by (simp only: is_list_def eq) simp
  have "prev_of m b = p"
    using L(4) by (simp add: successively_split linked_def)
  then have "{prev_of m b, b, e} \<subseteq> insert e (set (nodes l (xs @ ys)))"
    by (simp only: eq) auto
  with link_before_only show "only_nodes m (link_before m b e) (insert e (set (nodes l (xs @ ys))))"
    by (rule only_nodes_mono)
qed

lemma is_list_remove:
  assumes l: "is_list m l (xs @ e # ys)"
  shows "is_list (unlink m e) l (xs @ ys)"
    and "only_nodes m (unlink m e) (set (nodes l (xs @ ys)))"
    and "fresh_node l (xs @ ys) e"
proof -
  define as where "as = butlast (l # xs)"
  define p where "p = last (l # xs)"
  define n where "n = hd (ys @ [list_tail l])"
  define bs where "bs = tl (ys @ [list_tail l])"
  have front: "l # xs = as @ [p]"
    by (simp add: as_def p_def)
  have rest: "ys @ [list_tail l] = n # bs"
    by (cases ys) (auto simp: n_def bs_def)
  have eq: "nodes l (xs @ e # ys) = as @ p # e # n # bs" "nodes l (xs @ ys) = as @ p # n # bs"
    using front rest by (metis append.assoc append_Cons append_Nil)+
  note L = is_list_nodes [OF l, unfolded eq]
  note R = chain_remove [OF L(4) L(2) L(1)]
  have "distinct (as @ p # n # bs)" using L(2) by auto
  moreover have "nodes_sep (set (as @ p # n # bs))"
    using L(1) by (rule nodes_sep_subset) auto
  ultimately show "is_list (unlink m e) l (xs @ ys)"
    using L(3) R(1) by (simp only: is_list_def eq) simp
  show "only_nodes m (unlink m e) (set (nodes l (xs @ ys)))"
    using R(4) by (rule only_nodes_mono) (simp only: eq, auto)
  have "e \<noteq> NULL" using L(3) by auto
  moreover have "sep e 8 x 8" if "x \<in> set (as @ p # n # bs)" for x
    using nodes_sepD [OF L(1), of e x] that L(2) by auto
  ultimately show "fresh_node l (xs @ ys) e"
    by (simp only: fresh_node_def eq) simp
qed

text \<open>A list survives every change outside its nodes.\<close>

lemma is_list_frame:
  assumes l: "is_list m l xs" and eq: "\<And>x. x \<in> set (nodes l xs) \<Longrightarrow> eq_on m' m x 8"
  shows "is_list m' l xs"
proof -
  note L = is_list_nodes [OF l]
  have "successively (linked m') (nodes l xs)"
    using L(4) by (rule linked_keep) (use eq node_eq_on in blast)
  with L show ?thesis by (simp only: is_list_def) simp
qed

lemma is_list_only_in:
  "is_list m l xs \<Longrightarrow> only_in m m' a n \<Longrightarrow> (\<And>x. x \<in> set (nodes l xs) \<Longrightarrow> sep a n x 8) \<Longrightarrow>
   is_list m' l xs"
  by (erule is_list_frame) (blast intro: only_in_sep)

lemma is_list_only_nodes:
  "is_list m l xs \<Longrightarrow> only_nodes m m' N \<Longrightarrow>
   (\<And>x y. x \<in> set (nodes l xs) \<Longrightarrow> y \<in> N \<Longrightarrow> sep y 8 x 8) \<Longrightarrow> is_list m' l xs"
  by (erule is_list_frame) (blast intro: only_nodes_eq_on)

lemma chain_unique:
  "successively (linked m) (a # xs @ [t]) \<Longrightarrow> successively (linked m) (a # ys @ [t]) \<Longrightarrow>
   t \<notin> set xs \<Longrightarrow> t \<notin> set ys \<Longrightarrow> xs = ys"
proof (induction xs arbitrary: a ys)
  case Nil
  then show ?case by (cases ys) (auto simp: linked_def)
next
  case (Cons x xs)
  then show ?case by (cases ys) (auto simp: linked_def)
qed

lemma is_list_unique: "is_list m l xs \<Longrightarrow> is_list m l ys \<Longrightarrow> xs = ys"
  by (rule chain_unique [of m l xs "list_tail l"]) (auto simp: is_list_def)

section \<open>Read-only walks\<close>

lemma is_list_first: "is_list m l xs \<Longrightarrow> next_of m l = hd (xs @ [list_tail l])"
  by (cases xs) (auto simp: is_list_def linked_def)

lemma list_empty_iff: "is_list m l xs \<Longrightarrow> list_empty m l \<longleftrightarrow> xs = []"
  using is_list_first [of m l xs] by (cases xs) (auto simp: is_list_def list_empty_def)

text \<open>The suffixes of a represented list a walk passes through.\<close>

lemma elem_find_loop_chain:
  assumes "successively (linked (mem s)) (xs @ [list_tail l])" "list_tail l \<notin> set xs" "NULL \<notin> set xs"
  shows "elem_find_loop s l e (hd (xs @ [list_tail l])) = Some (Ok (e \<in> set xs) s)"
  using assms
proof (induction xs)
  case Nil
  then show ?case by (simp add: elem_find_loop.simps)
next
  case (Cons x xs)
  then have "next_of (mem s) x = hd (xs @ [list_tail l])"
    by (cases xs) (auto simp: linked_def)
  moreover have "successively (linked (mem s)) (xs @ [list_tail l])"
    using Cons.prems(1) by (cases xs) auto
  ultimately show ?case
    using Cons by (subst elem_find_loop.simps) auto
qed

lemma list_len_loop_chain:
  assumes "successively (linked (mem s)) (xs @ [list_tail l])" "list_tail l \<notin> set xs"
  shows "list_len_loop s l (hd (xs @ [list_tail l])) k = Some (Ok (k + of_nat (length xs)) s)"
  using assms
proof (induction xs arbitrary: k)
  case Nil
  then show ?case by (simp add: list_len_loop.simps)
next
  case (Cons x xs)
  then have "next_of (mem s) x = hd (xs @ [list_tail l])"
    by (cases xs) (auto simp: linked_def)
  moreover have "successively (linked (mem s)) (xs @ [list_tail l])"
    using Cons.prems(1) by (cases xs) auto
  ultimately show ?case
    using Cons by (subst list_len_loop.simps) (auto simp: algebra_simps)
qed

lemma list_traversal_loop_chain:
  assumes "successively (linked (mem s)) (xs @ [list_tail l])" "list_tail l \<notin> set xs"
  shows "list_traversal_loop s l f arg (hd (xs @ [list_tail l])) =
    Some (Ok (case List.find (\<lambda>e. f e arg) xs of None \<Rightarrow> NULL | Some e \<Rightarrow> e) s)"
  using assms
proof (induction xs)
  case Nil
  then show ?case by (simp add: list_traversal_loop.simps)
next
  case (Cons x xs)
  then have "next_of (mem s) x = hd (xs @ [list_tail l])"
    by (cases xs) (auto simp: linked_def)
  moreover have "successively (linked (mem s)) (xs @ [list_tail l])"
    using Cons.prems(1) by (cases xs) auto
  ultimately show ?case
    using Cons by (subst list_traversal_loop.simps) auto
qed

lemma is_list_walk:
  assumes "is_list m l xs"
  shows "successively (linked m) (xs @ [list_tail l])" "list_tail l \<notin> set xs" "NULL \<notin> set xs"
  using assms by (cases xs; auto simp: is_list_def)+

lemma elem_find_eq: "is_list (mem s) l xs \<Longrightarrow> elem_find s l e = Ok (e \<in> set xs) s"
  using elem_find_loop_chain [OF is_list_walk] is_list_first
  by (simp add: elem_find_def)

lemma list_len_eq: "is_list (mem s) l xs \<Longrightarrow> list_len s l = Ok (of_nat (length xs)) s"
  using list_len_loop_chain [OF is_list_walk(1,2)] is_list_first
  by (simp add: list_len_def)

lemma list_traversal_eq:
  assumes "is_list (mem s) l xs"
  shows "list_traversal s l f arg =
    Ok (case List.find (\<lambda>e. f e arg) xs of None \<Rightarrow> NULL | Some e \<Rightarrow> e) s"
  using list_traversal_loop_chain [OF is_list_walk(1,2) [OF assms]] is_list_first [OF assms]
    list_empty_iff [OF assms]
  by (cases xs) (simp_all add: list_traversal_def)

section \<open>The queue interface\<close>

lemma list_insert_before_eq:
  "e \<noteq> NULL \<Longrightarrow> list_insert_before s b e = Ok () (s\<lparr>mem := link_before (mem s) b e\<rparr>)"
  using critical_section [of s "link_before (mem s) b e"]
  by (simp add: list_insert_before_def split_def)

lemma list_remove_eq: "list_remove s e = Ok () (s\<lparr>mem := unlink (mem s) e\<rparr>)"
  using critical_section [of s "unlink (mem s) e"] by (simp add: list_remove_def split_def)

lemma list_append_effect:
  assumes "is_list (mem s) l xs" "fresh_node l xs e"
  obtains m' where "list_append s l e = Ok () (s\<lparr>mem := m'\<rparr>)" "is_list m' l (xs @ [e])"
    and "only_nodes (mem s) m' (insert e (set (nodes l xs)))"
  using is_list_insert [of "mem s" l xs "[]" e "list_tail l"] assms that
  by (auto simp: list_append_def list_insert_before_eq fresh_node_def)

lemma list_push_effect:
  assumes "is_list (mem s) l xs" "fresh_node l xs e"
  obtains m' where "list_push s l e = Ok () (s\<lparr>mem := m'\<rparr>)" "is_list m' l (e # xs)"
    and "only_nodes (mem s) m' (insert e (set (nodes l xs)))"
  using is_list_insert [of "mem s" l "[]" xs e "hd (xs @ [list_tail l])"] assms that
  by (auto simp: list_push_def list_insert_before_eq fresh_node_def is_list_first)

lemma list_remove_effect:
  assumes "is_list (mem s) l (xs @ e # ys)"
  obtains m' where "list_remove s e = Ok () (s\<lparr>mem := m'\<rparr>)" "is_list m' l (xs @ ys)"
    and "only_nodes (mem s) m' (set (nodes l (xs @ ys)))" "fresh_node l (xs @ ys) e"
  using is_list_remove [OF assms] that by (auto simp: list_remove_eq)

lemma list_pop_effect:
  assumes "is_list (mem s) l (x # xs)"
  obtains m' where "list_pop s l = Ok x (s\<lparr>mem := m'\<rparr>)" "is_list m' l xs"
    and "only_nodes (mem s) m' (set (nodes l xs))" "fresh_node l xs x"
proof -
  have "next_of (mem s) l = x"
    using is_list_first [OF assms] by simp
  then have "list_pop s l = Ok x (s\<lparr>mem := unlink (mem s) x\<rparr>)"
    by (simp add: list_pop_def list_remove_eq)
  with is_list_remove [of "mem s" l "[]" x xs] assms that show ?thesis
    by simp
qed

text \<open>
  The contract of a kernel queue towards its users: a state represents a sequence of
  elements; appending, pushing and popping are the list operations, for any element that
  is not part of the queue yet. The scheduler and the semaphores use nothing else.
\<close>

locale kernel_queue =
  fixes rep :: "'h \<Rightarrow> 'l \<Rightarrow> 'a list \<Rightarrow> bool"
    and fresh :: "'l \<Rightarrow> 'a list \<Rightarrow> 'a \<Rightarrow> bool"
    and enq :: "'h \<Rightarrow> 'l \<Rightarrow> 'a \<Rightarrow> ('h, unit) outcome"
    and pushq :: "'h \<Rightarrow> 'l \<Rightarrow> 'a \<Rightarrow> ('h, unit) outcome"
    and deq :: "'h \<Rightarrow> 'l \<Rightarrow> ('h, 'a) outcome"
    and is_empty :: "'h \<Rightarrow> 'l \<Rightarrow> bool"
    and find_in :: "'h \<Rightarrow> 'l \<Rightarrow> 'a \<Rightarrow> ('h, bool) outcome"
  assumes enq: "rep h l xs \<Longrightarrow> fresh l xs x \<Longrightarrow> \<exists>h'. enq h l x = Ok () h' \<and> rep h' l (xs @ [x])"
    and push: "rep h l xs \<Longrightarrow> fresh l xs x \<Longrightarrow> \<exists>h'. pushq h l x = Ok () h' \<and> rep h' l (x # xs)"
    and deq: "rep h l (x # xs) \<Longrightarrow> \<exists>h'. deq h l = Ok x h' \<and> rep h' l xs \<and> fresh l xs x"
    and is_empty: "rep h l xs \<Longrightarrow> is_empty h l \<longleftrightarrow> xs = []"
    and find_in: "rep h l xs \<Longrightarrow> find_in h l x = Ok (x \<in> set xs) h"
    and fresh_notin: "fresh l xs x \<Longrightarrow> x \<notin> set xs"
begin

text \<open>One round of round-robin scheduling: the first element goes to the end.\<close>

lemma rotate:
  assumes "rep h l (x # xs)"
  shows "\<exists>h'. obind (deq h l) (\<lambda>y t. enq t l y) = Ok () h' \<and> rep h' l (xs @ [x])"
proof -
  obtain h1 where h1: "deq h l = Ok x h1" "rep h1 l xs" "fresh l xs x"
    using deq [OF assms] by blast
  with enq [of h1 l xs x] show ?thesis by auto
qed

text \<open>A queue is first-in first-out: elements come out in the order they went in.\<close>

fun drain :: "'h \<Rightarrow> 'l \<Rightarrow> nat \<Rightarrow> ('h, 'a list) outcome" where
  "drain h l 0 = Ok [] h"
| "drain h l (Suc n) = obind (deq h l) (\<lambda>x h1. obind (drain h1 l n) (\<lambda>xs h2. Ok (x # xs) h2))"

lemma drain_all: "rep h l (xs @ ys) \<Longrightarrow> \<exists>h'. drain h l (length xs) = Ok xs h' \<and> rep h' l ys"
proof (induction xs arbitrary: h)
  case (Cons x xs)
  then obtain h1 where "deq h l = Ok x h1" "rep h1 l (xs @ ys)"
    using deq by fastforce
  with Cons.IH [of h1] show ?case by auto
qed simp

text \<open>Pushing and popping are inverse.\<close>

lemma push_deq:
  assumes "rep h l xs" "fresh l xs x"
  shows "\<exists>h'. obind (pushq h l x) (\<lambda>_ t. deq t l) = Ok x h' \<and> rep h' l xs"
  using push [OF assms] deq by fastforce

lemma find_after_enq:
  assumes "rep h l xs" "fresh l xs x"
  shows "\<exists>h'. obind (enq h l x) (\<lambda>_ t. find_in t l y) = Ok (y = x \<or> y \<in> set xs) h'"
  using enq [OF assms] find_in by fastforce

end

interpretation kq: kernel_queue "\<lambda>s :: kstate. is_list (mem s)" fresh_node list_append list_push
  list_pop "\<lambda>s :: kstate. list_empty (mem s)" elem_find
proof unfold_locales
  fix s :: kstate and l xs x
  assume l: "is_list (mem s) l xs" and e: "fresh_node l xs x"
  show "\<exists>s'. list_append s l x = Ok () s' \<and> is_list (mem s') l (xs @ [x])"
    by (rule list_append_effect [OF l e]) simp
  show "\<exists>s'. list_push s l x = Ok () s' \<and> is_list (mem s') l (x # xs)"
    by (rule list_push_effect [OF l e]) simp
next
  fix s :: kstate and l x xs
  assume "is_list (mem s) l (x # xs)"
  then show "\<exists>s'. list_pop s l = Ok x s' \<and> is_list (mem s') l xs \<and> fresh_node l xs x"
    by (rule list_pop_effect) simp
qed (auto simp: list_empty_iff elem_find_eq fresh_node_def sep_def)

section \<open>Properties\<close>

text \<open>Queries. On a list that represents the sequence \<open>xs\<close> every walk ends:
  \<open>elem_find\<close> decides membership, \<open>list_len\<close> is the length, \<open>list_empty\<close> decides
  emptiness and \<open>list_traversal\<close> returns the first node its callback accepts, \<open>NULL\<close> when
  there is none; none of them changes the state.\<close>

theorem list_queries:
  assumes "is_list (mem s) l xs"
  shows "elem_find s l e = Ok (e \<in> set xs) s \<and> list_len s l = Ok (of_nat (length xs)) s
    \<and> (list_empty (mem s) l \<longleftrightarrow> xs = [])
    \<and> list_traversal s l f arg = Ok (case List.find (\<lambda>e. f e arg) xs of None \<Rightarrow> NULL | Some e \<Rightarrow> e) s"
  using elem_find_eq [OF assms] list_len_eq [OF assms] list_empty_iff [OF assms]
    list_traversal_eq [OF assms] by blast

text \<open>C37. Updates. \<open>list_append\<close> and \<open>list_push\<close> of a node that is not in the list add it at
  the end and at the front, \<open>list_pop\<close> removes the first node and returns it, and
  \<open>list_remove\<close> of any node takes exactly that node out; the rest of the machine state,
  the interrupt flag included, and every byte outside the nodes is unchanged.\<close>

theorem list_updates:
  assumes "is_list (mem s) l (xs @ e # ys)" "fresh_node l (xs @ e # ys) n"
  shows "(\<exists>m'. list_append s l n = Ok () (s\<lparr>mem := m'\<rparr>) \<and> is_list m' l (xs @ e # ys @ [n])
      \<and> only_nodes (mem s) m' (insert n (set (nodes l (xs @ e # ys)))))
    \<and> (\<exists>m'. list_push s l n = Ok () (s\<lparr>mem := m'\<rparr>) \<and> is_list m' l (n # xs @ e # ys)
      \<and> only_nodes (mem s) m' (insert n (set (nodes l (xs @ e # ys)))))
    \<and> (\<exists>m'. list_pop s l = Ok (hd (xs @ [e])) (s\<lparr>mem := m'\<rparr>) \<and> is_list m' l (tl (xs @ e # ys))
      \<and> only_nodes (mem s) m' (set (nodes l (tl (xs @ e # ys)))))
    \<and> (\<exists>m'. list_remove s e = Ok () (s\<lparr>mem := m'\<rparr>) \<and> is_list m' l (xs @ ys)
      \<and> only_nodes (mem s) m' (set (nodes l (xs @ ys))))"
proof (intro conjI)
  show "\<exists>m'. list_append s l n = Ok () (s\<lparr>mem := m'\<rparr>) \<and> is_list m' l (xs @ e # ys @ [n])
      \<and> only_nodes (mem s) m' (insert n (set (nodes l (xs @ e # ys))))"
    by (rule list_append_effect [OF assms]) auto
  show "\<exists>m'. list_push s l n = Ok () (s\<lparr>mem := m'\<rparr>) \<and> is_list m' l (n # xs @ e # ys)
      \<and> only_nodes (mem s) m' (insert n (set (nodes l (xs @ e # ys))))"
    by (rule list_push_effect [OF assms]) auto
  have "is_list (mem s) l (hd (xs @ [e]) # tl (xs @ e # ys))"
    using assms(1) by (cases xs) auto
  then show "\<exists>m'. list_pop s l = Ok (hd (xs @ [e])) (s\<lparr>mem := m'\<rparr>) \<and> is_list m' l (tl (xs @ e # ys))
      \<and> only_nodes (mem s) m' (set (nodes l (tl (xs @ e # ys))))"
    by (rule list_pop_effect) auto
  show "\<exists>m'. list_remove s e = Ok () (s\<lparr>mem := m'\<rparr>) \<and> is_list m' l (xs @ ys)
      \<and> only_nodes (mem s) m' (set (nodes l (xs @ ys)))"
    by (rule list_remove_effect [OF assms(1)]) auto
qed

text \<open>First in, first out: taking the head of a queue and appending it again, as the
  round-robin scheduler does, rotates the sequence by one.\<close>

theorem list_pop_append_rotates:
  assumes "is_list (mem s) l (x # xs)"
  shows "\<exists>s'. obind (list_pop s l) (\<lambda>y t. list_append t l y) = Ok () s' \<and> is_list (mem s') l (xs @ [x])"
  using assms by (rule kq.rotate)

definition demo_list_state :: kstate where
  "demo_list_state = \<lparr>mem = st32 (st32 (st32 (st32 (\<lambda>_. 0) 0x1004 0x3020) 0x3020 0x1000) 0x3024 0x1008) 0x1008 0x3020,
     eflags = 2, esp = 0x2F00, cr3 = 0x100000, screen = [], ports = [],
     main_thread = 0x2000, thread_tag = 0, next_pid = 2, ticks = 0, in_ports = (\<lambda>_. 0), gdtr = (0, 0),
     idtr = (0, 0), tr = 0, ctrl_status = 0, shift_status = 0, alt_status = 0, caps_lock_status = 0,
     ext_scancode = 0, test_var_a = 0, test_var_b = 0\<rparr>"

lemma demo_list: "is_list (mem demo_list_state) 0x1000 [0x3020]"
  by (simp add: is_list_def demo_list_state_def linked_def next_of_def prev_of_def nodes_sep_def sep_def)

theorem list_queries_witness:
  "elem_find demo_list_state 0x1000 0x3020 = Ok (0x3020 \<in> set [0x3020 :: addr]) demo_list_state
    \<and> list_len demo_list_state 0x1000 = Ok (of_nat (length [0x3020 :: addr])) demo_list_state
    \<and> (list_empty (mem demo_list_state) 0x1000 \<longleftrightarrow> [0x3020 :: addr] = [])
    \<and> list_traversal demo_list_state 0x1000 (\<lambda>e n. e = 0x3020) 0 =
        Ok (case List.find (\<lambda>e. e = 0x3020) [0x3020 :: addr] of None \<Rightarrow> NULL | Some e \<Rightarrow> e) demo_list_state"
  by (rule list_queries [OF demo_list, where f = "\<lambda>e n. e = 0x3020"])

theorem list_updates_witness:
  "\<exists>m'. list_append demo_list_state 0x1000 0x4020 = Ok () (demo_list_state\<lparr>mem := m'\<rparr>)
     \<and> is_list m' 0x1000 [0x3020, 0x4020]"
proof -
  have "fresh_node 0x1000 [0x3020] 0x4020" by (simp add: fresh_node_def sep_def)
  with list_updates [of demo_list_state "0x1000" "[]" "0x3020" "[]" "0x4020"] demo_list
  show ?thesis by auto
qed

theorem list_pop_append_rotates_witness:
  "\<exists>s'. obind (list_pop demo_list_state 0x1000) (\<lambda>y t. list_append t 0x1000 y) = Ok () s'
     \<and> is_list (mem s') 0x1000 ([] @ [0x3020])"
  by (rule list_pop_append_rotates [OF demo_list])

end
