(* ===== verification/PCB.thy ===== *)
theory PCB
  imports KList
begin

text \<open>
  The process control block of \<open>thread/thread.h\<close>: the byte layout of \<open>struct task_struct\<close>
  (IA-32, natural alignment) and \<open>GetCurrentThreadPCB\<close>. A PCB is the lowest part of the
  page that holds the thread's kernel stack, so it is found by rounding \<open>esp\<close> down.
\<close>

section \<open>Layout\<close>

datatype task_status =
  TASK_RUNNING | TASK_READY | TASK_BLOCKD | TASK_WAITING | TASK_HANGING | TASK_DIED

fun task_code :: "task_status \<Rightarrow> u32" where
  "task_code TASK_RUNNING = 0"
| "task_code TASK_READY = 1"
| "task_code TASK_BLOCKD = 2"
| "task_code TASK_WAITING = 3"
| "task_code TASK_HANGING = 4"
| "task_code TASK_DIED = 5"

lemma task_code_inject [simp]: "task_code a = task_code b \<longleftrightarrow> a = b"
  by (cases a; cases b) auto

abbreviation off_self_kernel_stack :: u32 where "off_self_kernel_stack \<equiv> 0"
abbreviation off_pid :: u32 where "off_pid \<equiv> 4"
abbreviation off_status :: u32 where "off_status \<equiv> 8"
abbreviation off_priority :: u32 where "off_priority \<equiv> 12"
abbreviation off_name :: u32 where "off_name \<equiv> 13"
abbreviation off_cpu_ticks_left :: u32 where "off_cpu_ticks_left \<equiv> 29"
abbreviation off_cpu_ticks_elapsed :: u32 where "off_cpu_ticks_elapsed \<equiv> 30"
abbreviation off_general_tag :: u32 where "off_general_tag \<equiv> 32"
abbreviation off_all_list_tag :: u32 where "off_all_list_tag \<equiv> 40"
abbreviation off_PDE_addr :: u32 where "off_PDE_addr \<equiv> 48"
abbreviation off_userprog_vaddr :: u32 where "off_userprog_vaddr \<equiv> 52"
abbreviation off_user_arena_descs :: u32 where "off_user_arena_descs \<equiv> 64"
abbreviation off_canary :: u32 where "off_canary \<equiv> 232"

definition sizeof_PCB :: u32 where
  "sizeof_PCB = 236"

definition STACK_CANARY :: u32 where
  "STACK_CANARY = 0x32512332"

definition PCB_status :: "mem \<Rightarrow> addr \<Rightarrow> u32" where
  "PCB_status m p = ld32 m (p + off_status)"

definition PCB_PDE_addr :: "mem \<Rightarrow> addr \<Rightarrow> addr" where
  "PCB_PDE_addr m p = ld32 m (p + off_PDE_addr)"

text \<open>\<open>elem2entry(PCB, general_tag, tag)\<close>: from the embedded node back to the PCB.\<close>

definition tag2pcb :: "addr \<Rightarrow> addr" where
  "tag2pcb tag = tag - off_general_tag"

definition general_tag :: "addr \<Rightarrow> addr" where
  "general_tag p = p + off_general_tag"

definition all_list_tag :: "addr \<Rightarrow> addr" where
  "all_list_tag p = p + off_all_list_tag"

lemma tag2pcb_general_tag [simp]: "tag2pcb (general_tag p) = p" "general_tag (tag2pcb t) = t"
  by (simp_all add: tag2pcb_def general_tag_def)

lemma general_tag_inject [simp]: "general_tag p = general_tag q \<longleftrightarrow> p = q"
  by (simp add: general_tag_def)

section \<open>The current thread\<close>

definition PAGE_MASK :: u32 where
  "PAGE_MASK = 0xFFFFF000"

definition GetCurrentThreadPCB :: "kstate \<Rightarrow> addr" where
  "GetCurrentThreadPCB s = esp s AND PAGE_MASK"

definition page_aligned :: "addr \<Rightarrow> bool" where
  "page_aligned a \<longleftrightarrow> a AND PAGE_MASK = a"

lemma PAGE_MASK_bit: "bit PAGE_MASK n \<longleftrightarrow> 12 \<le> n \<and> n < 32"
proof -
  have "PAGE_MASK = push_bit 12 (mask 20)"
    by (simp add: PAGE_MASK_def mask_eq_exp_minus_1)
  then have "bit PAGE_MASK n \<longleftrightarrow> bit (push_bit 12 (mask 20) :: u32) n"
    by (rule arg_cong)
  then show ?thesis
    by (simp only: bit_push_bit_iff bit_mask_iff) auto
qed

lemma page_aligned_low: "page_aligned a \<longleftrightarrow> (\<forall>n < 12. \<not> bit a n)"
proof
  assume "page_aligned a"
  then have "bit a n = bit (a AND PAGE_MASK) n" for n
    by (simp add: page_aligned_def)
  then show "\<forall>n < 12. \<not> bit a n"
    by (metis bit_and_iff PAGE_MASK_bit not_le)
next
  assume "\<forall>n < 12. \<not> bit a n"
  then show "page_aligned a"
    unfolding page_aligned_def
    by (intro bit_word_eqI) (auto simp: bit_simps PAGE_MASK_bit not_le [symmetric] dest: leI)
qed

lemma page_aligned_mask [simp]: "page_aligned (a AND PAGE_MASK)"
  by (simp add: page_aligned_def and.assoc)

lemma small_bits: "unat (x :: u32) < 4096 \<Longrightarrow> 12 \<le> n \<Longrightarrow> \<not> bit x n"
proof -
  assume "unat x < 4096" "12 \<le> n"
  then have "unat x < 2 ^ n"
    using power_increasing [of 12 n "2 :: nat"] by simp
  then show ?thesis
    by (metis bit_unsigned_iff bit_nat_def div_less even_zero bit_iff_odd possible_bit_nat)
qed

lemma page_plus_or:
  assumes "page_aligned a" "unat (x :: u32) < 4096"
  shows "a + x = a OR x"
  using assms small_bits [of x] page_aligned_low [of a]
  by (intro disjunctive_add) (metis not_le)

text \<open>An address inside an aligned page rounds down to the page.\<close>

lemma page_of_offset:
  assumes "page_aligned a" "unat (x :: u32) < 4096"
  shows "(a + x) AND PAGE_MASK = a"
proof -
  have "bit ((a OR x) AND PAGE_MASK) n = bit a n" for n
    using small_bits [OF assms(2), of n] page_aligned_low [of a] assms(1)
    by (cases "n < 12") (auto simp: bit_simps PAGE_MASK_bit dest: bit_imp_le_length)
  then show ?thesis
    unfolding page_plus_or [OF assms] by (intro bit_word_eqI) simp
qed

lemma page_of_inr: "page_aligned a \<Longrightarrow> inr x a 4096 \<Longrightarrow> x AND PAGE_MASK = a"
  using page_of_offset [of a "x - a"] by (simp add: inr_def)

text \<open>Different aligned pages are separate.\<close>

lemma pages_sep: "page_aligned a \<Longrightarrow> page_aligned b \<Longrightarrow> a \<noteq> b \<Longrightarrow> sep a 4096 b 4096"
  by (rule sepI_disjoint) (auto dest: page_of_inr)

end
