(* ===== verification/AddressSpace.thy ===== *)
theory AddressSpace
  imports PCB
begin

text \<open>
  Page tables as the kernel sees them (\<open>kernel/memory.c\<close>), and the switch of the address
  space (\<open>userprog/process.c\<close>, \<open>userprog/tss.c\<close>).

  The last entry of the page directory points at the directory itself, so the page tables
  appear in the top 4 MB of the address space. \<open>GetPTEPointer\<close> and \<open>GetPDEPointer\<close> compute
  addresses in this window. The two-level page walk of IA-32 is defined here as the
  meaning of a virtual address, and the window arithmetic is proved against it.
\<close>

section \<open>Table indices and the recursive window\<close>

definition PTE_IDX :: "addr \<Rightarrow> u32" where
  "PTE_IDX a = drop_bit 12 (a AND 0x003FF000)"

definition PDE_IDX :: "addr \<Rightarrow> u32" where
  "PDE_IDX a = drop_bit 22 (a AND 0xFFC00000)"

definition GetPTEPointer :: "addr \<Rightarrow> addr" where
  "GetPTEPointer vaddr = 0xFFC00000 + drop_bit 10 (vaddr AND 0xFFC00000) + PTE_IDX vaddr * 4"

definition GetPDEPointer :: "addr \<Rightarrow> addr" where
  "GetPDEPointer vaddr = 0xFFFFF000 + PDE_IDX vaddr * 4"

definition VirtualAddrToPhysicAddr :: "mem \<Rightarrow> addr \<Rightarrow> u32" where
  "VirtualAddrToPhysicAddr m vaddr =
     (let pte = GetPTEPointer vaddr in (ld32 m pte AND 0xFFFFF000) + (vaddr AND 0x00000FFF))"

text \<open>\<open>*pte &= PAGE_P_0\<close> with \<open>PAGE_P_0 = 0\<close> clears the whole entry; \<open>invlpg\<close> has no
  effect on the store.\<close>

definition PAGE_P_1 :: u32 where "PAGE_P_1 = 1"
definition PAGE_P_0 :: u32 where "PAGE_P_0 = 0"
definition PAGE_RW_RW :: u32 where "PAGE_RW_RW = 2"
definition PAGE_US_U :: u32 where "PAGE_US_U = 4"

definition PageUnmapping :: "kstate \<Rightarrow> addr \<Rightarrow> kstate" where
  "PageUnmapping s v_addr =
     (let pte = GetPTEPointer v_addr in put32 s pte (ld32 (mem s) pte AND PAGE_P_0))"

section \<open>Switching the address space\<close>

text \<open>\<open>tss.esp0\<close> is the second word of the task state segment.\<close>

definition UpdateTssEsp :: "symbols \<Rightarrow> kstate \<Rightarrow> addr \<Rightarrow> kstate" where
  "UpdateTssEsp g s pthread = put32 s (sym_tss g + 4) (pthread + PAGE_SIZE)"

definition ActivePDE :: "kstate \<Rightarrow> addr \<Rightarrow> kstate" where
  "ActivePDE s pthread =
     (let PDE_physic_addr =
        (if PCB_PDE_addr (mem s) pthread \<noteq> NULL
         then VirtualAddrToPhysicAddr (mem s) (PCB_PDE_addr (mem s) pthread) else 0x100000)
      in s\<lparr>cr3 := PDE_physic_addr\<rparr>)"

definition ActiveProcess :: "symbols \<Rightarrow> kstate \<Rightarrow> addr \<Rightarrow> (kstate, unit) outcome" where
  "ActiveProcess g s pthread =
     ASSERT ''ActiveProcess'' ''pthread != NULL'' (pthread \<noteq> NULL)
       (let s1 = ActivePDE s pthread
        in Ok () (if PCB_PDE_addr (mem s1) pthread \<noteq> NULL then UpdateTssEsp g s1 pthread else s1))"

section \<open>The page walk\<close>

text \<open>
  The IA-32 page walk over physical memory \<open>pm\<close> with page directory base \<open>cr\<close>: \<open>None\<close> is a
  page fault. Entries are present when bit 0 is set and hold a page frame in the upper
  20 bits.
\<close>

definition frame_of :: "u32 \<Rightarrow> addr" where
  "frame_of e = e AND PAGE_MASK"

definition pde_of :: "mem \<Rightarrow> u32 \<Rightarrow> addr \<Rightarrow> u32" where
  "pde_of pm cr v = ld32 pm (frame_of cr + PDE_IDX v * 4)"

definition pte_slot :: "mem \<Rightarrow> u32 \<Rightarrow> addr \<Rightarrow> addr" where
  "pte_slot pm cr v = frame_of (pde_of pm cr v) + PTE_IDX v * 4"

definition page_walk :: "mem \<Rightarrow> u32 \<Rightarrow> addr \<Rightarrow> addr option" where
  "page_walk pm cr v =
     (if bit (pde_of pm cr v) 0 \<and> bit (ld32 pm (pte_slot pm cr v)) 0
      then Some (frame_of (ld32 pm (pte_slot pm cr v)) + (v AND 0xFFF)) else None)"

text \<open>The store the kernel sees: physical memory read through the walk.\<close>

definition vview :: "mem \<Rightarrow> u32 \<Rightarrow> mem" where
  "vview pm cr a = (case page_walk pm cr a of Some p \<Rightarrow> pm p | None \<Rightarrow> 0)"

text \<open>The directory maps itself: its last entry is present and holds its own frame.\<close>

definition self_mapped :: "mem \<Rightarrow> u32 \<Rightarrow> bool" where
  "self_mapped pm cr \<longleftrightarrow>
     (let e = ld32 pm (frame_of cr + 1023 * 4) in bit e 0 \<and> frame_of e = frame_of cr)"

section \<open>Index arithmetic\<close>

lemma masks:
  "(0x003FF000 :: u32) = push_bit 12 (mask 10)" "(0xFFC00000 :: u32) = push_bit 22 (mask 10)"
  "(0x00000FFF :: u32) = mask 12" "(0xFFFFF000 :: u32) = push_bit 12 (mask 20)"
  by (simp_all add: mask_eq_exp_minus_1)

lemma PTE_IDX_bit: "bit (PTE_IDX a) n \<longleftrightarrow> n < 10 \<and> bit a (n + 12)"
  unfolding PTE_IDX_def masks by (auto simp: bit_simps add.commute)

lemma PDE_IDX_bit: "bit (PDE_IDX a) n \<longleftrightarrow> n < 10 \<and> bit a (n + 22)"
  unfolding PDE_IDX_def masks by (auto simp: bit_simps add.commute)

lemma times_4: "(x :: u32) * 4 = push_bit 2 x"
  by (simp add: push_bit_eq_mult)

lemma GetPTEPointer_bits:
  "GetPTEPointer v = push_bit 22 (mask 10) OR push_bit 12 (PDE_IDX v) OR push_bit 2 (PTE_IDX v)"
proof -
  have "drop_bit 10 (v AND 0xFFC00000) = push_bit 12 (PDE_IDX v)"
    unfolding masks by (rule bit_word_eqI) (auto simp: bit_simps PDE_IDX_bit)
  then have "GetPTEPointer v = push_bit 22 (mask 10) + push_bit 12 (PDE_IDX v) + push_bit 2 (PTE_IDX v)"
    by (simp only: GetPTEPointer_def masks times_4)
  also have "push_bit 22 (mask 10) + push_bit 12 (PDE_IDX v) = push_bit 22 (mask 10) OR push_bit 12 (PDE_IDX v)"
    by (rule disjunctive_add) (auto simp: bit_simps PDE_IDX_bit)
  also have "\<dots> + push_bit 2 (PTE_IDX v) = \<dots> OR push_bit 2 (PTE_IDX v)"
    by (rule disjunctive_add) (auto simp: bit_simps PDE_IDX_bit PTE_IDX_bit)
  finally show ?thesis by (simp add: or.assoc)
qed

lemma GetPDEPointer_bits: "GetPDEPointer v = push_bit 12 (mask 20) OR push_bit 2 (PDE_IDX v)"
  unfolding GetPDEPointer_def masks times_4
  by (rule disjunctive_add) (auto simp: bit_simps PDE_IDX_bit)

lemma window_indices:
  "PDE_IDX (GetPTEPointer v) = mask 10" "PTE_IDX (GetPTEPointer v) = PDE_IDX v"
  "GetPTEPointer v AND mask 12 = push_bit 2 (PTE_IDX v)"
  "PDE_IDX (GetPDEPointer v) = mask 10" "PTE_IDX (GetPDEPointer v) = mask 10"
  "GetPDEPointer v AND mask 12 = push_bit 2 (PDE_IDX v)"
  unfolding GetPTEPointer_bits GetPDEPointer_bits
  by (rule bit_word_eqI, auto simp: bit_simps PTE_IDX_bit PDE_IDX_bit)+

text \<open>The four bytes of an entry lie in the same page.\<close>

lemma entry_byte:
  assumes "\<not> bit w 0" "\<not> bit w 1" "unat (i :: u32) < 4"
  shows "PDE_IDX (w + i) = PDE_IDX w" "PTE_IDX (w + i) = PTE_IDX w"
    "(w + i) AND mask 12 = (w AND mask 12) + i"
proof -
  have hi: "\<not> bit i n" if "2 \<le> n" for n
  proof -
    have "unat i < 2 ^ n" using assms(3) power_increasing [OF that, of "2 :: nat"] by simp
    then show ?thesis
      by (metis bit_unsigned_iff div_less even_zero bit_iff_odd possible_bit_nat)
  qed
  then have hi12: "n < 12" if "bit i n" for n
    using that by (cases "n < 12") auto
  have lo: "\<not> bit w n" if "n < 2" for n
    using that assms(1,2) by (auto simp: less_2_cases_iff)
  have or: "w + i = w OR i" "(w AND mask 12) + i = (w AND mask 12) OR i"
    using hi lo by (intro disjunctive_add; metis bit_and_iff not_le)+
  show "PDE_IDX (w + i) = PDE_IDX w" "PTE_IDX (w + i) = PTE_IDX w"
    unfolding or by (rule bit_word_eqI, auto simp: bit_simps PDE_IDX_bit PTE_IDX_bit hi)+
  show "(w + i) AND mask 12 = (w AND mask 12) + i"
    unfolding or using hi12 by (intro bit_word_eqI) (auto simp: bit_simps)
qed

lemma window_low_bits:
  "\<not> bit (GetPTEPointer v) 0" "\<not> bit (GetPTEPointer v) 1"
  "\<not> bit (GetPDEPointer v) 0" "\<not> bit (GetPDEPointer v) 1"
  by (simp_all add: GetPTEPointer_bits GetPDEPointer_bits bit_simps)

lemma self_mapped_pde:
  "self_mapped pm cr \<Longrightarrow> PDE_IDX w = mask 10 \<Longrightarrow>
   bit (pde_of pm cr w) 0 \<and> frame_of (pde_of pm cr w) = frame_of cr"
  by (simp add: self_mapped_def pde_of_def mask_eq_exp_minus_1 Let_def)

lemma walk_window:
  assumes "self_mapped pm cr" "PDE_IDX w = mask 10" "PTE_IDX w = PDE_IDX v"
    and "bit (pde_of pm cr v) 0"
  shows "page_walk pm cr w = Some (frame_of (pde_of pm cr v) + (w AND mask 12))"
proof -
  have "pte_slot pm cr w = frame_of cr + PDE_IDX v * 4"
    using self_mapped_pde [OF assms(1,2)] assms(3) by (simp add: pte_slot_def)
  then have "ld32 pm (pte_slot pm cr w) = pde_of pm cr v"
    by (simp add: pde_of_def)
  then show ?thesis
    using self_mapped_pde [OF assms(1,2)] assms(4) masks(3) by (simp add: page_walk_def)
qed

lemma vview_entry:
  assumes "\<And>i. unat i < 4 \<Longrightarrow> page_walk pm cr (w + i) = Some (p + i)"
  shows "ld32 (vview pm cr) w = ld32 pm p"
proof -
  have "vview pm cr (w + i) = pm (p + i)" if "unat i < 4" for i
    using assms [OF that] by (simp add: vview_def)
  from this [of 0] this [of 1] this [of 2] this [of 3] show ?thesis
    by (simp add: ld32_def)
qed

lemma window_pte:
  assumes "self_mapped pm cr" "bit (pde_of pm cr v) 0"
  shows "ld32 (vview pm cr) (GetPTEPointer v) = ld32 pm (pte_slot pm cr v)"
proof (rule vview_entry)
  fix i :: u32 assume i: "unat i < 4"
  note e = entry_byte [OF window_low_bits(1,2) i, of v]
  have "page_walk pm cr (GetPTEPointer v + i) =
      Some (frame_of (pde_of pm cr v) + ((GetPTEPointer v + i) AND mask 12))"
    by (rule walk_window) (use assms e window_indices in simp_all)
  then show "page_walk pm cr (GetPTEPointer v + i) = Some (pte_slot pm cr v + i)"
    by (simp add: e window_indices pte_slot_def times_4 add.assoc)
qed

lemma window_pde:
  assumes "self_mapped pm cr"
  shows "ld32 (vview pm cr) (GetPDEPointer v) = pde_of pm cr v"
proof -
  let ?top = "0xFFFFFFFF :: addr"
  have top: "PDE_IDX ?top = mask 10"
    by (simp add: PDE_IDX_def mask_eq_exp_minus_1)
  have "ld32 (vview pm cr) (GetPDEPointer v) = ld32 pm (frame_of cr + PDE_IDX v * 4)"
  proof (rule vview_entry)
    fix i :: u32 assume i: "unat i < 4"
    note e = entry_byte [OF window_low_bits(3,4) i, of v]
    have "page_walk pm cr (GetPDEPointer v + i) =
        Some (frame_of (pde_of pm cr ?top) + ((GetPDEPointer v + i) AND mask 12))"
      by (rule walk_window) (use assms e window_indices top self_mapped_pde [OF assms top] in simp_all)
    then show "page_walk pm cr (GetPDEPointer v + i) = Some (frame_of cr + PDE_IDX v * 4 + i)"
      using self_mapped_pde [OF assms top] by (simp add: e window_indices times_4 add.assoc)
  qed
  then show ?thesis by (simp add: pde_of_def)
qed

lemma window_translation:
  assumes "self_mapped pm cr" "page_walk pm cr v = Some p"
  shows "VirtualAddrToPhysicAddr (vview pm cr) v = p"
proof -
  have "bit (pde_of pm cr v) 0"
    "p = frame_of (ld32 pm (pte_slot pm cr v)) + (v AND 0xFFF)"
    using assms(2) by (auto simp: page_walk_def split: if_splits)
  then show ?thesis
    using window_pte [OF assms(1)]
    by (simp add: VirtualAddrToPhysicAddr_def frame_of_def PAGE_MASK_def Let_def)
qed

section \<open>Properties\<close>

text \<open>C36. In an address space whose page directory maps itself, \<open>VirtualAddrToPhysicAddr\<close>
  returns exactly the physical address the processor's page walk gives, for every mapped
  virtual address.
\<close>

theorem VirtualAddrToPhysicAddr_walk:
  assumes "self_mapped pm cr" "page_walk pm cr v = Some p"
  shows "VirtualAddrToPhysicAddr (vview pm cr) v = p"
  by (rule window_translation [OF assms])

definition demo_pm :: mem where
  "demo_pm = st32 (st32 (st32 (\<lambda>_. 0) 0x1FFC 0x1003) 0x1C00 0x2003) 0x2408 0x00345003"

theorem VirtualAddrToPhysicAddr_walk_witness:
  "VirtualAddrToPhysicAddr (vview demo_pm 0x1000) 0xC0102ABC = 0x00345ABC"
proof -
  have "self_mapped demo_pm 0x1000"
    by code_simp
  moreover have "page_walk demo_pm 0x1000 0xC0102ABC = Some 0x00345ABC"
    by code_simp
  ultimately show ?thesis
    by (rule VirtualAddrToPhysicAddr_walk)
qed

end
