(* ===== verification/Scheduler.thy ===== *)
theory Scheduler
  imports AddressSpace
begin

text \<open>
  The scheduler of \<open>thread/thread.c\<close> (\<open>ScheduleThread\<close>, \<open>BlockThread\<close>, \<open>UnblockThread\<close>)
  with the context switch of \<open>thread/switch.S\<close>, and its refinement of an abstract
  round-robin scheduler.
\<close>

section \<open>The code\<close>

text \<open>
  \<open>switch_to(current, next)\<close>: its caller pushed two arguments and a return address, it
  pushes four registers, saves \<open>esp\<close> in the first word of the current PCB, loads it from
  the next PCB, and pops four registers and a return address. The contents of the stacks
  are not part of the model. \<open>Switched\<close>: execution goes on in another thread.
\<close>

definition switch_to :: "kstate \<Rightarrow> addr \<Rightarrow> addr \<Rightarrow> kstate" where
  "switch_to s current_thread next_thread =
     (let s1 = put32 s (current_thread + off_self_kernel_stack) (esp s - 28)
      in s1\<lparr>esp := ld32 (mem s1) (next_thread + off_self_kernel_stack) + 20\<rparr>)"

text \<open>The first half of \<open>ScheduleThread\<close>: a running thread goes to the end of the ready list.\<close>

definition requeue_current :: "symbols \<Rightarrow> kstate \<Rightarrow> addr \<Rightarrow> (kstate, unit) outcome" where
  "requeue_current g s cur =
     (if PCB_status (mem s) cur = task_code TASK_RUNNING
      then obind (elem_find s (ready_thread_list g) (general_tag cur)) (\<lambda>found s1.
        ASSERT ''ScheduleThread'' ''!elem_find(&ready_thread_list, &current_thread->general_tag)''
          (\<not> found)
          (obind (list_append s1 (ready_thread_list g) (general_tag cur)) (\<lambda>_ s2.
             let s3 = put8 s2 (cur + off_cpu_ticks_left) (ld8 (mem s2) (cur + off_priority))
             in Ok () (put32 s3 (cur + off_status) (task_code TASK_READY)))))
      else Ok () s)"

text \<open>The second half: the first ready thread gets the processor.\<close>

definition dispatch_next :: "symbols \<Rightarrow> kstate \<Rightarrow> addr \<Rightarrow> (kstate, unit) outcome" where
  "dispatch_next g s cur =
     ASSERT ''ScheduleThread'' ''!list_empty(&ready_thread_list)''
       (\<not> list_empty (mem s) (ready_thread_list g))
       (obind (list_pop (s\<lparr>thread_tag := NULL\<rparr>) (ready_thread_list g)) (\<lambda>tag s1.
        let s2 = s1\<lparr>thread_tag := tag\<rparr>;
            next_thread = tag2pcb tag;
            s3 = put32 s2 (next_thread + off_status) (task_code TASK_RUNNING)
        in obind (ActiveProcess g s3 next_thread) (\<lambda>_ s4.
           let s5 = switch_to s4 cur next_thread
           in if next_thread = cur then Ok () (s5\<lparr>esp := esp s5 + 8\<rparr>) else Switched s5)))"

definition ScheduleThread :: "symbols \<Rightarrow> kstate \<Rightarrow> (kstate, unit) outcome" where
  "ScheduleThread g s =
     ASSERT ''ScheduleThread'' ''GetIntStatus() == INT_OFF'' (GetIntStatus s = INT_OFF)
       (let current_thread = GetCurrentThreadPCB s in
        obind (requeue_current g s current_thread) (\<lambda>_ s1. dispatch_next g s1 current_thread))"

definition BlockThread :: "symbols \<Rightarrow> task_status \<Rightarrow> kstate \<Rightarrow> (kstate, unit) outcome" where
  "BlockThread g stat s =
     ASSERT ''BlockThread'' ''stat == TASK_BLOCKD || stat == TASK_WAITING || stat == TASK_HANGING''
       (stat = TASK_BLOCKD \<or> stat = TASK_WAITING \<or> stat = TASK_HANGING)
       (let (old_int_statu, s1) = DisableInt s;
            current_thread = GetCurrentThreadPCB s1;
            s2 = put32 s1 (current_thread + off_status) (task_code stat)
        in obind (ScheduleThread g s2) (\<lambda>_ s3. Ok () (snd (SetIntStatus old_int_statu s3))))"

definition UnblockThread :: "symbols \<Rightarrow> kstate \<Rightarrow> addr \<Rightarrow> (kstate, unit) outcome" where
  "UnblockThread g s pthread =
     (let (old_int_statu, s1) = DisableInt s;
          st = PCB_status (mem s1) pthread
      in ASSERT ''UnblockThread''
           ''pthread->status == TASK_BLOCKD || pthread->status == TASK_HANGING || pthread->status == TASK_WAITING''
           (st = task_code TASK_BLOCKD \<or> st = task_code TASK_HANGING \<or> st = task_code TASK_WAITING)
           (obind
             (if st \<noteq> task_code TASK_READY
              then obind (elem_find s1 (ready_thread_list g) (general_tag pthread)) (\<lambda>found s2.
                ASSERT ''UnblockThread'' ''!elem_find(&ready_thread_list, &pthread->general_tag)''
                  (\<not> found)
                  (if found then Panic ''UnblockThread'' ''blocked thread in ready_list''
                   else obind (list_push s2 (ready_thread_list g) (general_tag pthread)) (\<lambda>_ s3.
                     Ok () (put32 s3 (pthread + off_status) (task_code TASK_READY)))))
              else Ok () s1)
             (\<lambda>_ s4. Ok () (snd (SetIntStatus old_int_statu s4)))))"

section \<open>The abstract scheduler\<close>

text \<open>One running thread, a sequence of ready threads, and the status of every thread.\<close>

record sched =
  running :: addr
  ready :: "addr list"
  status :: "addr \<Rightarrow> task_status"

definition sched_inv :: "addr set \<Rightarrow> sched \<Rightarrow> bool" where
  "sched_inv ts a \<longleftrightarrow> running a \<in> ts \<and> set (ready a) \<subseteq> ts \<and> distinct (ready a)
     \<and> (\<forall>p \<in> ts. (status a p = TASK_RUNNING \<longleftrightarrow> p = running a)
                \<and> (status a p = TASK_READY \<longleftrightarrow> p \<in> set (ready a)))"

fun a_dispatch :: "sched \<Rightarrow> sched option" where
  "a_dispatch a = (case ready a of [] \<Rightarrow> None
     | n # ns \<Rightarrow> Some (a\<lparr>running := n, ready := ns, status := (status a)(n := TASK_RUNNING)\<rparr>))"

definition a_preempt :: "sched \<Rightarrow> sched option" where
  "a_preempt a = a_dispatch (a\<lparr>ready := ready a @ [running a],
     status := (status a)(running a := TASK_READY)\<rparr>)"

definition a_block :: "task_status \<Rightarrow> sched \<Rightarrow> sched option" where
  "a_block stat a = a_dispatch (a\<lparr>status := (status a)(running a := stat)\<rparr>)"

definition a_unblock :: "addr \<Rightarrow> sched \<Rightarrow> sched" where
  "a_unblock p a = a\<lparr>ready := p # ready a, status := (status a)(p := TASK_READY)\<rparr>"

abbreviation blocking :: "task_status \<Rightarrow> bool" where
  "blocking st \<equiv> st = TASK_BLOCKD \<or> st = TASK_WAITING \<or> st = TASK_HANGING"

text \<open>Between giving up the processor and dispatching, no thread is running.\<close>

definition sched_mid :: "addr set \<Rightarrow> sched \<Rightarrow> bool" where
  "sched_mid ts a \<longleftrightarrow> set (ready a) \<subseteq> ts \<and> distinct (ready a)
     \<and> (\<forall>p \<in> ts. status a p \<noteq> TASK_RUNNING \<and> (status a p = TASK_READY \<longleftrightarrow> p \<in> set (ready a)))"

lemma a_dispatch_inv: "sched_mid ts a \<Longrightarrow> a_dispatch a = Some b \<Longrightarrow> sched_inv ts b"
  by (cases "ready a") (auto simp: sched_mid_def sched_inv_def split: if_splits)

lemma preempt_mid:
  "sched_inv ts a \<Longrightarrow> sched_mid ts (a\<lparr>ready := ready a @ [running a],
     status := (status a)(running a := TASK_READY)\<rparr>)"
  by (auto simp: sched_mid_def sched_inv_def)

lemma block_mid:
  "sched_inv ts a \<Longrightarrow> blocking st \<Longrightarrow> sched_mid ts (a\<lparr>status := (status a)(running a := st)\<rparr>)"
  by (auto simp: sched_mid_def sched_inv_def)

lemma a_preempt_inv: "sched_inv ts a \<Longrightarrow> a_preempt a = Some b \<Longrightarrow> sched_inv ts b"
  unfolding a_preempt_def by (blast intro: a_dispatch_inv preempt_mid)

lemma a_block_inv:
  "sched_inv ts a \<Longrightarrow> blocking st \<Longrightarrow> a_block st a = Some b \<Longrightarrow> sched_inv ts b"
  unfolding a_block_def by (blast intro: a_dispatch_inv block_mid)

lemma a_unblock_inv:
  "sched_inv ts a \<Longrightarrow> p \<in> ts \<Longrightarrow> blocking (status a p) \<Longrightarrow> sched_inv ts (a_unblock p a)"
  by (auto simp: a_unblock_def sched_inv_def)

section \<open>Representation\<close>

text \<open>
  \<open>layout g ts\<close>: where the PCBs of the threads \<open>ts\<close>, the ready list and the task state
  segment lie. \<open>rep g ts c m a\<close>: the store represents the abstract state \<open>a\<close> while the
  thread \<open>c\<close> is on the processor; the kernel stack pointer saved in the PCB of every other
  thread lies in that thread's page.
\<close>

definition layout :: "symbols \<Rightarrow> addr set \<Rightarrow> bool" where
  "layout g ts \<longleftrightarrow> sep (sym_tss g) 108 (ready_thread_list g) 16 \<and>
     (\<forall>p \<in> ts. p \<noteq> NULL \<and> page_aligned p \<and> sep (ready_thread_list g) 16 p 4096
        \<and> sep (sym_tss g) 108 p 4096)"

definition saved_esp_ok :: "mem \<Rightarrow> addr \<Rightarrow> bool" where
  "saved_esp_ok m p \<longleftrightarrow> inr (ld32 m (p + off_self_kernel_stack) + 20) p 4096"

definition rep :: "symbols \<Rightarrow> addr set \<Rightarrow> addr \<Rightarrow> mem \<Rightarrow> sched \<Rightarrow> bool" where
  "rep g ts c m a \<longleftrightarrow> layout g ts \<and> set (ready a) \<subseteq> ts
     \<and> is_list m (ready_thread_list g) (map general_tag (ready a))
     \<and> (\<forall>p \<in> ts. PCB_status m p = task_code (status a p))
     \<and> (\<forall>p \<in> ts. p \<noteq> c \<longrightarrow> saved_esp_ok m p)"

text \<open>Where list nodes and PCB fields are, relative to each other.\<close>

definition sched_nodes :: "symbols \<Rightarrow> addr set \<Rightarrow> addr set" where
  "sched_nodes g ts = {ready_thread_list g, list_tail (ready_thread_list g)} \<union> general_tag ` ts"

lemma node_field_sep:
  assumes "layout g ts" "p \<in> ts" "x \<in> sched_nodes g ts" "0 < n"
    and "unat off + n \<le> 32 \<or> 40 \<le> unat off \<and> unat off + n \<le> 4096"
  shows "sep x 8 (p + off) n"
proof -
  have p: "sep (ready_thread_list g) 16 p 4096" "page_aligned p"
    using assms(1,2) by (auto simp: layout_def)
  consider "x = ready_thread_list g" | "x = list_tail (ready_thread_list g)"
    | q where "q \<in> ts" "x = general_tag q" "q \<noteq> p" | "x = general_tag p"
    using assms(3) by (auto simp: sched_nodes_def)
  then show ?thesis
  proof cases
    case 1
    then show ?thesis
      using sep_parts [OF p(1), of 0 8 off n] assms(4,5) by auto
  next
    case 2
    then show ?thesis
      using sep_parts [OF p(1), of 8 8 off n] assms(4,5) by auto
  next
    case (3 q)
    then have "sep q 4096 p 4096"
      using p(2) assms(1) by (auto simp: layout_def intro: pages_sep)
    from sep_parts [OF this, of 32 8 off n] 3 assms(4,5) show ?thesis
      by (auto simp: general_tag_def)
  next
    case 4
    have "8 \<le> unat (off - 32) \<and> n \<le> unat (32 - off)"
      using assms(4,5) by (auto simp: unat_sub_if' word_le_nat_alt)
    with 4 show ?thesis by (simp add: general_tag_def)
  qed
qed

lemma nodes_in_sched:
  "set xs \<subseteq> ts \<Longrightarrow> set (nodes (ready_thread_list g) (map general_tag xs)) \<subseteq> sched_nodes g ts"
  by (auto simp: sched_nodes_def)

lemma sched_node_sep:
  assumes "layout g ts" "p \<in> ts" "x \<in> sched_nodes g ts" "x \<noteq> general_tag p"
  shows "sep x 8 (general_tag p) 8"
proof -
  have p: "sep (ready_thread_list g) 16 p 4096" "page_aligned p"
    using assms(1,2) by (auto simp: layout_def)
  consider "x = ready_thread_list g" | "x = list_tail (ready_thread_list g)"
    | q where "q \<in> ts" "x = general_tag q" "q \<noteq> p"
    using assms(3,4) by (auto simp: sched_nodes_def)
  then show ?thesis
  proof cases
    case 1
    then show ?thesis
      using sep_parts [OF p(1), of 0 8 32 8] by (simp add: general_tag_def)
  next
    case 2
    then show ?thesis
      using sep_parts [OF p(1), of 8 8 32 8] by (simp add: general_tag_def)
  next
    case (3 q)
    then have "sep q 4096 p 4096"
      using p(2) assms(1) by (auto simp: layout_def intro: pages_sep)
    from sep_parts [OF this, of 32 8 32 8] 3 show ?thesis
      by (simp add: general_tag_def)
  qed
qed

lemma general_tag_nonnull: "page_aligned p \<Longrightarrow> general_tag p \<noteq> NULL"
proof
  assume p: "page_aligned p" and "general_tag p = NULL"
  then have "(p + 32) AND PAGE_MASK = 0" "p + 32 = 0" by (simp_all add: general_tag_def)
  moreover have "(p + 32) AND PAGE_MASK = p"
    by (rule page_of_offset [OF p]) simp
  ultimately show False by simp
qed

lemma fresh_general_tag:
  assumes "layout g ts" "c \<in> ts" "set xs \<subseteq> ts" "c \<notin> set xs"
  shows "fresh_node (ready_thread_list g) (map general_tag xs) (general_tag c)"
proof -
  have l: "page_aligned c" "sep (ready_thread_list g) 16 c 4096"
    using assms(1,2) by (auto simp: layout_def)
  have "sep (general_tag c) 8 x 8" if x: "x \<in> set (nodes (ready_thread_list g) (map general_tag xs))" for x
  proof -
    have "x \<in> sched_nodes g ts" using nodes_in_sched [OF assms(3)] x by blast
    moreover have "x \<noteq> general_tag c"
      using x assms(4) sep_neq [OF sep_parts [OF l(2), of 0 8 32 8]]
        sep_neq [OF sep_parts [OF l(2), of 8 8 32 8]]
      by (auto simp: general_tag_def)
    ultimately show ?thesis
      using sched_node_sep [OF assms(1,2)] sep_sym by blast
  qed
  then show ?thesis
    using general_tag_nonnull [OF l(1)] by (simp add: fresh_node_def)
qed

text \<open>How the representation reacts to the scheduler's writes.\<close>

lemma rep_nodes:
  assumes "rep g ts c m a" "only_nodes m m' (sched_nodes g ts)" "set r \<subseteq> ts"
    and "is_list m' (ready_thread_list g) (map general_tag r)"
  shows "rep g ts c m' (a\<lparr>ready := r\<rparr>)"
proof -
  have l: "layout g ts" using assms(1) by (simp add: rep_def)
  have "ld32 m' (p + off) = ld32 m (p + off)" if "p \<in> ts" "unat off + 4 \<le> 32" for p off
    by (rule ld32_cong, rule only_nodes_eq_on [OF assms(2)], rule node_field_sep [OF l])
      (use that in auto)
  from this [of _ 8] this [of _ 0] assms show ?thesis
    by (simp add: rep_def PCB_status_def saved_esp_ok_def)
qed

lemma list_after_field_write:
  assumes "rep g ts c m a" "only_in m m' (p + off) n" "p \<in> ts" "0 < n" "unat off + n \<le> 32"
  shows "is_list m' (ready_thread_list g) (map general_tag (ready a))"
proof (rule is_list_only_in [OF _ assms(2)])
  show "is_list m (ready_thread_list g) (map general_tag (ready a))"
    using assms(1) by (simp add: rep_def)
  fix x assume "x \<in> set (nodes (ready_thread_list g) (map general_tag (ready a)))"
  then have "x \<in> sched_nodes g ts"
    using assms(1) nodes_in_sched by (auto simp: rep_def sched_nodes_def)
  from node_field_sep [OF _ assms(3) this assms(4)] assms show "sep (p + off) n x 8"
    by (simp add: sep_commute rep_def)
qed

lemma field_after_field_write:
  assumes "layout g ts" "only_in m m' (p + off) n" "p \<in> ts" "q \<in> ts" "0 < n"
    and "unat off + n \<le> 4096" "unat off' + 4 \<le> 4096"
    and "p = q \<Longrightarrow> n \<le> unat (off' - off) \<and> 4 \<le> unat (off - off')"
  shows "ld32 m' (q + off') = ld32 m (q + off')"
proof (rule b4.ld_frame [OF assms(2)])
  show "sep (p + off) n (q + off') 4"
  proof (cases "p = q")
    case False
    then have "sep p 4096 q 4096"
      using assms(1,3,4) by (auto simp: layout_def intro: pages_sep)
    then show ?thesis
      by (rule sep_parts) (use assms in auto)
  qed (use assms(8) in simp)
qed

lemma rep_field:
  assumes "rep g ts c m a" "only_in m m' (p + off) n" "p \<in> ts" "0 < n"
    and "12 \<le> unat off" "unat off + n \<le> 32"
  shows "rep g ts c m' a"
proof -
  have l: "layout g ts" using assms(1) by (simp add: rep_def)
  have "n \<le> unat (8 - off) \<and> 4 \<le> unat (off - 8) \<and> n \<le> unat (0 - off) \<and> 4 \<le> unat (off - 0)"
    using assms(4,5,6) by (auto simp: unat_sub_if' word_le_nat_alt unat_minus_u32)
  then have "ld32 m' (q + off') = ld32 m (q + off')" if "q \<in> ts" "off' = 0 \<or> off' = 8" for q off'
    by (intro field_after_field_write [OF l assms(2,3)]) (use that assms in auto)
  from this [of _ 8] this [of _ 0] assms(1) list_after_field_write [OF assms(1-4,6)] show ?thesis
    by (simp add: rep_def PCB_status_def saved_esp_ok_def)
qed

lemma rep_status:
  assumes "rep g ts c m a" "p \<in> ts"
  shows "rep g ts c (st32 m (p + 8) (task_code st)) (a\<lparr>status := (status a)(p := st)\<rparr>)"
proof -
  let ?m = "st32 m (p + 8) (task_code st)"
  have l: "layout g ts" using assms(1) by (simp add: rep_def)
  note w = only_in_st32 [of m "p + 8" "task_code st"]
  have "ld32 ?m (q + 8) = ld32 m (q + 8)" if "q \<in> ts" "q \<noteq> p" for q
    by (rule field_after_field_write [OF l w assms(2)]) (use that in auto)
  moreover have "ld32 ?m (q + 0) = ld32 m (q + 0)" if "q \<in> ts" for q
    by (rule field_after_field_write [OF l w assms(2)]) (use that in auto)
  ultimately show ?thesis
    using assms list_after_field_write [OF assms(1) w assms(2)]
    by (auto simp: rep_def PCB_status_def saved_esp_ok_def)
qed

lemma rep_save:
  assumes "rep g ts c m a" "c \<in> ts" "inr (v + 20) c 4096"
  shows "rep g ts d (st32 m c v) a"
proof -
  have l: "layout g ts" using assms(1) by (simp add: rep_def)
  have w: "only_in m (st32 m c v) (c + 0) 4"
    using only_in_st32 [of m c v] by simp
  have "ld32 (st32 m c v) (q + 8) = ld32 m (q + 8)" if "q \<in> ts" for q
    by (rule field_after_field_write [OF l w assms(2)]) (use that in auto)
  moreover have "ld32 (st32 m c v) (q + 0) = ld32 m (q + 0)" if "q \<in> ts" "q \<noteq> c" for q
    by (rule field_after_field_write [OF l w assms(2)]) (use that in auto)
  ultimately show ?thesis
    using assms(1) assms(3) l list_after_field_write [OF assms(1) w assms(2)]
    by (simp add: rep_def PCB_status_def saved_esp_ok_def) (metis load_store_same(3))
qed

lemma rep_tss:
  assumes "rep g ts c m a" "only_in m m' (sym_tss g + 4) 4"
  shows "rep g ts c m' a"
proof -
  have l: "layout g ts" and r: "set (ready a) \<subseteq> ts" using assms(1) by (simp_all add: rep_def)
  have "sep (sym_tss g + 4) 4 (p + off) k" if "p \<in> ts" "unat off + k \<le> 4096" "0 < k" for p off k
    using l that by (intro sep_parts [of "sym_tss g" 108 p 4096]) (auto simp: layout_def)
  note page = this
  have "ld32 m' (p + off) = ld32 m (p + off)" if "p \<in> ts" "unat off + 4 \<le> 4096" for p off
    using b4.ld_frame [OF assms(2) page [OF that]] by simp
  note fields = this
  have "sep (sym_tss g + 4) 4 x 8"
    if "x \<in> set (nodes (ready_thread_list g) (map general_tag (ready a)))" for x
  proof -
    have s: "sep (sym_tss g) 108 (ready_thread_list g) 16" using l by (simp add: layout_def)
    have "sep (sym_tss g + 4) 4 (ready_thread_list g + 0) 8"
      "sep (sym_tss g + 4) 4 (ready_thread_list g + 8) 8"
      by (rule sep_parts [OF s]; simp)+
    with that r page [of _ 32 8] show ?thesis by (auto simp: general_tag_def)
  qed
  then have "is_list m' (ready_thread_list g) (map general_tag (ready a))"
    using assms(1) by (intro is_list_only_in [OF _ assms(2)]) (auto simp: rep_def)
  with assms(1) fields [of _ 8] fields [of _ 0] show ?thesis
    by (simp add: rep_def PCB_status_def saved_esp_ok_def)
qed

section \<open>Frame\<close>

text \<open>
  What the scheduler may write: the list nodes \<open>N\<close>, the first 32 bytes of the PCBs (everything
  before the list nodes) and \<open>tss.esp0\<close>.
\<close>

definition sched_frame :: "symbols \<Rightarrow> addr set \<Rightarrow> addr set \<Rightarrow> mem \<Rightarrow> mem \<Rightarrow> bool" where
  "sched_frame g ts N m m' \<longleftrightarrow> (\<forall>x. (\<forall>n \<in> N. \<not> inr x n 8) \<and> (\<forall>p \<in> ts. \<not> inr x p 32)
     \<and> \<not> inr x (sym_tss g + 4) 4 \<longrightarrow> m' x = m x)"

lemma sched_frame_refl [simp]: "sched_frame g ts N m m"
  by (simp add: sched_frame_def)

lemma sched_frame_trans:
  "sched_frame g ts N m m' \<Longrightarrow> sched_frame g ts N m' m'' \<Longrightarrow> sched_frame g ts N m m''"
  by (simp add: sched_frame_def)

lemma sched_frame_mono: "sched_frame g ts N m m' \<Longrightarrow> N \<subseteq> N' \<Longrightarrow> sched_frame g ts N' m m'"
  by (auto simp: sched_frame_def)

lemma sched_frame_nodes: "only_nodes m m' N \<Longrightarrow> sched_frame g ts N m m'"
  by (simp add: sched_frame_def only_nodes_def)

lemma sched_frame_field:
  "only_in m m' (p + off) n \<Longrightarrow> p \<in> ts \<Longrightarrow> unat off + n \<le> 32 \<Longrightarrow> sched_frame g ts N m m'"
  by (auto simp: sched_frame_def only_in_def dest: inr_part)

lemma sched_frame_tss: "only_in m m' (sym_tss g + 4) 4 \<Longrightarrow> sched_frame g ts N m m'"
  by (simp add: sched_frame_def only_in_def)

lemma sched_frame_eq_on:
  assumes "sched_frame g ts N m m'" "\<And>n. n \<in> N \<Longrightarrow> sep n 8 b k" "\<And>p. p \<in> ts \<Longrightarrow> sep p 32 b k"
    and "sep (sym_tss g + 4) 4 b k"
  shows "eq_on m' m b k"
proof -
  have "m' x = m x" if x: "inr x b k" for x
  proof -
    have "\<not> inr x n 8" if "n \<in> N" for n
      using sep_disjoint [OF assms(2) [OF that]] x by blast
    moreover have "\<not> inr x p 32" if "p \<in> ts" for p
      using sep_disjoint [OF assms(3) [OF that]] x by blast
    moreover have "\<not> inr x (sym_tss g + 4) 4"
      using sep_disjoint [OF assms(4)] x by blast
    ultimately show ?thesis using assms(1) by (simp add: sched_frame_def)
  qed
  then show ?thesis by (simp add: eq_on_def)
qed

text \<open>The node of a thread outside \<open>N\<close>, and an object apart from everything of the scheduler.\<close>

lemma frame_general_tag:
  assumes "sched_frame g ts N m m'" "layout g ts" "N \<subseteq> sched_nodes g ts" "w \<in> ts"
    and "general_tag w \<notin> N"
  shows "eq_on m' m (general_tag w) 8"
proof (rule sched_frame_eq_on [OF assms(1)])
  fix n assume "n \<in> N"
  then show "sep n 8 (general_tag w) 8"
    using sched_node_sep [OF assms(2,4), of n] assms(3,5) by auto
next
  fix p assume p: "p \<in> ts"
  show "sep p 32 (general_tag w) 8"
  proof (cases "p = w")
    case False
    then have "sep p 4096 w 4096" using p assms(2,4) by (auto simp: layout_def intro: pages_sep)
    from sep_parts [OF this, of 0 32 32 8] show ?thesis by (simp add: general_tag_def)
  qed (simp add: general_tag_def)
next
  have "sep (sym_tss g) 108 w 4096" using assms(2,4) by (simp add: layout_def)
  from sep_parts [OF this, of 4 4 32 8] show "sep (sym_tss g + 4) 4 (general_tag w) 8"
    by (simp add: general_tag_def)
qed

definition apart :: "symbols \<Rightarrow> addr set \<Rightarrow> addr \<Rightarrow> nat \<Rightarrow> bool" where
  "apart g ts b k \<longleftrightarrow> 0 < k \<and> sep b k (ready_thread_list g) 16 \<and> sep b k (sym_tss g) 108
     \<and> (\<forall>p \<in> ts. sep b k p 4096)"

lemma apart_sched_node:
  assumes "apart g ts b k" "n \<in> sched_nodes g ts"
  shows "sep n 8 b k"
proof -
  have k: "0 < k" and l: "sep (ready_thread_list g) 16 b k"
    using assms(1) by (auto simp: apart_def sep_commute)
  have p: "sep p 4096 b k" if "p \<in> ts" for p
    using that assms(1) by (auto simp: apart_def sep_commute)
  show ?thesis
    using assms(2) sep_offset_left [OF l, of 0 8] sep_offset_left [OF l, of 8 8]
      sep_offset_left [OF p, of _ 32 8] k by (auto simp: sched_nodes_def general_tag_def)
qed

lemma frame_apart:
  assumes "sched_frame g ts N m m'" "apart g ts b k" "N \<subseteq> sched_nodes g ts"
  shows "eq_on m' m b k"
proof (rule sched_frame_eq_on [OF assms(1)])
  fix n assume "n \<in> N"
  then show "sep n 8 b k" using apart_sched_node [OF assms(2)] assms(3) by blast
next
  fix p assume "p \<in> ts"
  then have "sep p 4096 b k" "0 < k" using assms(2) by (auto simp: apart_def sep_commute)
  from sep_offset_left [OF this(1), of 0 32] this(2) show "sep p 32 b k" by simp
next
  have "sep (sym_tss g) 108 b k" "0 < k" using assms(2) by (auto simp: apart_def sep_commute)
  from sep_offset_left [OF this(1), of 4 4] this(2) show "sep (sym_tss g + 4) 4 b k" by simp
qed

text \<open>Conversely, the representation does not see writes to an object apart from it.\<close>

lemma rep_apart:
  assumes "rep g ts c m a" "apart g ts b k" "only_in m m' b k"
  shows "rep g ts c m' a"
proof -
  have k: "0 < k" and l: "layout g ts" and r: "set (ready a) \<subseteq> ts"
    using assms(1,2) by (auto simp: apart_def rep_def)
  have f: "ld32 m' (p + off) = ld32 m (p + off)" if "p \<in> ts" "unat off + 4 \<le> 4096" for p off
  proof (rule b4.ld_frame [OF assms(3)])
    have "sep b k p 4096" using assms(2) that by (simp add: apart_def)
    from sep_offset_right [OF this that(2) k] show "sep b k (p + off) 4" by simp
  qed
  have "sep b k x 8" if "x \<in> set (nodes (ready_thread_list g) (map general_tag (ready a)))" for x
    using apart_sched_node [OF assms(2), of x] nodes_in_sched [OF r, of g] that sep_sym by blast
  then have "is_list m' (ready_thread_list g) (map general_tag (ready a))"
    using assms(1) by (intro is_list_only_in [OF _ assms(3)]) (auto simp: rep_def)
  with assms(1) f [of _ 8] f [of _ 0] show ?thesis
    by (simp add: rep_def PCB_status_def saved_esp_ok_def)
qed

section \<open>Refinement\<close>

text \<open>\<open>ActiveProcess\<close> loads \<open>cr3\<close> and at most writes \<open>tss.esp0\<close>.\<close>

lemma ActiveProcess_effect:
  assumes "p \<noteq> NULL"
  obtains s' where "ActiveProcess g s p = Ok () s'" "only_in (mem s) (mem s') (sym_tss g + 4) 4"
    "esp s' = esp s" "eflags s' = eflags s"
proof
  show "ActiveProcess g s p = Ok ()
    (if PCB_PDE_addr (mem s) p \<noteq> NULL then UpdateTssEsp g (ActivePDE s p) p else ActivePDE s p)"
    using assms by (simp add: ActiveProcess_def ActivePDE_def Let_def)
qed (auto simp: UpdateTssEsp_def ActivePDE_def only_in_st32 Let_def)

lemma switch_to_regs:
  assumes "n \<noteq> c \<longrightarrow> sep c 4 n 4"
  shows "esp (switch_to s c n) = (if n = c then esp s - 8 else ld32 (mem s) n + 20)"
  using assms by (auto simp: switch_to_def Let_def)

lemma switch_to_effect:
  "mem (switch_to s c n) = st32 (mem s) c (esp s - 28)" "eflags (switch_to s c n) = eflags s"
  by (auto simp: switch_to_def Let_def)

lemma dispatch_refines:
  assumes rep: "rep g ts c (mem s) a" and mid: "sched_mid ts a" and c: "c \<in> ts"
    and esp: "inr (esp s) c 4096" "inr (esp s - 8) c 4096" and r: "ready a = n # ns"
  obtains s' b where "dispatch_next g s c = (if n = c then Ok () s' else Switched s')"
    "a_dispatch a = Some b" "running b = n" "rep g ts n (mem s') b"
    "GetCurrentThreadPCB s' = n" "eflags s' = eflags s"
    "sched_frame g ts (set (nodes (ready_thread_list g) (map general_tag (ready a)))) (mem s) (mem s')"
proof -
  let ?L = "ready_thread_list g"
  let ?s = "s\<lparr>thread_tag := NULL\<rparr>"
  let ?a = "a\<lparr>ready := ns\<rparr>"
  let ?b = "?a\<lparr>running := n, status := (status a)(n := TASK_RUNNING)\<rparr>"
  have ts: "n \<in> ts" "set ns \<subseteq> ts" and lay: "layout g ts" and
    L: "is_list (mem s) ?L (general_tag n # map general_tag ns)"
    using rep r by (auto simp: rep_def)
  have al: "page_aligned n" "page_aligned c" "n \<noteq> NULL"
    using lay ts c by (auto simp: layout_def)
  obtain m1 where m1: "list_pop ?s ?L = Ok (general_tag n) (?s\<lparr>mem := m1\<rparr>)"
    "is_list m1 ?L (map general_tag ns)" "only_nodes (mem s) m1 (set (nodes ?L (map general_tag ns)))"
    using list_pop_effect [of ?s ?L "general_tag n" "map general_tag ns"] L by auto
  have "rep g ts c m1 ?a"
    by (rule rep_nodes [OF rep only_nodes_mono [OF m1(3) nodes_in_sched [OF ts(2)]] ts(2) m1(2)])
  from rep_status [OF this ts(1), of TASK_RUNNING]
  have rep2: "rep g ts c (st32 m1 (n + 8) 0) (?a\<lparr>status := (status a)(n := TASK_RUNNING)\<rparr>)"
    by simp
  define s2 where "s2 = put32 (s\<lparr>mem := m1, thread_tag := general_tag n\<rparr>) (n + 8) 0"
  obtain s3 where s3: "ActiveProcess g s2 n = Ok () s3"
    "only_in (mem s2) (mem s3) (sym_tss g + 4) 4" "esp s3 = esp s2" "eflags s3 = eflags s2"
    using ActiveProcess_effect [OF al(3)] by blast
  have rep3: "rep g ts c (mem s3) (?a\<lparr>status := (status a)(n := TASK_RUNNING)\<rparr>)"
    using rep_tss [OF _ s3(2)] rep2 by (simp add: s2_def)
  have esp3: "esp s3 = esp s" "eflags s3 = eflags s"
    using s3(3,4) by (simp_all add: s2_def)
  have sw: "n \<noteq> c \<longrightarrow> sep c 4 n 4"
    using pages_sep [OF al(2,1)] sep_parts [of c 4096 n 4096 0 4 0 4] by auto
  define s5 where "s5 = switch_to s3 c n"
  have "rep g ts n (st32 (mem s3) c (esp s - 28)) ?b"
    using rep_save [OF rep3 c, of "esp s - 28" n] esp(2) by (simp add: rep_def)
  then have rep5: "rep g ts n (mem s5) ?b"
    by (simp add: s5_def switch_to_effect(1) esp3)
  have e5: "inr (if n = c then esp s5 + 8 else esp s5) n 4096"
    using rep3 esp(1) ts switch_to_regs [OF sw, of s3] esp3(1)
    by (cases "n = c") (auto simp: s5_def rep_def saved_esp_ok_def)
  have ne: "\<not> list_empty (mem s) ?L"
    using L by (simp add: list_empty_iff)
  have dn: "dispatch_next g s c =
    (if n = c then Ok () (s5\<lparr>esp := esp s5 + 8\<rparr>) else Switched s5)"
    using ne m1(1) s3(1) by (cases "n = c") (auto simp: dispatch_next_def s5_def s2_def Let_def)
  have frame: "sched_frame g ts (set (nodes ?L (map general_tag (ready a)))) (mem s) (mem s5)"
  proof (rule sched_frame_trans)
    show "sched_frame g ts (set (nodes ?L (map general_tag (ready a)))) (mem s) m1"
      using sched_frame_nodes [OF m1(3)] by (rule sched_frame_mono) (auto simp: r)
    have "sched_frame g ts N m1 (mem s2)" for N
      using sched_frame_field [OF only_in_st32 ts(1), of 8] by (simp add: s2_def)
    moreover have "sched_frame g ts N (mem s2) (mem s3)" for N
      by (rule sched_frame_tss [OF s3(2)])
    moreover have "sched_frame g ts N (mem s3) (mem s5)" for N
      using sched_frame_field [OF _ c, of _ _ 0 4] only_in_st32 by (simp add: s5_def switch_to_effect)
    ultimately show "sched_frame g ts (set (nodes ?L (map general_tag (ready a)))) m1 (mem s5)"
      by (blast intro: sched_frame_trans)
  qed
  show thesis
  proof (rule that [of "if n = c then s5\<lparr>esp := esp s5 + 8\<rparr> else s5" ?b])
    show "GetCurrentThreadPCB (if n = c then s5\<lparr>esp := esp s5 + 8\<rparr> else s5) = n"
      using page_of_inr [OF al(1) e5] by (auto simp: GetCurrentThreadPCB_def)
  qed (use dn r rep5 frame in \<open>auto simp: s5_def switch_to_effect(2) esp3\<close>)
qed

lemma dispatch_empty:
  "rep g ts c (mem s) a \<Longrightarrow> ready a = [] \<Longrightarrow>
   dispatch_next g s c = Panic ''ScheduleThread'' ''!list_empty(&ready_thread_list)''"
  using list_empty_iff [of "mem s" "ready_thread_list g" "[]"] by (simp add: dispatch_next_def rep_def)

text \<open>The running thread goes to the end of the ready list.\<close>

lemma requeue_refines:
  assumes rep: "rep g ts c (mem s) a" and inv: "sched_inv ts a" and c: "c = running a"
  obtains m' where "requeue_current g s c = Ok () (s\<lparr>mem := m'\<rparr>)"
    "rep g ts c m' (a\<lparr>ready := ready a @ [c], status := (status a)(c := TASK_READY)\<rparr>)"
    "sched_frame g ts (sched_nodes g ts) (mem s) m'"
proof -
  let ?L = "ready_thread_list g"
  have cts: "c \<in> ts" "set (ready a) \<subseteq> ts" "c \<notin> set (ready a)" "status a c = TASK_RUNNING"
    using inv c by (auto simp: sched_inv_def)
  have lay: "layout g ts" and L: "is_list (mem s) ?L (map general_tag (ready a))"
    and st: "PCB_status (mem s) c = task_code TASK_RUNNING"
    using rep cts(1,4) by (auto simp: rep_def)
  obtain m1 where m1: "list_append s ?L (general_tag c) = Ok () (s\<lparr>mem := m1\<rparr>)"
    "is_list m1 ?L (map general_tag (ready a) @ [general_tag c])"
    "only_nodes (mem s) m1 (insert (general_tag c) (set (nodes ?L (map general_tag (ready a)))))"
    using list_append_effect [OF L fresh_general_tag [OF lay cts(1-3)]] by blast
  have "insert (general_tag c) (set (nodes ?L (map general_tag (ready a)))) \<subseteq> sched_nodes g ts"
    using nodes_in_sched [OF cts(2), of g] cts(1) by (auto simp: sched_nodes_def)
  note o1 = only_nodes_mono [OF m1(3) this]
  have f: "sched_frame g ts (sched_nodes g ts) (mem s) (st32 (st8 m1 (c + 29) (ld8 m1 (c + 12))) (c + 8) 1)"
    by (rule sched_frame_trans [OF sched_frame_trans [OF sched_frame_nodes [OF o1]
            sched_frame_field [OF only_in_st8 cts(1)]] sched_frame_field [OF only_in_st32 cts(1)]]) simp_all
  from rep_nodes [OF rep o1, of "ready a @ [c]"]
  have "rep g ts c m1 (a\<lparr>ready := ready a @ [c]\<rparr>)"
    using m1(2) cts by simp
  from rep_field [OF this only_in_st8 [of m1 "c + 29" "ld8 m1 (c + 12)"] cts(1)]
  have "rep g ts c (st8 m1 (c + 29) (ld8 m1 (c + 12))) (a\<lparr>ready := ready a @ [c]\<rparr>)"
    by simp
  from rep_status [OF this cts(1), of TASK_READY]
  have "rep g ts c (st32 (st8 m1 (c + 29) (ld8 m1 (c + 12))) (c + 8) 1)
    (a\<lparr>ready := ready a @ [c], status := (status a)(c := TASK_READY)\<rparr>)"
    by simp
  moreover have "requeue_current g s c =
    Ok () (s\<lparr>mem := st32 (st8 m1 (c + 29) (ld8 m1 (c + 12))) (c + 8) 1\<rparr>)"
    using st m1(1) elem_find_eq [OF L, of "general_tag c"] cts(3)
    by (auto simp: requeue_current_def Let_def put8_def put32_def image_iff)
  ultimately show thesis using that f by blast
qed


lemma GetIntStatus_eflags: "eflags s' = eflags s \<Longrightarrow> GetIntStatus s' = GetIntStatus s"
  by (simp add: GetIntStatus_def)

lemma current_in_page: "inr (esp s) (GetCurrentThreadPCB s) 4096"
proof -
  have "esp s = (esp s AND PAGE_MASK) OR take_bit 12 (esp s)"
    by (rule bit_word_eqI) (auto simp: bit_simps PAGE_MASK_bit)
  also have "\<dots> = (esp s AND PAGE_MASK) + take_bit 12 (esp s)"
    by (rule disjunctive_add [symmetric]) (auto simp: bit_simps PAGE_MASK_bit)
  finally have "esp s - (esp s AND PAGE_MASK) = take_bit 12 (esp s)"
    by (metis add_diff_cancel_left')
  then have "unat (esp s - (esp s AND PAGE_MASK)) = take_bit 12 (unat (esp s))"
    by (simp only: unsigned_take_bit_eq)
  then show ?thesis by (simp add: inr_def GetCurrentThreadPCB_def take_bit_eq_mod)
qed

text \<open>Blocking the current thread: its status is set, then the next thread is dispatched.\<close>

lemma schedule_blocked:
  assumes rep: "rep g ts c (mem s) a" and inv: "sched_inv ts a"
    and c: "c = running a" "c = GetCurrentThreadPCB s" and st: "blocking st"
    and off: "GetIntStatus s = INT_OFF"
  shows "ScheduleThread g (put32 s (c + 8) (task_code st)) =
    dispatch_next g (put32 s (c + 8) (task_code st)) c"
    and "rep g ts c (mem (put32 s (c + 8) (task_code st))) (a\<lparr>status := (status a)(c := st)\<rparr>)"
proof -
  let ?s = "put32 s (c + 8) (task_code st)"
  have cts: "c \<in> ts" using inv c(1) by (simp add: sched_inv_def)
  have "PCB_status (mem ?s) c \<noteq> task_code TASK_RUNNING"
    using st by (auto simp: PCB_status_def)
  then show "ScheduleThread g ?s = dispatch_next g ?s c"
    using off c(2) by (simp add: ScheduleThread_def requeue_current_def GetCurrentThreadPCB_def Let_def)
  show "rep g ts c (mem ?s) (a\<lparr>status := (status a)(c := st)\<rparr>)"
    using rep_status [OF rep cts] by simp
qed

lemma BlockThread_effect:
  assumes "rep g ts (running a) (mem s) a" "sched_inv ts a" "GetCurrentThreadPCB s = running a"
    and "inr (esp s - 8) (running a) 4096" "blocking st" "ready a = n # ns"
  obtains s' b where "BlockThread g st s = Switched s'" "a_block st a = Some b" "running b = n"
    "n \<noteq> running a" "rep g ts n (mem s') b" "GetCurrentThreadPCB s' = n" "GetIntStatus s' = INT_OFF"
    "sched_frame g ts (set (nodes (ready_thread_list g) (map general_tag (ready a)))) (mem s) (mem s')"
proof -
  let ?c = "running a" and ?s = "snd (DisableInt s)"
  let ?t = "put32 ?s (?c + 8) (task_code st)"
  have S: "ScheduleThread g ?t = dispatch_next g ?t ?c"
    "rep g ts ?c (mem ?t) (a\<lparr>status := (status a)(?c := st)\<rparr>)"
    by (rule schedule_blocked [of g ts ?c ?s a st]; insert assms; simp add: GetCurrentThreadPCB_def)+
  have B: "BlockThread g st s = obind (dispatch_next g ?t ?c)
      (\<lambda>_ s3. Ok () (snd (SetIntStatus (fst (DisableInt s)) s3)))"
    using assms(3) S(1) by (simp add: BlockThread_def split_def Let_def GetCurrentThreadPCB_def assms(5))
  have c: "?c \<in> ts" "n \<noteq> ?c" using assms(2,6) by (auto simp: sched_inv_def)
  obtain s' b where D: "dispatch_next g ?t ?c = (if n = ?c then Ok () s' else Switched s')"
    "a_dispatch (a\<lparr>status := (status a)(?c := st)\<rparr>) = Some b"
    "running b = n" "rep g ts n (mem s') b" "GetCurrentThreadPCB s' = n" "eflags s' = eflags ?t"
    "sched_frame g ts (set (nodes (ready_thread_list g) (map general_tag (ready a)))) (mem ?t) (mem s')"
    by (rule dispatch_refines [OF S(2) block_mid [OF assms(2,5)] c(1), of n ns])
      (use current_in_page [of s] assms(3,4,6) in auto)
  have "sched_frame g ts N (mem s) (mem ?t)" for N
    using sched_frame_field [OF only_in_st32 c(1), of 8] by simp
  from sched_frame_trans [OF this D(7)] D B c(2) GetIntStatus_eflags [OF D(6)] show thesis
    by (intro that [of s' b]) (simp_all add: a_block_def)
qed

lemma BlockThread_stuck:
  assumes "rep g ts (running a) (mem s) a" "sched_inv ts a" "GetCurrentThreadPCB s = running a"
    and "blocking st" "ready a = []"
  shows "BlockThread g st s = Panic ''ScheduleThread'' ''!list_empty(&ready_thread_list)''"
proof -
  let ?c = "running a" and ?s = "snd (DisableInt s)"
  have S: "ScheduleThread g (put32 ?s (?c + 8) (task_code st)) =
      dispatch_next g (put32 ?s (?c + 8) (task_code st)) ?c"
    "rep g ts ?c (mem (put32 ?s (?c + 8) (task_code st))) (a\<lparr>status := (status a)(?c := st)\<rparr>)"
    by (rule schedule_blocked [of g ts ?c ?s a st]; insert assms; simp add: GetCurrentThreadPCB_def)+
  show ?thesis
    using assms(3,5) S(1) dispatch_empty [OF S(2)]
    by (simp add: BlockThread_def split_def Let_def GetCurrentThreadPCB_def assms(4))
qed

lemma UnblockThread_effect:
  assumes "rep g ts c (mem s) a" "sched_inv ts a" "p \<in> ts" "blocking (status a p)"
  obtains m' where "UnblockThread g s p = Ok () (s\<lparr>mem := m'\<rparr>)" "rep g ts c m' (a_unblock p a)"
    "sched_frame g ts (insert (general_tag p) (set (nodes (ready_thread_list g) (map general_tag (ready a)))))
       (mem s) m'"
proof -
  let ?L = "ready_thread_list g" and ?s = "snd (DisableInt s)"
  let ?N = "insert (general_tag p) (set (nodes ?L (map general_tag (ready a))))"
  have lay: "layout g ts" and L: "is_list (mem ?s) ?L (map general_tag (ready a))"
    and st: "PCB_status (mem s) p = task_code (status a p)" and r: "set (ready a) \<subseteq> ts"
    using assms(1,3) by (auto simp: rep_def)
  have p: "p \<notin> set (ready a)"
    using assms(2-4) by (auto simp: sched_inv_def)
  obtain m1 where m1: "list_push ?s ?L (general_tag p) = Ok () (?s\<lparr>mem := m1\<rparr>)"
    "is_list m1 ?L (general_tag p # map general_tag (ready a))" "only_nodes (mem ?s) m1 ?N"
    using list_push_effect [OF L fresh_general_tag [OF lay assms(3) r p]] by blast
  have "?N \<subseteq> sched_nodes g ts"
    using nodes_in_sched [OF r, of g] assms(3) by (auto simp: sched_nodes_def)
  with m1(3) have "only_nodes (mem s) m1 (sched_nodes g ts)"
    by (auto intro: only_nodes_mono)
  from rep_nodes [OF assms(1) this, of "p # ready a"] m1(2) assms(3) r
  have "rep g ts c m1 (a\<lparr>ready := p # ready a\<rparr>)" by simp
  from rep_status [OF this assms(3), of TASK_READY]
  have "rep g ts c (st32 m1 (p + 8) 1) (a_unblock p a)" by (simp add: a_unblock_def)
  moreover have "UnblockThread g s p = Ok () (s\<lparr>mem := st32 m1 (p + 8) 1\<rparr>)"
    using assms(4) st m1(1) elem_find_eq [OF L, of "general_tag p"] p
      critical_section [of s "st32 m1 (p + 8) 1"]
    by (auto simp: UnblockThread_def split_def Let_def put32_def image_iff)
  moreover have "sched_frame g ts ?N (mem s) m1"
    using sched_frame_nodes [OF m1(3)] by simp
  moreover have "sched_frame g ts ?N m1 (st32 m1 (p + 8) 1)"
    using sched_frame_field [OF only_in_st32 assms(3), of 8] by simp
  ultimately show thesis using that sched_frame_trans by blast
qed

text \<open>Preemption: the caller is requeued, then the head of the queue is dispatched.\<close>

lemma ScheduleThread_effect:
  assumes "rep g ts (running a) (mem s) a" "sched_inv ts a" "GetCurrentThreadPCB s = running a"
    and "GetIntStatus s = INT_OFF" "inr (esp s - 8) (running a) 4096"
  obtains s' b where "a_preempt a = Some b" "sched_inv ts b"
    "ScheduleThread g s = (if running b = running a then Ok () s' else Switched s')"
    "rep g ts (running b) (mem s') b" "GetCurrentThreadPCB s' = running b" "GetIntStatus s' = INT_OFF"
    "sched_frame g ts (sched_nodes g ts) (mem s) (mem s')"
proof -
  let ?c = "running a"
  let ?a = "a\<lparr>ready := ready a @ [?c], status := (status a)(?c := TASK_READY)\<rparr>"
  obtain m1 where m1: "requeue_current g s ?c = Ok () (s\<lparr>mem := m1\<rparr>)" "rep g ts ?c m1 ?a"
    "sched_frame g ts (sched_nodes g ts) (mem s) m1"
    using requeue_refines [OF assms(1,2) refl] by blast
  obtain n ns where n: "ready a @ [?c] = n # ns" by (cases "ready a @ [?c]") auto
  have c: "?c \<in> ts" using assms(2) by (simp add: sched_inv_def)
  obtain s' b where D: "dispatch_next g (s\<lparr>mem := m1\<rparr>) ?c = (if n = ?c then Ok () s' else Switched s')"
    "a_dispatch ?a = Some b" "running b = n" "rep g ts n (mem s') b"
    "GetCurrentThreadPCB s' = n" "eflags s' = eflags s"
    "sched_frame g ts (set (nodes (ready_thread_list g) (map general_tag (ready ?a)))) m1 (mem s')"
    by (rule dispatch_refines [of g ts ?c "s\<lparr>mem := m1\<rparr>" ?a n ns])
      (use m1(2) preempt_mid [OF assms(2)] c current_in_page [of s] assms(3,5) n in auto)
  then have "a_preempt a = Some b" by (simp add: a_preempt_def)
  moreover have "set (nodes (ready_thread_list g) (map general_tag (ready ?a))) \<subseteq> sched_nodes g ts"
    using assms(2) c by (intro nodes_in_sched) (auto simp: sched_inv_def)
  with D(7) have "sched_frame g ts (sched_nodes g ts) m1 (mem s')" by (rule sched_frame_mono)
  with m1(3) have "sched_frame g ts (sched_nodes g ts) (mem s) (mem s')" by (rule sched_frame_trans)
  ultimately show thesis
    using D assms(3,4) m1(1) a_preempt_inv [OF assms(2)] GetIntStatus_eflags [OF D(6)]
    by (intro that [of b s']) (auto simp: ScheduleThread_def)
qed

section \<open>Properties\<close>

text \<open>C1. Preemption. With interrupts off and the store representing an abstract scheduler
  state \<open>a\<close> whose running thread is the current one, \<open>ScheduleThread\<close> performs exactly the
  round-robin step of the abstract scheduler: the current thread goes to the back of the
  ready queue, the head of the queue runs (its PCB is the one found from the new \<open>esp\<close>), the
  store represents the new abstract state, its invariant holds again, and the call only
  returns to its caller when the thread dispatched is the caller itself.\<close>

theorem ScheduleThread_preempts:
  assumes "rep g ts (running a) (mem s) a" "sched_inv ts a" "GetCurrentThreadPCB s = running a"
    and "GetIntStatus s = INT_OFF" "inr (esp s - 8) (running a) 4096"
  shows "\<exists>s' b. a_preempt a = Some b \<and> sched_inv ts b
    \<and> ScheduleThread g s = (if running b = running a then Ok () s' else Switched s')
    \<and> rep g ts (running b) (mem s') b \<and> GetCurrentThreadPCB s' = running b
    \<and> GetIntStatus s' = INT_OFF"
  by (rule ScheduleThread_effect [OF assms]) blast

text \<open>A machine with two threads: \<open>0x2000\<close> runs, \<open>0x3000\<close> is the only ready thread.\<close>

definition demo_symbols :: symbols where
  "demo_symbols = \<lparr>ready_thread_list = 0x1000, all_thread_list = 0x1010, pid_lock = 0x1020,
     kernel_memory_pool = 0x1100, user_memory_pool = 0x1200, kernel_vaddr = 0x1300,
     kernel_arena_descs = 0x1400, sym_tss = 0x1500, console_lock = 0x1600, keyboard_IO_buf = 0x1700,
     sym_IDT = 0x4000, idt_table = 0x4800, interrupt_name = 0x4C00, interrupt_entry_table = 0x5000,
     syscall_table = 0x5800,
     fn_addr = (\<lambda>f. case f of Fn_KernelThread \<Rightarrow> 0x6000 | Fn_StartProcess \<Rightarrow> 0x6100
       | Fn_GeneralIntHandler \<Rightarrow> 0x6200 | Fn_IntTimerHandler \<Rightarrow> 0x6300 | Fn_IntKeyboardHandler \<Rightarrow> 0x6400
       | Fn_syscall_handler \<Rightarrow> 0x6500 | Fn_sys_getpid \<Rightarrow> 0x6600 | Fn_sys_write \<Rightarrow> 0x6700
       | Fn_sys_malloc \<Rightarrow> 0x6800 | Fn_sys_free \<Rightarrow> 0x6900 | Fn_KeyboardOutput \<Rightarrow> 0x6A00
       | Fn_u_prog_a \<Rightarrow> 0x6B00 | Fn_u_prog_b \<Rightarrow> 0x6C00),
     literal = (\<lambda>_. 0x7000)\<rparr>"

definition demo_mem :: mem where
  "demo_mem = st32 (st32 (st32 (st32 (st32 (st32 (\<lambda>_. 0)
     0x1004 0x3020) 0x3020 0x1000) 0x3024 0x1008) 0x1008 0x3020) 0x3008 1) 0x3000 0x3F00"

definition demo_state :: kstate where
  "demo_state = \<lparr>mem = demo_mem, eflags = 2, esp = 0x2F00, cr3 = 0x100000, screen = [], ports = [],
     main_thread = 0x2000, thread_tag = 0, next_pid = 2, ticks = 0, in_ports = (\<lambda>_. 0), gdtr = (0, 0),
     idtr = (0, 0), tr = 0, ctrl_status = 0, shift_status = 0, alt_status = 0, caps_lock_status = 0,
     ext_scancode = 0, test_var_a = 0, test_var_b = 0\<rparr>"

definition demo_sched :: sched where
  "demo_sched = \<lparr>running = 0x2000, ready = [0x3000],
     status = (\<lambda>p. if p = 0x2000 then TASK_RUNNING else if p = 0x3000 then TASK_READY else TASK_DIED)\<rparr>"

lemma demo_layout: "layout demo_symbols {0x2000, 0x3000}"
  by (simp add: layout_def demo_symbols_def sep_def page_aligned_def PAGE_MASK_def)

lemmas demo_simps = general_tag_def linked_def next_of_def prev_of_def PCB_status_def
  saved_esp_ok_def sep_def inr_def nodes_sep_def is_list_def rep_def

lemma demo_rep:
  "rep demo_symbols {0x2000, 0x3000} (running demo_sched) (mem demo_state) demo_sched"
  "sched_inv {0x2000, 0x3000} demo_sched" "GetCurrentThreadPCB demo_state = running demo_sched"
  "GetIntStatus demo_state = INT_OFF" "inr (esp demo_state - 8) (running demo_sched) 4096"
proof -
  show "rep demo_symbols {0x2000, 0x3000} (running demo_sched) (mem demo_state) demo_sched"
    using demo_layout
    by (simp add: demo_simps demo_sched_def demo_state_def demo_mem_def) (simp add: demo_symbols_def sep_def)
  show "sched_inv {0x2000, 0x3000} demo_sched" by code_simp
  show "GetCurrentThreadPCB demo_state = running demo_sched" by code_simp
  show "GetIntStatus demo_state = INT_OFF" by code_simp
  show "inr (esp demo_state - 8) (running demo_sched) 4096"
    by (simp add: inr_def demo_state_def demo_sched_def)
qed

theorem ScheduleThread_preempts_witness:
  "\<exists>s' b. a_preempt demo_sched = Some b \<and> sched_inv {0x2000, 0x3000} b
    \<and> ScheduleThread demo_symbols demo_state =
       (if running b = running demo_sched then Ok () s' else Switched s')
    \<and> rep demo_symbols {0x2000, 0x3000} (running b) (mem s') b \<and> GetCurrentThreadPCB s' = running b
    \<and> GetIntStatus s' = INT_OFF"
  by (rule ScheduleThread_preempts [OF demo_rep])

text \<open>C2. Blocking. \<open>BlockThread\<close> with one of the three blocking states gives the processor to
  the head of the ready queue and leaves the caller out of the queue with that state, as the
  abstract step says; when no other thread is ready the assertion of \<open>ScheduleThread\<close> stops
  the kernel. The interrupts are off when the next thread goes on.\<close>

theorem BlockThread_blocks:
  assumes "rep g ts (running a) (mem s) a" "sched_inv ts a" "GetCurrentThreadPCB s = running a"
    and "inr (esp s - 8) (running a) 4096" "blocking st"
  shows "case a_block st a of
      None \<Rightarrow> BlockThread g st s = Panic ''ScheduleThread'' ''!list_empty(&ready_thread_list)''
    | Some b \<Rightarrow> \<exists>s'. BlockThread g st s = Switched s' \<and> sched_inv ts b \<and> running b \<noteq> running a
        \<and> rep g ts (running b) (mem s') b \<and> GetCurrentThreadPCB s' = running b
        \<and> GetIntStatus s' = INT_OFF"
proof (cases "ready a")
  case Nil
  then show ?thesis
    using BlockThread_stuck [OF assms(1-3,5)] by (simp add: a_block_def)
next
  case (Cons n ns)
  show ?thesis
    by (rule BlockThread_effect [OF assms Cons]) (use a_block_inv [OF assms(2,5)] in simp)
qed

theorem BlockThread_blocks_witness:
  "case a_block TASK_BLOCKD demo_sched of
      None \<Rightarrow> BlockThread demo_symbols TASK_BLOCKD demo_state =
        Panic ''ScheduleThread'' ''!list_empty(&ready_thread_list)''
    | Some b \<Rightarrow> \<exists>s'. BlockThread demo_symbols TASK_BLOCKD demo_state = Switched s'
        \<and> sched_inv {0x2000, 0x3000} b \<and> running b \<noteq> running demo_sched
        \<and> rep demo_symbols {0x2000, 0x3000} (running b) (mem s') b
        \<and> GetCurrentThreadPCB s' = running b \<and> GetIntStatus s' = INT_OFF"
  by (rule BlockThread_blocks [OF demo_rep(1-3,5)]) simp

text \<open>C3. Waking. \<open>UnblockThread\<close> puts a blocked thread at the front of the ready queue and
  changes nothing but the store: the interrupt flag and the running thread stay; on a thread
  that is not blocked its assertion stops the kernel.\<close>

theorem UnblockThread_wakes:
  assumes "rep g ts c (mem s) a" "sched_inv ts a" "p \<in> ts"
  shows "if blocking (status a p)
    then \<exists>m'. UnblockThread g s p = Ok () (s\<lparr>mem := m'\<rparr>) \<and> rep g ts c m' (a_unblock p a)
      \<and> sched_inv ts (a_unblock p a)
    else \<exists>cond. UnblockThread g s p = Panic ''UnblockThread'' cond"
proof (cases "blocking (status a p)")
  case True
  show ?thesis
    by (rule UnblockThread_effect [OF assms True]) (use True a_unblock_inv [OF assms(2,3) True] in auto)
next
  case False
  have "PCB_status (mem s) p = task_code (status a p)"
    using assms(1,3) by (simp add: rep_def)
  with False show ?thesis
    by (cases "status a p") (auto simp: UnblockThread_def split_def Let_def)
qed

definition demo_sched_blocked :: sched where
  "demo_sched_blocked = \<lparr>running = 0x3000, ready = [],
     status = (\<lambda>p. if p = 0x3000 then TASK_RUNNING else if p = 0x2000 then TASK_BLOCKD else TASK_DIED)\<rparr>"

definition demo_state_blocked :: kstate where
  "demo_state_blocked = demo_state\<lparr>esp := 0x3F14,
     mem := st32 (st32 (st32 (st32 (st32 (\<lambda>_. 0) 0x1004 0x1008) 0x1008 0x1000) 0x2008 2) 0x2000 0x2EE4)
       0x3008 0\<rparr>"

theorem UnblockThread_wakes_witness:
  "if blocking (status demo_sched_blocked 0x2000)
    then \<exists>m'. UnblockThread demo_symbols demo_state_blocked 0x2000 = Ok () (demo_state_blocked\<lparr>mem := m'\<rparr>)
      \<and> rep demo_symbols {0x2000, 0x3000} 0x3000 m' (a_unblock 0x2000 demo_sched_blocked)
      \<and> sched_inv {0x2000, 0x3000} (a_unblock 0x2000 demo_sched_blocked)
    else \<exists>cond. UnblockThread demo_symbols demo_state_blocked 0x2000 = Panic ''UnblockThread'' cond"
proof (rule UnblockThread_wakes)
  show "rep demo_symbols {0x2000, 0x3000} 0x3000 (mem demo_state_blocked) demo_sched_blocked"
    using demo_layout
    by (simp add: demo_simps demo_sched_blocked_def demo_state_blocked_def) (simp add: demo_symbols_def sep_def)
  show "sched_inv {0x2000, 0x3000} demo_sched_blocked" by code_simp
qed simp

end
