(* ===== verification/Sync.thy ===== *)
theory Sync
  imports Scheduler
begin

text \<open>
  \<open>thread/sync.c\<close>: counting semaphores with a queue of blocked threads, and the re-entrant
  lock built on them. The theory holds the code on the byte store, its effect on a store
  that represents the scheduler and the lock, and a step relation of the lock protocol with
  the mutual exclusion invariant.

  \<open>struct semaphore\<close>: \<open>value\<close> (one byte) at offset 0, \<open>waiting_thread_list\<close> at 4.
  \<open>struct lock\<close>: \<open>holder\<close> at 0, \<open>semaphore\<close> at 4, \<open>holder_repeat_request_sum\<close> at 24.
\<close>

section \<open>The code\<close>

definition sem_value :: "mem \<Rightarrow> addr \<Rightarrow> u8" where
  "sem_value m psema = ld8 m psema"

definition waiting_thread_list :: "addr \<Rightarrow> addr" where
  "waiting_thread_list psema = psema + 4"

definition holder :: "mem \<Rightarrow> addr \<Rightarrow> addr" where
  "holder m plock = ld32 m plock"

definition lock_semaphore :: "addr \<Rightarrow> addr" where
  "lock_semaphore plock = plock + 4"

definition holder_repeat_request_sum :: "mem \<Rightarrow> addr \<Rightarrow> u32" where
  "holder_repeat_request_sum m plock = ld32 m (plock + 24)"

definition SemaphoreInit :: "kstate \<Rightarrow> addr \<Rightarrow> u8 \<Rightarrow> kstate" where
  "SemaphoreInit s psema value = list_init (put8 s psema value) (waiting_thread_list psema)"

definition LockInit :: "kstate \<Rightarrow> addr \<Rightarrow> kstate" where
  "LockInit s plock =
     (let s1 = put32 s plock NULL;
          s2 = put32 s1 (plock + 24) 0
      in SemaphoreInit s2 (lock_semaphore plock) 1)"

text \<open>One turn of the loop of \<open>SemaphoreDown\<close>: the thread queues up and blocks.\<close>

definition sema_wait :: "symbols \<Rightarrow> kstate \<Rightarrow> addr \<Rightarrow> addr \<Rightarrow> (kstate, unit) outcome" where
  "sema_wait g s psema current_thread =
     obind (elem_find s (waiting_thread_list psema) (general_tag current_thread)) (\<lambda>found s1.
       ASSERT ''SemaphoreDown'' ''!elem_find(&psema->waiting_thread_list, &current_thread->general_tag)''
         (\<not> found)
         (if found then Panic ''SemaphoreDown'' ''thread already in wating list''
          else obind (list_append s1 (waiting_thread_list psema) (general_tag current_thread))
            (\<lambda>_ s2. BlockThread g TASK_BLOCKD s2)))"

partial_function (option) SemaphoreDown_loop ::
  "symbols \<Rightarrow> addr \<Rightarrow> addr \<Rightarrow> int_status \<Rightarrow> kstate \<Rightarrow> (kstate, unit) outcome option" where
  "SemaphoreDown_loop g psema current_thread old_int_statu s =
     (if sem_value (mem s) psema = 0
      then case sema_wait g s psema current_thread of
             Ok u s1 \<Rightarrow> SemaphoreDown_loop g psema current_thread old_int_statu s1
           | Panic fn c \<Rightarrow> Some (Panic fn c)
           | Switched s1 \<Rightarrow> Some (Switched s1)
           | Diverge \<Rightarrow> Some Diverge
      else Some (Ok () (snd (SetIntStatus old_int_statu
             (put8 s psema (sem_value (mem s) psema - 1))))))"

definition SemaphoreDown :: "symbols \<Rightarrow> kstate \<Rightarrow> addr \<Rightarrow> (kstate, unit) outcome" where
  "SemaphoreDown g s psema =
     (let (old_int_statu, s1) = DisableInt s;
          current_thread = GetCurrentThreadPCB s1
      in of_loop (SemaphoreDown_loop g psema current_thread old_int_statu s1))"

text \<open>
  A thread that blocked inside \<open>SemaphoreDown\<close> is scheduled again in the state \<open>s\<close>: it
  returns from \<open>ScheduleThread\<close> into \<open>BlockThread\<close>, which restores the status \<open>INT_OFF\<close> it
  found, and goes on with the loop.
\<close>

definition SemaphoreDown_resume ::
  "symbols \<Rightarrow> addr \<Rightarrow> int_status \<Rightarrow> kstate \<Rightarrow> (kstate, unit) outcome" where
  "SemaphoreDown_resume g psema old_int_statu s =
     (let s1 = snd (SetIntStatus INT_OFF s)
      in of_loop (SemaphoreDown_loop g psema (GetCurrentThreadPCB s1) old_int_statu s1))"

definition SemaphoreUp :: "symbols \<Rightarrow> kstate \<Rightarrow> addr \<Rightarrow> (kstate, unit) outcome" where
  "SemaphoreUp g s psema =
     (let (old_int_statu, s1) = DisableInt s
      in obind
           (if \<not> list_empty (mem s1) (waiting_thread_list psema)
            then obind (list_pop s1 (waiting_thread_list psema)) (\<lambda>tag s2.
                   UnblockThread g s2 (tag2pcb tag))
            else Ok () s1)
           (\<lambda>_ s3. Ok () (snd (SetIntStatus old_int_statu
              (put8 s3 psema (sem_value (mem s3) psema + 1))))))"

text \<open>What \<open>sys_lock_lock\<close> does once the semaphore is taken.\<close>

definition lock_taken :: "kstate \<Rightarrow> addr \<Rightarrow> (kstate, unit) outcome" where
  "lock_taken s plock =
     (let s1 = put32 s plock (GetCurrentThreadPCB s)
      in ASSERT ''sys_lock_lock'' ''plock->holder_repeat_request_sum == 0''
           (holder_repeat_request_sum (mem s1) plock = 0)
           (Ok () (put32 s1 (plock + 24) 1)))"

definition sys_lock_lock :: "symbols \<Rightarrow> kstate \<Rightarrow> addr \<Rightarrow> (kstate, unit) outcome" where
  "sys_lock_lock g s plock =
     (if holder (mem s) plock \<noteq> GetCurrentThreadPCB s
      then obind (SemaphoreDown g s (lock_semaphore plock)) (\<lambda>_ s1. lock_taken s1 plock)
      else Ok () (put32 s (plock + 24) (holder_repeat_request_sum (mem s) plock + 1)))"

definition sys_lock_lock_resume ::
  "symbols \<Rightarrow> addr \<Rightarrow> int_status \<Rightarrow> kstate \<Rightarrow> (kstate, unit) outcome" where
  "sys_lock_lock_resume g plock old_int_statu s =
     obind (SemaphoreDown_resume g (lock_semaphore plock) old_int_statu s) (\<lambda>_ s1. lock_taken s1 plock)"

definition sys_lock_unlock :: "symbols \<Rightarrow> kstate \<Rightarrow> addr \<Rightarrow> (kstate, unit) outcome" where
  "sys_lock_unlock g s plock =
     ASSERT ''sys_lock_unlock'' ''plock->holder == GetCurrentThreadPCB()''
       (holder (mem s) plock = GetCurrentThreadPCB s)
       (if holder_repeat_request_sum (mem s) plock > 1
        then Ok () (put32 s (plock + 24) (holder_repeat_request_sum (mem s) plock - 1))
        else ASSERT ''sys_lock_unlock'' ''plock->holder_repeat_request_sum == 1''
          (holder_repeat_request_sum (mem s) plock = 1)
          (let s1 = put32 s (plock + 24) 0;
               s2 = put32 s1 plock NULL
           in SemaphoreUp g s2 (lock_semaphore plock)))"

section \<open>Locks in the store\<close>

text \<open>The state of a lock: holder, repeat count, semaphore value and queue of waiting threads.\<close>

record lockst =
  lk_holder :: addr
  lk_repeat :: u32
  lk_value :: u8
  lk_waiters :: "addr list"

lemma lock_waiting_list [simp]: "waiting_thread_list (lock_semaphore l) = l + 8"
  by (simp add: waiting_thread_list_def lock_semaphore_def)

definition lock_fields :: "mem \<Rightarrow> addr \<Rightarrow> lockst \<Rightarrow> bool" where
  "lock_fields m l k \<longleftrightarrow> holder m l = lk_holder k \<and> holder_repeat_request_sum m l = lk_repeat k
     \<and> sem_value m (lock_semaphore l) = lk_value k"

definition lock_rep :: "symbols \<Rightarrow> addr set \<Rightarrow> addr \<Rightarrow> mem \<Rightarrow> sched \<Rightarrow> addr \<Rightarrow> lockst \<Rightarrow> bool" where
  "lock_rep g ts c m a l k \<longleftrightarrow> rep g ts c m a \<and> apart g ts l 28 \<and> lock_fields m l k
     \<and> is_list m (l + 8) (map general_tag (lk_waiters k))
     \<and> set (lk_waiters k) \<subseteq> ts \<and> (\<forall>w \<in> set (lk_waiters k). status a w = TASK_BLOCKD)"

text \<open>Everything of the lock but its list is read in three fields.\<close>

lemma lock_fields_cong:
  assumes "lock_fields m l k" "eq_on m' m l 5" "eq_on m' m (l + 24) 4"
  shows "lock_fields m' l k"
proof -
  have "eq_on m' m l 4" "eq_on m' m (l + 4) 1"
    using eq_on_part [OF assms(2), of 0 4] eq_on_part [OF assms(2), of 4 1] by simp_all
  then show ?thesis
    using assms(1,3) by (simp add: lock_fields_def holder_def holder_repeat_request_sum_def sem_value_def
        lock_semaphore_def ld32_cong [of m' m] ld8_cong [of m' m])
qed

text \<open>The nodes of the waiting queue.\<close>

definition wait_nodes :: "addr \<Rightarrow> addr list \<Rightarrow> addr set" where
  "wait_nodes l ws = {l + 8, l + 16} \<union> general_tag ` set ws"

lemma nodes_wait: "set (nodes (l + 8) (map general_tag ws)) = wait_nodes l ws"
  by (auto simp: wait_nodes_def)

lemma apart_part: "apart g ts b k \<Longrightarrow> unat i + j \<le> k \<Longrightarrow> 0 < j \<Longrightarrow> apart g ts (b + i) j"
  by (auto simp: apart_def intro: sep_offset_left)

lemma lock_parts:
  assumes "apart g ts l 28"
  shows "apart g ts (l + 8) 8" "apart g ts (l + 16) 8" "apart g ts l 5" "apart g ts (l + 24) 4"
  using apart_part [OF assms, of 8 8] apart_part [OF assms, of 16 8] apart_part [OF assms, of 0 5]
    apart_part [OF assms, of 24 4] by simp_all

lemma tag_in_sched: "w \<in> ts \<Longrightarrow> general_tag w \<in> sched_nodes g ts"
  by (simp add: sched_nodes_def)

lemma wait_node_sep:
  assumes "apart g ts l 28" "layout g ts" "set ws \<subseteq> ts" "y \<in> wait_nodes l ws"
    and "x \<in> sched_nodes g ts" "x \<notin> general_tag ` set ws"
  shows "sep y 8 x 8"
proof -
  consider "y = l + 8" | "y = l + 16" | w where "w \<in> set ws" "y = general_tag w"
    using assms(4) by (auto simp: wait_nodes_def)
  then show ?thesis
  proof cases
    case 1
    then show ?thesis
      using apart_sched_node [OF lock_parts(1) [OF assms(1)] assms(5)] by (simp add: sep_commute)
  next
    case 2
    then show ?thesis
      using apart_sched_node [OF lock_parts(2) [OF assms(1)] assms(5)] by (simp add: sep_commute)
  next
    case (3 w)
    then show ?thesis
      using sched_node_sep [OF assms(2), of w x] assms(3,5,6) by (auto simp: sep_commute)
  qed
qed

lemma wait_node_fields:
  assumes "apart g ts l 28" "set ws \<subseteq> ts" "y \<in> wait_nodes l ws"
  shows "sep y 8 l 5" "sep y 8 (l + 24) 4"
proof -
  have "sep (general_tag w) 8 l 5" "sep (general_tag w) 8 (l + 24) 4" if "w \<in> ts" for w
    using apart_sched_node [OF lock_parts(3) [OF assms(1)] tag_in_sched [OF that]]
      apart_sched_node [OF lock_parts(4) [OF assms(1)] tag_in_sched [OF that]] by blast+
  with assms(2,3) show "sep y 8 l 5" "sep y 8 (l + 24) 4"
    by (auto simp: wait_nodes_def)
qed

text \<open>Changes of the waiting queue leave the scheduler and the fields of the lock alone.\<close>

lemma rep_wait_nodes:
  assumes "rep g ts c m a" "apart g ts l 28" "only_nodes m m' (wait_nodes l ws)"
    and "set ws \<subseteq> ts" "set ws \<inter> set (ready a) = {}"
  shows "rep g ts c m' a"
proof -
  have l: "layout g ts" and r: "set (ready a) \<subseteq> ts" using assms(1) by (simp_all add: rep_def)
  have "sep y 8 (p + off) 4" if "y \<in> wait_nodes l ws" "p \<in> ts" "unat off + 4 \<le> 32" for y p off
  proof (cases "y \<in> sched_nodes g ts")
    case True
    then show ?thesis using node_field_sep [OF l that(2)] that(3) by simp
  next
    case False
    then have "apart g ts y 8"
      using that(1) assms(4) lock_parts(1,2) [OF assms(2)] tag_in_sched by (auto simp: wait_nodes_def)
    then have "sep y 8 p 4096" using that(2) by (simp add: apart_def)
    from sep_offset_right [OF this, of off 4] that(3) show ?thesis by simp
  qed
  then have f: "ld32 m' (p + off) = ld32 m (p + off)" if "p \<in> ts" "unat off + 4 \<le> 32" for p off
    using that by (intro ld32_cong only_nodes_eq_on [OF assms(3)])
  have "is_list m' (ready_thread_list g) (map general_tag (ready a))"
  proof (rule is_list_only_nodes [OF _ assms(3)])
    show "is_list m (ready_thread_list g) (map general_tag (ready a))"
      using assms(1) by (simp add: rep_def)
    fix x y assume x: "x \<in> set (nodes (ready_thread_list g) (map general_tag (ready a)))"
      and y: "y \<in> wait_nodes l ws"
    have "x \<in> sched_nodes g ts" using x nodes_in_sched [OF r] by blast
    moreover have "x \<notin> general_tag ` set ws"
    proof
      assume "x \<in> general_tag ` set ws"
      then obtain w where w: "w \<in> set ws" "x = general_tag w" by blast
      then have "w \<in> ts" "w \<notin> set (ready a)" using assms(4,5) by auto
      from fresh_node_notin [OF fresh_general_tag [OF l this(1) r this(2)]] w(2) x
      show False by blast
    qed
    ultimately show "sep y 8 x 8" by (rule wait_node_sep [OF assms(2) l assms(4) y])
  qed
  with assms(1) f [of _ 8] f [of _ 0] show ?thesis
    by (simp add: rep_def PCB_status_def saved_esp_ok_def)
qed

lemma lock_fields_wait:
  assumes "lock_fields m l k" "apart g ts l 28" "only_nodes m m' (wait_nodes l ws)" "set ws \<subseteq> ts"
  shows "lock_fields m' l k"
  using wait_node_fields [OF assms(2,4)]
  by (intro lock_fields_cong [OF assms(1)] only_nodes_eq_on [OF assms(3)]) blast+

text \<open>Writes to the fields of the lock.\<close>

lemma lock_rep_write:
  assumes "lock_rep g ts c m a l k" "only_in m m' (l + off) n" "0 < n"
    and "unat off + n \<le> 8 \<or> 24 \<le> unat off \<and> unat off + n \<le> 28"
    and "lock_fields m' l k'" "lk_waiters k' = lk_waiters k"
  shows "lock_rep g ts c m' a l k'"
proof -
  have ap: "apart g ts l 28" and ws: "set (lk_waiters k) \<subseteq> ts" and r: "rep g ts c m a"
    using assms(1) by (simp_all add: lock_rep_def)
  have ap': "apart g ts (l + off) n"
    using assms(3,4) by (intro apart_part [OF ap]) auto
  have "n \<le> unat (8 - off) \<and> 8 \<le> unat (off - 8) \<and> n \<le> unat (16 - off) \<and> 8 \<le> unat (off - 16)"
    using assms(3,4) by (auto simp: unat_sub_if' word_le_nat_alt)
  then have "sep (l + off) n x 8" if "x \<in> wait_nodes l (lk_waiters k)" for x
    using that apart_sched_node [OF ap' tag_in_sched] ws
    by (auto simp: wait_nodes_def sep_commute)
  then have "is_list m' (l + 8) (map general_tag (lk_waiters k))"
    using assms(1) by (intro is_list_only_in [OF _ assms(2)]) (simp_all only: lock_rep_def nodes_wait)
  then show ?thesis
    using assms(1,5,6) rep_apart [OF r ap' assms(2)] by (simp add: lock_rep_def)
qed

lemmas lock_defs = lock_rep_def lock_fields_def holder_def holder_repeat_request_sum_def
  sem_value_def lock_semaphore_def

lemma lock_rep_holder:
  assumes "lock_rep g ts c m a l k"
  shows "lock_rep g ts c (st32 m l h) a l (k\<lparr>lk_holder := h\<rparr>)"
  by (rule lock_rep_write [OF assms, of _ 0 4])
    (use assms only_in_st32 [of m l h] in \<open>auto simp: lock_defs\<close>)

lemma lock_rep_repeat:
  assumes "lock_rep g ts c m a l k"
  shows "lock_rep g ts c (st32 m (l + 24) n) a l (k\<lparr>lk_repeat := n\<rparr>)"
  by (rule lock_rep_write [OF assms only_in_st32]) (use assms in \<open>auto simp: lock_defs\<close>)

lemma lock_rep_value:
  assumes "lock_rep g ts c m a l k"
  shows "lock_rep g ts c (st8 m (lock_semaphore l) v) a l (k\<lparr>lk_value := v\<rparr>)"
  unfolding lock_semaphore_def
  by (rule lock_rep_write [OF assms only_in_st8]) (use assms in \<open>auto simp: lock_defs\<close>)

lemma lock_repD:
  assumes "lock_rep g ts c m a l k"
  shows "holder m l = lk_holder k" "holder_repeat_request_sum m l = lk_repeat k"
    "sem_value m (lock_semaphore l) = lk_value k" "rep g ts c m a"
    "is_list m (l + 8) (map general_tag (lk_waiters k))"
  using assms by (simp_all add: lock_rep_def lock_fields_def)

text \<open>The node of a thread that is not waiting can be queued.\<close>

lemma fresh_wait_node:
  assumes "apart g ts l 28" "layout g ts" "c \<in> ts" "set ws \<subseteq> ts" "c \<notin> set ws"
  shows "fresh_node (l + 8) (map general_tag ws) (general_tag c)"
proof -
  have "sep (general_tag c) 8 x 8" if "x \<in> set (nodes (l + 8) (map general_tag ws))" for x
  proof -
    have "general_tag c \<notin> general_tag ` set ws" using assms(5) by (auto simp: image_iff)
    then show ?thesis
      using wait_node_sep [OF assms(1,2,4) _ tag_in_sched [OF assms(3)], of x] that
      unfolding nodes_wait by (simp add: sep_commute)
  qed
  moreover have "page_aligned c" using assms(2,3) by (simp add: layout_def)
  ultimately show ?thesis
    using general_tag_nonnull by (simp add: fresh_node_def)
qed

text \<open>The scheduler's writes leave the lock alone.\<close>

lemma lock_sched_frame:
  assumes "lock_fields m l k" "is_list m (l + 8) (map general_tag ws)" "set ws \<subseteq> ts"
    and "apart g ts l 28" "layout g ts"
    and "sched_frame g ts N m m'" "N \<subseteq> sched_nodes g ts" "\<And>w. w \<in> set ws \<Longrightarrow> general_tag w \<notin> N"
  shows "lock_fields m' l k" "is_list m' (l + 8) (map general_tag ws)"
proof -
  note parts = lock_parts [OF assms(4)]
  note fr = frame_apart [OF assms(6) _ assms(7)]
  show "lock_fields m' l k"
    by (rule lock_fields_cong [OF assms(1) fr [OF parts(3)] fr [OF parts(4)]])
  show "is_list m' (l + 8) (map general_tag ws)"
  proof (rule is_list_frame [OF assms(2)])
    fix x assume "x \<in> set (nodes (l + 8) (map general_tag ws))"
    then show "eq_on m' m x 8"
      unfolding nodes_wait
      using fr [OF parts(1)] fr [OF parts(2)] frame_general_tag [OF assms(6,5,7)] assms(3,8)
      by (auto simp: wait_nodes_def)
  qed
qed

section \<open>Taking and releasing\<close>

text \<open>A free semaphore is taken at once; only the store changes.\<close>

lemma SemaphoreDown_free:
  assumes "sem_value (mem s) p \<noteq> 0"
  shows "SemaphoreDown g s p = Ok () (put8 s p (sem_value (mem s) p - 1))"
proof -
  have "SemaphoreDown_loop g p (GetCurrentThreadPCB (snd (DisableInt s))) (fst (DisableInt s))
      (snd (DisableInt s)) = Some (Ok () (s\<lparr>mem := st8 (mem s) p (sem_value (mem s) p - 1)\<rparr>))"
    using assms critical_section [of s "st8 (mem s) p (sem_value (mem s) p - 1)"]
    by (subst SemaphoreDown_loop.simps) (simp add: put8_def)
  then show ?thesis by (simp add: SemaphoreDown_def split_def put8_def)
qed

lemma GetCurrentThreadPCB_put [simp]:
  "GetCurrentThreadPCB (put8 s a b) = GetCurrentThreadPCB s"
  "GetCurrentThreadPCB (put32 s a v) = GetCurrentThreadPCB s"
  "GetCurrentThreadPCB (s\<lparr>mem := m\<rparr>) = GetCurrentThreadPCB s"
  "GetCurrentThreadPCB (snd (DisableInt s)) = GetCurrentThreadPCB s"
  by (simp_all add: GetCurrentThreadPCB_def)

lemma lock_free_effect:
  assumes "lock_rep g ts c (mem s) a l k" "lk_value k \<noteq> 0" "lk_repeat k = 0"
    and "lk_holder k \<noteq> GetCurrentThreadPCB s"
  obtains m' where "sys_lock_lock g s l = Ok () (s\<lparr>mem := m'\<rparr>)"
    "lock_rep g ts c m' a l
       (k\<lparr>lk_value := lk_value k - 1, lk_holder := GetCurrentThreadPCB s, lk_repeat := 1\<rparr>)"
proof -
  let ?c = "GetCurrentThreadPCB s"
  note D = lock_repD [OF assms(1)]
  let ?m1 = "st8 (mem s) (lock_semaphore l) (lk_value k - 1)"
  let ?m2 = "st32 ?m1 l ?c"
  have r2: "lock_rep g ts c ?m2 a l (k\<lparr>lk_value := lk_value k - 1, lk_holder := ?c\<rparr>)"
    using lock_rep_holder [OF lock_rep_value [OF assms(1)]] .
  from lock_repD(2) [OF this] have "holder_repeat_request_sum ?m2 l = 0"
    using assms(3) by simp
  then have "lock_taken (put8 s (lock_semaphore l) (lk_value k - 1)) l = Ok () (s\<lparr>mem := st32 ?m2 (l + 24) 1\<rparr>)"
    by (simp add: lock_taken_def put32_def put8_def)
  then have "sys_lock_lock g s l = Ok () (s\<lparr>mem := st32 ?m2 (l + 24) 1\<rparr>)"
    using assms(2,4) D(1,3) SemaphoreDown_free [of s "lock_semaphore l" g]
    by (simp add: sys_lock_lock_def)
  with lock_rep_repeat [OF r2, of 1] that show thesis by simp
qed

lemma blocked_not_ready:
  assumes "sched_inv ts a" "set ws \<subseteq> ts" "\<forall>w \<in> set ws. status a w = TASK_BLOCKD"
  shows "set ws \<inter> set (ready a) = {}"
proof -
  have "w \<notin> set (ready a)" if "w \<in> set ws" for w
    using assms that unfolding sched_inv_def by (metis subsetD task_status.distinct(11))
  then show ?thesis by blast
qed

text \<open>A taken lock: the caller goes to the end of the queue and blocks.\<close>

lemma sema_wait_effect:
  assumes k: "lock_rep g ts (running a) (mem s) a l k" and inv: "sched_inv ts a"
    and cur: "GetCurrentThreadPCB s = running a" and esp: "inr (esp s - 8) (running a) 4096"
    and r: "ready a = n # ns"
  obtains s' b where "sema_wait g s (lock_semaphore l) (running a) = Switched s'"
    "a_block TASK_BLOCKD a = Some b" "running b = n" "GetCurrentThreadPCB s' = n"
    "GetIntStatus s' = INT_OFF" "n \<noteq> running a"
    "lock_rep g ts n (mem s') b l (k\<lparr>lk_waiters := lk_waiters k @ [running a]\<rparr>)"
proof -
  let ?c = "running a" and ?ws = "lk_waiters k"
  note D = lock_repD [OF k]
  have ap: "apart g ts l 28" and ws: "set ?ws \<subseteq> ts" and st: "\<forall>w \<in> set ?ws. status a w = TASK_BLOCKD"
    and lay: "layout g ts"
    using k by (simp_all add: lock_rep_def rep_def)
  have c: "?c \<in> ts" "?c \<notin> set ?ws" "?c \<notin> set (ready a)" "set ?ws \<inter> set (ready a) = {}"
    and rd: "set (ready a) \<subseteq> ts"
    using inv st blocked_not_ready [OF inv ws st] ws by (auto simp: sched_inv_def)
  obtain m1 where m1: "list_append s (l + 8) (general_tag ?c) = Ok () (s\<lparr>mem := m1\<rparr>)"
    "is_list m1 (l + 8) (map general_tag (?ws @ [?c]))"
    "only_nodes (mem s) m1 (insert (general_tag ?c) (set (nodes (l + 8) (map general_tag ?ws))))"
    using list_append_effect [OF D(5) fresh_wait_node [OF ap lay c(1) ws c(2)]] by auto
  have N: "insert (general_tag ?c) (set (nodes (l + 8) (map general_tag ?ws))) = wait_nodes l (?ws @ [?c])"
    unfolding nodes_wait by (auto simp: wait_nodes_def)
  have rep1: "rep g ts ?c m1 a"
    by (rule rep_wait_nodes [OF D(4) ap m1(3) [unfolded N]]) (use ws c in auto)
  have lf1: "lock_fields m1 l k"
    by (rule lock_fields_wait [OF _ ap m1(3) [unfolded N]]) (use k ws c in \<open>auto simp: lock_rep_def\<close>)
  obtain s' b where B: "BlockThread g TASK_BLOCKD (s\<lparr>mem := m1\<rparr>) = Switched s'"
    "a_block TASK_BLOCKD a = Some b" "running b = n" "n \<noteq> ?c" "rep g ts n (mem s') b"
    "GetCurrentThreadPCB s' = n" "GetIntStatus s' = INT_OFF"
    "sched_frame g ts (set (nodes (ready_thread_list g) (map general_tag (ready a)))) m1 (mem s')"
    by (rule BlockThread_effect [of g ts a "s\<lparr>mem := m1\<rparr>" TASK_BLOCKD n ns])
      (use rep1 inv cur esp r in auto)
  have tags: "general_tag w \<notin> set (nodes (ready_thread_list g) (map general_tag (ready a)))"
    if "w \<in> set (?ws @ [?c])" for w
    by (rule fresh_node_notin, rule fresh_general_tag [OF lay _ rd]) (use that ws c in auto)
  have L: "lock_fields (mem s') l k" "is_list (mem s') (l + 8) (map general_tag (?ws @ [?c]))"
    using ws c(1) by (intro lock_sched_frame [OF lf1 m1(2) _ ap lay B(8) nodes_in_sched [OF rd] tags]; auto)+
  have "status b w = TASK_BLOCKD" if "w \<in> set (?ws @ [?c])" for w
    using that B(2) r st c by (auto simp: a_block_def)
  then have "lock_rep g ts n (mem s') b l (k\<lparr>lk_waiters := ?ws @ [?c]\<rparr>)"
    using B(5) ap L ws c(1) by (simp add: lock_rep_def lock_fields_def)
  moreover have "sema_wait g s (lock_semaphore l) ?c = Switched s'"
    using elem_find_eq [OF D(5), of "general_tag ?c"] c(2) m1(1) B(1)
    by (auto simp: sema_wait_def image_iff)
  ultimately show thesis using that B by blast
qed

lemma lock_busy_effect:
  assumes "lock_rep g ts (running a) (mem s) a l k" "sched_inv ts a"
    and "GetCurrentThreadPCB s = running a" "inr (esp s - 8) (running a) 4096"
    and "ready a = n # ns" "lk_value k = 0" "lk_holder k \<noteq> running a"
  obtains s' b where "sys_lock_lock g s l = Switched s'"
    "a_block TASK_BLOCKD a = Some b" "running b = n" "GetCurrentThreadPCB s' = n"
    "GetIntStatus s' = INT_OFF" "n \<noteq> running a"
    "lock_rep g ts n (mem s') b l (k\<lparr>lk_waiters := lk_waiters k @ [running a]\<rparr>)"
proof (rule sema_wait_effect [of g ts a "snd (DisableInt s)" l k n ns])
  note D = lock_repD [OF assms(1)]
  fix s' b
  assume W: "sema_wait g (snd (DisableInt s)) (lock_semaphore l) (running a) = Switched s'"
    "a_block TASK_BLOCKD a = Some b" "running b = n" "GetCurrentThreadPCB s' = n"
    "GetIntStatus s' = INT_OFF" "n \<noteq> running a"
    "lock_rep g ts n (mem s') b l (k\<lparr>lk_waiters := lk_waiters k @ [running a]\<rparr>)"
  have "SemaphoreDown_loop g (lock_semaphore l) (running a) (fst (DisableInt s)) (snd (DisableInt s))
      = Some (Switched s')"
    using D(3) assms(6) W(1) by (subst SemaphoreDown_loop.simps) simp
  then have "sys_lock_lock g s l = Switched s'"
    using D(1) assms(3,7) by (simp add: sys_lock_lock_def SemaphoreDown_def split_def)
  with W show thesis by (intro that)
qed (use assms in auto)

text \<open>Releasing: the first waiting thread, if any, goes to the front of the ready queue.\<close>

definition wake_first :: "addr list \<Rightarrow> sched \<Rightarrow> sched" where
  "wake_first ws a = (case ws of [] \<Rightarrow> a | w # _ \<Rightarrow> a_unblock w a)"

lemma wake_first_inv:
  "sched_inv ts a \<Longrightarrow> set ws \<subseteq> ts \<Longrightarrow> \<forall>w \<in> set ws. status a w = TASK_BLOCKD \<Longrightarrow>
   sched_inv ts (wake_first ws a)"
  by (cases ws) (auto simp: wake_first_def intro: a_unblock_inv)

lemma wake_waiter:
  assumes k: "lock_rep g ts c (mem s) a l k" and inv: "sched_inv ts a" and ws: "lk_waiters k = w # ws"
  obtains m1 m' where "list_pop s (l + 8) = Ok (general_tag w) (s\<lparr>mem := m1\<rparr>)"
    "UnblockThread g (s\<lparr>mem := m1\<rparr>) w = Ok () (s\<lparr>mem := m'\<rparr>)"
    "lock_rep g ts c m' (a_unblock w a) l (k\<lparr>lk_waiters := ws\<rparr>)"
proof -
  note D = lock_repD [OF k]
  have ap: "apart g ts l 28" and wts: "w \<in> ts" "set ws \<subseteq> ts" and lay: "layout g ts"
    and st: "status a w = TASK_BLOCKD" "\<forall>w \<in> set ws. status a w = TASK_BLOCKD"
    using k ws by (auto simp: lock_rep_def rep_def)
  have rd: "set (ready a) \<subseteq> ts" "set ws \<inter> set (ready a) = {}"
    using inv blocked_not_ready [OF inv wts(2) st(2)] by (auto simp: sched_inv_def)
  have L: "is_list (mem s) (l + 8) (general_tag w # map general_tag ws)"
    using D(5) ws by simp
  then have nd: "w \<notin> set ws"
    by (auto simp: is_list_def)
  obtain m1 where m1: "list_pop s (l + 8) = Ok (general_tag w) (s\<lparr>mem := m1\<rparr>)"
    "is_list m1 (l + 8) (map general_tag ws)"
    "only_nodes (mem s) m1 (set (nodes (l + 8) (map general_tag ws)))"
    using list_pop_effect [OF L] by blast
  have rep1: "rep g ts c m1 a"
    by (rule rep_wait_nodes [OF D(4) ap m1(3) [unfolded nodes_wait] wts(2) rd(2)])
  have lf1: "lock_fields m1 l k"
    by (rule lock_fields_wait [OF _ ap m1(3) [unfolded nodes_wait] wts(2)]) (use k in \<open>simp add: lock_rep_def\<close>)
  let ?N = "insert (general_tag w) (set (nodes (ready_thread_list g) (map general_tag (ready a))))"
  obtain m' where U: "UnblockThread g (s\<lparr>mem := m1\<rparr>) w = Ok () (s\<lparr>mem := m'\<rparr>)"
    "rep g ts c m' (a_unblock w a)" "sched_frame g ts ?N m1 m'"
    using UnblockThread_effect [of g ts c "s\<lparr>mem := m1\<rparr>" a w] rep1 inv wts(1) st(1)
    by auto
  have N: "?N \<subseteq> sched_nodes g ts"
    using nodes_in_sched [OF rd(1), of g] tag_in_sched [OF wts(1)] by blast
  have tags: "general_tag v \<notin> ?N" if "v \<in> set ws" for v
    using fresh_node_notin [OF fresh_general_tag [OF lay _ rd(1), of v]] that wts nd rd(2) by auto
  have "lock_fields m' l k" "is_list m' (l + 8) (map general_tag ws)"
    by (rule lock_sched_frame [OF lf1 m1(2) wts(2) ap lay U(3) N tags]; assumption)+
  then have "lock_rep g ts c m' (a_unblock w a) l (k\<lparr>lk_waiters := ws\<rparr>)"
    using U(2) ap wts(2) st(2) nd by (auto simp: lock_rep_def lock_fields_def a_unblock_def)
  with that m1(1) U(1) show thesis by blast
qed

lemma SemaphoreUp_effect:
  assumes "lock_rep g ts c (mem s) a l k" "sched_inv ts a"
  obtains m' where "SemaphoreUp g s (lock_semaphore l) = Ok () (s\<lparr>mem := m'\<rparr>)"
    "lock_rep g ts c m' (wake_first (lk_waiters k) a) l
       (k\<lparr>lk_waiters := tl (lk_waiters k), lk_value := lk_value k + 1\<rparr>)"
proof (cases "lk_waiters k")
  case Nil
  note D = lock_repD [OF assms(1)]
  have "list_empty (mem s) (l + 8)" using D(5) Nil by (simp add: list_empty_iff)
  then have "SemaphoreUp g s (lock_semaphore l) =
      Ok () (s\<lparr>mem := st8 (mem s) (lock_semaphore l) (lk_value k + 1)\<rparr>)"
    using D(3) critical_section [of s "st8 (mem s) (lock_semaphore l) (lk_value k + 1)"]
    by (simp add: SemaphoreUp_def split_def put8_def)
  moreover have "k\<lparr>lk_waiters := [], lk_value := v\<rparr> = k\<lparr>lk_value := v\<rparr>" for v
    using Nil by (cases k) simp
  ultimately show thesis
    using lock_rep_value [OF assms(1), of "lk_value k + 1"] Nil
    by (intro that) (simp_all only: wake_first_def list.case list.sel)
next
  case (Cons w ws)
  let ?s = "snd (DisableInt s)"
  obtain m1 m2 where W: "list_pop ?s (l + 8) = Ok (general_tag w) (?s\<lparr>mem := m1\<rparr>)"
    "UnblockThread g (?s\<lparr>mem := m1\<rparr>) w = Ok () (?s\<lparr>mem := m2\<rparr>)"
    "lock_rep g ts c m2 (a_unblock w a) l (k\<lparr>lk_waiters := ws\<rparr>)"
    using wake_waiter [of g ts c ?s a l k w ws] assms Cons by auto
  have "\<not> list_empty (mem s) (l + 8)"
    using lock_repD(5) [OF assms(1)] Cons by (simp add: list_empty_iff)
  moreover have "sem_value m2 (lock_semaphore l) = lk_value k"
    using lock_repD(3) [OF W(3)] by simp
  ultimately have "SemaphoreUp g s (lock_semaphore l) =
      Ok () (s\<lparr>mem := st8 m2 (lock_semaphore l) (lk_value k + 1)\<rparr>)"
    using W(1,2) critical_section [of s "st8 m2 (lock_semaphore l) (lk_value k + 1)"]
    by (simp add: SemaphoreUp_def split_def put8_def)
  with that lock_rep_value [OF W(3), of "lk_value k + 1"] Cons show thesis
    by (simp add: wake_first_def)
qed

lemma lock_release_effect:
  assumes "lock_rep g ts c (mem s) a l k" "sched_inv ts a"
    and "lk_holder k = GetCurrentThreadPCB s" "lk_repeat k = 1"
  obtains m' where "sys_lock_unlock g s l = Ok () (s\<lparr>mem := m'\<rparr>)"
    "lock_rep g ts c m' (wake_first (lk_waiters k) a) l
       (k\<lparr>lk_repeat := 0, lk_holder := NULL, lk_waiters := tl (lk_waiters k), lk_value := lk_value k + 1\<rparr>)"
proof -
  note D = lock_repD [OF assms(1)]
  let ?s = "s\<lparr>mem := st32 (st32 (mem s) (l + 24) 0) l NULL\<rparr>"
  have "lock_rep g ts c (mem ?s) a l (k\<lparr>lk_repeat := 0, lk_holder := NULL\<rparr>)"
    using lock_rep_holder [OF lock_rep_repeat [OF assms(1)]] by simp
  from SemaphoreUp_effect [OF this assms(2)] obtain m' where
    "SemaphoreUp g ?s (lock_semaphore l) = Ok () (?s\<lparr>mem := m'\<rparr>)"
    "lock_rep g ts c m' (wake_first (lk_waiters k) a) l
       (k\<lparr>lk_repeat := 0, lk_holder := NULL, lk_waiters := tl (lk_waiters k), lk_value := lk_value k + 1\<rparr>)"
    by auto
  moreover have "sys_lock_unlock g s l = SemaphoreUp g ?s (lock_semaphore l)"
    using D(1,2) assms(3,4) by (simp add: sys_lock_unlock_def put32_def)
  ultimately show thesis using that by simp
qed

section \<open>The protocol\<close>

text \<open>
  The phases of a thread with respect to one lock. Threads interleave between the atomic
  parts of \<open>sys_lock_lock\<close> and \<open>sys_lock_unlock\<close>: the semaphore operations run with
  interrupts off, every other store is a part of its own.
\<close>

datatype phase = Out | Waiting | Woken | Taken | Marked | Holding | Dropping | Dropped

fun critical :: "phase \<Rightarrow> bool" where
  "critical Out = False"
| "critical Waiting = False"
| "critical Woken = False"
| "critical _ = True"

type_synonym proto = "lockst \<times> (addr \<Rightarrow> phase)"

definition wake :: "addr list \<Rightarrow> (addr \<Rightarrow> phase) \<Rightarrow> addr \<Rightarrow> phase" where
  "wake ws ph = (case ws of [] \<Rightarrow> ph | w # _ \<Rightarrow> ph(w := Woken))"

inductive lock_step :: "proto \<Rightarrow> proto \<Rightarrow> bool" where
  down: "ph t = Woken \<or> ph t = Out \<and> lk_holder k \<noteq> t \<Longrightarrow> t \<noteq> NULL \<Longrightarrow> lk_value k \<noteq> 0 \<Longrightarrow>
    lock_step (k, ph) (k\<lparr>lk_value := lk_value k - 1\<rparr>, ph(t := Taken))"
| wait: "ph t = Woken \<or> ph t = Out \<and> lk_holder k \<noteq> t \<Longrightarrow> t \<noteq> NULL \<Longrightarrow> lk_value k = 0 \<Longrightarrow>
    lock_step (k, ph) (k\<lparr>lk_waiters := lk_waiters k @ [t]\<rparr>, ph(t := Waiting))"
| mark: "ph t = Taken \<Longrightarrow> lock_step (k, ph) (k\<lparr>lk_holder := t\<rparr>, ph(t := Marked))"
| count: "ph t = Marked \<Longrightarrow> lock_step (k, ph) (k\<lparr>lk_repeat := 1\<rparr>, ph(t := Holding))"
| relock: "ph t = Holding \<Longrightarrow> lk_holder k = t \<Longrightarrow> lk_repeat k + 1 \<noteq> 0 \<Longrightarrow>
    lock_step (k, ph) (k\<lparr>lk_repeat := lk_repeat k + 1\<rparr>, ph)"
| nested: "ph t = Holding \<Longrightarrow> lk_holder k = t \<Longrightarrow> lk_repeat k > 1 \<Longrightarrow>
    lock_step (k, ph) (k\<lparr>lk_repeat := lk_repeat k - 1\<rparr>, ph)"
| drop: "ph t = Holding \<Longrightarrow> lk_holder k = t \<Longrightarrow> lk_repeat k = 1 \<Longrightarrow>
    lock_step (k, ph) (k\<lparr>lk_repeat := 0\<rparr>, ph(t := Dropping))"
| clear: "ph t = Dropping \<Longrightarrow> lock_step (k, ph) (k\<lparr>lk_holder := NULL\<rparr>, ph(t := Dropped))"
| up: "ph t = Dropped \<Longrightarrow> lock_step (k, ph)
    (k\<lparr>lk_waiters := tl (lk_waiters k), lk_value := lk_value k + 1\<rparr>, wake (lk_waiters k) (ph(t := Out)))"

inductive_cases lock_step_cases: "lock_step (k, ph) (k', ph')"

text \<open>After \<open>LockInit\<close>: nobody holds the lock and nobody waits.\<close>

definition lock_start :: proto where
  "lock_start = (\<lparr>lk_holder = NULL, lk_repeat = 0, lk_value = 1, lk_waiters = []\<rparr>, \<lambda>_. Out)"

fun owner_ok :: "lockst \<Rightarrow> addr \<Rightarrow> phase \<Rightarrow> bool" where
  "owner_ok k t Taken \<longleftrightarrow> lk_holder k = NULL \<and> lk_repeat k = 0"
| "owner_ok k t Marked \<longleftrightarrow> lk_holder k = t \<and> lk_repeat k = 0"
| "owner_ok k t Holding \<longleftrightarrow> lk_holder k = t \<and> lk_repeat k \<noteq> 0"
| "owner_ok k t Dropping \<longleftrightarrow> lk_holder k = t \<and> lk_repeat k = 0"
| "owner_ok k t Dropped \<longleftrightarrow> lk_holder k = NULL \<and> lk_repeat k = 0"
| "owner_ok k t _ \<longleftrightarrow> False"

definition lock_owned :: "lockst \<Rightarrow> (addr \<Rightarrow> phase) \<Rightarrow> bool" where
  "lock_owned k ph \<longleftrightarrow>
     lk_value k = 1 \<and> lk_holder k = NULL \<and> lk_repeat k = 0 \<and> (\<forall>t. \<not> critical (ph t))
   \<or> lk_value k = 0 \<and> (\<exists>t. owner_ok k t (ph t) \<and> (\<forall>u. critical (ph u) \<longrightarrow> u = t))"

definition lock_queue :: "lockst \<Rightarrow> (addr \<Rightarrow> phase) \<Rightarrow> bool" where
  "lock_queue k ph \<longleftrightarrow> distinct (lk_waiters k) \<and> (\<forall>t. t \<in> set (lk_waiters k) \<longleftrightarrow> ph t = Waiting)
     \<and> ph NULL = Out"

definition lock_inv :: "proto \<Rightarrow> bool" where
  "lock_inv st = (lock_owned (fst st) (snd st) \<and> lock_queue (fst st) (snd st))"

lemma owner_critical: "owner_ok k t p \<Longrightarrow> critical p"
  by (cases p) auto

lemma lock_owned_busy:
  "lock_owned k ph \<Longrightarrow> critical (ph t) \<Longrightarrow>
   lk_value k = 0 \<and> owner_ok k t (ph t) \<and> (\<forall>u. critical (ph u) \<longrightarrow> u = t)"
  by (auto simp: lock_owned_def)

lemma lock_inv_owner_step:
  assumes "lock_owned k ph" "critical (ph t)" "critical p \<Longrightarrow> owner_ok k' t p"
    and "critical p" "lk_value k' = lk_value k"
  shows "lock_owned k' (ph(t := p))"
  using lock_owned_busy [OF assms(1,2)] assms(3-5)
  by (auto simp: lock_owned_def)

lemma lock_owned_waiters [simp]: "lock_owned (k\<lparr>lk_waiters := ws\<rparr>) ph = lock_owned k ph"
proof -
  have "owner_ok (k\<lparr>lk_waiters := ws\<rparr>) t p = owner_ok k t p" for t p by (cases p) simp_all
  then show ?thesis by (simp add: lock_owned_def)
qed

lemma lock_owned_outside:
  assumes "lock_owned k ph" "\<not> critical (ph t)" "\<not> critical p"
  shows "lock_owned k (ph(t := p))"
proof -
  have "owner_ok k u ((ph(t := p)) u) = owner_ok k u (ph u)" for u
    using assms(2,3) owner_critical by (cases "u = t") auto
  moreover have "critical ((ph(t := p)) u) = critical (ph u)" for u
    using assms(2,3) by (cases "u = t") auto
  ultimately show ?thesis using assms(1) unfolding lock_owned_def by presburger
qed

lemma lock_owned_release:
  assumes "lock_owned k ph" "ph t = Dropped"
  shows "lock_owned (k\<lparr>lk_value := lk_value k + 1\<rparr>) (ph(t := Out))"
  using lock_owned_busy [OF assms(1), of t] assms(2) by (auto simp: lock_owned_def)

lemma lock_owned_take:
  assumes "lock_owned k ph" "lk_value k \<noteq> 0"
  shows "lock_owned (k\<lparr>lk_value := lk_value k - 1\<rparr>) (ph(t := Taken))"
  using assms by (auto simp: lock_owned_def)

lemma lock_step_owned:
  assumes "lock_step st st'" "lock_inv st"
  shows "lock_owned (fst st') (snd st')"
proof -
  have o: "lock_owned (fst st) (snd st)" using assms(2) by (simp add: lock_inv_def)
  note busy = lock_owned_busy [OF o]
  show ?thesis
    using assms(1)
  proof cases
    case (down ph t k)
    then show ?thesis using o by (simp add: lock_owned_take)
  next
    case (wait ph t k)
    then show ?thesis using o by (auto intro: lock_owned_outside)
  next
    case (mark ph t k)
    then show ?thesis using o busy [of t] by (auto intro!: lock_inv_owner_step [of k])
  next
    case (count ph t k)
    then show ?thesis using o busy [of t] by (auto intro!: lock_inv_owner_step [of k])
  next
    case (relock ph t k)
    then show ?thesis
      using o busy [of t] lock_inv_owner_step [of k ph t Holding "k\<lparr>lk_repeat := lk_repeat k + 1\<rparr>"]
      by (simp add: fun_upd_idem)
  next
    case (nested ph t k)
    then show ?thesis
      using o busy [of t] lock_inv_owner_step [of k ph t Holding "k\<lparr>lk_repeat := lk_repeat k - 1\<rparr>"]
      by (auto simp: fun_upd_idem)
  next
    case (drop ph t k)
    then show ?thesis using o busy [of t] by (auto intro!: lock_inv_owner_step [of k])
  next
    case (clear ph t k)
    then show ?thesis using o busy [of t] by (auto intro!: lock_inv_owner_step [of k])
  next
    case (up ph t k)
    have rel: "lock_owned (k\<lparr>lk_value := lk_value k + 1\<rparr>) (ph(t := Out))"
      using o up by (intro lock_owned_release) simp_all
    moreover have "\<not> critical ((ph(t := Out)) w)" if "w \<in> set (lk_waiters k)" for w
      using assms(2) up that by (auto simp: lock_inv_def lock_queue_def)
    ultimately have "lock_owned (k\<lparr>lk_value := lk_value k + 1\<rparr>) (wake (lk_waiters k) (ph(t := Out)))"
      by (auto simp: wake_def split: list.splits intro!: lock_owned_outside)
    then have "lock_owned ((k\<lparr>lk_value := lk_value k + 1\<rparr>)\<lparr>lk_waiters := tl (lk_waiters k)\<rparr>)
        (wake (lk_waiters k) (ph(t := Out)))"
      by (simp only: lock_owned_waiters)
    then show ?thesis using up by (cases k) simp
  qed
qed

lemma lock_step_queue:
  "lock_step st st' \<Longrightarrow> lock_inv st \<Longrightarrow> lock_queue (fst st') (snd st')"
proof (induction rule: lock_step.induct)
  case (up ph t k)
  then have "NULL \<notin> set (lk_waiters k)"
    by (simp add: lock_inv_def lock_queue_def)
  with up show ?case
    by (cases "lk_waiters k") (auto simp: lock_inv_def lock_queue_def wake_def)
qed (auto simp: lock_inv_def lock_queue_def)

lemma lock_inv_reachable: "lock_step\<^sup>*\<^sup>* lock_start st \<Longrightarrow> lock_inv st"
proof (induction rule: rtranclp_induct)
  case base
  then show ?case
    by (simp add: lock_start_def lock_inv_def lock_owned_def lock_queue_def)
next
  case (step y z)
  then show ?case
    using lock_step_owned lock_step_queue by (simp add: lock_inv_def)
qed

text \<open>The protocol run of one call without interruption.\<close>

lemma lock_run_take:
  assumes "ph t = Out" "lk_holder k \<noteq> t" "t \<noteq> NULL" "lk_value k \<noteq> 0"
  shows "lock_step\<^sup>*\<^sup>* (k, ph)
    (k\<lparr>lk_value := lk_value k - 1, lk_holder := t, lk_repeat := 1\<rparr>, ph(t := Holding))"
proof -
  let ?k1 = "k\<lparr>lk_value := lk_value k - 1\<rparr>"
  let ?k2 = "?k1\<lparr>lk_holder := t\<rparr>"
  have 1: "lock_step (k, ph) (?k1, ph(t := Taken))"
    by (rule lock_step.down) (use assms in auto)
  have 2: "lock_step (?k1, ph(t := Taken)) (?k2, (ph(t := Taken))(t := Marked))"
    by (rule lock_step.mark) simp
  have 3: "lock_step (?k2, (ph(t := Taken))(t := Marked))
      (?k2\<lparr>lk_repeat := 1\<rparr>, ((ph(t := Taken))(t := Marked))(t := Holding))"
    by (rule lock_step.count) simp
  have "lock_step\<^sup>*\<^sup>* (k, ph) (?k2\<lparr>lk_repeat := 1\<rparr>, ((ph(t := Taken))(t := Marked))(t := Holding))"
    using 1 2 3 by (meson r_into_rtranclp rtranclp_trans)
  then show ?thesis by simp
qed

lemma lock_run_release:
  assumes "ph t = Holding" "lk_holder k = t" "lk_repeat k = 1"
  shows "lock_step\<^sup>*\<^sup>* (k, ph)
    (k\<lparr>lk_repeat := 0, lk_holder := NULL, lk_waiters := tl (lk_waiters k), lk_value := lk_value k + 1\<rparr>,
     wake (lk_waiters k) (ph(t := Out)))"
proof -
  let ?k1 = "k\<lparr>lk_repeat := 0\<rparr>"
  let ?k2 = "?k1\<lparr>lk_holder := NULL\<rparr>"
  have 1: "lock_step (k, ph) (?k1, ph(t := Dropping))"
    by (rule lock_step.drop) (use assms in auto)
  have 2: "lock_step (?k1, ph(t := Dropping)) (?k2, (ph(t := Dropping))(t := Dropped))"
    by (rule lock_step.clear) simp
  have 3: "lock_step (?k2, (ph(t := Dropping))(t := Dropped))
      (?k2\<lparr>lk_waiters := tl (lk_waiters ?k2), lk_value := lk_value ?k2 + 1\<rparr>,
       wake (lk_waiters ?k2) (((ph(t := Dropping))(t := Dropped))(t := Out)))"
    by (rule lock_step.up) simp
  have "lock_step\<^sup>*\<^sup>* (k, ph)
      (?k2\<lparr>lk_waiters := tl (lk_waiters ?k2), lk_value := lk_value ?k2 + 1\<rparr>,
       wake (lk_waiters ?k2) (((ph(t := Dropping))(t := Dropped))(t := Out)))"
    using 1 2 3 by (meson r_into_rtranclp rtranclp_trans)
  then show ?thesis by simp
qed

section \<open>Properties\<close>


definition demo_lock :: lockst where
  "demo_lock = \<lparr>lk_holder = 0x2000, lk_repeat = 1, lk_value = 0, lk_waiters = []\<rparr>"

lemma demo_lock_reachable: "lock_step\<^sup>*\<^sup>* lock_start (demo_lock, (\<lambda>_. Out)(0x2000 := Holding))"
  unfolding lock_start_def
  using lock_run_take [of "\<lambda>_. Out" "0x2000" "\<lparr>lk_holder = NULL, lk_repeat = 0, lk_value = 1, lk_waiters = []\<rparr>"]
  by (simp add: demo_lock_def)



definition demo_lock_free :: lockst where
  "demo_lock_free = \<lparr>lk_holder = NULL, lk_repeat = 0, lk_value = 1, lk_waiters = []\<rparr>"

definition demo_lock_state :: kstate where
  "demo_lock_state = demo_state\<lparr>mem := st32 (st32 (st8 demo_mem 0x1024 1) 0x102C 0x1030) 0x1030 0x1028\<rparr>"

lemma demo_apart: "apart demo_symbols {0x2000, 0x3000} 0x1020 28"
  by (simp add: apart_def demo_symbols_def sep_def)

lemma demo_lock_rep:
  "lock_rep demo_symbols {0x2000, 0x3000} 0x2000 (mem demo_lock_state) demo_sched 0x1020 demo_lock_free"
  using demo_layout demo_apart
  by (simp add: demo_simps demo_sched_def demo_lock_state_def demo_mem_def lock_defs demo_lock_free_def)
    (simp add: demo_symbols_def sep_def)

lemma demo_lock_state_regs:
  "GetCurrentThreadPCB demo_lock_state = 0x2000" "inr (esp demo_lock_state - 8) 0x2000 4096"
  "running demo_sched = 0x2000" "ready demo_sched = [0x3000]"
  by (simp_all add: GetCurrentThreadPCB_def PAGE_MASK_def demo_lock_state_def demo_state_def inr_def demo_sched_def)



definition demo_lock_state_held :: kstate where
  "demo_lock_state_held = demo_state\<lparr>mem := st32 (st32 (st32 (st32 demo_mem 0x1020 0x2000) 0x1038 1) 0x102C 0x1030) 0x1030 0x1028\<rparr>"


section \<open>The lock as an interface\<close>

text \<open>
  What the clients of a lock (the page allocator, the console, the I/O queue) rely on when
  no other thread competes for it: \<open>lock\<close> and \<open>unlock\<close> return, touch nothing but the lock
  object, and take it from free to held and back.
\<close>

locale mutex =
  fixes lock unlock :: "kstate \<Rightarrow> addr \<Rightarrow> (kstate, unit) outcome"
    and free held :: "kstate \<Rightarrow> addr \<Rightarrow> bool" and width :: nat
  assumes lock: "free s l \<Longrightarrow> \<exists>m'. lock s l = Ok () (s\<lparr>mem := m'\<rparr>) \<and> held (s\<lparr>mem := m'\<rparr>) l
      \<and> only_in (mem s) m' l width"
    and unlock: "held s l \<Longrightarrow> \<exists>m'. unlock s l = Ok () (s\<lparr>mem := m'\<rparr>) \<and> free (s\<lparr>mem := m'\<rparr>) l
      \<and> only_in (mem s) m' l width"
    and held_local: "held s l \<Longrightarrow> eq_on m' (mem s) l width \<Longrightarrow> held (s\<lparr>mem := m'\<rparr>) l"
begin

text \<open>A critical section whose body changes only the store, away from the lock.\<close>

lemma guarded:
  assumes "free s l"
    and body: "\<And>m. held (s\<lparr>mem := m\<rparr>) l \<Longrightarrow> only_in (mem s) m l width \<Longrightarrow>
      \<exists>m'. body (s\<lparr>mem := m\<rparr>) = Ok r (s\<lparr>mem := m'\<rparr>) \<and> eq_on m' m l width \<and> Q m'"
  obtains m1 m2 where "obind (lock s l) (\<lambda>_ s1. obind (body s1) (\<lambda>x s2. obind (unlock s2 l) (\<lambda>_ s3. Ok x s3)))
      = Ok r (s\<lparr>mem := m2\<rparr>)" "Q m1" "only_in m1 m2 l width" "free (s\<lparr>mem := m2\<rparr>) l"
proof -
  obtain m0 where m0: "lock s l = Ok () (s\<lparr>mem := m0\<rparr>)" "held (s\<lparr>mem := m0\<rparr>) l" "only_in (mem s) m0 l width"
    using lock [OF assms(1)] by blast
  then obtain m1 where m1: "body (s\<lparr>mem := m0\<rparr>) = Ok r (s\<lparr>mem := m1\<rparr>)" "eq_on m1 m0 l width" "Q m1"
    using body by blast
  then have "held (s\<lparr>mem := m1\<rparr>) l" using held_local [OF m0(2), of m1] by simp
  then obtain m2 where "unlock (s\<lparr>mem := m1\<rparr>) l = Ok () (s\<lparr>mem := m2\<rparr>)" "free (s\<lparr>mem := m2\<rparr>) l"
      "only_in m1 m2 l width"
    using unlock [of "s\<lparr>mem := m1\<rparr>"] by auto
  with m0(1) m1 that show thesis by simp
qed

end

definition lock_free :: "kstate \<Rightarrow> addr \<Rightarrow> bool" where
  "lock_free s l \<longleftrightarrow> GetCurrentThreadPCB s \<noteq> NULL \<and> holder (mem s) l = NULL
     \<and> holder_repeat_request_sum (mem s) l = 0
     \<and> sem_value (mem s) (lock_semaphore l) = 1 \<and> list_empty (mem s) (l + 8)"

definition lock_held :: "kstate \<Rightarrow> addr \<Rightarrow> bool" where
  "lock_held s l \<longleftrightarrow> GetCurrentThreadPCB s \<noteq> NULL \<and> holder (mem s) l = GetCurrentThreadPCB s
     \<and> holder_repeat_request_sum (mem s) l = 1
     \<and> sem_value (mem s) (lock_semaphore l) = 0 \<and> list_empty (mem s) (l + 8)"

lemmas lock_view = lock_free_def lock_held_def holder_def holder_repeat_request_sum_def sem_value_def
  lock_semaphore_def list_empty_def next_of_def

lemma only_in_lock_writes:
  "only_in m (st32 m l v) l 28" "only_in m (st32 m (l + 24) v) l 28" "only_in m (st8 m (l + 4) b) l 28"
  "only_in m (set_prev m (l + 8) v) l 28" "only_in m (set_next m (l + 8) v) l 28"
  "only_in m (set_prev m (l + 16) v) l 28" "only_in m (set_next m (l + 16) v) l 28"
proof -
  have w: "only_in m (st32 m (l + off) v) l 28" if "unat off + 4 \<le> 28" for off
    by (rule only_in_part [OF only_in_st32 that])
  show "only_in m (st32 m l v) l 28" using w [of 0] by simp
  show "only_in m (st32 m (l + 24) v) l 28" using w [of 24] by simp
  show "only_in m (st8 m (l + 4) b) l 28" by (rule only_in_part [OF only_in_st8]) simp
  show "only_in m (set_prev m (l + 8) v) l 28" "only_in m (set_next m (l + 8) v) l 28"
    "only_in m (set_prev m (l + 16) v) l 28" "only_in m (set_next m (l + 16) v) l 28"
    using w [of 8] w [of 12] w [of 16] w [of 20]
    by (simp_all add: set_prev_def set_next_def add.assoc)
qed

lemma lock_free_take:
  assumes "lock_free s l"
  defines "m' \<equiv> st32 (st32 (st8 (mem s) (l + 4) 0) l (GetCurrentThreadPCB s)) (l + 24) 1"
  shows "sys_lock_lock g s l = Ok () (s\<lparr>mem := m'\<rparr>)" "lock_held (s\<lparr>mem := m'\<rparr>) l"
    "only_in (mem s) m' l 28"
proof -
  show "sys_lock_lock g s l = Ok () (s\<lparr>mem := m'\<rparr>)"
    using assms SemaphoreDown_free [of s "lock_semaphore l" g]
    by (simp add: sys_lock_lock_def lock_taken_def lock_view put32_def put8_def)
  show "lock_held (s\<lparr>mem := m'\<rparr>) l"
    using assms by (simp add: lock_view)
  show "only_in (mem s) m' l 28"
    unfolding m'_def
    by (rule only_in_trans [OF only_in_trans [OF only_in_lock_writes(3,1)] only_in_lock_writes(2)])
qed

lemma lock_held_release:
  assumes "lock_held s l"
  defines "m' \<equiv> st8 (st32 (st32 (mem s) (l + 24) 0) l NULL) (l + 4) 1"
  shows "sys_lock_unlock g s l = Ok () (s\<lparr>mem := m'\<rparr>)" "lock_free (s\<lparr>mem := m'\<rparr>) l"
    "only_in (mem s) m' l 28"
proof -
  let ?s = "s\<lparr>mem := st32 (st32 (mem s) (l + 24) 0) l NULL\<rparr>"
  have "SemaphoreUp g ?s (lock_semaphore l) = Ok () (s\<lparr>mem := m'\<rparr>)"
    using assms critical_section [of ?s m']
    by (simp add: SemaphoreUp_def lock_view put8_def split_def waiting_thread_list_def Let_def)
  then show "sys_lock_unlock g s l = Ok () (s\<lparr>mem := m'\<rparr>)"
    using assms(1) by (simp add: sys_lock_unlock_def lock_held_def put32_def)
  show "lock_free (s\<lparr>mem := m'\<rparr>) l"
    using assms by (simp add: lock_view)
  show "only_in (mem s) m' l 28"
    unfolding m'_def
    by (rule only_in_trans [OF only_in_trans [OF only_in_lock_writes(2,1)] only_in_lock_writes(3)])
qed

lemma lock_words_cong:
  assumes "eq_on m' m l 28"
  shows "ld32 m' l = ld32 m l" "ld32 m' (l + 24) = ld32 m (l + 24)" "ld32 m' (l + 8 + 4) = ld32 m (l + 8 + 4)"
    "ld8 m' (l + 4) = ld8 m (l + 4)"
proof -
  have "ld32 m' (l + off) = ld32 m (l + off)" if "unat off + 4 \<le> 28" for off
    by (rule ld32_cong [OF eq_on_part [OF assms that]])
  from this [of 0] this [of 24] this [of 12]
  show "ld32 m' l = ld32 m l" "ld32 m' (l + 24) = ld32 m (l + 24)" "ld32 m' (l + 8 + 4) = ld32 m (l + 8 + 4)"
    by (simp_all add: add.assoc)
  show "ld8 m' (l + 4) = ld8 m (l + 4)"
    by (rule ld8_cong [OF eq_on_part [OF assms]]) simp
qed

lemma lock_held_local: "lock_held s l \<Longrightarrow> eq_on m' (mem s) l 28 \<Longrightarrow> lock_held (s\<lparr>mem := m'\<rparr>) l"
  using lock_words_cong [of m' "mem s" l] unfolding lock_view by simp

lemma lock_free_local: "lock_free s l \<Longrightarrow> eq_on m' (mem s) l 28 \<Longrightarrow> lock_free (s\<lparr>mem := m'\<rparr>) l"
  using lock_words_cong [of m' "mem s" l] unfolding lock_view by simp

interpretation lk: mutex "sys_lock_lock g" "sys_lock_unlock g" lock_free lock_held 28
proof unfold_locales
  fix s l assume "lock_free s l"
  then show "\<exists>m'. sys_lock_lock g s l = Ok () (s\<lparr>mem := m'\<rparr>) \<and> lock_held (s\<lparr>mem := m'\<rparr>) l
      \<and> only_in (mem s) m' l 28"
    using lock_free_take by blast
next
  fix s l assume "lock_held s l"
  then show "\<exists>m'. sys_lock_unlock g s l = Ok () (s\<lparr>mem := m'\<rparr>) \<and> lock_free (s\<lparr>mem := m'\<rparr>) l
      \<and> only_in (mem s) m' l 28"
    using lock_held_release by blast
next
  fix s l m' assume "lock_held s l" "eq_on m' (mem s) l 28"
  then show "lock_held (s\<lparr>mem := m'\<rparr>) l" by (rule lock_held_local)
qed

text \<open>\<open>LockInit\<close> makes a free lock.\<close>

lemma LockInit_free:
  assumes "GetCurrentThreadPCB s \<noteq> NULL"
  obtains m' where "LockInit s l = s\<lparr>mem := m'\<rparr>" "lock_free (s\<lparr>mem := m'\<rparr>) l" "only_in (mem s) m' l 28"
proof
  let ?m = "set_next (set_prev (set_next (set_prev
    (st8 (st32 (st32 (mem s) l NULL) (l + 24) 0) (l + 4) 1) (l + 8) NULL) (l + 8) (l + 16)) (l + 16) (l + 8)) (l + 16) NULL"
  show "LockInit s l = s\<lparr>mem := ?m\<rparr>"
    by (simp add: LockInit_def SemaphoreInit_def list_init_def put32_def put8_def lock_semaphore_def
        waiting_thread_list_def Let_def add.assoc)
  show "lock_free (s\<lparr>mem := ?m\<rparr>) l"
    using assms by (simp add: lock_view set_next_def set_prev_def)
  show "only_in (mem s) ?m l 28"
    by (rule only_in_trans [OF only_in_trans [OF only_in_trans [OF only_in_trans [OF only_in_trans
              [OF only_in_trans [OF only_in_lock_writes(1,2)] only_in_lock_writes(3)]
              only_in_lock_writes(4)] only_in_lock_writes(5)] only_in_lock_writes(6)]
        only_in_lock_writes(7)])
qed

end
