(* ===== verification/CString.thy ===== *)
theory CString
  imports Prelude
begin

text \<open>
  \<open>lib/string.c\<close>: the memory and string routines over the byte store. Loops that stop at
  a terminating zero byte are partial functions (\<open>None\<close>, which \<open>of_loop\<close> turns into the
  outcome \<open>Diverge\<close>: the loop never ends), loops that
  count \<open>size\<close> down recurse on the number of iterations left. \<open>char\<close> is signed on this
  target, so bytes are compared through \<open>sint\<close> where the source compares characters.
\<close>

section \<open>The routines\<close>

primrec memset_loop :: "nat \<Rightarrow> mem \<Rightarrow> addr \<Rightarrow> u8 \<Rightarrow> mem" where
  "memset_loop 0 m dst' value = m"
| "memset_loop (Suc n) m dst' value = memset_loop n (st8 m dst' value) (dst' + 1) value"

definition memset :: "mem \<Rightarrow> addr \<Rightarrow> u8 \<Rightarrow> u32 \<Rightarrow> (mem, unit) outcome" where
  "memset m dst value len =
     ASSERT ''memset'' ''dst != NULL'' (dst \<noteq> NULL) (Ok () (memset_loop (unat len) m dst value))"

primrec memcpy_loop :: "nat \<Rightarrow> mem \<Rightarrow> addr \<Rightarrow> addr \<Rightarrow> mem" where
  "memcpy_loop 0 m dst' src' = m"
| "memcpy_loop (Suc n) m dst' src' =
     memcpy_loop n (st8 m dst' (ld8 m src')) (dst' + 1) (src' + 1)"

definition memcpy :: "mem \<Rightarrow> addr \<Rightarrow> addr \<Rightarrow> u32 \<Rightarrow> (mem, unit) outcome" where
  "memcpy m dst src len =
     ASSERT ''memcpy'' ''dst != NULL && src != NULL'' (dst \<noteq> NULL \<and> src \<noteq> NULL)
       (Ok () (memcpy_loop (unat len) m dst src))"

primrec memcmp_loop :: "nat \<Rightarrow> mem \<Rightarrow> addr \<Rightarrow> addr \<Rightarrow> int" where
  "memcmp_loop 0 m a' b' = 0"
| "memcmp_loop (Suc n) m a' b' =
     (if ld8 m a' \<noteq> ld8 m b'
      then (if sint (ld8 m a') > sint (ld8 m b') then 1 else -1)
      else memcmp_loop n m (a' + 1) (b' + 1))"

definition memcmp :: "mem \<Rightarrow> addr \<Rightarrow> addr \<Rightarrow> u32 \<Rightarrow> (mem, int) outcome" where
  "memcmp m a b len =
     ASSERT ''memcmp'' ''a != NULL && b != NULL'' (a \<noteq> NULL \<and> b \<noteq> NULL)
       (Ok (memcmp_loop (unat len) m a b) m)"

partial_function (option) strcpy_loop :: "mem \<Rightarrow> addr \<Rightarrow> addr \<Rightarrow> mem option" where
  "strcpy_loop m dst src =
     (let c = ld8 m src; m' = st8 m dst c
      in if c \<noteq> 0 then strcpy_loop m' (dst + 1) (src + 1) else Some m')"

definition strcpy :: "mem \<Rightarrow> addr \<Rightarrow> addr \<Rightarrow> (mem, addr) outcome" where
  "strcpy m dst src =
     ASSERT ''strcpy'' ''dst != NULL && src != NULL'' (dst \<noteq> NULL \<and> src \<noteq> NULL)
       (of_loop (map_option (Ok dst) (strcpy_loop m dst src)))"

text \<open>\<open>while (*str++);\<close> leaves \<open>str\<close> one past the terminating zero byte.\<close>

partial_function (option) skip_string :: "mem \<Rightarrow> addr \<Rightarrow> addr option" where
  "skip_string m str = (if ld8 m str \<noteq> 0 then skip_string m (str + 1) else Some (str + 1))"

definition strlen :: "mem \<Rightarrow> addr \<Rightarrow> (mem, u32) outcome" where
  "strlen m str =
     ASSERT ''strlen'' ''str != NULL'' (str \<noteq> NULL)
       (of_loop (map_option (\<lambda>e. Ok (e - str - 1) m) (skip_string m str)))"

partial_function (option) strcmp_loop :: "mem \<Rightarrow> addr \<Rightarrow> addr \<Rightarrow> int option" where
  "strcmp_loop m a' b' =
     (if ld8 m a' \<noteq> 0 \<or> ld8 m b' \<noteq> 0
      then if ld8 m a' \<noteq> ld8 m b'
           then Some (if sint (ld8 m a') > sint (ld8 m b') then 1 else -1)
           else strcmp_loop m (a' + 1) (b' + 1)
      else Some 0)"

definition strcmp :: "mem \<Rightarrow> addr \<Rightarrow> addr \<Rightarrow> (mem, int) outcome" where
  "strcmp m a b =
     ASSERT ''strcmp'' ''a != NULL && b != NULL'' (a \<noteq> NULL \<and> b \<noteq> NULL)
       (of_loop (map_option (\<lambda>r. Ok r m) (strcmp_loop m a b)))"

text \<open>\<open>*str == ch\<close> compares a promoted signed \<open>char\<close> with a promoted \<open>uint8_t\<close>.\<close>

definition char_eq_u8 :: "u8 \<Rightarrow> u8 \<Rightarrow> bool" where
  "char_eq_u8 c ch \<longleftrightarrow> sint c = uint ch"

partial_function (option) strchr_loop :: "mem \<Rightarrow> addr \<Rightarrow> u8 \<Rightarrow> addr option" where
  "strchr_loop m str ch =
     (if ld8 m str \<noteq> 0
      then if char_eq_u8 (ld8 m str) ch then Some str else strchr_loop m (str + 1) ch
      else Some NULL)"

definition strchr :: "mem \<Rightarrow> addr \<Rightarrow> u8 \<Rightarrow> (mem, addr) outcome" where
  "strchr m str ch =
     ASSERT ''strchr'' ''str != NULL'' (str \<noteq> NULL)
       (of_loop (map_option (\<lambda>p. Ok p m) (strchr_loop m str ch)))"

text \<open>\<open>strrchr\<close> returns from inside its loop: \<open>return last_found = (char *) str\<close>.\<close>

partial_function (option) strrchr_loop :: "mem \<Rightarrow> addr \<Rightarrow> u8 \<Rightarrow> addr \<Rightarrow> addr option" where
  "strrchr_loop m str ch last_found =
     (if ld8 m str \<noteq> 0
      then if char_eq_u8 (ld8 m str) ch then Some str
           else strrchr_loop m (str + 1) ch last_found
      else Some last_found)"

definition strrchr :: "mem \<Rightarrow> addr \<Rightarrow> u8 \<Rightarrow> (mem, addr) outcome" where
  "strrchr m str ch =
     ASSERT ''strrchr'' ''str != NULL'' (str \<noteq> NULL)
       (of_loop (map_option (\<lambda>p. Ok p m) (strrchr_loop m str ch NULL)))"

definition strcat :: "mem \<Rightarrow> addr \<Rightarrow> addr \<Rightarrow> (mem, addr) outcome" where
  "strcat m dst src =
     ASSERT ''strcat'' ''dst != NULL && src != NULL'' (dst \<noteq> NULL \<and> src \<noteq> NULL)
       (of_loop (case skip_string m dst of None \<Rightarrow> None
          | Some str \<Rightarrow> map_option (Ok dst) (strcpy_loop m (str - 1) src)))"

section \<open>Strings and byte arrays in the store\<close>

text \<open>A string is the list of its bytes, none of them zero, followed by a zero byte.\<close>

fun cstr :: "mem \<Rightarrow> addr \<Rightarrow> u8 list \<Rightarrow> bool" where
  "cstr m a [] \<longleftrightarrow> ld8 m a = 0"
| "cstr m a (x # xs) \<longleftrightarrow> ld8 m a = x \<and> x \<noteq> 0 \<and> cstr m (a + 1) xs"

fun bytes :: "mem \<Rightarrow> addr \<Rightarrow> nat \<Rightarrow> u8 list" where
  "bytes m a 0 = []"
| "bytes m a (Suc n) = ld8 m a # bytes m (a + 1) n"

lemma length_bytes [simp]: "length (bytes m a n) = n"
  by (induction n arbitrary: a) auto

lemma inr_Suc_mono: "inr x (a + 1) n \<Longrightarrow> inr x a (Suc n)"
  by (rule inr_part) auto

lemma not_inr_succ: "n < 2 ^ 32 \<Longrightarrow> \<not> inr a (a + 1) n"
  by (simp add: inr_def)

lemma inr_Suc_iff: "n < 2 ^ 32 \<Longrightarrow> inr x a (Suc n) \<longleftrightarrow> x = a \<or> inr x (a + 1) n"
proof
  assume n: "n < 2 ^ 32" and "inr x a (Suc n)"
  then have u: "unat (x - a) \<le> n" by (simp add: inr_def)
  show "x = a \<or> inr x (a + 1) n"
  proof (cases "x = a")
    case False
    then have "1 \<le> x - a"
      by (simp add: word_le_nat_alt unat_gt_0 Suc_leI)
    then have "unat (x - a - 1) = unat (x - a) - 1"
      by (simp add: unat_minus_le)
    moreover have "0 < unat (x - a)"
      using False by (simp add: unat_gt_0)
    ultimately have "unat (x - (a + 1)) < n"
      using u by (simp add: diff_diff_eq)
    then show ?thesis by (simp add: inr_def)
  qed simp
next
  assume "x = a \<or> inr x (a + 1) n"
  then show "inr x a (Suc n)"
    by (auto intro: inr_Suc_mono)
qed

lemma sep_Suc_neq: "sep a (Suc n) b (Suc k) \<Longrightarrow> a \<noteq> b"
  by (auto simp: sep_def)

lemma sep_Suc_left: "sep a (Suc n) b k \<Longrightarrow> \<not> inr a b k"
  using sep_disjoint [of a "Suc n" b k a] by simp

lemma sep_Suc_right: "sep a n b (Suc k) \<Longrightarrow> \<not> inr b a n"
  using sep_disjoint [of a n b "Suc k" b] by auto

lemma sep_Suc_both:
  "sep a (Suc n) b (Suc k) \<Longrightarrow> 0 < n \<Longrightarrow> 0 < k \<Longrightarrow> sep (a + 1) n (b + 1) k"
  by (rule sep_parts) auto

lemma bytes_cong: "eq_on m m' a n \<Longrightarrow> bytes m a n = bytes m' a n"
proof (induction n arbitrary: a)
  case (Suc n)
  then have "eq_on m m' (a + 1) n" "m a = m' a"
    by (auto simp: eq_on_def inr_Suc_mono)
  with Suc.IH show ?case by (simp add: ld8_def)
qed simp

lemma cstr_cong: "eq_on m m' a (Suc (length xs)) \<Longrightarrow> cstr m a xs = cstr m' a xs"
proof (induction xs arbitrary: a)
  case (Cons x xs)
  then have "eq_on m m' (a + 1) (Suc (length xs))" "m a = m' a"
    by (auto simp: eq_on_def inr_Suc_mono)
  with Cons.IH show ?case by (simp add: ld8_def)
qed (simp add: eq_on_def ld8_def)

lemma cstr_bytes: "cstr m a xs \<longleftrightarrow> bytes m a (Suc (length xs)) = xs @ [0] \<and> 0 \<notin> set xs"
  by (induction xs arbitrary: a) auto

section \<open>Memory routines\<close>

lemma memset_loop_only_in: "n < 2 ^ 32 \<Longrightarrow> only_in m (memset_loop n m a v) a n"
proof (induction n arbitrary: m a)
  case (Suc n)
  then have "only_in (st8 m a v) (memset_loop n (st8 m a v) (a + 1) v) (a + 1) n"
    by simp
  with Suc.prems show ?case
    by (auto simp: only_in_def inr_Suc_iff st8_def)
qed simp

lemma memset_loop_byte:
  "n < 2 ^ 32 \<Longrightarrow> memset_loop n m a v x = (if inr x a n then v else m x)"
proof (induction n arbitrary: m a)
  case (Suc n)
  then show ?case
    using not_inr_succ [of n a] by (auto simp: inr_Suc_iff st8_def)
qed simp

lemma bytes_const: "(\<And>x. inr x a n \<Longrightarrow> m x = v) \<Longrightarrow> bytes m a n = replicate n v"
  by (induction n arbitrary: a) (auto simp: ld8_def inr_Suc_mono)

lemma bytes_memset_loop: "n < 2 ^ 32 \<Longrightarrow> bytes (memset_loop n m a v) a n = replicate n v"
  by (rule bytes_const) (simp add: memset_loop_byte)

lemma memcpy_loop_only_in: "n < 2 ^ 32 \<Longrightarrow> only_in m (memcpy_loop n m d s) d n"
proof (induction n arbitrary: m d s)
  case (Suc n)
  then have "only_in (st8 m d (ld8 m s))
      (memcpy_loop n (st8 m d (ld8 m s)) (d + 1) (s + 1)) (d + 1) n"
    by simp
  with Suc.prems show ?case
    by (auto simp: only_in_def inr_Suc_iff st8_def)
qed simp

lemma bytes_memcpy_loop:
  "sep d n s n \<Longrightarrow> n < 2 ^ 32 \<Longrightarrow> bytes (memcpy_loop n m d s) d n = bytes m s n"
proof (induction n arbitrary: m d s)
  case (Suc n)
  let ?m = "st8 m d (ld8 m s)"
  let ?m' = "memcpy_loop n ?m (d + 1) (s + 1)"
  have "eq_on ?m m (s + 1) n"
    using sep_Suc_left [OF Suc.prems(1)] inr_Suc_mono [of d s n]
    by (auto simp: eq_on_def st8_def)
  moreover have "bytes ?m' (d + 1) n = bytes ?m (s + 1) n"
    using Suc.IH [of "d + 1" "s + 1" ?m] sep_Suc_both [OF Suc.prems(1)] Suc.prems(2)
    by (cases "n = 0") auto
  moreover have "?m' d = ld8 m s"
    using only_inD [OF memcpy_loop_only_in [of n ?m "d + 1" "s + 1"], of d] Suc.prems(2)
      not_inr_succ [of n d]
    by (simp add: st8_def)
  ultimately show ?case
    by (simp add: ld8_def) (blast intro: bytes_cong)
qed simp

lemma memcmp_loop_0: "memcmp_loop n m a b = 0 \<longleftrightarrow> bytes m a n = bytes m b n"
  by (induction n arbitrary: a b) auto

section \<open>String routines\<close>

lemma skip_string_cstr: "cstr m a xs \<Longrightarrow> skip_string m a = Some (a + of_nat (length xs) + 1)"
  by (induction xs arbitrary: a) (subst skip_string.simps, simp add: algebra_simps)+

lemma strcpy_loop_cstr:
  assumes "cstr m s xs" "sep d (Suc (length xs)) s (Suc (length xs))"
    "Suc (length xs) < 2 ^ 32"
  shows "\<exists>m'. strcpy_loop m d s = Some m' \<and> cstr m' d xs \<and> only_in m m' d (Suc (length xs))"
  using assms
proof (induction xs arbitrary: m d s)
  case Nil
  then show ?case
    using only_in_st8 [of m d 0] by (subst strcpy_loop.simps) simp
next
  case (Cons x xs)
  let ?m = "st8 m d x"
  have "eq_on ?m m (s + 1) (Suc (length xs))"
    using sep_Suc_left [OF Cons.prems(2)] inr_Suc_mono [of d s "Suc (length xs)"]
    by (auto simp: eq_on_def st8_def)
  then have "cstr ?m (s + 1) xs"
    using Cons.prems(1) cstr_cong by (auto simp del: One_nat_def)
  moreover have "sep (d + 1) (Suc (length xs)) (s + 1) (Suc (length xs))"
    using Cons.prems(2) by (intro sep_Suc_both) auto
  ultimately obtain m' where m': "strcpy_loop ?m (d + 1) (s + 1) = Some m'"
      "cstr m' (d + 1) xs" "only_in ?m m' (d + 1) (Suc (length xs))"
    using Cons.IH Cons.prems(3) by force
  have "m' d = x"
    using only_inD [OF m'(3), of d] not_inr_succ [of "Suc (length xs)" d] Cons.prems(3)
    by (simp add: st8_def)
  moreover have "only_in m m' d (Suc (length (x # xs)))"
    using m'(3) Cons.prems(3) by (auto simp: only_in_def inr_Suc_iff st8_def)
  ultimately show ?case
    using m' Cons.prems(1) by (subst strcpy_loop.simps) (auto simp: ld8_def)
qed

lemma strcmp_loop_cstr:
  "cstr m a xs \<Longrightarrow> cstr m b ys \<Longrightarrow> \<exists>r. strcmp_loop m a b = Some r \<and> (r = 0 \<longleftrightarrow> xs = ys)"
proof (induction xs arbitrary: a b ys)
  case Nil
  then show ?case
    by (cases ys) (subst strcmp_loop.simps, simp)+
next
  case (Cons x xs)
  then show ?case
    by (cases ys) (subst strcmp_loop.simps, auto)+
qed

lemma uint_u8_bounds: "0 \<le> uint (c :: u8)" "uint c < 256"
  using unsigned_less [of c, where ?'a = int] by simp_all

lemma sint_u8: "sint (c :: u8) = uint c - 256 * of_bool (bit c 7)"
  using uint_u8_bounds [of c]
  by (simp add: sint_uint signed_take_bit_eq_take_bit_minus bit_unsigned_iff
      take_bit_int_eq_self)

lemma bit_7_u8: "bit (c :: u8) 7 \<longleftrightarrow> 128 \<le> uint c"
proof -
  have "uint c div 128 = (if 128 \<le> uint c then 1 else 0)"
    using uint_u8_bounds [of c] by auto
  then have "bit (uint c) 7 \<longleftrightarrow> 128 \<le> uint c"
    by (simp add: bit_iff_odd)
  then show ?thesis by (simp add: bit_unsigned_iff)
qed

lemma char_eq_u8_iff: "char_eq_u8 c ch \<longleftrightarrow> c = ch \<and> ch < 128"
proof -
  have "uint c - 256 \<noteq> uint ch"
    using uint_u8_bounds(2) [of c] uint_u8_bounds(1) [of ch] by linarith
  then show ?thesis
    by (auto simp: char_eq_u8_def sint_u8 bit_7_u8 word_less_def word_uint_eq_iff)
qed

text \<open>The index of the first byte equal to \<open>c\<close>, as a specification of the searches.\<close>

fun find_byte :: "u8 \<Rightarrow> u8 list \<Rightarrow> nat option" where
  "find_byte c [] = None"
| "find_byte c (x # xs) = (if x = c then Some 0 else map_option Suc (find_byte c xs))"

lemma find_byte_None: "find_byte c xs = None \<longleftrightarrow> c \<notin> set xs"
  by (induction xs) auto

lemma find_byte_Some:
  "find_byte c xs = Some i \<longleftrightarrow> i < length xs \<and> xs ! i = c \<and> c \<notin> set (take i xs)"
proof (induction xs arbitrary: i)
  case (Cons x xs)
  then show ?case by (cases i) auto
qed simp

lemma strchr_loop_ascii:
  "cstr m a xs \<Longrightarrow> ch < 128 \<Longrightarrow> strchr_loop m a ch =
     Some (case find_byte ch xs of None \<Rightarrow> NULL | Some i \<Rightarrow> a + of_nat i)"
proof (induction xs arbitrary: a)
  case (Cons x xs)
  then show ?case
    by (subst strchr_loop.simps)
      (auto simp: char_eq_u8_iff algebra_simps split: option.splits)
qed (simp add: strchr_loop.simps)

lemma strchr_loop_high: "cstr m a xs \<Longrightarrow> \<not> ch < 128 \<Longrightarrow> strchr_loop m a ch = Some NULL"
  by (induction xs arbitrary: a) (subst strchr_loop.simps, simp add: char_eq_u8_iff)+

lemma strrchr_loop_eq: "cstr m a xs \<Longrightarrow> strrchr_loop m a ch NULL = strchr_loop m a ch"
proof (induction xs arbitrary: a)
  case (Cons x xs)
  then show ?case
    by (subst strrchr_loop.simps, subst strchr_loop.simps) simp
qed (simp add: strrchr_loop.simps strchr_loop.simps)

lemma cstr_append:
  "cstr m a (xs @ ys) \<longleftrightarrow>
     bytes m a (length xs) = xs \<and> 0 \<notin> set xs \<and> cstr m (a + of_nat (length xs)) ys"
  by (induction xs arbitrary: a) (auto simp: algebra_simps)

section \<open>Properties\<close>

text \<open>\<open>strcat\<close> on separated buffers returns its first argument, leaves the concatenation
  of the two strings there and writes nothing outside the destination buffer.
\<close>

theorem strcat_correct:
  assumes "cstr m dst xs" "cstr m src ys" "dst \<noteq> NULL" "src \<noteq> NULL"
    and "sep dst (length xs + length ys + 1) src (length ys + 1)"
    and "length xs + length ys + 1 < 2 ^ 32"
  shows "\<exists>m'. strcat m dst src = Ok dst m' \<and> cstr m' dst (xs @ ys)
      \<and> only_in m m' dst (length xs + length ys + 1)"
proof -
  let ?d = "dst + of_nat (length xs)"
  have ul: "unat (of_nat (length xs) :: u32) = length xs"
    using assms(6) by simp
  have "sep ?d (Suc (length ys)) src (Suc (length ys))"
    using sep_offset_left [OF assms(5), of "of_nat (length xs)" "Suc (length ys)"] ul by simp
  then obtain m' where m': "strcpy_loop m ?d src = Some m'" "cstr m' ?d ys"
      "only_in m m' ?d (Suc (length ys))"
    using strcpy_loop_cstr [OF assms(2)] assms(6) by force
  have "sep dst (length xs) ?d (Suc (length ys))" if "xs \<noteq> []"
    using that assms(6) by (intro sep_adjacent) auto
  then have "bytes m' dst (length xs) = bytes m dst (length xs)"
    using only_in_sep [OF m'(3)] sep_sym by (cases "xs = []") (auto intro: bytes_cong)
  moreover have "bytes m dst (length xs) = xs" "0 \<notin> set xs"
    using assms(1) cstr_append [of m dst xs "[]"] by auto
  ultimately have "cstr m' dst (xs @ ys)"
    using m'(2) by (simp add: cstr_append)
  moreover have "only_in m m' dst (length xs + length ys + 1)"
    using only_in_part [OF m'(3)] ul by simp
  ultimately show ?thesis
    using assms(3,4) m'(1) skip_string_cstr [OF assms(1)] by (simp add: strcat_def)
qed

definition demo_str :: mem where
  "demo_str = st8 (st8 (st8 (\<lambda>_. 0) 0x100 97) 0x101 98) 0x200 97"

theorem strcat_correct_witness:
  "\<exists>m'. strcat demo_str 0x100 0x200 = Ok 0x100 m' \<and> cstr m' 0x100 [97, 98, 97]
      \<and> only_in demo_str m' 0x100 (length [97 :: u8, 98] + length [97 :: u8] + 1)"
proof -
  have "cstr demo_str 0x100 [97, 98]" "cstr demo_str 0x200 [97]"
    by (simp_all add: demo_str_def ld8_def st8_def)
  then show ?thesis
    using strcat_correct [of demo_str "0x100" "[97, 98]" "0x200" "[97]"] by (simp add: sep_def)
qed

text \<open>On a zero-terminated string \<open>strchr\<close> returns the address of the first occurrence of
  an ASCII character and \<open>NULL\<close> when it does not occur; no character above 127 is ever found
  (the comparison is between a signed and an unsigned byte); and \<open>strrchr\<close> returns the same
  address as \<open>strchr\<close>, the first occurrence and not the last one.\<close>

theorem strrchr_is_strchr:
  assumes "cstr m str xs" "str \<noteq> NULL"
  shows "strchr m str ch = Ok (case find_byte ch xs of Some i \<Rightarrow> if ch < 128 then str + of_nat i else NULL
      | None \<Rightarrow> NULL) m \<and> strrchr m str ch = strchr m str ch"
  using strchr_loop_ascii [OF assms(1)] strchr_loop_high [OF assms(1)]
    strrchr_loop_eq [OF assms(1)] assms(2)
  by (cases "ch < 128") (auto simp: strchr_def strrchr_def split: option.splits)

theorem strrchr_is_strchr_witness:
  "strrchr (st8 demo_str 0x102 97) 0x100 97 = Ok 0x100 (st8 demo_str 0x102 97)"
proof -
  have "cstr (st8 demo_str 0x102 97) 0x100 [97, 98, 97]"
    by (simp add: demo_str_def ld8_def st8_def)
  from strrchr_is_strchr [OF this, of 97] show ?thesis by simp
qed

text \<open>\<open>memcpy\<close> between separated buffers copies the bytes and writes nothing else, so that
  \<open>memcmp\<close> of the two buffers is 0 afterwards.\<close>

theorem memcpy_memcmp:
  assumes "dst \<noteq> NULL" "src \<noteq> NULL" "sep dst (unat n) src (unat n)"
  shows "\<exists>m'. memcpy m dst src n = Ok () m' \<and> bytes m' dst (unat n) = bytes m src (unat n)
    \<and> only_in m m' dst (unat n) \<and> memcmp m' dst src n = Ok 0 m'"
proof -
  let ?m = "memcpy_loop (unat n) m dst src"
  have n: "unat n < 2 ^ 32" using unsigned_less [of n, where ?'a = nat] by simp
  note c = bytes_memcpy_loop [OF assms(3) n, of m] memcpy_loop_only_in [OF n, of m dst src]
  have "bytes ?m src (unat n) = bytes m src (unat n)"
    using only_in_sep [OF c(2) assms(3)] by (rule bytes_cong)
  then have "memcmp ?m dst src n = Ok 0 ?m"
    using c(1) assms(1,2) memcmp_loop_0 [of "unat n" ?m dst src] by (simp add: memcmp_def)
  then show ?thesis
    using c assms(1,2) by (simp add: memcpy_def)
qed

theorem memcpy_memcmp_witness:
  "\<exists>m'. memcpy demo_str 0x200 0x100 2 = Ok () m' \<and> bytes m' 0x200 2 = bytes demo_str 0x100 2
    \<and> only_in demo_str m' 0x200 2 \<and> memcmp m' 0x200 0x100 2 = Ok 0 m'"
  using memcpy_memcmp [of "0x200" "0x100" 2 demo_str] by (simp add: sep_def)

text \<open>When the loop over a string ends: a returned address is one past a zero byte, and a zero byte
  anywhere is reached, since addresses wrap around.\<close>

lemma skip_string_zero: "skip_string m a = Some e \<Longrightarrow> ld8 m (e - 1) = 0"
proof (induction rule: skip_string.raw_induct [rotated, consumes 1, case_names step])
  case (step f a e)
  then show ?case by (auto split: if_splits)
qed

lemma skip_string_reaches: "ld8 m (a + of_nat n) = 0 \<Longrightarrow> \<exists>k \<le> n. skip_string m a = Some (a + of_nat k + 1)"
proof (induction n arbitrary: a)
  case 0
  then show ?case by (subst skip_string.simps) simp
next
  case (Suc n)
  show ?case
  proof (cases "ld8 m a = 0")
    case True
    then show ?thesis by (subst skip_string.simps) auto
  next
    case False
    from Suc.prems have "ld8 m (a + 1 + of_nat n) = 0" by (simp add: algebra_simps)
    from Suc.IH [OF this] obtain k where "k \<le> n" "skip_string m (a + 1) = Some (a + 1 + of_nat k + 1)" by blast
    with False show ?thesis by (subst skip_string.simps) (auto intro!: exI [of _ "Suc k"] simp: algebra_simps)
  qed
qed

text \<open>C40. Termination of \<open>strlen\<close>. On a pointer that is not \<open>NULL\<close> it returns exactly when the memory holds
  a zero byte at all, and then the length is the distance to the first one; otherwise its loop runs
  around the address space forever.\<close>

theorem strlen_terminates:
  assumes "a \<noteq> NULL"
  shows "if \<exists>x. ld8 m x = 0
    then \<exists>n. strlen m a = Ok n m \<and> ld8 m (a + n) = 0 \<and> (\<forall>k < unat n. ld8 m (a + of_nat k) \<noteq> 0)
    else strlen m a = Diverge"
proof (cases "\<exists>x. ld8 m x = 0")
  case True
  then obtain x where x: "ld8 m x = 0" by blast
  define n where "n = (LEAST n. ld8 m (a + of_nat n) = 0)"
  have "ld8 m (a + of_nat (unat (x - a))) = 0" using x by simp
  then have n: "ld8 m (a + of_nat n) = 0" "n \<le> unat (x - a)"
    unfolding n_def by (rule LeastI, rule Least_le)
  have min: "ld8 m (a + of_nat k) \<noteq> 0" if "k < n" for k using that not_less_Least unfolding n_def by blast
  have u: "unat (of_nat n :: u32) = n" using n(2) unsigned_less [of "x - a", where ?'a = nat] by (intro unat_of_nat_u32) simp
  obtain k where k: "k \<le> n" "skip_string m a = Some (a + of_nat k + 1)" using skip_string_reaches [OF n(1)] by blast
  have "ld8 m (a + of_nat k) = 0" using skip_string_zero [OF k(2)] by simp
  then have "k = n" using min k(1) by (cases "k < n") auto
  then have "strlen m a = Ok (of_nat n) m" using k(2) assms by (simp add: strlen_def)
  then show ?thesis using True n(1) min u by (auto intro!: exI [of _ "of_nat n"])
next
  case False
  then have "skip_string m a = None" using skip_string_zero by (cases "skip_string m a") blast+
  then show ?thesis using False assms by (simp add: strlen_def)
qed

theorem strlen_terminates_witness: "\<exists>n. strlen demo_str 0x100 = Ok n demo_str \<and> ld8 demo_str (0x100 + n) = 0"
proof -
  have "ld8 demo_str 0x300 = 0" by (simp add: demo_str_def ld8_def st8_def)
  then show ?thesis using strlen_terminates [of "0x100" demo_str] by (auto split: if_splits)
qed

end
