(* ===== verification/Bitmap.thy ===== *)
theory Bitmap
  imports CString
begin

text \<open>
  \<open>lib/kernel/bitmap.c\<close>. A \<open>struct bitmap\<close> at address \<open>btmp\<close> is the byte count at
  offset 0 and a pointer to the bit array at offset 4. The operations read the array
  through that pointer, so reads past its end see the bytes that follow it in the store,
  as they do in C.
\<close>

section \<open>The operations\<close>

definition bitmap_bytes_len :: "mem \<Rightarrow> addr \<Rightarrow> u32" where
  "bitmap_bytes_len m btmp = ld32 m btmp"

definition bits :: "mem \<Rightarrow> addr \<Rightarrow> addr" where
  "bits m btmp = ld32 m (btmp + 4)"

definition BitmapInit :: "mem \<Rightarrow> addr \<Rightarrow> (mem, unit) outcome" where
  "BitmapInit m btmp = memset m (bits m btmp) 0 (bitmap_bytes_len m btmp)"

text \<open>The result is the masked byte as an \<open>int\<close>: non-zero exactly when the bit is set.\<close>

definition BitmapTestBit :: "mem \<Rightarrow> addr \<Rightarrow> u32 \<Rightarrow> u32" where
  "BitmapTestBit m btmp bit_idx =
     (let byte_idx = bit_idx div 8; bit_order = bit_idx mod 8
      in ucast (ld8 m (bits m btmp + byte_idx)) AND push_bit (unat bit_order) 1)"

text \<open>The three loops of \<open>BitmapScan\<close>.\<close>

function scan_bytes :: "mem \<Rightarrow> addr \<Rightarrow> u32 \<Rightarrow> u32" where
  "scan_bytes m btmp byte_idx =
     (if ld8 m (bits m btmp + byte_idx) = 0xFF \<and> byte_idx < bitmap_bytes_len m btmp
      then scan_bytes m btmp (byte_idx + 1) else byte_idx)"
  by pat_completeness auto
termination
  by (relation "measure (\<lambda>(m, btmp, i). unat (bitmap_bytes_len m btmp) - unat i)")
    (auto simp: unat_Suc_lt word_less_nat_alt)

declare scan_bytes.simps [simp del]

lemma ucast_shift_nonzero:
  "(ucast (push_bit n (1 :: u32)) :: u8) AND x \<noteq> 0 \<longleftrightarrow> n < 8 \<and> bit x n"
proof -
  have "(ucast (push_bit n (1 :: u32)) :: u8) AND x = 0 \<longleftrightarrow> (\<forall>k < 8. \<not> (k = n \<and> bit x k))"
    by (auto simp: bit_eq_iff bit_simps)
  then show ?thesis by auto
qed

lemma ucast_pow_nonzero:
  "(ucast ((2 :: u32) ^ n) :: u8) AND x \<noteq> 0 \<longleftrightarrow> n < 8 \<and> bit x n"
  using ucast_shift_nonzero [of n x] by simp

function scan_bits :: "u8 \<Rightarrow> u32 \<Rightarrow> u32" where
  "scan_bits byte bit_idx =
     (if (ucast (push_bit (unat bit_idx) (1 :: u32)) :: u8) AND byte \<noteq> 0
      then scan_bits byte (bit_idx + 1) else bit_idx)"
  by pat_completeness auto
termination
proof (relation "measure (\<lambda>(b, i). 8 - unat i)")
  fix b :: u8 and i :: u32
  assume "(ucast (push_bit (unat i) (1 :: u32)) :: u8) AND b \<noteq> 0"
  then have "unat i < 8" by (simp only: ucast_shift_nonzero)
  moreover from this have "unat (i + 1) = Suc (unat i)" by (simp add: unat_plus_lt)
  ultimately show "((b, i + 1), b, i) \<in> measure (\<lambda>(b, i). 8 - unat i)" by simp
qed simp

declare scan_bits.simps [simp del]

text \<open>\<open>while (bits_left-- > 0)\<close> runs \<open>bits_left\<close> times unless it returns first.\<close>

primrec scan_run :: "nat \<Rightarrow> mem \<Rightarrow> addr \<Rightarrow> u32 \<Rightarrow> u32 \<Rightarrow> u32 \<Rightarrow> u32" where
  "scan_run 0 m btmp cnt next_bit avl_bits_count = - 1"
| "scan_run (Suc bits_left) m btmp cnt next_bit avl_bits_count =
     (let avl_bits_count' =
        (if \<not> (BitmapTestBit m btmp next_bit \<noteq> 0) then avl_bits_count + 1 else 0)
      in if avl_bits_count' = cnt then next_bit - cnt + 1
         else scan_run bits_left m btmp cnt (next_bit + 1) avl_bits_count')"

definition BitmapScan :: "mem \<Rightarrow> addr \<Rightarrow> u32 \<Rightarrow> (mem, u32) outcome" where
  "BitmapScan m btmp cnt =
     (let byte_idx = scan_bytes m btmp 0 in
      ASSERT ''BitmapScan'' ''byte_idx < btmp->bitmap_bytes_len''
        (byte_idx < bitmap_bytes_len m btmp)
        (if byte_idx \<ge> bitmap_bytes_len m btmp then Ok (- 1) m
         else
           let bit_idx = scan_bits (ld8 m (bits m btmp + byte_idx)) 0;
               bit_idx_start = byte_idx * 8 + bit_idx
           in if cnt = 1 then Ok bit_idx_start m
              else
                let bits_left = bitmap_bytes_len m btmp * 8 - bit_idx_start;
                    next_bit = bit_idx_start + 1
                in Ok (scan_run (unat bits_left) m btmp cnt next_bit 1) m))"

definition BitmapSetBit :: "mem \<Rightarrow> addr \<Rightarrow> u32 \<Rightarrow> u8 \<Rightarrow> (mem, unit) outcome" where
  "BitmapSetBit m btmp bit_idx value =
     ASSERT ''BitmapSetBit'' ''(value == 0) || (value == 1)'' (value = 0 \<or> value = 1)
       (let byte_idx = bit_idx div 8; bit_order = bit_idx mod 8;
            a = bits m btmp + byte_idx; mask = ucast (push_bit (unat bit_order) (1 :: u32))
        in Ok () (if value \<noteq> 0 then st8 m a (ld8 m a OR mask)
                  else st8 m a (ld8 m a AND NOT mask)))"

section \<open>The bitmap as a set of bit numbers\<close>

definition bm :: "mem \<Rightarrow> addr \<Rightarrow> nat \<Rightarrow> bool" where
  "bm m btmp i \<longleftrightarrow> bit (ld8 m (bits m btmp + of_nat (i div 8))) (i mod 8)"

definition bm_size :: "mem \<Rightarrow> addr \<Rightarrow> nat" where
  "bm_size m btmp = unat (bitmap_bytes_len m btmp) * 8"

text \<open>
  Well-formed: bit numbers fit in a positive \<open>int\<close> (the type of the result of
  \<open>BitmapScan\<close>), and the structure is not part of its own bit array.
\<close>

definition bitmap_wf :: "mem \<Rightarrow> addr \<Rightarrow> bool" where
  "bitmap_wf m btmp \<longleftrightarrow> unat (bitmap_bytes_len m btmp) < 2 ^ 28
     \<and> sep (bits m btmp) (unat (bitmap_bytes_len m btmp)) btmp 8"

lemma bm_size_bound: "bitmap_wf m btmp \<Longrightarrow> bm_size m btmp < 2 ^ 31"
  by (simp add: bitmap_wf_def bm_size_def)

lemma word_div_mod_8:
  "unat (i div 8 :: u32) = unat i div 8" "unat (i mod 8 :: u32) = unat i mod 8"
  by (simp_all add: unat_div unat_mod)

lemma of_nat_div_8: "n < 2 ^ 32 \<Longrightarrow> (of_nat n :: u32) div 8 = of_nat (n div 8)"
  by (simp add: word_unat_eq_iff word_div_mod_8)

lemma BitmapTestBit_bm: "BitmapTestBit m btmp i \<noteq> 0 \<longleftrightarrow> bm m btmp (unat i)"
proof -
  have eq: "of_nat (unat i div 8) = i div 8"
    using unsigned_less [of i, where ?'a = nat]
    by (simp add: word_unat_eq_iff word_div_mod_8)
  have n: "unat i mod 8 < 8" by simp
  have "(ucast x AND push_bit n 1 :: u32) \<noteq> 0 \<longleftrightarrow> bit (x :: u8) n" if "n < 8" for x n
  proof -
    have "bit (ucast x AND push_bit n 1 :: u32) k \<longleftrightarrow> k = n \<and> bit x n" for k
      using that by (auto simp: bit_simps)
    then show ?thesis
      by (metis bit_0_eq bit_word_eqI bot_apply bot_bool_def)
  qed
  then show ?thesis
    using n by (simp add: BitmapTestBit_def bm_def eq word_div_mod_8 Let_def)
qed

lemma scan_bits_spec: "scan_bits b i = j \<Longrightarrow> unat i \<le> 8 \<Longrightarrow> (\<forall>k < unat i. bit b k) \<Longrightarrow>
  unat j \<le> 8 \<and> (\<forall>k < unat j. bit b k) \<and> (unat j < 8 \<longrightarrow> \<not> bit b (unat j))"
proof (induction b i rule: scan_bits.induct)
  case (1 b i)
  show ?case
  proof (cases "unat i < 8 \<and> bit b (unat i)")
    case True
    then have u: "unat (i + 1) = Suc (unat i)" by (simp add: unat_plus_lt)
    have "scan_bits b (i + 1) = j"
      using "1.prems"(1) True by (simp add: scan_bits.simps [of b i] ucast_pow_nonzero)
    moreover have "(ucast (push_bit (unat i) (1 :: u32)) :: u8) AND b \<noteq> 0"
      using True by (simp only: ucast_shift_nonzero)
    ultimately show ?thesis
      using "1.IH" "1.prems" True u by (auto simp: less_Suc_eq)
  next
    case False
    then have "j = i"
      using "1.prems"(1) by (auto simp: scan_bits.simps [of b i] ucast_pow_nonzero)
    with False "1.prems" show ?thesis by auto
  qed
qed

lemma byte_full: "(b :: u8) = 0xFF \<longleftrightarrow> (\<forall>k < 8. bit b k)"
proof -
  have "(0xFF :: u8) = - 1" by simp
  then show ?thesis
    by (simp only: bit_eq_iff) (auto simp: bit_imp_le_length)
qed

lemma scan_bytes_spec:
  assumes "scan_bytes m btmp i = j" "i \<le> bitmap_bytes_len m btmp"
    "\<forall>k < unat i. ld8 m (bits m btmp + of_nat k) = 0xFF"
  shows "j \<le> bitmap_bytes_len m btmp \<and> (\<forall>k < unat j. ld8 m (bits m btmp + of_nat k) = 0xFF)
    \<and> (j < bitmap_bytes_len m btmp \<longrightarrow> ld8 m (bits m btmp + j) \<noteq> 0xFF)"
  using assms
proof (induction m btmp i rule: scan_bytes.induct)
  case (1 m btmp i)
  show ?case
  proof (cases "ld8 m (bits m btmp + i) = 0xFF \<and> i < bitmap_bytes_len m btmp")
    case True
    then have u: "unat (i + 1) = Suc (unat i)" using unat_Suc_lt by blast
    moreover have "i + 1 \<le> bitmap_bytes_len m btmp"
      using True u by (simp add: word_le_nat_alt word_less_nat_alt)
    moreover have "scan_bytes m btmp (i + 1) = j"
      using "1.prems"(1) True by (simp add: scan_bytes.simps [of m btmp i])
    ultimately show ?thesis
      using "1.IH" [OF True] "1.prems"(3) True by (simp add: less_Suc_eq)
  next
    case False
    then have "j = i"
      using "1.prems"(1) by (auto simp: scan_bytes.simps [of m btmp i])
    with False "1.prems" show ?thesis by auto
  qed
qed

lemma bm_byte: "k < 8 \<Longrightarrow> bm m btmp (8 * j + k) \<longleftrightarrow> bit (ld8 m (bits m btmp + of_nat j)) k"
  by (simp add: bm_def)

text \<open>The first two loops find the lowest clear bit, if there is one.\<close>

definition first_free :: "mem \<Rightarrow> addr \<Rightarrow> nat \<Rightarrow> bool" where
  "first_free m btmp i \<longleftrightarrow> i < bm_size m btmp \<and> \<not> bm m btmp i \<and> (\<forall>k < i. bm m btmp k)"

lemma scan_start:
  assumes "bitmap_wf m btmp" "scan_bytes m btmp 0 = j" "j < bitmap_bytes_len m btmp"
    and "scan_bits (ld8 m (bits m btmp + j)) 0 = b"
  shows "first_free m btmp (unat (j * 8 + b))" "unat (j * 8 + b) = 8 * unat j + unat b"
proof -
  let ?byte = "ld8 m (bits m btmp + j)"
  have bytes: "\<forall>k < unat j. ld8 m (bits m btmp + of_nat k) = 0xFF" "?byte \<noteq> 0xFF"
    using scan_bytes_spec [OF assms(2)] assms(3) by auto
  have b: "unat b \<le> 8" "\<forall>k < unat b. bit ?byte k" "unat b < 8 \<longrightarrow> \<not> bit ?byte (unat b)"
    using scan_bits_spec [OF assms(4)] by auto
  then have b8: "unat b < 8" "\<not> bit ?byte (unat b)"
    using bytes(2) byte_full [of ?byte] by (auto simp: le_less)
  have "unat j < 2 ^ 28"
    using assms(1,3) by (simp add: bitmap_wf_def word_less_nat_alt)
  then show u: "unat (j * 8 + b) = 8 * unat j + unat b"
    using b(1) by (simp add: unat_plus_lt unat_mult_lt)
  have "bm m btmp k" if "k < 8 * unat j + unat b" for k
  proof (cases "k div 8 = unat j")
    case True
    then have "k = 8 * unat j + k mod 8" by (metis mult_div_mod_eq)
    moreover from this that have "k mod 8 < unat b" by linarith
    ultimately show ?thesis
      using b(2) bm_byte [of "k mod 8" m btmp "unat j"] by simp
  next
    case False
    with that b8 have "k div 8 < unat j" by linarith
    with bytes(1) show ?thesis
      by (simp add: bm_def byte_full)
  qed
  moreover have "\<not> bm m btmp (8 * unat j + unat b)"
    using b8 by (simp add: bm_byte)
  moreover have "8 * unat j + unat b < bm_size m btmp"
    using assms(3) b8 by (simp add: bm_size_def word_less_nat_alt)
  ultimately show "first_free m btmp (unat (j * 8 + b))"
    by (simp add: u first_free_def)
qed

lemma scan_bytes_full:
  "scan_bytes m btmp 0 < bitmap_bytes_len m btmp \<longleftrightarrow> (\<exists>i < bm_size m btmp. \<not> bm m btmp i)"
proof -
  let ?j = "scan_bytes m btmp 0"
  have j: "?j \<le> bitmap_bytes_len m btmp"
    "\<forall>k < unat ?j. ld8 m (bits m btmp + of_nat k) = 0xFF"
    "?j < bitmap_bytes_len m btmp \<longrightarrow> ld8 m (bits m btmp + ?j) \<noteq> 0xFF"
    using scan_bytes_spec [of m btmp 0 ?j] by auto
  show ?thesis
  proof
    assume l: "?j < bitmap_bytes_len m btmp"
    with j(3) obtain k where "k < 8" "\<not> bit (ld8 m (bits m btmp + ?j)) k"
      by (auto simp: byte_full)
    then have "\<not> bm m btmp (8 * unat ?j + k)" "8 * unat ?j + k < bm_size m btmp"
      using l by (simp_all add: bm_byte bm_size_def word_less_nat_alt)
    then show "\<exists>i < bm_size m btmp. \<not> bm m btmp i" by blast
  next
    assume "\<exists>i < bm_size m btmp. \<not> bm m btmp i"
    then obtain i where i: "i < bm_size m btmp" "\<not> bm m btmp i" by blast
    have "\<not> i div 8 < unat ?j"
      using i(2) j(2) by (auto simp: bm_def byte_full)
    moreover have "i div 8 < unat (bitmap_bytes_len m btmp)"
      using i(1) by (simp add: bm_size_def less_mult_imp_div_less)
    ultimately show "?j < bitmap_bytes_len m btmp"
      by (simp add: word_less_nat_alt)
  qed
qed

section \<open>First fit\<close>

text \<open>Specification: the least start of \<open>cnt\<close> clear bits within the first \<open>n\<close> bits.\<close>

definition run_free :: "(nat \<Rightarrow> bool) \<Rightarrow> nat \<Rightarrow> nat \<Rightarrow> bool" where
  "run_free f cnt r \<longleftrightarrow> (\<forall>j < cnt. \<not> f (r + j))"

lemma run_free_code [code]: "run_free f cnt r \<longleftrightarrow> list_all (\<lambda>j. \<not> f (r + j)) [0..<cnt]"
  by (auto simp: run_free_def list_all_iff)

definition first_run :: "(nat \<Rightarrow> bool) \<Rightarrow> nat \<Rightarrow> nat \<Rightarrow> nat option" where
  "first_run f cnt n = List.find (run_free f cnt) [0..<n + 1 - cnt]"

lemma first_run_Some:
  "first_run f cnt n = Some r \<longleftrightarrow>
     r < n + 1 - cnt \<and> run_free f cnt r \<and> (\<forall>r' < r. \<not> run_free f cnt r')"
  by (auto simp: first_run_def find_Some_iff)

lemma first_run_None:
  "first_run f cnt n = None \<longleftrightarrow> (\<forall>r < n + 1 - cnt. \<not> run_free f cnt r)"
  by (auto simp: first_run_def find_None_iff)

text \<open>
  The invariant of the counting loop before bit \<open>nb\<close> is tested: the last \<open>a\<close> bits are
  clear, the one before them is not, and no run of \<open>cnt\<close> bits ends before \<open>nb\<close>.
\<close>

definition run_inv :: "(nat \<Rightarrow> bool) \<Rightarrow> nat \<Rightarrow> nat \<Rightarrow> nat \<Rightarrow> bool" where
  "run_inv f cnt nb a \<longleftrightarrow> a < cnt \<and> a \<le> nb \<and> (\<forall>j. nb - a \<le> j \<and> j < nb \<longrightarrow> \<not> f j)
     \<and> (a < nb \<longrightarrow> f (nb - a - 1)) \<and> first_run f cnt nb = None"

lemma run_inv_used:
  assumes "run_inv f cnt nb a" "f nb"
  shows "run_inv f cnt (Suc nb) 0"
proof -
  have "\<not> run_free f cnt r" if "r < Suc nb + 1 - cnt" for r
  proof (cases "r + cnt \<le> nb")
    case True
    with assms(1) show ?thesis by (auto simp: run_inv_def first_run_None)
  next
    case False
    with that have "r + (cnt - 1) = nb" "cnt - 1 < cnt"
      using assms(1) by (auto simp: run_inv_def)
    with assms(2) show ?thesis by (metis run_free_def)
  qed
  then show ?thesis
    using assms by (auto simp: run_inv_def first_run_None)
qed

lemma run_inv_clear:
  assumes inv: "run_inv f cnt nb a" and "\<not> f nb" "Suc a < cnt"
  shows "run_inv f cnt (Suc nb) (Suc a)"
proof -
  have "\<not> run_free f cnt r" if r: "r < Suc nb + 1 - cnt" for r
  proof (cases "r + cnt \<le> nb")
    case True
    with inv show ?thesis by (auto simp: run_inv_def first_run_None)
  next
    case False
    with r have eq: "r + cnt = Suc nb" by auto
    with assms(3) have "a < nb" "r \<le> nb - a - 1" "nb - a - 1 - r < cnt" by auto
    moreover from this inv have "f (r + (nb - a - 1 - r))" by (simp add: run_inv_def)
    ultimately show ?thesis unfolding run_free_def by blast
  qed
  then show ?thesis
    using assms by (auto simp: run_inv_def first_run_None less_Suc_eq)
qed

lemma run_inv_found:
  assumes inv: "run_inv f cnt nb a" and "\<not> f nb" "Suc a = cnt"
  shows "first_run f cnt (Suc nb + k) = Some (Suc nb - cnt)"
proof -
  have "\<not> f (Suc nb - cnt + j)" if "j < cnt" for j
  proof (cases "j = a")
    case False
    with assms that have "nb - a \<le> Suc nb - cnt + j \<and> Suc nb - cnt + j < nb"
      by (auto simp: run_inv_def)
    with inv show ?thesis unfolding run_inv_def by blast
  qed (use assms in \<open>auto simp: run_inv_def\<close>)
  then have "run_free f cnt (Suc nb - cnt)" by (simp add: run_free_def)
  moreover have "\<not> run_free f cnt r" if "r < Suc nb - cnt" for r
    using that inv by (auto simp: run_inv_def first_run_None)
  ultimately show ?thesis
    using assms by (auto simp: first_run_Some run_inv_def)
qed

lemma scan_run_first_run:
  assumes "run_inv (bm m btmp) (unat cnt) nb (unat avl)" "unat nxt = nb" "2 \<le> unat cnt"
    and "nb + k < 2 ^ 32"
  shows "scan_run k m btmp cnt nxt avl =
    (case first_run (bm m btmp) (unat cnt) (nb + k) of None \<Rightarrow> - 1 | Some r \<Rightarrow> of_nat r)"
  using assms
proof (induction k arbitrary: nb nxt avl)
  case 0
  then show ?case by (simp add: run_inv_def)
next
  case (Suc k)
  have a: "unat avl < unat cnt" using Suc.prems(1) by (simp add: run_inv_def)
  then have a1: "unat (avl + 1) = Suc (unat avl)"
    by (simp add: unat_Suc_lt word_less_nat_alt)
  have n1: "unat (nxt + 1) = Suc nb"
    using Suc.prems(2,4) by (simp add: unat_plus_lt)
  have t: "BitmapTestBit m btmp nxt \<noteq> 0 \<longleftrightarrow> bm m btmp nb"
    by (simp add: BitmapTestBit_bm Suc.prems(2))
  consider "bm m btmp nb" | "\<not> bm m btmp nb" "Suc (unat avl) < unat cnt"
    | "\<not> bm m btmp nb" "Suc (unat avl) = unat cnt"
    using a by linarith
  then show ?case
  proof cases
    case 1
    then have "run_inv (bm m btmp) (unat cnt) (Suc nb) (unat (0 :: u32))"
      using run_inv_used Suc.prems(1) by simp
    with Suc.IH [OF this n1 Suc.prems(3)] Suc.prems(3,4) 1 t show ?thesis
      by (auto simp: Let_def)
  next
    case 2
    then have "run_inv (bm m btmp) (unat cnt) (Suc nb) (unat (avl + 1))"
      using run_inv_clear [OF Suc.prems(1)] a1 by simp
    moreover have "avl + 1 \<noteq> cnt" using 2 a1 by auto
    ultimately show ?thesis
      using Suc.IH [OF _ n1 Suc.prems(3)] Suc.prems(4) 2 t by (simp add: Let_def)
  next
    case 3
    then have "avl + 1 = cnt" using a1 by (simp add: word_unat_eq_iff)
    moreover have "Suc nb - unat cnt = unat (nxt - cnt + 1)"
    proof -
      have "unat cnt \<le> Suc nb" using 3 Suc.prems(1) by (simp add: run_inv_def)
      then have "cnt \<le> nxt + 1" using n1 by (simp add: word_le_nat_alt)
      then have "unat (nxt + 1 - cnt) = Suc nb - unat cnt"
        using n1 by (simp add: unat_minus_le)
      then show ?thesis by (simp add: algebra_simps)
    qed
    ultimately show ?thesis
      using run_inv_found [OF Suc.prems(1) 3, of k] 3 t by (simp add: Let_def)
  qed
qed

lemma run_inv_start:
  assumes "first_free m btmp i" "2 \<le> cnt"
  shows "run_inv (bm m btmp) cnt (Suc i) 1"
proof -
  have "\<not> run_free (bm m btmp) cnt r" if "r < Suc i + 1 - cnt" for r
  proof -
    have "bm m btmp (r + 0)" using that assms by (simp add: first_free_def)
    with assms(2) show ?thesis unfolding run_free_def by force
  qed
  then show ?thesis
    using assms by (auto simp: run_inv_def first_run_None first_free_def le_less_Suc_eq)
qed

lemma first_run_one: "first_free m btmp i \<Longrightarrow> first_run (bm m btmp) 1 (bm_size m btmp) = Some i"
  by (auto simp: first_run_Some first_free_def run_free_def)

text \<open>
  What \<open>BitmapScan\<close> computes, exactly. For a single bit the search window is the bitmap;
  for longer runs it is one bit larger than the bitmap, because the loop tests
  \<open>bits_left\<close> further bits after having counted the first one.
\<close>

definition scan_window :: "mem \<Rightarrow> addr \<Rightarrow> u32 \<Rightarrow> nat" where
  "scan_window m btmp cnt = (if cnt = 1 then bm_size m btmp else bm_size m btmp + 1)"

lemma BitmapScan_eq:
  assumes wf: "bitmap_wf m btmp" and "cnt \<noteq> 0"
  shows "BitmapScan m btmp cnt =
    (if \<exists>i < bm_size m btmp. \<not> bm m btmp i
     then Ok (case first_run (bm m btmp) (unat cnt) (scan_window m btmp cnt) of
                None \<Rightarrow> - 1 | Some r \<Rightarrow> of_nat r) m
     else Panic ''BitmapScan'' ''byte_idx < btmp->bitmap_bytes_len'')"
proof (cases "\<exists>i < bm_size m btmp. \<not> bm m btmp i")
  case False
  then have "\<not> scan_bytes m btmp 0 < bitmap_bytes_len m btmp"
    using scan_bytes_full [of m btmp] by blast
  with False show ?thesis by (simp add: BitmapScan_def)
next
  case True
  define j where "j = scan_bytes m btmp 0"
  define b where "b = scan_bits (ld8 m (bits m btmp + j)) 0"
  have j: "j < bitmap_bytes_len m btmp"
    using True by (simp add: j_def scan_bytes_full)
  have ff: "first_free m btmp (unat (j * 8 + b))"
    using scan_start [OF wf j_def [symmetric] j b_def [symmetric]] by blast
  let ?i = "j * 8 + b"
  have sz: "unat (bitmap_bytes_len m btmp * 8) = bm_size m btmp" "bm_size m btmp < 2 ^ 31"
    using wf by (simp_all add: bm_size_def bitmap_wf_def unat_mult_lt)
  have scan: "BitmapScan m btmp cnt = (if cnt = 1 then Ok ?i m
      else Ok (scan_run (unat (bitmap_bytes_len m btmp * 8 - ?i)) m btmp cnt (?i + 1) 1) m)"
    using j not_le [of "bitmap_bytes_len m btmp" j]
    by (simp add: BitmapScan_def Let_def j_def b_def)
  show ?thesis
  proof (cases "cnt = 1")
    case one: True
    then show ?thesis
      using True scan first_run_one [OF ff] by (auto simp: scan_window_def)
  next
    case False
    have "1 < unat cnt"
      using assms(2) False by (metis less_one nat_neq_iff unat_0_iff unsigned_1 word_unat_eq_iff)
    moreover have il: "unat ?i < bm_size m btmp" using ff by (simp add: first_free_def)
    moreover have "unat (?i + 1) = Suc (unat ?i)"
      using il sz by (simp add: unat_plus_lt)
    moreover have "unat (bitmap_bytes_len m btmp * 8 - ?i) = bm_size m btmp - unat ?i"
      using il sz by (simp add: unat_minus_le word_le_nat_alt)
    moreover have "run_inv (bm m btmp) (unat cnt) (Suc (unat ?i)) (unat (1 :: u32))"
      using run_inv_start [OF ff, of "unat cnt"] \<open>1 < unat cnt\<close> by simp
    ultimately show ?thesis
      using scan_run_first_run [of m btmp cnt "Suc (unat ?i)" 1 "?i + 1" "bm_size m btmp - unat ?i"]
        scan True False sz by (simp add: scan_window_def)
  qed
qed

section \<open>Setting and clearing bits\<close>

definition set_bit_of :: "u8 \<Rightarrow> nat \<Rightarrow> bool \<Rightarrow> u8" where
  "set_bit_of b n v = (if v then b OR push_bit n 1 else b AND NOT (push_bit n 1))"

lemma bit_set_bit_of: "n < 8 \<Longrightarrow> k < 8 \<Longrightarrow> bit (set_bit_of b n v) k = (if k = n then v else bit b k)"
  by (auto simp: set_bit_of_def bit_simps)

lemma ucast_pow_u8: "n < 8 \<Longrightarrow> (ucast (push_bit n (1 :: u32)) :: u8) = push_bit n 1"
  by (rule bit_word_eqI) (auto simp: bit_simps)

lemma BitmapSetBit_eq:
  assumes "value = 0 \<or> value = 1"
  shows "BitmapSetBit m btmp i value =
    Ok () (st8 m (bits m btmp + i div 8)
      (set_bit_of (ld8 m (bits m btmp + i div 8)) (unat i mod 8) (value = 1)))"
proof -
  have "unat i mod 8 < 8" by simp
  then have "(ucast (push_bit (unat i mod 8) (1 :: u32)) :: u8) = push_bit (unat i mod 8) 1"
    by (rule ucast_pow_u8)
  with assms show ?thesis
    by (auto simp: BitmapSetBit_def set_bit_of_def word_div_mod_8 Let_def)
qed

text \<open>The frame of a bitmap: nothing it reads changes when its structure and array do not.\<close>

lemma bitmap_frame:
  assumes "eq_on m m' btmp 8"
  shows "bits m btmp = bits m' btmp" "bitmap_bytes_len m btmp = bitmap_bytes_len m' btmp"
proof -
  have "eq_on m m' btmp 4" "eq_on m m' (btmp + 4) 4"
    using assms inr_part [of _ btmp 4 4 8] inr_part [of _ btmp 0 4 8] by (auto simp: eq_on_def)
  then show "bits m btmp = bits m' btmp" "bitmap_bytes_len m btmp = bitmap_bytes_len m' btmp"
    by (simp_all add: bits_def bitmap_bytes_len_def ld32_cong)
qed

lemma bm_frame:
  assumes "eq_on m m' btmp 8" "eq_on m m' (bits m btmp) (unat (bitmap_bytes_len m btmp))"
    and "i < bm_size m btmp"
  shows "bm m btmp i = bm m' btmp i"
proof -
  have "i div 8 < unat (bitmap_bytes_len m btmp)"
    using assms(3) by (simp add: bm_size_def less_mult_imp_div_less)
  moreover from this have "i div 8 < 2 ^ 32"
    using unsigned_less [of "bitmap_bytes_len m btmp", where ?'a = nat] by simp
  ultimately have "inr (bits m btmp + of_nat (i div 8)) (bits m btmp) (unat (bitmap_bytes_len m btmp))"
    by (simp add: inr_offset)
  with assms(2) show ?thesis
    by (simp add: bm_def ld8_def eq_on_def bitmap_frame(1) [OF assms(1)])
qed

lemma BitmapSetBit_effect:
  assumes wf: "bitmap_wf m btmp" and i: "unat i < bm_size m btmp" and v: "v = 0 \<or> v = 1"
  obtains m' where "BitmapSetBit m btmp i v = Ok () m'"
    and "only_in m m' (bits m btmp) (unat (bitmap_bytes_len m btmp))"
    and "eq_on m' m btmp 8" "bitmap_wf m' btmp" "bm_size m' btmp = bm_size m btmp"
    and "\<And>k. k < 2 ^ 32 \<Longrightarrow> bm m' btmp k = (if k = unat i then v = 1 else bm m btmp k)"
proof -
  let ?a = "bits m btmp + i div 8"
  define m' where "m' = st8 m ?a (set_bit_of (ld8 m ?a) (unat i mod 8) (v = 1))"
  have ib: "unat (i div 8) < unat (bitmap_bytes_len m btmp)"
    using i by (simp add: bm_size_def word_div_mod_8 less_mult_imp_div_less)
  have only: "only_in m m' (bits m btmp) (unat (bitmap_bytes_len m btmp))"
    using ib only_in_part [OF only_in_st8 [of m ?a]]
    by (simp add: m'_def Suc_leI)
  then have eq: "eq_on m' m btmp 8"
    using wf by (auto simp: bitmap_wf_def intro: only_in_sep)
  note same = bitmap_frame [OF eq]
  have l: "ld8 m' (bits m btmp + x) = (if x = i div 8
      then set_bit_of (ld8 m ?a) (unat i mod 8) (v = 1) else ld8 m (bits m btmp + x))" for x
    by (simp add: m'_def ld8_def st8_def)
  have k: "bm m' btmp k = (if k = unat i then v = 1 else bm m btmp k)" if "k < 2 ^ 32" for k
  proof (cases "k div 8 = unat i div 8")
    case True
    then have "of_nat (k div 8) = i div 8"
      using that by (simp add: word_unat_eq_iff word_div_mod_8)
    moreover have "k = unat i \<longleftrightarrow> k mod 8 = unat i mod 8"
      using True by (metis mult_div_mod_eq)
    ultimately show ?thesis
      by (simp add: bm_def same l bit_set_bit_of)
  next
    case False
    then have "of_nat (k div 8) \<noteq> i div 8"
      using that by (simp add: word_unat_eq_iff word_div_mod_8)
    with False show ?thesis
      by (auto simp: bm_def same l)
  qed
  moreover have "BitmapSetBit m btmp i v = Ok () m'"
    using BitmapSetBit_eq [OF v] by (simp add: m'_def)
  moreover have "bitmap_wf m' btmp" "bm_size m' btmp = bm_size m btmp"
    using wf same by (simp_all add: bitmap_wf_def bm_size_def)
  ultimately show ?thesis
    using that only eq by blast
qed

section \<open>Properties\<close>

text \<open>Searching one bit (the only use by the physical-page allocator). On a well-formed
  bitmap \<open>BitmapScan(btmp, 1)\<close> returns the least clear bit of the bitmap; when every bit is
  set, the assertion after the byte search stops the kernel, so -1 is never returned.\<close>

theorem BitmapScan_one:
  assumes "bitmap_wf m btmp"
  shows "case List.find (\<lambda>i. \<not> bm m btmp i) [0..<bm_size m btmp] of
      Some i \<Rightarrow> BitmapScan m btmp 1 = Ok (of_nat i) m
    | None \<Rightarrow> BitmapScan m btmp 1 = Panic ''BitmapScan'' ''byte_idx < btmp->bitmap_bytes_len''"
proof -
  have "run_free (bm m btmp) 1 = (\<lambda>i. \<not> bm m btmp i)"
    by (rule ext) (simp add: run_free_def)
  then have "first_run (bm m btmp) 1 (bm_size m btmp) = List.find (\<lambda>i. \<not> bm m btmp i) [0..<bm_size m btmp]"
    by (simp add: first_run_def)
  note fr = this
  have ex: "(\<exists>i < bm_size m btmp. \<not> bm m btmp i)
      \<longleftrightarrow> List.find (\<lambda>i. \<not> bm m btmp i) [0..<bm_size m btmp] \<noteq> None"
    unfolding find_None_iff by auto
  show ?thesis
    using BitmapScan_eq [OF assms, of 1]
    unfolding ex by (cases "List.find (\<lambda>i. \<not> bm m btmp i) [0..<bm_size m btmp]")
      (simp_all add: scan_window_def fr [unfolded One_nat_def])
qed

text \<open>C38. Searching a run. For two bits or more the result is the least start of a run of
  clear bits among the bits of the bitmap and the one bit after it: every run inside the
  bitmap is found first-fit, a result other than -1 is a run of clear bits in memory, but a
  run may use the bit one past the end, which is not part of the bitmap.\<close>

theorem BitmapScan_run:
  assumes "bitmap_wf m btmp" "1 < cnt" "\<not> bm m btmp i" "i < bm_size m btmp"
  shows "BitmapScan m btmp cnt = Ok (case first_run (bm m btmp) (unat cnt) (bm_size m btmp + 1) of
      None \<Rightarrow> - 1 | Some r \<Rightarrow> of_nat r) m"
proof -
  have "cnt \<noteq> 0" "cnt \<noteq> 1" using assms(2) by auto
  then show ?thesis
    using BitmapScan_eq [OF assms(1), of cnt] assms(3,4) by (auto simp: scan_window_def)
qed

text \<open>A bitmap of one byte, with bits 0 to 6 set and the byte after it zero.\<close>

definition demo_bitmap :: mem where
  "demo_bitmap = st8 (st32 (st32 (\<lambda>_. 0) 0x100 1) 0x104 0x200) 0x200 0x7F"

lemma demo_bitmap_wf: "bitmap_wf demo_bitmap 0x100"
  by (simp add: bitmap_wf_def demo_bitmap_def bits_def bitmap_bytes_len_def sep_def)

theorem BitmapScan_one_witness: "BitmapScan demo_bitmap 0x100 1 = Ok 7 demo_bitmap"
proof -
  have "List.find (\<lambda>i. \<not> bm demo_bitmap 0x100 i) [0..<bm_size demo_bitmap 0x100] = Some 7"
    by code_simp
  with BitmapScan_one [OF demo_bitmap_wf] show ?thesis by simp
qed

text \<open>The run found starts at bit 7 and its second bit is bit 8 of a bitmap of 8 bits.\<close>

theorem BitmapScan_run_witness:
  "BitmapScan demo_bitmap 0x100 2 = Ok 7 demo_bitmap \<and> bm_size demo_bitmap 0x100 = 8"
proof -
  have "first_run (bm demo_bitmap 0x100) 2 (bm_size demo_bitmap 0x100 + 1) = Some 7"
    by code_simp
  moreover have "\<not> bm demo_bitmap 0x100 7" by code_simp
  moreover have "7 < bm_size demo_bitmap 0x100" "bm_size demo_bitmap 0x100 = 8"
    by code_simp+
  ultimately show ?thesis
    using BitmapScan_run [OF demo_bitmap_wf, of 2 7] by simp
qed

text \<open>\<open>BitmapSetBit\<close> with value 0 or 1 changes exactly the named bit: after it
  \<open>BitmapTestBit\<close> of every bit number gives the new value for that bit and the old one for
  the others, the bitmap stays well-formed, and no byte outside the bit array changes.\<close>

theorem BitmapSetBit_test:
  assumes "bitmap_wf m btmp" "unat i < bm_size m btmp" "v = 0 \<or> v = 1"
  shows "\<exists>m'. BitmapSetBit m btmp i v = Ok () m' \<and> bitmap_wf m' btmp
    \<and> (\<forall>k. (BitmapTestBit m' btmp k \<noteq> 0) = (if k = i then v = 1 else BitmapTestBit m btmp k \<noteq> 0))
    \<and> only_in m m' (bits m btmp) (unat (bitmap_bytes_len m btmp))"
proof (rule BitmapSetBit_effect [OF assms])
  fix m' assume m': "BitmapSetBit m btmp i v = Ok () m'" "bitmap_wf m' btmp"
    "only_in m m' (bits m btmp) (unat (bitmap_bytes_len m btmp))"
    "\<And>k. k < 2 ^ 32 \<Longrightarrow> bm m' btmp k = (if k = unat i then v = 1 else bm m btmp k)"
  have "bm m' btmp (unat k) = (if k = i then v = 1 else bm m btmp (unat k))" for k :: u32
    using m'(4) [of "unat k"] unsigned_less [of k, where ?'a = nat]
    by (simp add: word_unat_eq_iff)
  with m'(1-3) show ?thesis by (simp add: BitmapTestBit_bm)
qed

theorem BitmapSetBit_test_witness:
  "\<exists>m'. BitmapSetBit demo_bitmap 0x100 7 1 = Ok () m' \<and> bitmap_wf m' 0x100
    \<and> (\<forall>k. (BitmapTestBit m' 0x100 k \<noteq> 0) =
         (if k = 7 then (1 :: u8) = 1 else BitmapTestBit demo_bitmap 0x100 k \<noteq> 0))
    \<and> only_in demo_bitmap m' (bits demo_bitmap 0x100) (unat (bitmap_bytes_len demo_bitmap 0x100))"
proof (rule BitmapSetBit_test [OF demo_bitmap_wf])
  show "unat (7 :: u32) < bm_size demo_bitmap 0x100" by code_simp
qed simp

end
