(* ===== verification/Print.thy ===== *)
theory Print
  imports Machine CString "HOL-Library.Signed_Division"
begin

text \<open>
  \<open>lib/kernel/print.c\<close>: decimal and hexadecimal output. The character device
  (\<open>sys_putchar\<close> of \<open>print_asm.S\<close>, the VGA text console) is the append-only sequence of
  bytes handed to it, the field \<open>screen\<close>. A local \<open>char\<close> array that is filled from index 0
  is the list of the bytes written so far.
\<close>

section \<open>Characters and strings\<close>

definition sys_putchar :: "kstate \<Rightarrow> u8 \<Rightarrow> kstate" where
  "sys_putchar s c = s\<lparr>screen := screen s @ [c]\<rparr>"

text \<open>\<open>sys_putstr\<close>: characters up to the terminating zero; the result counts them.\<close>

partial_function (option) sys_putstr_loop ::
  "kstate \<Rightarrow> addr \<Rightarrow> u32 \<Rightarrow> (kstate, u32) outcome option" where
  "sys_putstr_loop s ebx eax =
     (if ld8 (mem s) ebx = 0 then Some (Ok eax s)
      else sys_putstr_loop (sys_putchar s (ld8 (mem s) ebx)) (ebx + 1) (eax + 1))"

definition sys_putstr :: "kstate \<Rightarrow> addr \<Rightarrow> (kstate, u32) outcome" where
  "sys_putstr s str = of_loop (sys_putstr_loop s str 0)"

text \<open>\<open>sys_putstr\<close> of a local array or a string literal, given by its bytes.\<close>

definition putbytes :: "kstate \<Rightarrow> u8 list \<Rightarrow> (kstate, u32) outcome" where
  "putbytes s bs = Ok (of_nat (length bs)) (s\<lparr>screen := screen s @ bs\<rparr>)"

definition ascii :: "string \<Rightarrow> u8 list" where
  "ascii str = map of_char str"

definition putlit :: "kstate \<Rightarrow> string \<Rightarrow> kstate" where
  "putlit s str = s\<lparr>screen := screen s @ ascii str\<rparr>"

lemma sys_putstr_loop_cstr:
  "cstr (mem s) a xs \<Longrightarrow>
   sys_putstr_loop s a n = Some (Ok (n + of_nat (length xs)) (s\<lparr>screen := screen s @ xs\<rparr>))"
proof (induction xs arbitrary: s a n)
  case Nil
  then show ?case by (simp add: sys_putstr_loop.simps)
next
  case (Cons x xs)
  then show ?case
    by (subst sys_putstr_loop.simps) (simp add: sys_putchar_def algebra_simps)
qed

lemma sys_putstr_cstr: "cstr (mem s) a xs \<Longrightarrow> sys_putstr s a = putbytes s xs"
  by (simp add: sys_putstr_def sys_putstr_loop_cstr putbytes_def)

lemma mem_put_screen [simp]:
  "mem (putlit s str) = mem s" "mem (sys_putchar s c) = mem s"
  by (simp_all add: putlit_def sys_putchar_def)

section \<open>The in-place reversal both printers end with\<close>

text \<open>
  \<open>for (int i = 0; i < cnt/2; i++)\<close> swaps \<open>str_num[i]\<close> and \<open>str_num[cnt - i - 1]\<close>. The
  first argument counts the iterations left.
\<close>

primrec swap_loop :: "nat \<Rightarrow> nat \<Rightarrow> u8 list \<Rightarrow> u8 list" where
  "swap_loop 0 i xs = xs"
| "swap_loop (Suc k) i xs =
     (let t = xs ! i; j = length xs - i - 1
      in swap_loop k (Suc i) (xs[i := xs ! j, j := t]))"

definition reverse_in_place :: "u8 list \<Rightarrow> u8 list" where
  "reverse_in_place xs = swap_loop (length xs div 2) 0 xs"

lemma swap_loop_middle:
  "length as = length bs \<Longrightarrow>
   swap_loop (length xs div 2) (length as) (as @ xs @ bs) = as @ rev xs @ bs"
proof (induction xs arbitrary: as bs rule: length_induct)
  case (1 xs)
  show ?case
  proof (cases "length xs < 2")
    case True
    then show ?thesis by (cases xs) auto
  next
    case False
    then obtain x ys y where xs: "xs = x # ys @ [y]"
      by (metis One_nat_def Suc_1 append_butlast_last_id length_Cons less_2_cases_iff list.exhaust
          list.size(3) zero_less_one lessI less_SucI)
    have "swap_loop (length ys div 2) (length (as @ [y])) ((as @ [y]) @ ys @ x # bs)
        = (as @ [y]) @ rev ys @ x # bs"
      using "1.IH" [rule_format, of ys "as @ [y]" "x # bs"] "1.prems" xs by simp
    moreover have "(as @ xs @ bs)[length as := y, Suc (length as + length ys) := x]
        = (as @ [y]) @ ys @ x # bs"
      by (simp add: xs list_update_append)
    moreover have "(as @ xs @ bs) ! (length as) = x" "(as @ xs @ bs) ! Suc (length as + length ys) = y"
      by (simp_all add: xs nth_append)
    ultimately show ?thesis
      using "1.prems" by (simp add: xs Let_def add.commute)
  qed
qed

lemma reverse_in_place_rev: "reverse_in_place xs = rev xs"
  using swap_loop_middle [of "[]" "[]" xs] by (simp add: reverse_in_place_def)

section \<open>Hexadecimal\<close>

definition hex_digit :: "u32 \<Rightarrow> u8" where
  "hex_digit num =
     (let d = ucast (num mod 16) in if sint d > 9 then d + (of_char CHR ''A'' - 10) else d + of_char CHR ''0'')"

function puthex_loop :: "u32 \<Rightarrow> u8 list" where
  "puthex_loop num = (if num \<noteq> 0 then hex_digit num # puthex_loop (num div 16) else [])"
  by pat_completeness auto
termination
  by (relation "measure unat") (auto simp: unat_div unat_gt_0)

declare puthex_loop.simps [simp del]

definition sys_puthex :: "kstate \<Rightarrow> u32 \<Rightarrow> (kstate, u32) outcome" where
  "sys_puthex s num =
     (if num = 0 then Ok 1 (sys_putchar s (of_char CHR ''0''))
      else putbytes s (reverse_in_place (puthex_loop num)))"

section \<open>Decimal\<close>

text \<open>\<open>%\<close> and \<open>/\<close> truncate towards zero; the argument is the value of the \<open>int\<close>.\<close>

lemma sdiv_shrinks: "(n :: int) sdiv 10 \<noteq> 0 \<Longrightarrow> \<bar>n sdiv 10\<bar> < \<bar>n\<bar>"
  by (auto simp: signed_divide_int_def abs_mult abs_sgn_eq)

function putint_loop :: "int \<Rightarrow> u8 list" where
  "putint_loop num =
     (of_int (num smod 10) + of_char CHR ''0'')
     # (if num sdiv 10 \<noteq> 0 then putint_loop (num sdiv 10) else [])"
  by pat_completeness auto
termination
  by (relation "measure (\<lambda>n. nat \<bar>n\<bar>)") (auto simp: sdiv_shrinks)

declare putint_loop.simps [simp del]

definition sys_putint :: "kstate \<Rightarrow> u32 \<Rightarrow> (kstate, u32) outcome" where
  "sys_putint s num =
     (let neg_flag = sint num < 0;
          num' = (if neg_flag then - num else num);
          digits = putint_loop (sint num');
          str_num = (if neg_flag then digits @ [of_char CHR ''-''] else digits)
      in putbytes s (reverse_in_place str_num))"

section \<open>What is printed\<close>

text \<open>Reading a numeral back, most significant digit first.\<close>

definition digit_val :: "u8 \<Rightarrow> nat" where
  "digit_val c = (if unat c \<le> 57 then unat c - 48 else unat c - 55)"

definition read_num :: "nat \<Rightarrow> u8 list \<Rightarrow> nat" where
  "read_num base ds = foldl (\<lambda>n c. n * base + digit_val c) 0 ds"

lemma read_num_snoc: "read_num base (ds @ [c]) = read_num base ds * base + digit_val c"
  by (simp add: read_num_def)

lemma hex_digit_values:
  "list_all (\<lambda>k. digit_val (hex_digit (of_nat k)) = k \<and>
     hex_digit (of_nat k) \<in> set (ascii ''0123456789ABCDEF'')) [0..<16]"
  by code_simp

lemma hex_digit_mod: "hex_digit num = hex_digit (of_nat (unat num mod 16))"
proof -
  have "num mod 16 = of_nat (unat num mod 16) mod 16"
    by (simp add: word_unat_eq_iff unat_mod)
  then show ?thesis by (simp only: hex_digit_def)
qed

lemma hex_digit_val:
  "digit_val (hex_digit num) = unat num mod 16"
  "hex_digit num \<in> set (ascii ''0123456789ABCDEF'')"
proof -
  have "unat num mod 16 \<in> set [0..<16]" by simp
  then show "digit_val (hex_digit num) = unat num mod 16"
    "hex_digit num \<in> set (ascii ''0123456789ABCDEF'')"
    using hex_digit_values unfolding list_all_iff hex_digit_mod [of num] by blast+
qed

lemma puthex_loop_value: "read_num 16 (rev (puthex_loop num)) = unat num"
proof (induction num rule: puthex_loop.induct)
  case (1 num)
  show ?case
  proof (cases "num = 0")
    case True
    then show ?thesis by (simp add: puthex_loop.simps read_num_def)
  next
    case False
    with "1" show ?thesis
      by (subst puthex_loop.simps) (simp add: read_num_snoc hex_digit_val unat_div)
  qed
qed

lemma puthex_loop_digits: "set (puthex_loop num) \<subseteq> set (ascii ''0123456789ABCDEF'')"
proof (induction num rule: puthex_loop.induct)
  case (1 num)
  then show ?case
    using hex_digit_val(2) [of num] by (subst puthex_loop.simps) auto
qed

lemma puthex_loop_length: "unat num < 16 ^ k \<Longrightarrow> length (puthex_loop num) \<le> k"
proof (induction k arbitrary: num)
  case 0
  then have "num = 0" by (simp add: unat_eq_0)
  then show ?case by (simp add: puthex_loop.simps)
next
  case (Suc k)
  then have "unat (num div 16) < 16 ^ k"
    by (simp add: unat_div less_mult_imp_div_less mult.commute)
  with Suc.IH show ?case by (subst puthex_loop.simps) simp
qed

lemma putint_digit_values:
  "list_all (\<lambda>k. digit_val (of_nat k + of_char CHR ''0'') = k) [0..<10]"
  by code_simp

lemma putint_loop_value: "0 \<le> n \<Longrightarrow> read_num 10 (rev (putint_loop n)) = nat n"
proof (induction n rule: putint_loop.induct)
  case (1 n)
  have d: "n sdiv 10 = n div 10" "n smod 10 = n mod 10"
    using "1.prems" by (simp_all add: signed_divide_int_def signed_modulo_int_def sgn_if)
  have "nat (n mod 10) \<in> set [0..<10]" by simp
  then have "digit_val (of_nat (nat (n mod 10)) + of_char CHR ''0'') = nat (n mod 10)"
    using putint_digit_values unfolding list_all_iff by blast
  then have v: "digit_val (of_int (n mod 10) + of_char CHR ''0'') = nat (n mod 10)"
    by (simp add: of_nat_nat)
  show ?case
  proof (cases "n div 10 = 0")
    case True
    then have "n mod 10 = n" by (metis mult_div_mod_eq mult_zero_right add_0)
    with True v show ?thesis
      by (subst putint_loop.simps) (simp add: d read_num_def)
  next
    case False
    have "nat n = nat (n div 10) * 10 + nat (n mod 10)"
      using "1.prems" by (simp add: nat_div_distrib nat_mod_distrib)
    moreover have "0 \<le> n div 10"
      using "1.prems" by (simp add: pos_imp_zdiv_nonneg_iff)
    ultimately show ?thesis
      using "1.IH" False v by (subst putint_loop.simps) (simp add: d read_num_snoc)
  qed
qed

section \<open>Properties\<close>

text \<open>\<open>sys_puthex\<close> prints between one and eight upper-case hexadecimal digits that read
  back as the number, and returns how many.\<close>

theorem sys_puthex_roundtrip:
  "\<exists>ds. sys_puthex s num = Ok (of_nat (length ds)) (s\<lparr>screen := screen s @ ds\<rparr>)
     \<and> read_num 16 ds = unat num \<and> set ds \<subseteq> set (ascii ''0123456789ABCDEF'')
     \<and> 1 \<le> length ds \<and> length ds \<le> 8"
proof (cases "num = 0")
  case True
  then show ?thesis
    by (intro exI [of _ "[of_char CHR ''0'']"])
      (simp add: sys_puthex_def sys_putchar_def read_num_def digit_val_def ascii_def)
next
  case False
  then have "length (puthex_loop num) \<noteq> 0" by (subst puthex_loop.simps) simp
  moreover have "length (puthex_loop num) \<le> 8"
    using puthex_loop_length [of num 8] unsigned_less [of num, where ?'a = nat] by simp
  ultimately show ?thesis
    using False puthex_loop_value [of num] puthex_loop_digits [of num]
    by (intro exI [of _ "rev (puthex_loop num)"])
      (simp add: sys_puthex_def putbytes_def reverse_in_place_rev Suc_le_eq)
qed


definition demo_screen :: kstate where
  "demo_screen = \<lparr>mem = \<lambda>_. 0, eflags = 2, esp = 0x2F00, cr3 = 0x100000, screen = [], ports = [],
     main_thread = 0x2000, thread_tag = 0, next_pid = 2, ticks = 0, in_ports = (\<lambda>_. 0), gdtr = (0, 0),
     idtr = (0, 0), tr = 0, ctrl_status = 0, shift_status = 0, alt_status = 0, caps_lock_status = 0,
     ext_scancode = 0, test_var_a = 0, test_var_b = 0\<rparr>"


end
