(* ===== verification/PageAlloc.thy ===== *)
theory PageAlloc
  imports Sync Bitmap Print
begin

text \<open>
  The page allocator of \<open>kernel/memory.c\<close>: physical page pools, virtual address pools, page
  mapping and the allocation of runs of pages.

  \<open>struct virtual_addr\<close>: \<open>vaddr_bitmap\<close> at offset 0, \<open>vaddr_start\<close> at 8.
  \<open>struct memory_pool\<close>: \<open>pool_bitmap\<close> at 0, \<open>physic_addr_start\<close> at 8, \<open>pool_size\<close> at 12,
  \<open>lock\<close> at 16.

  The byte store is the current address space, page-table window included. Mapping a page
  writes its entry in the window; the bytes at the mapped address are not changed by it
  (the allocator's callers that rely on their contents clear them first).
\<close>

section \<open>Pools\<close>

datatype pool_flags = KERNEL_POOL | USER_POOL

definition vaddr_start :: "mem \<Rightarrow> addr \<Rightarrow> u32" where
  "vaddr_start m pv = ld32 m (pv + 8)"

definition physic_addr_start :: "mem \<Rightarrow> addr \<Rightarrow> u32" where
  "physic_addr_start m m_pool = ld32 m (m_pool + 8)"

definition pool_lock :: "addr \<Rightarrow> addr" where
  "pool_lock m_pool = m_pool + 16"

text \<open>\<open>kernel_vaddr\<close>, or \<open>userprog_vaddr\<close> of the current thread.\<close>

definition vaddr_pool :: "symbols \<Rightarrow> kstate \<Rightarrow> pool_flags \<Rightarrow> addr" where
  "vaddr_pool g s pf =
     (if pf = KERNEL_POOL then kernel_vaddr g else GetCurrentThreadPCB s + off_userprog_vaddr)"

definition memory_pool_of :: "symbols \<Rightarrow> pool_flags \<Rightarrow> addr" where
  "memory_pool_of g pf = (if pf = KERNEL_POOL then kernel_memory_pool g else user_memory_pool g)"

text \<open>The loops \<open>while (cnt < n) BitmapSetBit(btmp, start + cnt++, value)\<close>.\<close>

primrec set_bits :: "nat \<Rightarrow> mem \<Rightarrow> addr \<Rightarrow> u32 \<Rightarrow> u8 \<Rightarrow> (mem, unit) outcome" where
  "set_bits 0 m btmp idx v = Ok () m"
| "set_bits (Suc n) m btmp idx v =
     obind (BitmapSetBit m btmp idx v) (\<lambda>_ m1. set_bits n m1 btmp (idx + 1) v)"

definition GetVirtualPage :: "symbols \<Rightarrow> kstate \<Rightarrow> pool_flags \<Rightarrow> u32 \<Rightarrow> (kstate, addr) outcome" where
  "GetVirtualPage g s pf request_page_cnt =
     (let pv = vaddr_pool g s pf in
      obind (on_mem s (BitmapScan (mem s) pv request_page_cnt)) (\<lambda>virtual_page_bit_idx s1.
        if virtual_page_bit_idx \<noteq> - 1
        then obind (on_mem s1 (set_bits (unat request_page_cnt) (mem s1) pv virtual_page_bit_idx 1)) (\<lambda>_ s2.
               Ok (vaddr_start (mem s2) pv + virtual_page_bit_idx * PAGE_SIZE) s2)
        else Ok NULL s1))"

definition GetOnePhysicPage :: "kstate \<Rightarrow> addr \<Rightarrow> (kstate, addr) outcome" where
  "GetOnePhysicPage s m_pool =
     obind (on_mem s (BitmapScan (mem s) m_pool 1)) (\<lambda>bit_idx s1.
       if bit_idx = - 1 then Ok NULL s1
       else obind (on_mem s1 (BitmapSetBit (mem s1) m_pool bit_idx 1)) (\<lambda>_ s2.
              Ok (bit_idx * PAGE_SIZE + physic_addr_start (mem s2) m_pool) s2))"

definition ReturnOnePhysicPage :: "symbols \<Rightarrow> kstate \<Rightarrow> u32 \<Rightarrow> (kstate, unit) outcome" where
  "ReturnOnePhysicPage g s page_physic_addr =
     (let memory_pool = (if page_physic_addr > physic_addr_start (mem s) (user_memory_pool g)
                         then user_memory_pool g else kernel_memory_pool g);
          bit_idx = (page_physic_addr - physic_addr_start (mem s) memory_pool) div PAGE_SIZE
      in on_mem s (BitmapSetBit (mem s) memory_pool bit_idx 0))"

definition PAGE_FLAGS :: u32 where
  "PAGE_FLAGS = PAGE_P_1 OR PAGE_US_U OR PAGE_RW_RW"

definition PageMapping :: "symbols \<Rightarrow> kstate \<Rightarrow> addr \<Rightarrow> u32 \<Rightarrow> (kstate, unit) outcome" where
  "PageMapping g s v_addr physic_page_addr =
     (let pde_addr = GetPDEPointer v_addr; pte_addr = GetPTEPointer v_addr
      in if ld32 (mem s) pde_addr AND PAGE_P_1 \<noteq> 0
         then ASSERT ''PageMapping'' ''!((*(size_t*)pte_addr) & PAGE_P_1)''
                (ld32 (mem s) pte_addr AND PAGE_P_1 = 0)
                (if ld32 (mem s) pte_addr AND PAGE_P_1 = 0
                 then Ok () (put32 s pte_addr (physic_page_addr OR PAGE_FLAGS))
                 else Panic ''PageMapping'' ''VITUARL PAGE ALREADY MAPPED!!'')
         else obind (GetOnePhysicPage s (kernel_memory_pool g)) (\<lambda>pte_physic_addr s1.
                let s2 = put32 s1 pde_addr (pte_physic_addr OR PAGE_FLAGS)
                in obind (on_mem s2 (memset (mem s2) (pte_addr AND 0xFFFFF000) 0 PAGE_SIZE)) (\<lambda>_ s3.
                   Ok () (put32 s3 pte_addr (physic_page_addr OR PAGE_FLAGS)))))"

definition ReturnVirtualPage :: "symbols \<Rightarrow> kstate \<Rightarrow> pool_flags \<Rightarrow> addr \<Rightarrow> u32 \<Rightarrow> (kstate, unit) outcome" where
  "ReturnVirtualPage g s pf v_addr page_cnt =
     (let pv = vaddr_pool g s pf;
          bit_idx_start = (v_addr - vaddr_start (mem s) pv) div PAGE_SIZE
      in on_mem s (set_bits (unat page_cnt) (mem s) pv bit_idx_start 0))"

section \<open>Allocation of pages\<close>

text \<open>The two loops of \<open>pfree\<close>: they differ in the assertion only.\<close>

primrec pfree_loop :: "nat \<Rightarrow> symbols \<Rightarrow> bool \<Rightarrow> kstate \<Rightarrow> addr \<Rightarrow> (kstate, unit) outcome" where
  "pfree_loop 0 g user s v_addr = Ok () s"
| "pfree_loop (Suc n) g user s v_addr =
     (let v = v_addr + PAGE_SIZE;
          page_physic_addr = VirtualAddrToPhysicAddr (mem s) v;
          above = page_physic_addr \<ge> physic_addr_start (mem s) (user_memory_pool g)
      in ASSERT ''pfree'' (if user then ''page_physic_addr >= user_memory_pool.physic_addr_start''
                           else ''page_physic_addr < user_memory_pool.physic_addr_start'')
           (above = user)
           (obind (ReturnOnePhysicPage g s page_physic_addr) (\<lambda>_ s1.
              pfree_loop n g user (PageUnmapping s1 v) v)))"

definition pfree :: "symbols \<Rightarrow> kstate \<Rightarrow> pool_flags \<Rightarrow> addr \<Rightarrow> u32 \<Rightarrow> (kstate, unit) outcome" where
  "pfree g s pf v_addr_start page_cnt =
     ASSERT ''pfree'' ''page_cnt >= 1 && v_addr % PAGE_SIZE == 0''
       (page_cnt \<ge> 1 \<and> v_addr_start mod PAGE_SIZE = 0)
       (let page_physic_addr = VirtualAddrToPhysicAddr (mem s) v_addr_start in
        ASSERT ''pfree'' ''((page_physic_addr % PAGE_SIZE) == 0) && page_physic_addr > 0x102000''
          (page_physic_addr mod PAGE_SIZE = 0 \<and> page_physic_addr > 0x102000)
          (obind (pfree_loop (unat page_cnt) g
                   (page_physic_addr \<ge> physic_addr_start (mem s) (user_memory_pool g)) s
                   (v_addr_start - PAGE_SIZE)) (\<lambda>_ s1.
             ReturnVirtualPage g s1 pf v_addr_start page_cnt)))"

primrec palloc_loop :: "nat \<Rightarrow> symbols \<Rightarrow> kstate \<Rightarrow> pool_flags \<Rightarrow> addr \<Rightarrow> addr \<Rightarrow> (kstate, addr) outcome" where
  "palloc_loop 0 g s pf vaddr_st vaddr = Ok vaddr_st s"
| "palloc_loop (Suc page_cnt) g s pf vaddr_st vaddr =
     obind (GetOnePhysicPage s (memory_pool_of g pf)) (\<lambda>page_physic_addr s1.
       if page_physic_addr = NULL
       then obind (pfree g s1 pf vaddr_st ((vaddr - vaddr_st) div PAGE_SIZE)) (\<lambda>_ s2. Ok NULL s2)
       else obind (PageMapping g s1 vaddr page_physic_addr) (\<lambda>_ s2.
              palloc_loop page_cnt g s2 pf vaddr_st (vaddr + PAGE_SIZE)))"

definition palloc :: "symbols \<Rightarrow> kstate \<Rightarrow> pool_flags \<Rightarrow> u32 \<Rightarrow> (kstate, addr) outcome" where
  "palloc g s pf page_cnt =
     ASSERT ''palloc'' ''page_cnt < 3840'' (page_cnt < 3840)
       (obind (GetVirtualPage g s pf page_cnt) (\<lambda>vaddr_st s1.
          if vaddr_st = NULL then Ok vaddr_st s1
          else palloc_loop (unat page_cnt) g s1 pf vaddr_st vaddr_st))"

text \<open>\<open>kpalloc\<close> and \<open>upalloc\<close> are this, for the kernel and the user pool.\<close>

definition locked_palloc :: "symbols \<Rightarrow> kstate \<Rightarrow> pool_flags \<Rightarrow> u32 \<Rightarrow> (kstate, addr) outcome" where
  "locked_palloc g s pf page_cnt =
     obind (sys_lock_lock g s (pool_lock (memory_pool_of g pf))) (\<lambda>_ s1.
     obind (palloc g s1 pf page_cnt) (\<lambda>vaddr s2.
     obind (sys_lock_unlock g s2 (pool_lock (memory_pool_of g pf))) (\<lambda>_ s3.
       if vaddr \<noteq> NULL
       then obind (on_mem s3 (memset (mem s3) vaddr 0 (page_cnt * PAGE_SIZE))) (\<lambda>_ s4. Ok vaddr s4)
       else Ok vaddr s3)))"

definition kpalloc :: "symbols \<Rightarrow> kstate \<Rightarrow> u32 \<Rightarrow> (kstate, addr) outcome" where
  "kpalloc g s page_cnt = locked_palloc g s KERNEL_POOL page_cnt"

definition upalloc :: "symbols \<Rightarrow> kstate \<Rightarrow> u32 \<Rightarrow> (kstate, addr) outcome" where
  "upalloc g s page_cnt = locked_palloc g s USER_POOL page_cnt"

definition VirtualAddrMapping :: "symbols \<Rightarrow> kstate \<Rightarrow> pool_flags \<Rightarrow> addr \<Rightarrow> (kstate, addr) outcome" where
  "VirtualAddrMapping g s pf vaddr =
     (let memory_pool = memory_pool_of g pf in
      obind (sys_lock_lock g s (pool_lock memory_pool)) (\<lambda>_ s1.
        let curren_thread = GetCurrentThreadPCB s1;
            pv = vaddr_pool g s1 pf;
            bitmap_idx = (vaddr - vaddr_start (mem s1) pv) div PAGE_SIZE
        in if (PCB_PDE_addr (mem s1) curren_thread \<noteq> NULL \<and> pf = USER_POOL)
              \<or> (PCB_PDE_addr (mem s1) curren_thread = NULL \<and> pf = KERNEL_POOL)
           then ASSERT ''VirtualAddrMapping'' ''bitmap_idx > 0'' (bitmap_idx > 0)
             (obind (on_mem s1 (BitmapSetBit (mem s1) pv bitmap_idx 1)) (\<lambda>_ s2.
              obind (GetOnePhysicPage s2 memory_pool) (\<lambda>physic_page_addr s3.
                if physic_page_addr = NULL then Ok NULL s3
                else obind (PageMapping g s3 vaddr physic_page_addr) (\<lambda>_ s4.
                     obind (sys_lock_unlock g s4 (pool_lock memory_pool)) (\<lambda>_ s5. Ok vaddr s5)))))
           else Panic ''VirtualAddrMapping''
             ''VirtualAddrMapping: kernel alloced userspace or user alloced kernel space''))"

section \<open>Initialisation\<close>

definition MEM_BITMAP_BASE :: u32 where "MEM_BITMAP_BASE = 0xC009A000"
definition KERNEL_HEAP_BASE :: u32 where "KERNEL_HEAP_BASE = 0xC0100000"

text \<open>The stores of \<open>VmemPoolInit\<close> up to the first \<open>BitmapInit\<close>, in source order.\<close>

definition pool_tables :: "symbols \<Rightarrow> mem \<Rightarrow> u32 \<Rightarrow> mem" where
  "pool_tables g m all_mem =
     (let kp = kernel_memory_pool g; up = user_memory_pool g; kv = kernel_vaddr g;
          page_table_size = PAGE_SIZE * 256;
          used_mem = page_table_size + 0x100000;
          free_mem = all_mem - used_mem;
          free_pages_sum = free_mem div PAGE_SIZE;
          kernel_free_pages = free_pages_sum div 2;
          user_free_pages = free_pages_sum - kernel_free_pages;
          kernel_bitmap_length = kernel_free_pages div 8;
          user_bitmap_length = user_free_pages div 8;
          kernel_memory_pool_start = used_mem;
          user_memory_pool_start = kernel_memory_pool_start + kernel_free_pages * PAGE_SIZE;
          m1 = st32 m kp kernel_bitmap_length;
          m2 = st32 m1 up user_bitmap_length;
          m3 = st32 m2 (kp + 4) MEM_BITMAP_BASE;
          m4 = st32 m3 (up + 4) (MEM_BITMAP_BASE + kernel_bitmap_length);
          m5 = st32 m4 (kp + 8) kernel_memory_pool_start;
          m6 = st32 m5 (up + 8) user_memory_pool_start;
          m7 = st32 m6 (kp + 12) (kernel_free_pages * PAGE_SIZE);
          m8 = st32 m7 (up + 12) (user_free_pages * PAGE_SIZE);
          m9 = st32 m8 kv kernel_bitmap_length;
          m10 = st32 m9 (kv + 4) (kernel_bitmap_length + user_bitmap_length + MEM_BITMAP_BASE)
      in st32 m10 (kv + 8) KERNEL_HEAP_BASE)"

text \<open>\<open>sys_putstr\<close> of a label and \<open>sys_puthex\<close> of a value.\<close>

definition put_labelled :: "kstate \<Rightarrow> string \<Rightarrow> u32 \<Rightarrow> (kstate, u32) outcome" where
  "put_labelled s label v = sys_puthex (putlit s label) v"

definition VmemPoolInit :: "symbols \<Rightarrow> kstate \<Rightarrow> u32 \<Rightarrow> (kstate, unit) outcome" where
  "VmemPoolInit g s all_mem =
     (let kp = kernel_memory_pool g; up = user_memory_pool g; kv = kernel_vaddr g;
          s0 = putlit s ''    memory_pool_init start..'';
          s1 = s0\<lparr>mem := pool_tables g (mem s0) all_mem\<rparr>
      in obind (on_mem s1 (BitmapInit (mem s1) kv)) (\<lambda>_ s2.
         obind (put_labelled s2 (CHR 0x0A # ''        kernel_pool_bitmap_start:         0x'') (bits (mem s2) kp)) (\<lambda>_ s3.
         obind (put_labelled s3 (CHR 0x0A # ''        kernel_pool_physic_addr_start:    0x'') (physic_addr_start (mem s3) kp)) (\<lambda>_ s4.
         obind (put_labelled s4 (CHR 0x0A # ''        kernel_virutal_addr_start:        0x'') (vaddr_start (mem s4) kv)) (\<lambda>_ s5.
         obind (put_labelled s5 (CHR 0x0A # ''        user_pool_bitmap_start:           0x'') (bits (mem s5) up)) (\<lambda>_ s6.
         obind (put_labelled s6 (CHR 0x0A # ''        user_pool_physic_addr_start:      0x'') (physic_addr_start (mem s6) up)) (\<lambda>_ s7.
         obind (on_mem s7 (BitmapInit (mem s7) kp)) (\<lambda>_ s8.
         obind (on_mem s8 (BitmapInit (mem s8) up)) (\<lambda>_ s9.
           Ok () (putlit s9 (CHR 0x0A # ''    done'' @ [CHR 0x0A])))))))))))"

section \<open>Physical pages\<close>

text \<open>A pool whose bitmap is well-formed and lies apart from the pool structure.\<close>

definition pool_ok :: "mem \<Rightarrow> addr \<Rightarrow> bool" where
  "pool_ok m p \<longleftrightarrow> bitmap_wf m p \<and> sep (bits m p) (unat (bitmap_bytes_len m p)) p 44"

lemma pool_ok_frame:
  assumes "pool_ok m p" "eq_on m' m p 44"
  shows "pool_ok m' p" "physic_addr_start m' p = physic_addr_start m p" "bm_size m' p = bm_size m p"
    "bits m' p = bits m p" "bitmap_bytes_len m' p = bitmap_bytes_len m p"
proof -
  have e: "eq_on m' m p 8" "eq_on m' m (p + 8) 4"
    using eq_on_part [OF assms(2), of 0 8] eq_on_part [OF assms(2), of 8 4] by simp_all
  note f = bitmap_frame [OF e(1)]
  show "pool_ok m' p" "bm_size m' p = bm_size m p" "bits m' p = bits m p"
    "bitmap_bytes_len m' p = bitmap_bytes_len m p"
    using assms(1) f by (simp_all add: pool_ok_def bitmap_wf_def bm_size_def)
  show "physic_addr_start m' p = physic_addr_start m p"
    using ld32_cong [OF e(2)] by (simp add: physic_addr_start_def)
qed

lemma pool_set_bit:
  assumes ok: "pool_ok m p" and i: "unat i < bm_size m p" and v: "v = 0 \<or> v = 1"
  obtains m' where "BitmapSetBit m p i v = Ok () m'"
    and "only_in m m' (bits m p) (unat (bitmap_bytes_len m p))" "eq_on m' m p 44"
    and "\<forall>k < 2 ^ 32. bm m' p k = (if k = unat i then v = 1 else bm m p k)"
proof -
  have wf: "bitmap_wf m p" and s: "sep (bits m p) (unat (bitmap_bytes_len m p)) p 44"
    using ok by (simp_all add: pool_ok_def)
  show thesis
  proof (rule BitmapSetBit_effect [OF wf i v])
    fix m'
    assume "BitmapSetBit m p i v = Ok () m'" "only_in m m' (bits m p) (unat (bitmap_bytes_len m p))"
      "\<And>k. k < 2 ^ 32 \<Longrightarrow> bm m' p k = (if k = unat i then v = 1 else bm m p k)"
    then show thesis using that only_in_sep [OF _ s] by blast
  qed
qed

lemma scan_one_effect:
  assumes "bitmap_wf m p" "\<exists>i < bm_size m p. \<not> bm m p i"
  obtains i where "BitmapScan m p 1 = Ok (of_nat i) m" "i < bm_size m p" "\<not> bm m p i"
    "\<forall>j < i. bm m p j" "unat (of_nat i :: u32) = i" "(of_nat i :: u32) \<noteq> - 1"
proof -
  have sz: "bm_size m p < 2 ^ 31" by (rule bm_size_bound [OF assms(1)])
  obtain i where i: "first_run (bm m p) 1 (bm_size m p) = Some i"
    using assms(2) first_run_None [of "bm m p" 1 "bm_size m p"] by (auto simp: run_free_def)
  then have "i < bm_size m p" "\<not> bm m p i" "\<forall>j < i. bm m p j"
    by (auto simp: first_run_Some run_free_def)
  moreover from this have u: "unat (of_nat i :: u32) = i" using sz by simp
  moreover have "(of_nat i :: u32) \<noteq> - 1"
  proof
    assume "(of_nat i :: u32) = - 1"
    then have "i = 4294967295" using u unat_minus_1_u32 by metis
    with calculation(1) sz show False by simp
  qed
  moreover have "BitmapScan m p 1 = Ok (of_nat i) m"
    using BitmapScan_eq [OF assms(1), of 1] assms(2) i by (simp add: scan_window_def)
  ultimately show thesis using that by blast
qed

lemma GetOnePhysicPage_effect:
  assumes "pool_ok (mem s) p" "\<exists>i < bm_size (mem s) p. \<not> bm (mem s) p i"
  obtains i m' where "GetOnePhysicPage s p = Ok (of_nat i * PAGE_SIZE + physic_addr_start (mem s) p) (s\<lparr>mem := m'\<rparr>)"
    "i < bm_size (mem s) p" "\<not> bm (mem s) p i" "\<forall>j < i. bm (mem s) p j"
    "only_in (mem s) m' (bits (mem s) p) (unat (bitmap_bytes_len (mem s) p))" "eq_on m' (mem s) p 44"
    "\<forall>k < 2 ^ 32. bm m' p k = (k = i \<or> bm (mem s) p k)"
proof -
  have wf: "bitmap_wf (mem s) p" using assms(1) by (simp add: pool_ok_def)
  obtain i where i: "BitmapScan (mem s) p 1 = Ok (of_nat i) (mem s)" "i < bm_size (mem s) p"
    "\<not> bm (mem s) p i" "\<forall>j < i. bm (mem s) p j" "unat (of_nat i :: u32) = i" "(of_nat i :: u32) \<noteq> - 1"
    using scan_one_effect [OF wf assms(2)] by blast
  have "unat (of_nat i :: u32) < bm_size (mem s) p" using i(2,5) by simp
  then obtain m' where m': "BitmapSetBit (mem s) p (of_nat i) 1 = Ok () m'"
    "only_in (mem s) m' (bits (mem s) p) (unat (bitmap_bytes_len (mem s) p))" "eq_on m' (mem s) p 44"
    "\<forall>k < 2 ^ 32. bm m' p k = (if k = unat (of_nat i :: u32) then (1 :: u8) = 1 else bm (mem s) p k)"
    using pool_set_bit [OF assms(1), of "of_nat i" 1] by blast
  have b: "bm m' p k = (k = i \<or> bm (mem s) p k)" if "k < 2 ^ 32" for k
    using m'(4) [rule_format, OF that] by (simp add: i(5))
  have "GetOnePhysicPage s p = Ok (of_nat i * PAGE_SIZE + physic_addr_start (mem s) p) (s\<lparr>mem := m'\<rparr>)"
    using i(1,6) m'(1) pool_ok_frame(2) [OF assms(1) m'(3)] by (simp add: GetOnePhysicPage_def)
  with i(2-4) m'(2,3) b that show thesis by blast
qed

lemma GetOnePhysicPage_full:
  "pool_ok (mem s) p \<Longrightarrow> \<forall>i < bm_size (mem s) p. bm (mem s) p i \<Longrightarrow>
   GetOnePhysicPage s p = Panic ''BitmapScan'' ''byte_idx < btmp->bitmap_bytes_len''"
  using BitmapScan_eq [of "mem s" p 1] by (auto simp: GetOnePhysicPage_def pool_ok_def)

text \<open>
  An allocator of pages: what its clients rely on. \<open>calls\<close> is any routine that calls the
  allocator a given number of times.
\<close>

locale page_allocator =
  fixes inv :: "'s \<Rightarrow> bool" and used :: "'s \<Rightarrow> nat set" and cap :: nat
    and alloc :: "'s \<Rightarrow> ('s, 'p) outcome" and page :: "nat \<Rightarrow> 'p"
  assumes alloc: "inv s \<Longrightarrow> used s \<noteq> {..<cap} \<Longrightarrow> \<exists>i s'. alloc s = Ok (page i) s' \<and> inv s'
      \<and> i < cap \<and> i \<notin> used s \<and> used s' = insert i (used s)"
    and full: "inv s \<Longrightarrow> used s = {..<cap} \<Longrightarrow> \<exists>fn c. alloc s = Panic fn c"
    and used_cap: "inv s \<Longrightarrow> used s \<subseteq> {..<cap}"
    and page_inj: "inv s \<Longrightarrow> inj_on page {..<cap}"
begin

lemma room: "inv s \<Longrightarrow> card (used s) < cap \<Longrightarrow> used s \<noteq> {..<cap}"
  by (metis card_lessThan less_irrefl)

lemma take_n:
  assumes iter: "\<And>s. calls 0 s = Ok [] s"
    "\<And>n s. calls (Suc n) s = obind (alloc s) (\<lambda>p s1. obind (calls n s1) (\<lambda>ps s2. Ok (p # ps) s2))"
  shows "inv s \<Longrightarrow> card (used s) + n \<le> cap \<Longrightarrow> \<exists>is s'. calls n s = Ok (map page is) s' \<and> inv s'
    \<and> length is = n \<and> distinct is \<and> set is \<inter> used s = {} \<and> set is \<subseteq> {..<cap} \<and> used s' = used s \<union> set is"
proof (induction n arbitrary: s)
  case 0
  then show ?case using iter(1) by (intro exI [of _ "[]"]) auto
next
  case (Suc n)
  then obtain i s1 where i: "alloc s = Ok (page i) s1" "inv s1" "i < cap" "i \<notin> used s"
      "used s1 = insert i (used s)"
    using alloc [OF Suc.prems(1) room [OF Suc.prems(1)]] by auto
  have "finite (used s)" using used_cap [OF Suc.prems(1)] finite_subset by blast
  then have "card (used s1) + n \<le> cap" using i(4,5) Suc.prems(2) by simp
  from Suc.IH [OF i(2) this] obtain js s' where js: "calls n s1 = Ok (map page js) s'" "inv s'"
      "length js = n" "distinct js" "set js \<inter> used s1 = {}" "set js \<subseteq> {..<cap}" "used s' = used s1 \<union> set js"
    by blast
  then show ?case
    using i iter(2) by (intro exI [of _ "i # js"] exI [of _ s']) auto
qed

lemma take_n_panics:
  assumes iter: "\<And>s. calls 0 s = Ok [] s"
    "\<And>n s. calls (Suc n) s = obind (alloc s) (\<lambda>p s1. obind (calls n s1) (\<lambda>ps s2. Ok (p # ps) s2))"
  shows "inv s \<Longrightarrow> cap < card (used s) + n \<Longrightarrow> \<exists>fn c. calls n s = Panic fn c"
proof (induction n arbitrary: s)
  case 0
  then show ?case using card_mono [OF _ used_cap [OF 0(1)]] by simp
next
  case (Suc n)
  show ?case
  proof (cases "used s = {..<cap}")
    case True
    then show ?thesis using full [OF Suc.prems(1)] iter(2) by auto
  next
    case False
    then obtain i s1 where i: "alloc s = Ok (page i) s1" "inv s1" "i \<notin> used s" "used s1 = insert i (used s)"
      using alloc [OF Suc.prems(1)] by blast
    have "finite (used s)" using used_cap [OF Suc.prems(1)] finite_subset by blast
    then have "cap < card (used s1) + n" using i Suc.prems(2) by simp
    from Suc.IH [OF i(2) this] i(1) iter(2) show ?thesis by auto
  qed
qed

end

definition pool_inv :: "addr \<Rightarrow> u32 \<Rightarrow> nat \<Rightarrow> kstate \<Rightarrow> bool" where
  "pool_inv p b n s \<longleftrightarrow> pool_ok (mem s) p \<and> bm_size (mem s) p = n
     \<and> physic_addr_start (mem s) p = b \<and> n \<le> 2 ^ 20"

definition used_pages :: "addr \<Rightarrow> kstate \<Rightarrow> nat set" where
  "used_pages p s = {i. i < bm_size (mem s) p \<and> bm (mem s) p i}"

definition page_at :: "u32 \<Rightarrow> nat \<Rightarrow> u32" where
  "page_at b i = of_nat i * PAGE_SIZE + b"

lemma unat_pages:
  assumes "k < 2 ^ 20"
  shows "unat (of_nat k * PAGE_SIZE) = k * 4096"
proof -
  have "unat (of_nat k :: u32) = k" using assms by simp
  then show ?thesis using unat_mult_lt [of "of_nat k" PAGE_SIZE] assms by simp
qed

lemma page_at_inj:
  assumes n: "n \<le> 2 ^ 20"
  shows "inj_on (page_at b) {..<n}"
proof (rule inj_onI)
  fix i j assume ij: "i \<in> {..<n}" "j \<in> {..<n}" and eq: "page_at b i = page_at b j"
  have "of_nat i * PAGE_SIZE = of_nat j * PAGE_SIZE" using eq by (simp add: page_at_def)
  then have "i * 4096 = j * 4096"
    using unat_pages [of i] unat_pages [of j] ij n by (metis lessThan_iff less_le_trans)
  then show "i = j" by simp
qed

lemma used_pages_full: "used_pages p s = {..<bm_size (mem s) p} \<longleftrightarrow> (\<forall>i < bm_size (mem s) p. bm (mem s) p i)"
  by (auto simp: used_pages_def)

lemma pool_alloc_effect:
  assumes inv: "pool_inv p b n s" and room: "used_pages p s \<noteq> {..<n}"
  obtains i m' where "GetOnePhysicPage s p = Ok (page_at b i) (s\<lparr>mem := m'\<rparr>)"
    "pool_inv p b n (s\<lparr>mem := m'\<rparr>)" "i < n" "i \<notin> used_pages p s"
    "used_pages p (s\<lparr>mem := m'\<rparr>) = insert i (used_pages p s)"
    "only_in (mem s) m' (bits (mem s) p) (unat (bitmap_bytes_len (mem s) p))"
    "bits m' p = bits (mem s) p" "bitmap_bytes_len m' p = bitmap_bytes_len (mem s) p"
proof -
  have ok: "pool_ok (mem s) p" and bn: "bm_size (mem s) p = n" and n: "n \<le> 2 ^ 20"
    and b: "physic_addr_start (mem s) p = b"
    using inv by (simp_all add: pool_inv_def)
  have ex: "\<exists>i < bm_size (mem s) p. \<not> bm (mem s) p i"
    using room used_pages_full [of p s] unfolding bn by simp
  obtain i m' where e:
    "GetOnePhysicPage s p = Ok (of_nat i * PAGE_SIZE + physic_addr_start (mem s) p) (s\<lparr>mem := m'\<rparr>)"
    "i < bm_size (mem s) p" "\<not> bm (mem s) p i" "\<forall>j < i. bm (mem s) p j"
    "only_in (mem s) m' (bits (mem s) p) (unat (bitmap_bytes_len (mem s) p))" "eq_on m' (mem s) p 44"
    "\<forall>k < 2 ^ 32. bm m' p k = (k = i \<or> bm (mem s) p k)"
    using GetOnePhysicPage_effect [OF ok ex] .
  note fr = pool_ok_frame [OF ok e(6)]
  have "bm m' p k = (k = i \<or> bm (mem s) p k)" if "k < n" for k
    by (rule e(7) [rule_format]) (use that n in simp)
  then have "used_pages p (s\<lparr>mem := m'\<rparr>) = insert i (used_pages p s)"
    using e(2) fr(3) bn by (simp add: used_pages_def set_eq_iff) metis
  moreover have "pool_inv p b n (s\<lparr>mem := m'\<rparr>)"
    using fr bn n b by (simp add: pool_inv_def)
  moreover have "GetOnePhysicPage s p = Ok (page_at b i) (s\<lparr>mem := m'\<rparr>)"
    using e(1) b by (simp add: page_at_def)
  moreover have "i < n" "i \<notin> used_pages p s"
    using e(2,3) bn by (simp_all add: used_pages_def)
  ultimately show thesis using that fr(4,5) e(5) by blast
qed

lemma pool_alloc:
  assumes "pool_inv p b n s" "used_pages p s \<noteq> {..<n}"
  shows "\<exists>i s'. GetOnePhysicPage s p = Ok (page_at b i) s' \<and> pool_inv p b n s'
    \<and> i < n \<and> i \<notin> used_pages p s \<and> used_pages p s' = insert i (used_pages p s)"
  by (rule pool_alloc_effect [OF assms]) blast

interpretation pa: page_allocator "pool_inv p b n" "used_pages p" n "\<lambda>s. GetOnePhysicPage s p" "page_at b"
proof unfold_locales
  fix s assume "pool_inv p b n s" "used_pages p s \<noteq> {..<n}"
  then show "\<exists>i s'. GetOnePhysicPage s p = Ok (page_at b i) s' \<and> pool_inv p b n s'
    \<and> i < n \<and> i \<notin> used_pages p s \<and> used_pages p s' = insert i (used_pages p s)"
    by (rule pool_alloc)
next
  fix s assume s: "pool_inv p b n s" "used_pages p s = {..<n}"
  then have "pool_ok (mem s) p" "bm_size (mem s) p = n" by (simp_all add: pool_inv_def)
  with s(2) used_pages_full [of p s] show "\<exists>fn c. GetOnePhysicPage s p = Panic fn c"
    using GetOnePhysicPage_full by blast
next
  fix s assume "pool_inv p b n s"
  then show "used_pages p s \<subseteq> {..<n}" "inj_on (page_at b) {..<n}"
    by (auto simp: pool_inv_def used_pages_def intro: page_at_inj)
qed

section \<open>The page-table window as an array of entries\<close>

definition vpn :: "addr \<Rightarrow> nat" where
  "vpn v = unat v div 4096"

lemma vpn_bound: "vpn v < 2 ^ 20"
  using unsigned_less [of v, where ?'a = nat] by (simp add: vpn_def less_mult_imp_div_less)

lemma vpn_drop: "vpn v = unat (drop_bit 12 v)"
  by (simp add: vpn_def drop_bit_eq_div unat_div)

lemma GetPTEPointer_vpn: "GetPTEPointer v = 0xFFC00000 + of_nat (4 * vpn v)"
proof -
  have "of_nat (4 * vpn v) = push_bit 2 (drop_bit 12 v)"
    by (simp add: vpn_drop push_bit_eq_mult)
  moreover have "(0xFFC00000 :: u32) + push_bit 2 (drop_bit 12 v) = 0xFFC00000 OR push_bit 2 (drop_bit 12 v)"
    unfolding masks by (rule disjunctive_add) (auto simp: bit_simps dest: bit_imp_le_length)
  moreover have "GetPTEPointer v = 0xFFC00000 OR push_bit 2 (drop_bit 12 v)"
    unfolding GetPTEPointer_bits masks(2)
    by (rule bit_word_eqI) (auto simp: bit_simps PDE_IDX_bit PTE_IDX_bit)
  ultimately show ?thesis by simp
qed

lemma GetPDEPointer_PTE: "GetPDEPointer v = GetPTEPointer (GetPTEPointer v)"
  unfolding GetPDEPointer_bits GetPTEPointer_bits [of "GetPTEPointer v"] window_indices
  by (rule bit_word_eqI) (auto simp: bit_simps)

lemma pte_sep:
  assumes "vpn v \<noteq> vpn w"
  shows "sep (GetPTEPointer v) 4 (GetPTEPointer w) 4"
proof -
  have u: "unat (of_nat (4 * vpn x) :: u32) = 4 * vpn x" for x
    using vpn_bound [of x] by (intro unat_of_nat_u32) simp
  have "4 \<le> unat (of_nat (4 * vpn y) - of_nat (4 * vpn x) :: u32)" if "vpn x \<noteq> vpn y" for x y
    using that vpn_bound [of x] vpn_bound [of y] by (auto simp only: unat_sub_if' u) auto
  then show ?thesis
    using assms unfolding GetPTEPointer_vpn by simp
qed

abbreviation window :: addr where "window \<equiv> 0xFFC00000"

lemma vpn_window: "0xFFC00 \<le> vpn (GetPTEPointer w)"
proof -
  have "unat (of_nat (4 * vpn w) :: u32) = 4 * vpn w"
    using vpn_bound [of w] by (intro unat_of_nat_u32) simp
  then have "unat (GetPTEPointer w) = 0xFFC00000 + 4 * vpn w"
    unfolding GetPTEPointer_vpn using vpn_bound [of w] by (subst unat_plus_lt) auto
  then show ?thesis by (simp add: vpn_def)
qed

lemma pte_pde_sep: "vpn v < 0xFFC00 \<Longrightarrow> sep (GetPTEPointer v) 4 (GetPDEPointer w) 4"
  unfolding GetPDEPointer_PTE using vpn_window [of w] by (intro pte_sep) simp

lemma pte_only_window: "only_in m (st32 m (GetPTEPointer v) x) window 0x400000"
proof -
  have "unat (of_nat (4 * vpn v) :: u32) = 4 * vpn v"
    using vpn_bound [of v] by (intro unat_of_nat_u32) simp
  then show ?thesis
    unfolding GetPTEPointer_vpn using vpn_bound [of v]
    by (intro only_in_part [OF only_in_st32]) simp
qed

lemma window_pte_sep: "sep window 0x400000 b k \<Longrightarrow> 0 < k \<Longrightarrow> sep (GetPTEPointer v) 4 b k"
proof -
  assume s: "sep window 0x400000 b k" "0 < k"
  have "unat (of_nat (4 * vpn v) :: u32) = 4 * vpn v"
    using vpn_bound [of v] by (intro unat_of_nat_u32) simp
  then show ?thesis
    unfolding GetPTEPointer_vpn using vpn_bound [of v] s
    by (intro sep_offset_left [OF s(1)]) simp_all
qed

lemma vpn_add:
  assumes "vpn v + i < 2 ^ 20"
  shows "vpn (v + of_nat i * PAGE_SIZE) = vpn v + i"
proof -
  have "unat v + i * 4096 < 2 ^ 32"
  proof -
    have "unat v = vpn v * 4096 + unat v mod 4096" by (simp add: vpn_def)
    moreover have "unat v mod 4096 < 4096" by simp
    moreover have "vpn v + i + 1 \<le> 1048576" using assms by simp
    ultimately have "unat v + i * 4096 < 4294967296" by linarith
    then show ?thesis by simp
  qed
  moreover have "unat (of_nat i * PAGE_SIZE :: u32) = i * 4096"
    using assms by (intro unat_pages) simp
  ultimately have "unat (v + of_nat i * PAGE_SIZE) = unat v + i * 4096"
    by (subst unat_plus_lt) simp_all
  then show ?thesis by (simp add: vpn_def)
qed

section \<open>Mapping one page\<close>

definition table_present :: "mem \<Rightarrow> addr \<Rightarrow> bool" where
  "table_present m v \<longleftrightarrow> ld32 m (GetPDEPointer v) AND PAGE_P_1 \<noteq> 0"

definition page_absent :: "mem \<Rightarrow> addr \<Rightarrow> bool" where
  "page_absent m v \<longleftrightarrow> ld32 m (GetPTEPointer v) AND PAGE_P_1 = 0"

lemma PageMapping_present:
  "table_present (mem s) v \<Longrightarrow> page_absent (mem s) v \<Longrightarrow>
   PageMapping g s v p = Ok () (s\<lparr>mem := st32 (mem s) (GetPTEPointer v) (p OR PAGE_FLAGS)\<rparr>)"
  by (simp add: PageMapping_def table_present_def page_absent_def put32_def Let_def)

lemma PAGE_FLAGS_val: "PAGE_FLAGS = 7"
  by (simp add: PAGE_FLAGS_def PAGE_P_1_def PAGE_US_U_def PAGE_RW_RW_def)

lemma entry_frame: "page_aligned p \<Longrightarrow> (p OR PAGE_FLAGS) AND PAGE_MASK = p"
proof -
  assume p: "page_aligned p"
  have "PAGE_FLAGS AND PAGE_MASK = 0" by (simp add: PAGE_FLAGS_val PAGE_MASK_def)
  with p show ?thesis by (simp add: bit.conj_disj_distrib2 page_aligned_def)
qed

lemma page_aligned_offset: "page_aligned v \<Longrightarrow> v AND 0xFFF = 0"
  unfolding page_aligned_low masks by (intro bit_word_eqI) (auto simp: bit_simps)

lemma translate_entry:
  "ld32 m (GetPTEPointer v) = p OR PAGE_FLAGS \<Longrightarrow> page_aligned p \<Longrightarrow> page_aligned v \<Longrightarrow>
   VirtualAddrToPhysicAddr m v = p"
  using entry_frame [of p] page_aligned_offset [of v]
  by (simp add: VirtualAddrToPhysicAddr_def PAGE_MASK_def Let_def)

section \<open>Allocating a run of pages\<close>

definition pool_apart :: "mem \<Rightarrow> addr \<Rightarrow> bool" where
  "pool_apart m p \<longleftrightarrow> sep window 0x400000 p 44 \<and> 0 < unat (bitmap_bytes_len m p)
     \<and> sep window 0x400000 (bits m p) (unat (bitmap_bytes_len m p))"

definition heap_ready :: "mem \<Rightarrow> addr \<Rightarrow> nat \<Rightarrow> bool" where
  "heap_ready m v n \<longleftrightarrow> (\<forall>i < n. table_present m (v + of_nat i * PAGE_SIZE)
     \<and> page_absent m (v + of_nat i * PAGE_SIZE))"

text \<open>The allocator writes the bitmap of the pool and the page-table window only.\<close>

definition alloc_frame :: "mem \<Rightarrow> mem \<Rightarrow> addr \<Rightarrow> bool" where
  "alloc_frame m m' p \<longleftrightarrow> (\<forall>x. \<not> inr x (bits m p) (unat (bitmap_bytes_len m p))
     \<and> \<not> inr x window 0x400000 \<longrightarrow> m' x = m x)"

lemma page_at_nonnull:
  assumes "i < cap" "0 < unat b" "unat b + cap * 4096 \<le> 2 ^ 32" "cap \<le> 2 ^ 20"
  shows "page_at b i \<noteq> NULL"
proof -
  have "i * 4096 + 4096 \<le> cap * 4096" using assms(1) by simp
  then have "unat (of_nat i * PAGE_SIZE) + unat b < 2 ^ 32"
    using unat_pages [of i] assms by simp
  then have "unat (page_at b i) = unat (of_nat i * PAGE_SIZE) + unat b"
    unfolding page_at_def by (intro unat_plus_lt) simp
  with assms(2) show ?thesis by (auto simp: unat_eq_0 [symmetric])
qed

lemma page_aligned_push: "page_aligned (push_bit 12 x)"
  by (simp add: page_aligned_low bit_simps)

lemma page_aligned_eq:
  assumes "page_aligned v"
  shows "v = push_bit 12 (drop_bit 12 v)"
proof (rule bit_word_eqI)
  fix n assume "n < LENGTH(32)"
  then show "bit v n = bit (push_bit 12 (drop_bit 12 v)) n"
    using assms by (cases "n < 12") (auto simp: page_aligned_low bit_simps)
qed

lemma page_aligned_add: "page_aligned v \<Longrightarrow> page_aligned (of_nat i * PAGE_SIZE + v)"
proof -
  assume "page_aligned v"
  then have "of_nat i * PAGE_SIZE + v = push_bit 12 (of_nat i) + push_bit 12 (drop_bit 12 v)"
    using page_aligned_eq [of v] by (simp add: PAGE_SIZE_def push_bit_eq_mult)
  also have "\<dots> = push_bit 12 (of_nat i + drop_bit 12 v)"
    by (simp add: push_bit_eq_mult algebra_simps)
  finally show ?thesis by (simp only: page_aligned_push)
qed

text \<open>One round of the loop.\<close>

lemma palloc_step:
  assumes inv: "pool_inv p b cap s" and room: "card (used_pages p s) < cap" and ap: "pool_apart (mem s) p"
    and b: "0 < unat b" "unat b + cap * 4096 \<le> 2 ^ 32"
    and v: "vpn v < 0xFFC00" "table_present (mem s) v" "page_absent (mem s) v"
  obtains i m1 m2 where "GetOnePhysicPage s p = Ok (page_at b i) (s\<lparr>mem := m1\<rparr>)" "page_at b i \<noteq> NULL"
    "PageMapping g (s\<lparr>mem := m1\<rparr>) v (page_at b i) = Ok () (s\<lparr>mem := m2\<rparr>)"
    "i < cap" "i \<notin> used_pages p s" "used_pages p (s\<lparr>mem := m2\<rparr>) = insert i (used_pages p s)"
    "pool_inv p b cap (s\<lparr>mem := m2\<rparr>)" "pool_apart m2 p" "alloc_frame (mem s) m2 p"
    "bits m2 p = bits (mem s) p" "bitmap_bytes_len m2 p = bitmap_bytes_len (mem s) p"
    "ld32 m2 (GetPTEPointer v) = page_at b i OR PAGE_FLAGS"
    "\<forall>w. vpn w \<noteq> vpn v \<longrightarrow> ld32 m2 (GetPTEPointer w) = ld32 (mem s) (GetPTEPointer w)"
proof -
  obtain i m1 where A: "GetOnePhysicPage s p = Ok (page_at b i) (s\<lparr>mem := m1\<rparr>)"
    "pool_inv p b cap (s\<lparr>mem := m1\<rparr>)" "i < cap" "i \<notin> used_pages p s"
    "used_pages p (s\<lparr>mem := m1\<rparr>) = insert i (used_pages p s)"
    "only_in (mem s) m1 (bits (mem s) p) (unat (bitmap_bytes_len (mem s) p))"
    "bits m1 p = bits (mem s) p" "bitmap_bytes_len m1 p = bitmap_bytes_len (mem s) p"
    using pool_alloc_effect [OF inv pa.room [OF inv room]] .
  let ?m2 = "st32 m1 (GetPTEPointer v) (page_at b i OR PAGE_FLAGS)"
  have len: "0 < unat (bitmap_bytes_len (mem s) p)" and ws: "sep window 0x400000 p 44"
    "sep window 0x400000 (bits (mem s) p) (unat (bitmap_bytes_len (mem s) p))"
    using ap by (simp_all add: pool_apart_def)
  have pte1: "ld32 m1 (GetPTEPointer w) = ld32 (mem s) (GetPTEPointer w)" for w
    by (rule b4.ld_frame [OF A(6) sep_sym [OF window_pte_sep [OF ws(2) len]]])
  have pm: "PageMapping g (s\<lparr>mem := m1\<rparr>) v (page_at b i) = Ok () (s\<lparr>mem := ?m2\<rparr>)"
    using v(2,3) pte1 [of v] pte1 [of "GetPTEPointer v"] PageMapping_present [of "s\<lparr>mem := m1\<rparr>" v g "page_at b i"]
    by (simp add: table_present_def page_absent_def GetPDEPointer_PTE)
  have e44: "eq_on ?m2 m1 p 44"
    by (rule only_in_sep [OF only_in_st32 window_pte_sep [OF ws(1)]]) simp
  note fr = pool_ok_frame [of m1 p, OF _ e44]
  have ok1: "pool_ok m1 p" using A(2) by (simp add: pool_inv_def)
  have eb: "eq_on ?m2 m1 (bits m1 p) (unat (bitmap_bytes_len m1 p))"
    using only_in_sep [OF only_in_st32 window_pte_sep [OF ws(2) len]] A(7,8) by simp
  have "bm ?m2 p k = bm m1 p k" if "k < bm_size ?m2 p" for k
    using bm_frame [of m1 ?m2 p k] e44 eq_on_part [OF e44, of 0 8] eb that fr(3) [OF ok1]
    by (simp add: eq_on_def)
  then have up: "used_pages p (s\<lparr>mem := ?m2\<rparr>) = used_pages p (s\<lparr>mem := m1\<rparr>)"
    using fr(3) [OF ok1] by (auto simp: used_pages_def)
  have "alloc_frame (mem s) ?m2 p"
    using A(6) pte_only_window [of m1 v] by (simp add: alloc_frame_def only_in_def)
  moreover have "\<forall>w. vpn w \<noteq> vpn v \<longrightarrow> ld32 ?m2 (GetPTEPointer w) = ld32 (mem s) (GetPTEPointer w)"
    using pte_sep pte1 by simp
  moreover have "pool_inv p b cap (s\<lparr>mem := ?m2\<rparr>)"
    using A(2) fr [OF ok1] by (simp add: pool_inv_def)
  moreover have "pool_apart ?m2 p"
    using ap fr(4,5) [OF ok1] A(7,8) by (simp add: pool_apart_def)
  moreover have "page_at b i \<noteq> NULL"
    using page_at_nonnull [OF A(3) b] inv by (simp add: pool_inv_def)
  ultimately show thesis
    using that [of i m1 ?m2] A(1,3,4,5,7,8) pm up fr(4,5) [OF ok1] by simp
qed

lemma alloc_frame_trans:
  "alloc_frame m m1 p \<Longrightarrow> alloc_frame m1 m2 p \<Longrightarrow> bits m1 p = bits m p \<Longrightarrow>
   bitmap_bytes_len m1 p = bitmap_bytes_len m p \<Longrightarrow> alloc_frame m m2 p"
  by (simp add: alloc_frame_def)

lemma heap_ready_tail:
  assumes "heap_ready m v (Suc n)" "vpn v + Suc n \<le> 0xFFC00"
    and "\<forall>w. vpn w \<noteq> vpn v \<longrightarrow> ld32 m' (GetPTEPointer w) = ld32 m (GetPTEPointer w)"
  shows "heap_ready m' (v + PAGE_SIZE) n"
proof -
  have "table_present m' u \<and> page_absent m' u" if i: "i < n" "u = v + PAGE_SIZE + of_nat i * PAGE_SIZE" for i u
  proof -
    have u: "u = v + of_nat (Suc i) * PAGE_SIZE" using i(2) by (simp add: algebra_simps)
    have "vpn u = vpn v + Suc i"
      unfolding u using assms(2) i(1) by (intro vpn_add) simp
    then have "vpn u \<noteq> vpn v" "vpn (GetPTEPointer u) \<noteq> vpn v"
      using vpn_window [of u] assms(2) by auto
    moreover have "table_present m u" "page_absent m u"
      using assms(1) i(1) u unfolding heap_ready_def by (metis Suc_less_eq)+
    ultimately show ?thesis
      using assms(3) by (simp add: table_present_def page_absent_def GetPDEPointer_PTE)
  qed
  then show ?thesis by (simp add: heap_ready_def)
qed

lemma palloc_loop_ok:
  assumes "pool_inv p b cap s" "p = memory_pool_of g pf" "pool_apart (mem s) p"
    and "0 < unat b" "unat b + cap * 4096 \<le> 2 ^ 32" "card (used_pages p s) + n \<le> cap"
    and "vpn v + n \<le> 0xFFC00" "heap_ready (mem s) v n"
  shows "\<exists>is m'. palloc_loop n g s pf vs v = Ok vs (s\<lparr>mem := m'\<rparr>) \<and> length is = n \<and> distinct is
    \<and> set is \<inter> used_pages p s = {} \<and> set is \<subseteq> {..<cap} \<and> pool_inv p b cap (s\<lparr>mem := m'\<rparr>)
    \<and> used_pages p (s\<lparr>mem := m'\<rparr>) = used_pages p s \<union> set is \<and> alloc_frame (mem s) m' p
    \<and> (\<forall>i < n. ld32 m' (GetPTEPointer (v + of_nat i * PAGE_SIZE)) = page_at b (is ! i) OR PAGE_FLAGS)
    \<and> (\<forall>w. vpn w < vpn v \<or> vpn v + n \<le> vpn w \<longrightarrow> ld32 m' (GetPTEPointer w) = ld32 (mem s) (GetPTEPointer w))"
  using assms
proof (induction n arbitrary: s v)
  case 0
  then show ?case by (intro exI [of _ "[]"] exI [of _ "mem s"]) (simp add: alloc_frame_def)
next
  case (Suc n)
  have hr: "table_present (mem s) v" "page_absent (mem s) v"
    using Suc.prems(8) unfolding heap_ready_def by fastforce+
  obtain i m1 m2 where S: "GetOnePhysicPage s p = Ok (page_at b i) (s\<lparr>mem := m1\<rparr>)" "page_at b i \<noteq> NULL"
    "PageMapping g (s\<lparr>mem := m1\<rparr>) v (page_at b i) = Ok () (s\<lparr>mem := m2\<rparr>)"
    "i < cap" "i \<notin> used_pages p s" "used_pages p (s\<lparr>mem := m2\<rparr>) = insert i (used_pages p s)"
    "pool_inv p b cap (s\<lparr>mem := m2\<rparr>)" "pool_apart m2 p" "alloc_frame (mem s) m2 p"
    "bits m2 p = bits (mem s) p" "bitmap_bytes_len m2 p = bitmap_bytes_len (mem s) p"
    "ld32 m2 (GetPTEPointer v) = page_at b i OR PAGE_FLAGS"
    "\<forall>w. vpn w \<noteq> vpn v \<longrightarrow> ld32 m2 (GetPTEPointer w) = ld32 (mem s) (GetPTEPointer w)"
    using palloc_step [OF Suc.prems(1) _ Suc.prems(3,4,5) _ hr, of g thesis] Suc.prems(6,7) by simp
  let ?s = "s\<lparr>mem := m2\<rparr>" and ?v = "v + PAGE_SIZE"
  have vn: "vpn ?v = vpn v + 1"
    using vpn_add [of v 1] Suc.prems(7) by simp
  have "finite (used_pages p s)" by (simp add: used_pages_def)
  then have card: "card (used_pages p ?s) + n \<le> cap" using S(5,6) Suc.prems(6) by simp
  have "vpn ?v + n \<le> 0xFFC00" using vn Suc.prems(7) by simp
  moreover have "heap_ready (mem ?s) ?v n"
    using heap_ready_tail [OF Suc.prems(8,7) S(13)] by simp
  moreover have "pool_apart (mem ?s) p" using S(8) by simp
  ultimately obtain js m' where J: "palloc_loop n g ?s pf vs ?v = Ok vs (?s\<lparr>mem := m'\<rparr>)" "length js = n"
    "distinct js" "set js \<inter> used_pages p ?s = {}" "set js \<subseteq> {..<cap}" "pool_inv p b cap (?s\<lparr>mem := m'\<rparr>)"
    "used_pages p (?s\<lparr>mem := m'\<rparr>) = used_pages p ?s \<union> set js" "alloc_frame (mem ?s) m' p"
    "\<forall>i < n. ld32 m' (GetPTEPointer (?v + of_nat i * PAGE_SIZE)) = page_at b (js ! i) OR PAGE_FLAGS"
    "\<forall>w. vpn w < vpn ?v \<or> vpn ?v + n \<le> vpn w \<longrightarrow> ld32 m' (GetPTEPointer w) = ld32 (mem ?s) (GetPTEPointer w)"
    using Suc.IH [OF S(7) Suc.prems(2) _ Suc.prems(4,5) card] by blast
  have "ld32 m' (GetPTEPointer (v + of_nat k * PAGE_SIZE)) = page_at b ((i # js) ! k) OR PAGE_FLAGS"
    if "k < Suc n" for k
  proof (cases k)
    case 0
    then show ?thesis using J(10) [rule_format, of v] vn S(12) by simp
  next
    case (Suc k')
    then show ?thesis using J(9) [rule_format, of k'] that by (simp add: algebra_simps)
  qed
  moreover have "ld32 m' (GetPTEPointer w) = ld32 (mem s) (GetPTEPointer w)"
    if "vpn w < vpn v \<or> vpn v + Suc n \<le> vpn w" for w
    using J(10) [rule_format, of w] S(13) [rule_format, of w] that vn by auto
  moreover have "palloc_loop (Suc n) g s pf vs v = Ok vs (s\<lparr>mem := m'\<rparr>)"
    using S(1-3) J(1) Suc.prems(2) by simp
  moreover have "alloc_frame (mem s) m' p"
    using alloc_frame_trans [OF S(9) _ S(10,11)] J(8) by simp
  ultimately show ?case
    using S(4,5,6) J(2-7) by (intro exI [of _ "i # js"] exI [of _ m']) auto
qed

section \<open>Virtual pages\<close>

lemma set_bits_effect:
  assumes "bitmap_wf m p" "unat idx + n \<le> bm_size m p" "v = 0 \<or> v = 1"
  shows "\<exists>m'. set_bits n m p idx v = Ok () m' \<and> only_in m m' (bits m p) (unat (bitmap_bytes_len m p))
    \<and> bitmap_wf m' p \<and> eq_on m' m p 8
    \<and> (\<forall>k < 2 ^ 32. bm m' p k = (if unat idx \<le> k \<and> k < unat idx + n then v = 1 else bm m p k))"
  using assms
proof (induction n arbitrary: m idx)
  case 0
  then show ?case by (auto simp: eq_on_def)
next
  case (Suc n)
  have i: "unat idx < bm_size m p" using Suc.prems(2) by simp
  obtain m1 where m1: "BitmapSetBit m p idx v = Ok () m1"
    "only_in m m1 (bits m p) (unat (bitmap_bytes_len m p))" "eq_on m1 m p 8" "bitmap_wf m1 p"
    "bm_size m1 p = bm_size m p" and b1: "\<forall>k < 2 ^ 32. bm m1 p k = (if k = unat idx then v = 1 else bm m p k)"
  proof (rule BitmapSetBit_effect [OF Suc.prems(1) i Suc.prems(3)])
    fix m' assume "BitmapSetBit m p idx v = Ok () m'"
      "only_in m m' (bits m p) (unat (bitmap_bytes_len m p))" "eq_on m' m p 8" "bitmap_wf m' p"
      "bm_size m' p = bm_size m p" "\<And>k. k < 2 ^ 32 \<Longrightarrow> bm m' p k = (if k = unat idx then v = 1 else bm m p k)"
    then show thesis by (intro that) blast+
  qed
  note same = bitmap_frame [OF m1(3)]
  have u: "unat (idx + 1) = Suc (unat idx)"
    using i bm_size_bound [OF Suc.prems(1)] by (subst unat_plus_lt) simp_all
  then obtain m' where m': "set_bits n m1 p (idx + 1) v = Ok () m'"
    "only_in m1 m' (bits m p) (unat (bitmap_bytes_len m p))" "bitmap_wf m' p" "eq_on m' m1 p 8"
    "\<forall>k < 2 ^ 32. bm m' p k = (if Suc (unat idx) \<le> k \<and> k < Suc (unat idx) + n then v = 1 else bm m1 p k)"
    using Suc.IH [OF m1(4), of "idx + 1"] Suc.prems(2,3) m1(5) same by auto
  have "bm m' p k = (if unat idx \<le> k \<and> k < unat idx + Suc n then v = 1 else bm m p k)" if "k < 2 ^ 32" for k
    using m'(5) [rule_format, OF that] b1 [rule_format, OF that] by auto
  moreover have "eq_on m' m p 8" using m'(4) m1(3) by (simp add: eq_on_def)
  moreover have "only_in m m' (bits m p) (unat (bitmap_bytes_len m p))"
    by (rule only_in_trans [OF m1(2) m'(2)])
  ultimately show ?case using m1(1) m'(1,3) by simp
qed

text \<open>A run inside the bitmap is also the first one of the window \<open>BitmapScan\<close> searches.\<close>

lemma first_run_window:
  assumes "first_run f cnt n = Some r"
  shows "first_run f cnt (n + 1) = Some r"
  using assms by (auto simp: first_run_Some)

lemma BitmapScan_finds:
  assumes wf: "bitmap_wf m p" and c: "cnt \<noteq> 0" and r: "first_run (bm m p) (unat cnt) (bm_size m p) = Some r"
  shows "BitmapScan m p cnt = Ok (of_nat r) m" "r + unat cnt \<le> bm_size m p" "unat (of_nat r :: u32) = r"
    "(of_nat r :: u32) \<noteq> - 1"
proof -
  have c1: "1 \<le> unat cnt" using c by (simp add: unat_gt_0 Suc_le_eq)
  show le: "r + unat cnt \<le> bm_size m p" using r c1 by (auto simp: first_run_Some)
  have sz: "bm_size m p < 2 ^ 31" by (rule bm_size_bound [OF wf])
  then show u: "unat (of_nat r :: u32) = r" using le by simp
  show "(of_nat r :: u32) \<noteq> - 1"
  proof
    assume "(of_nat r :: u32) = - 1"
    then have "r = 4294967295" using u unat_minus_1_u32 by metis
    with le sz show False by simp
  qed
  have "run_free (bm m p) (unat cnt) r" using r by (simp add: first_run_Some)
  then have "\<not> bm m p r" using c1 unfolding run_free_def by (metis add.right_neutral less_le_trans zero_less_one)
  moreover have "r < bm_size m p" using le c1 by simp
  ultimately show "BitmapScan m p cnt = Ok (of_nat r) m"
    using BitmapScan_eq [OF wf c] r first_run_window [OF r] by (auto simp: scan_window_def)
qed

lemma GetVirtualPage_effect:
  assumes pv: "pv = vaddr_pool g s pf" and wf: "bitmap_wf (mem s) pv"
    and sp: "sep (bits (mem s) pv) (unat (bitmap_bytes_len (mem s) pv)) pv 12"
    and c: "cnt \<noteq> 0" and r: "first_run (bm (mem s) pv) (unat cnt) (bm_size (mem s) pv) = Some r"
  obtains m' where
    "GetVirtualPage g s pf cnt = Ok (vaddr_start (mem s) pv + of_nat r * PAGE_SIZE) (s\<lparr>mem := m'\<rparr>)"
    "only_in (mem s) m' (bits (mem s) pv) (unat (bitmap_bytes_len (mem s) pv))"
    "bitmap_wf m' pv" "bm_size m' pv = bm_size (mem s) pv"
    "\<forall>k < 2 ^ 32. bm m' pv k = (r \<le> k \<and> k < r + unat cnt \<or> bm (mem s) pv k)"
proof -
  note sc = BitmapScan_finds [OF wf c r]
  obtain m' where m': "set_bits (unat cnt) (mem s) pv (of_nat r) 1 = Ok () m'"
    "only_in (mem s) m' (bits (mem s) pv) (unat (bitmap_bytes_len (mem s) pv))"
    "bitmap_wf m' pv" "eq_on m' (mem s) pv 8"
    "\<forall>k < 2 ^ 32. bm m' pv k = (if r \<le> k \<and> k < r + unat cnt then (1 :: u8) = 1 else bm (mem s) pv k)"
    using set_bits_effect [OF wf, of "of_nat r" "unat cnt" 1] sc(2,3) by auto
  have "eq_on m' (mem s) pv 12" by (rule only_in_sep [OF m'(2) sp])
  from eq_on_part [OF this, of 8 4] have "vaddr_start m' pv = vaddr_start (mem s) pv"
    by (simp add: vaddr_start_def ld32_cong)
  then have "GetVirtualPage g s pf cnt = Ok (vaddr_start (mem s) pv + of_nat r * PAGE_SIZE) (s\<lparr>mem := m'\<rparr>)"
    using pv sc(1,4) m'(1) by (simp add: GetVirtualPage_def Let_def)
  moreover have "bm_size m' pv = bm_size (mem s) pv"
    using bitmap_frame(2) [OF m'(4)] by (simp add: bm_size_def)
  moreover have "\<forall>k < 2 ^ 32. bm m' pv k = (r \<le> k \<and> k < r + unat cnt \<or> bm (mem s) pv k)"
    using m'(5) by auto
  ultimately show thesis using that m'(2,3) by blast
qed

section \<open>The allocator as a whole\<close>

text \<open>
  What \<open>palloc\<close> needs to succeed: a run of free virtual pages inside the bitmap, enough free
  physical pages, page tables for the run with no page mapped in it, and the objects
  involved apart from each other.
\<close>

definition palloc_ready :: "symbols \<Rightarrow> kstate \<Rightarrow> pool_flags \<Rightarrow> nat \<Rightarrow> nat \<Rightarrow> u32 \<Rightarrow> nat \<Rightarrow> bool" where
  "palloc_ready g s pf n r b cap \<longleftrightarrow>
     (let m = mem s; pv = vaddr_pool g s pf; p = memory_pool_of g pf;
          v = vaddr_start m pv + of_nat r * PAGE_SIZE; len = unat (bitmap_bytes_len m pv)
      in bitmap_wf m pv \<and> sep (bits m pv) len pv 12 \<and> first_run (bm m pv) n (bm_size m pv) = Some r
         \<and> 0 < len \<and> sep window 0x400000 (bits m pv) len \<and> sep window 0x400000 pv 12
         \<and> sep (bits m pv) len p 44 \<and> sep (bits m pv) len (bits m p) (unat (bitmap_bytes_len m p))
         \<and> sep (bits m p) (unat (bitmap_bytes_len m p)) pv 12
         \<and> pool_inv p b cap s \<and> pool_apart m p \<and> page_aligned b \<and> 0 < unat b \<and> unat b + cap * 4096 \<le> 2 ^ 32
         \<and> card (used_pages p s) + n \<le> cap
         \<and> page_aligned v \<and> v \<noteq> NULL \<and> vpn v + n \<le> 0xFFC00 \<and> heap_ready m v n)"

lemma pool_after_vpage:
  assumes "pool_inv p b cap s" "pool_apart (mem s) p" "0 < len"
    and "only_in (mem s) m1 bs len" "sep bs len p 44" "sep bs len (bits (mem s) p) (unat (bitmap_bytes_len (mem s) p))"
  shows "pool_inv p b cap (s\<lparr>mem := m1\<rparr>)" "pool_apart m1 p" "used_pages p (s\<lparr>mem := m1\<rparr>) = used_pages p s"
    "bits m1 p = bits (mem s) p" "bitmap_bytes_len m1 p = bitmap_bytes_len (mem s) p"
proof -
  have ok: "pool_ok (mem s) p" using assms(1) by (simp add: pool_inv_def)
  have e: "eq_on m1 (mem s) p 44" by (rule only_in_sep [OF assms(4,5)])
  note fr = pool_ok_frame [OF ok e]
  show "pool_inv p b cap (s\<lparr>mem := m1\<rparr>)" "pool_apart m1 p" "bits m1 p = bits (mem s) p"
    "bitmap_bytes_len m1 p = bitmap_bytes_len (mem s) p"
    using assms(1,2) fr by (simp_all add: pool_inv_def pool_apart_def)
  have eb: "eq_on (mem s) m1 (bits (mem s) p) (unat (bitmap_bytes_len (mem s) p))"
    using only_in_sep [OF assms(4,6)] by (simp add: eq_on_def)
  have "eq_on (mem s) m1 p 8" using eq_on_part [OF e, of 0 8] by (simp add: eq_on_def)
  then have "bm m1 p k = bm (mem s) p k" if "k < bm_size (mem s) p" for k
    using bm_frame [OF _ eb that] by simp
  then show "used_pages p (s\<lparr>mem := m1\<rparr>) = used_pages p s"
    using fr(3) by (auto simp: used_pages_def)
qed

lemma heap_ready_frame:
  assumes "heap_ready m v n" "only_in m m1 b k" "sep window 0x400000 b k" "0 < k"
  shows "heap_ready m1 v n"
proof -
  have "ld32 m1 (GetPTEPointer w) = ld32 m (GetPTEPointer w)" for w
    by (rule b4.ld_frame [OF assms(2) sep_sym [OF window_pte_sep [OF assms(3,4)]]])
  then show ?thesis
    using assms(1) by (simp add: heap_ready_def table_present_def page_absent_def GetPDEPointer_PTE)
qed

lemma alloc_frame_eq_on:
  assumes "alloc_frame m m' p" "sep (bits m p) (unat (bitmap_bytes_len m p)) b k" "sep window 0x400000 b k"
  shows "eq_on m' m b k"
proof -
  have "\<not> inr x (bits m p) (unat (bitmap_bytes_len m p))" "\<not> inr x window 0x400000" if "inr x b k" for x
    using sep_disjoint [OF sep_sym [OF assms(2)] that] sep_disjoint [OF sep_sym [OF assms(3)] that] by blast+
  then show ?thesis using assms(1) by (auto simp: alloc_frame_def eq_on_def)
qed

text \<open>What an allocation may write: the two bitmaps and the page-table window.\<close>

definition palloc_frame :: "symbols \<Rightarrow> kstate \<Rightarrow> pool_flags \<Rightarrow> mem \<Rightarrow> bool" where
  "palloc_frame g s pf m' \<longleftrightarrow> (\<forall>x.
     \<not> inr x (bits (mem s) (vaddr_pool g s pf)) (unat (bitmap_bytes_len (mem s) (vaddr_pool g s pf)))
     \<and> \<not> inr x (bits (mem s) (memory_pool_of g pf)) (unat (bitmap_bytes_len (mem s) (memory_pool_of g pf)))
     \<and> \<not> inr x window 0x400000 \<longrightarrow> m' x = mem s x)"

definition palloc_apart :: "symbols \<Rightarrow> kstate \<Rightarrow> pool_flags \<Rightarrow> addr \<Rightarrow> nat \<Rightarrow> bool" where
  "palloc_apart g s pf b k \<longleftrightarrow>
     sep (bits (mem s) (vaddr_pool g s pf)) (unat (bitmap_bytes_len (mem s) (vaddr_pool g s pf))) b k
     \<and> sep (bits (mem s) (memory_pool_of g pf)) (unat (bitmap_bytes_len (mem s) (memory_pool_of g pf))) b k
     \<and> sep window 0x400000 b k"

lemma palloc_frame_eq_on:
  assumes "palloc_frame g s pf m'" "palloc_apart g s pf b k"
  shows "eq_on m' (mem s) b k"
  unfolding eq_on_def
proof (intro allI impI)
  fix x assume x: "inr x b k"
  have "\<not> inr x a n" if "sep a n b k" for a n
    using sep_disjoint [OF that] x by blast
  then show "m' x = mem s x" using assms by (simp add: palloc_frame_def palloc_apart_def)
qed

lemma palloc_effect:
  assumes ready: "palloc_ready g s pf (unat cnt) r b cap" and c: "cnt \<noteq> 0" "cnt < 3840"
    and pv: "pv = vaddr_pool g s pf" and p: "p = memory_pool_of g pf"
    and v: "v = vaddr_start (mem s) pv + of_nat r * PAGE_SIZE"
  shows "\<exists>is m'. palloc g s pf cnt = Ok v (s\<lparr>mem := m'\<rparr>) \<and> length is = unat cnt \<and> distinct is
    \<and> set is \<inter> used_pages p s = {} \<and> set is \<subseteq> {..<cap}
    \<and> pool_inv p b cap (s\<lparr>mem := m'\<rparr>) \<and> used_pages p (s\<lparr>mem := m'\<rparr>) = used_pages p s \<union> set is
    \<and> (\<forall>i < unat cnt. VirtualAddrToPhysicAddr m' (v + of_nat i * PAGE_SIZE) = page_at b (is ! i))
    \<and> (\<forall>k < bm_size (mem s) pv. bm m' pv k = (r \<le> k \<and> k < r + unat cnt \<or> bm (mem s) pv k))
    \<and> palloc_frame g s pf m'
    \<and> (\<forall>w. vpn w < vpn v \<or> vpn v + unat cnt \<le> vpn w \<longrightarrow> ld32 m' (GetPTEPointer w) = ld32 (mem s) (GetPTEPointer w))"
proof -
  let ?len = "unat (bitmap_bytes_len (mem s) pv)" and ?bs = "bits (mem s) pv" and ?n = "unat cnt"
  note R = ready [unfolded palloc_ready_def Let_def, folded pv p, folded v]
  have wf: "bitmap_wf (mem s) pv" and sp: "sep ?bs ?len pv 12"
    and fr: "first_run (bm (mem s) pv) ?n (bm_size (mem s) pv) = Some r" and len: "0 < ?len"
    and w1: "sep window 0x400000 ?bs ?len" and w2: "sep window 0x400000 pv 12"
    and s1: "sep ?bs ?len p 44" and s2: "sep ?bs ?len (bits (mem s) p) (unat (bitmap_bytes_len (mem s) p))"
    and s3: "sep (bits (mem s) p) (unat (bitmap_bytes_len (mem s) p)) pv 12"
    and pi: "pool_inv p b cap s" and pap: "pool_apart (mem s) p" and ba: "page_aligned b" and b: "0 < unat b"
    "unat b + cap * 4096 \<le> 2 ^ 32" and cd: "card (used_pages p s) + ?n \<le> cap"
    and va: "page_aligned v" and vn: "v \<noteq> NULL" and vb: "vpn v + ?n \<le> 0xFFC00" and hr: "heap_ready (mem s) v ?n"
    using R by auto
  obtain m1 where V: "GetVirtualPage g s pf cnt = Ok v (s\<lparr>mem := m1\<rparr>)"
    "only_in (mem s) m1 ?bs ?len" "bitmap_wf m1 pv" "bm_size m1 pv = bm_size (mem s) pv"
    "\<forall>k < 2 ^ 32. bm m1 pv k = (r \<le> k \<and> k < r + ?n \<or> bm (mem s) pv k)"
    using GetVirtualPage_effect [OF pv wf sp c(1) fr] v by blast
  note P = pool_after_vpage [OF pi pap len V(2) s1 s2]
  obtain "is" m' where L: "palloc_loop ?n g (s\<lparr>mem := m1\<rparr>) pf v v = Ok v (s\<lparr>mem := m'\<rparr>)" "length is = ?n"
    "distinct is" "set is \<inter> used_pages p (s\<lparr>mem := m1\<rparr>) = {}" "set is \<subseteq> {..<cap}"
    "pool_inv p b cap (s\<lparr>mem := m'\<rparr>)"
    "used_pages p (s\<lparr>mem := m'\<rparr>) = used_pages p (s\<lparr>mem := m1\<rparr>) \<union> set is" "alloc_frame m1 m' p"
    "\<forall>i < ?n. ld32 m' (GetPTEPointer (v + of_nat i * PAGE_SIZE)) = page_at b (is ! i) OR PAGE_FLAGS"
    "\<forall>w. vpn w < vpn v \<or> vpn v + ?n \<le> vpn w \<longrightarrow> ld32 m' (GetPTEPointer w) = ld32 m1 (GetPTEPointer w)"
    using palloc_loop_ok [OF P(1) p _ b _ vb, of v] P(2,3) cd heap_ready_frame [OF hr V(2) w1 len] by auto
  have "VirtualAddrToPhysicAddr m' (v + of_nat i * PAGE_SIZE) = page_at b (is ! i)" if "i < ?n" for i
    by (rule translate_entry [OF L(9) [rule_format, OF that]])
      (use page_aligned_add [OF ba] page_aligned_add [OF va, of i] in \<open>simp_all add: page_at_def add.commute\<close>)
  moreover have "bm m' pv k = (r \<le> k \<and> k < r + ?n \<or> bm (mem s) pv k)" if "k < bm_size (mem s) pv" for k
  proof -
    have ev: "eq_on m1 (mem s) pv 8"
      using eq_on_part [OF only_in_sep [OF V(2) sp], of 0 8] by simp
    have e12: "eq_on m' m1 pv 12"
      by (rule alloc_frame_eq_on [OF L(8) _ w2]) (use s3 P(4,5) in simp)
    have e: "eq_on m1 m' pv 8" using eq_on_part [OF e12, of 0 8] by (simp add: eq_on_def)
    have "eq_on m' m1 ?bs ?len"
      by (rule alloc_frame_eq_on [OF L(8) _ w1]) (use sep_sym [OF s2] P(4,5) in simp)
    then have "bm m1 pv k = bm m' pv k"
      using bm_frame [OF e] bitmap_frame [OF ev] that V(4) by (simp add: eq_on_def)
    moreover have "k < 2 ^ 32" using that bm_size_bound [OF wf] by simp
    ultimately show ?thesis using V(5) by simp
  qed
  moreover have "palloc g s pf cnt = Ok v (s\<lparr>mem := m'\<rparr>)"
    using c V(1) vn L(1) by (simp add: palloc_def)
  moreover have "palloc_frame g s pf m'"
    using V(2) L(8) P(4,5) by (simp add: palloc_frame_def only_in_def alloc_frame_def pv p)
  moreover have "ld32 m1 (GetPTEPointer w) = ld32 (mem s) (GetPTEPointer w)" for w
    by (rule b4.ld_frame [OF V(2) sep_sym [OF window_pte_sep [OF w1 len]]])
  ultimately show ?thesis using L(2-7,10) P(3) by (intro exI [of _ "is"] exI [of _ m']) simp
qed

section \<open>A missing page table\<close>

definition table_page :: "addr \<Rightarrow> addr" where
  "table_page v = GetPTEPointer v AND 0xFFFFF000"

lemma table_page_bits: "table_page v = push_bit 22 (mask 10) OR push_bit 12 (PDE_IDX v)"
  unfolding table_page_def GetPTEPointer_bits masks
  by (rule bit_word_eqI) (auto simp: bit_simps PDE_IDX_bit PTE_IDX_bit)

lemma table_page_aligned: "page_aligned (table_page v)"
  by (simp add: table_page_bits page_aligned_low bit_simps)

lemma unat_PTE_IDX: "unat (PTE_IDX v) < 2 ^ 10"
proof -
  have "PTE_IDX v = take_bit 10 (PTE_IDX v)"
    by (rule bit_word_eqI) (auto simp: bit_simps PTE_IDX_bit)
  then have "unat (PTE_IDX v) = take_bit 10 (unat (PTE_IDX v))" by (metis unsigned_take_bit_eq)
  then show ?thesis by (metis take_bit_nat_less_exp)
qed

lemma table_page_inr:
  assumes "unat i < 4"
  shows "inr (GetPTEPointer v + i) (table_page v) 4096"
proof -
  have "push_bit 22 (mask 10) OR push_bit 12 (PDE_IDX v) OR push_bit 2 (PTE_IDX v)
      = (push_bit 22 (mask 10) OR push_bit 12 (PDE_IDX v)) + push_bit 2 (PTE_IDX v)"
    unfolding or.assoc [symmetric]
    by (rule disjunctive_add [symmetric]) (auto simp: bit_simps PDE_IDX_bit PTE_IDX_bit)
  then have eq: "GetPTEPointer v = table_page v + push_bit 2 (PTE_IDX v)"
    unfolding GetPTEPointer_bits table_page_bits by simp
  have "unat (push_bit 2 (PTE_IDX v)) \<le> 4092"
    using unat_PTE_IDX [of v] unat_mult_lt [of "PTE_IDX v" 4] by (simp add: times_4 [symmetric])
  then show ?thesis
    unfolding eq using unat_plus_le [of "push_bit 2 (PTE_IDX v)" i] assms
    by (simp add: inr_def add.assoc)
qed

text \<open>Every page table is seen in the window.\<close>

lemma table_only_window: "only_in m m' (table_page v) 4096 \<Longrightarrow> only_in m m' window 0x400000"
proof -
  have eq: "table_page v = window + push_bit 12 (PDE_IDX v)"
  proof -
    have "push_bit 22 (mask 10) OR push_bit 12 (PDE_IDX v) = push_bit 22 (mask 10) + push_bit 12 (PDE_IDX v)"
      by (rule disjunctive_add [symmetric]) (auto simp: bit_simps PDE_IDX_bit)
    then show ?thesis by (simp add: table_page_bits mask_eq_exp_minus_1)
  qed
  have "unat (PDE_IDX v) < 2 ^ 10"
  proof -
    have "PDE_IDX v = take_bit 10 (PDE_IDX v)"
      by (rule bit_word_eqI) (auto simp: bit_simps PDE_IDX_bit)
    then have "unat (PDE_IDX v) = take_bit 10 (unat (PDE_IDX v))" by (metis unsigned_take_bit_eq)
    then show ?thesis by (metis take_bit_nat_less_exp)
  qed
  then have b: "unat (push_bit 12 (PDE_IDX v)) + 4096 \<le> 0x400000"
    using unat_mult_lt [of "PDE_IDX v" 4096] by (simp add: push_bit_eq_mult)
  show "only_in m m' (table_page v) 4096 \<Longrightarrow> only_in m m' window 0x400000"
    unfolding eq by (rule only_in_part [OF _ b])
qed

lemma pte_only_table: "only_in m (st32 m (GetPTEPointer v) x) (table_page v) 4096"
proof -
  have "inr y (table_page v) 4096" if "inr y (GetPTEPointer v) 4" for y
    using table_page_inr [of "y - GetPTEPointer v" v] that by (simp add: inr_def)
  then show ?thesis using only_in_st32 [of m "GetPTEPointer v" x] by (auto simp: only_in_def)
qed

lemma table_page_neq: "vpn v < 0xFFC00 \<Longrightarrow> table_page v \<noteq> table_page (GetPTEPointer v)"
proof
  assume v: "vpn v < 0xFFC00" and eq: "table_page v = table_page (GetPTEPointer v)"
  have "PDE_IDX v = mask 10"
  proof (rule bit_word_eqI)
    fix n assume "n < LENGTH(32)"
    have "bit (table_page v) (n + 12) = bit (table_page (GetPTEPointer v)) (n + 12)" using eq by simp
    then show "bit (PDE_IDX v) n = bit (mask 10 :: u32) n"
      by (auto simp: table_page_bits window_indices bit_simps PDE_IDX_bit dest: bit_imp_le_length)
  qed
  moreover have "PDE_IDX v = drop_bit 22 v"
    by (rule bit_word_eqI) (auto simp: bit_simps PDE_IDX_bit add.commute dest: bit_imp_le_length)
  ultimately have "unat (drop_bit 22 v) = 1023" by (simp add: mask_eq_exp_minus_1)
  then have "unat v div 4194304 = 1023" by (simp add: drop_bit_eq_div unat_div)
  with v show False by (simp add: vpn_def)
qed

text \<open>A page table made of a fresh page: every entry of it is clear.\<close>

lemma PageMapping_absent:
  assumes inv: "pool_inv kp b cap s" "kp = kernel_memory_pool g" and room: "used_pages kp s \<noteq> {..<cap}"
    and t: "\<not> table_present (mem s) v" and v: "vpn v < 0xFFC00"
  obtains m' where "PageMapping g s v p = Ok () (s\<lparr>mem := m'\<rparr>)"
    "ld32 m' (GetPTEPointer v) = p OR PAGE_FLAGS" "table_present m' v"
    "\<And>w. PDE_IDX w = PDE_IDX v \<Longrightarrow> vpn w \<noteq> vpn v \<Longrightarrow> ld32 m' (GetPTEPointer w) = 0"
    "alloc_frame (mem s) m' kp"
proof -
  obtain i m1 where A: "GetOnePhysicPage s kp = Ok (page_at b i) (s\<lparr>mem := m1\<rparr>)"
    and B: "only_in (mem s) m1 (bits (mem s) kp) (unat (bitmap_bytes_len (mem s) kp))"
    by (rule pool_alloc_effect [OF inv(1) room]) (rule that)
  let ?m2 = "st32 m1 (GetPDEPointer v) (page_at b i OR PAGE_FLAGS)"
  let ?m3 = "memset_loop 4096 ?m2 (table_page v) 0"
  let ?m4 = "st32 ?m3 (GetPTEPointer v) (p OR PAGE_FLAGS)"
  have nn: "table_page v \<noteq> NULL"
  proof -
    have "bit (table_page v) 22" by (simp add: table_page_bits bit_simps)
    then show ?thesis by auto
  qed
  have "PageMapping g s v p = Ok () (s\<lparr>mem := ?m4\<rparr>)"
    using A t nn inv(2)
    by (simp add: PageMapping_def table_present_def memset_def put32_def Let_def table_page_def [symmetric])
  moreover have "ld32 ?m4 (GetPTEPointer w) = 0" if w: "PDE_IDX w = PDE_IDX v" "vpn w \<noteq> vpn v" for w
  proof -
    have "ld32 ?m4 (GetPTEPointer w) = ld32 ?m3 (GetPTEPointer w)"
      using pte_sep [of v w] w(2) by simp
    moreover have "?m3 (GetPTEPointer w + i) = 0" if "unat i < 4" for i
      using table_page_inr [OF that, of w] w(1) by (simp add: memset_loop_byte table_page_bits)
    from this [of 0] this [of 1] this [of 2] this [of 3] have "ld32 ?m3 (GetPTEPointer w) = 0"
      by (simp add: ld32_def)
    ultimately show ?thesis by simp
  qed
  moreover have "table_present ?m4 v"
  proof -
    let ?t = "table_page (GetPTEPointer v)"
    have "sep (table_page v) 4096 ?t 4096"
      by (rule pages_sep [OF table_page_aligned table_page_aligned table_page_neq [OF v]])
    moreover have "only_in ?m2 ?m4 (table_page v) 4096"
      by (rule only_in_trans [OF memset_loop_only_in pte_only_table]) simp
    ultimately have "eq_on ?m4 ?m2 ?t 4096" by (intro only_in_sep)
    then have "?m4 (GetPDEPointer v + i) = ?m2 (GetPDEPointer v + i)" if "unat i < 4" for i
      using table_page_inr [OF that, of "GetPTEPointer v"] by (simp add: eq_on_def GetPDEPointer_PTE)
    from this [of 0] this [of 1] this [of 2] this [of 3]
    have "ld32 ?m4 (GetPDEPointer v) = ld32 ?m2 (GetPDEPointer v)" by (simp add: ld32_def)
    moreover have "bit (PAGE_FLAGS) 0" by (simp add: PAGE_FLAGS_val)
    then have "bit ((page_at b i OR PAGE_FLAGS) AND PAGE_P_1) 0"
      by (simp add: bit_simps PAGE_P_1_def)
    then have "(page_at b i OR PAGE_FLAGS) AND PAGE_P_1 \<noteq> 0" by auto
    ultimately show ?thesis by (simp add: table_present_def)
  qed
  moreover have "alloc_frame (mem s) ?m4 kp"
  proof -
    have "only_in m1 ?m2 window 0x400000" using pte_only_window by (simp add: GetPDEPointer_PTE)
    moreover have "only_in ?m2 ?m3 window 0x400000"
      by (rule table_only_window [OF memset_loop_only_in]) simp
    ultimately show ?thesis using B pte_only_window [of ?m3 v] by (simp add: alloc_frame_def only_in_def)
  qed
  ultimately show thesis using that [of ?m4] by simp
qed

section \<open>Properties\<close>

text \<open>Calling \<open>GetOnePhysicPage\<close> \<open>n\<close> times.\<close>

primrec GetPhysicPages :: "nat \<Rightarrow> kstate \<Rightarrow> addr \<Rightarrow> (kstate, u32 list) outcome" where
  "GetPhysicPages 0 s p = Ok [] s"
| "GetPhysicPages (Suc n) s p =
     obind (GetOnePhysicPage s p) (\<lambda>a s1. obind (GetPhysicPages n s1 p) (\<lambda>as s2. Ok (a # as) s2))"

text \<open>Physical pages are handed out once. From a pool with enough free pages \<open>n\<close> calls of
  \<open>GetOnePhysicPage\<close> return \<open>n\<close> different pages of the pool, none of them in use before,
  and mark exactly these as used; when fewer than \<open>n\<close> pages are free the kernel panics
  (the callers' handling of a \<open>NULL\<close> result is never reached).\<close>

theorem GetPhysicPages_distinct:
  assumes "pool_inv p b cap s"
  shows "if card (used_pages p s) + n \<le> cap
    then \<exists>is s'. GetPhysicPages n s p = Ok (map (page_at b) is) s' \<and> length is = n
      \<and> distinct (map (page_at b) is) \<and> set is \<inter> used_pages p s = {} \<and> set is \<subseteq> {..<cap}
      \<and> used_pages p s' = used_pages p s \<union> set is \<and> pool_inv p b cap s'
    else \<exists>fn c. GetPhysicPages n s p = Panic fn c"
proof (cases "card (used_pages p s) + n \<le> cap")
  case True
  obtain "is" s' where I: "GetPhysicPages n s p = Ok (map (page_at b) is) s'" "pool_inv p b cap s'"
    "length is = n" "distinct is" "set is \<inter> used_pages p s = {}" "set is \<subseteq> {..<cap}"
    "used_pages p s' = used_pages p s \<union> set is"
    using pa.take_n [of "\<lambda>n s. GetPhysicPages n s p" p, OF _ _ assms True] by auto
  have "distinct (map (page_at b) is)"
    using I(4,6) inj_on_subset [OF pa.page_inj [OF assms]] by (simp add: distinct_map)
  with I True show ?thesis by auto
next
  case False
  then show ?thesis
    using pa.take_n_panics [of "\<lambda>n s. GetPhysicPages n s p" p, OF _ _ assms] by simp
qed

text \<open>A pool of eight pages from \<open>0x200000\<close> on, all free; its bitmap is the byte at \<open>0xC009A000\<close>.
  A second bitmap, for virtual pages from \<open>0xC0100000\<close> on, follows. The page table for these
  pages exists and is empty.\<close>

definition demo_pools :: mem where
  "demo_pools = st32 (st32 (st32 (st32 (st32 (st32 (st32 (\<lambda>_. 0)
     0x1100 1) 0x1104 0xC009A000) 0x1108 0x200000)
     0x1300 1) 0x1304 0xC009A001) 0x1308 0xC0100000) 0xFFFFFC00 0x101007"

definition demo_pool_state :: kstate where
  "demo_pool_state = demo_state\<lparr>mem := demo_pools\<rparr>"

lemma demo_pool_views:
  "bitmap_bytes_len demo_pools 0x1100 = 1" "bits demo_pools 0x1100 = 0xC009A000"
  "physic_addr_start demo_pools 0x1100 = 0x200000"
  "bitmap_bytes_len demo_pools 0x1300 = 1" "bits demo_pools 0x1300 = 0xC009A001"
  "vaddr_start demo_pools 0x1300 = 0xC0100000"
  by (simp_all add: demo_pools_def bitmap_bytes_len_def bits_def physic_addr_start_def vaddr_start_def sep_def)

lemma demo_pool_bm: "i < 8 \<Longrightarrow> \<not> bm demo_pools 0x1100 i" "i < 8 \<Longrightarrow> \<not> bm demo_pools 0x1300 i"
  by (simp_all add: bm_def demo_pool_views) (simp_all add: demo_pools_def sep_def)

lemma demo_pool_inv: "pool_inv 0x1100 0x200000 8 demo_pool_state" "used_pages 0x1100 demo_pool_state = {}"
  using demo_pool_bm(1)
  by (auto simp: pool_inv_def pool_ok_def bitmap_wf_def demo_pool_state_def demo_pool_views bm_size_def
      used_pages_def sep_def)

theorem GetPhysicPages_distinct_witness:
  "\<exists>is s'. GetPhysicPages 3 demo_pool_state 0x1100 = Ok (map (page_at 0x200000) is) s' \<and> length is = 3
      \<and> distinct (map (page_at 0x200000) is)"
  using GetPhysicPages_distinct [OF demo_pool_inv(1), of 3] demo_pool_inv(2) by auto


lemma demo_palloc_ready: "palloc_ready demo_symbols demo_pool_state KERNEL_POOL 2 0 0x200000 8"
proof -
  have pv: "vaddr_pool demo_symbols demo_pool_state KERNEL_POOL = 0x1300"
    "memory_pool_of demo_symbols KERNEL_POOL = 0x1100"
    by (simp_all add: vaddr_pool_def memory_pool_of_def demo_symbols_def)
  have m: "mem demo_pool_state = demo_pools" by (simp add: demo_pool_state_def)
  have fr: "first_run (bm demo_pools 0x1300) 2 (bm_size demo_pools 0x1300) = Some 0"
    using demo_pool_bm(2) by (simp add: first_run_Some run_free_def bm_size_def demo_pool_views)
  have "table_present demo_pools (0xC0100000 + of_nat i * PAGE_SIZE) \<and> page_absent demo_pools (0xC0100000 + of_nat i * PAGE_SIZE)"
    if "i < 2" for i
    using that by (auto simp: less_2_cases_iff table_present_def page_absent_def GetPDEPointer_def GetPTEPointer_def
        PDE_IDX_def PTE_IDX_def PAGE_SIZE_def PAGE_P_1_def demo_pools_def sep_def)
  then have hr: "heap_ready demo_pools 0xC0100000 2" by (simp add: heap_ready_def)
  show ?thesis
    unfolding palloc_ready_def Let_def pv m
    using fr hr demo_pool_inv
    by (simp add: demo_pool_views bitmap_wf_def sep_def pool_apart_def page_aligned_def PAGE_MASK_def vpn_def)
qed


text \<open>Mapping a page. \<open>PageMapping\<close> of an unmapped page below the window makes the virtual
  page translate to the given physical page and the page table present; with an existing
  table no other entry of it changes, with a missing one a table is made of a fresh kernel
  page in which no other page is mapped. Mapping a page that is mapped panics.\<close>

theorem PageMapping_maps:
  assumes "page_aligned v" "page_aligned p" "vpn v < 0xFFC00"
    and "\<not> table_present (mem s) v \<Longrightarrow>
      pool_inv (kernel_memory_pool g) b cap s \<and> used_pages (kernel_memory_pool g) s \<noteq> {..<cap}"
  shows "if table_present (mem s) v \<and> \<not> page_absent (mem s) v
    then \<exists>c. PageMapping g s v p = Panic ''PageMapping'' c
    else \<exists>m'. PageMapping g s v p = Ok () (s\<lparr>mem := m'\<rparr>) \<and> VirtualAddrToPhysicAddr m' v = p
      \<and> table_present m' v
      \<and> (\<forall>w. PDE_IDX w = PDE_IDX v \<and> vpn w \<noteq> vpn v \<longrightarrow> ld32 m' (GetPTEPointer w)
          = (if table_present (mem s) v then ld32 (mem s) (GetPTEPointer w) else 0))"
proof (cases "table_present (mem s) v")
  case True
  let ?m = "st32 (mem s) (GetPTEPointer v) (p OR PAGE_FLAGS)"
  have "table_present ?m v"
    using True pte_pde_sep [OF assms(3), of v] by (simp add: table_present_def)
  then show ?thesis
    using True PageMapping_present [OF True, of g p] pte_sep [of v]
      translate_entry [OF _ assms(2,1), of ?m]
    by (auto simp: PageMapping_def page_absent_def table_present_def Let_def)
next
  case False
  with assms(4) have "pool_inv (kernel_memory_pool g) b cap s"
    "used_pages (kernel_memory_pool g) s \<noteq> {..<cap}" by auto
  from PageMapping_absent [OF this(1) refl this(2) False assms(3), of p] obtain m' where
    "PageMapping g s v p = Ok () (s\<lparr>mem := m'\<rparr>)" "ld32 m' (GetPTEPointer v) = p OR PAGE_FLAGS"
    "table_present m' v" "\<forall>w. PDE_IDX w = PDE_IDX v \<and> vpn w \<noteq> vpn v \<longrightarrow> ld32 m' (GetPTEPointer w) = 0"
    by metis
  with False show ?thesis
    using translate_entry [OF _ assms(2,1), of m'] by auto
qed

theorem PageMapping_maps_witness:
  "\<exists>m'. PageMapping demo_symbols demo_pool_state 0x08048000 0x00203000 = Ok () (demo_pool_state\<lparr>mem := m'\<rparr>)
     \<and> VirtualAddrToPhysicAddr m' 0x08048000 = 0x00203000"
proof -
  have t: "\<not> table_present (mem demo_pool_state) 0x08048000"
    by (simp add: table_present_def demo_pool_state_def demo_pools_def GetPDEPointer_def PDE_IDX_def sep_def)
  have g: "kernel_memory_pool demo_symbols = 0x1100" by (simp add: demo_symbols_def)
  have "(0 :: nat) \<in> {..<8}" by simp
  then have e: "used_pages 0x1100 demo_pool_state \<noteq> {..<8}"
    unfolding demo_pool_inv(2) by blast
  have "if table_present (mem demo_pool_state) 0x08048000 \<and> \<not> page_absent (mem demo_pool_state) 0x08048000
    then \<exists>c. PageMapping demo_symbols demo_pool_state 0x08048000 0x00203000 = Panic ''PageMapping'' c
    else \<exists>m'. PageMapping demo_symbols demo_pool_state 0x08048000 0x00203000 = Ok () (demo_pool_state\<lparr>mem := m'\<rparr>)
      \<and> VirtualAddrToPhysicAddr m' 0x08048000 = 0x00203000 \<and> table_present m' 0x08048000
      \<and> (\<forall>w. PDE_IDX w = PDE_IDX 0x08048000 \<and> vpn w \<noteq> vpn 0x08048000 \<longrightarrow> ld32 m' (GetPTEPointer w)
          = (if table_present (mem demo_pool_state) 0x08048000
             then ld32 (mem demo_pool_state) (GetPTEPointer w) else 0))"
    by (rule PageMapping_maps [where b = "0x200000" and cap = 8])
      (use g e demo_pool_inv(1) in \<open>simp_all add: page_aligned_def PAGE_MASK_def vpn_def\<close>)
  with t show ?thesis by auto
qed

text \<open>Returning a page. A page of the kernel pool, and a page of the user pool other than
  its first, is returned to its own bit of its own pool; the first page of the user pool is
  returned to the kernel pool instead, at the bit number that follows the kernel's pages.\<close>

theorem ReturnOnePhysicPage_bit:
  assumes "physic_addr_start (mem s) (kernel_memory_pool g) = kb"
    and "physic_addr_start (mem s) (user_memory_pool g) = page_at kb kn"
    and "unat kb + kn * 4096 + un * 4096 \<le> 2 ^ 32" "0 < un"
  shows "(i < kn \<longrightarrow> ReturnOnePhysicPage g s (page_at kb i)
        = on_mem s (BitmapSetBit (mem s) (kernel_memory_pool g) (of_nat i) 0))
    \<and> (0 < j \<and> j < un \<longrightarrow> ReturnOnePhysicPage g s (page_at (page_at kb kn) j)
        = on_mem s (BitmapSetBit (mem s) (user_memory_pool g) (of_nat j) 0))
    \<and> ReturnOnePhysicPage g s (page_at kb kn)
        = on_mem s (BitmapSetBit (mem s) (kernel_memory_pool g) (of_nat kn) 0)"
proof -
  let ?ub = "page_at kb kn"
  have idx: "(page_at c k - c) div PAGE_SIZE = of_nat k" if "k < 2 ^ 20" for k c
  proof -
    have "unat (of_nat k * PAGE_SIZE) div 4096 = k" using unat_pages [OF that] by simp
    moreover have "unat (of_nat k :: u32) = k" using that by simp
    ultimately show ?thesis
      by (simp add: page_at_def word_unat_eq_iff unat_div)
  qed
  have ua: "unat (page_at c k) = k * 4096 + unat c" if "k < 2 ^ 20" "unat c + k * 4096 < 2 ^ 32" for k c
    unfolding page_at_def using unat_pages [OF that(1)] that(2)
    by (subst unat_plus_lt) simp_all
  have k1: "\<not> page_at kb i > ?ub" if "i < kn" "kn * 4096 < 2 ^ 32" "unat kb + kn * 4096 < 2 ^ 32"
    using that ua [of i kb] ua [of kn kb] by (simp add: word_less_nat_alt)
  have A: "ReturnOnePhysicPage g s (page_at kb i)
      = on_mem s (BitmapSetBit (mem s) (kernel_memory_pool g) (of_nat i) 0)" if "i < kn"
    using k1 idx [of i kb] that assms by (simp add: ReturnOnePhysicPage_def)
  have C: "ReturnOnePhysicPage g s ?ub
      = on_mem s (BitmapSetBit (mem s) (kernel_memory_pool g) (of_nat kn) 0)"
    using idx [of kn kb] assms by (simp add: ReturnOnePhysicPage_def)
  have B: "ReturnOnePhysicPage g s (page_at ?ub j)
      = on_mem s (BitmapSetBit (mem s) (user_memory_pool g) (of_nat j) 0)" if "0 < j" "j < un"
  proof -
    have "unat ?ub = kn * 4096 + unat kb" using ua [of kn kb] that assms(3) by simp
    moreover from this have "unat (page_at ?ub j) = j * 4096 + unat ?ub"
      using ua [of j ?ub] that assms(3) by simp
    ultimately have "page_at ?ub j > ?ub" using that(1) by (simp add: word_less_nat_alt)
    then show ?thesis
      using idx [of j ?ub] that assms by (simp add: ReturnOnePhysicPage_def)
  qed
  show ?thesis using A B C by blast
qed

theorem ReturnOnePhysicPage_bit_witness:
  "ReturnOnePhysicPage demo_symbols (demo_pool_state\<lparr>mem := st32 demo_pools 0x1208 0x208000\<rparr>) 0x208000
    = on_mem (demo_pool_state\<lparr>mem := st32 demo_pools 0x1208 0x208000\<rparr>)
        (BitmapSetBit (st32 demo_pools 0x1208 0x208000) 0x1100 8 0)"
proof -
  let ?m = "st32 demo_pools 0x1208 0x208000"
  have g: "kernel_memory_pool demo_symbols = 0x1100" "user_memory_pool demo_symbols = 0x1200"
    by (simp_all add: demo_symbols_def)
  have "page_at 0x200000 8 = 0x208000" by (simp add: page_at_def PAGE_SIZE_def)
  moreover have "physic_addr_start ?m 0x1100 = 0x200000" "physic_addr_start ?m 0x1200 = 0x208000"
    by (simp_all add: physic_addr_start_def demo_pools_def sep_def)
  ultimately show ?thesis
    using ReturnOnePhysicPage_bit [of "demo_pool_state\<lparr>mem := ?m\<rparr>" demo_symbols "0x200000" 8 8 0 1] g by simp
qed

section \<open>Initial pools\<close>

text \<open>The three structures lie apart from each other and from the bitmap area.\<close>

definition pools_layout :: "symbols \<Rightarrow> bool" where
  "pools_layout g \<longleftrightarrow> sep (kernel_memory_pool g) 44 (user_memory_pool g) 44
     \<and> sep (kernel_memory_pool g) 44 (kernel_vaddr g) 12 \<and> sep (user_memory_pool g) 44 (kernel_vaddr g) 12
     \<and> sep MEM_BITMAP_BASE 0x30000 (kernel_memory_pool g) 44
     \<and> sep MEM_BITMAP_BASE 0x30000 (user_memory_pool g) 44 \<and> sep MEM_BITMAP_BASE 0x30000 (kernel_vaddr g) 12"

text \<open>The page counts \<open>VmemPoolInit\<close> computes from the size of the memory.\<close>

definition kernel_pages :: "u32 \<Rightarrow> u32" where
  "kernel_pages all_mem = (all_mem - 0x200000) div PAGE_SIZE div 2"

definition user_pages :: "u32 \<Rightarrow> u32" where
  "user_pages all_mem = (all_mem - 0x200000) div PAGE_SIZE - kernel_pages all_mem"

lemma fields_apart:
  assumes "sep p n q k" "unat i + 4 \<le> n" "unat j + 4 \<le> k"
  shows "sep (p + i) 4 (q + j) 4" "sep (q + j) 4 (p + i) 4"
  using sep_parts [OF assms] sep_sym by auto

lemma pool_tables_fields:
  fixes m0 all_mem
  assumes "pools_layout g"
  defines "m \<equiv> pool_tables g m0 all_mem"
  shows "bitmap_bytes_len m (kernel_memory_pool g) = kernel_pages all_mem div 8"
    "bits m (kernel_memory_pool g) = MEM_BITMAP_BASE"
    "physic_addr_start m (kernel_memory_pool g) = 0x200000"
    "bitmap_bytes_len m (user_memory_pool g) = user_pages all_mem div 8"
    "bits m (user_memory_pool g) = MEM_BITMAP_BASE + kernel_pages all_mem div 8"
    "physic_addr_start m (user_memory_pool g) = 0x200000 + kernel_pages all_mem * PAGE_SIZE"
    "bitmap_bytes_len m (kernel_vaddr g) = kernel_pages all_mem div 8"
    "bits m (kernel_vaddr g) = kernel_pages all_mem div 8 + user_pages all_mem div 8 + MEM_BITMAP_BASE"
    "vaddr_start m (kernel_vaddr g) = KERNEL_HEAP_BASE"
proof -
  let ?k = "kernel_memory_pool g" and ?u = "user_memory_pool g" and ?v = "kernel_vaddr g"
  have L: "sep ?k 44 ?u 44" "sep ?k 44 ?v 12" "sep ?u 44 ?v 12"
    using assms(1) by (simp_all add: pools_layout_def)
  note ku = fields_apart [OF L(1)] and kv = fields_apart [OF L(2)] and uv = fields_apart [OF L(3)]
  note ku0 = ku [of 0 0, simplified] ku [of 0, simplified] ku [of _ 0, simplified]
    and kv0 = kv [of 0 0, simplified] kv [of 0, simplified] kv [of _ 0, simplified]
    and uv0 = uv [of 0 0, simplified] uv [of 0, simplified] uv [of _ 0, simplified]
  have mb: "PAGE_SIZE * 256 + 0x100000 = 0x200000" by (simp add: PAGE_SIZE_def)
  note S = m_def pool_tables_def Let_def mb ku kv uv ku0 kv0 uv0 kernel_pages_def user_pages_def
    bitmap_bytes_len_def bits_def physic_addr_start_def vaddr_start_def
  show "bitmap_bytes_len m ?k = kernel_pages all_mem div 8" by (simp add: S)
  show "bits m ?k = MEM_BITMAP_BASE" by (simp add: S)
  show "physic_addr_start m ?k = 0x200000" by (simp add: S)
  show "bitmap_bytes_len m ?u = user_pages all_mem div 8" by (simp add: S)
  show "bits m ?u = MEM_BITMAP_BASE + kernel_pages all_mem div 8" by (simp add: S)
  show "physic_addr_start m ?u = 0x200000 + kernel_pages all_mem * PAGE_SIZE" by (simp add: S)
  show "bitmap_bytes_len m ?v = kernel_pages all_mem div 8" by (simp add: S)
  show "bits m ?v = kernel_pages all_mem div 8 + user_pages all_mem div 8 + MEM_BITMAP_BASE" by (simp add: S)
  show "vaddr_start m ?v = KERNEL_HEAP_BASE" by (simp add: S)
qed

lemma page_counts:
  assumes "0x210000 \<le> all_mem"
  defines "K \<equiv> unat (kernel_pages all_mem)" and "U \<equiv> unat (user_pages all_mem)"
  shows "8 \<le> K" "K \<le> U" "U \<le> K + 1" "K \<le> 524032" "unat (0x200000 :: u32) + K * 4096 + U * 4096 \<le> unat all_mem"
    "unat (kernel_pages all_mem div 8) = K div 8" "unat (user_pages all_mem div 8) = U div 8"
proof -
  define X where "X = (unat all_mem - 2097152) div 4096"
  have a: "2162688 \<le> unat all_mem" "unat all_mem < 4294967296"
    using assms(1) unsigned_less [of all_mem, where ?'a = nat] by (simp_all add: word_le_nat_alt)
  have d: "unat (all_mem - 0x200000) div 4096 = X"
    using a by (simp add: unat_sub word_le_nat_alt X_def)
  have X: "16 \<le> X" "X \<le> 1048063"
  proof -
    have "65536 div 4096 \<le> X" unfolding X_def by (rule div_le_mono) (use a in linarith)
    then show "16 \<le> X" by simp
    have "X \<le> 4292870143 div 4096" unfolding X_def by (rule div_le_mono) (use a in linarith)
    then show "X \<le> 1048063" by simp
  qed
  have k: "K = X div 2" by (simp add: K_def kernel_pages_def unat_div d)
  have "kernel_pages all_mem \<le> (all_mem - 0x200000) div PAGE_SIZE"
    using k by (simp add: word_le_nat_alt unat_div d K_def)
  then have u: "U = X - X div 2"
    using k by (simp add: U_def user_pages_def unat_sub unat_div d K_def)
  show "8 \<le> K" "K \<le> U" "U \<le> K + 1" "K \<le> 524032"
    using X unfolding k u by linarith+
  have "K + U = X" unfolding k u by linarith
  moreover have "X * 4096 \<le> unat all_mem - 2097152" unfolding X_def by (rule div_times_less_eq_dividend)
  ultimately have "K * 4096 + U * 4096 \<le> unat all_mem - 2097152" by (metis distrib_right)
  then show "unat (0x200000 :: u32) + K * 4096 + U * 4096 \<le> unat all_mem"
    using a by simp
  show "unat (kernel_pages all_mem div 8) = K div 8" "unat (user_pages all_mem div 8) = U div 8"
    by (simp_all add: K_def U_def unat_div)
qed

lemma memset_zero: "n < 2 ^ 32 \<Longrightarrow> m x = 0 \<or> inr x a n \<Longrightarrow> memset_loop n m a 0 x = 0"
  by (auto simp: memset_loop_byte)

lemma bitmap_clear:
  assumes "\<And>x. inr x (bits m p) (unat (bitmap_bytes_len m p)) \<Longrightarrow> m x = 0" "k < bm_size m p"
  shows "\<not> bm m p k"
proof -
  have "k div 8 < unat (bitmap_bytes_len m p)"
    using assms(2) by (simp add: bm_size_def less_mult_imp_div_less)
  moreover from this have "k div 8 < 2 ^ 32"
    using unsigned_less [of "bitmap_bytes_len m p", where ?'a = nat] by simp
  ultimately show ?thesis
    using assms(1) [of "bits m p + of_nat (k div 8)"] by (simp add: bm_def ld8_def inr_offset)
qed

lemma BitmapInit_eq:
  "bits m p \<noteq> NULL \<Longrightarrow> BitmapInit m p = Ok () (memset_loop (unat (bitmap_bytes_len m p)) m (bits m p) 0)"
  by (simp add: BitmapInit_def memset_def)

lemma put_labelled_mem:
  "\<exists>n s'. put_labelled s label v = Ok n s' \<and> mem s' = mem s"
  by (auto simp: put_labelled_def sys_puthex_def putbytes_def)

lemma put_labelled_step:
  assumes "\<And>n s1. mem s1 = mem s \<Longrightarrow> \<exists>s'. k n s1 = Ok () s' \<and> mem s' = M"
  shows "\<exists>s'. obind (put_labelled s l v) k = Ok () s' \<and> mem s' = M"
  using put_labelled_mem [of s l v] assms by fastforce

text \<open>The store after \<open>VmemPoolInit\<close>.\<close>

definition init_store :: "symbols \<Rightarrow> mem \<Rightarrow> u32 \<Rightarrow> mem" where
  "init_store g m0 all_mem =
     (let T = pool_tables g m0 all_mem; lk = unat (kernel_pages all_mem div 8); lu = unat (user_pages all_mem div 8)
      in memset_loop lu (memset_loop lk (memset_loop lk T
           (kernel_pages all_mem div 8 + user_pages all_mem div 8 + MEM_BITMAP_BASE) 0)
           MEM_BITMAP_BASE 0) (MEM_BITMAP_BASE + kernel_pages all_mem div 8) 0)"

text \<open>The three bitmaps fill a part of the bitmap area.\<close>

lemma bitmap_area:
  assumes "0x210000 \<le> all_mem"
  defines "lk \<equiv> kernel_pages all_mem div 8" and "lu \<equiv> user_pages all_mem div 8"
  shows "only_in m (memset_loop (unat lk) m (lk + lu + MEM_BITMAP_BASE) 0) MEM_BITMAP_BASE 0x30000"
    "only_in m (memset_loop (unat lk) m MEM_BITMAP_BASE 0) MEM_BITMAP_BASE 0x30000"
    "only_in m (memset_loop (unat lu) m (MEM_BITMAP_BASE + lk) 0) MEM_BITMAP_BASE 0x30000"
    "unat (lk + lu) = unat lk + unat lu" "unat lk \<le> 65504" "unat lu \<le> 65505" "0 < unat lk" "0 < unat lu"
proof -
  note C = page_counts [OF assms(1), folded lk_def lu_def]
  show b: "unat lk \<le> 65504" "unat lu \<le> 65505" "0 < unat lk" "0 < unat lu"
    using C by linarith+
  show s: "unat (lk + lu) = unat lk + unat lu"
    using b by (intro unat_plus_lt) simp
  have c: "lk + lu + MEM_BITMAP_BASE = MEM_BITMAP_BASE + (lk + lu)" by (simp add: ac_simps)
  show "only_in m (memset_loop (unat lk) m (lk + lu + MEM_BITMAP_BASE) 0) MEM_BITMAP_BASE 0x30000"
    unfolding c by (rule only_in_part [OF memset_loop_only_in]) (use b s in simp_all)
  show "only_in m (memset_loop (unat lk) m MEM_BITMAP_BASE 0) MEM_BITMAP_BASE 0x30000"
    by (rule only_in_part [of _ _ _ 0, simplified, OF memset_loop_only_in]) (use b in simp_all)
  show "only_in m (memset_loop (unat lu) m (MEM_BITMAP_BASE + lk) 0) MEM_BITMAP_BASE 0x30000"
    by (rule only_in_part [OF memset_loop_only_in]) (use b in simp_all)
qed

lemma init_store_only:
  assumes "0x210000 \<le> all_mem"
  shows "only_in (pool_tables g m0 all_mem) (init_store g m0 all_mem) MEM_BITMAP_BASE 0x30000"
  unfolding init_store_def Let_def
  by (rule only_in_trans [OF only_in_trans [OF bitmap_area(1) bitmap_area(2)] bitmap_area(3)]) (rule assms)+

lemma init_store_fields:
  fixes m0
  assumes L: "pools_layout g" and a: "0x210000 \<le> all_mem"
  defines "m \<equiv> init_store g m0 all_mem" and "T \<equiv> pool_tables g m0 all_mem"
  shows "eq_on m T (kernel_memory_pool g) 44" "eq_on m T (user_memory_pool g) 44" "eq_on m T (kernel_vaddr g) 12"
proof -
  note o = init_store_only [OF a, of g m0, folded m_def T_def]
  show "eq_on m T (kernel_memory_pool g) 44" "eq_on m T (user_memory_pool g) 44" "eq_on m T (kernel_vaddr g) 12"
    using L by (auto simp: pools_layout_def intro: only_in_sep [OF o])
qed

lemma VmemPoolInit_store:
  assumes L: "pools_layout g" and a: "0x210000 \<le> all_mem"
  shows "\<exists>s'. VmemPoolInit g s all_mem = Ok () s' \<and> mem s' = init_store g (mem s) all_mem"
proof -
  let ?kp = "kernel_memory_pool g" and ?up = "user_memory_pool g" and ?kv = "kernel_vaddr g"
  let ?lk = "kernel_pages all_mem div 8" and ?lu = "user_pages all_mem div 8"
  let ?T = "pool_tables g (mem s) all_mem"
  note F = pool_tables_fields [OF L, of "mem s" all_mem]
  note A = bitmap_area [OF a]
  let ?m1 = "memset_loop (unat ?lk) ?T (?lk + ?lu + MEM_BITMAP_BASE) 0"
  let ?m2 = "memset_loop (unat ?lk) ?m1 MEM_BITMAP_BASE 0"
  have fr: "bits m p = bits ?T p \<and> bitmap_bytes_len m p = bitmap_bytes_len ?T p"
    if "only_in ?T m MEM_BITMAP_BASE 0x30000" "p = ?kp \<or> p = ?up" for m p
  proof -
    have "eq_on m ?T p 44" using only_in_sep [OF that(1)] that(2) L by (auto simp: pools_layout_def)
    from bitmap_frame [OF eq_on_part [OF this, of 0 8, simplified]] show ?thesis by simp
  qed
  have o1: "only_in ?T ?m1 MEM_BITMAP_BASE 0x30000" by (rule A(1))
  have o2: "only_in ?T ?m2 MEM_BITMAP_BASE 0x30000" by (rule only_in_trans [OF o1 A(2)])
  have nn: "MEM_BITMAP_BASE \<noteq> NULL" "MEM_BITMAP_BASE + ?lk \<noteq> NULL" "?lk + ?lu + MEM_BITMAP_BASE \<noteq> NULL"
  proof -
    have ub: "unat MEM_BITMAP_BASE = 3221856256" by (simp add: MEM_BITMAP_BASE_def)
    have ne: "MEM_BITMAP_BASE + x \<noteq> NULL" if "unat x \<le> 131009" for x
    proof
      assume "MEM_BITMAP_BASE + x = NULL"
      moreover have "unat (MEM_BITMAP_BASE + x) = 3221856256 + unat x"
        using that ub by (subst unat_plus_lt) simp_all
      ultimately show False by simp
    qed
    show "MEM_BITMAP_BASE \<noteq> NULL" using ne [of 0] by simp
    show "MEM_BITMAP_BASE + ?lk \<noteq> NULL" using ne [of ?lk] A(5) by simp
    show "?lk + ?lu + MEM_BITMAP_BASE \<noteq> NULL"
      using ne [of "?lk + ?lu"] A(4-6) by (simp add: add.commute)
  qed
  have i1: "BitmapInit ?T ?kv = Ok () ?m1" using BitmapInit_eq [of ?T ?kv] F(7,8) nn(3) by simp
  have i2: "BitmapInit ?m1 ?kp = Ok () ?m2"
    using BitmapInit_eq [of ?m1 ?kp] fr [OF o1, of ?kp] F(1,2) nn(1) by simp
  have i3: "BitmapInit ?m2 ?up = Ok () (init_store g (mem s) all_mem)"
    using BitmapInit_eq [of ?m2 ?up] fr [OF o2, of ?up] F(4,5) nn(2) by (simp add: init_store_def Let_def)
  show ?thesis
    unfolding VmemPoolInit_def Let_def
    by (simp add: i1, (rule put_labelled_step)+) (simp add: i2 i3)
qed

lemma init_store_zero:
  assumes a: "0x210000 \<le> all_mem"
  defines "lk \<equiv> kernel_pages all_mem div 8" and "lu \<equiv> user_pages all_mem div 8"
  shows "inr x MEM_BITMAP_BASE (unat lk) \<Longrightarrow> init_store g m0 all_mem x = 0"
    "inr x (MEM_BITMAP_BASE + lk) (unat lu) \<Longrightarrow> init_store g m0 all_mem x = 0"
    "inr x (lk + lu + MEM_BITMAP_BASE) (unat lk) \<Longrightarrow> init_store g m0 all_mem x = 0"
proof -
  have b: "unat lk < 2 ^ 32" "unat lu < 2 ^ 32"
    using bitmap_area(5,6) [OF a] by (simp_all add: lk_def lu_def)
  note z = memset_zero [OF b(1)] memset_zero [OF b(2)]
  show "inr x MEM_BITMAP_BASE (unat lk) \<Longrightarrow> init_store g m0 all_mem x = 0"
    "inr x (MEM_BITMAP_BASE + lk) (unat lu) \<Longrightarrow> init_store g m0 all_mem x = 0"
    "inr x (lk + lu + MEM_BITMAP_BASE) (unat lk) \<Longrightarrow> init_store g m0 all_mem x = 0"
    unfolding init_store_def Let_def lk_def [symmetric] lu_def [symmetric] by (simp_all add: z)
qed

text \<open>C32. \<open>VmemPoolInit\<close> sets up disjoint pools. For a machine with at least \<open>0x210000\<close> bytes it
  returns with two well-formed pools and a virtual address pool, all pages free; the page
  frames of the kernel pool start at \<open>0x200000\<close> and end before those of the user pool,
  which end inside the memory, so that no frame belongs to two pools or lies outside.\<close>

theorem VmemPoolInit_pools:
  assumes "pools_layout g" "0x210000 \<le> all_mem"
  shows "\<exists>s'. VmemPoolInit g s all_mem = Ok () s'
    \<and> pool_ok (mem s') (kernel_memory_pool g) \<and> pool_ok (mem s') (user_memory_pool g)
    \<and> bitmap_wf (mem s') (kernel_vaddr g)
    \<and> used_pages (kernel_memory_pool g) s' = {} \<and> used_pages (user_memory_pool g) s' = {}
    \<and> (\<forall>k < bm_size (mem s') (kernel_vaddr g). \<not> bm (mem s') (kernel_vaddr g) k)
    \<and> physic_addr_start (mem s') (kernel_memory_pool g) = 0x200000
    \<and> 0x200000 + bm_size (mem s') (kernel_memory_pool g) * 4096
        \<le> unat (physic_addr_start (mem s') (user_memory_pool g))
    \<and> unat (physic_addr_start (mem s') (user_memory_pool g)) + bm_size (mem s') (user_memory_pool g) * 4096
        \<le> unat all_mem"
proof -
  let ?kp = "kernel_memory_pool g" and ?up = "user_memory_pool g" and ?kv = "kernel_vaddr g"
  let ?lk = "kernel_pages all_mem div 8" and ?lu = "user_pages all_mem div 8"
  obtain s' where s': "VmemPoolInit g s all_mem = Ok () s'" "mem s' = init_store g (mem s) all_mem"
    using VmemPoolInit_store [OF assms] by blast
  define m where "m = init_store g (mem s) all_mem"
  note F = pool_tables_fields [OF assms(1), of "mem s" all_mem]
  note A = bitmap_area [OF assms(2)] and C = page_counts [OF assms(2)]
  note E = init_store_fields [OF assms, of "mem s", folded m_def]
  have e8: "eq_on m (pool_tables g (mem s) all_mem) p 8" if "p \<in> {?kp, ?up, ?kv}" for p
    using eq_on_part [OF E(1), of 0 8] eq_on_part [OF E(2), of 0 8] eq_on_part [OF E(3), of 0 8] that by auto
  note B = bitmap_frame [OF e8]
  have f: "bits m ?kp = MEM_BITMAP_BASE" "bitmap_bytes_len m ?kp = ?lk"
    "bits m ?up = MEM_BITMAP_BASE + ?lk" "bitmap_bytes_len m ?up = ?lu"
    "bits m ?kv = ?lk + ?lu + MEM_BITMAP_BASE" "bitmap_bytes_len m ?kv = ?lk"
    using B [of ?kp] B [of ?up] B [of ?kv] F by auto
  have ph: "physic_addr_start m ?kp = 0x200000" "physic_addr_start m ?up = 0x200000 + kernel_pages all_mem * PAGE_SIZE"
    using ld32_cong [OF eq_on_part [OF E(1), of 8 4]] ld32_cong [OF eq_on_part [OF E(2), of 8 4]] F
    by (simp_all add: physic_addr_start_def)
  have part: "sep (MEM_BITMAP_BASE + x) n p k"
    if "sep MEM_BITMAP_BASE 0x30000 p k" "unat x + n \<le> 0x30000" "0 < n" "0 < k" for x n p k
    by (rule sep_offset_left [OF that])
  have L: "sep MEM_BITMAP_BASE 0x30000 ?kp 44" "sep MEM_BITMAP_BASE 0x30000 ?up 44" "sep MEM_BITMAP_BASE 0x30000 ?kv 12"
    using assms(1) by (simp_all add: pools_layout_def)
  have k44: "sep MEM_BITMAP_BASE (unat ?lk) ?kp 44" using part [OF L(1), of 0] A(5,7) by simp
  have u44: "sep (MEM_BITMAP_BASE + ?lk) (unat ?lu) ?up 44" using part [OF L(2), of ?lk] A(5,6,8) by simp
  have v12: "sep (?lk + ?lu + MEM_BITMAP_BASE) (unat ?lk) ?kv 12"
    using part [OF L(3), of "?lk + ?lu"] A(4-7) by (simp add: add.commute)
  have "pool_ok m ?kp"
    using f k44 A(5,7) sep_offset_right [OF k44, of 0 8] by (simp add: pool_ok_def bitmap_wf_def)
  moreover have "pool_ok m ?up"
    using f u44 A(6,8) sep_offset_right [OF u44, of 0 8] by (simp add: pool_ok_def bitmap_wf_def)
  moreover have "bitmap_wf m ?kv"
    using f v12 A(5,7) sep_offset_right [OF v12, of 0 8] by (simp add: bitmap_wf_def)
  moreover have "\<not> bm m p k" if "p \<in> {?kp, ?up, ?kv}" "k < bm_size m p" for p k
    by (rule bitmap_clear [OF _ that(2)])
      (use that(1) f init_store_zero [OF assms(2), of _ g "mem s", folded m_def] in auto)
  then have "used_pages ?kp s' = {}" "used_pages ?up s' = {}" "\<forall>k < bm_size m ?kv. \<not> bm m ?kv k"
    using s'(2) by (auto simp: used_pages_def m_def [symmetric])
  moreover have u: "unat (physic_addr_start m ?up) = 0x200000 + unat (kernel_pages all_mem) * 4096"
    unfolding ph using unat_mult_lt [of "kernel_pages all_mem" PAGE_SIZE] C(4)
    by (subst unat_plus_lt) simp_all
  moreover have "bm_size m ?kp \<le> unat (kernel_pages all_mem)" "bm_size m ?up \<le> unat (user_pages all_mem)"
    using f C(6,7) by (simp_all add: bm_size_def)
  ultimately show ?thesis
    using s' C(5) ph(1) unfolding m_def [symmetric]
    by (intro exI [of _ s']) (simp add: m_def [symmetric])
qed

theorem VmemPoolInit_pools_witness:
  "\<exists>s'. VmemPoolInit demo_symbols demo_state 0x2000000 = Ok () s'
    \<and> pool_ok (mem s') (kernel_memory_pool demo_symbols) \<and> pool_ok (mem s') (user_memory_pool demo_symbols)"
proof -
  have "pools_layout demo_symbols"
    by (simp add: pools_layout_def demo_symbols_def sep_def MEM_BITMAP_BASE_def)
  then show ?thesis
    using VmemPoolInit_pools [of demo_symbols "0x2000000" demo_state] by auto
qed

end
