(* ===== verification/Arena.thy ===== *)
theory Arena
  imports PageAlloc
begin

text \<open>
  The byte-granular allocator of \<open>kernel/memory.c\<close>: descriptors of seven block sizes, arenas (pages
  cut into blocks of one size), \<open>sys_malloc\<close> and \<open>sys_free\<close>, and the initialisation of the memory
  manager. The theory holds the code, the geometry of blocks inside an arena, and the invariant of
  a descriptor with its arenas and free blocks that the two operations keep.

  \<open>struct arena_desc\<close>: \<open>block_size\<close> at offset 0, \<open>memory_blocks_sum\<close> at 4, \<open>free_list\<close> at 8; 24 bytes.
  \<open>struct arena\<close>: \<open>desc\<close> at 0, \<open>cnt\<close> at 4, \<open>large_request\<close> at 8; 12 bytes. The node of a free block is
  its first 8 bytes.
\<close>

section \<open>The code\<close>

definition ARENA_SUM :: nat where "ARENA_SUM = 7"

definition block_size :: "mem \<Rightarrow> addr \<Rightarrow> u32" where
  "block_size m desc = ld32 m desc"

definition memory_blocks_sum :: "mem \<Rightarrow> addr \<Rightarrow> u32" where
  "memory_blocks_sum m desc = ld32 m (desc + 4)"

definition free_list :: "addr \<Rightarrow> addr" where
  "free_list desc = desc + 8"

definition arena_desc_of :: "mem \<Rightarrow> addr \<Rightarrow> addr" where
  "arena_desc_of m av = ld32 m av"

definition arena_cnt :: "mem \<Rightarrow> addr \<Rightarrow> u32" where
  "arena_cnt m av = ld32 m (av + 4)"

definition large_request :: "mem \<Rightarrow> addr \<Rightarrow> u32" where
  "large_request m av = ld32 m (av + 8)"

definition sizeof_arena :: u32 where "sizeof_arena = 12"
definition sizeof_arena_desc :: u32 where "sizeof_arena_desc = 24"

definition pool_size :: "mem \<Rightarrow> addr \<Rightarrow> u32" where
  "pool_size m memory_pool = ld32 m (memory_pool + 12)"

definition DIV_ROUND_UP :: "u32 \<Rightarrow> u32 \<Rightarrow> u32" where
  "DIV_ROUND_UP x step = (x + step - 1) div step"

primrec ArenaInit_loop :: "nat \<Rightarrow> kstate \<Rightarrow> addr \<Rightarrow> u32 \<Rightarrow> kstate" where
  "ArenaInit_loop 0 s desc bsize = s"
| "ArenaInit_loop (Suc n) s desc bsize =
     (let s1 = put32 s desc bsize;
          s2 = put32 s1 (desc + 4) ((PAGE_SIZE - sizeof_arena) div bsize);
          s3 = list_init s2 (free_list desc)
      in ArenaInit_loop n s3 (desc + sizeof_arena_desc) (bsize * 2))"

definition ArenaInit :: "kstate \<Rightarrow> addr \<Rightarrow> kstate" where
  "ArenaInit s desc_array = ArenaInit_loop ARENA_SUM s desc_array 16"

definition VmemInit :: "symbols \<Rightarrow> kstate \<Rightarrow> (kstate, unit) outcome" where
  "VmemInit g s =
     (let s0 = putlit s (''vmem_init start..'' @ [CHR ''\<newline>'']);
          memory_total_bytes = ld32 (mem s0) 0x810
      in obind (VmemPoolInit g s0 memory_total_bytes) (\<lambda>_ s1.
         let s2 = LockInit s1 (pool_lock (kernel_memory_pool g));
             s3 = LockInit s2 (pool_lock (user_memory_pool g));
             s4 = ArenaInit s3 (kernel_arena_descs g)
         in Ok () (putlit s4 (''done'' @ [CHR ''\<newline>'']))))"

definition arena2block :: "mem \<Rightarrow> addr \<Rightarrow> u32 \<Rightarrow> addr" where
  "arena2block m arena idx = arena + sizeof_arena + idx * block_size m (arena_desc_of m arena)"

definition block2arena :: "addr \<Rightarrow> addr" where
  "block2arena block = block AND 0xFFFFF000"

text \<open>A request above 1024 bytes: whole pages, with an arena header in front.\<close>

definition malloc_pages :: "symbols \<Rightarrow> kstate \<Rightarrow> pool_flags \<Rightarrow> u32 \<Rightarrow> (kstate, addr) outcome" where
  "malloc_pages g s PF request =
     (let pages_needed = DIV_ROUND_UP (request + sizeof_arena) PAGE_SIZE;
          unlock = (\<lambda>s r. obind (sys_lock_unlock g s (pool_lock (memory_pool_of g PF))) (\<lambda>_ s'. Ok r s'))
      in obind (palloc g s PF pages_needed) (\<lambda>av s1.
           if av \<noteq> NULL
           then obind (on_mem s1 (memset (mem s1) av 0 (pages_needed * PAGE_SIZE))) (\<lambda>_ s2.
                  let s3 = put32 s2 av NULL;
                      s4 = put32 s3 (av + 4) pages_needed;
                      s5 = put32 s4 (av + 8) 1
                  in unlock s5 (av + sizeof_arena))
           else unlock s1 NULL))"

text \<open>The search for the descriptor: the first of \<open>n\<close> descriptors from \<open>idx\<close> on that is large enough.\<close>

primrec arena_index :: "nat \<Rightarrow> mem \<Rightarrow> addr \<Rightarrow> u32 \<Rightarrow> nat \<Rightarrow> nat" where
  "arena_index 0 m arenas request idx = idx"
| "arena_index (Suc n) m arenas request idx =
     (if request \<le> block_size m (arenas + of_nat idx * sizeof_arena_desc) then idx
      else arena_index n m arenas request (Suc idx))"

text \<open>The loop that puts the blocks of a new arena into the free list.\<close>

partial_function (option) arena_fill :: "kstate \<Rightarrow> addr \<Rightarrow> u32 \<Rightarrow> (kstate, unit) outcome option" where
  "arena_fill s av block_idx =
     (if block_idx < arena_cnt (mem s) av
      then let p = arena2block (mem s) av block_idx; fl = free_list (arena_desc_of (mem s) av)
           in (case obind (elem_find s fl p) (\<lambda>found s1.
                 ASSERT ''sys_malloc'' ''!elem_find(&av->desc->free_list, &p->free_elem)'' (\<not> found)
                   (list_append s1 (free_list (arena_desc_of (mem s1) av)) p)) of
                 Ok u s2 \<Rightarrow> arena_fill s2 av (block_idx + 1)
               | Panic fn c \<Rightarrow> Some (Panic fn c)
               | Switched s2 \<Rightarrow> Some (Switched s2)
               | Diverge \<Rightarrow> Some Diverge)
      else Some (Ok () s))"

text \<open>A new arena for the descriptor \<open>desc\<close>; the result says whether there was a page for it.\<close>

definition new_arena :: "symbols \<Rightarrow> kstate \<Rightarrow> pool_flags \<Rightarrow> addr \<Rightarrow> (kstate, bool) outcome" where
  "new_arena g s PF desc =
     obind (palloc g s PF 1) (\<lambda>av s1.
       if av = NULL then Ok False s1
       else obind (on_mem s1 (memset (mem s1) av 0 PAGE_SIZE)) (\<lambda>_ s2.
              let s3 = put32 s2 av desc;
                  s4 = put32 s3 (av + 8) 0;
                  s5 = put32 s4 (av + 4) (memory_blocks_sum (mem s4) desc);
                  (old_status, s6) = DisableInt s5
              in obind (of_loop (arena_fill s6 av 0)) (\<lambda>_ s7.
                   Ok True (snd (SetIntStatus old_status s7)))))"

text \<open>The first free block of \<open>desc\<close>, cleared.\<close>

definition pop_block :: "kstate \<Rightarrow> addr \<Rightarrow> (kstate, addr) outcome" where
  "pop_block s desc =
     obind (list_pop s (free_list desc)) (\<lambda>p s1.
     obind (on_mem s1 (memset (mem s1) p 0 (block_size (mem s1) desc))) (\<lambda>_ s2.
       let av = block2arena p
       in Ok p (put32 s2 (av + 4) (arena_cnt (mem s2) av - 1))))"

text \<open>
  A request of at most 1024 bytes, under the lock of the pool; both ways out of the code release
  the lock and return, \<open>NULL\<close> when there is no page for a new arena.
\<close>

definition take_block :: "symbols \<Rightarrow> kstate \<Rightarrow> pool_flags \<Rightarrow> addr \<Rightarrow> u32 \<Rightarrow> (kstate, addr) outcome" where
  "take_block g s PF arenas request =
     (let desc = arenas + of_nat (arena_index ARENA_SUM (mem s) arenas request 0) * sizeof_arena_desc
      in obind (if list_empty (mem s) (free_list desc) then new_arena g s PF desc else Ok True s) (\<lambda>ok s1.
           if \<not> ok then Ok NULL s1 else pop_block s1 desc))"

definition malloc_block :: "symbols \<Rightarrow> kstate \<Rightarrow> pool_flags \<Rightarrow> addr \<Rightarrow> u32 \<Rightarrow> (kstate, addr) outcome" where
  "malloc_block g s PF arenas request =
     obind (take_block g s PF arenas request) (\<lambda>p s1.
     obind (sys_lock_unlock g s1 (pool_lock (memory_pool_of g PF))) (\<lambda>_ s2. Ok p s2))"

text \<open>A kernel thread (no page directory of its own) allocates from the kernel pool.\<close>

definition pool_of_thread :: "kstate \<Rightarrow> pool_flags" where
  "pool_of_thread s =
     (if PCB_PDE_addr (mem s) (GetCurrentThreadPCB s) = NULL then KERNEL_POOL else USER_POOL)"

definition arenas_of_thread :: "symbols \<Rightarrow> kstate \<Rightarrow> addr" where
  "arenas_of_thread g s =
     (if PCB_PDE_addr (mem s) (GetCurrentThreadPCB s) = NULL then kernel_arena_descs g
      else GetCurrentThreadPCB s + off_user_arena_descs)"

definition sys_malloc :: "symbols \<Rightarrow> kstate \<Rightarrow> u32 \<Rightarrow> (kstate, addr) outcome" where
  "sys_malloc g s request =
     (let PF = pool_of_thread s; memory_pool = memory_pool_of g PF; arenas = arenas_of_thread g s
      in if \<not> (request > 0 \<and> request < pool_size (mem s) memory_pool) then Ok NULL s
         else obind (sys_lock_lock g s (pool_lock memory_pool)) (\<lambda>_ s1.
           if request > 1024 then malloc_pages g s1 PF request else malloc_block g s1 PF arenas request))"

text \<open>The loop that takes the blocks of an arena that is entirely free out of the free list.\<close>

partial_function (option) arena_drain :: "kstate \<Rightarrow> addr \<Rightarrow> u32 \<Rightarrow> (kstate, unit) outcome option" where
  "arena_drain s av block_idx =
     (if block_idx < memory_blocks_sum (mem s) (arena_desc_of (mem s) av)
      then let victim = arena2block (mem s) av block_idx
           in (case obind (elem_find s (free_list (arena_desc_of (mem s) av)) victim) (\<lambda>found s1.
                 ASSERT ''sys_free'' ''elem_find(&av->desc->free_list, &victim->free_elem)'' found
                   (list_remove s1 victim)) of
                 Ok u s2 \<Rightarrow> arena_drain s2 av (block_idx + 1)
               | Panic fn c \<Rightarrow> Some (Panic fn c)
               | Switched s2 \<Rightarrow> Some (Switched s2)
               | Diverge \<Rightarrow> Some Diverge)
      else Some (Ok () s))"

definition free_block :: "symbols \<Rightarrow> kstate \<Rightarrow> pool_flags \<Rightarrow> addr \<Rightarrow> addr \<Rightarrow> (kstate, unit) outcome" where
  "free_block g s PF av victim =
     obind (list_append s (free_list (arena_desc_of (mem s) av)) victim) (\<lambda>_ s1.
       let s2 = put32 s1 (av + 4) (arena_cnt (mem s1) av + 1)
       in if arena_cnt (mem s2) av = memory_blocks_sum (mem s2) (arena_desc_of (mem s2) av)
          then obind (of_loop (arena_drain s2 av 0)) (\<lambda>_ s3. pfree g s3 PF av 1)
          else Ok () s2)"

definition sys_free :: "symbols \<Rightarrow> kstate \<Rightarrow> addr \<Rightarrow> (kstate, unit) outcome" where
  "sys_free g s p =
     (if p = NULL then Ok () s
      else let PF = pool_of_thread s; memory_pool = memory_pool_of g PF
           in ASSERT ''sys_free'' ''(size_t) p >= KERNEL_HEAP_BASE'' (PF = KERNEL_POOL \<longrightarrow> p \<ge> KERNEL_HEAP_BASE)
             (obind (sys_lock_lock g s (pool_lock memory_pool)) (\<lambda>_ s1.
                let av = block2arena p
                in ASSERT ''sys_free'' ''av->large_request == 1 || av->large_request == 0''
                     (large_request (mem s1) av = 1 \<or> large_request (mem s1) av = 0)
                     (obind (if arena_desc_of (mem s1) av = NULL \<and> large_request (mem s1) av = 1
                             then pfree g s1 PF av (arena_cnt (mem s1) av)
                             else free_block g s1 PF av p) (\<lambda>_ s2.
                        sys_lock_unlock g s2 (pool_lock memory_pool))))))"

section \<open>Descriptors\<close>

definition class_size :: "nat \<Rightarrow> nat" where
  "class_size i = 16 * 2 ^ i"

definition desc_at :: "addr \<Rightarrow> nat \<Rightarrow> addr" where
  "desc_at arenas i = arenas + of_nat i * sizeof_arena_desc"

text \<open>A descriptor of block size \<open>bs\<close> in its initial or any later state, apart from its free list.\<close>

definition is_desc :: "mem \<Rightarrow> addr \<Rightarrow> nat \<Rightarrow> bool" where
  "is_desc m d bs \<longleftrightarrow> unat (block_size m d) = bs \<and> unat (memory_blocks_sum m d) = 4084 div bs"

lemma list_init_effect:
  "is_list (mem (list_init s l)) l []" "only_in (mem s) (mem (list_init s l)) l 16" "mem_only s (list_init s l)"
proof -
  show "is_list (mem (list_init s l)) l []"
    by (simp add: list_init_def is_list_def linked_def next_of_def prev_of_def set_next_def set_prev_def nodes_sep_def Let_def)
  have w: "only_in m (st32 m (l + off) v) l 16" if "unat off + 4 \<le> 16" for m off v
    by (rule only_in_part [OF only_in_st32 that])
  show "only_in (mem s) (mem (list_init s l)) l 16"
    using w [of 0] w [of 4] w [of 8] w [of 12]
    by (simp add: list_init_def set_next_def set_prev_def Let_def add.assoc) (meson only_in_trans)
  show "mem_only s (list_init s l)" by (simp add: list_init_def Let_def)
qed

definition fresh_desc :: "mem \<Rightarrow> addr \<Rightarrow> nat \<Rightarrow> bool" where
  "fresh_desc m d bs \<longleftrightarrow> is_desc m d bs \<and> is_list m (free_list d) []"

lemma fresh_desc_cong:
  assumes "eq_on m' m d 24" "fresh_desc m d bs"
  shows "fresh_desc m' d bs"
proof -
  have "ld32 m' (d + off) = ld32 m (d + off)" if "unat off + 4 \<le> 24" for off
    by (rule ld32_cong [OF eq_on_part [OF assms(1) that]])
  from this [of 0] this [of 4] have "is_desc m' d bs"
    using assms(2) by (simp add: fresh_desc_def is_desc_def block_size_def memory_blocks_sum_def)
  moreover have "is_list m' (free_list d) []"
  proof (rule is_list_frame)
    show "is_list m (free_list d) []" using assms(2) by (simp add: fresh_desc_def)
    fix x assume "x \<in> set (nodes (free_list d) [])"
    then have "x = d + 8 \<or> x = d + 16" by (auto simp: free_list_def add.assoc)
    with eq_on_part [OF assms(1), of 8 8] eq_on_part [OF assms(1), of 16 8] show "eq_on m' m x 8" by auto
  qed
  ultimately show ?thesis by (simp add: fresh_desc_def)
qed

definition init_desc :: "kstate \<Rightarrow> addr \<Rightarrow> u32 \<Rightarrow> kstate" where
  "init_desc s d bsize = list_init (put32 (put32 s d bsize) (d + 4) ((PAGE_SIZE - sizeof_arena) div bsize)) (free_list d)"

lemma init_desc_effect:
  assumes "bs = unat bsize"
  shows "fresh_desc (mem (init_desc s d bsize)) d bs" "only_in (mem s) (mem (init_desc s d bsize)) d 24"
    "mem_only s (init_desc s d bsize)"
proof -
  let ?s = "put32 (put32 s d bsize) (d + 4) ((PAGE_SIZE - sizeof_arena) div bsize)"
  note L = list_init_effect [of ?s "free_list d", folded init_desc_def]
  have o: "ld32 (mem (init_desc s d bsize)) (d + off) = ld32 (mem ?s) (d + off)" if "off = 0 \<or> off = 4" for off
    by (rule b4.ld_frame [OF L(2)]) (use that in \<open>auto simp: free_list_def\<close>)
  have "unat ((PAGE_SIZE - sizeof_arena) div bsize) = 4084 div bs"
    using assms by (simp add: unat_div PAGE_SIZE_def sizeof_arena_def)
  then show "fresh_desc (mem (init_desc s d bsize)) d bs"
    using o [of 0] o [of 4] L(1) assms
    by (simp add: fresh_desc_def is_desc_def block_size_def memory_blocks_sum_def)
  have w: "only_in m (st32 m (d + off) v) d 24" if "unat off + 4 \<le> 24" for m off v
    by (rule only_in_part [OF only_in_st32 that])
  have "only_in (mem s) (mem ?s) d 24"
    using w [of 0 "mem s" bsize] w [of 4 "st32 (mem s) d bsize" "(PAGE_SIZE - sizeof_arena) div bsize"]
    by (simp add: only_in_trans)
  moreover have "only_in (mem ?s) (mem (init_desc s d bsize)) d 24"
    using only_in_part [OF L(2) [unfolded free_list_def], of 24] by simp
  ultimately show "only_in (mem s) (mem (init_desc s d bsize)) d 24" by (rule only_in_trans)
  show "mem_only s (init_desc s d bsize)"
    by (rule mem_only_trans [OF mem_only_trans [OF mem_only_put(3) mem_only_put(3)] L(3)])
qed

lemma desc_at_array: "desc_at a i = a + of_nat (24 * i)"
  by (simp add: desc_at_def sizeof_arena_desc_def)

lemma ArenaInit_loop_step:
  "ArenaInit_loop (Suc n) s (desc_at a i) (of_nat (class_size i)) =
   ArenaInit_loop n (init_desc s (desc_at a i) (of_nat (class_size i))) (desc_at a (Suc i)) (of_nat (class_size (Suc i)))"
proof -
  have "desc_at a i + sizeof_arena_desc = desc_at a (Suc i)" by (simp add: desc_at_def algebra_simps)
  moreover have "(of_nat (class_size i) :: u32) * 2 = of_nat (class_size (Suc i))" by (simp add: class_size_def)
  ultimately show ?thesis by (simp add: Let_def init_desc_def)
qed

lemma class_size_u32: "i < 7 \<Longrightarrow> class_size i = unat (of_nat (class_size i) :: u32)"
proof -
  assume "i < 7"
  then have "(2 :: nat) ^ i \<le> 2 ^ 7" by (intro power_increasing) auto
  then have "class_size i < 2 ^ 32" by (simp add: class_size_def)
  then show ?thesis by (simp only: unat_of_nat_u32)
qed

lemma ArenaInit_loop_effect:
  fixes a :: addr and s :: kstate
  assumes "i + n \<le> 7"
  defines "s' \<equiv> ArenaInit_loop n s (desc_at a i) (of_nat (class_size i))"
  shows "mem_only s s' \<and> only_in (mem s) (mem s') a 168 \<and> (\<forall>j < i. eq_on (mem s') (mem s) (desc_at a j) 24)
    \<and> (\<forall>j. i \<le> j \<and> j < i + n \<longrightarrow> fresh_desc (mem s') (desc_at a j) (class_size j))"
  using assms(1) unfolding s'_def
proof (induction n arbitrary: i s)
  case 0
  then show ?case by (auto simp: eq_on_def)
next
  case (Suc n)
  let ?d = "desc_at a i" and ?b = "of_nat (class_size i) :: u32"
  let ?s = "init_desc s ?d ?b"
  let ?r = "ArenaInit_loop n ?s (desc_at a (Suc i)) (of_nat (class_size (Suc i)))"
  note S = ArenaInit_loop_step [of n s a i]
  have i7: "i < 7" using Suc.prems by simp
  note cs = class_size_u32 [OF i7]
  note I = init_desc_effect [OF cs, of s ?d]
  have IH: "mem_only ?s ?r" "only_in (mem ?s) (mem ?r) a 168" "\<And>j. j < Suc i \<Longrightarrow> eq_on (mem ?r) (mem ?s) (desc_at a j) 24"
    "\<And>j. Suc i \<le> j \<Longrightarrow> j < Suc i + n \<Longrightarrow> fresh_desc (mem ?r) (desc_at a j) (class_size j)"
    using Suc.IH [of "Suc i" ?s] Suc.prems by auto
  have "only_in (mem s) (mem ?s) a 168"
    using only_in_part [OF I(2) [unfolded desc_at_array] array_offset [OF i7]] by (simp add: desc_at_array)
  moreover have "eq_on (mem ?s) (mem s) (desc_at a j) 24" if "j < i" for j
    using that i7 by (intro only_in_sep [OF I(2)]) (simp only: desc_at_array, rule sep_array [of _ _ 7], simp_all)
  moreover have "fresh_desc (mem ?r) ?d (class_size i)"
    using fresh_desc_cong [OF IH(3) I(1)] by simp
  moreover have "eq_on (mem ?r) (mem s) (desc_at a j) 24" if "j < i" for j
    using IH(3) [of j] calculation(2) [OF that] that by (simp add: eq_on_def)
  moreover have "fresh_desc (mem ?r) (desc_at a j) (class_size j)" if "i \<le> j \<and> j < i + Suc n" for j
    using calculation(3) IH(4) [of j] that by (cases "j = i") auto
  ultimately show ?case
    unfolding S using mem_only_trans [OF I(3) IH(1)] only_in_trans [OF _ IH(2)] by blast
qed

lemma ArenaInit_effect:
  "mem_only s (ArenaInit s a)" "only_in (mem s) (mem (ArenaInit s a)) a 168"
  "i < 7 \<Longrightarrow> fresh_desc (mem (ArenaInit s a)) (desc_at a i) (class_size i)"
proof -
  have "ArenaInit s a = ArenaInit_loop 7 s (desc_at a 0) (of_nat (class_size 0))"
    by (simp add: ArenaInit_def ARENA_SUM_def desc_at_def class_size_def)
  with ArenaInit_loop_effect [of 0 7 s a] show "mem_only s (ArenaInit s a)" "only_in (mem s) (mem (ArenaInit s a)) a 168"
    "i < 7 \<Longrightarrow> fresh_desc (mem (ArenaInit s a)) (desc_at a i) (class_size i)" by auto
qed

text \<open>The search picks the smallest class that is large enough.\<close>

lemma arena_index_eq:
  assumes "\<forall>i < 7. unat (block_size m (desc_at a i)) = class_size i" "k \<le> 6" "unat request \<le> 1024"
    and "\<forall>i < k. class_size i < unat request" "k + n = 7"
  shows "\<exists>i \<le> 6. arena_index n m a request k = i \<and> unat request \<le> class_size i \<and> (\<forall>j < i. class_size j < unat request)"
  using assms(2-)
proof (induction n arbitrary: k)
  case (Suc n)
  have b: "unat (block_size m (desc_at a k)) = class_size k" using assms(1) Suc.prems(1) by simp
  show ?case
  proof (cases "unat request \<le> class_size k")
    case True
    then have "arena_index (Suc n) m a request k = k"
      using b by (simp add: word_le_nat_alt desc_at_def)
    with True Suc.prems show ?thesis by auto
  next
    case False
    then have k: "k \<noteq> 6" using Suc.prems(2) by (auto simp: class_size_def)
    have "arena_index (Suc n) m a request k = arena_index n m a request (Suc k)"
      using False b by (simp add: word_le_nat_alt desc_at_def)
    moreover have "\<forall>i < Suc k. class_size i < unat request" using Suc.prems(3) False by (auto simp: less_Suc_eq)
    ultimately show ?thesis using Suc.IH [of "Suc k"] Suc.prems k by simp
  qed
qed simp

section \<open>Blocks inside an arena\<close>

definition block_at :: "addr \<Rightarrow> nat \<Rightarrow> nat \<Rightarrow> addr" where
  "block_at av bs i = av + 12 + of_nat (bs * i)"

definition block_class :: "nat \<Rightarrow> bool" where
  "block_class bs \<longleftrightarrow> (\<exists>i < 7. bs = class_size i)"

lemma block_class_bounds: "block_class bs \<Longrightarrow> 16 \<le> bs \<and> bs \<le> 1024 \<and> 3 \<le> 4084 div bs"
proof -
  assume "block_class bs"
  then obtain i where "i < 7" "bs = class_size i" by (auto simp: block_class_def)
  then have "i \<in> {0, 1, 2, 3, 4, 5, 6}" "bs = 16 * 2 ^ i" by (auto simp: class_size_def)
  then show ?thesis by auto
qed

lemma block_offset:
  assumes "block_class bs" "i < 4084 div bs"
  shows "bs * i + bs \<le> 4084" "unat (12 + of_nat (bs * i) :: u32) = 12 + bs * i"
proof -
  have "bs * Suc i \<le> bs * (4084 div bs)" using assms(2) by (intro mult_le_mono2) simp
  also have "\<dots> \<le> 4084" by simp
  finally show b: "bs * i + bs \<le> 4084" by simp
  then have "unat (of_nat (bs * i) :: u32) = bs * i" by (intro unat_of_nat_u32) simp
  then show "unat (12 + of_nat (bs * i) :: u32) = 12 + bs * i"
    using b by (simp add: unat_plus_lt del: of_nat_mult)
qed

lemma block2arena_mask: "block2arena b = b AND PAGE_MASK"
  by (simp add: block2arena_def PAGE_MASK_def)

lemma block_in_arena:
  assumes "block_class bs" "i < 4084 div bs" "page_aligned av"
  shows "block2arena (block_at av bs i) = av" "sep av 12 (block_at av bs i) bs"
    "only_in m m' (block_at av bs i) bs \<Longrightarrow> only_in m m' av 4096"
    "sep av 4096 b k \<Longrightarrow> 0 < k \<Longrightarrow> sep (block_at av bs i) bs b k"
proof -
  define off :: u32 where "off = 12 + of_nat (bs * i)"
  have a: "block_at av bs i = av + off" by (simp only: block_at_def off_def add.assoc)
  have u: "unat off = 12 + bs * i" "bs * i + bs \<le> 4084" "16 \<le> bs"
    using block_offset [OF assms(1,2)] block_class_bounds [OF assms(1)] by (simp_all only: off_def)
  show "block2arena (block_at av bs i) = av"
    unfolding block2arena_mask a using u by (intro page_of_offset [OF assms(3)]) linarith
  have "off \<noteq> 0" using u(1) by auto
  then show "sep av 12 (block_at av bs i) bs"
    unfolding a sep_fields unat_minus_u32 using u by auto
  show "only_in m m' av 4096" if "only_in m m' (block_at av bs i) bs"
    by (rule only_in_part [OF that [unfolded a]]) (use u in linarith)
  show "sep (block_at av bs i) bs b k" if "sep av 4096 b k" "0 < k"
    unfolding a by (rule sep_offset_left [OF that(1) _ _ that(2)]) (use u in linarith)+
qed

lemma blocks_sep:
  assumes "block_class bs" "i < 4084 div bs" "j < 4084 div bs" "page_aligned av" "page_aligned aw"
    and "block_at av bs i \<noteq> block_at aw bs j"
  shows "sep (block_at av bs i) bs (block_at aw bs j) bs"
proof (cases "av = aw")
  case True
  then have "i \<noteq> j" using assms(6) by auto
  moreover have "bs * (4084 div bs) \<le> 4084" by simp
  then have "bs * (4084 div bs) \<le> 2 ^ 32" by (rule order_trans) simp
  ultimately show ?thesis
    unfolding block_at_def True using assms(2,3) by (intro sep_array)
next
  case False
  have "0 < bs" using block_class_bounds [OF assms(1)] by simp
  have "sep av 4096 aw 4096" by (rule pages_sep [OF assms(4,5) False])
  from block_in_arena(4) [OF assms(1,2,4) this] have "sep (block_at av bs i) bs aw 4096" by simp
  from block_in_arena(4) [OF assms(1,3,5) sep_sym [OF this] \<open>0 < bs\<close>] show ?thesis by (rule sep_sym)
qed

section \<open>The invariant of a descriptor\<close>

text \<open>
  The descriptor \<open>d\<close> of block size \<open>bs\<close> with the arena pages \<open>ps\<close> and the free blocks \<open>xs\<close> in list
  order: every free block is a block of one of the arenas, and the counter of an arena is the number
  of its free blocks.
\<close>

definition arena_layout :: "addr \<Rightarrow> nat \<Rightarrow> addr set \<Rightarrow> bool" where
  "arena_layout d bs ps \<longleftrightarrow> block_class bs
     \<and> (\<forall>av \<in> ps. page_aligned av \<and> av \<noteq> NULL \<and> sep d 24 av 4096)"

definition blocks_of :: "nat \<Rightarrow> addr set \<Rightarrow> addr set" where
  "blocks_of bs ps = {x. \<exists>av \<in> ps. \<exists>i < 4084 div bs. x = block_at av bs i}"

definition free_in :: "nat \<Rightarrow> addr \<Rightarrow> addr set \<Rightarrow> nat set" where
  "free_in bs av X = {i. i < 4084 div bs \<and> block_at av bs i \<in> X}"

definition arena_header :: "mem \<Rightarrow> addr \<Rightarrow> addr \<Rightarrow> nat \<Rightarrow> bool" where
  "arena_header m av d c \<longleftrightarrow> arena_desc_of m av = d \<and> large_request m av = 0 \<and> unat (arena_cnt m av) = c"

definition arena_inv :: "mem \<Rightarrow> addr \<Rightarrow> nat \<Rightarrow> addr set \<Rightarrow> addr list \<Rightarrow> bool" where
  "arena_inv m d bs ps xs \<longleftrightarrow> arena_layout d bs ps \<and> is_desc m d bs \<and> is_list m (free_list d) xs
     \<and> set xs \<subseteq> blocks_of bs ps \<and> (\<forall>av \<in> ps. arena_header m av d (card (free_in bs av (set xs))))"

lemma is_desc_cong: "eq_on m' m d 8 \<Longrightarrow> is_desc m' d bs = is_desc m d bs"
proof -
  assume e: "eq_on m' m d 8"
  have "ld32 m' (d + off) = ld32 m (d + off)" if "unat off + 4 \<le> 8" for off
    by (rule ld32_cong [OF eq_on_part [OF e that]])
  from this [of 0] this [of 4] show ?thesis by (simp add: is_desc_def block_size_def memory_blocks_sum_def)
qed

lemma arena_header_cong: "eq_on m' m av 12 \<Longrightarrow> arena_header m' av d c = arena_header m av d c"
proof -
  assume e: "eq_on m' m av 12"
  have "ld32 m' (av + off) = ld32 m (av + off)" if "unat off + 4 \<le> 12" for off
    by (rule ld32_cong [OF eq_on_part [OF e that]])
  from this [of 0] this [of 4] this [of 8] show ?thesis
    by (simp add: arena_header_def arena_desc_of_def large_request_def arena_cnt_def)
qed

text \<open>Where the nodes of the free list are.\<close>

lemma block_cases:
  assumes "arena_layout d bs ps" "x \<in> blocks_of bs ps"
  obtains av i where "av \<in> ps" "i < 4084 div bs" "x = block_at av bs i" "page_aligned av" "sep d 24 av 4096"
    "block_class bs" "8 \<le> bs" "block2arena x = av"
proof -
  obtain av i where a: "av \<in> ps" "i < 4084 div bs" "x = block_at av bs i" using assms(2) by (auto simp: blocks_of_def)
  moreover from a(1) assms(1) have "page_aligned av" "sep d 24 av 4096" "block_class bs" by (auto simp: arena_layout_def)
  ultimately show thesis
    using that block_in_arena(1) block_class_bounds [of bs] by auto
qed

lemma block_sep_desc:
  assumes "arena_layout d bs ps" "x \<in> blocks_of bs ps" "unat off + n \<le> 24" "0 < n"
  shows "sep x bs (d + off) n"
proof -
  obtain av i where b: "i < 4084 div bs" "x = block_at av bs i" "page_aligned av" "sep d 24 av 4096" "block_class bs"
    using block_cases [OF assms(1,2)] by metis
  have "sep av 4096 (d + off) n" by (rule sep_offset_right [OF sep_sym [OF b(4)] assms(3) _ assms(4)]) simp
  from block_in_arena(4) [OF b(5,1,3) this assms(4)] show ?thesis by (simp add: b(2))
qed

lemma block_sep_header:
  assumes "arena_layout d bs ps" "x \<in> blocks_of bs ps" "av \<in> ps"
  shows "sep x bs av 12"
proof -
  obtain aw i where b: "i < 4084 div bs" "x = block_at aw bs i" "page_aligned aw" "block_class bs"
    using block_cases [OF assms(1,2)] by metis
  have p: "page_aligned av" using assms(1,3) by (auto simp: arena_layout_def)
  show ?thesis
  proof (cases "aw = av")
    case True
    then show ?thesis using sep_sym [OF block_in_arena(2) [OF b(4,1,3)]] by (simp add: b(2))
  next
    case False
    from pages_sep [OF b(3) p False] have "sep aw 4096 av 12"
      using sep_offset_right [of aw 4096 av 4096 0 12] by simp
    from block_in_arena(4) [OF b(4,1,3) this] show ?thesis by (simp add: b(2))
  qed
qed

lemma block_sep_block:
  assumes "arena_layout d bs ps" "x \<in> blocks_of bs ps" "y \<in> blocks_of bs ps" "x \<noteq> y"
  shows "sep x bs y bs"
  using assms(2,3) blocks_sep assms(1,4) by (fastforce simp: blocks_of_def arena_layout_def)

definition free_nodes :: "addr \<Rightarrow> nat \<Rightarrow> addr set \<Rightarrow> addr set" where
  "free_nodes d bs ps = {d + 8, d + 16} \<union> blocks_of bs ps"

lemma nodes_free_list: "set xs \<subseteq> blocks_of bs ps \<Longrightarrow> set (nodes (free_list d) xs) \<subseteq> free_nodes d bs ps"
  by (auto simp: free_nodes_def free_list_def add.assoc)

lemma desc_nodes_sep:
  assumes "arena_layout d bs ps" "av \<in> ps" "off = 8 \<or> off = 16"
  shows "sep (d + off) 8 av 12"
proof -
  have "sep d 24 av 4096" using assms(1,2) by (auto simp: arena_layout_def)
  from sep_parts [OF this, of off 8 0 12] assms(3) show ?thesis by auto
qed

lemma free_nodes_frame:
  assumes "arena_layout d bs ps" "only_nodes m m' N" "N \<subseteq> free_nodes d bs ps"
  shows "eq_on m' m d 8" "av \<in> ps \<Longrightarrow> eq_on m' m av 12"
proof -
  have bs: "8 \<le> bs" using assms(1) block_class_bounds [of bs] by (auto simp: arena_layout_def)
  show "eq_on m' m d 8"
  proof (rule only_nodes_eq_on [OF assms(2)])
    fix n assume "n \<in> N"
    then consider "n = d + 8" | "n = d + 16" | "n \<in> blocks_of bs ps" using assms(3) by (auto simp: free_nodes_def)
    then show "sep n 8 d 8"
    proof cases
      case 3
      from block_sep_desc [OF assms(1) this, of 0 8] sep_offset_left [of n bs d 8 0 8] bs show ?thesis by simp
    qed simp_all
  qed
  show "eq_on m' m av 12" if av: "av \<in> ps"
  proof (rule only_nodes_eq_on [OF assms(2)])
    fix n assume "n \<in> N"
    then consider "n = d + 8" | "n = d + 16" | "n \<in> blocks_of bs ps" using assms(3) by (auto simp: free_nodes_def)
    then show "sep n 8 av 12"
    proof cases
      case 3
      from block_sep_header [OF assms(1) this av] sep_offset_left [of n bs av 12 0 8] bs show ?thesis by simp
    qed (use desc_nodes_sep [OF assms(1) av] in auto)
  qed
qed

text \<open>A block outside the free list, and the header of an arena, are apart from the list's nodes.\<close>

lemma block_sep_nodes:
  assumes "arena_layout d bs ps" "x \<in> blocks_of bs ps" "set xs \<subseteq> blocks_of bs ps" "x \<notin> set xs"
    and "n \<in> set (nodes (free_list d) xs)"
  shows "sep x bs n 8"
proof -
  have bs: "8 \<le> bs" using assms(1) block_class_bounds [of bs] by (auto simp: arena_layout_def)
  consider "n = d + 8" | "n = d + 16" | "n \<in> blocks_of bs ps" "n \<noteq> x"
    using assms(3,4,5) by (auto simp: free_list_def add.assoc)
  then show ?thesis
  proof cases
    case 3
    from block_sep_block [OF assms(1,2) this(1)] 3(2) sep_offset_right [of x bs n bs 0 8] bs show ?thesis by simp
  qed (use block_sep_desc [OF assms(1,2)] in auto)
qed

lemma header_sep_nodes:
  assumes "arena_layout d bs ps" "av \<in> ps" "set xs \<subseteq> blocks_of bs ps" "n \<in> set (nodes (free_list d) xs)"
  shows "sep (av + 4) 4 n 8"
proof -
  have bs: "8 \<le> bs" using assms(1) block_class_bounds [of bs] by (auto simp: arena_layout_def)
  have "sep av 12 n 8"
  proof -
    consider "n = d + 8" | "n = d + 16" | "n \<in> blocks_of bs ps"
      using assms(3,4) by (auto simp: free_list_def add.assoc)
    then show ?thesis
    proof cases
      case 3
      from sep_sym [OF block_sep_header [OF assms(1) this assms(2)]] sep_offset_right [of av 12 n bs 0 8] bs
      show ?thesis by simp
    qed (use desc_nodes_sep [OF assms(1,2)] sep_sym in auto)
  qed
  from sep_offset_left [OF this, of 4 4] show ?thesis by simp
qed

text \<open>Counting: a block joins or leaves the free blocks of its own arena only.\<close>

lemma block_at_inj:
  assumes "arena_layout d bs ps" "av \<in> ps" "aw \<in> ps" "i < 4084 div bs" "j < 4084 div bs"
    and "block_at av bs i = block_at aw bs j"
  shows "av = aw" "i = j"
proof -
  have p: "page_aligned av" "page_aligned aw" "block_class bs" using assms(1-3) by (auto simp: arena_layout_def)
  from block_in_arena(1) [OF p(3) assms(4) p(1)] block_in_arena(1) [OF p(3) assms(5) p(2)] assms(6)
  show e: "av = aw" by simp
  show "i = j"
  proof (rule ccontr)
    assume "i \<noteq> j"
    moreover have "bs * (4084 div bs) \<le> 4084" by simp
    then have "bs * (4084 div bs) \<le> 2 ^ 32" by (rule order_trans) simp
    ultimately have "sep (av + 12 + of_nat (bs * i)) bs (av + 12 + of_nat (bs * j)) bs"
      using assms(4,5) by (intro sep_array)
    then show False
      using assms(6) e block_class_bounds [OF p(3)] sep_neq [of "block_at av bs i" bs "block_at av bs j" bs]
      by (simp only: block_at_def) auto
  qed
qed

lemma free_in_insert:
  assumes "arena_layout d bs ps" "av \<in> ps" "x \<in> blocks_of bs ps" "x \<notin> X"
  shows "card (free_in bs av (insert x X)) = card (free_in bs av X) + (if block2arena x = av then 1 else 0)"
proof -
  obtain aw i where b: "aw \<in> ps" "i < 4084 div bs" "x = block_at aw bs i" "block2arena x = aw"
    using block_cases [OF assms(1,3)] by metis
  have fin: "finite (free_in bs av X)" by (simp add: free_in_def)
  show ?thesis
  proof (cases "aw = av")
    case True
    have "free_in bs av (insert x X) = insert i (free_in bs av X)"
      using b(2,3) True block_at_inj [OF assms(1,2,2)] by (auto simp: free_in_def)
    moreover have "i \<notin> free_in bs av X" using assms(4) b(3) True by (simp add: free_in_def)
    ultimately show ?thesis using b(4) True fin by simp
  next
    case False
    then have "free_in bs av (insert x X) = free_in bs av X"
      using b block_at_inj(1) [OF assms(1,2)] by (auto simp: free_in_def)
    then show ?thesis using b(4) False by simp
  qed
qed

text \<open>What the operations on a descriptor may write: the descriptor and its arenas.\<close>

definition arena_frame :: "addr \<Rightarrow> addr set \<Rightarrow> mem \<Rightarrow> mem \<Rightarrow> bool" where
  "arena_frame d ps m m' \<longleftrightarrow> (\<forall>y. \<not> inr y d 24 \<and> (\<forall>av \<in> ps. \<not> inr y av 4096) \<longrightarrow> m' y = m y)"

lemma arena_frame_trans: "arena_frame d ps m m1 \<Longrightarrow> arena_frame d ps m1 m2 \<Longrightarrow> arena_frame d ps m m2"
  by (simp add: arena_frame_def)

lemma arena_frame_page: "only_in m m' av 4096 \<Longrightarrow> av \<in> ps \<Longrightarrow> arena_frame d ps m m'"
  by (auto simp: arena_frame_def only_in_def)

lemma block_in_page:
  assumes "arena_layout d bs ps" "x \<in> blocks_of bs ps" "n \<le> bs" "inr y x n"
  shows "\<exists>av \<in> ps. inr y av 4096"
proof -
  obtain av i where b: "av \<in> ps" "i < 4084 div bs" "x = block_at av bs i" "page_aligned av" "block_class bs"
    using block_cases [OF assms(1,2)] by metis
  have "unat (12 + of_nat (bs * i) :: u32) + n \<le> 4096"
    using block_offset [OF b(5,2)] assms(3) by linarith
  moreover have "x = av + (12 + of_nat (bs * i))" by (simp only: b(3) block_at_def add.assoc)
  ultimately show ?thesis using inr_part [of y av "12 + of_nat (bs * i)" n 4096] assms(4) b(1) by blast
qed

lemma arena_frame_nodes:
  assumes "arena_layout d bs ps" "only_nodes m m' N" "N \<subseteq> free_nodes d bs ps"
  shows "arena_frame d ps m m'"
  unfolding arena_frame_def
proof (intro allI impI)
  fix y assume y: "\<not> inr y d 24 \<and> (\<forall>av \<in> ps. \<not> inr y av 4096)"
  have bs: "8 \<le> bs" using assms(1) block_class_bounds [of bs] by (auto simp: arena_layout_def)
  have "\<not> inr y n 8" if "n \<in> N" for n
  proof
    assume i: "inr y n 8"
    from that assms(3) consider "n = d + 8" | "n = d + 16" | "n \<in> blocks_of bs ps" by (auto simp: free_nodes_def)
    then show False
      using y i inr_part [of y d 8 8 24] inr_part [of y d 16 8 24] block_in_page [OF assms(1) _ bs i] by cases auto
  qed
  then show "m' y = m y" using assms(2) by (simp add: only_nodes_def)
qed

lemma arena_frame_block:
  assumes "arena_layout d bs ps" "only_in m m' x bs" "x \<in> blocks_of bs ps"
  shows "arena_frame d ps m m'"
  using assms(2) block_in_page [OF assms(1,3) order_refl] by (auto simp: arena_frame_def only_in_def)

text \<open>Setting the counter of one arena.\<close>

lemma set_count:
  assumes lay: "arena_layout d bs ps" and av: "av \<in> ps" and D: "is_desc m d bs"
    and L: "is_list m (free_list d) xs" and X: "set xs \<subseteq> blocks_of bs ps"
    and H: "\<And>aw. aw \<in> ps \<Longrightarrow> aw \<noteq> av \<Longrightarrow> arena_header m aw d (card (free_in bs aw (set xs)))"
    and h: "arena_header m av d c" and v: "unat v = card (free_in bs av (set xs))"
  shows "arena_inv (st32 m (av + 4) v) d bs ps xs" "arena_frame d ps m (st32 m (av + 4) v)"
proof -
  let ?m = "st32 m (av + 4) v"
  have o: "only_in m ?m (av + 4) 4" by (rule only_in_st32)
  have p: "page_aligned av" "sep d 24 av 4096" using lay av by (auto simp: arena_layout_def)
  have "sep (av + 4) 4 d 8"
    using sep_sym [OF sep_parts [OF p(2), of 0 8 4 4]] by simp
  then have D': "is_desc ?m d bs" using is_desc_cong [OF only_in_sep [OF o]] D by simp
  have L': "is_list ?m (free_list d) xs"
    by (rule is_list_only_in [OF L o header_sep_nodes [OF lay av X]])
  have H': "arena_header ?m aw d (card (free_in bs aw (set xs)))" if aw: "aw \<in> ps" for aw
  proof (cases "aw = av")
    case True
    then show ?thesis using h v by (simp add: arena_header_def arena_desc_of_def large_request_def arena_cnt_def)
  next
    case False
    have "page_aligned aw" using lay aw by (auto simp: arena_layout_def)
    from pages_sep [OF p(1) this] False have "sep av 4096 aw 4096" by auto
    from sep_parts [OF this, of 4 4 0 12] have "sep (av + 4) 4 aw 12" by simp
    then show ?thesis using arena_header_cong [OF only_in_sep [OF o]] H [OF aw False] by simp
  qed
  from lay D' L' X H' show "arena_inv ?m d bs ps xs" by (simp add: arena_inv_def)
  show "arena_frame d ps m ?m"
    using arena_frame_page [OF only_in_part [OF o, of 4096] av] by simp
qed

text \<open>The contents of a block that is in use is not touched by list operations and counter updates.\<close>

lemma live_nodes:
  assumes "arena_layout d bs ps" "only_nodes m m' (set (nodes (free_list d) xs))" "set xs \<subseteq> blocks_of bs ps"
    and "z \<in> blocks_of bs ps - set xs"
  shows "eq_on m' m z bs"
  using assms block_sep_nodes sep_sym by (intro only_nodes_eq_on [OF assms(2)]) (blast intro: block_sep_nodes sep_sym)

lemma live_count:
  assumes "arena_layout d bs ps" "av \<in> ps" "z \<in> blocks_of bs ps"
  shows "eq_on (st32 m (av + 4) v) m z bs"
proof (rule only_in_sep [OF only_in_st32])
  have "0 < bs" using assms(1) block_class_bounds [of bs] by (auto simp: arena_layout_def)
  then show "sep (av + 4) 4 z bs"
    using sep_offset_left [OF sep_sym [OF block_sep_header [OF assms(1,3,2)]], of 4 4] by simp
qed

lemma pop_block_effect:
  assumes inv: "arena_inv (mem s) d bs ps (x # xs)"
  obtains m' where "pop_block s d = Ok x (s\<lparr>mem := m'\<rparr>)" "arena_inv m' d bs ps xs"
    "\<forall>y. inr y x bs \<longrightarrow> m' y = 0" "arena_frame d ps (mem s) m'"
    "\<forall>z \<in> blocks_of bs ps - set (x # xs). eq_on m' (mem s) z bs"
proof -
  have lay: "arena_layout d bs ps" and D: "is_desc (mem s) d bs" and L: "is_list (mem s) (free_list d) (x # xs)"
    and X: "x \<in> blocks_of bs ps" "set xs \<subseteq> blocks_of bs ps"
    and H: "\<And>av. av \<in> ps \<Longrightarrow> arena_header (mem s) av d (card (free_in bs av (insert x (set xs))))"
    using inv by (auto simp: arena_inv_def)
  obtain av i where b: "av \<in> ps" "i < 4084 div bs" "x = block_at av bs i" "page_aligned av" "block_class bs" "block2arena x = av"
    using block_cases [OF lay X(1)] by metis
  obtain m1 where m1: "list_pop s (free_list d) = Ok x (s\<lparr>mem := m1\<rparr>)" "is_list m1 (free_list d) xs"
    "only_nodes (mem s) m1 (set (nodes (free_list d) xs))" "fresh_node (free_list d) xs x"
    by (rule list_pop_effect [OF L])
  note N = nodes_free_list [OF X(2), of d]
  have nx: "x \<notin> set xs" "x \<noteq> NULL" using fresh_node_notin [OF m1(4)] m1(4) by (auto simp: fresh_node_def)
  note F1 = free_nodes_frame [OF lay m1(3) N]
  have D1: "is_desc m1 d bs" using is_desc_cong [OF F1(1)] D by simp
  have bsz: "unat (block_size m1 d) = bs" "bs < 2 ^ 32"
    using D1 block_class_bounds [OF b(5)] by (auto simp: is_desc_def)
  define m2 where "m2 = memset_loop bs m1 x 0"
  have o2: "only_in m1 m2 x bs" unfolding m2_def by (rule memset_loop_only_in [OF bsz(2)])
  have eD: "eq_on m2 m1 d 8" using block_sep_desc [OF lay X(1), of 0 8] by (intro only_in_sep [OF o2]) simp
  have eH: "eq_on m2 m1 aw 12" if "aw \<in> ps" for aw
    by (rule only_in_sep [OF o2 block_sep_header [OF lay X(1) that]])
  have hd2: "arena_header m2 aw d (card (free_in bs aw (insert x (set xs))))" if "aw \<in> ps" for aw
    using H [OF that] arena_header_cong [OF F1(2) [OF that]] arena_header_cong [OF eH [OF that]] by simp
  have L2: "is_list m2 (free_list d) xs"
    by (rule is_list_only_in [OF m1(2) o2 block_sep_nodes [OF lay X(1,2) nx(1)]])
  let ?m3 = "st32 m2 (av + 4) (arena_cnt m2 av - 1)"
  have P: "pop_block s d = Ok x (s\<lparr>mem := ?m3\<rparr>)"
    using m1(1) nx(2) bsz(1) b(6)
    by (simp add: pop_block_def memset_def m2_def put32_def Let_def)
  have c: "unat (arena_cnt m2 av) = Suc (card (free_in bs av (set xs)))"
    using hd2 [OF b(1)] free_in_insert [OF lay b(1) X(1) nx(1)] b(6) by (simp add: arena_header_def)
  then have v: "unat (arena_cnt m2 av - 1) = card (free_in bs av (set xs))"
    by (subst unat_minus_one) auto
  have H2: "arena_header m2 aw d (card (free_in bs aw (set xs)))" if "aw \<in> ps" "aw \<noteq> av" for aw
    using hd2 [OF that(1)] free_in_insert [OF lay that(1) X(1) nx(1)] b(6) that(2) by simp
  have D2: "is_desc m2 d bs" using is_desc_cong [OF eD] D1 by simp
  note C = set_count [OF lay b(1) D2 L2 X(2) H2 hd2 [OF b(1)] v]
  have "m2 y = 0" "?m3 y = m2 y" if y: "inr y x bs" for y
  proof -
    show "m2 y = 0" using y bsz(2) by (simp add: m2_def memset_loop_byte)
    have "sep x bs (av + 4) 4"
      using sep_offset_right [OF block_sep_header [OF lay X(1) b(1)], of 4 4] block_class_bounds [OF b(5)] by simp
    then have "\<not> inr y (av + 4) 4" using sep_disjoint y by blast
    then show "?m3 y = m2 y" by (rule b4.st_byte)
  qed
  then have Z: "\<forall>y. inr y x bs \<longrightarrow> ?m3 y = 0" by simp
  have "arena_frame d ps (mem s) m2"
    by (rule arena_frame_trans [OF arena_frame_nodes [OF lay m1(3) N] arena_frame_block [OF lay o2 X(1)]])
  note fr = arena_frame_trans [OF this C(2)]
  have "eq_on ?m3 (mem s) z bs" if z: "z \<in> blocks_of bs ps - set (x # xs)" for z
  proof -
    have "eq_on m1 (mem s) z bs" by (rule live_nodes [OF lay m1(3) X(2)]) (use z in auto)
    moreover have "eq_on m2 m1 z bs" using z by (intro only_in_sep [OF o2] block_sep_block [OF lay X(1)]) auto
    moreover have "eq_on ?m3 m2 z bs" using z by (intro live_count [OF lay b(1)]) simp
    ultimately show ?thesis by (simp add: eq_on_def)
  qed
  with that [OF P C(1) Z fr] show thesis by blast
qed

text \<open>A block that is not free can be put into the free list.\<close>

lemma block_nonnull:
  assumes "arena_layout d bs ps" "x \<in> blocks_of bs ps"
  shows "x \<noteq> NULL"
proof
  assume "x = NULL"
  obtain av where "av \<in> ps" "block2arena x = av" using block_cases [OF assms] by metis
  then have "av = NULL" by (simp add: \<open>x = NULL\<close> block2arena_def)
  with \<open>av \<in> ps\<close> assms(1) show False by (auto simp: arena_layout_def)
qed

lemma fresh_block:
  assumes "arena_layout d bs ps" "x \<in> blocks_of bs ps" "set xs \<subseteq> blocks_of bs ps" "x \<notin> set xs"
  shows "fresh_node (free_list d) xs x"
proof -
  have bs: "8 \<le> bs" using assms(1) block_class_bounds [of bs] by (auto simp: arena_layout_def)
  have "sep x 8 n 8" if "n \<in> set (nodes (free_list d) xs)" for n
    using sep_offset_left [OF block_sep_nodes [OF assms that], of 0 8] bs by simp
  then show ?thesis using block_nonnull [OF assms(1,2)] by (simp add: fresh_node_def)
qed

lemma append_block:
  assumes lay: "arena_layout d bs ps" and D: "is_desc (mem s) d bs" and L: "is_list (mem s) (free_list d) xs"
    and X: "set xs \<subseteq> blocks_of bs ps" and x: "x \<in> blocks_of bs ps" "x \<notin> set xs"
  obtains m' where "list_append s (free_list d) x = Ok () (s\<lparr>mem := m'\<rparr>)" "is_desc m' d bs"
    "is_list m' (free_list d) (xs @ [x])" "\<forall>av \<in> ps. eq_on m' (mem s) av 12" "arena_frame d ps (mem s) m'"
    "\<forall>z \<in> blocks_of bs ps - set (x # xs). eq_on m' (mem s) z bs"
proof -
  obtain m' where m: "list_append s (free_list d) x = Ok () (s\<lparr>mem := m'\<rparr>)" "is_list m' (free_list d) (xs @ [x])"
    "only_nodes (mem s) m' (insert x (set (nodes (free_list d) xs)))"
    by (rule list_append_effect [OF L fresh_block [OF lay x(1) X x(2)]])
  have N: "insert x (set (nodes (free_list d) xs)) \<subseteq> free_nodes d bs ps"
    using nodes_free_list [OF X, of d] x(1) by (auto simp: free_nodes_def)
  note F = free_nodes_frame [OF lay m(3) N]
  have live: "eq_on m' (mem s) z bs" if z: "z \<in> blocks_of bs ps - set (x # xs)" for z
  proof (rule only_nodes_eq_on [OF m(3)])
    have bs: "8 \<le> bs" using lay block_class_bounds [of bs] by (auto simp: arena_layout_def)
    fix n assume "n \<in> insert x (set (nodes (free_list d) xs))"
    then consider "n = x" | "n \<in> set (nodes (free_list d) xs)" by auto
    then show "sep n 8 z bs"
    proof cases
      case 1
      have "sep x bs z bs" using z by (intro block_sep_block [OF lay x(1)]) auto
      from sep_offset_left [OF this, of 0 8] bs 1 show ?thesis by simp
    next
      case 2
      show ?thesis by (rule sep_sym [OF block_sep_nodes [OF lay _ X _ 2]]) (use z in auto)
    qed
  qed
  have D': "is_desc m' d bs" using is_desc_cong [OF F(1)] D by simp
  show thesis
    by (rule that [OF m(1) D' m(2) _ arena_frame_nodes [OF lay m(3) N]]) (use F(2) live in blast)+
qed

lemma arena2block_at:
  assumes "is_desc m d bs" "arena_header m av d c"
  shows "arena2block m av (of_nat i) = block_at av bs i"
proof -
  have "block_size m d = of_nat bs" using assms(1) by (auto simp: is_desc_def)
  then show ?thesis
    using assms(2) by (simp add: arena2block_def arena_header_def block_at_def sizeof_arena_def mult.commute)
qed

lemma arena_fill_effect:
  assumes lay: "arena_layout d bs ps" and av: "av \<in> ps"
  shows "is_desc (mem s) d bs \<Longrightarrow> arena_header (mem s) av d (4084 div bs) \<Longrightarrow> k + j = 4084 div bs \<Longrightarrow>
    is_list (mem s) (free_list d) (map (block_at av bs) [0..<k]) \<Longrightarrow>
    \<exists>m'. arena_fill s av (of_nat k) = Some (Ok () (s\<lparr>mem := m'\<rparr>)) \<and> is_desc m' d bs
      \<and> is_list m' (free_list d) (map (block_at av bs) [0..<4084 div bs])
      \<and> (\<forall>aw \<in> ps. eq_on m' (mem s) aw 12) \<and> arena_frame d ps (mem s) m'"
proof (induction j arbitrary: k s)
  case 0
  have "4084 div bs < 2 ^ 32" by (rule le_less_trans [OF div_le_dividend]) simp
  then have "\<not> of_nat k < arena_cnt (mem s) av"
    using 0(2,3) by (simp add: arena_header_def word_less_nat_alt)
  then have "arena_fill s av (of_nat k) = Some (Ok () s)" by (subst arena_fill.simps) simp
  then show ?case using 0 by (intro exI [of _ "mem s"]) (simp add: eq_on_def arena_frame_def)
next
  case (Suc j)
  let ?n = "4084 div bs" and ?x = "block_at av bs k" and ?xs = "map (block_at av bs) [0..<k]"
  have k: "k < ?n" using Suc.prems(3) by simp
  have n: "?n < 2 ^ 32" by (rule le_less_trans [OF div_le_dividend]) simp
  have bl: "block_at av bs i \<in> blocks_of bs ps" if "i < ?n" for i
    using av that by (auto simp: blocks_of_def)
  have X: "set ?xs \<subseteq> blocks_of bs ps" "?x \<in> blocks_of bs ps" using bl k by auto
  have nx: "?x \<notin> set ?xs"
  proof
    assume "?x \<in> set ?xs"
    then obtain i where "i < k" "?x = block_at av bs i" by auto
    with block_at_inj(2) [OF lay av av k, of i] k show False by simp
  qed
  have a2b: "arena2block (mem s) av (of_nat k) = ?x" by (rule arena2block_at [OF Suc.prems(1,2)])
  obtain m1 where m1: "list_append s (free_list d) ?x = Ok () (s\<lparr>mem := m1\<rparr>)" "is_desc m1 d bs"
    "is_list m1 (free_list d) (?xs @ [?x])" "\<forall>aw \<in> ps. eq_on m1 (mem s) aw 12" "arena_frame d ps (mem s) m1"
    by (rule append_block [OF lay Suc.prems(1,4) X nx])
  have d: "arena_desc_of (mem s) av = d" "of_nat k < arena_cnt (mem s) av"
    using Suc.prems(2) k n by (auto simp: arena_header_def word_less_nat_alt)
  have step: "arena_fill s av (of_nat k) = arena_fill (s\<lparr>mem := m1\<rparr>) av (of_nat (Suc k))"
  proof -
    have "elem_find s (free_list d) ?x = Ok False s" using elem_find_eq [OF Suc.prems(4), of ?x] nx by simp
    then have "obind (elem_find s (free_list d) ?x) (\<lambda>found s1.
        ASSERT ''sys_malloc'' ''!elem_find(&av->desc->free_list, &p->free_elem)'' (\<not> found)
          (list_append s1 (free_list (arena_desc_of (mem s1) av)) ?x)) = Ok () (s\<lparr>mem := m1\<rparr>)"
      by (simp only: obind.simps d(1) m1(1)) simp
    then show ?thesis
      by (subst arena_fill.simps) (simp only: d if_True a2b Let_def outcome.case of_nat_Suc add.commute)
  qed
  have h1: "arena_header m1 av d ?n" using arena_header_cong m1(4) av Suc.prems(2) by blast
  have "is_list m1 (free_list d) (map (block_at av bs) [0..<Suc k])" using m1(3) by simp
  with Suc.IH [of "s\<lparr>mem := m1\<rparr>" "Suc k"] m1(2) h1 Suc.prems(3) obtain m' where m':
    "arena_fill (s\<lparr>mem := m1\<rparr>) av (of_nat (Suc k)) = Some (Ok () (s\<lparr>mem := m'\<rparr>))" "is_desc m' d bs"
    "is_list m' (free_list d) (map (block_at av bs) [0..<?n])" "\<forall>aw \<in> ps. eq_on m' m1 aw 12" "arena_frame d ps m1 m'"
    by (simp only: add_Suc_shift kstate.select_convs kstate.update_convs) (auto simp del: upt_Suc)
  have "\<forall>aw \<in> ps. eq_on m' (mem s) aw 12" using m1(4) m'(4) by (simp add: eq_on_def)
  with step m' arena_frame_trans [OF m1(5) m'(5)] show ?case by (intro exI [of _ m']) auto
qed

lemma page_write:
  assumes lay: "arena_layout d bs (insert av ps)" and new: "av \<notin> ps" and o: "only_in m m' av 4096"
  shows "is_desc m d bs \<Longrightarrow> is_desc m' d bs" "is_list m (free_list d) [] \<Longrightarrow> is_list m' (free_list d) []"
    "aw \<in> ps \<Longrightarrow> eq_on m' m aw 12"
proof -
  have p: "page_aligned av" "sep av 4096 d 24" using lay by (auto simp: arena_layout_def sep_commute)
  have s: "sep av 4096 (d + off) 8" if "unat off + 8 \<le> 24" for off
    by (rule sep_offset_right [OF p(2) that]) simp_all
  show "is_desc m' d bs" if "is_desc m d bs"
    using is_desc_cong [OF only_in_sep [OF o]] s [of 0] that by simp
  show "is_list m' (free_list d) []" if l: "is_list m (free_list d) []"
  proof (rule is_list_only_in [OF l o])
    fix x assume "x \<in> set (nodes (free_list d) [])"
    then have "x = d + 8 \<or> x = d + 16" by (auto simp: free_list_def add.assoc)
    with s [of 8] s [of 16] show "sep av 4096 x 8" by auto
  qed
  show "eq_on m' m aw 12" if "aw \<in> ps"
  proof -
    have "page_aligned aw" "av \<noteq> aw" using lay that new by (auto simp: arena_layout_def)
    from sep_offset_right [OF pages_sep [OF p(1) this], of 0 12] have "sep av 4096 aw 12" by simp
    then show ?thesis by (rule only_in_sep [OF o])
  qed
qed

lemma new_arena_effect:
  assumes pa: "palloc g s PF 1 = Ok av (s\<lparr>mem := m1\<rparr>)" and inv: "arena_inv m1 d bs ps []"
    and new: "av \<notin> ps" and lay: "arena_layout d bs (insert av ps)"
  obtains m' where "new_arena g s PF d = Ok True (s\<lparr>mem := m'\<rparr>)"
    "arena_inv m' d bs (insert av ps) (map (block_at av bs) [0..<4084 div bs])" "arena_frame d (insert av ps) m1 m'"
proof -
  let ?n = "4084 div bs"
  have I: "is_desc m1 d bs" "is_list m1 (free_list d) []" "\<forall>aw \<in> ps. arena_header m1 aw d 0"
    using inv by (auto simp: arena_inv_def free_in_def)
  have nn: "av \<noteq> NULL" using lay by (simp add: arena_layout_def)
  define m4 where "m4 = st32 (st32 (memset_loop 4096 m1 av 0) av d) (av + 8) 0"
  define m5 where "m5 = st32 m4 (av + 4) (memory_blocks_sum m4 d)"
  have w: "only_in m (st32 m (av + off) v) av 4096" if "unat off + 4 \<le> 4096" for m off v
    by (rule only_in_part [OF only_in_st32 that])
  have o4: "only_in m1 m4 av 4096"
  proof -
    have "only_in m (st32 m av v) av 4096" for m v using w [of 0] by simp
    from only_in_trans [OF only_in_trans [OF memset_loop_only_in this] w [of 8]] show ?thesis by (simp add: m4_def)
  qed
  have o5: "only_in m1 m5 av 4096" using only_in_trans [OF o4 w [of 4]] by (simp add: m5_def)
  note P4 = page_write [OF lay new o4] and P5 = page_write [OF lay new o5]
  have h5: "arena_header m5 av d ?n"
    using P4(1) [OF I(1)]
    by (simp add: arena_header_def arena_desc_of_def large_request_def arena_cnt_def m5_def m4_def is_desc_def)
  let ?s5 = "s\<lparr>mem := m5\<rparr>"
  let ?s6 = "snd (DisableInt ?s5)"
  have "mem ?s6 = m5" by simp
  then obtain m' where F: "arena_fill ?s6 av 0 = Some (Ok () (?s6\<lparr>mem := m'\<rparr>))" "is_desc m' d bs"
    "is_list m' (free_list d) (map (block_at av bs) [0..<?n])" "\<forall>aw \<in> insert av ps. eq_on m' m5 aw 12"
    "arena_frame d (insert av ps) m5 m'"
    using arena_fill_effect [OF lay insertI1, of ?s6 0 ?n] P5(1,2) I(1,2) h5 by auto
  have N: "new_arena g s PF d = Ok True (s\<lparr>mem := m'\<rparr>)"
    using pa nn F(1) critical_section [of ?s5 m']
    by (simp add: new_arena_def memset_def m5_def m4_def put32_def Let_def split_def)
  have fr: "arena_frame d (insert av ps) m1 m'"
    by (rule arena_frame_trans [OF arena_frame_page [OF o5 insertI1] F(5)])
  have H: "arena_header m' aw d (card (free_in bs aw (set (map (block_at av bs) [0..<?n]))))"
    if aw: "aw \<in> insert av ps" for aw
  proof (cases "aw = av")
    case True
    have "free_in bs av (set (map (block_at av bs) [0..<?n])) = {..<?n}" by (auto simp: free_in_def)
    then show ?thesis using True arena_header_cong [of m' m5 av] F(4) h5 by simp
  next
    case False
    have "free_in bs aw (set (map (block_at av bs) [0..<?n])) = {}"
      using False block_at_inj(1) [OF lay aw insertI1] by (auto simp: free_in_def)
    then show ?thesis
      using False aw F(4) I(3) arena_header_cong [of m' m5 aw] arena_header_cong [OF P5(3)] by simp
  qed
  have X: "set (map (block_at av bs) [0..<?n]) \<subseteq> blocks_of bs (insert av ps)" by (auto simp: blocks_of_def)
  from that [OF N _ fr] lay F(2,3) X H show thesis by (simp add: arena_inv_def del: set_map)
qed

lemma remove_block:
  assumes lay: "arena_layout d bs ps" and D: "is_desc (mem s) d bs" and L: "is_list (mem s) (free_list d) ys"
    and Y: "set ys \<subseteq> blocks_of bs ps" and v: "v \<in> set ys"
  obtains m' where "list_remove s v = Ok () (s\<lparr>mem := m'\<rparr>)" "is_desc m' d bs"
    "is_list m' (free_list d) (filter (\<lambda>y. y \<noteq> v) ys)" "\<forall>av \<in> ps. eq_on m' (mem s) av 12" "arena_frame d ps (mem s) m'"
    "\<forall>z \<in> blocks_of bs ps - set ys. eq_on m' (mem s) z bs"
proof -
  obtain as zs where ys: "ys = as @ v # zs" using v by (auto simp: in_set_conv_decomp)
  have "distinct ys" using L by (auto simp: is_list_def)
  then have "filter (\<lambda>y. y \<noteq> v) as = as" "filter (\<lambda>y. y \<noteq> v) zs = zs" by (intro filter_True; auto simp: ys)+
  then have f: "filter (\<lambda>y. y \<noteq> v) ys = as @ zs" by (simp add: ys)
  obtain m' where m: "list_remove s v = Ok () (s\<lparr>mem := m'\<rparr>)" "is_list m' (free_list d) (as @ zs)"
    "only_nodes (mem s) m' (set (nodes (free_list d) (as @ zs)))"
    using list_remove_effect [OF L [unfolded ys]] by metis
  have N: "set (nodes (free_list d) (as @ zs)) \<subseteq> free_nodes d bs ps"
    using Y by (intro nodes_free_list) (auto simp: ys)
  note F = free_nodes_frame [OF lay m(3) N]
  have Y': "set (as @ zs) \<subseteq> blocks_of bs ps" using Y by (auto simp: ys)
  have "eq_on m' (mem s) z bs" if z: "z \<in> blocks_of bs ps - set ys" for z
    by (rule live_nodes [OF lay m(3) Y']) (use z in \<open>auto simp: ys\<close>)
  with that [OF m(1)] F is_desc_cong [OF F(1)] D m(2) arena_frame_nodes [OF lay m(3) N] show thesis unfolding f by blast
qed

lemma arena_drain_effect:
  assumes lay: "arena_layout d bs ps" and av: "av \<in> ps" and Z: "set zs \<subseteq> blocks_of bs ps"
    and all: "\<forall>i < 4084 div bs. block_at av bs i \<in> set zs"
  shows "is_desc (mem s) d bs \<Longrightarrow> arena_header (mem s) av d c \<Longrightarrow> k + j = 4084 div bs \<Longrightarrow>
    is_list (mem s) (free_list d) (filter (\<lambda>y. y \<notin> block_at av bs ` {..<k}) zs) \<Longrightarrow>
    \<exists>m'. arena_drain s av (of_nat k) = Some (Ok () (s\<lparr>mem := m'\<rparr>)) \<and> is_desc m' d bs
      \<and> is_list m' (free_list d) (filter (\<lambda>y. y \<notin> block_at av bs ` {..<4084 div bs}) zs)
      \<and> (\<forall>aw \<in> ps. eq_on m' (mem s) aw 12) \<and> arena_frame d ps (mem s) m'
      \<and> (\<forall>z \<in> blocks_of bs ps - set zs. eq_on m' (mem s) z bs)"
proof (induction j arbitrary: k s)
  case 0
  have "4084 div bs < 2 ^ 32" by (rule le_less_trans [OF div_le_dividend]) simp
  then have "\<not> of_nat k < memory_blocks_sum (mem s) (arena_desc_of (mem s) av)"
    using 0(1-3) by (simp add: arena_header_def is_desc_def word_less_nat_alt)
  then have "arena_drain s av (of_nat k) = Some (Ok () s)" by (subst arena_drain.simps) simp
  then show ?case using 0 by (intro exI [of _ "mem s"]) (simp add: eq_on_def arena_frame_def)
next
  case (Suc j)
  let ?n = "4084 div bs" and ?v = "block_at av bs k"
  let ?ys = "filter (\<lambda>y. y \<notin> block_at av bs ` {..<k}) zs"
  have k: "k < ?n" using Suc.prems(3) by simp
  have n: "?n < 2 ^ 32" by (rule le_less_trans [OF div_le_dividend]) simp
  have Y: "set ?ys \<subseteq> blocks_of bs ps" using Z by auto
  have "?v \<notin> block_at av bs ` {..<k}"
  proof
    assume "?v \<in> block_at av bs ` {..<k}"
    then obtain i where "i < k" "?v = block_at av bs i" by auto
    with block_at_inj(2) [OF lay av av k, of i] k show False by simp
  qed
  then have v: "?v \<in> set ?ys" using all k by simp
  have a2b: "arena2block (mem s) av (of_nat k) = ?v" by (rule arena2block_at [OF Suc.prems(1,2)])
  obtain m1 where m1: "list_remove s ?v = Ok () (s\<lparr>mem := m1\<rparr>)" "is_desc m1 d bs"
    "is_list m1 (free_list d) (filter (\<lambda>y. y \<noteq> ?v) ?ys)" "\<forall>aw \<in> ps. eq_on m1 (mem s) aw 12" "arena_frame d ps (mem s) m1"
    "\<forall>z \<in> blocks_of bs ps - set ?ys. eq_on m1 (mem s) z bs"
    by (rule remove_block [OF lay Suc.prems(1,4) Y v])
  have d: "arena_desc_of (mem s) av = d" "of_nat k < memory_blocks_sum (mem s) d"
    using Suc.prems(1,2) k n by (auto simp: arena_header_def is_desc_def word_less_nat_alt)
  have step: "arena_drain s av (of_nat k) = arena_drain (s\<lparr>mem := m1\<rparr>) av (of_nat (Suc k))"
  proof -
    have "elem_find s (free_list d) ?v = Ok True s" using elem_find_eq [OF Suc.prems(4), of ?v] v by simp
    then have "obind (elem_find s (free_list d) ?v) (\<lambda>found s1.
        ASSERT ''sys_free'' ''elem_find(&av->desc->free_list, &victim->free_elem)'' found
          (list_remove s1 ?v)) = Ok () (s\<lparr>mem := m1\<rparr>)"
      by (simp only: obind.simps m1(1)) simp
    then show ?thesis
      by (subst arena_drain.simps) (simp only: d if_True a2b Let_def outcome.case of_nat_Suc add.commute)
  qed
  have "filter (\<lambda>y. y \<noteq> ?v) ?ys = filter (\<lambda>y. y \<notin> block_at av bs ` {..<Suc k}) zs"
    by (simp add: lessThan_Suc conj_commute)
  then have "is_list m1 (free_list d) (filter (\<lambda>y. y \<notin> block_at av bs ` {..<Suc k}) zs)" using m1(3) by simp
  moreover have h1: "arena_header m1 av d c" using arena_header_cong m1(4) av Suc.prems(2) by blast
  ultimately obtain m' where m':
    "arena_drain (s\<lparr>mem := m1\<rparr>) av (of_nat (Suc k)) = Some (Ok () (s\<lparr>mem := m'\<rparr>))" "is_desc m' d bs"
    "is_list m' (free_list d) (filter (\<lambda>y. y \<notin> block_at av bs ` {..<?n}) zs)" "\<forall>aw \<in> ps. eq_on m' m1 aw 12" "arena_frame d ps m1 m'"
    "\<forall>z \<in> blocks_of bs ps - set zs. eq_on m' m1 z bs"
    using Suc.IH [of "s\<lparr>mem := m1\<rparr>" "Suc k"] m1(2) Suc.prems(3) by auto
  have "\<forall>aw \<in> ps. eq_on m' (mem s) aw 12" using m1(4) m'(4) by (simp add: eq_on_def)
  moreover have "eq_on m' (mem s) z bs" if "z \<in> blocks_of bs ps - set zs" for z
    using m1(6) m'(6) that by (auto simp: eq_on_def)
  ultimately show ?case using step m' arena_frame_trans [OF m1(5) m'(5)] by (intro exI [of _ m']) auto
qed

lemma free_block_append:
  assumes inv: "arena_inv (mem s) d bs ps xs" and x: "x \<in> blocks_of bs ps" "x \<notin> set xs" and av: "av = block2arena x"
  obtains m' where "list_append s (free_list (arena_desc_of (mem s) av)) x = Ok () (s\<lparr>mem := m'\<rparr>)"
    "arena_inv (st32 m' (av + 4) (arena_cnt m' av + 1)) d bs ps (xs @ [x])" "av \<in> ps"
    "arena_frame d ps (mem s) (st32 m' (av + 4) (arena_cnt m' av + 1))"
    "\<forall>z \<in> blocks_of bs ps - set (x # xs). eq_on (st32 m' (av + 4) (arena_cnt m' av + 1)) (mem s) z bs"
proof -
  have lay: "arena_layout d bs ps" and D: "is_desc (mem s) d bs" and L: "is_list (mem s) (free_list d) xs"
    and X: "set xs \<subseteq> blocks_of bs ps"
    and H: "\<And>av. av \<in> ps \<Longrightarrow> arena_header (mem s) av d (card (free_in bs av (set xs)))"
    using inv by (auto simp: arena_inv_def)
  have avp: "av \<in> ps" using block_cases [OF lay x(1)] av by metis
  have d: "arena_desc_of (mem s) av = d" using H [OF avp] by (simp add: arena_header_def)
  obtain m1 where m1: "list_append s (free_list d) x = Ok () (s\<lparr>mem := m1\<rparr>)" "is_desc m1 d bs"
    "is_list m1 (free_list d) (xs @ [x])" "\<forall>aw \<in> ps. eq_on m1 (mem s) aw 12" "arena_frame d ps (mem s) m1"
    "\<forall>z \<in> blocks_of bs ps - set (x # xs). eq_on m1 (mem s) z bs"
    by (rule append_block [OF lay D L X x])
  have H1: "arena_header m1 aw d (card (free_in bs aw (set xs)))" if "aw \<in> ps" for aw
    using H [OF that] arena_header_cong m1(4) that by blast
  have I: "card (free_in bs aw (set (xs @ [x]))) = card (free_in bs aw (set xs)) + (if aw = av then 1 else 0)"
    if "aw \<in> ps" for aw
    using free_in_insert [OF lay that x] av by auto
  have "card (free_in bs av (set (xs @ [x]))) \<le> card {..<4084 div bs}"
    by (rule card_mono) (auto simp: free_in_def)
  also have "\<dots> < 2 ^ 32" unfolding card_lessThan by (rule le_less_trans [OF div_le_dividend]) simp
  finally have "unat (arena_cnt m1 av + 1) = card (free_in bs av (set (xs @ [x])))"
    using H1 [OF avp] I [OF avp] by (simp add: arena_header_def unat_plus_lt)
  note u = this
  have X': "set (xs @ [x]) \<subseteq> blocks_of bs ps" using X x(1) by simp
  have H2: "arena_header m1 aw d (card (free_in bs aw (set (xs @ [x]))))" if "aw \<in> ps" "aw \<noteq> av" for aw
    using H1 [OF that(1)] I [OF that(1)] that(2) by simp
  note C = set_count [OF lay avp m1(2,3) X' H2 H1 [OF avp] u]
  have "eq_on (st32 m1 (av + 4) (arena_cnt m1 av + 1)) (mem s) z bs" if "z \<in> blocks_of bs ps - set (x # xs)" for z
    using m1(6) live_count [OF lay avp, of z m1 "arena_cnt m1 av + 1"] that by (simp add: eq_on_def)
  then show thesis
    using that [unfolded d, OF m1(1) C(1) avp arena_frame_trans [OF m1(5) C(2)]] by blast
qed

lemma free_block_keeps:
  assumes inv: "arena_inv (mem s) d bs ps xs" and x: "x \<in> blocks_of bs ps" "x \<notin> set xs" and av: "av = block2arena x"
    and c: "Suc (card (free_in bs av (set xs))) \<noteq> 4084 div bs"
  obtains m' where "free_block g s PF av x = Ok () (s\<lparr>mem := m'\<rparr>)" "arena_inv m' d bs ps (xs @ [x])"
    "arena_frame d ps (mem s) m'" "\<forall>z \<in> blocks_of bs ps - set (x # xs). eq_on m' (mem s) z bs"
proof -
  obtain m1 where m1: "list_append s (free_list (arena_desc_of (mem s) av)) x = Ok () (s\<lparr>mem := m1\<rparr>)"
    "arena_inv (st32 m1 (av + 4) (arena_cnt m1 av + 1)) d bs ps (xs @ [x])" "av \<in> ps"
    "arena_frame d ps (mem s) (st32 m1 (av + 4) (arena_cnt m1 av + 1))"
    "\<forall>z \<in> blocks_of bs ps - set (x # xs). eq_on (st32 m1 (av + 4) (arena_cnt m1 av + 1)) (mem s) z bs"
    by (rule free_block_append [OF inv x av])
  let ?m = "st32 m1 (av + 4) (arena_cnt m1 av + 1)"
  have "arena_layout d bs ps" using inv by (simp add: arena_inv_def)
  from free_in_insert [OF this m1(3) x] av have "card (free_in bs av (set (xs @ [x]))) = Suc (card (free_in bs av (set xs)))"
    by simp
  then have "arena_desc_of ?m av = d" "unat (arena_cnt ?m av) \<noteq> unat (memory_blocks_sum ?m d)"
    using m1(2,3) c by (auto simp: arena_inv_def arena_header_def is_desc_def)
  then have "arena_cnt ?m av \<noteq> memory_blocks_sum ?m (arena_desc_of ?m av)" by auto
  then have "free_block g s PF av x = Ok () (s\<lparr>mem := ?m\<rparr>)"
    using m1(1) by (simp add: free_block_def Let_def put32_def)
  from that [OF this m1(2,4,5)] show thesis .
qed

lemma free_block_releases:
  assumes inv: "arena_inv (mem s) d bs ps xs" and x: "x \<in> blocks_of bs ps" "x \<notin> set xs" and av: "av = block2arena x"
    and c: "Suc (card (free_in bs av (set xs))) = 4084 div bs"
  obtains m' where "free_block g s PF av x = pfree g (s\<lparr>mem := m'\<rparr>) PF av 1"
    "arena_inv m' d bs (ps - {av}) (filter (\<lambda>y. block2arena y \<noteq> av) xs)" "arena_frame d ps (mem s) m'"
    "\<forall>z \<in> blocks_of bs ps - set (x # xs). eq_on m' (mem s) z bs" "av \<in> ps"
proof -
  obtain m1 where m1: "list_append s (free_list (arena_desc_of (mem s) av)) x = Ok () (s\<lparr>mem := m1\<rparr>)"
    "arena_inv (st32 m1 (av + 4) (arena_cnt m1 av + 1)) d bs ps (xs @ [x])" "av \<in> ps"
    "arena_frame d ps (mem s) (st32 m1 (av + 4) (arena_cnt m1 av + 1))"
    "\<forall>z \<in> blocks_of bs ps - set (x # xs). eq_on (st32 m1 (av + 4) (arena_cnt m1 av + 1)) (mem s) z bs"
    by (rule free_block_append [OF inv x av])
  let ?m = "st32 m1 (av + 4) (arena_cnt m1 av + 1)" and ?n = "4084 div bs" and ?zs = "xs @ [x]"
  have lay: "arena_layout d bs ps" and X: "set xs \<subseteq> blocks_of bs ps" using inv by (auto simp: arena_inv_def)
  have cn: "card (free_in bs av (set ?zs)) = ?n" using free_in_insert [OF lay m1(3) x] av c by simp
  then have "free_in bs av (set ?zs) = {..<?n}"
    by (intro card_subset_eq) (auto simp: free_in_def)
  then have all: "\<forall>i < ?n. block_at av bs i \<in> set ?zs" by (auto simp: free_in_def)
  have I: "is_desc ?m d bs" "is_list ?m (free_list d) ?zs" "arena_header ?m av d ?n" "set ?zs \<subseteq> blocks_of bs ps"
    using m1(2,3) cn by (auto simp: arena_inv_def)
  have eq: "arena_cnt ?m av = memory_blocks_sum ?m (arena_desc_of ?m av)"
  proof -
    have "arena_desc_of ?m av = d" "unat (arena_cnt ?m av) = unat (memory_blocks_sum ?m d)"
      using I(1,3) by (simp_all add: arena_header_def is_desc_def)
    then show ?thesis by (metis word_unat_eq_iff)
  qed
  have "is_list (mem (s\<lparr>mem := ?m\<rparr>)) (free_list d) (filter (\<lambda>y. y \<notin> block_at av bs ` {..<0}) ?zs)" using I(2) by simp
  from arena_drain_effect [OF lay m1(3) I(4) all, of "s\<lparr>mem := ?m\<rparr>" ?n 0 ?n, OF _ _ _ this] I(1,3)
  obtain m' where m': "arena_drain (s\<lparr>mem := ?m\<rparr>) av 0 = Some (Ok () (s\<lparr>mem := m'\<rparr>))" "is_desc m' d bs"
      "is_list m' (free_list d) (filter (\<lambda>y. y \<notin> block_at av bs ` {..<?n}) ?zs)"
      "\<forall>aw \<in> ps. eq_on m' ?m aw 12" "arena_frame d ps ?m m'"
      "\<forall>z \<in> blocks_of bs ps - set ?zs. eq_on m' ?m z bs"
    by auto
  have own: "y \<in> block_at av bs ` {..<?n} \<longleftrightarrow> block2arena y = av" if "y \<in> blocks_of bs ps" for y
  proof
    have p: "page_aligned av" "block_class bs" using lay m1(3) by (auto simp: arena_layout_def)
    assume "y \<in> block_at av bs ` {..<?n}"
    then show "block2arena y = av" using block_in_arena(1) [OF p(2) _ p(1)] by auto
  next
    assume "block2arena y = av"
    moreover obtain aw i where "i < ?n" "y = block_at aw bs i" "block2arena y = aw" using block_cases [OF lay \<open>y \<in> _\<close>] by metis
    ultimately show "y \<in> block_at av bs ` {..<?n}" by auto
  qed
  have f: "filter (\<lambda>y. y \<notin> block_at av bs ` {..<?n}) ?zs = filter (\<lambda>y. block2arena y \<noteq> av) xs"
    using own I(4) av by (auto intro!: filter_cong)
  have "free_block g s PF av x = pfree g (s\<lparr>mem := m'\<rparr>) PF av 1"
    using m1(1) eq m'(1) by (simp add: free_block_def Let_def put32_def)
  moreover have "arena_inv m' d bs (ps - {av}) (filter (\<lambda>y. block2arena y \<noteq> av) xs)"
  proof -
    let ?ws = "filter (\<lambda>y. block2arena y \<noteq> av) xs"
    have "set ?ws \<subseteq> blocks_of bs (ps - {av})"
    proof
      fix y assume "y \<in> set ?ws"
      then have y: "y \<in> blocks_of bs ps" "block2arena y \<noteq> av" using X by auto
      from block_cases [OF lay y(1)] y(2) show "y \<in> blocks_of bs (ps - {av})"
        unfolding blocks_of_def by blast
    qed
    moreover have "arena_header m' aw d (card (free_in bs aw (set ?ws)))" if aw: "aw \<in> ps - {av}" for aw
    proof -
      have p: "page_aligned aw" "block_class bs" using lay aw by (auto simp: arena_layout_def)
      have "block_at aw bs i \<in> set ?ws \<longleftrightarrow> block_at aw bs i \<in> set ?zs" if "i < ?n" for i
        using block_in_arena(1) [OF p(2) that p(1)] aw av by auto
      then have "free_in bs aw (set ?ws) = free_in bs aw (set ?zs)" unfolding free_in_def by blast
      moreover have "arena_header ?m aw d (card (free_in bs aw (set ?zs)))" using m1(2) aw by (simp add: arena_inv_def)
      ultimately show ?thesis using arena_header_cong [of m' ?m aw] m'(4) aw by simp
    qed
    moreover have "arena_layout d bs (ps - {av})" using lay by (auto simp: arena_layout_def)
    ultimately show ?thesis using m'(2,3) unfolding f by (simp add: arena_inv_def)
  qed
  moreover have "eq_on m' (mem s) z bs" if "z \<in> blocks_of bs ps - set (x # xs)" for z
    using m1(5) m'(6) that by (auto simp: eq_on_def)
  ultimately show thesis using that arena_frame_trans [OF m1(4) m'(5)] m1(3) by blast
qed

end
