(* ===== verification/Heap.thy ===== *)
theory Heap
  imports Arena
begin

text \<open>
  The kernel heap as its clients see it: \<open>sys_malloc\<close> and \<open>sys_free\<close> with the lock of the pool taken
  and released around the arena operations, from the state of a heap (the descriptors of a thread,
  the arenas and free blocks of one size class, the free lock) to the state of a heap.
\<close>

section \<open>Frames\<close>

text \<open>The lock of the pool is apart from the descriptors and the arenas.\<close>

lemma arena_frame_eq_on:
  assumes "arena_frame d ps m m'" "sep d 24 b k" "\<forall>av \<in> ps. sep av 4096 b k"
  shows "eq_on m' m b k"
  unfolding eq_on_def
proof (intro allI impI)
  fix y assume y: "inr y b k"
  have "\<not> inr y a n" if "sep a n b k" for a n using sep_disjoint [OF that] y by blast
  then show "m' y = m y" using assms by (simp add: arena_frame_def)
qed

lemma arena_inv_apart:
  assumes inv: "arena_inv m d bs ps xs" and e: "eq_on m' m d 24" "\<forall>av \<in> ps. eq_on m' m av 4096"
  shows "arena_inv m' d bs ps xs"
proof -
  have lay: "arena_layout d bs ps" and X: "set xs \<subseteq> blocks_of bs ps" using inv by (auto simp: arena_inv_def)
  have bs: "8 \<le> bs" using lay block_class_bounds [of bs] by (auto simp: arena_layout_def)
  have ed: "eq_on m' m (d + off) n" if "unat off + n \<le> 24" for off n
    by (rule eq_on_part [OF e(1) that])
  have en: "eq_on m' m x 8" if "x \<in> set (nodes (free_list d) xs)" for x
  proof -
    have "x \<in> free_nodes d bs ps" using nodes_free_list [OF X] that by blast
    then consider "x = d + 8" | "x = d + 16" | "x \<in> blocks_of bs ps" by (auto simp: free_nodes_def)
    then show ?thesis
    proof cases
      case 3
      then show ?thesis using block_in_page [OF lay 3 bs] e(2) unfolding eq_on_def by blast
    qed (use ed in auto)
  qed
  have "is_desc m' d bs" using is_desc_cong ed [of 0 8] inv by (simp add: arena_inv_def)
  moreover have "is_list m' (free_list d) xs"
    by (rule is_list_frame [OF _ en]) (use inv in \<open>simp_all add: arena_inv_def\<close>)
  moreover have "arena_header m' av d c = arena_header m av d c" if "av \<in> ps" for av c
    by (rule arena_header_cong) (use eq_on_part [of m' m av 4096 0 12] e(2) that in simp)
  ultimately show ?thesis using inv by (simp add: arena_inv_def)
qed

text \<open>The class of a request: the smallest block size that is large enough.\<close>

definition request_class :: "u32 \<Rightarrow> nat \<Rightarrow> bool" where
  "request_class request i \<longleftrightarrow> i \<le> 6 \<and> unat request \<le> class_size i \<and> (\<forall>j < i. class_size j < unat request)"

lemma class_size_le: "i \<le> 6 \<Longrightarrow> class_size i \<le> 1024"
proof -
  assume "i \<le> 6"
  then have "(2::nat) ^ i \<le> 2 ^ 6" by (intro power_increasing) simp_all
  then show ?thesis by (simp add: class_size_def)
qed

definition desc_sizes :: "mem \<Rightarrow> addr \<Rightarrow> bool" where
  "desc_sizes m a \<longleftrightarrow> (\<forall>j < 7. unat (block_size m (desc_at a j)) = class_size j)"

lemma arena_index_class:
  assumes "desc_sizes m a" "request_class request i"
  shows "arena_index ARENA_SUM m a request 0 = i"
proof -
  have "unat request \<le> 1024" using assms(2) class_size_le [of i] by (simp add: request_class_def)
  then obtain k where k: "k \<le> 6" "arena_index 7 m a request 0 = k" "unat request \<le> class_size k"
    "\<forall>j < k. class_size j < unat request"
    using arena_index_eq [OF assms(1) [unfolded desc_sizes_def], of 0 request 7] by auto
  have "k = i"
    using k(3,4) assms(2) unfolding request_class_def by (metis linorder_neqE_nat not_less)
  then show ?thesis using k(2) by (simp add: ARENA_SUM_def)
qed

lemma desc_offset:
  assumes "i < 7"
  shows "sep b n a 168 \<Longrightarrow> 0 < n \<Longrightarrow> sep b n (desc_at a i) 24"
    and "eq_on m' m a 168 \<Longrightarrow> eq_on m' m (desc_at a i) 24"
  unfolding desc_at_array using array_offset [of i 7 24] assms
  by (auto intro: sep_offset_right eq_on_part simp del: of_nat_mult)

lemma desc_at_sep: "i \<noteq> j \<Longrightarrow> i < 7 \<Longrightarrow> j < 7 \<Longrightarrow> sep (desc_at a i) 24 (desc_at a j) 24"
  unfolding desc_at_array by (rule sep_array [of i j 7]) simp_all

lemma desc_sizes_cong:
  assumes "desc_sizes m a" "\<And>j. j < 7 \<Longrightarrow> j \<noteq> i \<Longrightarrow> eq_on m' m (desc_at a j) 24" "is_desc m' (desc_at a i) (class_size i)"
  shows "desc_sizes m' a"
  unfolding desc_sizes_def
proof (intro allI impI)
  fix j :: nat assume j: "j < 7"
  show "unat (block_size m' (desc_at a j)) = class_size j"
  proof (cases "j = i")
    case False
    from eq_on_part [OF assms(2) [OF j False], of 0 4] have "ld32 m' (desc_at a j) = ld32 m (desc_at a j)"
      by (intro ld32_cong) simp
    then show ?thesis using assms(1) j by (simp add: desc_sizes_def block_size_def)
  qed (use assms(3) in \<open>simp add: is_desc_def\<close>)
qed

section \<open>The state of a heap\<close>

definition PDE_field :: "kstate \<Rightarrow> addr" where
  "PDE_field s = GetCurrentThreadPCB s + off_PDE_addr"

text \<open>
  The objects of the heap of the current thread: its seven descriptors, the lock of its pool, the
  arenas \<open>ps\<close>, and the field of its PCB that decides which pool it uses, all apart from each other.
\<close>

definition heap_layout :: "symbols \<Rightarrow> kstate \<Rightarrow> addr set \<Rightarrow> bool" where
  "heap_layout g s ps \<longleftrightarrow>
     (let a = arenas_of_thread g s; l = pool_lock (memory_pool_of g (pool_of_thread s)); f = PDE_field s
      in sep a 168 l 28 \<and> sep a 168 f 4 \<and> sep l 28 f 4
         \<and> (\<forall>av \<in> ps. page_aligned av \<and> av \<noteq> NULL \<and> sep av 4096 a 168 \<and> sep av 4096 l 28 \<and> sep av 4096 f 4))"

definition heap_inv :: "symbols \<Rightarrow> kstate \<Rightarrow> nat \<Rightarrow> addr set \<Rightarrow> addr list \<Rightarrow> bool" where
  "heap_inv g s i ps xs \<longleftrightarrow> i < 7 \<and> heap_layout g s ps
     \<and> desc_sizes (mem s) (arenas_of_thread g s)
     \<and> arena_inv (mem s) (desc_at (arenas_of_thread g s) i) (class_size i) ps xs
     \<and> lock_free s (pool_lock (memory_pool_of g (pool_of_thread s)))"

lemma thread_view_cong:
  assumes "eq_on m (mem s) (PDE_field s) 4"
  shows "pool_of_thread (s\<lparr>mem := m\<rparr>) = pool_of_thread s" "arenas_of_thread g (s\<lparr>mem := m\<rparr>) = arenas_of_thread g s"
    "PDE_field (s\<lparr>mem := m\<rparr>) = PDE_field s" "heap_layout g (s\<lparr>mem := m\<rparr>) ps = heap_layout g s ps"
proof -
  have "PCB_PDE_addr m (GetCurrentThreadPCB s) = PCB_PDE_addr (mem s) (GetCurrentThreadPCB s)"
    using ld32_cong [OF assms] by (simp add: PCB_PDE_addr_def PDE_field_def)
  then show p: "pool_of_thread (s\<lparr>mem := m\<rparr>) = pool_of_thread s"
    and a: "arenas_of_thread g (s\<lparr>mem := m\<rparr>) = arenas_of_thread g s"
    by (simp_all add: pool_of_thread_def arenas_of_thread_def)
  show f: "PDE_field (s\<lparr>mem := m\<rparr>) = PDE_field s" by (simp add: PDE_field_def)
  show "heap_layout g (s\<lparr>mem := m\<rparr>) ps = heap_layout g s ps" by (simp only: heap_layout_def p a f)
qed

lemma heap_unlocked:
  assumes lay: "heap_layout g s ps" and a: "a = arenas_of_thread g s" and i: "i < 7"
    and l: "l = pool_lock (memory_pool_of g (pool_of_thread s))"
    and inv: "arena_inv m1 (desc_at a i) (class_size i) ps xs" and sz: "desc_sizes m1 a" and f: "eq_on m1 (mem s) (PDE_field s) 4"
    and o: "only_in m1 m2 l 28" and free: "lock_free (s\<lparr>mem := m2\<rparr>) l"
  shows "heap_inv g (s\<lparr>mem := m2\<rparr>) i ps xs"
proof -
  have L: "sep l 28 a 168" "sep l 28 (PDE_field s) 4" "\<forall>av \<in> ps. sep l 28 av 4096"
    using lay by (auto simp: heap_layout_def Let_def a l sep_commute)
  have e: "eq_on m2 m1 (desc_at a j) 24" if "j < 7" for j
    by (rule only_in_sep [OF o desc_offset(1) [OF that L(1)]]) simp
  have inv2: "arena_inv m2 (desc_at a i) (class_size i) ps xs"
    by (rule arena_inv_apart [OF inv e [OF i]]) (use only_in_sep [OF o] L(3) in blast)
  have sz2: "desc_sizes m2 a"
    by (rule desc_sizes_cong [OF sz, of i]) (use e inv2 in \<open>auto simp: arena_inv_def\<close>)
  have f2: "eq_on m2 (mem s) (PDE_field s) 4" using f only_in_sep [OF o L(2)] by (simp add: eq_on_def)
  from thread_view_cong [OF this] inv2 sz2 lay i free show ?thesis by (simp add: heap_inv_def a l)
qed

lemma heap_locked:
  assumes inv: "heap_inv g s i ps xs" and a: "a = arenas_of_thread g s"
    and l: "l = pool_lock (memory_pool_of g (pool_of_thread s))" and o: "only_in (mem s) m l 28"
  shows "arena_inv m (desc_at a i) (class_size i) ps xs" "desc_sizes m a" "eq_on m (mem s) (PDE_field s) 4"
proof -
  have i: "i < 7" and lay: "heap_layout g s ps" and sz: "desc_sizes (mem s) a"
    and ai: "arena_inv (mem s) (desc_at a i) (class_size i) ps xs" using inv by (simp_all add: heap_inv_def a)
  have L: "sep l 28 a 168" "sep l 28 (PDE_field s) 4" "\<forall>av \<in> ps. sep l 28 av 4096"
    using lay by (auto simp: heap_layout_def Let_def a l sep_commute)
  have e: "eq_on m (mem s) (desc_at a j) 24" if "j < 7" for j
    by (rule only_in_sep [OF o desc_offset(1) [OF that L(1)]]) simp
  show A: "arena_inv m (desc_at a i) (class_size i) ps xs"
    by (rule arena_inv_apart [OF ai e [OF i]]) (use only_in_sep [OF o] L(3) in blast)
  show "desc_sizes m a"
    by (rule desc_sizes_cong [OF sz, of i]) (use e A in \<open>auto simp: arena_inv_def\<close>)
  show "eq_on m (mem s) (PDE_field s) 4" by (rule only_in_sep [OF o L(2)])
qed

text \<open>An operation on one descriptor and its arenas leaves the rest of the heap alone.\<close>

lemma heap_step:
  assumes lay: "heap_layout g s ps" and a: "a = arenas_of_thread g s" and i: "i < 7"
    and l: "l = pool_lock (memory_pool_of g (pool_of_thread s))"
    and fr: "arena_frame (desc_at a i) ps m m'" and sz: "desc_sizes m a" and d: "is_desc m' (desc_at a i) (class_size i)"
  shows "desc_sizes m' a" "eq_on m' m l 28" "eq_on m' m (PDE_field s) 4"
proof -
  have L: "sep l 28 a 168" "sep (PDE_field s) 4 a 168" "\<forall>av \<in> ps. sep av 4096 l 28 \<and> sep av 4096 (PDE_field s) 4 \<and> sep av 4096 a 168"
    using lay by (auto simp: heap_layout_def Let_def a l sep_commute)
  show "eq_on m' m l 28"
    by (rule arena_frame_eq_on [OF fr sep_sym [OF desc_offset(1) [OF i L(1)]]]) (use L(3) in auto)
  show "eq_on m' m (PDE_field s) 4"
    by (rule arena_frame_eq_on [OF fr sep_sym [OF desc_offset(1) [OF i L(2)]]]) (use L(3) in auto)
  show "desc_sizes m' a"
  proof (rule desc_sizes_cong [OF sz _ d])
    fix j :: nat assume j: "j < 7" "j \<noteq> i"
    show "eq_on m' m (desc_at a j) 24"
      by (rule arena_frame_eq_on [OF fr desc_at_sep]) (use i j L(3) desc_offset(1) [OF j(1)] in auto)
  qed
qed

section \<open>Allocation\<close>

definition zeroed :: "mem \<Rightarrow> addr \<Rightarrow> nat \<Rightarrow> bool" where
  "zeroed m x n \<longleftrightarrow> (\<forall>y. inr y x n \<longrightarrow> m y = 0)"

lemma sys_malloc_small:
  assumes "0 < request" "request < pool_size (mem s) (memory_pool_of g (pool_of_thread s))" "request_class request i"
  shows "sys_malloc g s request =
    obind (sys_lock_lock g s (pool_lock (memory_pool_of g (pool_of_thread s)))) (\<lambda>_ s1.
    obind (take_block g s1 (pool_of_thread s) (arenas_of_thread g s) request) (\<lambda>p s2.
    obind (sys_lock_unlock g s2 (pool_lock (memory_pool_of g (pool_of_thread s)))) (\<lambda>_ s3. Ok p s3)))"
proof -
  have "unat request \<le> 1024" using assms(3) class_size_le [of i] by (simp add: request_class_def)
  then have "\<not> request > 1024" by (simp add: word_less_nat_alt)
  then show ?thesis using assms(1,2) by (simp add: sys_malloc_def malloc_block_def Let_def)
qed

lemma eq_on_zeroed: "eq_on m' m x n \<Longrightarrow> zeroed m x n \<Longrightarrow> zeroed m' x n"
  by (simp add: eq_on_def zeroed_def)

lemma heap_block_sep:
  assumes "heap_layout g s ps" "arena_layout d bs ps" "x \<in> blocks_of bs ps"
  shows "sep (pool_lock (memory_pool_of g (pool_of_thread s))) 28 x bs"
proof -
  obtain av j where b: "av \<in> ps" "j < 4084 div bs" "x = block_at av bs j" "page_aligned av" "block_class bs"
    using block_cases [OF assms(2,3)] by metis
  have "sep av 4096 (pool_lock (memory_pool_of g (pool_of_thread s))) 28" using assms(1) b(1) by (simp add: heap_layout_def Let_def)
  from block_in_arena(4) [OF b(5,2,4) this] show ?thesis by (simp add: b(3) sep_commute)
qed

lemma malloc_reuses:
  assumes inv: "heap_inv g s i ps (x # xs)" and c: "request_class request i"
    and r: "0 < request" "request < pool_size (mem s) (memory_pool_of g (pool_of_thread s))"
  shows "\<exists>m'. sys_malloc g s request = Ok x (s\<lparr>mem := m'\<rparr>) \<and> heap_inv g (s\<lparr>mem := m'\<rparr>) i ps xs
    \<and> zeroed m' x (class_size i)
    \<and> (\<forall>z \<in> blocks_of (class_size i) ps - set (x # xs). eq_on m' (mem s) z (class_size i))"
proof -
  define a where "a = arenas_of_thread g s"
  define l where "l = pool_lock (memory_pool_of g (pool_of_thread s))"
  define bs where "bs = class_size i"
  let ?live = "blocks_of bs ps - set (x # xs)"
  let ?Q = "\<lambda>m'. arena_inv m' (desc_at a i) bs ps xs \<and> zeroed m' x bs \<and> desc_sizes m' a
    \<and> eq_on m' (mem s) (PDE_field s) 4 \<and> (\<forall>z \<in> ?live. eq_on m' (mem s) z bs)"
  have i: "i < 7" and lay: "heap_layout g s ps" and fr: "lock_free s l" and al: "arena_layout (desc_at a i) bs ps"
    using inv by (simp_all add: heap_inv_def l_def a_def bs_def arena_inv_def)
  have body: "\<exists>m'. take_block g (s\<lparr>mem := m\<rparr>) (pool_of_thread s) a request = Ok x (s\<lparr>mem := m'\<rparr>) \<and> eq_on m' m l 28 \<and> ?Q m'"
    if o: "only_in (mem s) m l 28" for m
  proof -
    note H = heap_locked [OF inv a_def l_def o, folded bs_def]
    let ?d = "desc_at a i"
    obtain m' where P: "pop_block (s\<lparr>mem := m\<rparr>) ?d = Ok x (s\<lparr>mem := m'\<rparr>)" "arena_inv m' ?d bs ps xs"
      "\<forall>y. inr y x bs \<longrightarrow> m' y = 0" "arena_frame ?d ps m m'" "\<forall>z \<in> ?live. eq_on m' m z bs"
      using pop_block_effect [of "s\<lparr>mem := m\<rparr>" ?d bs ps x xs] H(1) by auto
    have "is_list m (free_list ?d) (x # xs)" using H(1) by (simp add: arena_inv_def)
    then have "\<not> list_empty m (free_list ?d)" by (simp add: list_empty_iff)
    then have T: "take_block g (s\<lparr>mem := m\<rparr>) (pool_of_thread s) a request = Ok x (s\<lparr>mem := m'\<rparr>)"
      using P(1) arena_index_class [OF H(2) c] by (simp add: take_block_def Let_def desc_at_def)
    have "is_desc m' ?d (class_size i)" using P(2) by (simp add: arena_inv_def bs_def)
    note S = heap_step [OF lay a_def i l_def P(4) H(2) this]
    have "eq_on m' (mem s) z bs" if "z \<in> ?live" for z
      using only_in_sep [OF o [unfolded l_def] heap_block_sep [OF lay al]] P(5) that by (auto simp: eq_on_def)
    with T P(2,3) S H(3) show ?thesis by (auto simp: zeroed_def eq_on_def)
  qed
  obtain m1 m2 where G: "obind (sys_lock_lock g s l) (\<lambda>_ s1. obind (take_block g s1 (pool_of_thread s) a request)
      (\<lambda>x s2. obind (sys_lock_unlock g s2 l) (\<lambda>_ s3. Ok x s3))) = Ok x (s\<lparr>mem := m2\<rparr>)" "?Q m1"
    "only_in m1 m2 l 28" "lock_free (s\<lparr>mem := m2\<rparr>) l"
    by (rule lk.guarded [OF fr, of "\<lambda>s1. take_block g s1 (pool_of_thread s) a request" x ?Q g]) (use body in blast)
  have "sys_malloc g s request = Ok x (s\<lparr>mem := m2\<rparr>)"
    using sys_malloc_small [OF r c] G(1) by (simp only: a_def l_def)
  moreover have "heap_inv g (s\<lparr>mem := m2\<rparr>) i ps xs"
    by (rule heap_unlocked [OF lay a_def i l_def _ _ _ G(3,4)]) (use G(2) in \<open>simp_all add: bs_def\<close>)
  moreover have e: "eq_on m2 m1 z bs" if "z \<in> blocks_of bs ps" for z
    by (rule only_in_sep [OF G(3) [unfolded l_def] heap_block_sep [OF lay al that]])
  have "x \<in> blocks_of bs ps" using inv by (simp add: heap_inv_def arena_inv_def bs_def)
  then have "zeroed m2 x bs" using eq_on_zeroed [OF e] G(2) by blast
  moreover have "eq_on m2 (mem s) z bs" if "z \<in> ?live" for z
    using e [of z] G(2) that by (auto simp: eq_on_def)
  ultimately show ?thesis unfolding bs_def by blast
qed

section \<open>A new arena\<close>

text \<open>Taking the lock of a pool does not change what the page allocator needs.\<close>

lemma first_run_cong:
  assumes "\<And>k. k < n \<Longrightarrow> f k = f' k"
  shows "first_run f cnt n = first_run f' cnt n"
proof -
  have "run_free f cnt r = run_free f' cnt r" if "r < n + 1 - cnt" for r
    using assms that by (auto simp: run_free_def)
  then show ?thesis unfolding first_run_def by (intro find_cong) auto
qed

lemma palloc_ready_locked:
  assumes ready: "palloc_ready g s pf n r b cap" and pv: "pv = vaddr_pool g s pf" and p: "p = memory_pool_of g pf"
    and o: "only_in (mem s) m (pool_lock p) 28" and sl: "sep (pool_lock p) 28 pv 12"
  shows "palloc_ready g (s\<lparr>mem := m\<rparr>) pf n r b cap" "palloc_apart g (s\<lparr>mem := m\<rparr>) pf x k = palloc_apart g s pf x k"
    "vaddr_start m pv = vaddr_start (mem s) pv"
proof -
  let ?m = "mem s"
  have pv': "vaddr_pool g (s\<lparr>mem := m\<rparr>) pf = pv" by (simp add: pv vaddr_pool_def)
  note R = ready [unfolded palloc_ready_def Let_def, folded pv p]
  have part: "sep a j (pool_lock p) 28" if "sep a j p 44" "0 < j" for a j
    using sep_offset_right [OF that(1), of 16 28] that(2) by (simp add: pool_lock_def)
  have epv: "eq_on m ?m pv 12" by (rule only_in_sep [OF o sl])
  have ep: "eq_on m ?m p 16" by (rule only_in_sep [OF o]) (simp add: pool_lock_def)
  have e8: "eq_on ?m m pv 8" "eq_on ?m m p 8"
    using eq_on_part [OF epv, of 0 8] eq_on_part [OF ep, of 0 8] by (simp_all add: eq_on_def)
  note F = bitmap_frame [OF e8(1), symmetric] bitmap_frame [OF e8(2), symmetric]
  have "ld32 m (pv + 8) = ld32 ?m (pv + 8)" by (rule ld32_cong [OF eq_on_part [OF epv]]) simp
  then show vs: "vaddr_start m pv = vaddr_start ?m pv" by (simp add: vaddr_start_def)
  have "ld32 m (p + 8) = ld32 ?m (p + 8)" by (rule ld32_cong [OF eq_on_part [OF ep]]) simp
  then have ps: "physic_addr_start m p = physic_addr_start ?m p" by (simp add: physic_addr_start_def)
  have sz: "bm_size m pv = bm_size ?m pv" "bm_size m p = bm_size ?m p" by (simp_all add: bm_size_def F)
  have "0 < unat (bitmap_bytes_len ?m pv)" "sep (bits ?m pv) (unat (bitmap_bytes_len ?m pv)) p 44"
    "0 < unat (bitmap_bytes_len ?m p)" "sep (bits ?m p) (unat (bitmap_bytes_len ?m p)) p 44"
    using R by (auto simp: pool_apart_def pool_inv_def pool_ok_def)
  note eb = only_in_sep [OF o sep_sym [OF part [OF this(2,1)]]] only_in_sep [OF o sep_sym [OF part [OF this(4,3)]]]
  have bm: "bm m pv k = bm ?m pv k" if "k < bm_size ?m pv" for k
    using bm_frame [OF e8(1) _ that] eb(1) by (simp add: eq_on_def)
  have "bm m p k = bm ?m p k" if "k < bm_size ?m p" for k
    using bm_frame [OF e8(2) _ that] eb(2) by (simp add: eq_on_def)
  then have up: "used_pages p (s\<lparr>mem := m\<rparr>) = used_pages p s" by (auto simp: used_pages_def sz)
  have fr: "first_run (bm m pv) n (bm_size ?m pv) = first_run (bm ?m pv) n (bm_size ?m pv)"
    by (rule first_run_cong [OF bm])
  have w: "sep window 0x400000 (pool_lock p) 28" using part [of window "0x400000"] R by (simp add: pool_apart_def)
  have hr: "heap_ready ?m v n \<Longrightarrow> heap_ready m v n" for v by (rule heap_ready_frame [OF _ o w]) simp_all
  show "palloc_ready g (s\<lparr>mem := m\<rparr>) pf n r b cap"
    unfolding palloc_ready_def Let_def pv' p [symmetric]
    using R hr by (simp add: F vs ps sz fr up pool_inv_def pool_ok_def pool_apart_def bitmap_wf_def)
  show "palloc_apart g (s\<lparr>mem := m\<rparr>) pf x k = palloc_apart g s pf x k"
    by (simp add: palloc_apart_def pv' pv [symmetric] p [symmetric] F)
qed

definition heap_apart :: "symbols \<Rightarrow> kstate \<Rightarrow> addr set \<Rightarrow> bool" where
  "heap_apart g s ps \<longleftrightarrow>
     (let PF = pool_of_thread s; l = pool_lock (memory_pool_of g PF)
      in palloc_apart g s PF (arenas_of_thread g s) 168 \<and> palloc_apart g s PF l 28 \<and> palloc_apart g s PF (PDE_field s) 4
         \<and> (\<forall>av \<in> ps. palloc_apart g s PF av 4096) \<and> sep l 28 (vaddr_pool g s PF) 12)"

lemma heap_arena_layout: "heap_layout g s ps \<Longrightarrow> i < 7 \<Longrightarrow> arena_layout (desc_at (arenas_of_thread g s) i) (class_size i) ps"
  using desc_offset(1) [of i _ 4096]
  by (auto simp: heap_layout_def arena_layout_def Let_def block_class_def sep_commute)

lemma take_block_new:
  assumes inv: "heap_inv g s i ps []" and c: "request_class request i" and PF: "PF = pool_of_thread s"
    and a: "a = arenas_of_thread g s" and l: "l = pool_lock (memory_pool_of g PF)" and bs: "bs = class_size i"
    and ready: "palloc_ready g s PF 1 r b cap" and ap: "heap_apart g s ps"
    and av: "av = vaddr_start (mem s) (vaddr_pool g s PF) + of_nat r * PAGE_SIZE"
    and new: "av \<notin> ps" and lay: "heap_layout g s (insert av ps)" and o: "only_in (mem s) m l 28"
  shows "\<exists>m'. take_block g (s\<lparr>mem := m\<rparr>) PF a request = Ok (block_at av bs 0) (s\<lparr>mem := m'\<rparr>) \<and> eq_on m' m l 28
    \<and> arena_inv m' (desc_at a i) bs (insert av ps) (map (block_at av bs) [1..<4084 div bs])
    \<and> zeroed m' (block_at av bs 0) bs \<and> desc_sizes m' a \<and> eq_on m' (mem s) (PDE_field s) 4"
proof -
  let ?d = "desc_at a i" and ?s = "s\<lparr>mem := m\<rparr>" and ?n = "4084 div bs"
  note H = heap_locked [OF inv a l [unfolded PF] o, folded bs]
  have i: "i < 7" using inv by (simp add: heap_inv_def)
  note A = ap [unfolded heap_apart_def Let_def, folded PF, folded l a]
  note R = palloc_ready_locked [OF ready refl refl o [unfolded l]]
  have sl: "sep (pool_lock (memory_pool_of g PF)) 28 (vaddr_pool g s PF) 12" using A l by simp
  obtain m1 where P: "palloc g ?s PF 1 = Ok av (?s\<lparr>mem := m1\<rparr>)" "palloc_frame g ?s PF m1"
  proof -
    have "vaddr_pool g ?s PF = vaddr_pool g s PF" by (simp add: vaddr_pool_def)
    then have "av = vaddr_start (mem ?s) (vaddr_pool g ?s PF) + of_nat r * PAGE_SIZE" using R(3) [OF sl] av by simp
    from palloc_effect [of g ?s PF 1 r b cap, OF _ _ _ refl refl this] R(1) [OF sl] that show thesis by auto
  qed
  have e: "eq_on m1 m x k" if "palloc_apart g s PF x k" for x k
    using palloc_frame_eq_on [OF P(2), of x k] R(2) [OF sl] that by simp
  have ea: "eq_on m1 m (desc_at a j) 24" if "j < 7" for j using desc_offset(2) [OF that e] A by blast
  have I1: "arena_inv m1 ?d bs ps []" by (rule arena_inv_apart [OF H(1) ea [OF i]]) (use e A in blast)
  note AL = heap_arena_layout [OF lay i, folded a bs]
  have "palloc g ?s PF 1 = Ok av (?s\<lparr>mem := m1\<rparr>)" by (rule P(1))
  then obtain m2 where N: "new_arena g ?s PF ?d = Ok True (?s\<lparr>mem := m2\<rparr>)"
    "arena_inv m2 ?d bs (insert av ps) (map (block_at av bs) [0..<?n])" "arena_frame ?d (insert av ps) m1 m2"
    by (rule new_arena_effect [OF _ I1 new AL])
  have n: "0 < ?n" using AL block_class_bounds [of bs] by (auto simp: arena_layout_def)
  have up: "map (block_at av bs) [0..<?n] = block_at av bs 0 # map (block_at av bs) [1..<?n]"
    using n by (simp add: upt_conv_Cons)
  obtain m3 where Q: "pop_block (?s\<lparr>mem := m2\<rparr>) ?d = Ok (block_at av bs 0) (?s\<lparr>mem := m3\<rparr>)"
    "arena_inv m3 ?d bs (insert av ps) (map (block_at av bs) [1..<?n])" "\<forall>y. inr y (block_at av bs 0) bs \<longrightarrow> m3 y = 0"
    "arena_frame ?d (insert av ps) m2 m3"
  proof -
    have "arena_inv (mem (?s\<lparr>mem := m2\<rparr>)) ?d bs (insert av ps) (block_at av bs 0 # map (block_at av bs) [1..<?n])"
      using N(2) unfolding up by simp
    then show thesis by (rule pop_block_effect) (rule that; simp)
  qed
  have fr: "arena_frame ?d (insert av ps) m1 m3" by (rule arena_frame_trans [OF N(3) Q(4)])
  have sz1: "desc_sizes m1 a" by (rule desc_sizes_cong [OF H(2), of i]) (use ea I1 bs in \<open>auto simp: arena_inv_def\<close>)
  have "is_desc m3 ?d (class_size i)" using Q(2) bs by (simp add: arena_inv_def)
  note S = heap_step [OF lay a i l [unfolded PF] fr sz1 this]
  have "list_empty m (free_list ?d)" using H(1) by (auto simp: arena_inv_def list_empty_iff)
  then have T: "take_block g ?s PF a request = Ok (block_at av bs 0) (s\<lparr>mem := m3\<rparr>)"
    using N(1) Q(1) arena_index_class [OF H(2) c] by (simp add: take_block_def Let_def desc_at_def)
  have "eq_on m1 m l 28" "eq_on m1 m (PDE_field s) 4" using e A by blast+
  then have "eq_on m3 m l 28" "eq_on m3 (mem s) (PDE_field s) 4" using S(2,3) H(3) by (simp_all add: eq_on_def)
  with T Q(2,3) S(1) show ?thesis by (auto simp: zeroed_def)
qed

lemma malloc_new_arena:
  assumes inv: "heap_inv g s i ps []" and c: "request_class request i"
    and req: "0 < request" "request < pool_size (mem s) (memory_pool_of g (pool_of_thread s))"
    and ready: "palloc_ready g s (pool_of_thread s) 1 r b cap" and ap: "heap_apart g s ps"
    and av: "av = vaddr_start (mem s) (vaddr_pool g s (pool_of_thread s)) + of_nat r * PAGE_SIZE"
    and new: "av \<notin> ps" and lay: "heap_layout g s (insert av ps)" and bs: "bs = class_size i"
  shows "\<exists>m'. sys_malloc g s request = Ok (block_at av bs 0) (s\<lparr>mem := m'\<rparr>)
    \<and> heap_inv g (s\<lparr>mem := m'\<rparr>) i (insert av ps) (map (block_at av bs) [1..<4084 div bs])
    \<and> zeroed m' (block_at av bs 0) bs"
proof -
  define a where "a = arenas_of_thread g s"
  define PF where "PF = pool_of_thread s"
  define l where "l = pool_lock (memory_pool_of g PF)"
  let ?x = "block_at av bs 0" and ?xs = "map (block_at av bs) [1..<4084 div bs]"
  let ?Q = "\<lambda>m'. arena_inv m' (desc_at a i) bs (insert av ps) ?xs \<and> zeroed m' ?x bs \<and> desc_sizes m' a
    \<and> eq_on m' (mem s) (PDE_field s) 4"
  have i: "i < 7" and fr: "lock_free s l" using inv by (simp_all add: heap_inv_def l_def PF_def)
  note body = take_block_new [OF inv c PF_def a_def l_def bs ready [folded PF_def] ap av [folded PF_def] new lay]
  obtain m1 m2 where G: "obind (sys_lock_lock g s l) (\<lambda>_ s1. obind (take_block g s1 PF a request)
      (\<lambda>x s2. obind (sys_lock_unlock g s2 l) (\<lambda>_ s3. Ok x s3))) = Ok ?x (s\<lparr>mem := m2\<rparr>)" "?Q m1"
    "only_in m1 m2 l 28" "lock_free (s\<lparr>mem := m2\<rparr>) l"
    by (rule lk.guarded [OF fr, of "\<lambda>s1. take_block g s1 PF a request" ?x ?Q g]) (use body in blast)
  have "sys_malloc g s request = Ok ?x (s\<lparr>mem := m2\<rparr>)"
    using sys_malloc_small [OF req c] G(1) by (simp only: a_def l_def PF_def)
  moreover have "heap_inv g (s\<lparr>mem := m2\<rparr>) i (insert av ps) ?xs"
    by (rule heap_unlocked [OF lay a_def i l_def [unfolded PF_def] _ _ _ G(3,4)]) (use G(2) in \<open>simp_all add: bs\<close>)
  moreover have "zeroed m2 ?x bs"
  proof -
    have AL: "arena_layout (desc_at a i) bs (insert av ps)" using G(2) by (simp add: arena_inv_def)
    then have "0 < 4084 div bs" using block_class_bounds [of bs] by (auto simp: arena_layout_def)
    then have "?x \<in> blocks_of bs (insert av ps)" by (auto simp: blocks_of_def)
    from only_in_sep [OF G(3) [unfolded l_def PF_def] heap_block_sep [OF lay AL this]] G(2) show ?thesis
      using eq_on_zeroed by blast
  qed
  ultimately show ?thesis by blast
qed

section \<open>Release\<close>

lemma sys_free_small:
  assumes x: "x \<noteq> NULL" "pool_of_thread s = KERNEL_POOL \<longrightarrow> x \<ge> KERNEL_HEAP_BASE"
    and l: "l = pool_lock (memory_pool_of g (pool_of_thread s))" and fr: "lock_free s l"
    and body: "\<And>m. only_in (mem s) m l 28 \<Longrightarrow> large_request m (block2arena x) = 0
      \<and> (\<exists>m'. free_block g (s\<lparr>mem := m\<rparr>) (pool_of_thread s) (block2arena x) x = Ok () (s\<lparr>mem := m'\<rparr>)
        \<and> eq_on m' m l 28 \<and> Q m')"
  obtains m1 m2 where "sys_free g s x = Ok () (s\<lparr>mem := m2\<rparr>)" "Q m1" "only_in m1 m2 l 28" "lock_free (s\<lparr>mem := m2\<rparr>) l"
proof -
  let ?PF = "pool_of_thread s" and ?av = "block2arena x"
  let ?body = "\<lambda>s1. free_block g s1 ?PF ?av x"
  obtain m1 m2 where G: "obind (sys_lock_lock g s l) (\<lambda>_ s1. obind (?body s1)
      (\<lambda>x s2. obind (sys_lock_unlock g s2 l) (\<lambda>_ s3. Ok x s3))) = Ok () (s\<lparr>mem := m2\<rparr>)" "Q m1"
    "only_in m1 m2 l 28" "lock_free (s\<lparr>mem := m2\<rparr>) l"
    by (rule lk.guarded [OF fr, of ?body "()" Q g]) (use body in blast)
  obtain m0 where m0: "sys_lock_lock g s l = Ok () (s\<lparr>mem := m0\<rparr>)" "only_in (mem s) m0 l 28"
    using lk.lock [OF fr] by blast
  have unit: "obind r Ok = r" for r :: "(kstate, unit) outcome" by (cases r) simp_all
  have "sys_free g s x = obind (sys_lock_lock g s l) (\<lambda>_ s1. obind (?body s1) (\<lambda>_ s2. sys_lock_unlock g s2 l))"
    using x m0(1) body [OF m0(2)] by (simp add: sys_free_def Let_def l)
  also have "\<dots> = Ok () (s\<lparr>mem := m2\<rparr>)" using G(1) by (simp add: unit)
  finally show thesis by (rule that [OF _ G(2-4)])
qed

lemma free_keeps:
  assumes inv: "heap_inv g s i ps xs" and bs: "bs = class_size i"
    and x: "x \<in> blocks_of bs ps" "x \<notin> set xs" "pool_of_thread s = KERNEL_POOL \<longrightarrow> x \<ge> KERNEL_HEAP_BASE"
    and c: "Suc (card (free_in bs (block2arena x) (set xs))) \<noteq> 4084 div bs"
  shows "\<exists>m'. sys_free g s x = Ok () (s\<lparr>mem := m'\<rparr>) \<and> heap_inv g (s\<lparr>mem := m'\<rparr>) i ps (xs @ [x])
    \<and> (\<forall>z \<in> blocks_of bs ps - set (x # xs). eq_on m' (mem s) z bs)"
proof -
  define a where "a = arenas_of_thread g s"
  define l where "l = pool_lock (memory_pool_of g (pool_of_thread s))"
  let ?d = "desc_at a i" and ?live = "blocks_of bs ps - set (x # xs)"
  let ?Q = "\<lambda>m'. arena_inv m' ?d bs ps (xs @ [x]) \<and> desc_sizes m' a
    \<and> eq_on m' (mem s) (PDE_field s) 4 \<and> (\<forall>z \<in> ?live. eq_on m' (mem s) z bs)"
  have i: "i < 7" and lay: "heap_layout g s ps" and fr: "lock_free s l" and al: "arena_layout ?d bs ps"
    using inv by (simp_all add: heap_inv_def l_def a_def bs arena_inv_def)
  have avp: "block2arena x \<in> ps" using block_cases [OF al x(1)] by metis
  have body: "large_request m (block2arena x) = 0
      \<and> (\<exists>m'. free_block g (s\<lparr>mem := m\<rparr>) (pool_of_thread s) (block2arena x) x = Ok () (s\<lparr>mem := m'\<rparr>)
        \<and> eq_on m' m l 28 \<and> ?Q m')" if o: "only_in (mem s) m l 28" for m
  proof
    note H = heap_locked [OF inv a_def l_def o, folded bs]
    show "large_request m (block2arena x) = 0" using H(1) avp by (auto simp: arena_inv_def arena_header_def)
    have "arena_inv (mem (s\<lparr>mem := m\<rparr>)) ?d bs ps xs" using H(1) by simp
    from free_block_keeps [OF this x(1,2) refl c, of g "pool_of_thread s"]
    obtain m' where F: "free_block g (s\<lparr>mem := m\<rparr>) (pool_of_thread s) (block2arena x) x = Ok () (s\<lparr>mem := m'\<rparr>)"
      "arena_inv m' ?d bs ps (xs @ [x])" "arena_frame ?d ps m m'" "\<forall>z \<in> ?live. eq_on m' m z bs"
      by auto
    have "is_desc m' ?d (class_size i)" using F(2) by (simp add: arena_inv_def bs)
    note S = heap_step [OF lay a_def i l_def F(3) H(2) this]
    have "eq_on m' (mem s) z bs" if "z \<in> ?live" for z
      using only_in_sep [OF o [unfolded l_def] heap_block_sep [OF lay al]] F(4) that by (auto simp: eq_on_def)
    moreover have "eq_on m' (mem s) (PDE_field s) 4" using S(3) H(3) by (simp add: eq_on_def)
    ultimately show "\<exists>m'. free_block g (s\<lparr>mem := m\<rparr>) (pool_of_thread s) (block2arena x) x = Ok () (s\<lparr>mem := m'\<rparr>)
        \<and> eq_on m' m l 28 \<and> ?Q m'"
      using F(1,2) S(1,2) by (intro exI [of _ m'] conjI ballI)
  qed
  obtain m1 m2 where G: "sys_free g s x = Ok () (s\<lparr>mem := m2\<rparr>)" "?Q m1" "only_in m1 m2 l 28" "lock_free (s\<lparr>mem := m2\<rparr>) l"
    by (rule sys_free_small [OF block_nonnull [OF al x(1)] x(3) l_def fr, of ?Q]) (use body in blast)
  have "heap_inv g (s\<lparr>mem := m2\<rparr>) i ps (xs @ [x])"
    by (rule heap_unlocked [OF lay a_def i l_def _ _ _ G(3,4)]) (use G(2) in \<open>simp_all add: bs\<close>)
  moreover have "eq_on m2 (mem s) z bs" if "z \<in> ?live" for z
    using only_in_sep [OF G(3) [unfolded l_def] heap_block_sep [OF lay al]] G(2) that by (auto simp: eq_on_def)
  ultimately show ?thesis using G(1) by blast
qed

section \<open>A small heap\<close>

text \<open>
  The pools of \<open>demo_pools\<close> with a free lock, a pool size, and the descriptors of the kernel; the free list
  of the sixth class (512 bytes, 7 blocks) is empty in \<open>demo_heap0\<close>. In \<open>demo_heap1\<close> the page
  \<open>0xC0100000\<close> is an arena of it with the blocks 1 and 2 free and the others in use.
\<close>

definition demo_heap0 :: mem where
  "demo_heap0 = st32 (st32 (st32 (st32 (st32 (st32 (st32 (st32 (st32 (st32 (st32 (st8 (st32 demo_pools
     0x110C 0x8000) 0x1114 1) 0x111C 0x1120)
     0x1400 16) 0x1418 32) 0x1430 64) 0x1448 128) 0x1460 256) 0x1478 512) 0x1490 1024)
     0x147C 7) 0x1484 0x1488) 0x1488 0x1480"

definition demo_heap1 :: mem where
  "demo_heap1 = st32 (st32 (st32 (st32 (st32 (st32 (st32 (st32 (st32 demo_heap0
     0x1484 0xC010020C) 0xC010020C 0x1480) 0xC0100210 0xC010040C) 0xC010040C 0xC010020C) 0xC0100410 0x1488)
     0x1488 0xC010040C) 0xC0100000 0x1478) 0xC0100004 2) 0xC0100008 0"

definition demo_heap_state :: "mem \<Rightarrow> kstate" where
  "demo_heap_state m = demo_pool_state\<lparr>mem := m\<rparr>"

lemma less_7_cases: "(\<forall>j < (7::nat). P j) \<longleftrightarrow> P 0 \<and> P 1 \<and> P 2 \<and> P 3 \<and> P 4 \<and> P 5 \<and> P 6"
  by (simp add: eval_nat_numeral All_less_Suc conj_ac)

lemma demo_thread:
  assumes "ld32 m 0x2030 = 0"
  shows "pool_of_thread (demo_heap_state m) = KERNEL_POOL" "arenas_of_thread demo_symbols (demo_heap_state m) = 0x1400"
    "PDE_field (demo_heap_state m) = 0x2030" "GetCurrentThreadPCB (demo_heap_state m) = 0x2000"
    "vaddr_pool demo_symbols (demo_heap_state m) KERNEL_POOL = 0x1300" "memory_pool_of demo_symbols KERNEL_POOL = 0x1100"
  using assms
  by (simp_all add: pool_of_thread_def arenas_of_thread_def PDE_field_def demo_heap_state_def demo_pool_state_def
      demo_state_def GetCurrentThreadPCB_def PCB_PDE_addr_def demo_symbols_def PAGE_MASK_def vaddr_pool_def memory_pool_of_def)

lemma demo_heap_views:
  assumes "m = demo_heap0 \<or> m = demo_heap1"
  shows "ld32 m 0x2030 = 0" "ld32 m 0x110C = 0x8000" "desc_sizes m 0x1400" "is_desc m 0x1478 512"
    "lock_free (demo_heap_state m) 0x1110"
proof -
  note D = demo_heap1_def demo_heap0_def demo_pools_def sep_def

  show "ld32 m 0x2030 = 0" using assms by (auto simp: D)
  show "ld32 m 0x110C = 0x8000" using assms by (auto simp: D)
  show "desc_sizes m 0x1400" unfolding desc_sizes_def less_7_cases
    using assms by (auto simp: D desc_at_def sizeof_arena_desc_def block_size_def class_size_def)
  show "is_desc m 0x1478 512" using assms by (auto simp: D is_desc_def block_size_def memory_blocks_sum_def)
  show "lock_free (demo_heap_state m) 0x1110"
    using assms by (auto simp: D lock_view demo_heap_state_def demo_pool_state_def demo_state_def GetCurrentThreadPCB_def PAGE_MASK_def)
qed

lemma demo_heap_layout:
  assumes "ld32 m 0x2030 = 0"
  shows "heap_layout demo_symbols (demo_heap_state m) {0xC0100000}" "heap_layout demo_symbols (demo_heap_state m) {}"
  unfolding heap_layout_def Let_def demo_thread [OF assms]
  by (simp_all add: pool_lock_def page_aligned_def PAGE_MASK_def sep_def)

lemma demo_heap0_inv: "heap_inv demo_symbols (demo_heap_state demo_heap0) 5 {} []"
proof -
  note V = demo_heap_views [of demo_heap0, simplified]
  have d: "desc_at 0x1400 5 = 0x1478" by (simp add: desc_at_def sizeof_arena_desc_def)
  have m: "mem (demo_heap_state demo_heap0) = demo_heap0" by (simp add: demo_heap_state_def)
  have "is_list demo_heap0 (free_list 0x1478) []"
    by (simp add: demo_simps free_list_def demo_heap0_def demo_pools_def)
  then show ?thesis
    unfolding heap_inv_def demo_thread [OF V(1)] m d
    using V demo_heap_layout [OF V(1)] heap_arena_layout [OF demo_heap_layout(2) [OF V(1)], of 5]
    by (simp add: demo_thread [OF V(1)] d arena_inv_def class_size_def pool_lock_def)
qed

lemma demo_blocks: "block_at 0xC0100000 512 1 = 0xC010020C" "block_at 0xC0100000 512 2 = 0xC010040C"
  "block_at 0xC0100000 512 0 = 0xC010000C"
  by (simp_all add: block_at_def)

lemma demo_free_in: "free_in 512 0xC0100000 {0xC010020C, 0xC010040C} = {1, 2}"
proof -
  have "\<forall>j < 7. block_at 0xC0100000 512 j \<in> {0xC010020C, 0xC010040C} \<longleftrightarrow> j = 1 \<or> j = 2"
    unfolding less_7_cases by (simp add: block_at_def)
  then show ?thesis using demo_blocks by (auto simp: free_in_def)
qed

lemma demo_heap1_inv: "heap_inv demo_symbols (demo_heap_state demo_heap1) 5 {0xC0100000} [0xC010020C, 0xC010040C]"
proof -
  note V = demo_heap_views [of demo_heap1, simplified]
  have d: "desc_at 0x1400 5 = 0x1478" by (simp add: desc_at_def sizeof_arena_desc_def)
  have m: "mem (demo_heap_state demo_heap1) = demo_heap1" by (simp add: demo_heap_state_def)
  have L: "is_list demo_heap1 (free_list 0x1478) [0xC010020C, 0xC010040C]"
    by (simp add: demo_simps free_list_def demo_heap1_def demo_heap0_def demo_pools_def)
  have B: "{0xC010020C, 0xC010040C} \<subseteq> blocks_of 512 {0xC0100000}"
    using demo_blocks unfolding blocks_of_def by (auto intro: exI [of _ 1] exI [of _ 2])
  have H: "arena_header demo_heap1 0xC0100000 0x1478 2"
    by (simp add: arena_header_def arena_desc_of_def large_request_def arena_cnt_def demo_heap1_def sep_def)
  have A: "arena_layout 0x1478 512 {0xC0100000}"
    using heap_arena_layout [OF demo_heap_layout(1) [OF V(1)], of 5] unfolding demo_thread [OF V(1)] d by (simp add: class_size_def)
  have c: "class_size 5 = 512" by (simp add: class_size_def)
  have f: "card (free_in 512 0xC0100000 (set [0xC010020C, 0xC010040C])) = 2" using demo_free_in by simp
  have "arena_inv demo_heap1 0x1478 512 {0xC0100000} [0xC010020C, 0xC010040C]"
    unfolding arena_inv_def using A V(4) L B H f by simp
  then show ?thesis
    unfolding heap_inv_def demo_thread [OF V(1)] m d c
    using V demo_heap_layout [OF V(1)] by (simp add: pool_lock_def)
qed

section \<open>Properties\<close>

text \<open>C17. Allocation from a heap with a free block. For a size that is zero or not below the size of the
  pool, \<open>sys_malloc\<close> returns \<open>NULL\<close> and changes nothing. Otherwise, when the size class of the request
  has free blocks, it returns the first of them, cleared to its full size; the other free blocks
  stay free in their order, the counters of the arenas keep counting them, the lock of the pool is
  free again, and no block that is in use changes.\<close>

theorem sys_malloc_reuses:
  assumes "heap_inv g s i ps (x # xs)" "request_class request i"
  shows "if 0 < request \<and> request < pool_size (mem s) (memory_pool_of g (pool_of_thread s))
    then \<exists>m'. sys_malloc g s request = Ok x (s\<lparr>mem := m'\<rparr>) \<and> heap_inv g (s\<lparr>mem := m'\<rparr>) i ps xs
      \<and> zeroed m' x (class_size i)
      \<and> (\<forall>z \<in> blocks_of (class_size i) ps - set (x # xs). eq_on m' (mem s) z (class_size i))
    else sys_malloc g s request = Ok NULL s"
  using malloc_reuses [OF assms] by (auto simp: sys_malloc_def Let_def)

lemma demo_class: "request_class 300 5"
proof -
  have "\<forall>j < 7. j < 5 \<longrightarrow> class_size j < 300" unfolding less_7_cases by (simp add: class_size_def)
  then show ?thesis by (simp add: request_class_def class_size_def)
qed

theorem sys_malloc_reuses_witness:
  "\<exists>m'. sys_malloc demo_symbols (demo_heap_state demo_heap1) 300 = Ok 0xC010020C (demo_heap_state m')
    \<and> heap_inv demo_symbols (demo_heap_state m') 5 {0xC0100000} [0xC010040C] \<and> zeroed m' 0xC010020C 512"
proof -
  note V = demo_heap_views [of demo_heap1, simplified]
  have "pool_size (mem (demo_heap_state demo_heap1)) 0x1100 = 0x8000"
    using V(2) by (simp add: pool_size_def demo_heap_state_def)
  moreover have "(demo_heap_state demo_heap1)\<lparr>mem := m'\<rparr> = demo_heap_state m'" for m' by (simp add: demo_heap_state_def)
  ultimately show ?thesis
    using sys_malloc_reuses [OF demo_heap1_inv demo_class] unfolding demo_thread [OF V(1)] by (auto simp: class_size_def)
qed

text \<open>Allocation with a new arena. When the size class has no free block and the page allocator
  can provide a page, \<open>sys_malloc\<close> makes the page an arena of the class (as many blocks as fit after
  the header), returns its first block, cleared, and leaves the others in the free list in order.\<close>

theorem sys_malloc_new_arena:
  assumes "heap_inv g s i ps []" "request_class request i"
    and "0 < request" "request < pool_size (mem s) (memory_pool_of g (pool_of_thread s))"
    and "palloc_ready g s (pool_of_thread s) 1 r b cap" "heap_apart g s ps"
    and "av = vaddr_start (mem s) (vaddr_pool g s (pool_of_thread s)) + of_nat r * PAGE_SIZE"
    and "av \<notin> ps" "heap_layout g s (insert av ps)" "bs = class_size i"
  shows "\<exists>m'. sys_malloc g s request = Ok (block_at av bs 0) (s\<lparr>mem := m'\<rparr>)
    \<and> heap_inv g (s\<lparr>mem := m'\<rparr>) i (insert av ps) (map (block_at av bs) [1..<4084 div bs])
    \<and> zeroed m' (block_at av bs 0) bs"
  by (rule malloc_new_arena [OF assms])

lemma demo_heap_ready: "palloc_ready demo_symbols (demo_heap_state demo_heap0) KERNEL_POOL 1 0 0x200000 8"
proof -
  note V = demo_heap_views [of demo_heap0, simplified]
  have m: "mem (demo_heap_state demo_heap0) = demo_heap0" by (simp add: demo_heap_state_def)
  have W: "bitmap_bytes_len demo_heap0 0x1100 = 1" "bits demo_heap0 0x1100 = 0xC009A000"
    "physic_addr_start demo_heap0 0x1100 = 0x200000"
    "bitmap_bytes_len demo_heap0 0x1300 = 1" "bits demo_heap0 0x1300 = 0xC009A001"
    "vaddr_start demo_heap0 0x1300 = 0xC0100000"
    by (simp_all add: demo_heap0_def demo_pools_def bitmap_bytes_len_def bits_def physic_addr_start_def vaddr_start_def sep_def)
  have B: "\<not> bm demo_heap0 0x1100 j" "\<not> bm demo_heap0 0x1300 j" if "j < 8" for j
    using that by (simp_all add: bm_def W) (simp_all add: demo_heap0_def demo_pools_def sep_def)
  have fr: "first_run (bm demo_heap0 0x1300) 1 (bm_size demo_heap0 0x1300) = Some 0"
    using B(2) by (simp add: first_run_Some run_free_def bm_size_def W)
  have up: "used_pages 0x1100 (demo_heap_state demo_heap0) = {}" using B(1) by (auto simp: used_pages_def m bm_size_def W)
  have hr: "heap_ready demo_heap0 0xC0100000 1"
    by (simp add: heap_ready_def table_present_def page_absent_def GetPDEPointer_def GetPTEPointer_def
        PDE_IDX_def PTE_IDX_def PAGE_SIZE_def PAGE_P_1_def demo_heap0_def demo_pools_def sep_def)
  show ?thesis
    unfolding palloc_ready_def Let_def demo_thread [OF V(1)] m
    using fr hr up
    by (simp add: W bitmap_wf_def sep_def pool_inv_def pool_ok_def bm_size_def m pool_apart_def page_aligned_def PAGE_MASK_def vpn_def)
qed

theorem sys_malloc_new_arena_witness:
  "\<exists>m'. sys_malloc demo_symbols (demo_heap_state demo_heap0) 300 = Ok 0xC010000C (demo_heap_state m')
    \<and> heap_inv demo_symbols (demo_heap_state m') 5 {0xC0100000} (map (block_at 0xC0100000 512) [1..<7])
    \<and> zeroed m' 0xC010000C 512"
proof -
  note V = demo_heap_views [of demo_heap0, simplified]
  note T = demo_thread [OF V(1)]
  let ?s = "demo_heap_state demo_heap0"
  have m: "mem ?s = demo_heap0" "?s\<lparr>mem := m'\<rparr> = demo_heap_state m'" for m' by (simp_all add: demo_heap_state_def)
  have W: "vaddr_start demo_heap0 0x1300 = 0xC0100000" "bitmap_bytes_len demo_heap0 0x1100 = 1" "bits demo_heap0 0x1100 = 0xC009A000"
    "bitmap_bytes_len demo_heap0 0x1300 = 1" "bits demo_heap0 0x1300 = 0xC009A001"
    by (simp_all add: demo_heap0_def demo_pools_def bitmap_bytes_len_def bits_def vaddr_start_def sep_def)
  have ap: "heap_apart demo_symbols ?s {}"
    unfolding heap_apart_def Let_def T palloc_apart_def m by (simp add: W pool_lock_def sep_def)
  have "pool_size (mem ?s) (memory_pool_of demo_symbols (pool_of_thread ?s)) = 0x8000" using V(2) by (simp add: T m pool_size_def)
  then have "\<exists>m'. sys_malloc demo_symbols ?s 300 = Ok (block_at 0xC0100000 512 0) (?s\<lparr>mem := m'\<rparr>)
    \<and> heap_inv demo_symbols (?s\<lparr>mem := m'\<rparr>) 5 (insert 0xC0100000 {}) (map (block_at 0xC0100000 512) [1..<4084 div 512])
    \<and> zeroed m' (block_at 0xC0100000 512 0) 512"
    using demo_heap_ready ap demo_heap_layout(1) [OF V(1)]
    by (intro sys_malloc_new_arena [OF demo_heap0_inv demo_class, where r = 0 and b = "0x200000" and cap = 8])
      (simp_all add: T m W class_size_def)
  then show ?thesis by (simp add: m demo_blocks)
qed

text \<open>C18. Release. Returning a block of an arena that has another block in use puts it at the end
  of the free list of its size class, counts it in its arena, leaves the lock of the pool free and
  changes no block that stays in use.\<close>

theorem sys_free_returns:
  assumes "heap_inv g s i ps xs" "bs = class_size i" "x \<in> blocks_of bs ps" "x \<notin> set xs"
    and "pool_of_thread s = KERNEL_POOL \<longrightarrow> x \<ge> KERNEL_HEAP_BASE"
    and "Suc (card (free_in bs (block2arena x) (set xs))) \<noteq> 4084 div bs"
  shows "\<exists>m'. sys_free g s x = Ok () (s\<lparr>mem := m'\<rparr>) \<and> heap_inv g (s\<lparr>mem := m'\<rparr>) i ps (xs @ [x])
    \<and> (\<forall>z \<in> blocks_of bs ps - set (x # xs). eq_on m' (mem s) z bs)"
  by (rule free_keeps [OF assms])

theorem sys_free_returns_witness:
  "\<exists>m'. sys_free demo_symbols (demo_heap_state demo_heap1) 0xC010000C = Ok () (demo_heap_state m')
    \<and> heap_inv demo_symbols (demo_heap_state m') 5 {0xC0100000} [0xC010020C, 0xC010040C, 0xC010000C]"
proof -
  have B: "0xC010000C \<in> blocks_of 512 {0xC0100000}"
    using demo_blocks(3) unfolding blocks_of_def by (auto intro: exI [of _ 0])
  have b: "block2arena 0xC010000C = 0xC0100000" by (simp add: block2arena_def)
  have m: "(demo_heap_state demo_heap1)\<lparr>mem := m'\<rparr> = demo_heap_state m'" for m' by (simp add: demo_heap_state_def)
  have "\<exists>m'. sys_free demo_symbols (demo_heap_state demo_heap1) 0xC010000C = Ok () ((demo_heap_state demo_heap1)\<lparr>mem := m'\<rparr>)
    \<and> heap_inv demo_symbols ((demo_heap_state demo_heap1)\<lparr>mem := m'\<rparr>) 5 {0xC0100000} ([0xC010020C, 0xC010040C] @ [0xC010000C])
    \<and> (\<forall>z \<in> blocks_of 512 {0xC0100000} - set [0xC010000C, 0xC010020C, 0xC010040C]. eq_on m' (mem (demo_heap_state demo_heap1)) z 512)"
    by (rule sys_free_returns [OF demo_heap1_inv]) (use B b demo_free_in in \<open>simp_all add: class_size_def KERNEL_HEAP_BASE_def\<close>)
  then show ?thesis unfolding m by auto
qed

text \<open>Block geometry. In an arena of any of the seven sizes the blocks lie inside the page behind the
  12-byte header and are pairwise apart, and \<open>block2arena\<close> undoes \<open>arena2block\<close>.\<close>

theorem arena_block_roundtrip:
  assumes "is_desc m d (class_size k)" "arena_header m av d c" "page_aligned av" "k < 7"
    and "i < 4084 div class_size k" "j < 4084 div class_size k" "i \<noteq> j"
  shows "block2arena (arena2block m av (of_nat i)) = av
    \<and> sep av 12 (arena2block m av (of_nat i)) (class_size k)
    \<and> (\<forall>y. inr y (arena2block m av (of_nat i)) (class_size k) \<longrightarrow> inr y av 4096)
    \<and> sep (arena2block m av (of_nat i)) (class_size k) (arena2block m av (of_nat j)) (class_size k)"
proof -
  have c: "block_class (class_size k)" using assms(4) by (auto simp: block_class_def)
  note A = arena2block_at [OF assms(1,2)]
  have o: "unat (12 + of_nat (class_size k * i) :: u32) + class_size k \<le> 4096"
    using block_offset [OF c assms(5)] by linarith
  have b: "block_at av (class_size k) i = av + (12 + of_nat (class_size k * i))" by (simp only: block_at_def add.assoc)
  have "inr y av 4096" if "inr y (block_at av (class_size k) i) (class_size k)" for y
    using inr_part [OF that [unfolded b] o] .
  moreover have "sep (block_at av (class_size k) i) (class_size k) (block_at av (class_size k) j) (class_size k)"
  proof -
    have "class_size k * (4084 div class_size k) \<le> 4084" by simp
    then have "class_size k * (4084 div class_size k) \<le> 2 ^ 32" by (rule order_trans) simp
    then show ?thesis unfolding block_at_def using assms(5-7) by (intro sep_array)
  qed
  ultimately show ?thesis unfolding A using block_in_arena(1,2) [OF c assms(5,3)] by blast
qed

theorem arena_block_roundtrip_witness:
  "block2arena (arena2block demo_heap1 0xC0100000 3) = 0xC0100000
    \<and> sep (arena2block demo_heap1 0xC0100000 3) 512 (arena2block demo_heap1 0xC0100000 6) 512"
proof -
  have h: "arena_header demo_heap1 0xC0100000 0x1478 2"
    by (simp add: arena_header_def arena_desc_of_def large_request_def arena_cnt_def demo_heap1_def sep_def)
  have c: "class_size 5 = 512" by (simp add: class_size_def)
  have "is_desc demo_heap1 0x1478 (class_size 5)" using demo_heap_views(4) [of demo_heap1] c by simp
  from arena_block_roundtrip [OF this h, of 3 6] show ?thesis
    by (simp add: c page_aligned_def PAGE_MASK_def)
qed

end
