(* ===== verification/PageFree.thy ===== *)
theory PageFree
  imports Heap
begin

text \<open>
  Giving pages back (\<open>pfree\<close> of \<open>kernel/memory.c\<close>): the pages of a run return to their physical pool, the
  entries of the page table are cleared, and the run is free in the virtual pool again. \<open>pfree\<close> undoes
  \<open>palloc\<close>, except for the first page of the user pool, which \<open>ReturnOnePhysicPage\<close> takes for a page of the
  kernel pool.
\<close>

section \<open>Which pool a page goes back to\<close>

lemma unat_page_at:
  assumes "i < cap" "unat b + cap * 4096 \<le> 2 ^ 32" "cap \<le> 2 ^ 20"
  shows "unat (page_at b i) = unat b + i * 4096"
proof -
  have "i * 4096 + 4096 \<le> cap * 4096" using assms(1) by simp
  then show ?thesis
    unfolding page_at_def using unat_pages [of i] assms by (subst unat_plus_lt) simp_all
qed

lemma page_at_index: "i < 2 ^ 20 \<Longrightarrow> (page_at b i - b) div PAGE_SIZE = of_nat i"
proof -
  assume i: "i < 2 ^ 20"
  then have "unat (of_nat i * PAGE_SIZE) div 4096 = unat (of_nat i :: u32)" using unat_pages [OF i] by simp
  then show ?thesis by (simp add: page_at_def word_unat_eq_iff unat_div)
qed

text \<open>
  The pages of the pool \<open>pf\<close> are told apart from those of the other pool: the kernel's lie below the
  user's first page, and that page itself is not returned.
\<close>

definition pool_side :: "symbols \<Rightarrow> mem \<Rightarrow> pool_flags \<Rightarrow> u32 \<Rightarrow> nat \<Rightarrow> bool" where
  "pool_side g m pf b cap \<longleftrightarrow> (pf = KERNEL_POOL \<longrightarrow>
     unat b + cap * 4096 \<le> unat (physic_addr_start m (user_memory_pool g))
     \<and> sep (bits m (kernel_memory_pool g)) (unat (bitmap_bytes_len m (kernel_memory_pool g))) (user_memory_pool g) 44
     \<and> sep window 0x400000 (user_memory_pool g) 44)"

definition page_side :: "pool_flags \<Rightarrow> nat \<Rightarrow> bool" where
  "page_side pf i \<longleftrightarrow> (pf = USER_POOL \<longrightarrow> i \<noteq> 0)"

lemma page_compare:
  assumes inv: "pool_inv p b cap s" "p = memory_pool_of g pf" and side: "pool_side g (mem s) pf b cap"
    and b: "unat b + cap * 4096 \<le> 2 ^ 32" and i: "i < cap" "page_side pf i"
  shows "(page_at b i > physic_addr_start (mem s) (user_memory_pool g)) = (pf = USER_POOL)"
    "(page_at b i \<ge> physic_addr_start (mem s) (user_memory_pool g)) = (pf = USER_POOL)"
proof -
  let ?u = "physic_addr_start (mem s) (user_memory_pool g)"
  have P: "unat (page_at b i) = unat b + i * 4096"
    using unat_page_at [OF i(1) b] inv(1) by (simp add: pool_inv_def)
  have "(page_at b i > ?u) = (pf = USER_POOL) \<and> (page_at b i \<ge> ?u) = (pf = USER_POOL)"
  proof (cases pf)
    case KERNEL_POOL
    then have "unat (page_at b i) < unat ?u" using P i(1) side by (simp add: pool_side_def)
    then show ?thesis using KERNEL_POOL by (simp add: word_less_nat_alt word_le_nat_alt)
  next
    case USER_POOL
    then have "?u = b" "0 < i" using inv i(2) by (simp_all add: pool_inv_def memory_pool_of_def page_side_def)
    then show ?thesis using P USER_POOL by (simp add: word_less_nat_alt word_le_nat_alt)
  qed
  then show "(page_at b i > ?u) = (pf = USER_POOL)" "(page_at b i \<ge> ?u) = (pf = USER_POOL)" by blast+
qed

section \<open>One page\<close>

lemma return_effect:
  assumes inv: "pool_inv p b cap s" "p = memory_pool_of g pf" and side: "pool_side g (mem s) pf b cap"
    and b: "unat b + cap * 4096 \<le> 2 ^ 32" and i: "i < cap" "page_side pf i"
  obtains m' where "ReturnOnePhysicPage g s (page_at b i) = Ok () (s\<lparr>mem := m'\<rparr>)"
    "pool_inv p b cap (s\<lparr>mem := m'\<rparr>)" "used_pages p (s\<lparr>mem := m'\<rparr>) = used_pages p s - {i}"
    "only_in (mem s) m' (bits (mem s) p) (unat (bitmap_bytes_len (mem s) p))"
    "bits m' p = bits (mem s) p" "bitmap_bytes_len m' p = bitmap_bytes_len (mem s) p"
proof -
  have ok: "pool_ok (mem s) p" and n: "bm_size (mem s) p = cap" "cap \<le> 2 ^ 20" and pb: "physic_addr_start (mem s) p = b"
    using inv(1) by (simp_all add: pool_inv_def)
  have u: "unat (of_nat i :: u32) = i" using i(1) n(2) by simp
  have "unat (of_nat i :: u32) < bm_size (mem s) p" using u i(1) n(1) by simp
  then obtain m' where m': "BitmapSetBit (mem s) p (of_nat i) 0 = Ok () m'"
    "only_in (mem s) m' (bits (mem s) p) (unat (bitmap_bytes_len (mem s) p))" "eq_on m' (mem s) p 44"
    "\<forall>k < 2 ^ 32. bm m' p k = (if k = unat (of_nat i :: u32) then (0 :: u8) = 1 else bm (mem s) p k)"
    using pool_set_bit [OF ok, of "of_nat i" 0] by blast
  note fr = pool_ok_frame [OF ok m'(3)]
  have "(if page_at b i > physic_addr_start (mem s) (user_memory_pool g) then user_memory_pool g else kernel_memory_pool g) = p"
    unfolding page_compare(1) [OF inv side b i] using inv(2) by (cases pf) (simp_all add: memory_pool_of_def)
  then have "ReturnOnePhysicPage g s (page_at b i) = Ok () (s\<lparr>mem := m'\<rparr>)"
    using m'(1) page_at_index [of i b] i(1) n(2) pb by (simp add: ReturnOnePhysicPage_def)
  moreover have "used_pages p (s\<lparr>mem := m'\<rparr>) = used_pages p s - {i}"
  proof -
    have "bm m' p k = (k \<noteq> i \<and> bm (mem s) p k)" if "k < cap" for k
      using m'(4) [rule_format, of k] that n(2) u by simp
    then show ?thesis using fr(3) n(1) by (auto simp: used_pages_def)
  qed
  moreover have "pool_inv p b cap (s\<lparr>mem := m'\<rparr>)" using fr n pb by (simp add: pool_inv_def)
  ultimately show thesis using that m'(2) fr(4,5) by blast
qed

text \<open>The physical page and its entry in the page table: one round of the loop of \<open>pfree\<close>.\<close>

lemma pfree_step:
  assumes inv: "pool_inv p b cap s" "p = memory_pool_of g pf" and side: "pool_side g (mem s) pf b cap"
    and ap: "pool_apart (mem s) p" and b: "unat b + cap * 4096 \<le> 2 ^ 32" and i: "i < cap" "page_side pf i"
  obtains m1 m2 where "ReturnOnePhysicPage g s (page_at b i) = Ok () (s\<lparr>mem := m1\<rparr>)"
    "PageUnmapping (s\<lparr>mem := m1\<rparr>) v = s\<lparr>mem := m2\<rparr>"
    "pool_inv p b cap (s\<lparr>mem := m2\<rparr>)" "used_pages p (s\<lparr>mem := m2\<rparr>) = used_pages p s - {i}" "pool_apart m2 p"
    "alloc_frame (mem s) m2 p" "bits m2 p = bits (mem s) p" "bitmap_bytes_len m2 p = bitmap_bytes_len (mem s) p"
    "ld32 m2 (GetPTEPointer v) = 0" "\<forall>w. vpn w \<noteq> vpn v \<longrightarrow> ld32 m2 (GetPTEPointer w) = ld32 (mem s) (GetPTEPointer w)"
    "pool_side g m2 pf b cap"
proof -
  obtain m1 where A: "ReturnOnePhysicPage g s (page_at b i) = Ok () (s\<lparr>mem := m1\<rparr>)"
    "pool_inv p b cap (s\<lparr>mem := m1\<rparr>)" "used_pages p (s\<lparr>mem := m1\<rparr>) = used_pages p s - {i}"
    "only_in (mem s) m1 (bits (mem s) p) (unat (bitmap_bytes_len (mem s) p))"
    "bits m1 p = bits (mem s) p" "bitmap_bytes_len m1 p = bitmap_bytes_len (mem s) p"
    by (rule return_effect [OF inv side b i])
  let ?m2 = "st32 m1 (GetPTEPointer v) 0"
  have len: "0 < unat (bitmap_bytes_len (mem s) p)" and ws: "sep window 0x400000 p 44"
    "sep window 0x400000 (bits (mem s) p) (unat (bitmap_bytes_len (mem s) p))"
    using ap by (simp_all add: pool_apart_def)
  have pte1: "ld32 m1 (GetPTEPointer w) = ld32 (mem s) (GetPTEPointer w)" for w
    by (rule b4.ld_frame [OF A(4) sep_sym [OF window_pte_sep [OF ws(2) len]]])
  have ow: "only_in m1 ?m2 window 0x400000" by (rule pte_only_window)
  have s1: "pool_apart (mem (s\<lparr>mem := m1\<rparr>)) p"
    using ap A(5,6) by (simp add: pool_apart_def)
  have P: "pool_inv p b cap (s\<lparr>mem := ?m2\<rparr>)" "pool_apart ?m2 p" "used_pages p (s\<lparr>mem := ?m2\<rparr>) = used_pages p (s\<lparr>mem := m1\<rparr>)"
    "bits ?m2 p = bits m1 p" "bitmap_bytes_len ?m2 p = bitmap_bytes_len m1 p"
    using pool_after_vpage [OF A(2) s1, where bs = window and len = "0x400000" and ?m1.0 = ?m2] ow ws A(5,6) by simp_all
  have fr: "alloc_frame (mem s) ?m2 p" using A(4) ow by (simp add: alloc_frame_def only_in_def)
  have "pool_side g ?m2 pf b cap"
    unfolding pool_side_def
  proof (intro impI)
    assume k: "pf = KERNEL_POOL"
    then have S: "sep (bits (mem s) p) (unat (bitmap_bytes_len (mem s) p)) (user_memory_pool g) 44" "sep window 0x400000 (user_memory_pool g) 44"
      using side inv(2) by (simp_all add: pool_side_def memory_pool_of_def)
    have "eq_on ?m2 (mem s) (user_memory_pool g) 44" by (rule alloc_frame_eq_on [OF fr S])
    from eq_on_part [OF this, of 8 4] have "physic_addr_start ?m2 (user_memory_pool g) = physic_addr_start (mem s) (user_memory_pool g)"
      by (simp add: physic_addr_start_def ld32_cong)
    then show "unat b + cap * 4096 \<le> unat (physic_addr_start ?m2 (user_memory_pool g))
        \<and> sep (bits ?m2 (kernel_memory_pool g)) (unat (bitmap_bytes_len ?m2 (kernel_memory_pool g))) (user_memory_pool g) 44
        \<and> sep window 0x400000 (user_memory_pool g) 44"
      using k side S P(4,5) A(5,6) inv(2) by (simp add: pool_side_def memory_pool_of_def)
  qed
  moreover have "PageUnmapping (s\<lparr>mem := m1\<rparr>) v = s\<lparr>mem := ?m2\<rparr>"
    by (simp add: PageUnmapping_def put32_def PAGE_P_0_def Let_def)
  moreover have "\<forall>w. vpn w \<noteq> vpn v \<longrightarrow> ld32 ?m2 (GetPTEPointer w) = ld32 (mem s) (GetPTEPointer w)"
    using pte_sep pte1 by simp
  ultimately show thesis using that [of m1 ?m2] A(1,3,5,6) P fr by simp
qed

section \<open>A run of pages\<close>

definition run_mapped :: "mem \<Rightarrow> addr \<Rightarrow> u32 \<Rightarrow> nat list \<Rightarrow> bool" where
  "run_mapped m v b is \<longleftrightarrow>
     (\<forall>i < length is. VirtualAddrToPhysicAddr m (v + of_nat i * PAGE_SIZE) = page_at b (is ! i))"

lemma translate_cong:
  "ld32 m' (GetPTEPointer w) = ld32 m (GetPTEPointer w) \<Longrightarrow> VirtualAddrToPhysicAddr m' w = VirtualAddrToPhysicAddr m w"
  by (simp add: VirtualAddrToPhysicAddr_def)

lemma run_mapped_tail:
  assumes "run_mapped m v b (i # is)" "vpn v + Suc (length is) \<le> 0xFFC00"
    and "\<forall>w. vpn w \<noteq> vpn v \<longrightarrow> ld32 m' (GetPTEPointer w) = ld32 m (GetPTEPointer w)"
  shows "run_mapped m' (v + PAGE_SIZE) b is"
  unfolding run_mapped_def
proof (intro allI impI)
  fix k assume k: "k < length is"
  let ?u = "v + of_nat (Suc k) * PAGE_SIZE"
  have u: "v + PAGE_SIZE + of_nat k * PAGE_SIZE = ?u" by (simp add: algebra_simps)
  have "vpn ?u = vpn v + Suc k" using assms(2) k by (intro vpn_add) simp
  then have "VirtualAddrToPhysicAddr m' ?u = VirtualAddrToPhysicAddr m ?u" using assms(3) by (intro translate_cong) simp
  moreover have "VirtualAddrToPhysicAddr m ?u = page_at b ((i # is) ! Suc k)"
    using assms(1) k unfolding run_mapped_def by (metis Suc_less_eq length_Cons)
  ultimately show "VirtualAddrToPhysicAddr m' (v + PAGE_SIZE + of_nat k * PAGE_SIZE) = page_at b (is ! k)"
    unfolding u by simp
qed

lemma pfree_loop_ok:
  assumes "pool_inv p b cap s" "p = memory_pool_of g pf" "pool_side g (mem s) pf b cap" "pool_apart (mem s) p"
    and "unat b + cap * 4096 \<le> 2 ^ 32" "page_aligned b" "page_aligned v"
    and "vpn v + length is \<le> 0xFFC00" "run_mapped (mem s) v b is" "distinct is" "\<forall>i \<in> set is. i < cap \<and> page_side pf i"
  shows "\<exists>m'. pfree_loop (length is) g (pf = USER_POOL) s (v - PAGE_SIZE) = Ok () (s\<lparr>mem := m'\<rparr>)
    \<and> pool_inv p b cap (s\<lparr>mem := m'\<rparr>) \<and> used_pages p (s\<lparr>mem := m'\<rparr>) = used_pages p s - set is
    \<and> pool_apart m' p \<and> alloc_frame (mem s) m' p
    \<and> bits m' p = bits (mem s) p \<and> bitmap_bytes_len m' p = bitmap_bytes_len (mem s) p
    \<and> (\<forall>i < length is. ld32 m' (GetPTEPointer (v + of_nat i * PAGE_SIZE)) = 0)
    \<and> (\<forall>w. vpn w < vpn v \<or> vpn v + length is \<le> vpn w \<longrightarrow> ld32 m' (GetPTEPointer w) = ld32 (mem s) (GetPTEPointer w))"
  using assms
proof (induction "is" arbitrary: s v)
  case Nil
  then show ?case by (intro exI [of _ "mem s"]) (simp add: alloc_frame_def)
next
  case (Cons i "is")
  have i: "i < cap" "page_side pf i" using Cons.prems(11) by simp_all
  obtain m1 m2 where S: "ReturnOnePhysicPage g s (page_at b i) = Ok () (s\<lparr>mem := m1\<rparr>)"
    "PageUnmapping (s\<lparr>mem := m1\<rparr>) v = s\<lparr>mem := m2\<rparr>"
    "pool_inv p b cap (s\<lparr>mem := m2\<rparr>)" "used_pages p (s\<lparr>mem := m2\<rparr>) = used_pages p s - {i}" "pool_apart m2 p"
    "alloc_frame (mem s) m2 p" "bits m2 p = bits (mem s) p" "bitmap_bytes_len m2 p = bitmap_bytes_len (mem s) p"
    "ld32 m2 (GetPTEPointer v) = 0" "\<forall>w. vpn w \<noteq> vpn v \<longrightarrow> ld32 m2 (GetPTEPointer w) = ld32 (mem s) (GetPTEPointer w)"
    "pool_side g m2 pf b cap"
    by (rule pfree_step [OF Cons.prems(1-5) i])
  have pa: "VirtualAddrToPhysicAddr (mem s) v = page_at b i"
    using Cons.prems(9) by (force simp: run_mapped_def)
  note cmp = page_compare(2) [OF Cons.prems(1,2,3,5) i]
  let ?s = "s\<lparr>mem := m2\<rparr>" and ?v = "v + PAGE_SIZE"
  have vn: "vpn ?v = vpn v + 1" using vpn_add [of v 1] Cons.prems(8) by simp
  have "vpn v + Suc (length is) \<le> 0xFFC00" using Cons.prems(8) by simp
  note tail = run_mapped_tail [OF Cons.prems(9) this S(10)]
  have va: "page_aligned ?v" using page_aligned_add [OF Cons.prems(7), of 1] by (simp add: add.commute)
  obtain m' where J: "pfree_loop (length is) g (pf = USER_POOL) ?s v = Ok () (s\<lparr>mem := m'\<rparr>)"
    "pool_inv p b cap (s\<lparr>mem := m'\<rparr>)" "used_pages p (s\<lparr>mem := m'\<rparr>) = used_pages p ?s - set is"
    "pool_apart m' p" "alloc_frame m2 m' p" "bits m' p = bits m2 p" "bitmap_bytes_len m' p = bitmap_bytes_len m2 p"
    "\<forall>k < length is. ld32 m' (GetPTEPointer (?v + of_nat k * PAGE_SIZE)) = 0"
    "\<forall>w. vpn w < vpn ?v \<or> vpn ?v + length is \<le> vpn w \<longrightarrow> ld32 m' (GetPTEPointer w) = ld32 m2 (GetPTEPointer w)"
    using Cons.IH [of ?s ?v] S(3,5,11) Cons.prems(2,5,6,8,10,11) va vn tail by auto
  have "ld32 m' (GetPTEPointer (v + of_nat k * PAGE_SIZE)) = 0" if "k < Suc (length is)" for k
  proof (cases k)
    case 0
    then show ?thesis using J(9) [rule_format, of v] vn S(9) by simp
  next
    case (Suc k')
    then show ?thesis using J(8) [rule_format, of k'] that by (simp add: algebra_simps)
  qed
  moreover have "ld32 m' (GetPTEPointer w) = ld32 (mem s) (GetPTEPointer w)"
    if "vpn w < vpn v \<or> vpn v + Suc (length is) \<le> vpn w" for w
    using J(9) [rule_format, of w] S(10) [rule_format, of w] that vn by auto
  moreover have "pfree_loop (Suc (length is)) g (pf = USER_POOL) s (v - PAGE_SIZE) = Ok () (s\<lparr>mem := m'\<rparr>)"
    using S(1,2) J(1) pa cmp by (simp add: ASSERT_def)
  moreover have "alloc_frame (mem s) m' p" using alloc_frame_trans [OF S(6) J(5) S(7,8)] .
  ultimately show ?case using J(2-4,6,7) S(4,7,8) by (intro exI [of _ m']) auto
qed

section \<open>The whole of pfree\<close>

text \<open>
  A run of \<open>n\<close> virtual pages from bit \<open>r\<close> on that is mapped to the pages \<open>is\<close> of the physical pool.
\<close>

definition pfree_ready :: "symbols \<Rightarrow> kstate \<Rightarrow> pool_flags \<Rightarrow> nat \<Rightarrow> nat list \<Rightarrow> u32 \<Rightarrow> nat \<Rightarrow> bool" where
  "pfree_ready g s pf r is b cap \<longleftrightarrow>
     (let m = mem s; pv = vaddr_pool g s pf; p = memory_pool_of g pf; n = length is;
          v = vaddr_start m pv + of_nat r * PAGE_SIZE; len = unat (bitmap_bytes_len m pv)
      in bitmap_wf m pv \<and> sep (bits m pv) len pv 12 \<and> r + n \<le> bm_size m pv \<and> r < 2 ^ 20
         \<and> 0 < len \<and> sep window 0x400000 (bits m pv) len \<and> sep window 0x400000 pv 12
         \<and> sep (bits m pv) len p 44 \<and> sep (bits m pv) len (bits m p) (unat (bitmap_bytes_len m p))
         \<and> sep (bits m p) (unat (bitmap_bytes_len m p)) pv 12
         \<and> pool_inv p b cap s \<and> pool_apart m p \<and> page_aligned b \<and> 0x102000 < unat b \<and> unat b + cap * 4096 \<le> 2 ^ 32
         \<and> pool_side g m pf b cap \<and> distinct is \<and> (\<forall>i \<in> set is. i < cap \<and> page_side pf i)
         \<and> page_aligned v \<and> vpn v + n \<le> 0xFFC00 \<and> run_mapped m v b is)"

lemma page_aligned_mod: "page_aligned v \<Longrightarrow> v mod PAGE_SIZE = 0"
proof -
  assume "page_aligned v"
  then have "v AND 0xFFF = 0" by (rule page_aligned_offset)
  moreover have "v mod PAGE_SIZE = take_bit 12 v" by (simp add: PAGE_SIZE_def take_bit_eq_mod)
  moreover have "take_bit 12 v = v AND 0xFFF" by (simp add: take_bit_eq_mask mask_eq_exp_minus_1)
  ultimately show ?thesis by simp
qed

lemma pfree_effect:
  assumes ready: "pfree_ready g s pf r is b cap" and n: "length is = unat cnt" and c: "cnt \<noteq> 0"
    and pv: "pv = vaddr_pool g s pf" and p: "p = memory_pool_of g pf"
    and v: "v = vaddr_start (mem s) pv + of_nat r * PAGE_SIZE"
  shows "\<exists>m'. pfree g s pf v cnt = Ok () (s\<lparr>mem := m'\<rparr>)
    \<and> pool_inv p b cap (s\<lparr>mem := m'\<rparr>) \<and> used_pages p (s\<lparr>mem := m'\<rparr>) = used_pages p s - set is
    \<and> (\<forall>i < unat cnt. ld32 m' (GetPTEPointer (v + of_nat i * PAGE_SIZE)) = 0)
    \<and> (\<forall>w. vpn w < vpn v \<or> vpn v + unat cnt \<le> vpn w \<longrightarrow> ld32 m' (GetPTEPointer w) = ld32 (mem s) (GetPTEPointer w))
    \<and> (\<forall>k < bm_size (mem s) pv. bm m' pv k = (bm (mem s) pv k \<and> \<not> (r \<le> k \<and> k < r + unat cnt)))
    \<and> eq_on m' (mem s) pv 12 \<and> eq_on m' (mem s) p 44 \<and> palloc_frame g s pf m'"
proof -
  let ?len = "unat (bitmap_bytes_len (mem s) pv)" and ?bs = "bits (mem s) pv" and ?n = "unat cnt"
  let ?blen = "unat (bitmap_bytes_len (mem s) p)" and ?b = "bits (mem s) p"
  note R = ready [unfolded pfree_ready_def Let_def, folded pv p, folded v, unfolded n]
  have wf: "bitmap_wf (mem s) pv" and sp: "sep ?bs ?len pv 12" and rn: "r + ?n \<le> bm_size (mem s) pv" "r < 2 ^ 20"
    and len: "0 < ?len" and w1: "sep window 0x400000 ?bs ?len" and w2: "sep window 0x400000 pv 12"
    and s1: "sep ?bs ?len p 44" and s2: "sep ?bs ?len ?b ?blen" and s3: "sep ?b ?blen pv 12"
    and pi: "pool_inv p b cap s" and pap: "pool_apart (mem s) p" and ba: "page_aligned b" "0x102000 < unat b"
    and b: "unat b + cap * 4096 \<le> 2 ^ 32" and side: "pool_side g (mem s) pf b cap" and d: "distinct is"
    and isp: "\<forall>i \<in> set is. i < cap \<and> page_side pf i" and va: "page_aligned v" and vb: "vpn v + ?n \<le> 0xFFC00"
    and rm: "run_mapped (mem s) v b is"
    using R by auto
  obtain i0 is' where i0: "is = i0 # is'" "i0 < cap" "page_side pf i0"
    using n c isp by (cases "is") (auto simp: unat_eq_0)
  have "vpn v + length is \<le> 0xFFC00" using vb n by simp
  from pfree_loop_ok [OF pi p side pap b ba(1) va this rm d isp] obtain m1 where L:
    "pfree_loop ?n g (pf = USER_POOL) s (v - PAGE_SIZE) = Ok () (s\<lparr>mem := m1\<rparr>)"
    "pool_inv p b cap (s\<lparr>mem := m1\<rparr>)" "used_pages p (s\<lparr>mem := m1\<rparr>) = used_pages p s - set is"
    "pool_apart m1 p" "alloc_frame (mem s) m1 p" "bits m1 p = ?b" "bitmap_bytes_len m1 p = bitmap_bytes_len (mem s) p"
    "\<forall>i < ?n. ld32 m1 (GetPTEPointer (v + of_nat i * PAGE_SIZE)) = 0"
    "\<forall>w. vpn w < vpn v \<or> vpn v + ?n \<le> vpn w \<longrightarrow> ld32 m1 (GetPTEPointer w) = ld32 (mem s) (GetPTEPointer w)"
    unfolding n by blast
  have e12: "eq_on m1 (mem s) pv 12" by (rule alloc_frame_eq_on [OF L(5) s3 w2])
  have e44: "eq_on m1 (mem s) p 44"
  proof (rule alloc_frame_eq_on [OF L(5)])
    show "sep ?b ?blen p 44" "sep window 0x400000 p 44" using pi pap by (simp_all add: pool_inv_def pool_ok_def pool_apart_def)
  qed
  have ebs: "eq_on m1 (mem s) ?bs ?len" by (rule alloc_frame_eq_on [OF L(5) sep_sym [OF s2] w1])
  have vs: "vaddr_start m1 pv = vaddr_start (mem s) pv"
    using eq_on_part [OF e12, of 8 4] by (simp add: vaddr_start_def ld32_cong)
  have e8: "eq_on (mem s) m1 pv 8" using eq_on_part [OF e12, of 0 8] by (simp add: eq_on_def)
  note F = bitmap_frame [OF e8, symmetric]
  have wf1: "bitmap_wf m1 pv" using wf F by (simp add: bitmap_wf_def)
  have sz: "bm_size m1 pv = bm_size (mem s) pv" by (simp add: bm_size_def F)
  have bm1: "bm m1 pv k = bm (mem s) pv k" if "k < bm_size (mem s) pv" for k
    using bm_frame [OF e8 _ that] ebs by (simp add: eq_on_def)
  have u: "unat (of_nat r :: u32) = r" using rn(2) by simp
  obtain m' where V: "set_bits ?n m1 pv (of_nat r) 0 = Ok () m'" "only_in m1 m' ?bs ?len"
    "\<forall>k < 2 ^ 32. bm m' pv k = (if r \<le> k \<and> k < r + ?n then (0::u8) = 1 else bm m1 pv k)"
    using set_bits_effect [OF wf1, of "of_nat r" ?n 0] rn sz u F by auto
  have ix: "(v - vaddr_start m1 pv) div PAGE_SIZE = of_nat r"
    using page_at_index [OF rn(2), of "vaddr_start (mem s) pv"] by (simp add: v vs page_at_def add.commute)
  have pv1: "vaddr_pool g (s\<lparr>mem := m1\<rparr>) pf = pv" by (simp add: pv vaddr_pool_def)
  have ret: "ReturnVirtualPage g (s\<lparr>mem := m1\<rparr>) pf v cnt = Ok () (s\<lparr>mem := m'\<rparr>)"
    unfolding ReturnVirtualPage_def Let_def pv1 using V(1) ix by simp
  have pa: "VirtualAddrToPhysicAddr (mem s) v = page_at b i0"
    using rm i0(1) by (force simp: run_mapped_def)
  have "cap \<le> 2 ^ 20" using pi by (simp add: pool_inv_def)
  then have "0x102000 < unat (page_at b i0)" using unat_page_at [OF i0(2) b] ba(2) by simp
  then have big: "page_at b i0 > 0x102000" by (simp add: word_less_nat_alt)
  have "page_at b i0 mod PAGE_SIZE = 0" using page_aligned_mod [OF page_aligned_add [OF ba(1)]] by (simp add: page_at_def)
  moreover have "1 \<le> cnt" using c by (simp add: word_le_nat_alt unat_gt_0 Suc_le_eq)
  ultimately have run: "pfree g s pf v cnt = Ok () (s\<lparr>mem := m'\<rparr>)"
    unfolding pfree_def using pa big page_aligned_mod [OF va] page_compare(2) [OF pi p side b i0(2,3)] L(1) ret
    by (simp add: ASSERT_def)
  have P: "pool_inv p b cap (s\<lparr>mem := m'\<rparr>)" "used_pages p (s\<lparr>mem := m'\<rparr>) = used_pages p s - set is"
    using pool_after_vpage [of p b cap "s\<lparr>mem := m1\<rparr>" ?len m' ?bs] L(2-4,6,7) len V(2) s1 s2 by simp_all
  have pte: "ld32 m' (GetPTEPointer w) = ld32 m1 (GetPTEPointer w)" for w
    by (rule b4.ld_frame [OF V(2) sep_sym [OF window_pte_sep [OF w1 len]]])
  have "bm m' pv k = (bm (mem s) pv k \<and> \<not> (r \<le> k \<and> k < r + ?n))" if "k < bm_size (mem s) pv" for k
    using V(3) [rule_format, of k] bm1 [OF that] that bm_size_bound [OF wf] by auto
  moreover have "eq_on m' (mem s) pv 12" using only_in_sep [OF V(2) sp] e12 by (simp add: eq_on_def)
  moreover have "eq_on m' (mem s) p 44" using only_in_sep [OF V(2) s1] e44 by (simp add: eq_on_def)
  moreover have "palloc_frame g s pf m'"
    using V(2) L(5) by (simp add: palloc_frame_def only_in_def alloc_frame_def pv p)
  ultimately show ?thesis using run P L(8,9) pte by (intro exI [of _ m']) simp
qed

section \<open>Allocation and release\<close>

text \<open>
  What makes an allocated run one that can be given back: the pool can be told from the other
  one, starts above the pages the kernel occupies, and the user's first page is not handed out.
\<close>

definition returnable :: "symbols \<Rightarrow> kstate \<Rightarrow> pool_flags \<Rightarrow> u32 \<Rightarrow> nat \<Rightarrow> bool" where
  "returnable g s pf b cap \<longleftrightarrow>
     (let m = mem s; pv = vaddr_pool g s pf
      in pool_side g m pf b cap \<and> 0x102000 < unat b \<and> bm_size m pv \<le> 2 ^ 20
         \<and> (pf = KERNEL_POOL \<longrightarrow> sep (bits m pv) (unat (bitmap_bytes_len m pv)) (user_memory_pool g) 44)
         \<and> (pf = USER_POOL \<longrightarrow> 0 \<in> used_pages (memory_pool_of g pf) s))"

text \<open>The objects the allocator reads keep their fields when only bitmaps and page tables change.\<close>

lemma palloc_fields:
  assumes ready: "palloc_ready g s pf n r b cap" and fr: "palloc_frame g s pf m'"
    and pv: "pv = vaddr_pool g s pf" and p: "p = memory_pool_of g pf"
  shows "eq_on m' (mem s) pv 12" "eq_on m' (mem s) p 44"
    "bits m' pv = bits (mem s) pv" "bitmap_bytes_len m' pv = bitmap_bytes_len (mem s) pv"
    "bits m' p = bits (mem s) p" "bitmap_bytes_len m' p = bitmap_bytes_len (mem s) p"
    "vaddr_start m' pv = vaddr_start (mem s) pv"
proof -
  note R = ready [unfolded palloc_ready_def Let_def, folded pv p]
  have "palloc_apart g s pf pv 12" "palloc_apart g s pf p 44"
    unfolding palloc_apart_def pv [symmetric] p [symmetric]
    using R by (auto simp: pool_apart_def pool_inv_def pool_ok_def)
  then show e: "eq_on m' (mem s) pv 12" "eq_on m' (mem s) p 44" by (auto intro: palloc_frame_eq_on [OF fr])
  have "eq_on (mem s) m' pv 8" "eq_on (mem s) m' p 8"
    using eq_on_part [OF e(1), of 0 8] eq_on_part [OF e(2), of 0 8] by (simp_all add: eq_on_def)
  from bitmap_frame [OF this(1)] bitmap_frame [OF this(2)]
  show "bits m' pv = bits (mem s) pv" "bitmap_bytes_len m' pv = bitmap_bytes_len (mem s) pv"
    "bits m' p = bits (mem s) p" "bitmap_bytes_len m' p = bitmap_bytes_len (mem s) p" by simp_all
  show "vaddr_start m' pv = vaddr_start (mem s) pv"
    using eq_on_part [OF e(1), of 8 4] by (simp add: vaddr_start_def ld32_cong)
qed

lemma pool_side_frame:
  assumes "pool_side g (mem s) pf b cap" "palloc_frame g s pf m'" "palloc_ready g s pf n r b' cap'"
    and "pf = KERNEL_POOL \<longrightarrow> sep (bits (mem s) (vaddr_pool g s pf)) (unat (bitmap_bytes_len (mem s) (vaddr_pool g s pf))) (user_memory_pool g) 44"
  shows "pool_side g m' pf b cap"
  unfolding pool_side_def
proof (intro impI)
  assume k: "pf = KERNEL_POOL"
  then have kp: "kernel_memory_pool g = memory_pool_of g pf" by (simp add: memory_pool_of_def)
  note S = assms(1) [unfolded pool_side_def, rule_format, OF k]
  have "palloc_apart g s pf (user_memory_pool g) 44" using S assms(4) k kp by (simp add: palloc_apart_def)
  from eq_on_part [OF palloc_frame_eq_on [OF assms(2) this], of 8 4]
  have "physic_addr_start m' (user_memory_pool g) = physic_addr_start (mem s) (user_memory_pool g)"
    by (simp add: physic_addr_start_def ld32_cong)
  with S palloc_fields(5,6) [OF assms(3,2) refl refl, folded kp]
  show "unat b + cap * 4096 \<le> unat (physic_addr_start m' (user_memory_pool g))
    \<and> sep (bits m' (kernel_memory_pool g)) (unat (bitmap_bytes_len m' (kernel_memory_pool g))) (user_memory_pool g) 44
    \<and> sep window 0x400000 (user_memory_pool g) 44"
    by simp
qed

lemma palloc_then_pfree:
  assumes ready: "palloc_ready g s pf (unat cnt) r b cap" and c: "cnt \<noteq> 0" "cnt < 3840" and ret: "returnable g s pf b cap"
    and pv: "pv = vaddr_pool g s pf" and p: "p = memory_pool_of g pf"
    and v: "v = vaddr_start (mem s) pv + of_nat r * PAGE_SIZE"
  obtains "is" m' where "palloc g s pf cnt = Ok v (s\<lparr>mem := m'\<rparr>)" "length is = unat cnt"
    "pfree_ready g (s\<lparr>mem := m'\<rparr>) pf r is b cap" "set is \<inter> used_pages p s = {}"
    "used_pages p (s\<lparr>mem := m'\<rparr>) = used_pages p s \<union> set is"
    "\<forall>k < bm_size (mem s) pv. bm m' pv k = (r \<le> k \<and> k < r + unat cnt \<or> bm (mem s) pv k)"
    "palloc_frame g s pf m'"
    "\<forall>w. vpn w < vpn v \<or> vpn v + unat cnt \<le> vpn w \<longrightarrow> ld32 m' (GetPTEPointer w) = ld32 (mem s) (GetPTEPointer w)"
proof -
  obtain "is" m' where A: "palloc g s pf cnt = Ok v (s\<lparr>mem := m'\<rparr>)" "length is = unat cnt" "distinct is"
    "set is \<inter> used_pages p s = {}" "set is \<subseteq> {..<cap}" "pool_inv p b cap (s\<lparr>mem := m'\<rparr>)"
    "used_pages p (s\<lparr>mem := m'\<rparr>) = used_pages p s \<union> set is"
    "\<forall>i < unat cnt. VirtualAddrToPhysicAddr m' (v + of_nat i * PAGE_SIZE) = page_at b (is ! i)"
    "\<forall>k < bm_size (mem s) pv. bm m' pv k = (r \<le> k \<and> k < r + unat cnt \<or> bm (mem s) pv k)"
    "palloc_frame g s pf m'"
    "\<forall>w. vpn w < vpn v \<or> vpn v + unat cnt \<le> vpn w \<longrightarrow> ld32 m' (GetPTEPointer w) = ld32 (mem s) (GetPTEPointer w)"
    using palloc_effect [OF ready c pv p v] by blast
  note R = ready [unfolded palloc_ready_def Let_def, folded pv p, folded v]
  note T = ret [unfolded returnable_def Let_def, folded pv p]
  note F = palloc_fields [OF ready A(10) pv p]
  have pv': "vaddr_pool g (s\<lparr>mem := m'\<rparr>) pf = pv" by (simp add: pv vaddr_pool_def)
  have side: "pool_side g m' pf b cap" using pool_side_frame [OF _ A(10) ready] T pv by auto
  have rn: "r + unat cnt \<le> bm_size (mem s) pv"
    using BitmapScan_finds(2) [of "mem s" pv cnt r] R c(1) by auto
  have "0 < unat cnt" using c(1) by (simp add: unat_gt_0)
  then have "r < 2 ^ 20" using rn T by simp
  moreover have "page_side pf i" if "i \<in> set is" for i using T A(4) that by (auto simp: page_side_def)
  ultimately have "pfree_ready g (s\<lparr>mem := m'\<rparr>) pf r is b cap"
    unfolding pfree_ready_def Let_def pv' p [symmetric]
    using R T F A(2,3,5,6,8) side rn
    by (auto simp: bm_size_def bitmap_wf_def pool_apart_def v run_mapped_def)
  with A that show thesis by blast
qed

text \<open>After the release the run is as ready to be allocated as before.\<close>

lemma ready_again:
  assumes ready: "palloc_ready g s pf n r b cap" and pv: "pv = vaddr_pool g s pf" and p: "p = memory_pool_of g pf"
    and v: "v = vaddr_start (mem s) pv + of_nat r * PAGE_SIZE"
    and F: "bits m' pv = bits (mem s) pv" "bitmap_bytes_len m' pv = bitmap_bytes_len (mem s) pv"
      "bits m' p = bits (mem s) p" "bitmap_bytes_len m' p = bitmap_bytes_len (mem s) p"
      "vaddr_start m' pv = vaddr_start (mem s) pv"
    and inv: "pool_inv p b cap (s\<lparr>mem := m'\<rparr>)" and up: "used_pages p (s\<lparr>mem := m'\<rparr>) = used_pages p s"
    and bm: "\<forall>k < bm_size (mem s) pv. bm m' pv k = bm (mem s) pv k"
    and pte: "\<forall>w. vpn w < vpn v \<or> vpn v + n \<le> vpn w \<longrightarrow> ld32 m' (GetPTEPointer w) = ld32 (mem s) (GetPTEPointer w)"
    and gone: "\<forall>i < n. ld32 m' (GetPTEPointer (v + of_nat i * PAGE_SIZE)) = 0"
  shows "palloc_ready g (s\<lparr>mem := m'\<rparr>) pf n r b cap"
proof -
  note R = ready [unfolded palloc_ready_def Let_def, folded pv p, folded v]
  have pv': "vaddr_pool g (s\<lparr>mem := m'\<rparr>) pf = pv" by (simp add: pv vaddr_pool_def)
  have sz: "bm_size m' pv = bm_size (mem s) pv" by (simp add: bm_size_def F)
  have "first_run (bm m' pv) n (bm_size (mem s) pv) = first_run (bm (mem s) pv) n (bm_size (mem s) pv)"
    using bm by (intro first_run_cong) simp
  moreover have "heap_ready m' v n"
    unfolding heap_ready_def
  proof (intro allI impI)
    fix i assume i: "i < n"
    let ?u = "v + of_nat i * PAGE_SIZE"
    have "vpn v + n \<le> 0xFFC00" using R by simp
    then have "ld32 m' (GetPDEPointer ?u) = ld32 (mem s) (GetPDEPointer ?u)"
      using pte vpn_window [of ?u] by (simp add: GetPDEPointer_PTE)
    moreover have "table_present (mem s) ?u" using R i by (simp add: heap_ready_def)
    ultimately show "table_present m' ?u \<and> page_absent m' ?u" using gone i by (simp add: table_present_def page_absent_def)
  qed
  ultimately show ?thesis
    unfolding palloc_ready_def Let_def pv' p [symmetric]
    using R F inv up by (simp add: sz bitmap_wf_def pool_apart_def v)
qed

section \<open>Properties\<close>

text \<open>C31. \<open>pfree\<close> undoes \<open>palloc\<close>. When \<open>palloc\<close> can allocate a run of \<open>n\<close> pages, and the pages can be returned,
  then \<open>palloc\<close> returns an address at which \<open>pfree\<close> succeeds, and after it the same physical and virtual
  pages are in use as at the beginning, no page of the run is mapped, no other entry of the page
  tables has changed, and \<open>palloc\<close> would allocate the same run again.\<close>

theorem palloc_pfree_roundtrip:
  assumes "palloc_ready g s pf (unat cnt) r b cap" "cnt \<noteq> 0" "cnt < 3840" "returnable g s pf b cap"
  defines "pv \<equiv> vaddr_pool g s pf" and "p \<equiv> memory_pool_of g pf"
  shows "\<exists>v m1 m2. palloc g s pf cnt = Ok v (s\<lparr>mem := m1\<rparr>) \<and> pfree g (s\<lparr>mem := m1\<rparr>) pf v cnt = Ok () (s\<lparr>mem := m2\<rparr>)
    \<and> used_pages p (s\<lparr>mem := m2\<rparr>) = used_pages p s \<and> (\<forall>k < bm_size (mem s) pv. bm m2 pv k = bm (mem s) pv k)
    \<and> (\<forall>i < unat cnt. page_absent m2 (v + of_nat i * PAGE_SIZE))
    \<and> (\<forall>w. vpn w < vpn v \<or> vpn v + unat cnt \<le> vpn w \<longrightarrow> ld32 m2 (GetPTEPointer w) = ld32 (mem s) (GetPTEPointer w))
    \<and> palloc_ready g (s\<lparr>mem := m2\<rparr>) pf (unat cnt) r b cap"
proof -
  define v where "v = vaddr_start (mem s) pv + of_nat r * PAGE_SIZE"
  obtain "is" m1 where A: "palloc g s pf cnt = Ok v (s\<lparr>mem := m1\<rparr>)" "length is = unat cnt"
    "pfree_ready g (s\<lparr>mem := m1\<rparr>) pf r is b cap" "set is \<inter> used_pages p s = {}"
    "used_pages p (s\<lparr>mem := m1\<rparr>) = used_pages p s \<union> set is"
    "\<forall>k < bm_size (mem s) pv. bm m1 pv k = (r \<le> k \<and> k < r + unat cnt \<or> bm (mem s) pv k)"
    "palloc_frame g s pf m1"
    "\<forall>w. vpn w < vpn v \<or> vpn v + unat cnt \<le> vpn w \<longrightarrow> ld32 m1 (GetPTEPointer w) = ld32 (mem s) (GetPTEPointer w)"
    by (rule palloc_then_pfree [OF assms(1-4) pv_def [THEN meta_eq_to_obj_eq] p_def [THEN meta_eq_to_obj_eq] v_def])
  note F = palloc_fields [OF assms(1) A(7) pv_def [THEN meta_eq_to_obj_eq] p_def [THEN meta_eq_to_obj_eq]]
  have pv1: "vaddr_pool g (s\<lparr>mem := m1\<rparr>) pf = pv" by (simp add: pv_def vaddr_pool_def)
  have sz: "bm_size m1 pv = bm_size (mem s) pv" by (simp add: bm_size_def F)
  obtain m2 where B: "pfree g (s\<lparr>mem := m1\<rparr>) pf v cnt = Ok () (s\<lparr>mem := m2\<rparr>)" "pool_inv p b cap (s\<lparr>mem := m2\<rparr>)"
    "used_pages p (s\<lparr>mem := m2\<rparr>) = used_pages p (s\<lparr>mem := m1\<rparr>) - set is"
    "\<forall>i < unat cnt. ld32 m2 (GetPTEPointer (v + of_nat i * PAGE_SIZE)) = 0"
    "\<forall>w. vpn w < vpn v \<or> vpn v + unat cnt \<le> vpn w \<longrightarrow> ld32 m2 (GetPTEPointer w) = ld32 m1 (GetPTEPointer w)"
    "\<forall>k < bm_size (mem s) pv. bm m2 pv k = (bm m1 pv k \<and> \<not> (r \<le> k \<and> k < r + unat cnt))"
    "palloc_frame g (s\<lparr>mem := m1\<rparr>) pf m2"
    using pfree_effect [OF A(3,2) assms(2) pv1 [symmetric] p_def [THEN meta_eq_to_obj_eq], of v] F(7) v_def sz by auto
  have up: "used_pages p (s\<lparr>mem := m2\<rparr>) = used_pages p s" using B(3) A(4,5) by auto
  have "first_run (bm (mem s) pv) (unat cnt) (bm_size (mem s) pv) = Some r"
    using assms(1) by (simp add: palloc_ready_def Let_def pv_def)
  then have rf: "\<not> bm (mem s) pv k" if "r \<le> k" "k < r + unat cnt" for k
    using that unfolding first_run_Some run_free_def by (metis add_less_cancel_left le_add_diff_inverse)
  have bm: "\<forall>k < bm_size (mem s) pv. bm m2 pv k = bm (mem s) pv k" using B(6) A(6) rf by auto
  have pte: "\<forall>w. vpn w < vpn v \<or> vpn v + unat cnt \<le> vpn w \<longrightarrow> ld32 m2 (GetPTEPointer w) = ld32 (mem s) (GetPTEPointer w)"
    using B(5) A(8) by simp
  have "palloc_frame g s pf m2"
    using A(7) B(7) F(3-6) unfolding palloc_frame_def pv1 pv_def [symmetric] p_def [symmetric] by simp
  note F2 = palloc_fields [OF assms(1) this pv_def [THEN meta_eq_to_obj_eq] p_def [THEN meta_eq_to_obj_eq]]
  from ready_again [OF assms(1) pv_def [THEN meta_eq_to_obj_eq] p_def [THEN meta_eq_to_obj_eq] v_def F2(3-7) B(2) up bm pte B(4)]
  show ?thesis using A(1) B(1,4) up bm pte by (intro exI [of _ v] exI [of _ m1] exI [of _ m2]) (simp add: page_absent_def)
qed

text \<open>The demonstration pools with a free lock and a size, and the user pool's pages after the kernel's.\<close>

definition demo_two_pools :: mem where
  "demo_two_pools = st32 (st32 (st8 (st32 demo_pools 0x110C 0x8000) 0x1114 1) 0x111C 0x1120) 0x1208 0x208000"

definition demo_two_pools_state :: kstate where
  "demo_two_pools_state = demo_heap_state demo_two_pools"

lemma demo_two_pools_ready:
  "palloc_ready demo_symbols demo_two_pools_state KERNEL_POOL 2 0 0x200000 8"
  "returnable demo_symbols demo_two_pools_state KERNEL_POOL 0x200000 8"
proof -
  have g: "vaddr_pool demo_symbols demo_two_pools_state KERNEL_POOL = 0x1300" "memory_pool_of demo_symbols KERNEL_POOL = 0x1100"
    "kernel_memory_pool demo_symbols = 0x1100" "user_memory_pool demo_symbols = 0x1200"
    by (simp_all add: vaddr_pool_def memory_pool_of_def demo_symbols_def)
  have m: "mem demo_two_pools_state = demo_two_pools" by (simp add: demo_two_pools_state_def demo_heap_state_def)
  have W: "bitmap_bytes_len demo_two_pools 0x1100 = 1" "bits demo_two_pools 0x1100 = 0xC009A000"
    "physic_addr_start demo_two_pools 0x1100 = 0x200000" "physic_addr_start demo_two_pools 0x1200 = 0x208000"
    "bitmap_bytes_len demo_two_pools 0x1300 = 1" "bits demo_two_pools 0x1300 = 0xC009A001"
    "vaddr_start demo_two_pools 0x1300 = 0xC0100000"
    by (simp_all add: demo_two_pools_def demo_pools_def bitmap_bytes_len_def bits_def physic_addr_start_def vaddr_start_def sep_def)
  have B: "\<not> bm demo_two_pools 0x1100 j" "\<not> bm demo_two_pools 0x1300 j" if "j < 8" for j
    using that by (simp_all add: bm_def W) (simp_all add: demo_two_pools_def demo_pools_def sep_def)
  have fr: "first_run (bm demo_two_pools 0x1300) 2 (bm_size demo_two_pools 0x1300) = Some 0"
    using B(2) by (simp add: first_run_Some run_free_def bm_size_def W)
  have up: "used_pages 0x1100 demo_two_pools_state = {}" using B(1) by (auto simp: used_pages_def m bm_size_def W)
  have "table_present demo_two_pools (0xC0100000 + of_nat i * PAGE_SIZE) \<and> page_absent demo_two_pools (0xC0100000 + of_nat i * PAGE_SIZE)"
    if "i < 2" for i
    using that by (auto simp: less_2_cases_iff table_present_def page_absent_def GetPDEPointer_def GetPTEPointer_def
        PDE_IDX_def PTE_IDX_def PAGE_SIZE_def PAGE_P_1_def demo_two_pools_def demo_pools_def sep_def)
  then have hr: "heap_ready demo_two_pools 0xC0100000 2" by (simp add: heap_ready_def)
  show "palloc_ready demo_symbols demo_two_pools_state KERNEL_POOL 2 0 0x200000 8"
    unfolding palloc_ready_def Let_def g m
    using fr hr up
    by (simp add: W bitmap_wf_def sep_def pool_inv_def pool_ok_def bm_size_def m pool_apart_def page_aligned_def PAGE_MASK_def vpn_def)
  show "returnable demo_symbols demo_two_pools_state KERNEL_POOL 0x200000 8"
    unfolding returnable_def Let_def g m by (simp add: pool_side_def g W bm_size_def sep_def)
qed

theorem palloc_pfree_roundtrip_witness:
  "\<exists>v m1 m2. palloc demo_symbols demo_two_pools_state KERNEL_POOL 2 = Ok v (demo_two_pools_state\<lparr>mem := m1\<rparr>)
    \<and> pfree demo_symbols (demo_two_pools_state\<lparr>mem := m1\<rparr>) KERNEL_POOL v 2 = Ok () (demo_two_pools_state\<lparr>mem := m2\<rparr>)"
  using palloc_pfree_roundtrip [of demo_symbols demo_two_pools_state KERNEL_POOL 2 0 "0x200000" 8] demo_two_pools_ready by auto

end
