(* ===== verification/HeapPages.thy ===== *)
theory HeapPages
  imports PageFree
begin

text \<open>
  Requests above 1024 bytes (\<open>sys_malloc\<close> and \<open>sys_free\<close> of \<open>kernel/memory.c\<close>): whole pages with an arena header
  in front, taken from the page allocator and given back to it, under the lock of the pool.
\<close>

section \<open>What the page allocator reads\<close>

text \<open>
  The objects the page allocator reads of the pool \<open>pf\<close>: the two descriptors, the two bitmaps, the
  page-table window, and for the kernel pool the start of the user pool.
\<close>

definition meta_same :: "symbols \<Rightarrow> kstate \<Rightarrow> pool_flags \<Rightarrow> mem \<Rightarrow> bool" where
  "meta_same g s pf m' \<longleftrightarrow>
     (let m = mem s; pv = vaddr_pool g s pf; p = memory_pool_of g pf
      in eq_on m' m pv 12 \<and> eq_on m' m p 16 \<and> eq_on m' m (bits m pv) (unat (bitmap_bytes_len m pv))
         \<and> eq_on m' m (bits m p) (unat (bitmap_bytes_len m p)) \<and> eq_on m' m window 0x400000
         \<and> (pf = KERNEL_POOL \<longrightarrow> eq_on m' m (user_memory_pool g) 12))"

definition meta_apart :: "symbols \<Rightarrow> kstate \<Rightarrow> pool_flags \<Rightarrow> addr \<Rightarrow> nat \<Rightarrow> bool" where
  "meta_apart g s pf x k \<longleftrightarrow> palloc_apart g s pf x k \<and> sep (vaddr_pool g s pf) 12 x k
     \<and> sep (memory_pool_of g pf) 16 x k \<and> (pf = KERNEL_POOL \<longrightarrow> sep (user_memory_pool g) 12 x k)"

lemma meta_apart_same: "meta_apart g s pf x k \<Longrightarrow> only_in (mem s) m' x k \<Longrightarrow> meta_same g s pf m'"
  unfolding meta_apart_def palloc_apart_def meta_same_def Let_def by (auto intro: only_in_sep sep_sym)

lemma meta_apart_part:
  "meta_apart g s pf x k \<Longrightarrow> unat i + k' \<le> k \<Longrightarrow> 0 < k' \<Longrightarrow>
   0 < unat (bitmap_bytes_len (mem s) (vaddr_pool g s pf)) \<Longrightarrow> 0 < unat (bitmap_bytes_len (mem s) (memory_pool_of g pf)) \<Longrightarrow>
   meta_apart g s pf (x + i) k'"
  unfolding meta_apart_def palloc_apart_def by (auto intro: sep_offset_right)

lemma meta_fields:
  assumes "meta_same g s pf m'" and pv: "pv = vaddr_pool g s pf" and p: "p = memory_pool_of g pf"
  shows "bits m' pv = bits (mem s) pv" "bitmap_bytes_len m' pv = bitmap_bytes_len (mem s) pv"
    "bits m' p = bits (mem s) p" "bitmap_bytes_len m' p = bitmap_bytes_len (mem s) p"
    "vaddr_start m' pv = vaddr_start (mem s) pv" "physic_addr_start m' p = physic_addr_start (mem s) p"
    "pf = KERNEL_POOL \<Longrightarrow> physic_addr_start m' (user_memory_pool g) = physic_addr_start (mem s) (user_memory_pool g)"
    "ld32 m' (GetPTEPointer w) = ld32 (mem s) (GetPTEPointer w)"
    "k < bm_size (mem s) pv \<Longrightarrow> bm m' pv k = bm (mem s) pv k" "k < bm_size (mem s) p \<Longrightarrow> bm m' p k = bm (mem s) p k"
    "bm_size m' pv = bm_size (mem s) pv" "bm_size m' p = bm_size (mem s) p"
proof -
  note E = assms(1) [unfolded meta_same_def Let_def, folded pv p]
  have e8: "eq_on (mem s) m' pv 8" "eq_on (mem s) m' p 8"
    using E eq_on_part [of m' "mem s" pv 12 0 8] eq_on_part [of m' "mem s" p 16 0 8] by (auto simp: eq_on_def)
  note F = bitmap_frame [OF e8(1)] bitmap_frame [OF e8(2)]
  show "bits m' pv = bits (mem s) pv" "bitmap_bytes_len m' pv = bitmap_bytes_len (mem s) pv"
    "bits m' p = bits (mem s) p" "bitmap_bytes_len m' p = bitmap_bytes_len (mem s) p" using F by simp_all
  then show "bm_size m' pv = bm_size (mem s) pv" "bm_size m' p = bm_size (mem s) p" by (simp_all add: bm_size_def)
  have w: "ld32 m' (x + 8) = ld32 (mem s) (x + 8)" if "eq_on m' (mem s) x n" "12 \<le> n" for x n
    by (rule ld32_cong [OF eq_on_part [OF that(1)]]) (use that(2) in simp)
  show "vaddr_start m' pv = vaddr_start (mem s) pv" "physic_addr_start m' p = physic_addr_start (mem s) p"
    using E w by (auto simp: vaddr_start_def physic_addr_start_def)
  show "physic_addr_start m' (user_memory_pool g) = physic_addr_start (mem s) (user_memory_pool g)" if "pf = KERNEL_POOL"
    using E w that by (auto simp: physic_addr_start_def)
  have "unat (of_nat (4 * vpn w) :: u32) = 4 * vpn w" using vpn_bound [of w] by (intro unat_of_nat_u32) simp
  then show "ld32 m' (GetPTEPointer w) = ld32 (mem s) (GetPTEPointer w)"
    unfolding GetPTEPointer_vpn using E vpn_bound [of w] by (intro ld32_cong [OF eq_on_part]) auto
  have eb: "eq_on (mem s) m' (bits (mem s) pv) (unat (bitmap_bytes_len (mem s) pv))"
    "eq_on (mem s) m' (bits (mem s) p) (unat (bitmap_bytes_len (mem s) p))" using E by (auto simp: eq_on_def)
  show "bm m' pv k = bm (mem s) pv k" if "k < bm_size (mem s) pv" using bm_frame [OF e8(1) eb(1) that] by simp
  show "bm m' p k = bm (mem s) p k" if "k < bm_size (mem s) p" using bm_frame [OF e8(2) eb(2) that] by simp
qed

lemma vaddr_pool_mem [simp]: "vaddr_pool g (s\<lparr>mem := m\<rparr>) pf = vaddr_pool g s pf"
  by (simp add: vaddr_pool_def)

text \<open>Everything the theorems say of the allocator depends on these objects alone.\<close>

lemma meta_views:
  assumes S: "meta_same g s pf m'"
  shows "used_pages (memory_pool_of g pf) (s\<lparr>mem := m'\<rparr>) = used_pages (memory_pool_of g pf) s"
    "pool_inv (memory_pool_of g pf) b cap (s\<lparr>mem := m'\<rparr>) = pool_inv (memory_pool_of g pf) b cap s"
    "pool_side g m' pf b cap = pool_side g (mem s) pf b cap"
    "palloc_apart g (s\<lparr>mem := m'\<rparr>) pf x k = palloc_apart g s pf x k"
    "meta_apart g (s\<lparr>mem := m'\<rparr>) pf x k = meta_apart g s pf x k"
    "pfree_ready g (s\<lparr>mem := m'\<rparr>) pf r is b cap = pfree_ready g s pf r is b cap"
    "palloc_ready g (s\<lparr>mem := m'\<rparr>) pf n r b cap = palloc_ready g s pf n r b cap"
    "returnable g (s\<lparr>mem := m'\<rparr>) pf b cap = returnable g s pf b cap"
proof -
  note F = meta_fields [OF S refl refl]
  show U: "used_pages (memory_pool_of g pf) (s\<lparr>mem := m'\<rparr>) = used_pages (memory_pool_of g pf) s"
    using F(10,12) by (auto simp: used_pages_def)
  show I: "pool_inv (memory_pool_of g pf) b cap (s\<lparr>mem := m'\<rparr>) = pool_inv (memory_pool_of g pf) b cap s"
    by (simp add: pool_inv_def pool_ok_def bitmap_wf_def F(3,4,6,12))
  show D: "pool_side g m' pf b cap = pool_side g (mem s) pf b cap"
    using F(3,4,7) by (auto simp: pool_side_def memory_pool_of_def)
  show A: "palloc_apart g (s\<lparr>mem := m'\<rparr>) pf x k = palloc_apart g s pf x k" by (simp add: palloc_apart_def F(1-4))
  then show "meta_apart g (s\<lparr>mem := m'\<rparr>) pf x k = meta_apart g s pf x k" by (simp add: meta_apart_def)
  have R: "run_mapped m' v b is = run_mapped (mem s) v b is" for v
    by (simp add: run_mapped_def translate_cong [OF F(8)])
  show "pfree_ready g (s\<lparr>mem := m'\<rparr>) pf r is b cap = pfree_ready g s pf r is b cap"
    by (simp add: pfree_ready_def Let_def F(1-5,11) I D R bitmap_wf_def pool_apart_def)
  have H: "heap_ready m' v n = heap_ready (mem s) v n" for v
    by (simp add: heap_ready_def table_present_def page_absent_def GetPDEPointer_PTE F(8))
  have "first_run (bm m' (vaddr_pool g s pf)) n (bm_size (mem s) (vaddr_pool g s pf))
      = first_run (bm (mem s) (vaddr_pool g s pf)) n (bm_size (mem s) (vaddr_pool g s pf))"
    by (rule first_run_cong) (rule F(9))
  then show "palloc_ready g (s\<lparr>mem := m'\<rparr>) pf n r b cap = palloc_ready g s pf n r b cap"
    by (simp add: palloc_ready_def Let_def F(1-5,11) I U H bitmap_wf_def pool_apart_def)
  show "returnable g (s\<lparr>mem := m'\<rparr>) pf b cap = returnable g s pf b cap"
    using F(1,2,11) U D unfolding returnable_def Let_def by (cases pf) simp_all
qed

section \<open>Allocation\<close>

text \<open>What a request for \<open>n\<close> pages at \<open>v\<close> needs, besides what \<open>palloc\<close> and \<open>pfree\<close> need.\<close>

definition large_layout :: "symbols \<Rightarrow> kstate \<Rightarrow> pool_flags \<Rightarrow> addr \<Rightarrow> nat \<Rightarrow> bool" where
  "large_layout g s pf v n \<longleftrightarrow>
     (let l = pool_lock (memory_pool_of g pf); f = PDE_field s
      in lock_free s l \<and> meta_apart g s pf l 28 \<and> meta_apart g s pf v (n * 4096) \<and> palloc_apart g s pf f 4
         \<and> sep l 28 f 4 \<and> sep v (n * 4096) l 28 \<and> sep v (n * 4096) f 4)"

definition large_body :: "symbols \<Rightarrow> pool_flags \<Rightarrow> u32 \<Rightarrow> kstate \<Rightarrow> (kstate, addr) outcome" where
  "large_body g pf n s =
     obind (palloc g s pf n) (\<lambda>av s1.
       if av \<noteq> NULL
       then obind (on_mem s1 (memset (mem s1) av 0 (n * PAGE_SIZE))) (\<lambda>_ s2.
              Ok (av + 12) (put32 (put32 (put32 s2 av NULL) (av + 4) n) (av + 8) 1))
       else Ok NULL s1)"

lemma malloc_pages_body:
  "malloc_pages g s pf request =
     obind (large_body g pf (DIV_ROUND_UP (request + sizeof_arena) PAGE_SIZE) s)
       (\<lambda>r s1. obind (sys_lock_unlock g s1 (pool_lock (memory_pool_of g pf))) (\<lambda>_ s2. Ok r s2))"
  by (simp add: malloc_pages_def large_body_def Let_def obind_assoc sizeof_arena_def cong: if_cong)
     (rule arg_cong [of _ _ "obind _"], auto simp: fun_eq_iff obind_assoc)

definition large_header :: "mem \<Rightarrow> addr \<Rightarrow> u32 \<Rightarrow> bool" where
  "large_header m av n \<longleftrightarrow> arena_desc_of m av = NULL \<and> arena_cnt m av = n \<and> large_request m av = 1"

lemma large_store:
  fixes m :: mem and v :: addr
  assumes n: "0 < n" "unat n * 4096 < 2 ^ 32"
  defines "m' \<equiv> st32 (st32 (st32 (memset_loop (unat n * 4096) m v 0) v 0) (v + 4) n) (v + 8) 1"
  shows "only_in m m' v (unat n * 4096)" "large_header m' v n" "zeroed m' (v + 12) (unat n * 4096 - 12)"
proof -
  let ?k = "unat n * 4096" and ?z = "memset_loop (unat n * 4096) m v 0"
  have k: "12 \<le> ?k" using n(1) by (simp add: word_less_nat_alt)
  have z: "only_in m ?z v ?k" using n(2) by (intro memset_loop_only_in) simp
  have f: "only_in q (st32 q (v + off) x) v 12" if "unat off + 4 \<le> 12" for q off x
    by (rule only_in_part [OF only_in_st32 that])
  have h: "only_in ?z m' v 12"
    unfolding m'_def using only_in_trans [OF only_in_trans [OF f [of 0 ?z 0] f [of 4 _ n]] f [of 8 _ 1]] by simp
  then have "only_in ?z m' v ?k" using only_in_part [of ?z m' v 0 12 ?k] k by simp
  then show "only_in m m' v ?k" by (rule only_in_trans [OF z])
  show "large_header m' v n"
    by (simp add: large_header_def m'_def arena_desc_of_def arena_cnt_def large_request_def)
  have sp: "sep (v + 12) (?k - 12) v 12" using n(2) k by (simp add: sep_def)
  show "zeroed m' (v + 12) (?k - 12)"
    unfolding zeroed_def
  proof (intro allI impI)
    fix y assume y: "inr y (v + 12) (?k - 12)"
    then have "inr y v ?k" "\<not> inr y v 12" using inr_part [OF y] sep_disjoint [OF sp y] k by simp_all
    then show "m' y = 0" using h n(2) by (simp add: only_in_def memset_loop_byte)
  qed
qed

text \<open>The state after a large request, relative to the state \<open>s\<close> before it.\<close>

definition large_state :: "symbols \<Rightarrow> kstate \<Rightarrow> pool_flags \<Rightarrow> u32 \<Rightarrow> nat \<Rightarrow> u32 \<Rightarrow> nat \<Rightarrow> addr \<Rightarrow> nat list \<Rightarrow> mem \<Rightarrow> bool" where
  "large_state g s pf n r b cap v is m' \<longleftrightarrow>
     (let p = memory_pool_of g pf; pv = vaddr_pool g s pf; t = s\<lparr>mem := m'\<rparr>
      in length is = unat n \<and> pfree_ready g t pf r is b cap \<and> set is \<inter> used_pages p s = {}
         \<and> used_pages p t = used_pages p s \<union> set is
         \<and> (\<forall>k < bm_size (mem s) pv. bm m' pv k = (r \<le> k \<and> k < r + unat n \<or> bm (mem s) pv k))
         \<and> (\<forall>w. vpn w < vpn v \<or> vpn v + unat n \<le> vpn w \<longrightarrow> ld32 m' (GetPTEPointer w) = ld32 (mem s) (GetPTEPointer w))
         \<and> bits m' pv = bits (mem s) pv \<and> bitmap_bytes_len m' pv = bitmap_bytes_len (mem s) pv
         \<and> bits m' p = bits (mem s) p \<and> bitmap_bytes_len m' p = bitmap_bytes_len (mem s) p
         \<and> vaddr_start m' pv = vaddr_start (mem s) pv
         \<and> large_header m' v n \<and> zeroed m' (v + 12) (unat n * 4096 - 12) \<and> eq_on m' (mem s) (PDE_field s) 4)"

lemma large_header_cong: "eq_on m' m v 12 \<Longrightarrow> large_header m' v n = large_header m v n"
  using ld32_cong [OF eq_on_part [of m' m v 12 0 4]] ld32_cong [OF eq_on_part [of m' m v 12 4 4]]
    ld32_cong [OF eq_on_part [of m' m v 12 8 4]]
  by (simp add: large_header_def arena_desc_of_def arena_cnt_def large_request_def)

lemma zeroed_part: "zeroed m a n \<Longrightarrow> unat i + k \<le> n \<Longrightarrow> zeroed m (a + i) k"
  using inr_part by (auto simp: zeroed_def)

lemma large_state_cong:
  assumes st: "large_state g s pf n r b cap v is m" and same: "meta_same g (s\<lparr>mem := m\<rparr>) pf m'"
    and e: "eq_on m' m v (unat n * 4096)" "eq_on m' m (PDE_field s) 4" and n: "0 < n"
  shows "large_state g s pf n r b cap v is m'"
proof -
  note V = meta_views [OF same] and F = meta_fields [OF same refl refl]
  have k: "12 \<le> unat n * 4096" using n by (simp add: word_less_nat_alt)
  have "large_header m' v n = large_header m v n"
    using large_header_cong eq_on_part [OF e(1), of 0 12] k by simp
  moreover have "eq_on m' m (v + 12) (unat n * 4096 - 12)" using k by (intro eq_on_part [OF e(1)]) simp
  moreover have "bm_size m (vaddr_pool g s pf) = bm_size (mem s) (vaddr_pool g s pf)"
    using st by (simp add: large_state_def Let_def bm_size_def)
  ultimately show ?thesis
    using st V(1,6) F e(2) eq_on_zeroed unfolding large_state_def Let_def by (auto simp: eq_on_def)
qed

lemma large_body_effect:
  assumes ready: "palloc_ready g s pf (unat n) r b cap" and n: "n \<noteq> 0" "n < 3840" and ret: "returnable g s pf b cap"
    and v: "v = vaddr_start (mem s) (vaddr_pool g s pf) + of_nat r * PAGE_SIZE"
    and ap: "meta_apart g s pf v (unat n * 4096)" "palloc_apart g s pf (PDE_field s) 4" "sep v (unat n * 4096) (PDE_field s) 4"
    and l: "palloc_apart g s pf l 28" "sep v (unat n * 4096) l 28"
  shows "\<exists>is m'. large_body g pf n s = Ok (v + 12) (s\<lparr>mem := m'\<rparr>) \<and> large_state g s pf n r b cap v is m' \<and> eq_on m' (mem s) l 28"
proof -
  let ?pv = "vaddr_pool g s pf" and ?p = "memory_pool_of g pf" and ?k = "unat n * 4096"
  obtain "is" m1 where A: "palloc g s pf n = Ok v (s\<lparr>mem := m1\<rparr>)" "length is = unat n"
    "pfree_ready g (s\<lparr>mem := m1\<rparr>) pf r is b cap" "set is \<inter> used_pages ?p s = {}"
    "used_pages ?p (s\<lparr>mem := m1\<rparr>) = used_pages ?p s \<union> set is"
    "\<forall>k < bm_size (mem s) ?pv. bm m1 ?pv k = (r \<le> k \<and> k < r + unat n \<or> bm (mem s) ?pv k)"
    "palloc_frame g s pf m1"
    "\<forall>w. vpn w < vpn v \<or> vpn v + unat n \<le> vpn w \<longrightarrow> ld32 m1 (GetPTEPointer w) = ld32 (mem s) (GetPTEPointer w)"
    by (rule palloc_then_pfree [OF ready n ret refl refl v])
  note F = palloc_fields [OF ready A(7) refl refl]
  have "unat n < 3840" using n(2) by (simp add: word_less_nat_alt)
  then have k: "?k < 2 ^ 32" "unat (n * PAGE_SIZE) = ?k" by (simp, subst unat_mult_lt) simp_all
  have n0: "0 < n" using n(1) by (simp add: word_neq_0_conv)
  let ?m2 = "st32 (st32 (st32 (memset_loop ?k m1 v 0) v 0) (v + 4) n) (v + 8) 1"
  note L = large_store [OF n0 k(1), of m1 v]
  have vn: "v \<noteq> NULL" using ready v by (simp add: palloc_ready_def Let_def)
  have B: "large_body g pf n s = Ok (v + 12) (s\<lparr>mem := ?m2\<rparr>)"
    using A(1) vn k(2) by (simp add: large_body_def memset_def put32_def)
  have a1: "meta_apart g (s\<lparr>mem := m1\<rparr>) pf v ?k" using ap(1) F by (simp add: meta_apart_def palloc_apart_def)
  have same: "meta_same g (s\<lparr>mem := m1\<rparr>) pf ?m2" by (rule meta_apart_same [OF a1]) (use L(1) in simp)
  note V = meta_views [OF same] and G = meta_fields [OF same refl refl]
  have sz: "bm_size m1 ?pv = bm_size (mem s) ?pv" by (simp add: bm_size_def F)
  have "eq_on ?m2 m1 (PDE_field s) 4" "eq_on ?m2 m1 l 28" by (rule only_in_sep [OF L(1)], rule ap(3) l(2))+
  moreover have "eq_on m1 (mem s) (PDE_field s) 4" "eq_on m1 (mem s) l 28"
    using palloc_frame_eq_on [OF A(7)] ap(2) l(1) by blast+
  ultimately have e: "eq_on ?m2 (mem s) (PDE_field s) 4" "eq_on ?m2 (mem s) l 28" by (simp_all add: eq_on_def)
  have "large_state g s pf n r b cap v is ?m2"
    unfolding large_state_def Let_def using A(2-6,8) V(1,6) G F L(2,3) e(1) sz by simp
  with B e(2) show ?thesis by blast
qed

lemma large_state_base:
  assumes st: "large_state g (s\<lparr>mem := m\<rparr>) pf n r b cap v is m'" and same: "meta_same g s pf m"
    and e: "eq_on m (mem s) (PDE_field s) 4"
  shows "large_state g s pf n r b cap v is m'"
proof -
  note V = meta_views [OF same] and F = meta_fields [OF same refl refl]
  have "PDE_field (s\<lparr>mem := m\<rparr>) = PDE_field s" by (simp add: PDE_field_def)
  then show ?thesis using st V(1) F e unfolding large_state_def Let_def by (auto simp: eq_on_def)
qed

lemma malloc_large:
  assumes pf: "pf = pool_of_thread s" and l: "l = pool_lock (memory_pool_of g pf)"
    and req: "1024 < request" "request < pool_size (mem s) (memory_pool_of g pf)"
    and n: "n = DIV_ROUND_UP (request + sizeof_arena) PAGE_SIZE" "n \<noteq> 0" "n < 3840"
    and ready: "palloc_ready g s pf (unat n) r b cap" and ret: "returnable g s pf b cap"
    and v: "v = vaddr_start (mem s) (vaddr_pool g s pf) + of_nat r * PAGE_SIZE"
    and lay: "large_layout g s pf v (unat n)"
  shows "\<exists>is m'. sys_malloc g s request = Ok (v + 12) (s\<lparr>mem := m'\<rparr>) \<and> large_state g s pf n r b cap v is m'
    \<and> lock_free (s\<lparr>mem := m'\<rparr>) l"
proof -
  note L = lay [unfolded large_layout_def Let_def, folded l]
  let ?Q = "\<lambda>m'. \<exists>is. large_state g s pf n r b cap v is m'"
  have body: "\<exists>m'. large_body g pf n (s\<lparr>mem := m\<rparr>) = Ok (v + 12) (s\<lparr>mem := m'\<rparr>) \<and> eq_on m' m l 28 \<and> ?Q m'"
    if o: "only_in (mem s) m l 28" for m
  proof -
    have same: "meta_same g s pf m" by (rule meta_apart_same [OF _ o]) (use L in simp)
    note V = meta_views [OF same] and F = meta_fields [OF same refl refl]
    have pd: "PDE_field (s\<lparr>mem := m\<rparr>) = PDE_field s" by (simp add: PDE_field_def)
    have f: "eq_on m (mem s) (PDE_field s) 4" by (rule only_in_sep [OF o]) (use L in simp)
    have la: "palloc_apart g s pf l 28" using L by (simp add: meta_apart_def)
    show ?thesis
      using large_body_effect [of g "s\<lparr>mem := m\<rparr>" pf n r b cap v l] large_state_base [OF _ same f] V(4,5,7,8) F(5) ready ret n v L la pd
      by fastforce
  qed
  have fr: "lock_free s l" using L by simp
  obtain m1 m2 where G: "obind (sys_lock_lock g s l) (\<lambda>_ s1. obind (large_body g pf n s1)
      (\<lambda>x s2. obind (sys_lock_unlock g s2 l) (\<lambda>_ s3. Ok x s3))) = Ok (v + 12) (s\<lparr>mem := m2\<rparr>)" "?Q m1"
    "only_in m1 m2 l 28" "lock_free (s\<lparr>mem := m2\<rparr>) l"
    by (rule lk.guarded [OF fr, of "large_body g pf n" "v + 12" ?Q g]) (use body in blast)
  have "0 < request" using req(1) by (rule le_less_trans [rotated]) simp
  then have run: "sys_malloc g s request = Ok (v + 12) (s\<lparr>mem := m2\<rparr>)"
    using req G(1) unfolding sys_malloc_def Let_def malloc_pages_body pf [symmetric] l [symmetric] n(1) [symmetric] by simp
  obtain "is" where st: "large_state g s pf n r b cap v is m1" using G(2) by blast
  have "meta_apart g (s\<lparr>mem := m1\<rparr>) pf l 28"
    using L st by (simp add: meta_apart_def palloc_apart_def large_state_def Let_def)
  then have same: "meta_same g (s\<lparr>mem := m1\<rparr>) pf m2" by (rule meta_apart_same) (use G(3) in simp)
  have "large_state g s pf n r b cap v is m2"
  proof (rule large_state_cong [OF st same])
    show "eq_on m2 m1 v (unat n * 4096)" "eq_on m2 m1 (PDE_field s) 4"
      by (rule only_in_sep [OF G(3)]; use L in \<open>simp add: sep_commute\<close>)+
    show "0 < n" using n(2) by (simp add: word_neq_0_conv)
  qed
  with run G(4) show ?thesis by blast
qed

section \<open>Release\<close>

lemma sys_free_pages:
  assumes x: "x \<noteq> NULL" "pool_of_thread s = KERNEL_POOL \<longrightarrow> x \<ge> KERNEL_HEAP_BASE"
    and l: "l = pool_lock (memory_pool_of g (pool_of_thread s))" and fr: "lock_free s l"
    and body: "\<And>m. only_in (mem s) m l 28 \<Longrightarrow> large_header m (block2arena x) n
      \<and> (\<exists>m'. pfree g (s\<lparr>mem := m\<rparr>) (pool_of_thread s) (block2arena x) n = Ok () (s\<lparr>mem := m'\<rparr>) \<and> eq_on m' m l 28 \<and> Q m')"
  obtains m1 m2 where "sys_free g s x = Ok () (s\<lparr>mem := m2\<rparr>)" "Q m1" "only_in m1 m2 l 28" "lock_free (s\<lparr>mem := m2\<rparr>) l"
proof -
  let ?PF = "pool_of_thread s" and ?av = "block2arena x"
  let ?body = "\<lambda>s1. pfree g s1 ?PF ?av n"
  obtain m1 m2 where G: "obind (sys_lock_lock g s l) (\<lambda>_ s1. obind (?body s1)
      (\<lambda>x s2. obind (sys_lock_unlock g s2 l) (\<lambda>_ s3. Ok x s3))) = Ok () (s\<lparr>mem := m2\<rparr>)" "Q m1"
    "only_in m1 m2 l 28" "lock_free (s\<lparr>mem := m2\<rparr>) l"
    by (rule lk.guarded [OF fr, of ?body "()" Q g]) (use body in blast)
  obtain m0 where m0: "sys_lock_lock g s l = Ok () (s\<lparr>mem := m0\<rparr>)" "only_in (mem s) m0 l 28"
    using lk.lock [OF fr] by blast
  have unit: "obind r Ok = r" for r :: "(kstate, unit) outcome" by (cases r) simp_all
  have "sys_free g s x = obind (sys_lock_lock g s l) (\<lambda>_ s1. obind (?body s1) (\<lambda>_ s2. sys_lock_unlock g s2 l))"
    using x m0(1) body [OF m0(2)] by (simp add: sys_free_def Let_def l large_header_def)
  also have "\<dots> = Ok () (s\<lparr>mem := m2\<rparr>)" using G(1) by (simp add: unit)
  finally show thesis by (rule that [OF _ G(2-4)])
qed

lemma large_block: "page_aligned v \<Longrightarrow> block2arena (v + 12) = v"
  using page_of_offset [of v 12] by (simp add: block2arena_def PAGE_MASK_def)

text \<open>The pool is as before the request.\<close>

definition pool_restored :: "symbols \<Rightarrow> kstate \<Rightarrow> pool_flags \<Rightarrow> nat \<Rightarrow> nat \<Rightarrow> u32 \<Rightarrow> nat \<Rightarrow> addr \<Rightarrow> mem \<Rightarrow> bool" where
  "pool_restored g s pf n r b cap v m' \<longleftrightarrow>
     (let p = memory_pool_of g pf; pv = vaddr_pool g s pf; t = s\<lparr>mem := m'\<rparr>
      in palloc_ready g t pf n r b cap \<and> used_pages p t = used_pages p s
         \<and> (\<forall>k < bm_size (mem s) pv. bm m' pv k = bm (mem s) pv k)
         \<and> (\<forall>w. vpn w < vpn v \<or> vpn v + n \<le> vpn w \<longrightarrow> ld32 m' (GetPTEPointer w) = ld32 (mem s) (GetPTEPointer w))
         \<and> (\<forall>x k. meta_apart g t pf x k = meta_apart g s pf x k) \<and> bm_size m' pv = bm_size (mem s) pv)"

lemma pool_restored_cong:
  assumes "pool_restored g s pf n r b cap v m" "meta_same g (s\<lparr>mem := m\<rparr>) pf m'"
  shows "pool_restored g s pf n r b cap v m'"
  using assms(1) meta_views(1,5,7) [OF assms(2)] meta_fields(8,9,11) [OF assms(2) refl refl]
  unfolding pool_restored_def Let_def by auto

lemma pfree_restores:
  assumes ready: "palloc_ready g s pf (unat n) r b cap" and n: "n \<noteq> 0"
    and v: "v = vaddr_start (mem s) (vaddr_pool g s pf) + of_nat r * PAGE_SIZE"
    and st: "large_state g s pf n r b cap v is m"
  shows "\<exists>m'. pfree g (s\<lparr>mem := m\<rparr>) pf v n = Ok () (s\<lparr>mem := m'\<rparr>) \<and> pool_restored g s pf (unat n) r b cap v m'
    \<and> palloc_frame g (s\<lparr>mem := m\<rparr>) pf m'"
proof -
  let ?pv = "vaddr_pool g s pf" and ?p = "memory_pool_of g pf"
  note S = st [unfolded large_state_def Let_def]
  have sz: "bm_size m ?pv = bm_size (mem s) ?pv" using S by (simp add: bm_size_def)
  have "v = vaddr_start (mem (s\<lparr>mem := m\<rparr>)) ?pv + of_nat r * PAGE_SIZE" using v S by simp
  from pfree_effect [OF _ _ n _ refl this, of g pf "is" b cap] S obtain m' where B:
    "pfree g (s\<lparr>mem := m\<rparr>) pf v n = Ok () (s\<lparr>mem := m'\<rparr>)" "pool_inv ?p b cap (s\<lparr>mem := m'\<rparr>)"
    "used_pages ?p (s\<lparr>mem := m'\<rparr>) = used_pages ?p (s\<lparr>mem := m\<rparr>) - set is"
    "\<forall>i < unat n. ld32 m' (GetPTEPointer (v + of_nat i * PAGE_SIZE)) = 0"
    "\<forall>w. vpn w < vpn v \<or> vpn v + unat n \<le> vpn w \<longrightarrow> ld32 m' (GetPTEPointer w) = ld32 m (GetPTEPointer w)"
    "\<forall>k < bm_size (mem s) ?pv. bm m' ?pv k = (bm m ?pv k \<and> \<not> (r \<le> k \<and> k < r + unat n))"
    "eq_on m' m ?pv 12" "eq_on m' m ?p 44" "palloc_frame g (s\<lparr>mem := m\<rparr>) pf m'"
    by (auto simp: sz)
  have "eq_on m m' ?pv 8" "eq_on m m' ?p 8"
    using eq_on_part [OF B(7), of 0 8] eq_on_part [OF B(8), of 0 8] by (simp_all add: eq_on_def)
  note F = bitmap_frame [OF this(1)] bitmap_frame [OF this(2)]
  have vs: "vaddr_start m' ?pv = vaddr_start m ?pv"
    using eq_on_part [OF B(7), of 8 4] by (simp add: vaddr_start_def ld32_cong)
  have "first_run (bm (mem s) ?pv) (unat n) (bm_size (mem s) ?pv) = Some r"
    using ready by (simp add: palloc_ready_def Let_def)
  then have rf: "\<not> bm (mem s) ?pv k" if "r \<le> k" "k < r + unat n" for k
    using that unfolding first_run_Some run_free_def by (metis add_less_cancel_left le_add_diff_inverse)
  have up: "used_pages ?p (s\<lparr>mem := m'\<rparr>) = used_pages ?p s" using B(3) S by auto
  have bm: "\<forall>k < bm_size (mem s) ?pv. bm m' ?pv k = bm (mem s) ?pv k" using B(6) S rf by auto
  have pte: "\<forall>w. vpn w < vpn v \<or> vpn v + unat n \<le> vpn w \<longrightarrow> ld32 m' (GetPTEPointer w) = ld32 (mem s) (GetPTEPointer w)"
    using B(5) S by simp
  have E: "bits m' ?pv = bits (mem s) ?pv" "bitmap_bytes_len m' ?pv = bitmap_bytes_len (mem s) ?pv"
    "bits m' ?p = bits (mem s) ?p" "bitmap_bytes_len m' ?p = bitmap_bytes_len (mem s) ?p"
    "vaddr_start m' ?pv = vaddr_start (mem s) ?pv" using F vs S by simp_all
  have "palloc_ready g (s\<lparr>mem := m'\<rparr>) pf (unat n) r b cap"
    by (rule ready_again [OF ready refl refl v E B(2) up bm pte B(4)])
  then have "pool_restored g s pf (unat n) r b cap v m'"
    using up bm pte E unfolding pool_restored_def Let_def meta_apart_def palloc_apart_def by (simp add: bm_size_def)
  with B(1,9) show ?thesis by blast
qed

lemma free_large:
  assumes pf: "pf = pool_of_thread s" and l: "l = pool_lock (memory_pool_of g pf)" and n: "n \<noteq> 0"
    and ready: "palloc_ready g s pf (unat n) r b cap"
    and v: "v = vaddr_start (mem s) (vaddr_pool g s pf) + of_nat r * PAGE_SIZE"
    and lay: "large_layout g s pf v (unat n)" and st: "large_state g s pf n r b cap v is m'"
    and fr: "lock_free (s\<lparr>mem := m'\<rparr>) l" and x: "v + 12 \<noteq> NULL" "pf = KERNEL_POOL \<longrightarrow> v + 12 \<ge> KERNEL_HEAP_BASE"
  shows "\<exists>m2. sys_free g (s\<lparr>mem := m'\<rparr>) (v + 12) = Ok () (s\<lparr>mem := m2\<rparr>) \<and> pool_restored g s pf (unat n) r b cap v m2
    \<and> lock_free (s\<lparr>mem := m2\<rparr>) l"
proof -
  let ?s = "s\<lparr>mem := m'\<rparr>" and ?Q = "pool_restored g s pf (unat n) r b cap v"
  note L = lay [unfolded large_layout_def Let_def, folded l] and S = st [unfolded large_state_def Let_def]
  have n0: "0 < n" using n by (simp add: word_neq_0_conv)
  have th: "pool_of_thread ?s = pf" using thread_view_cong(1) [of m' s] S pf by simp
  have va: "block2arena (v + 12) = v" using ready v by (intro large_block) (simp add: palloc_ready_def Let_def)
  have ml: "meta_apart g ?s pf l 28" using L S by (simp add: meta_apart_def palloc_apart_def)
  have body: "large_header m (block2arena (v + 12)) n
      \<and> (\<exists>q. pfree g (?s\<lparr>mem := m\<rparr>) (pool_of_thread ?s) (block2arena (v + 12)) n = Ok () (?s\<lparr>mem := q\<rparr>) \<and> eq_on q m l 28 \<and> ?Q q)"
    if o: "only_in (mem ?s) m l 28" for m
  proof -
    have same: "meta_same g ?s pf m" by (rule meta_apart_same [OF ml o])
    have st2: "large_state g s pf n r b cap v is m"
    proof (rule large_state_cong [OF st _ _ _ n0])
      show "meta_same g (s\<lparr>mem := m'\<rparr>) pf m" by (rule same)
      show "eq_on m m' v (unat n * 4096)" "eq_on m m' (PDE_field s) 4"
        using only_in_sep [OF o] L by (simp_all add: sep_commute)
    qed
    have "palloc_apart g (s\<lparr>mem := m\<rparr>) pf l 28"
      using L st2 by (simp add: meta_apart_def palloc_apart_def large_state_def Let_def)
    with pfree_restores [OF ready n v st2] obtain q where
      "pfree g (s\<lparr>mem := m\<rparr>) pf v n = Ok () (s\<lparr>mem := q\<rparr>)" "?Q q" "eq_on q m l 28"
      using palloc_frame_eq_on [of g "s\<lparr>mem := m\<rparr>" pf _ l 28] by auto
    then show ?thesis using st2 unfolding th va by (auto simp: large_state_def Let_def)
  qed
  have x2: "pool_of_thread ?s = KERNEL_POOL \<longrightarrow> v + 12 \<ge> KERNEL_HEAP_BASE" using x(2) th by simp
  have l2: "l = pool_lock (memory_pool_of g (pool_of_thread ?s))" using l th by simp
  obtain m1 m2 where G: "sys_free g ?s (v + 12) = Ok () (?s\<lparr>mem := m2\<rparr>)" "?Q m1" "only_in m1 m2 l 28" "lock_free (?s\<lparr>mem := m2\<rparr>) l"
    by (rule sys_free_pages [OF x(1) x2 l2 fr, where Q = ?Q and n = n]) (use body in blast)
  have "meta_apart g (s\<lparr>mem := m1\<rparr>) pf l 28" using G(2) L unfolding pool_restored_def Let_def by blast
  then have "meta_same g (s\<lparr>mem := m1\<rparr>) pf m2" by (rule meta_apart_same) (use G(3) in simp)
  from pool_restored_cong [OF G(2) this] G(1,4) show ?thesis by auto
qed

section \<open>Properties\<close>

text \<open>C20. A large request and its release. For a size above 1024 bytes (and small enough for the sum with
  the header not to wrap), when the page allocator can provide the pages: \<open>sys_malloc\<close> returns an
  address 12 bytes into a fresh run of pages, with at least the requested number of bytes there,
  all zero, and the lock of the pool is free; \<open>sys_free\<close> of that address succeeds, and after it the same
  physical and virtual pages are in use as before the request, the page tables are unchanged
  outside the run, the lock is free, and the same request can be served again.\<close>

theorem large_malloc_free_roundtrip:
  assumes "pf = pool_of_thread s" "n = DIV_ROUND_UP (request + sizeof_arena) PAGE_SIZE"
    and "1024 < request" "request < pool_size (mem s) (memory_pool_of g pf)" "unat request + 4107 < 2 ^ 32" "n < 3840"
    and "palloc_ready g s pf (unat n) r b cap" "returnable g s pf b cap"
    and "v = vaddr_start (mem s) (vaddr_pool g s pf) + of_nat r * PAGE_SIZE" "large_layout g s pf v (unat n)"
    and "pf = KERNEL_POOL \<longrightarrow> v + 12 \<ge> KERNEL_HEAP_BASE"
  shows "\<exists>m1 m2. sys_malloc g s request = Ok (v + 12) (s\<lparr>mem := m1\<rparr>) \<and> zeroed m1 (v + 12) (unat request)
    \<and> lock_free (s\<lparr>mem := m1\<rparr>) (pool_lock (memory_pool_of g pf))
    \<and> sys_free g (s\<lparr>mem := m1\<rparr>) (v + 12) = Ok () (s\<lparr>mem := m2\<rparr>) \<and> pool_restored g s pf (unat n) r b cap v m2
    \<and> lock_free (s\<lparr>mem := m2\<rparr>) (pool_lock (memory_pool_of g pf))"
proof -
  have u: "unat (request + 12) = unat request + 12" "unat (request + 12 + 4095) = unat request + 4107"
    using assms(5) by (simp_all add: unat_plus_lt)
  have n: "unat n = (unat request + 4107) div 4096"
    using u(2) by (simp add: assms(2) DIV_ROUND_UP_def sizeof_arena_def PAGE_SIZE_def unat_div)
  have rq: "1024 < unat request" using assms(3) by (simp add: word_less_nat_alt)
  then have big: "unat request + 12 \<le> unat n * 4096" and "0 < unat n" unfolding n by auto
  then have n0: "n \<noteq> 0" by (simp add: unat_gt_0)
  obtain "is" m1 where M: "sys_malloc g s request = Ok (v + 12) (s\<lparr>mem := m1\<rparr>)" "large_state g s pf n r b cap v is m1"
    "lock_free (s\<lparr>mem := m1\<rparr>) (pool_lock (memory_pool_of g pf))"
    using malloc_large [OF assms(1) refl assms(3,4,2) n0 assms(6-10)] by blast
  have vp: "page_aligned v" "v \<noteq> NULL" using assms(7,9) by (simp_all add: palloc_ready_def Let_def)
  have "v + 12 \<noteq> NULL" using large_block [OF vp(1)] vp(2) by (auto simp: block2arena_def)
  from free_large [OF assms(1) refl n0 assms(7,9,10) M(2,3) this assms(11)] obtain m2 where
    "sys_free g (s\<lparr>mem := m1\<rparr>) (v + 12) = Ok () (s\<lparr>mem := m2\<rparr>)" "pool_restored g s pf (unat n) r b cap v m2"
    "lock_free (s\<lparr>mem := m2\<rparr>) (pool_lock (memory_pool_of g pf))" by blast
  moreover have "zeroed m1 (v + 12) (unat request)"
    using M(2) zeroed_part [of m1 "v + 12" "unat n * 4096 - 12" 0 "unat request"] big by (simp add: large_state_def Let_def)
  ultimately show ?thesis using M(1,3) by blast
qed

theorem large_malloc_free_roundtrip_witness:
  "\<exists>m1 m2. sys_malloc demo_symbols demo_two_pools_state 5000 = Ok 0xC010000C (demo_two_pools_state\<lparr>mem := m1\<rparr>)
    \<and> zeroed m1 0xC010000C 5000
    \<and> sys_free demo_symbols (demo_two_pools_state\<lparr>mem := m1\<rparr>) 0xC010000C = Ok () (demo_two_pools_state\<lparr>mem := m2\<rparr>)"
proof -
  let ?s = demo_two_pools_state
  have z: "ld32 demo_two_pools 0x2030 = 0" "ld32 demo_two_pools 0x110C = 0x8000"
    by (simp_all add: demo_two_pools_def demo_pools_def sep_def)
  note T = demo_thread [OF z(1), folded demo_two_pools_state_def]
  have m: "mem ?s = demo_two_pools" by (simp add: demo_two_pools_state_def demo_heap_state_def)
  have W: "bitmap_bytes_len demo_two_pools 0x1100 = 1" "bits demo_two_pools 0x1100 = 0xC009A000"
    "bitmap_bytes_len demo_two_pools 0x1300 = 1" "bits demo_two_pools 0x1300 = 0xC009A001"
    "vaddr_start demo_two_pools 0x1300 = 0xC0100000" "pool_size demo_two_pools 0x1100 = 0x8000"
    using z by (simp_all add: demo_two_pools_def demo_pools_def bitmap_bytes_len_def bits_def vaddr_start_def pool_size_def sep_def)
  have n: "2 = DIV_ROUND_UP (5000 + sizeof_arena) PAGE_SIZE" by (simp add: DIV_ROUND_UP_def sizeof_arena_def PAGE_SIZE_def)
  have lf: "lock_free ?s 0x1110"
    by (auto simp: demo_two_pools_def demo_pools_def sep_def lock_view demo_two_pools_state_def demo_heap_state_def demo_pool_state_def demo_state_def
        GetCurrentThreadPCB_def PAGE_MASK_def)
  have u: "user_memory_pool demo_symbols = 0x1200" by (simp add: demo_symbols_def)
  have lay: "large_layout demo_symbols ?s KERNEL_POOL 0xC0100000 2"
    unfolding large_layout_def Let_def meta_apart_def palloc_apart_def T m
    using lf by (simp add: pool_lock_def u W sep_def)
  have "\<exists>m1 m2. sys_malloc demo_symbols ?s 5000 = Ok (0xC0100000 + 12) (?s\<lparr>mem := m1\<rparr>) \<and> zeroed m1 (0xC0100000 + 12) (unat (5000 :: u32))
    \<and> lock_free (?s\<lparr>mem := m1\<rparr>) (pool_lock (memory_pool_of demo_symbols KERNEL_POOL))
    \<and> sys_free demo_symbols (?s\<lparr>mem := m1\<rparr>) (0xC0100000 + 12) = Ok () (?s\<lparr>mem := m2\<rparr>)
    \<and> pool_restored demo_symbols ?s KERNEL_POOL (unat (2 :: u32)) 0 0x200000 8 0xC0100000 m2
    \<and> lock_free (?s\<lparr>mem := m2\<rparr>) (pool_lock (memory_pool_of demo_symbols KERNEL_POOL))"
    by (rule large_malloc_free_roundtrip [OF _ n])
      (use T lay demo_two_pools_ready in \<open>simp_all add: m W KERNEL_HEAP_BASE_def\<close>)
  then show ?thesis by auto
qed

end
