(* ===== verification/Thread.thy ===== *)
theory Thread
  imports Heap
begin

text \<open>
  The creation of threads in \<open>thread/thread.c\<close>: process identifiers, the initialisation of a PCB,
  the first stack frame of a thread, \<open>ThreadStart\<close> and the main thread. The scheduler itself is in
  \<open>Scheduler\<close>; here the creation of a thread is shown to add a ready thread to the state that theory
  describes.

  \<open>struct thread_stack\<close> has \<open>ebp\<close> at 0, \<open>ebx\<close> at 4, \<open>edi\<close> at 8, \<open>esi\<close> at 12, \<open>eip\<close> at 16, \<open>dummy_ret\<close> at 20,
  \<open>function\<close> at 24 and \<open>func_arg\<close> at 28 (32 bytes); \<open>struct INT_stack\<close> has 76 bytes. The field
  \<open>self_kernel_stack\<close> is a \<open>uint32_t*\<close>, so subtracting a size from it moves it by four times as many bytes.
\<close>

section \<open>The code\<close>

definition sizeof_INT_stack :: u32 where "sizeof_INT_stack = 76"
definition sizeof_thread_stack :: u32 where "sizeof_thread_stack = 32"

definition self_kernel_stack :: "mem \<Rightarrow> addr \<Rightarrow> addr" where
  "self_kernel_stack m p = ld32 m (p + off_self_kernel_stack)"

text \<open>The body of every new thread; \<open>call\<close> runs the function at an address with its argument.\<close>

definition KernelThread :: "(addr \<Rightarrow> addr \<Rightarrow> kstate \<Rightarrow> (kstate, unit) outcome) \<Rightarrow> kstate \<Rightarrow> addr \<Rightarrow> addr \<Rightarrow> (kstate, unit) outcome" where
  "KernelThread call s function func_arg = (let s1 = snd (EnableInt s) in call function func_arg s1)"

text \<open>The value returned is the counter as it is after the lock has been released.\<close>

definition AllocatePid :: "symbols \<Rightarrow> kstate \<Rightarrow> (kstate, u16) outcome" where
  "AllocatePid g s =
     obind (sys_lock_lock g s (pid_lock g)) (\<lambda>_ s1.
       let s2 = s1\<lparr>next_pid := next_pid s1 + 1\<rparr>
       in obind (sys_lock_unlock g s2 (pid_lock g)) (\<lambda>_ s3. Ok (next_pid s3) s3))"

definition ThreadCreate :: "symbols \<Rightarrow> kstate \<Rightarrow> addr \<Rightarrow> addr \<Rightarrow> addr \<Rightarrow> kstate" where
  "ThreadCreate g s pthread function func_arg =
     (let s1 = put32 s (pthread + off_self_kernel_stack) (self_kernel_stack (mem s) pthread - 4 * sizeof_INT_stack);
          s2 = put32 s1 (pthread + off_self_kernel_stack) (self_kernel_stack (mem s1) pthread - 4 * sizeof_thread_stack);
          kernel_thread = self_kernel_stack (mem s2) pthread;
          s3 = put32 s2 (kernel_thread + 16) (fn_addr g Fn_KernelThread);
          s4 = put32 s3 (kernel_thread + 24) function;
          s5 = put32 s4 (kernel_thread + 28) func_arg;
          s6 = put32 s5 (kernel_thread + 8) 0;
          s7 = put32 s6 (kernel_thread + 12) 0;
          s8 = put32 s7 kernel_thread 0
      in put32 s8 kernel_thread 0)"

definition InitThread :: "symbols \<Rightarrow> kstate \<Rightarrow> addr \<Rightarrow> addr \<Rightarrow> u32 \<Rightarrow> (kstate, unit) outcome" where
  "InitThread g s pthread name priority =
     obind (on_mem s (memset (mem s) pthread 0 sizeof_PCB)) (\<lambda>_ s1.
     obind (AllocatePid g s1) (\<lambda>pid s2.
       let s3 = put16 s2 (pthread + off_pid) pid
       in obind (on_mem s3 (strcpy (mem s3) (pthread + off_name) name)) (\<lambda>_ s4.
            let s5 = put32 s4 (pthread + off_status)
                       (task_code (if pthread = main_thread s4 then TASK_RUNNING else TASK_READY));
                s6 = put8 s5 (pthread + off_priority) (ucast priority);
                s7 = put8 s6 (pthread + off_cpu_ticks_left) (ucast priority);
                s8 = put8 s7 (pthread + off_cpu_ticks_elapsed) 0;
                s9 = put32 s8 (pthread + off_PDE_addr) NULL;
                s10 = put32 s9 (pthread + off_self_kernel_stack) (pthread + PAGE_SIZE)
            in Ok () (put32 s10 (pthread + off_canary) STACK_CANARY))))"

text \<open>The end of \<open>ThreadStart\<close>, of \<open>ExecProcess\<close> and of \<open>CreateMainThread\<close>: into the lists.\<close>

definition enlist :: "string \<Rightarrow> string \<Rightarrow> kstate \<Rightarrow> addr \<Rightarrow> addr \<Rightarrow> (kstate, unit) outcome" where
  "enlist fn cond s l tag =
     obind (elem_find s l tag) (\<lambda>found s1. ASSERT fn cond (\<not> found) (list_append s1 l tag))"

definition ThreadStart :: "symbols \<Rightarrow> kstate \<Rightarrow> addr \<Rightarrow> u32 \<Rightarrow> addr \<Rightarrow> addr \<Rightarrow> (kstate, addr) outcome" where
  "ThreadStart g s name priority function func_arg =
     obind (kpalloc g s 1) (\<lambda>thread_PCB s1.
     obind (InitThread g s1 thread_PCB name priority) (\<lambda>_ s2.
       let s3 = ThreadCreate g s2 thread_PCB function func_arg
       in obind (enlist ''ThreadStart'' ''!elem_find(&ready_thread_list, &thread_PCB->general_tag)''
                   s3 (ready_thread_list g) (general_tag thread_PCB)) (\<lambda>_ s4.
          obind (enlist ''ThreadStart'' ''!elem_find(&all_thread_list, &thread_PCB->all_list_tag)''
                   s4 (all_thread_list g) (all_list_tag thread_PCB)) (\<lambda>_ s5.
            Ok thread_PCB s5))))"

definition CreateMainThread :: "symbols \<Rightarrow> kstate \<Rightarrow> (kstate, unit) outcome" where
  "CreateMainThread g s =
     (let s1 = s\<lparr>main_thread := GetCurrentThreadPCB s\<rparr>
      in obind (InitThread g s1 (main_thread s1) (literal g ''main'') 31) (\<lambda>_ s2.
         enlist ''CreateMainThread'' ''!elem_find(&all_thread_list, &main_thread->all_list_tag)''
           s2 (all_thread_list g) (all_list_tag (main_thread s2))))"

definition ThreadInit :: "symbols \<Rightarrow> kstate \<Rightarrow> (kstate, unit) outcome" where
  "ThreadInit g s =
     (let s1 = putlit s ''thread_init..'';
          s2 = list_init s1 (ready_thread_list g);
          s3 = list_init s2 (all_thread_list g);
          s4 = LockInit s3 (pid_lock g)
      in obind (CreateMainThread g s4) (\<lambda>_ s5. Ok () (putlit s5 ('' done'' @ [CHR ''\<newline>'']))))"

section \<open>Lists\<close>

lemma enlist_effect:
  assumes "is_list (mem s) l xs" "fresh_node l xs tag"
  obtains m' where "enlist fn cond s l tag = Ok () (s\<lparr>mem := m'\<rparr>)" "is_list m' l (xs @ [tag])"
    "only_nodes (mem s) m' (insert tag (set (nodes l xs)))"
proof -
  have "elem_find s l tag = Ok False s" using elem_find_eq [OF assms(1), of tag] fresh_node_notin [OF assms(2)] by simp
  moreover obtain m' where "list_append s l tag = Ok () (s\<lparr>mem := m'\<rparr>)" "is_list m' l (xs @ [tag])"
    "only_nodes (mem s) m' (insert tag (set (nodes l xs)))"
    by (rule list_append_effect [OF assms])
  ultimately show thesis using that by (simp add: enlist_def)
qed

section \<open>A new PCB\<close>

lemma next_pid_mem: "s\<lparr>next_pid := n, mem := m\<rparr> = s\<lparr>mem := m, next_pid := n\<rparr>"
  by (cases s) simp

lemma AllocatePid_effect:
  assumes "lock_free s (pid_lock g)"
  obtains m' where "AllocatePid g s = Ok (next_pid s + 1) (s\<lparr>mem := m', next_pid := next_pid s + 1\<rparr>)"
    "only_in (mem s) m' (pid_lock g) 28" "lock_free (s\<lparr>mem := m', next_pid := next_pid s + 1\<rparr>) (pid_lock g)"
proof -
  let ?l = "pid_lock g" and ?np = "next_pid s + 1"
  obtain m0 where m0: "sys_lock_lock g s ?l = Ok () (s\<lparr>mem := m0\<rparr>)" "lock_held (s\<lparr>mem := m0\<rparr>) ?l" "only_in (mem s) m0 ?l 28"
    using lk.lock [OF assms] by blast
  have "lock_held (s\<lparr>mem := m0, next_pid := ?np\<rparr>) ?l"
    using m0(2) by (simp add: lock_held_def GetCurrentThreadPCB_def)
  then obtain m1 where "sys_lock_unlock g (s\<lparr>mem := m0, next_pid := ?np\<rparr>) ?l = Ok () (s\<lparr>mem := m0, next_pid := ?np, mem := m1\<rparr>)"
    "lock_free (s\<lparr>mem := m0, next_pid := ?np, mem := m1\<rparr>) ?l" "only_in (mem (s\<lparr>mem := m0, next_pid := ?np\<rparr>)) m1 ?l 28"
    using lk.unlock by blast
  with m0 that only_in_trans [OF m0(3)] show thesis by (simp add: AllocatePid_def next_pid_mem)
qed

lemma eq_on_store:
  "sep a 4 b k \<Longrightarrow> eq_on m m0 b k \<Longrightarrow> eq_on (st32 m a v) m0 b k"
  "sep a 2 b k \<Longrightarrow> eq_on m m0 b k \<Longrightarrow> eq_on (st16 m a h) m0 b k"
  "sep a 1 b k \<Longrightarrow> eq_on m m0 b k \<Longrightarrow> eq_on (st8 m a c) m0 b k"
  using b4.st_frame [of a b k m v] b2.st_frame [of a b k m h] b1.st_frame [of a b k m c] by (simp_all add: eq_on_def)

text \<open>The fields of a PCB that \<open>InitThread\<close> has filled.\<close>

definition fresh_pcb :: "mem \<Rightarrow> addr \<Rightarrow> u16 \<Rightarrow> u8 list \<Rightarrow> task_status \<Rightarrow> u8 \<Rightarrow> bool" where
  "fresh_pcb m p pid name st prio \<longleftrightarrow>
     ld16 m (p + off_pid) = pid \<and> cstr m (p + off_name) name \<and> PCB_status m p = task_code st
     \<and> ld8 m (p + off_priority) = prio \<and> ld8 m (p + off_cpu_ticks_left) = prio
     \<and> ld8 m (p + off_cpu_ticks_elapsed) = 0 \<and> PCB_PDE_addr m p = NULL
     \<and> self_kernel_stack m p = p + PAGE_SIZE \<and> ld32 m (p + off_canary) = STACK_CANARY"

definition pcb_stores :: "mem \<Rightarrow> addr \<Rightarrow> task_status \<Rightarrow> u8 \<Rightarrow> mem" where
  "pcb_stores m p st prio =
     st32 (st32 (st32 (st8 (st8 (st8 (st32 m (p + off_status) (task_code st)) (p + off_priority) prio)
       (p + off_cpu_ticks_left) prio) (p + off_cpu_ticks_elapsed) 0) (p + off_PDE_addr) NULL)
       (p + off_self_kernel_stack) (p + PAGE_SIZE)) (p + off_canary) STACK_CANARY"

lemma only_in_field:
  "unat off + 4 \<le> n \<Longrightarrow> only_in m (st32 m (p + off) v) p n" "unat off + 2 \<le> n \<Longrightarrow> only_in m (st16 m (p + off) h) p n"
  "unat off + 1 \<le> n \<Longrightarrow> only_in m (st8 m (p + off) b) p n"
  by (blast intro: only_in_part only_in_st32 only_in_st16 only_in_st8)+

lemma pcb_stores_only: "only_in m (pcb_stores m p st prio) p 236"
proof -
  have z: "only_in m (st32 m p v) p 236" for m v using only_in_field(1) [of 0] by simp
  show ?thesis
    unfolding pcb_stores_def
    by (rule only_in_trans [OF only_in_trans [OF only_in_trans [OF only_in_trans [OF only_in_trans [OF only_in_trans
      [OF only_in_field(1) only_in_field(3)] only_in_field(3)] only_in_field(3)] only_in_field(1)] only_in_field(1)]
      only_in_field(1)]) simp_all
qed

lemma pcb_stores_name: "k \<le> 16 \<Longrightarrow> eq_on (pcb_stores m p st prio) m (p + off_name) k"
proof -
  assume k: "k \<le> 16"
  have "eq_on (pcb_stores m p st prio) m (p + off_name) 16"
    unfolding pcb_stores_def by (intro eq_on_store) (simp_all add: eq_on_def)
  then show ?thesis using eq_on_part [of _ _ "p + off_name" 16 0 k] k by simp
qed

lemma pcb_stores_fresh:
  assumes "ld16 m (p + off_pid) = pid" "cstr m (p + off_name) name" "length name \<le> 15"
  shows "fresh_pcb (pcb_stores m p st prio) p pid name st prio"
proof -
  have "cstr (pcb_stores m p st prio) (p + off_name) name"
    using cstr_cong [OF pcb_stores_name] assms(2,3) by simp
  then show ?thesis
    using assms(1) by (simp add: fresh_pcb_def pcb_stores_def PCB_status_def PCB_PDE_addr_def self_kernel_stack_def)
qed

lemma InitThread_effect:
  assumes p: "p \<noteq> NULL" "p + off_name \<noteq> NULL" "sep p 236 (pid_lock g) 28" and l: "lock_free s (pid_lock g)"
    and n: "cstr (mem s) name xs" "length xs \<le> 15" "name \<noteq> NULL" "sep p 236 name (Suc (length xs))"
    "sep (pid_lock g) 28 name (Suc (length xs))"
  obtains m' where "InitThread g s p name priority = Ok () (s\<lparr>mem := m', next_pid := next_pid s + 1\<rparr>)"
    "fresh_pcb m' p (next_pid s + 1) xs (if p = main_thread s then TASK_RUNNING else TASK_READY) (ucast priority)"
    "lock_free (s\<lparr>mem := m', next_pid := next_pid s + 1\<rparr>) (pid_lock g)"
    "\<forall>y. \<not> inr y p 236 \<and> \<not> inr y (pid_lock g) 28 \<longrightarrow> m' y = mem s y"
proof -
  let ?l = "pid_lock g" and ?np = "next_pid s + 1" and ?k = "Suc (length xs)"
  define m1 where "m1 = memset_loop 236 (mem s) p 0"
  have o1: "only_in (mem s) m1 p 236" unfolding m1_def by (rule memset_loop_only_in) simp
  have l1: "lock_free (s\<lparr>mem := m1\<rparr>) ?l"
    by (rule lock_free_local [OF l only_in_sep [OF o1 p(3)]])
  obtain m2 where A: "AllocatePid g (s\<lparr>mem := m1\<rparr>) = Ok ?np (s\<lparr>mem := m2, next_pid := ?np\<rparr>)"
    "only_in m1 m2 ?l 28" "lock_free (s\<lparr>mem := m2, next_pid := ?np\<rparr>) ?l"
    using AllocatePid_effect [OF l1] by auto
  define m3 where "m3 = st16 m2 (p + off_pid) ?np"
  have o3: "only_in m2 m3 p 236" unfolding m3_def by (rule only_in_field) simp
  have k: "?k \<le> 16" using n(2) by simp
  have "eq_on m3 (mem s) name ?k"
    using only_in_sep [OF o1 n(4)] only_in_sep [OF A(2) n(5)] only_in_sep [OF o3 n(4)] by (simp add: eq_on_def)
  then have c3: "cstr m3 name xs" using cstr_cong n(1) by blast
  have "sep (p + off_name) ?k name ?k" by (rule sep_offset_left [OF n(4)]) (use k in simp_all)
  then obtain m4 where C: "strcpy_loop m3 (p + off_name) name = Some m4" "cstr m4 (p + off_name) xs"
    "only_in m3 m4 (p + off_name) ?k"
    using strcpy_loop_cstr [OF c3] k by auto
  have o4: "only_in m3 m4 p 236" by (rule only_in_part [OF C(3)]) (use k in simp)
  have pid: "ld16 m4 (p + off_pid) = ?np"
  proof -
    have "sep (p + off_name) 16 (p + off_pid) 2" by simp
    from sep_offset_left [OF this, of 0 ?k] k have "sep (p + off_name) ?k (p + off_pid) 2" by simp
    from b2.ld_frame [OF C(3) this] show ?thesis by (simp add: m3_def)
  qed
  define st where "st = (if p = main_thread s then TASK_RUNNING else TASK_READY)"
  let ?m5 = "pcb_stores m4 p st (ucast priority)"
  have F: "fresh_pcb ?m5 p ?np xs st (ucast priority)" by (rule pcb_stores_fresh [OF pid C(2) n(2)])
  have o5: "only_in m2 ?m5 p 236" by (rule only_in_trans [OF only_in_trans [OF o3 o4] pcb_stores_only])
  have R: "InitThread g s p name priority = Ok () (s\<lparr>mem := ?m5, next_pid := ?np\<rparr>)"
    using p(1,2) n(3) A(1) C(1)
    by (simp add: InitThread_def memset_def strcpy_def m1_def m3_def sizeof_PCB_def put32_def put16_def put8_def
        pcb_stores_def Let_def st_def next_pid_mem)
  have L: "lock_free (s\<lparr>mem := ?m5, next_pid := ?np\<rparr>) ?l"
    using lock_free_local [OF A(3), of ?m5] only_in_sep [OF o5 p(3)] by (simp add: next_pid_mem)
  have "\<forall>y. \<not> inr y p 236 \<and> \<not> inr y ?l 28 \<longrightarrow> ?m5 y = mem s y"
    using o1 A(2) o5 by (auto simp: only_in_def)
  from that [folded st_def, OF R F L this] show thesis .
qed

section \<open>The first frame of a thread\<close>

text \<open>What \<open>switch_to\<close> and then the entry of \<open>KernelThread\<close> find on the stack of a thread that never ran.\<close>

definition first_frame :: "symbols \<Rightarrow> mem \<Rightarrow> addr \<Rightarrow> addr \<Rightarrow> addr \<Rightarrow> bool" where
  "first_frame g m sp function func_arg \<longleftrightarrow>
     ld32 m sp = 0 \<and> ld32 m (sp + 8) = 0 \<and> ld32 m (sp + 12) = 0 \<and> ld32 m (sp + 16) = fn_addr g Fn_KernelThread
     \<and> ld32 m (sp + 24) = function \<and> ld32 m (sp + 28) = func_arg"

definition first_frame_stores :: "symbols \<Rightarrow> mem \<Rightarrow> addr \<Rightarrow> addr \<Rightarrow> addr \<Rightarrow> mem" where
  "first_frame_stores g m sp function func_arg =
     st32 (st32 (st32 (st32 (st32 (st32 m (sp + 16) (fn_addr g Fn_KernelThread)) (sp + 24) function) (sp + 28) func_arg)
       (sp + 8) 0) (sp + 12) 0) sp 0"

lemma first_frame_stores:
  "first_frame g (first_frame_stores g m sp function func_arg) sp function func_arg"
  "only_in m (first_frame_stores g m sp function func_arg) sp 32"
proof -
  show "first_frame g (first_frame_stores g m sp function func_arg) sp function func_arg"
    by (simp add: first_frame_def first_frame_stores_def)
  have z: "only_in m (st32 m sp v) sp 32" for m v using only_in_field(1) [of 0] by simp
  show "only_in m (first_frame_stores g m sp function func_arg) sp 32"
    unfolding first_frame_stores_def
    by (rule only_in_trans [OF only_in_trans [OF only_in_trans [OF only_in_trans [OF only_in_trans
      [OF only_in_field(1) only_in_field(1)] only_in_field(1)] only_in_field(1)] only_in_field(1)] z]) simp_all
qed

lemma ThreadCreate_effect:
  assumes "self_kernel_stack (mem s) p = p + PAGE_SIZE"
  obtains m' where "ThreadCreate g s p function func_arg = s\<lparr>mem := m'\<rparr>" "self_kernel_stack m' p = p + 3664"
    "first_frame g m' (p + 3664) function func_arg" "eq_on m' (mem s) (p + 4) 3660" "only_in (mem s) m' p 4096"
proof -
  define m1 where "m1 = st32 (mem s) p (p + 3664)"
  let ?m = "first_frame_stores g m1 (p + 3664) function func_arg"
  have z: "4096 + p - 432 = p + 3664" by simp
  note F = first_frame_stores [where g = g and m = m1 and sp = "p + 3664"]
  have "ThreadCreate g s p function func_arg = s\<lparr>mem := ?m\<rparr>"
    using assms
    by (simp add: ThreadCreate_def self_kernel_stack_def m1_def first_frame_stores_def put32_def Let_def
        sizeof_INT_stack_def sizeof_thread_stack_def b4.st_twice PAGE_SIZE_def z add.assoc) (simp add: add.commute)
  moreover have "ld32 ?m p = ld32 m1 p" by (rule b4.ld_frame [OF F(2)]) simp
  then have "self_kernel_stack ?m p = p + 3664" by (simp add: self_kernel_stack_def m1_def)
  moreover have "eq_on ?m m1 (p + 4) 3660" by (rule only_in_sep [OF F(2)]) simp
  then have "eq_on ?m (mem s) (p + 4) 3660" using b4.st_frame [of p "p + 4" 3660 "mem s" "p + 3664"] by (simp add: eq_on_def m1_def)
  moreover have "only_in (mem s) m1 p 4096" using only_in_field(1) [of 0 4096] by (simp add: m1_def)
  then have "only_in (mem s) ?m p 4096" by (rule only_in_trans) (rule only_in_part [OF F(2)], simp)
  ultimately show thesis using F(1) by (intro that)
qed

section \<open>A page for a thread\<close>

text \<open>What \<open>kpalloc\<close> leaves alone when it returns \<open>n\<close> bytes from \<open>v\<close> on.\<close>

definition kpalloc_apart :: "symbols \<Rightarrow> kstate \<Rightarrow> addr \<Rightarrow> nat \<Rightarrow> addr \<Rightarrow> nat \<Rightarrow> bool" where
  "kpalloc_apart g s v n b k \<longleftrightarrow> palloc_apart g s KERNEL_POOL b k
     \<and> sep (pool_lock (kernel_memory_pool g)) 28 b k \<and> sep v n b k"

definition kpalloc_ready :: "symbols \<Rightarrow> kstate \<Rightarrow> nat \<Rightarrow> addr \<Rightarrow> bool" where
  "kpalloc_ready g s n v \<longleftrightarrow>
     (let l = pool_lock (kernel_memory_pool g)
      in lock_free s l \<and> palloc_apart g s KERNEL_POOL l 28 \<and> sep l 28 (kernel_vaddr g) 12 \<and> sep v (n * 4096) l 28
         \<and> (\<exists>r b cap. palloc_ready g s KERNEL_POOL n r b cap \<and> v = vaddr_start (mem s) (kernel_vaddr g) + of_nat r * PAGE_SIZE))"

lemma kpalloc_effect:
  assumes R: "kpalloc_ready g s (unat cnt) v" and c: "cnt \<noteq> 0" "cnt < 3840"
  obtains m' where "kpalloc g s cnt = Ok v (s\<lparr>mem := m'\<rparr>)" "lock_free (s\<lparr>mem := m'\<rparr>) (pool_lock (kernel_memory_pool g))"
    "zeroed m' v (unat cnt * 4096)" "\<forall>x k. kpalloc_apart g s v (unat cnt * 4096) x k \<longrightarrow> eq_on m' (mem s) x k"
    "v \<noteq> NULL" "page_aligned v"
proof -
  define l where "l = pool_lock (kernel_memory_pool g)"
  have p: "memory_pool_of g KERNEL_POOL = kernel_memory_pool g" by (simp add: memory_pool_of_def)
  have pv: "vaddr_pool g t KERNEL_POOL = kernel_vaddr g" for t by (simp add: vaddr_pool_def)
  obtain r b cap where ready: "palloc_ready g s KERNEL_POOL (unat cnt) r b cap"
    and v: "v = vaddr_start (mem s) (kernel_vaddr g) + of_nat r * PAGE_SIZE"
    and L: "lock_free s l" "palloc_apart g s KERNEL_POOL l 28" "sep l 28 (kernel_vaddr g) 12" "sep v (unat cnt * 4096) l 28"
    using R by (auto simp: kpalloc_ready_def Let_def l_def)
  have nn: "v \<noteq> NULL" "page_aligned v" using ready by (simp_all add: palloc_ready_def Let_def pv v)
  have cn: "unat cnt < 3840" using c(2) by (simp add: word_less_nat_alt)
  then have n: "unat (cnt * PAGE_SIZE) = unat cnt * 4096" by (subst unat_mult_lt) simp_all
  obtain m0 where m0: "sys_lock_lock g s l = Ok () (s\<lparr>mem := m0\<rparr>)" "lock_held (s\<lparr>mem := m0\<rparr>) l" "only_in (mem s) m0 l 28"
    using lk.lock [OF L(1)] by blast
  note RL = palloc_ready_locked [OF ready pv [symmetric] p [symmetric] m0(3) [unfolded l_def] L(3) [unfolded l_def]]
  obtain m1 where m1: "palloc g (s\<lparr>mem := m0\<rparr>) KERNEL_POOL cnt = Ok v (s\<lparr>mem := m1\<rparr>)"
    "palloc_frame g (s\<lparr>mem := m0\<rparr>) KERNEL_POOL m1"
  proof -
    have "v = vaddr_start (mem (s\<lparr>mem := m0\<rparr>)) (kernel_vaddr g) + of_nat r * PAGE_SIZE" using RL(3) v by simp
    from palloc_effect [OF RL(1) c pv [symmetric] p [symmetric] this] that show thesis by auto
  qed
  have e1: "eq_on m1 m0 x k" if "palloc_apart g s KERNEL_POOL x k" for x k
    using palloc_frame_eq_on [OF m1(2)] RL(2) that by simp
  have "lock_held (s\<lparr>mem := m1\<rparr>) l" using lk.held_local [OF m0(2), of m1] e1 [OF L(2)] by simp
  then obtain m2 where m2: "sys_lock_unlock g (s\<lparr>mem := m1\<rparr>) l = Ok () (s\<lparr>mem := m2\<rparr>)" "lock_free (s\<lparr>mem := m2\<rparr>) l"
    "only_in m1 m2 l 28"
    using lk.unlock [of "s\<lparr>mem := m1\<rparr>"] by auto
  define m3 where "m3 = memset_loop (unat cnt * 4096) m2 v 0"
  have small: "unat cnt * 4096 < 2 ^ 32" using cn by simp
  have o3: "only_in m2 m3 v (unat cnt * 4096)" unfolding m3_def by (rule memset_loop_only_in [OF small])
  show thesis
  proof (rule that)
    show "kpalloc g s cnt = Ok v (s\<lparr>mem := m3\<rparr>)"
      using m0(1) m1(1) m2(1) nn by (simp add: kpalloc_def locked_palloc_def p l_def memset_def n m3_def)
    show "lock_free (s\<lparr>mem := m3\<rparr>) (pool_lock (kernel_memory_pool g))"
      using lock_free_local [OF m2(2), of m3] only_in_sep [OF o3 L(4)] by (simp add: l_def)
    show "zeroed m3 v (unat cnt * 4096)" using small by (simp add: zeroed_def m3_def memset_loop_byte)
    have "eq_on m3 (mem s) x k" if "kpalloc_apart g s v (unat cnt * 4096) x k" for x k
      using that e1 [of x k] only_in_sep [OF m0(3), of x k] only_in_sep [OF m2(3), of x k] only_in_sep [OF o3, of x k]
      by (simp add: kpalloc_apart_def l_def eq_on_def)
    then show "\<forall>x k. kpalloc_apart g s v (unat cnt * 4096) x k \<longrightarrow> eq_on m3 (mem s) x k" by blast
  qed (fact nn)+
qed

section \<open>A new thread in the scheduler\<close>

definition a_spawn :: "addr \<Rightarrow> sched \<Rightarrow> sched" where
  "a_spawn p a = a\<lparr>ready := ready a @ [p], status := (status a)(p := TASK_READY)\<rparr>"

lemma a_spawn_inv: "sched_inv ts a \<Longrightarrow> p \<notin> ts \<Longrightarrow> sched_inv (insert p ts) (a_spawn p a)"
  by (auto simp: sched_inv_def a_spawn_def)

lemma rep_frame:
  assumes "rep g ts c m a" "eq_on m' m (ready_thread_list g) 16" "\<forall>p \<in> ts. eq_on m' m p 40"
  shows "rep g ts c m' a"
proof -
  let ?l = "ready_thread_list g"
  have R: "layout g ts" "set (ready a) \<subseteq> ts" "is_list m ?l (map general_tag (ready a))" using assms(1) by (simp_all add: rep_def)
  have "eq_on m' m x 8" if "x \<in> set (nodes ?l (map general_tag (ready a)))" for x
  proof -
    have "x = ?l \<or> x = list_tail ?l \<or> (\<exists>p \<in> ts. x = general_tag p)" using that R(2) by auto
    then consider "x = ?l" | "x = list_tail ?l" | p where "p \<in> ts" "x = general_tag p" by blast
    then show ?thesis
      using eq_on_part [OF assms(2), of 0 8] eq_on_part [OF assms(2), of 8 8] eq_on_part [of m' m _ 40 32 8] assms(3)
      by cases (auto simp: general_tag_def)
  qed
  then have "is_list m' ?l (map general_tag (ready a))" by (rule is_list_frame [OF R(3)])
  moreover have "ld32 m' (p + off) = ld32 m (p + off)" if "p \<in> ts" "unat off + 4 \<le> 40" for p off
    using assms(3) that(1) by (intro ld32_cong eq_on_part [OF _ that(2)]) blast
  from this [of _ 0] this [of _ 8] have "\<forall>p \<in> ts. PCB_status m' p = PCB_status m p" "\<forall>p \<in> ts. ld32 m' p = ld32 m p"
    by (simp_all add: PCB_status_def)
  ultimately show ?thesis using assms(1) by (simp add: rep_def saved_esp_ok_def)
qed

text \<open>The threads of the system: the scheduler's state, and all threads \<open>ys\<close> in the list of all threads.\<close>

definition all_rep :: "symbols \<Rightarrow> addr set \<Rightarrow> mem \<Rightarrow> addr list \<Rightarrow> bool" where
  "all_rep g ts m ys \<longleftrightarrow> is_list m (all_thread_list g) (map all_list_tag ys) \<and> set ys \<subseteq> ts
     \<and> sep (all_thread_list g) 16 (ready_thread_list g) 16 \<and> (\<forall>p \<in> ts. sep (all_thread_list g) 16 p 4096)"

definition all_nodes :: "symbols \<Rightarrow> addr set \<Rightarrow> addr set" where
  "all_nodes g ts = {all_thread_list g, list_tail (all_thread_list g)} \<union> all_list_tag ` ts"

lemma all_rep_frame:
  assumes "all_rep g ts m ys" "eq_on m' m (all_thread_list g) 16" "\<forall>p \<in> ts. eq_on m' m (p + off_all_list_tag) 8"
  shows "all_rep g ts m' ys"
proof -
  let ?l = "all_thread_list g"
  have R: "set ys \<subseteq> ts" "is_list m ?l (map all_list_tag ys)" using assms(1) by (simp_all add: all_rep_def)
  have "eq_on m' m x 8" if "x \<in> set (nodes ?l (map all_list_tag ys))" for x
  proof -
    have "x = ?l \<or> x = list_tail ?l \<or> (\<exists>p \<in> ts. x = all_list_tag p)" using that R(1) by auto
    then consider "x = ?l" | "x = list_tail ?l" | p where "p \<in> ts" "x = all_list_tag p" by blast
    then show ?thesis
      using eq_on_part [OF assms(2), of 0 8] eq_on_part [OF assms(2), of 8 8] assms(3) by cases (auto simp: all_list_tag_def)
  qed
  then have "is_list m' ?l (map all_list_tag ys)" by (rule is_list_frame [OF R(2)])
  then show ?thesis using assms(1) by (simp add: all_rep_def)
qed

text \<open>The nodes of the two lists are apart, and those of the list of all threads are apart from the fields the scheduler uses.\<close>

lemma all_node_sep:
  assumes "layout g ts" "sep (all_thread_list g) 16 (ready_thread_list g) 16" "\<forall>p \<in> ts. sep (all_thread_list g) 16 p 4096"
    and "x \<in> all_nodes g ts"
  shows "p \<in> ts \<Longrightarrow> 0 < n \<Longrightarrow> unat off + n \<le> 40 \<or> 48 \<le> unat off \<and> unat off + n \<le> 4096 \<Longrightarrow> sep x 8 (p + off) n"
    "sep x 8 (ready_thread_list g) 16" "p \<in> ts \<Longrightarrow> x \<noteq> all_list_tag p \<Longrightarrow> sep x 8 (all_list_tag p) 8"
proof -
  let ?a = "all_thread_list g" and ?r = "ready_thread_list g"
  have pg: "page_aligned q" "sep ?r 16 q 4096" "sep ?a 16 q 4096" if "q \<in> ts" for q
    using assms(1,3) that by (auto simp: layout_def)
  consider "x = ?a" | "x = ?a + 8" | q where "q \<in> ts" "x = q + 40"
    using assms(4) by (auto simp: all_nodes_def all_list_tag_def)
  then show "sep x 8 ?r 16"
    using sep_parts [OF assms(2), of 0 8 0 16] sep_parts [OF assms(2), of 8 8 0 16]
      sep_sym [OF sep_offset_right [OF pg(2), of _ 40 8]] by cases auto
  from \<open>x \<in> all_nodes g ts\<close> have cs: "x = ?a \<or> x = ?a + 8 \<or> (\<exists>q \<in> ts. x = q + 40)"
    by (auto simp: all_nodes_def all_list_tag_def)
  have other: "sep (q + 40) 8 (p + off) n" if "q \<in> ts" "p \<in> ts" "q \<noteq> p" "unat off + n \<le> 4096" "0 < n" for q off n
    by (rule sep_parts [OF pages_sep [OF pg(1) pg(1) that(3)]]) (use that in auto)
  have head: "sep (?a + i) 8 (p + off) n" if "p \<in> ts" "i = 0 \<or> i = 8" "unat off + n \<le> 4096" "0 < n" for i off n
    by (rule sep_parts [OF pg(3) [OF that(1)]]) (use that in auto)
  show "sep x 8 (p + off) n" if p: "p \<in> ts" "0 < n" "unat off + n \<le> 40 \<or> 48 \<le> unat off \<and> unat off + n \<le> 4096"
  proof (cases "x = p + 40")
    case True
    have "8 \<le> unat (off - 40) \<and> n \<le> unat (40 - off)"
      using p(2,3) by (auto simp: unat_sub_if' word_le_nat_alt)
    with True show ?thesis by simp
  next
    case False
    with cs head [OF p(1), of 0 off n] head [OF p(1), of 8 off n] other [OF _ p(1), of _ off n] p(2,3) show ?thesis by auto
  qed
  show "sep x 8 (all_list_tag p) 8" if p: "p \<in> ts" "x \<noteq> all_list_tag p"
    using cs head [OF p(1), of 0 40 8] head [OF p(1), of 8 40 8] other [OF _ p(1), of _ 40 8] p(2) by (auto simp: all_list_tag_def)
qed

lemma enlist_ready:
  assumes R: "rep g ts c (mem s) a" and p: "p \<in> ts" "p \<notin> set (ready a)"
  obtains m' where "enlist fn cond s (ready_thread_list g) (general_tag p) = Ok () (s\<lparr>mem := m'\<rparr>)"
    "rep g ts c m' (a\<lparr>ready := ready a @ [p]\<rparr>)" "only_nodes (mem s) m' (sched_nodes g ts)"
proof -
  have l: "layout g ts" "set (ready a) \<subseteq> ts" "is_list (mem s) (ready_thread_list g) (map general_tag (ready a))"
    using R by (simp_all add: rep_def)
  obtain m' where E: "enlist fn cond s (ready_thread_list g) (general_tag p) = Ok () (s\<lparr>mem := m'\<rparr>)"
    "is_list m' (ready_thread_list g) (map general_tag (ready a) @ [general_tag p])"
    "only_nodes (mem s) m' (insert (general_tag p) (set (nodes (ready_thread_list g) (map general_tag (ready a)))))"
    by (rule enlist_effect [OF l(3) fresh_general_tag [OF l(1) p(1) l(2) p(2)]])
  have "only_nodes (mem s) m' (sched_nodes g ts)"
    by (rule only_nodes_mono [OF E(3)]) (use nodes_in_sched [OF l(2), of g] p(1) in \<open>auto simp: sched_nodes_def\<close>)
  moreover from this have "rep g ts c m' (a\<lparr>ready := ready a @ [p]\<rparr>)"
    using E(2) l(2) p(1) by (intro rep_nodes [OF R]) simp_all
  ultimately show thesis using that E(1) by blast
qed

lemma enlist_all:
  assumes R: "all_rep g ts (mem s) ys" and l: "layout g ts" and p: "p \<in> ts" "p \<notin> set ys"
  obtains m' where "enlist fn cond s (all_thread_list g) (all_list_tag p) = Ok () (s\<lparr>mem := m'\<rparr>)"
    "all_rep g ts m' (ys @ [p])" "only_nodes (mem s) m' (all_nodes g ts)"
proof -
  let ?a = "all_thread_list g"
  have A: "is_list (mem s) ?a (map all_list_tag ys)" "set ys \<subseteq> ts" "sep ?a 16 (ready_thread_list g) 16"
    "\<forall>p \<in> ts. sep ?a 16 p 4096" using R by (simp_all add: all_rep_def)
  have N: "set (nodes ?a (map all_list_tag ys)) \<subseteq> all_nodes g ts" using A(2) by (auto simp: all_nodes_def)
  have al: "page_aligned p" using l p(1) by (simp add: layout_def)
  have head: "?a \<noteq> all_list_tag p" "list_tail ?a \<noteq> all_list_tag p"
    using sep_neq [OF sep_parts [of ?a 16 p 4096 0 8 40 8]] sep_neq [OF sep_parts [of ?a 16 p 4096 8 8 40 8]] A(4) p(1)
    by (auto simp: all_list_tag_def)
  have "all_list_tag p \<noteq> NULL"
  proof
    assume "all_list_tag p = NULL"
    then have "(p + 40) AND PAGE_MASK = 0" "p + 40 = 0" by (simp_all add: all_list_tag_def)
    moreover have "(p + 40) AND PAGE_MASK = p" by (rule page_of_offset [OF al]) simp
    ultimately show False by simp
  qed
  moreover have "sep (all_list_tag p) 8 x 8" if x: "x \<in> set (nodes ?a (map all_list_tag ys))" for x
  proof -
    have "x \<noteq> all_list_tag p" using x p(2) head by (auto simp: all_list_tag_def)
    then show ?thesis using all_node_sep(3) [OF l A(3,4) _ p(1)] N x sep_sym by blast
  qed
  ultimately have "fresh_node ?a (map all_list_tag ys) (all_list_tag p)" by (simp add: fresh_node_def)
  then obtain m' where E: "enlist fn cond s ?a (all_list_tag p) = Ok () (s\<lparr>mem := m'\<rparr>)"
    "is_list m' ?a (map all_list_tag ys @ [all_list_tag p])"
    "only_nodes (mem s) m' (insert (all_list_tag p) (set (nodes ?a (map all_list_tag ys))))"
    by (rule enlist_effect [OF A(1)])
  have "only_nodes (mem s) m' (all_nodes g ts)"
    by (rule only_nodes_mono [OF E(3)]) (use N p(1) in \<open>auto simp: all_nodes_def\<close>)
  moreover have "all_rep g ts m' (ys @ [p])" using E(2) A p(1) by (simp add: all_rep_def)
  ultimately show thesis using that E(1) by blast
qed

lemma rep_insert:
  assumes "rep g ts c m a" "layout g (insert p ts)" "PCB_status m p = task_code st" "saved_esp_ok m p" "p \<notin> ts"
  shows "rep g (insert p ts) c m (a\<lparr>status := (status a)(p := st)\<rparr>)"
  using assms by (auto simp: rep_def)

text \<open>Room for a thread: a page \<open>p\<close> the allocator can give, apart from everything the thread list code uses.\<close>

definition spawn_room :: "symbols \<Rightarrow> kstate \<Rightarrow> addr set \<Rightarrow> addr \<Rightarrow> addr \<Rightarrow> nat \<Rightarrow> bool" where
  "spawn_room g s ts p name k \<longleftrightarrow>
     kpalloc_ready g s 1 p \<and> p \<notin> ts \<and> layout g (insert p ts)
     \<and> (\<forall>(b, n) \<in> {(ready_thread_list g, 16), (all_thread_list g, 16), (pid_lock g, 28), (name, k)}. kpalloc_apart g s p 4096 b n)
     \<and> (\<forall>q \<in> ts. kpalloc_apart g s p 4096 q 4096)
     \<and> (\<forall>(b, n) \<in> {(ready_thread_list g, 16), (all_thread_list g, 16), (name, k)}. sep (pid_lock g) 28 b n)
     \<and> (\<forall>q \<in> ts. sep (pid_lock g) 28 q 4096)"

lemma start_thread:
  assumes room: "spawn_room g s ts p name (Suc (length xs))"
    and n: "cstr (mem s) name xs" "length xs \<le> 15" "name \<noteq> NULL" and l: "lock_free s (pid_lock g)" and mt: "main_thread s \<in> ts"
  obtains m1 m' where "kpalloc g s 1 = Ok p (s\<lparr>mem := m1\<rparr>)"
    "InitThread g (s\<lparr>mem := m1\<rparr>) p name priority = Ok () (s\<lparr>mem := m', next_pid := next_pid s + 1\<rparr>)"
    "fresh_pcb m' p (next_pid s + 1) xs TASK_READY (ucast priority)"
    "lock_free (s\<lparr>mem := m', next_pid := next_pid s + 1\<rparr>) (pid_lock g)"
    "\<forall>b k. kpalloc_apart g s p 4096 b k \<and> sep (pid_lock g) 28 b k \<longrightarrow> eq_on m' (mem s) b k"
proof -
  let ?l = "pid_lock g" and ?np = "next_pid s + 1" and ?k = "Suc (length xs)"
  have room': "kpalloc_ready g s (unat (1::u32)) p" "p \<notin> ts" "kpalloc_apart g s p 4096 ?l 28" "kpalloc_apart g s p 4096 name ?k"
    "sep ?l 28 name ?k" using room by (simp_all add: spawn_room_def)
  obtain m1 where K: "kpalloc g s 1 = Ok p (s\<lparr>mem := m1\<rparr>)" "p \<noteq> NULL" "page_aligned p"
    "\<forall>x k. kpalloc_apart g s p 4096 x k \<longrightarrow> eq_on m1 (mem s) x k"
  proof (rule kpalloc_effect [OF room'(1)])
    show "(1::u32) \<noteq> 0" "(1::u32) < 3840" by simp_all
  qed (rule that, simp_all)
  have e1: "eq_on m1 (mem s) b k" if "kpalloc_apart g s p 4096 b k" for b k using K(4) that by blast
  have l1: "lock_free (s\<lparr>mem := m1\<rparr>) ?l" by (rule lock_free_local [OF l e1 [OF room'(3)]])
  have n1: "cstr (mem (s\<lparr>mem := m1\<rparr>)) name xs" using cstr_cong [OF e1 [OF room'(4)]] n(1) by simp
  have sp: "sep p 236 b k" if "kpalloc_apart g s p 4096 b k" "0 < k" for b k
    using sep_offset_left [of p 4096 b k 0 236] that by (simp add: kpalloc_apart_def)
  have nm: "p + off_name \<noteq> NULL"
  proof
    assume "p + off_name = NULL"
    moreover have "(p + off_name) AND PAGE_MASK = p" by (rule page_of_offset [OF K(3)]) simp
    ultimately show False using K(2) by simp
  qed
  obtain m' where I: "InitThread g (s\<lparr>mem := m1\<rparr>) p name priority = Ok () (s\<lparr>mem := m', next_pid := ?np\<rparr>)"
    "fresh_pcb m' p ?np xs (if p = main_thread s then TASK_RUNNING else TASK_READY) (ucast priority)"
    "lock_free (s\<lparr>mem := m', next_pid := ?np\<rparr>) ?l" "\<forall>y. \<not> inr y p 236 \<and> \<not> inr y ?l 28 \<longrightarrow> m' y = m1 y"
    using InitThread_effect [OF K(2) nm sp [OF room'(3)] l1 n1 n(2,3) sp [OF room'(4)] room'(5), of priority] by auto
  have "p \<noteq> main_thread s" using mt room'(2) by auto
  moreover have "eq_on m' (mem s) b k" if ap: "kpalloc_apart g s p 4096 b k" "sep ?l 28 b k" for b k
    unfolding eq_on_def
  proof (intro allI impI)
    fix y assume y: "inr y b k"
    then have "0 < k" by (cases k) auto
    with sep_disjoint [OF sep_sym [OF sp [OF ap(1)]] y] sep_disjoint [OF sep_sym [OF ap(2)] y] I(4)
    have "m' y = m1 y" by blast
    also have "\<dots> = mem s y" using e1 [OF ap(1)] y by (simp add: eq_on_def)
    finally show "m' y = mem s y" .
  qed
  ultimately show thesis using that K(1) I(1-3) by auto
qed

text \<open>The nodes of both lists are in the list heads and in the pages of the threads.\<close>

lemma list_nodes_frame:
  assumes "only_nodes m m1 (sched_nodes g ts)" "only_nodes m1 m2 (all_nodes g ts)" "0 < k"
    and x: "\<forall>(b, n) \<in> {(ready_thread_list g, 16), (all_thread_list g, 16)} \<union> (\<lambda>q. (q, 4096)) ` ts. sep b n x k"
  shows "eq_on m2 m x k"
proof -
  let ?r = "ready_thread_list g" and ?a = "all_thread_list g"
  have part: "sep (b + off) 8 x k" if "sep b n x k" "unat off + 8 \<le> n" for b n off
    by (rule sep_offset_left [OF that]) (use assms(3) in simp_all)
  have X: "sep ?r 16 x k" "sep ?a 16 x k" "\<forall>q \<in> ts. sep q 4096 x k" using x by auto
  note H = part [OF X(1), of 0] part [OF X(1), of 8] part [OF X(2), of 0] part [OF X(2), of 8]
  have "sep y 8 x k" if "y \<in> sched_nodes g ts" for y
    using that H(1,2) X(3) part [of _ 4096 32] by (auto simp: sched_nodes_def general_tag_def)
  then have "eq_on m1 m x k" by (rule only_nodes_eq_on [OF assms(1)])
  moreover have "sep y 8 x k" if "y \<in> all_nodes g ts" for y
    using that H(3,4) X(3) part [of _ 4096 40] by (auto simp: all_nodes_def all_list_tag_def)
  then have "eq_on m2 m1 x k" by (rule only_nodes_eq_on [OF assms(2)])
  ultimately show ?thesis by (simp add: eq_on_def)
qed

lemma publish_thread:
  assumes R: "rep g ts c (mem s) a" and A: "all_rep g ts (mem s) ys" and p: "p \<notin> ts" "layout g (insert p ts)"
    "sep (all_thread_list g) 16 p 4096" "PCB_status (mem s) p = task_code TASK_READY" "saved_esp_ok (mem s) p"
  obtains m1 m2 where "enlist fn cond s (ready_thread_list g) (general_tag p) = Ok () (s\<lparr>mem := m1\<rparr>)"
    "enlist fn' cond' (s\<lparr>mem := m1\<rparr>) (all_thread_list g) (all_list_tag p) = Ok () (s\<lparr>mem := m2\<rparr>)"
    "rep g (insert p ts) c m2 (a_spawn p a)" "all_rep g (insert p ts) m2 (ys @ [p])"
    "\<forall>q \<in> insert p ts. \<forall>off n. 0 < n \<and> (unat off + n \<le> 32 \<or> 48 \<le> unat off \<and> unat off + n \<le> 4096) \<longrightarrow> eq_on m2 (mem s) (q + off) n"
    "\<forall>x k. 0 < k \<and> (\<forall>(b, n) \<in> {(ready_thread_list g, 16), (all_thread_list g, 16)} \<union> (\<lambda>q. (q, 4096)) ` insert p ts. sep b n x k)
       \<longrightarrow> eq_on m2 (mem s) x k"
proof -
  let ?ts = "insert p ts" and ?a = "a\<lparr>status := (status a)(p := TASK_READY)\<rparr>" and ?al = "all_thread_list g"
  have R1: "rep g ?ts c (mem s) ?a" by (rule rep_insert [OF R p(2,4,5,1)])
  have rd: "set (ready a) \<subseteq> ts" using R by (simp add: rep_def)
  then have "p \<notin> set (ready ?a)" using p(1) by auto
  then obtain m1 where E: "enlist fn cond s (ready_thread_list g) (general_tag p) = Ok () (s\<lparr>mem := m1\<rparr>)"
    "rep g ?ts c m1 (?a\<lparr>ready := ready ?a @ [p]\<rparr>)" "only_nodes (mem s) m1 (sched_nodes g ?ts)"
    using enlist_ready [OF R1 insertI1] by metis
  have A1: "all_rep g ?ts (mem s) ys" using A p(3) by (auto simp: all_rep_def)
  then have al: "sep ?al 16 (ready_thread_list g) 16" "\<forall>q \<in> ?ts. sep ?al 16 q 4096" by (simp_all add: all_rep_def)
  have fld: "eq_on m1 (mem s) (q + off) n" if "q \<in> ?ts" "0 < n" "unat off + n \<le> 32 \<or> 40 \<le> unat off \<and> unat off + n \<le> 4096" for q off n
    by (rule only_nodes_eq_on [OF E(3) node_field_sep [OF p(2) that(1) _ that(2,3)]])
  have "eq_on m1 (mem s) ?al 16"
  proof (rule only_nodes_eq_on [OF E(3)])
    fix x assume "x \<in> sched_nodes g ?ts"
    then consider "x = ready_thread_list g" | "x = ready_thread_list g + 8" | q where "q \<in> ?ts" "x = q + 32"
      by (auto simp: sched_nodes_def general_tag_def)
    then show "sep x 8 ?al 16"
      using sep_parts [OF sep_sym [OF al(1)], of 0 8 0 16] sep_parts [OF sep_sym [OF al(1)], of 8 8 0 16]
        sep_sym [OF sep_offset_right [of ?al 16 _ 4096 32 8]] al(2) by cases auto
  qed
  then have "all_rep g ?ts m1 ys"
    by (rule all_rep_frame [OF A1]) (use fld [of _ 8 40] in auto)
  then have A2: "all_rep g ?ts (mem (s\<lparr>mem := m1\<rparr>)) ys" by simp
  have "p \<notin> set ys" using A p(1) by (auto simp: all_rep_def)
  with enlist_all [OF A2 p(2) insertI1] obtain m2 where F:
    "enlist fn' cond' (s\<lparr>mem := m1\<rparr>) ?al (all_list_tag p) = Ok () (s\<lparr>mem := m2\<rparr>)"
    "all_rep g ?ts m2 (ys @ [p])" "only_nodes m1 m2 (all_nodes g ?ts)"
    by (metis (no_types, lifting) kstate.select_convs(1) kstate.surjective kstate.update_convs(1))
  note S = all_node_sep [OF p(2) al]
  have "eq_on m2 m1 (ready_thread_list g) 16" by (rule only_nodes_eq_on [OF F(3) S(2)])
  moreover have fld2: "eq_on m2 m1 (q + off) n"
    if "q \<in> ?ts" "0 < n" "unat off + n \<le> 40 \<or> 48 \<le> unat off \<and> unat off + n \<le> 4096" for q off n
    by (rule only_nodes_eq_on [OF F(3) S(1) [OF _ that]])
  then have "\<forall>q \<in> ?ts. eq_on m2 m1 q 40" using fld2 [of _ 40 0] by simp
  ultimately have "rep g ?ts c m2 (?a\<lparr>ready := ready ?a @ [p]\<rparr>)" by (rule rep_frame [OF E(2)])
  moreover have "?a\<lparr>ready := ready ?a @ [p]\<rparr> = a_spawn p a" by (cases a) (simp add: a_spawn_def)
  ultimately have "rep g ?ts c m2 (a_spawn p a)" by simp
  moreover have "eq_on m2 (mem s) (q + off) n"
    if "q \<in> ?ts" "0 < n" "unat off + n \<le> 32 \<or> 48 \<le> unat off \<and> unat off + n \<le> 4096" for q off n
    using fld [OF that(1), of n off] fld2 [OF that(1), of n off] that by (auto simp: eq_on_def)
  moreover note list_nodes_frame [OF E(3) F(3)]
  ultimately show thesis by (intro that [OF E(1) F(1) _ F(2)]) blast+
qed

lemma first_frame_cong:
  assumes "eq_on m' m sp 32" "first_frame g m sp f arg"
  shows "first_frame g m' sp f arg"
proof -
  have "ld32 m' (sp + off) = ld32 m (sp + off)" if "unat off + 4 \<le> 32" for off
    by (rule ld32_cong [OF eq_on_part [OF assms(1) that]])
  from this [of 0] this [of 8] this [of 12] this [of 16] this [of 24] this [of 28] assms(2) show ?thesis
    by (simp add: first_frame_def)
qed

text \<open>
  The first switch to a thread: \<open>switch_to\<close> returns to \<open>KernelThread\<close>, which finds its two arguments
  behind the word where a caller would have put its return address.
\<close>

definition starts_in :: "symbols \<Rightarrow> kstate \<Rightarrow> addr \<Rightarrow> addr \<Rightarrow> addr \<Rightarrow> addr \<Rightarrow> bool" where
  "starts_in g s q p f arg \<longleftrightarrow>
     (let t = switch_to s q p
      in GetCurrentThreadPCB t = p \<and> ld32 (mem t) (esp t - 4) = fn_addr g Fn_KernelThread
         \<and> ld32 (mem t) (esp t + 4) = f \<and> ld32 (mem t) (esp t + 8) = arg)"

lemma first_switch:
  assumes "self_kernel_stack (mem s) p = p + 3664" "first_frame g (mem s) (p + 3664) f arg" "page_aligned p" "sep q 4096 p 4096"
  shows "starts_in g s q p f arg"
proof -
  let ?m = "st32 (mem s) q (esp s - 28)"
  have q: "sep q 4 (p + off) 4" if "unat off + 4 \<le> 4096" for off
    using sep_parts [OF assms(4), of 0 4 off 4] that by simp
  have e: "ld32 ?m (p + off) = ld32 (mem s) (p + off)" if "unat off + 4 \<le> 4096" for off
    using q [OF that] by simp
  have "(p + 3684) AND PAGE_MASK = p" by (rule page_of_offset [OF assms(3)]) simp
  then show ?thesis
    using assms(1,2) e [of 0] e [of 3680] e [of 3688] e [of 3692]
    by (simp add: starts_in_def switch_to_def Let_def self_kernel_stack_def first_frame_def GetCurrentThreadPCB_def add.assoc)
      (simp add: add.commute)
qed

lemma prepare_thread:
  assumes R: "rep g ts c (mem s) a" and A: "all_rep g ts (mem s) ys"
    and room: "spawn_room g s ts p name (Suc (length xs))" and n: "cstr (mem s) name xs" "length xs \<le> 15" "name \<noteq> NULL"
    and l: "lock_free s (pid_lock g)" and mt: "main_thread s \<in> ts"
  obtains m1 m2 m3 where "kpalloc g s 1 = Ok p (s\<lparr>mem := m1\<rparr>)"
    "InitThread g (s\<lparr>mem := m1\<rparr>) p name priority = Ok () (s\<lparr>mem := m2, next_pid := next_pid s + 1\<rparr>)"
    "ThreadCreate g (s\<lparr>mem := m2, next_pid := next_pid s + 1\<rparr>) p f arg = s\<lparr>mem := m3, next_pid := next_pid s + 1\<rparr>"
    "rep g ts c m3 a" "all_rep g ts m3 ys" "PCB_status m3 p = task_code TASK_READY" "self_kernel_stack m3 p = p + 3664"
    "first_frame g m3 (p + 3664) f arg" "ld16 m3 (p + off_pid) = next_pid s + 1" "cstr m3 (p + off_name) xs"
proof -
  let ?np = "next_pid s + 1"
  obtain m1 m2 where I: "kpalloc g s 1 = Ok p (s\<lparr>mem := m1\<rparr>)"
    "InitThread g (s\<lparr>mem := m1\<rparr>) p name priority = Ok () (s\<lparr>mem := m2, next_pid := ?np\<rparr>)"
    "fresh_pcb m2 p ?np xs TASK_READY (ucast priority)"
    "\<forall>b k. kpalloc_apart g s p 4096 b k \<and> sep (pid_lock g) 28 b k \<longrightarrow> eq_on m2 (mem s) b k"
    by (rule start_thread [OF room n l mt])
  let ?s2 = "s\<lparr>mem := m2, next_pid := ?np\<rparr>"
  have "self_kernel_stack (mem ?s2) p = p + PAGE_SIZE" using I(3) by (simp add: fresh_pcb_def)
  then obtain m3 where C: "ThreadCreate g ?s2 p f arg = ?s2\<lparr>mem := m3\<rparr>" "self_kernel_stack m3 p = p + 3664"
    "first_frame g m3 (p + 3664) f arg" "eq_on m3 (mem ?s2) (p + 4) 3660" "only_in (mem ?s2) m3 p 4096"
    by (rule ThreadCreate_effect)
  have C4: "eq_on m3 m2 (p + off) k" if "4 \<le> unat off" "unat off + k \<le> 3664" for off k
  proof -
    have "unat (off - 4) = unat off - 4" using that(1) by (simp add: unat_sub word_le_nat_alt)
    then show ?thesis using eq_on_part [OF C(4), of "off - 4" k] that by simp
  qed
  have fr: "eq_on m3 (mem s) b k" if "kpalloc_apart g s p 4096 b k" "sep (pid_lock g) 28 b k" for b k
    using I(4) that only_in_sep [OF C(5), of b k] by (auto simp: eq_on_def kpalloc_apart_def)
  have rm: "kpalloc_apart g s p 4096 (ready_thread_list g) 16" "sep (pid_lock g) 28 (ready_thread_list g) 16"
    "kpalloc_apart g s p 4096 (all_thread_list g) 16" "sep (pid_lock g) 28 (all_thread_list g) 16"
    "\<forall>q \<in> ts. kpalloc_apart g s p 4096 q 4096 \<and> sep (pid_lock g) 28 q 4096"
    using room by (simp_all add: spawn_room_def)
  have pgs: "eq_on m3 (mem s) (q + off) k" if "q \<in> ts" "unat off + k \<le> 4096" for q off k
    using eq_on_part [OF fr [of q 4096] that(2)] rm(5) that(1) by blast
  show thesis
  proof (rule that [OF I(1,2)])
    show "ThreadCreate g ?s2 p f arg = s\<lparr>mem := m3, next_pid := ?np\<rparr>" using C(1) by (simp add: next_pid_mem)
    show "rep g ts c m3 a" using rep_frame [OF R fr [OF rm(1,2)]] pgs [of _ 0 40] by simp
    show "all_rep g ts m3 ys" using all_rep_frame [OF A fr [OF rm(3,4)]] pgs [of _ 40 8] by simp
    show "PCB_status m3 p = task_code TASK_READY"
      using ld32_cong [OF C4 [of 8 4]] I(3) by (simp add: fresh_pcb_def PCB_status_def)
    show "ld16 m3 (p + off_pid) = ?np" using ld16_cong [OF C4 [of 4 2]] I(3) by (simp add: fresh_pcb_def)
    show "cstr m3 (p + off_name) xs" using cstr_cong [OF C4 [of 13 "Suc (length xs)"]] n(2) I(3) by (simp add: fresh_pcb_def)
  qed (fact C(2,3))+
qed

text \<open>C9. Thread creation refines adding a ready thread. When a page and room for it are there,
  \<open>ThreadStart\<close> returns the page as the new PCB: the scheduler's state has the thread at the end of the
  ready sequence with status \<open>TASK_READY\<close>, the list of all threads has it at the end, its \<open>pid\<close> is the next
  number, its name is the given one, and the first switch to it from any other thread enters
  \<open>KernelThread\<close> with the given function and argument.\<close>

theorem ThreadStart_spawns:
  assumes "rep g ts c (mem s) a" "sched_inv ts a" "all_rep g ts (mem s) ys"
    and "spawn_room g s ts p name (Suc (length xs))" "cstr (mem s) name xs" "length xs \<le> 15" "name \<noteq> NULL"
    and "lock_free s (pid_lock g)" "main_thread s \<in> ts" "sep (all_thread_list g) 16 p 4096"
  shows "\<exists>m'. ThreadStart g s name priority f arg = Ok p (s\<lparr>mem := m', next_pid := next_pid s + 1\<rparr>)
    \<and> rep g (insert p ts) c m' (a_spawn p a) \<and> sched_inv (insert p ts) (a_spawn p a)
    \<and> all_rep g (insert p ts) m' (ys @ [p])
    \<and> ld16 m' (p + off_pid) = next_pid s + 1 \<and> cstr m' (p + off_name) xs
    \<and> (\<forall>q \<in> ts. starts_in g (s\<lparr>mem := m', next_pid := next_pid s + 1\<rparr>) q p f arg)"
proof -
  have room: "p \<notin> ts" "layout g (insert p ts)" using assms(4) by (simp_all add: spawn_room_def)
  then have pg: "page_aligned p" "\<And>q. q \<in> ts \<Longrightarrow> page_aligned q" by (simp_all add: layout_def)
  obtain m1 m2 m3 where I: "kpalloc g s 1 = Ok p (s\<lparr>mem := m1\<rparr>)"
    "InitThread g (s\<lparr>mem := m1\<rparr>) p name priority = Ok () (s\<lparr>mem := m2, next_pid := next_pid s + 1\<rparr>)"
    "ThreadCreate g (s\<lparr>mem := m2, next_pid := next_pid s + 1\<rparr>) p f arg = s\<lparr>mem := m3, next_pid := next_pid s + 1\<rparr>"
    "rep g ts c m3 a" "all_rep g ts m3 ys" "PCB_status m3 p = task_code TASK_READY" "self_kernel_stack m3 p = p + 3664"
    "first_frame g m3 (p + 3664) f arg" "ld16 m3 (p + off_pid) = next_pid s + 1" "cstr m3 (p + off_name) xs"
    by (rule prepare_thread [OF assms(1,3-9)])
  let ?s3 = "s\<lparr>mem := m3, next_pid := next_pid s + 1\<rparr>"
  have es: "saved_esp_ok (mem ?s3) p" using I(7) by (simp add: saved_esp_ok_def self_kernel_stack_def inr_def)
  have R: "rep g ts c (mem ?s3) a" "all_rep g ts (mem ?s3) ys" "PCB_status (mem ?s3) p = task_code TASK_READY" using I by simp_all
  obtain m4 m5 where P:
    "enlist ''ThreadStart'' ''!elem_find(&ready_thread_list, &thread_PCB->general_tag)'' ?s3 (ready_thread_list g) (general_tag p)
       = Ok () (?s3\<lparr>mem := m4\<rparr>)"
    "enlist ''ThreadStart'' ''!elem_find(&all_thread_list, &thread_PCB->all_list_tag)'' (?s3\<lparr>mem := m4\<rparr>) (all_thread_list g) (all_list_tag p)
       = Ok () (?s3\<lparr>mem := m5\<rparr>)"
    "rep g (insert p ts) c m5 (a_spawn p a)" "all_rep g (insert p ts) m5 (ys @ [p])"
    "\<forall>q \<in> insert p ts. \<forall>off n. 0 < n \<and> (unat off + n \<le> 32 \<or> 48 \<le> unat off \<and> unat off + n \<le> 4096) \<longrightarrow> eq_on m5 (mem ?s3) (q + off) n"
    by (rule publish_thread [OF R(1,2) room assms(10) R(3) es]) (rule that)
  have e: "eq_on m5 m3 (p + off) n" if "0 < n" "unat off + n \<le> 32 \<or> 48 \<le> unat off \<and> unat off + n \<le> 4096" for off n
    using P(5) that by auto
  let ?s5 = "s\<lparr>mem := m5, next_pid := next_pid s + 1\<rparr>"
  have "ThreadStart g s name priority f arg = Ok p ?s5"
    using I(1-3) P(1,2) by (simp add: ThreadStart_def next_pid_mem)
  moreover have "ld16 m5 (p + off_pid) = next_pid s + 1" using ld16_cong [OF e [of 2 4]] I(9) by simp
  moreover have "cstr m5 (p + off_name) xs" using cstr_cong [OF e [of "Suc (length xs)" 13]] I(10) assms(6) by simp
  moreover have "starts_in g ?s5 q p f arg" if q: "q \<in> ts" for q
  proof (rule first_switch)
    show "self_kernel_stack (mem ?s5) p = p + 3664" using ld32_cong [OF e [of 4 0]] I(7) by (simp add: self_kernel_stack_def)
    show "first_frame g (mem ?s5) (p + 3664) f arg" using first_frame_cong [OF e [of 32 3664] I(8)] by simp
    show "sep q 4096 p 4096" using q room(1) by (intro pages_sep pg) auto
  qed (fact pg(1))
  ultimately show ?thesis using P(3,4) a_spawn_inv [OF assms(2) room(1)] by blast
qed

section \<open>The first thread\<close>

text \<open>Where the thread that boots the kernel and the objects of the thread code are, before \<open>ThreadInit\<close>.\<close>

definition boot_room :: "symbols \<Rightarrow> addr \<Rightarrow> addr \<Rightarrow> nat \<Rightarrow> bool" where
  "boot_room g p name k \<longleftrightarrow> layout g {p} \<and> sep (all_thread_list g) 16 (ready_thread_list g) 16
     \<and> sep (all_thread_list g) 16 p 4096 \<and> name \<noteq> NULL
     \<and> (\<forall>(b, n) \<in> {(ready_thread_list g, 16), (all_thread_list g, 16), (p, 4096), (name, k)}. sep (pid_lock g) 28 b n)
     \<and> (\<forall>(b, n) \<in> {(ready_thread_list g, 16), (all_thread_list g, 16), (p, 4096)}. sep b n name k)"

lemma boot_lists:
  assumes "sep (all_thread_list g) 16 (ready_thread_list g) 16" "sep (pid_lock g) 28 (ready_thread_list g) 16"
    "sep (pid_lock g) 28 (all_thread_list g) 16" "GetCurrentThreadPCB s \<noteq> NULL"
  obtains m' where "LockInit (list_init (list_init s (ready_thread_list g)) (all_thread_list g)) (pid_lock g) = s\<lparr>mem := m'\<rparr>"
    "is_list m' (ready_thread_list g) []" "is_list m' (all_thread_list g) []" "lock_free (s\<lparr>mem := m'\<rparr>) (pid_lock g)"
    "\<forall>y. \<not> inr y (ready_thread_list g) 16 \<and> \<not> inr y (all_thread_list g) 16 \<and> \<not> inr y (pid_lock g) 28 \<longrightarrow> m' y = mem s y"
proof -
  let ?r = "ready_thread_list g" and ?a = "all_thread_list g" and ?l = "pid_lock g"
  obtain m1 where m1: "list_init s ?r = s\<lparr>mem := m1\<rparr>" "is_list m1 ?r []" "only_in (mem s) m1 ?r 16"
    using list_init_effect [of s ?r] unfolding mem_only_def by metis
  obtain m2 where m2: "list_init (s\<lparr>mem := m1\<rparr>) ?a = s\<lparr>mem := m2\<rparr>" "is_list m2 ?a []" "only_in m1 m2 ?a 16"
    using list_init_effect [of "s\<lparr>mem := m1\<rparr>" ?a] unfolding mem_only_def by (auto elim!: subst)
  have "GetCurrentThreadPCB (s\<lparr>mem := m2\<rparr>) \<noteq> NULL" using assms(4) by (simp add: GetCurrentThreadPCB_def)
  then obtain m3 where m3: "LockInit (s\<lparr>mem := m2\<rparr>) ?l = s\<lparr>mem := m3\<rparr>" "lock_free (s\<lparr>mem := m3\<rparr>) ?l" "only_in m2 m3 ?l 28"
    using LockInit_free [of "s\<lparr>mem := m2\<rparr>" ?l] by auto
  have half: "sep b n l 8" "sep b n (list_tail l) 8" if "sep b n l 16" "0 < n" for b n l
    using sep_offset_right [OF that(1), of 0 8] sep_offset_right [OF that(1), of 8 8] that(2) by simp_all
  have keep: "is_list m' l []" if "is_list m l []" "only_in m m' b n" "sep b n l 16" "0 < n" for m m' b n l
    by (rule is_list_only_in [OF that(1,2)]) (use half [OF that(3,4)] in auto)
  show thesis
  proof (rule that [OF _ _ _ m3(2)])
    show "is_list m3 ?r []" using keep [OF keep [OF m1(2) m2(3) assms(1)] m3(3) assms(2)] by simp
    show "is_list m3 ?a []" using keep [OF m2(2) m3(3) assms(3)] by simp
    show "\<forall>y. \<not> inr y ?r 16 \<and> \<not> inr y ?a 16 \<and> \<not> inr y ?l 28 \<longrightarrow> m3 y = mem s y"
      using m1(3) m2(3) m3(3) by (simp add: only_in_def)
  qed (use m1(1) m2(1) m3(1) in simp)
qed

definition boot_sched :: "addr \<Rightarrow> sched" where
  "boot_sched p = \<lparr>running = p, ready = [], status = (\<lambda>_. TASK_RUNNING)\<rparr>"

lemma boot_main:
  assumes room: "boot_room g p (literal g ''main'') (Suc (length xs))" and p: "p = GetCurrentThreadPCB s"
    and n: "cstr (mem s) (literal g ''main'') xs" "length xs \<le> 15" and l: "lock_free s (pid_lock g)"
    and L: "is_list (mem s) (ready_thread_list g) []" "is_list (mem s) (all_thread_list g) []"
  obtains m' where "CreateMainThread g s = Ok () (s\<lparr>main_thread := p, mem := m', next_pid := next_pid s + 1\<rparr>)"
    "rep g {p} p m' (boot_sched p)" "all_rep g {p} m' [p]" "lock_free (s\<lparr>mem := m'\<rparr>) (pid_lock g)"
proof -
  let ?name = "literal g ''main''" and ?k = "Suc (length xs)" and ?l = "pid_lock g" and ?np = "next_pid s + 1"
  let ?r = "ready_thread_list g" and ?a = "all_thread_list g" and ?s1 = "s\<lparr>main_thread := p\<rparr>"
  have R: "layout g {p}" "sep ?a 16 ?r 16" "sep ?a 16 p 4096" "?name \<noteq> NULL" "sep ?l 28 ?r 16" "sep ?l 28 ?a 16" "sep ?l 28 p 4096"
    "sep ?l 28 ?name ?k" "sep p 4096 ?name ?k" using room by (simp_all add: boot_room_def)
  have pg: "p \<noteq> NULL" "page_aligned p" "sep ?r 16 p 4096" using R(1) by (simp_all add: layout_def)
  have nm: "p + off_name \<noteq> NULL"
  proof
    assume "p + off_name = NULL"
    moreover have "(p + off_name) AND PAGE_MASK = p" by (rule page_of_offset [OF pg(2)]) simp
    ultimately show False using pg(1) by simp
  qed
  have sp: "sep p 236 b k" if "sep p 4096 b k" "0 < k" for b k using sep_offset_left [OF that(1), of 0 236] that(2) by simp
  have l1: "lock_free ?s1 ?l" using l by (simp add: lock_free_def GetCurrentThreadPCB_def)
  obtain m1 where I: "InitThread g ?s1 p ?name 31 = Ok () (?s1\<lparr>mem := m1, next_pid := ?np\<rparr>)"
    "fresh_pcb m1 p ?np xs TASK_RUNNING 31" "lock_free (?s1\<lparr>mem := m1, next_pid := ?np\<rparr>) ?l"
    "\<forall>y. \<not> inr y p 236 \<and> \<not> inr y ?l 28 \<longrightarrow> m1 y = mem s y"
    using InitThread_effect [OF pg(1) nm sp [OF sep_sym [OF R(7)]] l1 _ n(2) R(4) sp [OF R(9)] R(8), of 31] n(1) by auto
  have fr: "eq_on m1 (mem s) b k" if "sep p 4096 b k" "sep ?l 28 b k" "0 < k" for b k
    using I(4) sep_disjoint [OF sep_sym [OF sp [OF that(1,3)]]] sep_disjoint [OF sep_sym [OF that(2)]] by (auto simp: eq_on_def)
  have keep: "is_list m1 lst []" if "is_list (mem s) lst []" "sep lst 16 p 4096" "sep ?l 28 lst 16" for lst
  proof (rule is_list_frame [OF that(1)])
    have e: "eq_on m1 (mem s) lst 16" by (rule fr [OF sep_sym [OF that(2)] that(3)]) simp
    fix x assume "x \<in> set (nodes lst [])"
    then show "eq_on m1 (mem s) x 8" using eq_on_part [OF e, of 0 8] eq_on_part [OF e, of 8 8] by auto
  qed
  have R1: "rep g {p} p m1 (boot_sched p)"
    using I(2) R(1) keep [OF L(1) pg(3) R(5)] by (simp add: rep_def boot_sched_def fresh_pcb_def)
  let ?s2 = "?s1\<lparr>mem := m1, next_pid := ?np\<rparr>"
  have A1: "all_rep g {p} (mem ?s2) []" using keep [OF L(2) R(3,6)] R(2,3) by (simp add: all_rep_def)
  obtain m2 where E: "enlist ''CreateMainThread'' ''!elem_find(&all_thread_list, &main_thread->all_list_tag)'' ?s2 ?a (all_list_tag p)
      = Ok () (?s2\<lparr>mem := m2\<rparr>)" "all_rep g {p} m2 ([] @ [p])" "only_nodes (mem ?s2) m2 (all_nodes g {p})"
    by (rule enlist_all [OF A1 R(1)]) simp_all
  note S = all_node_sep [OF R(1,2)]
  have "rep g {p} p m2 (boot_sched p)"
    by (rule rep_frame [OF R1]) (use only_nodes_eq_on [OF E(3)] S(1) [of _ p 40 0] S(2) R(3) in auto)
  moreover have "CreateMainThread g s = Ok () (s\<lparr>main_thread := p, mem := m2, next_pid := ?np\<rparr>)"
    using I(1) E(1) by (simp add: CreateMainThread_def p [symmetric] next_pid_mem)
  moreover have "eq_on m2 m1 ?l 28"
  proof (rule only_nodes_eq_on)
    show "only_nodes m1 m2 (all_nodes g {p})" using E(3) by simp
    fix x assume "x \<in> all_nodes g {p}"
    then consider "x = ?a" | "x = ?a + 8" | "x = p + 40" by (auto simp: all_nodes_def all_list_tag_def)
    then show "sep x 8 ?l 28"
      using sep_parts [OF sep_sym [OF R(6)], of 0 8 0 28] sep_parts [OF sep_sym [OF R(6)], of 8 8 0 28]
        sep_offset_left [OF sep_sym [OF R(7)], of 40 8] by cases auto
  qed
  then have "lock_free (s\<lparr>mem := m2\<rparr>) ?l"
    using I(3) lock_words_cong [of m2 m1 ?l] unfolding lock_view by (simp add: GetCurrentThreadPCB_def)
  ultimately show thesis using that E(2) by auto
qed

text \<open>C10. \<open>ThreadInit\<close> establishes the scheduler's state. Called on the stack in the page \<open>p\<close>, it turns
  the running code into the main thread: the scheduler's invariant holds with \<open>p\<close> running and no
  thread ready, the list of all threads is \<open>p\<close> alone, and the lock of the process identifiers is free.\<close>

theorem ThreadInit_boots:
  assumes "boot_room g p (literal g ''main'') (Suc (length xs))" "p = GetCurrentThreadPCB s"
    and "cstr (mem s) (literal g ''main'') xs" "length xs \<le> 15"
  shows "\<exists>t. ThreadInit g s = Ok () t \<and> rep g {p} p (mem t) (boot_sched p) \<and> sched_inv {p} (boot_sched p)
    \<and> all_rep g {p} (mem t) [p] \<and> main_thread t = p \<and> GetCurrentThreadPCB t = p \<and> next_pid t = next_pid s + 1
    \<and> lock_free t (pid_lock g) \<and> screen t = screen s @ ascii ''thread_init..'' @ ascii ('' done'' @ [CHR ''\<newline>''])"
proof -
  let ?s1 = "putlit s ''thread_init..''" and ?r = "ready_thread_list g" and ?a = "all_thread_list g" and ?l = "pid_lock g"
  let ?name = "literal g ''main''" and ?k = "Suc (length xs)"
  have p1: "GetCurrentThreadPCB ?s1 = p" using assms(2) by (simp add: putlit_def GetCurrentThreadPCB_def)
  have R: "layout g {p}" "sep ?a 16 ?r 16" "sep ?l 28 ?r 16" "sep ?l 28 ?a 16" "sep ?l 28 ?name ?k" "sep ?r 16 ?name ?k" "sep ?a 16 ?name ?k"
    using assms(1) by (simp_all add: boot_room_def)
  have "GetCurrentThreadPCB ?s1 \<noteq> NULL" using R(1) p1 by (simp add: layout_def)
  then obtain m1 where B: "LockInit (list_init (list_init ?s1 ?r) ?a) ?l = ?s1\<lparr>mem := m1\<rparr>" "is_list m1 ?r []" "is_list m1 ?a []"
    "lock_free (?s1\<lparr>mem := m1\<rparr>) ?l" "\<forall>y. \<not> inr y ?r 16 \<and> \<not> inr y ?a 16 \<and> \<not> inr y ?l 28 \<longrightarrow> m1 y = mem ?s1 y"
    by (rule boot_lists [OF R(2-4)])
  have "eq_on m1 (mem s) ?name ?k"
    using B(5) sep_disjoint [OF sep_sym [OF R(5)]] sep_disjoint [OF sep_sym [OF R(6)]] sep_disjoint [OF sep_sym [OF R(7)]]
    by (simp add: eq_on_def)
  then have n: "cstr m1 ?name xs" using cstr_cong assms(3) by blast
  let ?s2 = "?s1\<lparr>mem := m1\<rparr>"
  have "p = GetCurrentThreadPCB ?s2" "cstr (mem ?s2) ?name xs" "is_list (mem ?s2) ?r []" "is_list (mem ?s2) ?a []"
    using p1 n B(2,3) by (simp_all add: GetCurrentThreadPCB_def)
  then obtain m' where C: "CreateMainThread g ?s2 = Ok () (?s2\<lparr>main_thread := p, mem := m', next_pid := next_pid ?s2 + 1\<rparr>)"
    "rep g {p} p m' (boot_sched p)" "all_rep g {p} m' [p]" "lock_free (?s2\<lparr>mem := m'\<rparr>) ?l"
    using boot_main [OF assms(1) _ _ assms(4) B(4)] by metis
  have "lock_free (putlit (?s2\<lparr>main_thread := p, mem := m', next_pid := next_pid ?s2 + 1\<rparr>) ('' done'' @ [CHR ''\<newline>''])) ?l"
    using C(4) by (simp add: lock_free_def GetCurrentThreadPCB_def putlit_def)
  moreover have "sched_inv {p} (boot_sched p)" by (simp add: sched_inv_def boot_sched_def)
  ultimately show ?thesis
    using B(1) C(1-3) p1 by (simp add: ThreadInit_def putlit_def GetCurrentThreadPCB_def)
qed

section \<open>A small system\<close>

text \<open>
  Two threads, \<open>0x2000\<close> running and \<open>0x3000\<close> ready, both in the list of all threads; the pools of
  \<open>demo_pools\<close>; free locks; the string \<open>"k"\<close> at \<open>0x7000\<close>.
\<close>

definition demo_threads :: mem where
  "demo_threads = st8 (st32 (st8 (st32 (st8 (st32 (st32 (st32 (st32 (st32 (st32 (st32 (st32 (st32 (st32 (st32 (st32 demo_pools
     0x1004 0x3020) 0x1008 0x3020) 0x3020 0x1000) 0x3024 0x1008)
     0x3008 1) 0x3000 0x3EE4)
     0x1014 0x2028) 0x2028 0x1010) 0x202C 0x3028) 0x3028 0x2028) 0x302C 0x1018) 0x1018 0x3028)
     0x1024 1) 0x102C 0x1030) 0x1114 1) 0x111C 0x1120) 0x7000 107"

definition demo_thread_state :: kstate where
  "demo_thread_state = demo_state\<lparr>mem := demo_threads\<rparr>"

lemma demo_threads_rep:
  "rep demo_symbols {0x2000, 0x3000} 0x2000 demo_threads demo_sched"
  "all_rep demo_symbols {0x2000, 0x3000} demo_threads [0x2000, 0x3000]"
proof -
  have "is_list demo_threads 0x1000 [0x3020]"
    by (simp add: demo_simps demo_threads_def demo_pools_def)
  moreover have "PCB_status demo_threads 0x2000 = 0" "PCB_status demo_threads 0x3000 = 1" "saved_esp_ok demo_threads 0x3000"
    by (simp_all add: demo_simps demo_threads_def demo_pools_def)
  ultimately show "rep demo_symbols {0x2000, 0x3000} 0x2000 demo_threads demo_sched"
    using demo_layout by (simp add: rep_def demo_sched_def general_tag_def demo_symbols_def)
  have "is_list demo_threads 0x1010 [0x2028, 0x3028]"
    by (simp add: demo_simps demo_threads_def demo_pools_def)
  then show "all_rep demo_symbols {0x2000, 0x3000} demo_threads [0x2000, 0x3000]"
    by (simp add: all_rep_def all_list_tag_def demo_symbols_def sep_def)
qed

lemma demo_threads_ready: "palloc_ready demo_symbols demo_thread_state KERNEL_POOL 1 0 0x200000 8"
proof -
  have m: "mem demo_thread_state = demo_threads" by (simp add: demo_thread_state_def)
  have T: "vaddr_pool demo_symbols demo_thread_state KERNEL_POOL = 0x1300" "memory_pool_of demo_symbols KERNEL_POOL = 0x1100"
    by (simp_all add: vaddr_pool_def memory_pool_of_def demo_symbols_def)
  have W: "bitmap_bytes_len demo_threads 0x1100 = 1" "bits demo_threads 0x1100 = 0xC009A000"
    "physic_addr_start demo_threads 0x1100 = 0x200000"
    "bitmap_bytes_len demo_threads 0x1300 = 1" "bits demo_threads 0x1300 = 0xC009A001"
    "vaddr_start demo_threads 0x1300 = 0xC0100000"
    by (simp_all add: demo_threads_def demo_pools_def bitmap_bytes_len_def bits_def physic_addr_start_def vaddr_start_def sep_def)
  have B: "\<not> bm demo_threads 0x1100 j" "\<not> bm demo_threads 0x1300 j" if "j < 8" for j
    using that by (simp_all add: bm_def W) (simp_all add: demo_threads_def demo_pools_def sep_def)
  have fr: "first_run (bm demo_threads 0x1300) 1 (bm_size demo_threads 0x1300) = Some 0"
    using B(2) by (simp add: first_run_Some run_free_def bm_size_def W)
  have up: "used_pages 0x1100 demo_thread_state = {}" using B(1) by (auto simp: used_pages_def m bm_size_def W)
  have hr: "heap_ready demo_threads 0xC0100000 1"
    by (simp add: heap_ready_def table_present_def page_absent_def GetPDEPointer_def GetPTEPointer_def
        PDE_IDX_def PTE_IDX_def PAGE_SIZE_def PAGE_P_1_def demo_threads_def demo_pools_def sep_def)
  show ?thesis
    unfolding palloc_ready_def Let_def T m
    using fr hr up
    by (simp add: W bitmap_wf_def sep_def pool_inv_def pool_ok_def bm_size_def m pool_apart_def page_aligned_def PAGE_MASK_def vpn_def)
qed

lemma demo_spawn_room: "spawn_room demo_symbols demo_thread_state {0x2000, 0x3000} 0xC0100000 0x7000 2"
proof -
  have m: "mem demo_thread_state = demo_threads" by (simp add: demo_thread_state_def)
  have T: "vaddr_pool demo_symbols demo_thread_state KERNEL_POOL = 0x1300" "memory_pool_of demo_symbols KERNEL_POOL = 0x1100"
    by (simp_all add: vaddr_pool_def memory_pool_of_def demo_symbols_def)
  have G: "kernel_memory_pool demo_symbols = 0x1100" "kernel_vaddr demo_symbols = 0x1300" "ready_thread_list demo_symbols = 0x1000"
    "all_thread_list demo_symbols = 0x1010" "pid_lock demo_symbols = 0x1020" by (simp_all add: demo_symbols_def)
  have W: "bitmap_bytes_len demo_threads 0x1100 = 1" "bits demo_threads 0x1100 = 0xC009A000"
    "bitmap_bytes_len demo_threads 0x1300 = 1" "bits demo_threads 0x1300 = 0xC009A001" "vaddr_start demo_threads 0x1300 = 0xC0100000"
    by (simp_all add: demo_threads_def demo_pools_def bitmap_bytes_len_def bits_def vaddr_start_def sep_def)
  have "lock_free demo_thread_state 0x1110"
    by (simp add: lock_view demo_thread_state_def demo_threads_def demo_pools_def demo_state_def GetCurrentThreadPCB_def PAGE_MASK_def sep_def)
  moreover have "\<exists>r b cap. palloc_ready demo_symbols demo_thread_state KERNEL_POOL 1 r b cap \<and> 0xC0100000 = 0xC0100000 + of_nat r * PAGE_SIZE"
    using demo_threads_ready by (intro exI [of _ 0] exI) auto
  ultimately have K: "kpalloc_ready demo_symbols demo_thread_state 1 0xC0100000"
    by (simp add: kpalloc_ready_def Let_def G pool_lock_def m W palloc_apart_def T sep_def)
  have A: "kpalloc_apart demo_symbols demo_thread_state 0xC0100000 4096 b n = (sep 0xC009A001 1 b n \<and> sep 0xC009A000 1 b n
      \<and> sep 0xFFC00000 0x400000 b n \<and> sep 0x1110 28 b n \<and> sep 0xC0100000 4096 b n)" for b n
    by (simp add: kpalloc_apart_def palloc_apart_def T m W G pool_lock_def)
  have "layout demo_symbols (insert 0xC0100000 {0x2000, 0x3000})"
    by (simp add: layout_def demo_symbols_def sep_def page_aligned_def PAGE_MASK_def)
  with K show ?thesis unfolding spawn_room_def A by (simp add: G sep_def)
qed

theorem ThreadStart_spawns_witness:
  "\<exists>m'. ThreadStart demo_symbols demo_thread_state 0x7000 5 0x6A00 0x7001
      = Ok 0xC0100000 (demo_thread_state\<lparr>mem := m', next_pid := 3\<rparr>)
    \<and> rep demo_symbols {0xC0100000, 0x2000, 0x3000} 0x2000 m' (a_spawn 0xC0100000 demo_sched)"
proof -
  have c: "cstr (mem demo_thread_state) 0x7000 [107]"
    by (simp add: demo_thread_state_def demo_threads_def demo_pools_def sep_def)
  have s: "main_thread demo_thread_state = 0x2000" "next_pid demo_thread_state = 2" "mem demo_thread_state = demo_threads"
    by (simp_all add: demo_thread_state_def demo_state_def)
  have l: "lock_free demo_thread_state (pid_lock demo_symbols)"
    by (simp add: demo_symbols_def lock_view demo_thread_state_def demo_threads_def demo_pools_def demo_state_def
        GetCurrentThreadPCB_def PAGE_MASK_def sep_def)
  have a: "sep (all_thread_list demo_symbols) 16 0xC0100000 4096" by (simp add: demo_symbols_def sep_def)
  show ?thesis
    using ThreadStart_spawns [of demo_symbols "{0x2000, 0x3000}" "0x2000" demo_thread_state demo_sched "[0x2000, 0x3000]"
        "0xC0100000" "0x7000" "[107]" 5 "0x6A00" "0x7001"] demo_threads_rep demo_rep(2) demo_spawn_room [unfolded numeral_2_eq_2] c l a s by auto
qed

definition demo_boot_state :: kstate where
  "demo_boot_state = demo_state\<lparr>mem := st8 (st8 (st8 (st8 (\<lambda>_. 0) 0x7000 109) 0x7001 97) 0x7002 105) 0x7003 110\<rparr>"

theorem ThreadInit_boots_witness:
  "\<exists>t. ThreadInit demo_symbols demo_boot_state = Ok () t \<and> rep demo_symbols {0x2000} 0x2000 (mem t) (boot_sched 0x2000)
    \<and> all_rep demo_symbols {0x2000} (mem t) [0x2000]"
proof -
  have l: "literal demo_symbols ''main'' = 0x7000" by (simp add: demo_symbols_def)
  have r: "boot_room demo_symbols 0x2000 0x7000 (Suc (length [109, 97, 105, 110]))"
    by (simp add: boot_room_def layout_def demo_symbols_def sep_def page_aligned_def PAGE_MASK_def)
  have c: "cstr (mem demo_boot_state) 0x7000 [109, 97, 105, 110]" by (simp add: demo_boot_state_def sep_def)
  have p: "(0x2000 :: u32) = GetCurrentThreadPCB demo_boot_state"
    by (simp add: demo_boot_state_def demo_state_def GetCurrentThreadPCB_def PAGE_MASK_def)
  show ?thesis
    using ThreadInit_boots [of demo_symbols "0x2000" "[109, 97, 105, 110]" demo_boot_state] l r c p by auto
qed

end
