(* ===== verification/Interrupt.thy ===== *)
theory Interrupt
  imports PageAlloc
begin

text \<open>
  \<open>kernel/interrupt.c\<close>: the interrupt descriptor table, the table of C handlers, the default
  handler and the programming of the two 8259A controllers. The interrupt flag itself is in
  \<open>Machine\<close>. The theory also holds the gate and selector constants of \<open>kernel/global.h\<close> and the
  way \<open>kernel.S\<close> enters a handler.
\<close>

section \<open>Constants of global.h\<close>

definition SELECTOR_K_CODE :: u16 where "SELECTOR_K_CODE = push_bit 3 1 + push_bit 2 0 + 0"
definition SELECTOR_K_DATA :: u16 where "SELECTOR_K_DATA = push_bit 3 2 + push_bit 2 0 + 0"
definition SELECTOR_TSS :: u16 where "SELECTOR_TSS = push_bit 3 4 + push_bit 2 0 + 0"
definition SELECTOR_U_CODE :: u16 where "SELECTOR_U_CODE = push_bit 3 5 + push_bit 2 0 + 3"
definition SELECTOR_U_DATA :: u16 where "SELECTOR_U_DATA = push_bit 3 6 + push_bit 2 0 + 3"

definition IDT_DESC_ATTRIBUTE_DPL0 :: u8 where
  "IDT_DESC_ATTRIBUTE_DPL0 = push_bit 7 1 + push_bit 5 0 + 0xE"

definition IDT_DESC_ATTRIBUTE_DPL3 :: u8 where
  "IDT_DESC_ATTRIBUTE_DPL3 = push_bit 7 1 + push_bit 5 3 + 0xE"

definition IDT_DESC_SUM :: nat where
  "IDT_DESC_SUM = 0x81"

definition PIC_MASTER_CTRL :: u16 where "PIC_MASTER_CTRL = 0x20"
definition PIC_MASTER_DATA :: u16 where "PIC_MASTER_DATA = 0x21"
definition PIC_SLAVE_CTRL :: u16 where "PIC_SLAVE_CTRL = 0xa0"
definition PIC_SLAVE_DATA :: u16 where "PIC_SLAVE_DATA = 0xa1"

section \<open>The code\<close>

definition RegisterHandler :: "symbols \<Rightarrow> kstate \<Rightarrow> u8 \<Rightarrow> addr \<Rightarrow> kstate" where
  "RegisterHandler g s int_vector_num f = put32 s (idt_table g + 4 * ucast int_vector_num) f"

text \<open>
  \<open>sys_setcursor\<close> of \<open>print_asm.S\<close> takes the position from the register \<open>si\<close> and not from its
  argument on the stack, so what it sends is the value \<open>si\<close> has at the call.
\<close>

definition sys_setcursor :: "u16 \<Rightarrow> kstate \<Rightarrow> kstate" where
  "sys_setcursor si s =
     (let s1 = outb s 0x3D4 0x0E;
          s2 = outb s1 0x3D5 (ucast (drop_bit 8 si));
          s3 = outb s2 0x3D4 0x0F
      in outb s3 0x3D5 (ucast si))"

text \<open>The message of the default handler, up to its endless loop.\<close>

definition report_interrupt :: "symbols \<Rightarrow> kstate \<Rightarrow> u8 \<Rightarrow> (kstate, unit) outcome" where
  "report_interrupt g s vec =
     obind (sys_putint (putlit s ''int vector: '') (ucast vec)) (\<lambda>_ s1.
     let s2 = sys_putchar s1 (of_char CHR '' '')
     in obind (if vec \<le> 19
               then sys_putstr s2 (ld32 (mem s2) (interrupt_name g + 4 * ucast vec))
               else Ok 0 s2)
          (\<lambda>_ s3. Ok () (sys_putchar s3 (of_char CHR ''\<newline>''))))"

definition GeneralIntHandler :: "symbols \<Rightarrow> u16 \<Rightarrow> kstate \<Rightarrow> u8 \<Rightarrow> (kstate, unit) outcome" where
  "GeneralIntHandler g si s int_vertor_number =
     (let s1 = snd (DisableInt s);
          s2 = sys_setcursor si s1
      in if int_vertor_number = 0x27 \<or> int_vertor_number = 0x2F then Ok () s2
         else obind (report_interrupt g s2 int_vertor_number) (\<lambda>_ _. Diverge))"

definition exception_names :: "(nat \<times> string) list" where
  "exception_names =
     [(0, ''#DE Divide Error''), (1, ''#DB Debug Exception''), (2, ''NMI Interrupt''),
      (3, ''#BP Breakpoint Exception''), (4, ''#OF Overflow Exception''),
      (5, ''#BR BOUND Range Exceeded Exception''), (6, ''#UD Invalid Opcode Exception''),
      (7, ''#NM Device Not Available Exception''), (8, ''#DF Double Fault Exception''),
      (9, ''Coprocessor Segment Overrun''), (10, ''#TS Invalid TSS Exception''),
      (11, ''#NP Segment Not Present''), (12, ''#SS Stack Fault Exception''),
      (13, ''#GP General Protection Exception''), (14, ''#PF Page-Fault Exception''),
      (16, ''#MF x87 FPU Floating-Point Error''), (17, ''#AC Alignment Check Exception''),
      (18, ''#MC Machine-Check Exception''), (19, ''#XF SIMD Floating-Point Exception'')]"

text \<open>The loop of \<open>ExceptionInit\<close>, \<open>n\<close> turns from index \<open>i\<close> on, then the names one by one.\<close>

primrec exception_defaults :: "nat \<Rightarrow> symbols \<Rightarrow> nat \<Rightarrow> kstate \<Rightarrow> kstate" where
  "exception_defaults 0 g i s = s"
| "exception_defaults (Suc n) g i s =
     exception_defaults n g (Suc i)
       (put32 (put32 s (idt_table g + 4 * of_nat i) (fn_addr g Fn_GeneralIntHandler))
          (interrupt_name g + 4 * of_nat i) (literal g ''unkown''))"

fun exception_set_names :: "symbols \<Rightarrow> (nat \<times> string) list \<Rightarrow> kstate \<Rightarrow> kstate" where
  "exception_set_names g [] s = s"
| "exception_set_names g ((i, name) # rest) s =
     exception_set_names g rest (put32 s (interrupt_name g + 4 * of_nat i) (literal g name))"

definition ExceptionInit :: "symbols \<Rightarrow> kstate \<Rightarrow> kstate" where
  "ExceptionInit g s =
     putlit (exception_set_names g exception_names
       (exception_defaults IDT_DESC_SUM g 0 (putlit s ''    exception init..''))) ('' done'' @ [CHR ''\<newline>''])"

text \<open>\<open>struct INT_gate_desc\<close>: offset low, selector, count, attribute, offset high.\<close>

definition MakeIdtDesc :: "kstate \<Rightarrow> addr \<Rightarrow> u8 \<Rightarrow> addr \<Rightarrow> kstate" where
  "MakeIdtDesc s p_Gdesc attribute f =
     (let s1 = put16 s p_Gdesc (ucast (f AND 0x0000FFFF));
          s2 = put16 s1 (p_Gdesc + 2) SELECTOR_K_CODE;
          s3 = put8 s2 (p_Gdesc + 4) 0;
          s4 = put8 s3 (p_Gdesc + 5) attribute
      in put16 s4 (p_Gdesc + 6) (ucast (drop_bit 16 (f AND 0xFFFF0000))))"

definition PicInit :: "kstate \<Rightarrow> kstate" where
  "PicInit s =
     (let s = putlit s ''    pic_init..'';
          s = outb s PIC_MASTER_CTRL 0x11;
          s = outb s PIC_MASTER_DATA 0x20;
          s = outb s PIC_MASTER_DATA 0x04;
          s = outb s PIC_MASTER_DATA 0x01;
          s = outb s PIC_SLAVE_CTRL 0x11;
          s = outb s PIC_SLAVE_DATA 0x28;
          s = outb s PIC_SLAVE_DATA 0x02;
          s = outb s PIC_SLAVE_DATA 0x01;
          s = outb s PIC_MASTER_DATA 0xF8;
          s = outb s PIC_SLAVE_DATA 0xBF
      in putlit s ('' done'' @ [CHR ''\<newline>'']))"

primrec idt_gates :: "nat \<Rightarrow> symbols \<Rightarrow> nat \<Rightarrow> kstate \<Rightarrow> kstate" where
  "idt_gates 0 g i s = s"
| "idt_gates (Suc n) g i s =
     idt_gates n g (Suc i)
       (MakeIdtDesc s (sym_IDT g + 8 * of_nat i) IDT_DESC_ATTRIBUTE_DPL0
          (ld32 (mem s) (interrupt_entry_table g + 4 * of_nat i)))"

definition IdtDescInit :: "symbols \<Rightarrow> kstate \<Rightarrow> (kstate, unit) outcome" where
  "IdtDescInit g s =
     (let s1 = idt_gates IDT_DESC_SUM g 0 (putlit s ''    idt_desc_init..'')
      in ASSERT ''IdtDescInit'' ''IDT_DESC_SUM > 0x80'' (IDT_DESC_SUM > 0x80)
           (Ok () (putlit (MakeIdtDesc s1 (sym_IDT g + 8 * 0x80) IDT_DESC_ATTRIBUTE_DPL3
             (fn_addr g Fn_syscall_handler)) ('' done'' @ [CHR ''\<newline>'']))))"

text \<open>
  The six-byte operand of \<open>lidt\<close> and \<open>lgdt\<close>: limit in the low 16 bits, base above. The code
  shifts the 32-bit address left by 16 before it widens it to 64 bits.
\<close>

definition descriptor_operand :: "u32 \<Rightarrow> u32 \<Rightarrow> 64 word" where
  "descriptor_operand limit base = ucast limit OR ucast (push_bit 16 base :: u32)"

definition load_operand :: "64 word \<Rightarrow> u16 \<times> u32" where
  "load_operand x = (ucast x, ucast (drop_bit 16 x))"

definition IdtInit :: "symbols \<Rightarrow> kstate \<Rightarrow> (kstate, unit) outcome" where
  "IdtInit g s =
     obind (IdtDescInit g (putlit s (''setting up IDT..'' @ [CHR ''\<newline>'']))) (\<lambda>_ s1.
       let s2 = ExceptionInit g s1;
           s3 = PicInit s2;
           idt_operand = descriptor_operand (of_nat (8 * IDT_DESC_SUM) - 1) (sym_IDT g)
       in Ok () (putlit (s3\<lparr>idtr := load_operand idt_operand\<rparr>) ('' done'' @ [CHR ''\<newline>''])))"

section \<open>Gates\<close>

definition gate_offset :: "mem \<Rightarrow> addr \<Rightarrow> addr" where
  "gate_offset m p = ucast (ld16 m p) OR push_bit 16 (ucast (ld16 m (p + 6)))"

definition gate_selector :: "mem \<Rightarrow> addr \<Rightarrow> u16" where
  "gate_selector m p = ld16 m (p + 2)"

definition gate_attribute :: "mem \<Rightarrow> addr \<Rightarrow> u8" where
  "gate_attribute m p = ld8 m (p + 5)"

lemma MakeIdtDesc_gate:
  "gate_offset (mem (MakeIdtDesc s p attr f)) p = f"
  "gate_selector (mem (MakeIdtDesc s p attr f)) p = SELECTOR_K_CODE"
  "gate_attribute (mem (MakeIdtDesc s p attr f)) p = attr"
proof -
  have "ucast (ucast (f AND 0x0000FFFF) :: u16) OR push_bit 16 (ucast (ucast (drop_bit 16 (f AND 0xFFFF0000)) :: u16)) = f"
  proof (rule bit_word_eqI)
    have m: "(0xFFFF :: u32) = mask 16" "(0xFFFF0000 :: u32) = push_bit 16 (mask 16)"
      by (simp_all add: mask_eq_exp_minus_1)
    fix n assume "n < LENGTH(32)"
    then show "bit ((ucast (ucast (f AND 0x0000FFFF) :: u16) :: u32)
        OR push_bit 16 (ucast (ucast (drop_bit 16 (f AND 0xFFFF0000)) :: u16))) n = bit f n"
      unfolding m by (auto simp: bit_simps)
  qed
  then show "gate_offset (mem (MakeIdtDesc s p attr f)) p = f"
    by (simp add: gate_offset_def MakeIdtDesc_def Let_def)
qed (simp_all add: gate_selector_def gate_attribute_def MakeIdtDesc_def Let_def)

definition is_gate :: "mem \<Rightarrow> addr \<Rightarrow> u8 \<Rightarrow> addr \<Rightarrow> bool" where
  "is_gate m p attr f \<longleftrightarrow> gate_offset m p = f \<and> gate_selector m p = SELECTOR_K_CODE \<and> gate_attribute m p = attr"

lemma is_gate_cong:
  assumes "eq_on m' m p 8"
  shows "is_gate m' p attr f = is_gate m p attr f"
proof -
  have "ld16 m' (p + off) = ld16 m (p + off)" if "unat off + 2 \<le> 8" for off
    by (rule ld16_cong [OF eq_on_part [OF assms that]])
  from this [of 0] this [of 2] this [of 6]
  have "ld16 m' p = ld16 m p" "ld16 m' (p + 2) = ld16 m (p + 2)" "ld16 m' (p + 6) = ld16 m (p + 6)" by simp_all
  moreover have "ld8 m' (p + 5) = ld8 m (p + 5)"
    by (rule ld8_cong [OF eq_on_part [OF assms]]) simp
  ultimately show ?thesis by (simp add: is_gate_def gate_offset_def gate_selector_def gate_attribute_def)
qed

lemma MakeIdtDesc_is_gate: "is_gate (mem (MakeIdtDesc s p attr f)) p attr f"
  by (simp add: is_gate_def MakeIdtDesc_gate)

lemma MakeIdtDesc_only: "only_in (mem s) (mem (MakeIdtDesc s p attr f)) p 8"
proof -
  have w: "only_in m (st16 m (p + off) v) p 8" if "unat off + 2 \<le> 8" for m off v
    by (rule only_in_part [OF only_in_st16 that])
  have b: "only_in m (st8 m (p + off) v) p 8" if "unat off + 1 \<le> 8" for m off v
    by (rule only_in_part [OF only_in_st8 that])
  show ?thesis
    using w [of 0] w [of 2] b [of 4] b [of 5] w [of 6]
    by (simp add: MakeIdtDesc_def Let_def) (meson only_in_trans)
qed

text \<open>The state of the table after \<open>n\<close> turns: every gate written leads to its entry point.\<close>

lemma idt_gates_effect:
  fixes s :: kstate
  assumes "i + n \<le> IDT_DESC_SUM" "sep (sym_IDT g) (8 * IDT_DESC_SUM) (interrupt_entry_table g) (4 * IDT_DESC_SUM)"
  defines "m' \<equiv> mem (idt_gates n g i s)"
  shows "only_in (mem s) m' (sym_IDT g) (8 * IDT_DESC_SUM)
    \<and> (\<forall>j < i. eq_on m' (mem s) (sym_IDT g + of_nat (8 * j)) 8)
    \<and> (\<forall>j. i \<le> j \<and> j < i + n \<longrightarrow> is_gate m' (sym_IDT g + of_nat (8 * j)) IDT_DESC_ATTRIBUTE_DPL0
          (ld32 (mem s) (interrupt_entry_table g + of_nat (4 * j))))"
  using assms(1) unfolding m'_def
proof (induction n arbitrary: i s)
  case 0
  then show ?case by (auto simp: eq_on_def)
next
  case (Suc n)
  let ?I = "sym_IDT g" and ?E = "interrupt_entry_table g"
  let ?p = "?I + of_nat (8 * i)" and ?f = "ld32 (mem s) (?E + of_nat (4 * i))"
  let ?s = "MakeIdtDesc s ?p IDT_DESC_ATTRIBUTE_DPL0 ?f"
  have N: "8 * IDT_DESC_SUM \<le> 2 ^ 32" "i < IDT_DESC_SUM" using Suc.prems by (simp_all add: IDT_DESC_SUM_def)
  have S: "idt_gates (Suc n) g i s = idt_gates n g (Suc i) ?s" by simp
  have o: "only_in (mem s) (mem ?s) ?I (8 * IDT_DESC_SUM)"
    using only_in_part [OF MakeIdtDesc_only array_offset [OF N(2,1)]] by simp
  have e: "ld32 (mem ?s) (?E + of_nat (4 * j)) = ld32 (mem s) (?E + of_nat (4 * j))" if "j < IDT_DESC_SUM" for j
    using sep_offset_right [OF assms(2) array_offset [OF that]]
    by (intro b4.ld_frame [OF o]) (simp add: IDT_DESC_SUM_def)
  note IH = Suc.IH [of "Suc i" ?s]
  have IH1: "only_in (mem ?s) (mem (idt_gates n g (Suc i) ?s)) ?I (8 * IDT_DESC_SUM)"
    and IH2: "\<And>j. j < Suc i \<Longrightarrow> eq_on (mem (idt_gates n g (Suc i) ?s)) (mem ?s) (?I + of_nat (8 * j)) 8"
    and IH3: "\<And>j. Suc i \<le> j \<Longrightarrow> j < Suc i + n \<Longrightarrow> is_gate (mem (idt_gates n g (Suc i) ?s)) (?I + of_nat (8 * j))
      IDT_DESC_ATTRIBUTE_DPL0 (ld32 (mem ?s) (?E + of_nat (4 * j)))"
    using IH Suc.prems by auto
  have keep: "eq_on (mem ?s) (mem s) (?I + of_nat (8 * j)) 8" if "j < i" for j
    using sep_array [of i j IDT_DESC_SUM 8 ?I] that N by (intro only_in_sep [OF MakeIdtDesc_only]) simp
  show ?case unfolding S
  proof (intro conjI allI impI)
    show "only_in (mem s) (mem (idt_gates n g (Suc i) ?s)) ?I (8 * IDT_DESC_SUM)"
      by (rule only_in_trans [OF o IH1])
    show "eq_on (mem (idt_gates n g (Suc i) ?s)) (mem s) (?I + of_nat (8 * j)) 8" if "j < i" for j
      using IH2 [of j] keep [OF that] that by (simp add: eq_on_def)
    show "is_gate (mem (idt_gates n g (Suc i) ?s)) (?I + of_nat (8 * j)) IDT_DESC_ATTRIBUTE_DPL0
        (ld32 (mem s) (?E + of_nat (4 * j)))" if "i \<le> j \<and> j < i + Suc n" for j
    proof (cases "j = i")
      case True
      then show ?thesis using is_gate_cong [OF IH2 [of i]] MakeIdtDesc_is_gate by simp
    next
      case False
      then show ?thesis using IH3 [of j] e [of j] that Suc.prems by simp
    qed
  qed
qed

section \<open>Properties\<close>

text \<open>The interrupt descriptor table. When the table and the array of entry points are separate
  objects, \<open>IdtDescInit\<close> passes its assertion and builds 0x81 gates: the gate of every vector below
  0x80 is a ring-0 interrupt gate (attribute 0x8E) in the kernel code segment whose two offset
  halves join to the entry point listed for that vector, the gate of vector 0x80 is callable from
  ring 3 (0xEE) and leads to \<open>syscall_handler\<close>, and nothing outside the table is written.\<close>

theorem IdtDescInit_gates:
  assumes "sep (sym_IDT g) (8 * IDT_DESC_SUM) (interrupt_entry_table g) (4 * IDT_DESC_SUM)"
  shows "\<exists>s'. IdtDescInit g s = Ok () s'
    \<and> (\<forall>v < 0x80. is_gate (mem s') (sym_IDT g + of_nat (8 * v)) 0x8E
          (ld32 (mem s) (interrupt_entry_table g + of_nat (4 * v))))
    \<and> is_gate (mem s') (sym_IDT g + of_nat (8 * 0x80)) 0xEE (fn_addr g Fn_syscall_handler)
    \<and> only_in (mem s) (mem s') (sym_IDT g) (8 * IDT_DESC_SUM)"
proof -
  let ?I = "sym_IDT g" and ?s0 = "putlit s ''    idt_desc_init..''" and ?f = "fn_addr g Fn_syscall_handler"
  define s1 where "s1 = idt_gates IDT_DESC_SUM g 0 ?s0"
  let ?s2 = "MakeIdtDesc s1 (?I + of_nat (8 * 0x80)) IDT_DESC_ATTRIBUTE_DPL3 ?f"
  have N: "8 * IDT_DESC_SUM \<le> 2 ^ 32" "0x80 < IDT_DESC_SUM" by (simp_all add: IDT_DESC_SUM_def)
  have E: "IdtDescInit g s = Ok () (putlit ?s2 ('' done'' @ [CHR ''\<newline>'']))"
    using N(2) by (simp add: IdtDescInit_def Let_def s1_def)
  have I1: "only_in (mem s) (mem s1) ?I (8 * IDT_DESC_SUM)"
    and I2: "\<And>v. v < IDT_DESC_SUM \<Longrightarrow> is_gate (mem s1) (?I + of_nat (8 * v)) IDT_DESC_ATTRIBUTE_DPL0
      (ld32 (mem s) (interrupt_entry_table g + of_nat (4 * v)))"
    using idt_gates_effect [of 0 IDT_DESC_SUM g ?s0, OF _ assms, folded s1_def] by simp_all
  have at: "IDT_DESC_ATTRIBUTE_DPL0 = 0x8E" "IDT_DESC_ATTRIBUTE_DPL3 = 0xEE"
    by (simp_all add: IDT_DESC_ATTRIBUTE_DPL0_def IDT_DESC_ATTRIBUTE_DPL3_def)
  have G: "is_gate (mem ?s2) (?I + of_nat (8 * v)) 0x8E (ld32 (mem s) (interrupt_entry_table g + of_nat (4 * v)))"
    if "v < 0x80" for v
  proof -
    have "eq_on (mem ?s2) (mem s1) (?I + of_nat (8 * v)) 8"
      using that N by (intro only_in_sep [OF MakeIdtDesc_only] sep_array) auto
    from is_gate_cong [OF this] show ?thesis using I2 [of v] that N by (simp only: at)
  qed
  have O: "only_in (mem s) (mem ?s2) ?I (8 * IDT_DESC_SUM)"
    using only_in_trans [OF I1 only_in_part [OF MakeIdtDesc_only array_offset [OF N(2,1)]]] by simp
  show ?thesis
    using E G O MakeIdtDesc_is_gate [of s1 "?I + of_nat (8 * 0x80)" IDT_DESC_ATTRIBUTE_DPL3 ?f, unfolded at]
    by (intro exI [of _ "putlit ?s2 ('' done'' @ [CHR ''\<newline>''])"] conjI allI impI)
      (simp_all only: mem_put_screen at simp_thms)
qed

theorem IdtDescInit_gates_witness:
  "\<exists>s'. IdtDescInit demo_symbols demo_state = Ok () s'
     \<and> is_gate (mem s') 0x4400 0xEE (fn_addr demo_symbols Fn_syscall_handler)"
proof -
  have "sep (sym_IDT demo_symbols) (8 * IDT_DESC_SUM) (interrupt_entry_table demo_symbols) (4 * IDT_DESC_SUM)"
    by (simp add: demo_symbols_def IDT_DESC_SUM_def sep_def)
  from IdtDescInit_gates [OF this, of demo_state] show ?thesis by (auto simp: demo_symbols_def)
qed

text \<open>The table writers change nothing but the byte store.\<close>

lemma MakeIdtDesc_mem_only: "mem_only s (MakeIdtDesc s p attr f)"
  unfolding MakeIdtDesc_def Let_def by (meson mem_only_put mem_only_trans)

lemma idt_gates_mem_only: "mem_only s (idt_gates n g i s)"
proof (induction n arbitrary: i s)
  case (Suc n)
  then show ?case by (simp del: of_nat_mult) (rule mem_only_trans [OF MakeIdtDesc_mem_only])
qed simp

lemma exception_defaults_mem_only: "mem_only s (exception_defaults n g i s)"
proof (induction n arbitrary: i s)
  case (Suc n)
  then show ?case by simp (meson mem_only_put mem_only_trans)
qed simp

lemma exception_set_names_mem_only: "mem_only s (exception_set_names g xs s)"
  by (induction g xs s rule: exception_set_names.induct) (auto intro: mem_only_trans [OF mem_only_put(3)])

lemma IdtDescInit_regs:
  obtains s' where "IdtDescInit g s = Ok () s'" "ports s' = ports s"
proof -
  let ?s1 = "idt_gates IDT_DESC_SUM g 0 (putlit s ''    idt_desc_init..'')"
  let ?s2 = "MakeIdtDesc ?s1 (sym_IDT g + 8 * 0x80) IDT_DESC_ATTRIBUTE_DPL3 (fn_addr g Fn_syscall_handler)"
  have "0x80 < IDT_DESC_SUM" by (simp add: IDT_DESC_SUM_def)
  moreover have "ports ?s2 = ports s"
    using mem_onlyD(5) [OF MakeIdtDesc_mem_only] mem_onlyD(5) [OF idt_gates_mem_only] by (simp add: putlit_def)
  ultimately show thesis
    by (intro that [of "putlit ?s2 ('' done'' @ [CHR ''\<newline>''])"]) (simp_all add: IdtDescInit_def putlit_def Let_def)
qed

lemma ExceptionInit_ports: "ports (ExceptionInit g s) = ports s"
  by (simp add: ExceptionInit_def putlit_def mem_onlyD(5) [OF exception_set_names_mem_only]
      mem_onlyD(5) [OF exception_defaults_mem_only])

lemma load_descriptor_operand:
  "limit < 0x10000 \<Longrightarrow> load_operand (descriptor_operand limit base) = (ucast limit, base AND 0xFFFF)"
proof -
  assume l: "limit < 0x10000"
  have lim: "\<not> bit limit n" if "16 \<le> n" for n
  proof -
    have "unat limit < 2 ^ n"
      using l that power_increasing [of 16 n "2 :: nat"] by (simp add: word_less_nat_alt)
    then show ?thesis
      by (metis bit_unsigned_iff bit_nat_def div_less even_zero bit_iff_odd possible_bit_nat)
  qed
  have m: "(0xFFFF :: u32) = mask 16" by (simp add: mask_eq_exp_minus_1)
  have "ucast (descriptor_operand limit base) = (ucast limit :: u16)"
    by (rule bit_word_eqI) (auto simp: descriptor_operand_def bit_simps)
  moreover have "(ucast (drop_bit 16 (descriptor_operand limit base)) :: u32) = base AND 0xFFFF"
    unfolding m by (rule bit_word_eqI) (auto simp: descriptor_operand_def bit_simps lim)
  ultimately show ?thesis by (simp add: load_operand_def)
qed

text \<open>
  The table of handlers: every vector starts with the default handler, \<open>RegisterHandler\<close> replaces
  one entry.
\<close>

definition handler_of :: "symbols \<Rightarrow> mem \<Rightarrow> u8 \<Rightarrow> addr" where
  "handler_of g m v = ld32 m (idt_table g + 4 * ucast v)"

lemma exception_defaults_handlers:
  assumes "sep (idt_table g) (4 * IDT_DESC_SUM) (interrupt_name g) (4 * IDT_DESC_SUM)" "i + n \<le> IDT_DESC_SUM"
  shows "j < i + n \<Longrightarrow> (j < i \<Longrightarrow> ld32 (mem s) (idt_table g + of_nat (4 * j)) = fn_addr g Fn_GeneralIntHandler) \<Longrightarrow>
    ld32 (mem (exception_defaults n g i s)) (idt_table g + of_nat (4 * j)) = fn_addr g Fn_GeneralIntHandler"
  using assms(2)
proof (induction n arbitrary: i s)
  case (Suc n)
  have N: "4 * IDT_DESC_SUM \<le> 2 ^ 32" "i < IDT_DESC_SUM" using Suc.prems by (simp_all add: IDT_DESC_SUM_def)
  have sn: "sep (interrupt_name g + of_nat (4 * i)) 4 (idt_table g + of_nat (4 * k)) 4" if "k < IDT_DESC_SUM" for k
    using sep_sym [OF sep_parts [OF assms(1) array_offset [OF that N(1)] array_offset [OF N(2,1)]]] by simp
  have sk: "sep (idt_table g + of_nat (4 * i)) 4 (idt_table g + of_nat (4 * k)) 4" if "k < i" for k
    using sep_array [of i k IDT_DESC_SUM 4 "idt_table g"] that N by simp
  let ?s = "put32 (put32 s (idt_table g + of_nat (4 * i)) (fn_addr g Fn_GeneralIntHandler))
    (interrupt_name g + of_nat (4 * i)) (literal g ''unkown'')"
  have "ld32 (mem ?s) (idt_table g + of_nat (4 * j)) = fn_addr g Fn_GeneralIntHandler" if "j < Suc i"
    using that Suc.prems(2) sn [of j] sk [of j] N(2)
    by (cases "j = i") (simp_all only: mem_put load_store_sep load_store_same less_Suc_eq simp_thms)
  from Suc.IH [of "Suc i" ?s, OF _ this] Suc.prems(1,3) show ?case by simp
qed simp

lemma exception_set_names_only:
  assumes "\<forall>(i, n) \<in> set xs. i < IDT_DESC_SUM"
  shows "only_in (mem s) (mem (exception_set_names g xs s)) (interrupt_name g) (4 * IDT_DESC_SUM)"
  using assms
proof (induction g xs s rule: exception_set_names.induct)
  case (2 g i name rest s)
  have "only_in (mem s) (mem (put32 s (interrupt_name g + of_nat (4 * i)) (literal g name))) (interrupt_name g) (4 * IDT_DESC_SUM)"
    using 2(2) only_in_part [OF only_in_st32 array_offset [of i IDT_DESC_SUM 4]] by (simp add: IDT_DESC_SUM_def)
  from only_in_trans [OF this] 2 show ?case by simp
qed simp

lemma ExceptionInit_handlers:
  assumes "sep (idt_table g) (4 * IDT_DESC_SUM) (interrupt_name g) (4 * IDT_DESC_SUM)" "unat v < IDT_DESC_SUM"
  shows "handler_of g (mem (ExceptionInit g s)) v = fn_addr g Fn_GeneralIntHandler"
proof -
  let ?a = "idt_table g + of_nat (4 * unat v)"
  let ?s = "exception_defaults IDT_DESC_SUM g 0 (putlit s ''    exception init..'')"
  have N: "4 * IDT_DESC_SUM \<le> 2 ^ 32" by (simp add: IDT_DESC_SUM_def)
  have "only_in (mem ?s) (mem (exception_set_names g exception_names ?s)) (interrupt_name g) (4 * IDT_DESC_SUM)"
    by (rule exception_set_names_only) (simp add: exception_names_def IDT_DESC_SUM_def)
  then have "ld32 (mem (exception_set_names g exception_names ?s)) ?a = ld32 (mem ?s) ?a"
    using sep_sym [OF sep_offset_left [OF assms(1) array_offset [OF assms(2) N]]]
    by (intro b4.ld_frame) (simp_all add: IDT_DESC_SUM_def)
  also have "\<dots> = fn_addr g Fn_GeneralIntHandler"
    using exception_defaults_handlers [OF assms(1), of 0 IDT_DESC_SUM "unat v"] assms(2) by simp
  finally show ?thesis by (simp add: ExceptionInit_def handler_of_def)
qed

lemma handler_of_RegisterHandler:
  "handler_of g (mem (RegisterHandler g s v f)) w = (if v = w then f else handler_of g (mem s) w)"
proof -
  have "sep (idt_table g + of_nat (4 * unat v)) 4 (idt_table g + of_nat (4 * unat w)) 4" if "v \<noteq> w"
    using that unsigned_less [of v, where ?'a = nat] unsigned_less [of w, where ?'a = nat]
    by (intro sep_array [of _ _ 256]) (auto simp: word_unat_eq_iff)
  then show ?thesis by (simp add: handler_of_def RegisterHandler_def)
qed

text \<open>C26. What \<open>IdtInit\<close> programs. It returns, with the two controllers initialised in the order
  ICW1 to ICW4 (vectors 0x20 and 0x28 on, clock, keyboard, slave and disk unmasked), and with the
  IDT register loaded with the limit 0x407 and the low 16 bits of the table's address only: the
  address is shifted by 16 as a 32-bit number, so its upper half is lost.\<close>

theorem IdtInit_programs:
  "\<exists>s'. IdtInit g s = Ok () s' \<and> idtr s' = (0x407, sym_IDT g AND 0xFFFF)
    \<and> ports s' = ports s @ [(0x20, 0x11), (0x21, 0x20), (0x21, 0x04), (0x21, 0x01),
        (0xa0, 0x11), (0xa1, 0x28), (0xa1, 0x02), (0xa1, 0x01), (0x21, 0xF8), (0xa1, 0xBF)]"
proof -
  obtain s1 where s1: "IdtDescInit g (putlit s (''setting up IDT..'' @ [CHR ''\<newline>''])) = Ok () s1" "ports s1 = ports s"
    by (rule IdtDescInit_regs [of g "putlit s (''setting up IDT..'' @ [CHR ''\<newline>''])"]) (simp add: putlit_def)
  have "load_operand (descriptor_operand (of_nat (8 * IDT_DESC_SUM) - 1) (sym_IDT g)) = (0x407, sym_IDT g AND 0xFFFF)"
    by (simp add: load_descriptor_operand IDT_DESC_SUM_def)
  with s1 show ?thesis
    by (simp add: IdtInit_def Let_def putlit_def PicInit_def outb_def ExceptionInit_ports
        PIC_MASTER_CTRL_def PIC_MASTER_DATA_def PIC_SLAVE_CTRL_def PIC_SLAVE_DATA_def)
qed

text \<open>The default handler. For the two spurious vectors it returns with interrupts disabled and
  memory and screen unchanged. For every other vector it prints the vector number in decimal, the
  exception's name for vectors up to 19, a newline, and then spins forever.\<close>

theorem GeneralIntHandler_reports:
  assumes "vec \<le> 19 \<Longrightarrow> cstr (mem s) (ld32 (mem s) (interrupt_name g + 4 * ucast vec)) name"
    and "\<not> vec \<le> 19 \<Longrightarrow> name = []"
  shows "if vec \<in> {0x27, 0x2F}
    then \<exists>s'. GeneralIntHandler g si s vec = Ok () s' \<and> GetIntStatus s' = INT_OFF \<and> mem s' = mem s \<and> screen s' = screen s
    else GeneralIntHandler g si s vec = Diverge
      \<and> (\<exists>ds. report_interrupt g s vec = Ok () (s\<lparr>screen := screen s @ ascii ''int vector: '' @ ds @ [32] @ name @ [10]\<rparr>)
          \<and> read_num 10 ds = unat vec)"
proof -
  let ?v = "ucast vec :: u32"
  have v: "sint ?v = uint vec" "0 \<le> sint ?v"
  proof -
    have "uint vec < 2 ^ 31" using uint_u8_bounds(2) [of vec] by simp
    then have "signed_take_bit 31 (uint vec) = uint vec"
      by (intro signed_take_bit_int_eq_self) (simp_all add: order_trans [OF _ uint_u8_bounds(1)])
    moreover have "uint ?v = uint vec" using uint_u8_bounds [of vec] by (simp add: unsigned_ucast_eq take_bit_int_eq_self)
    ultimately have "sint ?v = uint ?v" by (simp add: sint_uint)
    also have "uint ?v = uint vec" using uint_u8_bounds [of vec] by (simp add: unsigned_ucast_eq take_bit_int_eq_self)
    finally show "sint ?v = uint vec" .
    then show "0 \<le> sint ?v" by simp
  qed
  define ds where "ds = rev (putint_loop (sint ?v))"
  have P: "sys_putint t ?v = putbytes t ds" for t
    using v by (simp add: sys_putint_def Let_def reverse_in_place_rev ds_def)
  have ds: "read_num 10 ds = unat vec"
    using putint_loop_value [OF v(2)] by (simp add: ds_def v(1))
  have R: "report_interrupt g t vec = Ok () (t\<lparr>screen := screen t @ ascii ''int vector: '' @ ds @ [32] @ name @ [10]\<rparr>)"
    if "mem t = mem s" for t
    using assms that
    by (auto simp: Let_def report_interrupt_def P putbytes_def putlit_def sys_putchar_def sys_putstr_cstr)
  let ?t = "sys_setcursor si (snd (DisableInt s))"
  have t: "mem ?t = mem s" "screen ?t = screen s" "GetIntStatus ?t = INT_OFF"
    using DisableInt_off [of s]
    by (simp_all add: sys_setcursor_def outb_def Let_def DisableInt_def cli_def GetIntStatus_def)
  show ?thesis
    using R [OF t(1)] R [of s] t ds by (auto simp: GeneralIntHandler_def Let_def)
qed

theorem GeneralIntHandler_reports_witness:
  "GeneralIntHandler demo_symbols 0 (demo_state\<lparr>mem := st32 (\<lambda>_. 0) 0x4C00 0x8000\<rparr>) 0 = Diverge"
  using GeneralIntHandler_reports [of 0 "demo_state\<lparr>mem := st32 (\<lambda>_. 0) 0x4C00 0x8000\<rparr>" demo_symbols "[]" 0]
  by (simp add: demo_symbols_def sep_def)

end
