(* ===== verification/Console.thy ===== *)
theory Console
  imports Sync Print
begin

text \<open>
  \<open>device/console.c\<close>: output to the screen under one lock, so that the text of one call is
  not interleaved with that of another thread.
\<close>

section \<open>The code\<close>

definition ConsoleInit :: "symbols \<Rightarrow> kstate \<Rightarrow> kstate" where
  "ConsoleInit g s = LockInit s (console_lock g)"

definition ConsoleLockAcquire :: "symbols \<Rightarrow> kstate \<Rightarrow> (kstate, unit) outcome" where
  "ConsoleLockAcquire g s = sys_lock_lock g s (console_lock g)"

definition ConsoleLockRelease :: "symbols \<Rightarrow> kstate \<Rightarrow> (kstate, unit) outcome" where
  "ConsoleLockRelease g s = sys_lock_unlock g s (console_lock g)"

definition console_putstr :: "symbols \<Rightarrow> kstate \<Rightarrow> addr \<Rightarrow> (kstate, u32) outcome" where
  "console_putstr g s str =
     obind (ConsoleLockAcquire g s) (\<lambda>_ s1.
     obind (sys_putstr s1 str) (\<lambda>output_num s2.
     obind (ConsoleLockRelease g s2) (\<lambda>_ s3. Ok output_num s3)))"

definition console_putchar :: "symbols \<Rightarrow> kstate \<Rightarrow> u8 \<Rightarrow> (kstate, unit) outcome" where
  "console_putchar g s char_asi =
     obind (ConsoleLockAcquire g s) (\<lambda>_ s1. ConsoleLockRelease g (sys_putchar s1 char_asi))"

definition console_putint :: "symbols \<Rightarrow> kstate \<Rightarrow> u32 \<Rightarrow> (kstate, u32) outcome" where
  "console_putint g s num =
     obind (ConsoleLockAcquire g s) (\<lambda>_ s1.
     obind (sys_putint s1 num) (\<lambda>output_num s2.
     obind (ConsoleLockRelease g s2) (\<lambda>_ s3. Ok output_num s3)))"

definition console_puthex :: "symbols \<Rightarrow> kstate \<Rightarrow> u32 \<Rightarrow> (kstate, u32) outcome" where
  "console_puthex g s num =
     obind (ConsoleLockAcquire g s) (\<lambda>_ s1.
     obind (sys_puthex s1 num) (\<lambda>output_num s2.
     obind (ConsoleLockRelease g s2) (\<lambda>_ s3. Ok output_num s3)))"

section \<open>Output under a free lock\<close>

lemma lock_held_screen [simp]: "lock_held (s\<lparr>screen := x\<rparr>) l = lock_held s l" "lock_free (s\<lparr>screen := x\<rparr>) l = lock_free s l"
  by (simp_all add: lock_held_def lock_free_def GetCurrentThreadPCB_def)

lemma console_guarded:
  assumes "lock_free s (console_lock g)"
    and "\<And>m. only_in (mem s) m (console_lock g) 28 \<Longrightarrow>
      body (s\<lparr>mem := m\<rparr>) = Ok r (s\<lparr>mem := m, screen := screen s @ bs\<rparr>)"
  obtains m' where "obind (ConsoleLockAcquire g s) (\<lambda>_ s1. obind (body s1) (\<lambda>x s2.
      obind (ConsoleLockRelease g s2) (\<lambda>_ s3. Ok x s3))) = Ok r (s\<lparr>mem := m', screen := screen s @ bs\<rparr>)"
    "only_in (mem s) m' (console_lock g) 28" "lock_free (s\<lparr>mem := m', screen := screen s @ bs\<rparr>) (console_lock g)"
proof -
  let ?l = "console_lock g"
  obtain m1 where m1: "sys_lock_lock g s ?l = Ok () (s\<lparr>mem := m1\<rparr>)" "lock_held (s\<lparr>mem := m1\<rparr>) ?l"
    "only_in (mem s) m1 ?l 28" using lk.lock [OF assms(1)] by blast
  let ?s2 = "s\<lparr>mem := m1, screen := screen s @ bs\<rparr>"
  have "lock_held ?s2 ?l" using m1(2) by simp
  then obtain m2 where "sys_lock_unlock g ?s2 ?l = Ok () (?s2\<lparr>mem := m2\<rparr>)" "lock_free (?s2\<lparr>mem := m2\<rparr>) ?l"
      "only_in m1 m2 ?l 28"
    using lk.unlock [of ?s2] by fastforce
  moreover have "?s2\<lparr>mem := m2\<rparr> = s\<lparr>mem := m2, screen := screen s @ bs\<rparr>" by simp
  ultimately show thesis
    using m1(1,3) assms(2) [OF m1(3)]
    by (intro that [of m2]) (auto simp only: ConsoleLockAcquire_def ConsoleLockRelease_def obind.simps intro: only_in_trans)
qed

text \<open>What the number printers write does not depend on the state.\<close>

lemma sys_putint_text: "\<exists>bs. \<forall>s. sys_putint s num = putbytes s bs"
  unfolding sys_putint_def Let_def by blast

lemma sys_puthex_text: "\<exists>bs. \<forall>s. sys_puthex s num = putbytes s bs"
proof (cases "num = 0")
  case True
  then show ?thesis
    by (intro exI [of _ "[of_char CHR ''0'']"]) (simp add: sys_puthex_def putbytes_def sys_putchar_def)
qed (auto simp: sys_puthex_def)

definition printed :: "symbols \<Rightarrow> kstate \<Rightarrow> u8 list \<Rightarrow> 'a \<Rightarrow> (kstate, 'a) outcome \<Rightarrow> bool" where
  "printed g s bs r out \<longleftrightarrow> (\<exists>m'. out = Ok r (s\<lparr>mem := m', screen := screen s @ bs\<rparr>)
     \<and> only_in (mem s) m' (console_lock g) 28
     \<and> lock_free (s\<lparr>mem := m', screen := screen s @ bs\<rparr>) (console_lock g))"

lemma printed_guarded:
  assumes "lock_free s (console_lock g)"
    and "\<And>m. only_in (mem s) m (console_lock g) 28 \<Longrightarrow>
      body (s\<lparr>mem := m\<rparr>) = Ok r (s\<lparr>mem := m, screen := screen s @ bs\<rparr>)"
  shows "printed g s bs r (obind (ConsoleLockAcquire g s) (\<lambda>_ s1. obind (body s1) (\<lambda>x s2.
      obind (ConsoleLockRelease g s2) (\<lambda>_ s3. Ok x s3))))"
  by (rule console_guarded [of s g body r bs]) (use assms in \<open>auto simp: printed_def\<close>)

lemma printed_putbytes:
  assumes "lock_free s (console_lock g)" "\<forall>s. body s = putbytes s bs"
  shows "printed g s bs (of_nat (length bs)) (obind (ConsoleLockAcquire g s) (\<lambda>_ s1. obind (body s1) (\<lambda>x s2.
      obind (ConsoleLockRelease g s2) (\<lambda>_ s3. Ok x s3))))"
  by (rule printed_guarded [OF assms(1)]) (simp add: assms(2) putbytes_def)

lemma console_putchar_prints:
  assumes "lock_free s (console_lock g)"
  shows "printed g s [c] () (console_putchar g s c)"
proof -
  have "console_putchar g s c = obind (ConsoleLockAcquire g s) (\<lambda>_ s1. obind (Ok () (sys_putchar s1 c)) (\<lambda>x s2.
      obind (ConsoleLockRelease g s2) (\<lambda>_ s3. Ok x s3)))"
    unfolding console_putchar_def
    by (intro obind_cong refl) (case_tac "ConsoleLockRelease g (sys_putchar sa c)"; simp)
  then show ?thesis
    using printed_guarded [OF assms, of "\<lambda>s1. Ok () (sys_putchar s1 c)"] by (simp add: sys_putchar_def)
qed

section \<open>Properties\<close>

text \<open>Console output. When the console lock is free, each of the four output functions
  appends exactly its text to the screen (the characters of the string, the character, the
  numeral the unlocked printer would print), returns the number of characters printed, changes
  no memory outside the lock, and leaves the lock free again.\<close>

theorem console_output:
  assumes "lock_free s (console_lock g)" "cstr (mem s) str xs"
    and "sep (console_lock g) 28 str (Suc (length xs))"
  shows "printed g s xs (of_nat (length xs)) (console_putstr g s str)
    \<and> printed g s [c] () (console_putchar g s c)
    \<and> (\<exists>bs. sys_putint s num = putbytes s bs \<and> printed g s bs (of_nat (length bs)) (console_putint g s num))
    \<and> (\<exists>bs. sys_puthex s num' = putbytes s bs \<and> printed g s bs (of_nat (length bs)) (console_puthex g s num'))"
proof (intro conjI)
  show "printed g s xs (of_nat (length xs)) (console_putstr g s str)"
    unfolding console_putstr_def
  proof (rule printed_guarded [OF assms(1)])
    fix m assume "only_in (mem s) m (console_lock g) 28"
    from cstr_cong [OF only_in_sep [OF this assms(3)]] assms(2) have "cstr m str xs" by simp
    then show "sys_putstr (s\<lparr>mem := m\<rparr>) str = Ok (of_nat (length xs)) (s\<lparr>mem := m, screen := screen s @ xs\<rparr>)"
      using sys_putstr_cstr [of "s\<lparr>mem := m\<rparr>" str xs] by (simp add: putbytes_def)
  qed
  show "printed g s [c] () (console_putchar g s c)" by (rule console_putchar_prints [OF assms(1)])
  show "\<exists>bs. sys_putint s num = putbytes s bs \<and> printed g s bs (of_nat (length bs)) (console_putint g s num)"
    using sys_putint_text [of num] printed_putbytes [OF assms(1)] by (auto simp: console_putint_def)
  show "\<exists>bs. sys_puthex s num' = putbytes s bs \<and> printed g s bs (of_nat (length bs)) (console_puthex g s num')"
    using sys_puthex_text [of num'] printed_putbytes [OF assms(1)] by (auto simp: console_puthex_def)
qed

text \<open>The machine with two threads, its console lock initialised and the string \<open>ok\<close> at \<open>0x7000\<close>.\<close>

definition demo_console_state :: kstate where
  "demo_console_state = ConsoleInit demo_symbols (demo_state\<lparr>mem := st8 (st8 (\<lambda>_. 0) 0x7000 111) 0x7001 107\<rparr>)"

theorem console_output_witness:
  "printed demo_symbols demo_console_state [111, 107] 2 (console_putstr demo_symbols demo_console_state 0x7000)"
proof -
  let ?s = "demo_state\<lparr>mem := st8 (st8 (\<lambda>_. 0) 0x7000 111) 0x7001 107\<rparr>"
  have "GetCurrentThreadPCB ?s \<noteq> NULL"
    by (simp add: GetCurrentThreadPCB_def demo_state_def PAGE_MASK_def)
  then obtain m' where m: "demo_console_state = ?s\<lparr>mem := m'\<rparr>" "lock_free (?s\<lparr>mem := m'\<rparr>) 0x1600"
    "only_in (mem ?s) m' 0x1600 28"
    by (rule LockInit_free [of ?s "0x1600"]) (simp add: demo_console_state_def ConsoleInit_def demo_symbols_def)
  have l: "console_lock demo_symbols = 0x1600" by (simp add: demo_symbols_def)
  have sp: "sep (console_lock demo_symbols) 28 0x7000 (Suc (length [111, 107 :: u8]))"
    by (simp add: l sep_def)
  have "cstr (mem ?s) 0x7000 [111, 107]" by (simp add: sep_def)
  with cstr_cong [OF only_in_sep [OF m(3)], of "0x7000" "[111, 107]"] sp
  have c: "cstr (mem demo_console_state) 0x7000 [111, 107]" by (simp add: m(1) l)
  have f: "lock_free demo_console_state (console_lock demo_symbols)" using m(2) by (simp add: m(1) l)
  from console_output [OF f c sp] show ?thesis by simp
qed

end
