(* ===== verification/Process.thy ===== *)
theory Process
  imports Thread Interrupt Console
begin

text \<open>
  User processes (\<open>userprog/process.c\<close>) and the descriptors they need (\<open>userprog/tss.c\<close>): the page
  directory and the bitmap of virtual pages of a new process, its first interrupt frame, and the task
  state segment with its descriptor and the user segments in the global descriptor table.

  \<open>struct INT_stack\<close>: \<open>int_vertor_num\<close> at 0, \<open>edi\<close> 4, \<open>esi\<close> 8, \<open>ebp\<close> 12, \<open>esp_dummy\<close> 16, \<open>ebx\<close> 20, \<open>edx\<close> 24, \<open>ecx\<close> 28,
  \<open>eax\<close> 32, \<open>gs\<close> 36, \<open>fs\<close> 40, \<open>es\<close> 44, \<open>ds\<close> 48, \<open>err_code\<close> 52, \<open>eip\<close> 56, \<open>cs\<close> 60, \<open>eflags\<close> 64, \<open>esp_at_signal\<close> 68,
  \<open>ss\<close> 72. \<open>struct gdt_desc\<close>: \<open>limit_low_word\<close> at 0, \<open>base_low_word\<close> 2, \<open>base_mid_byte\<close> 4, \<open>attr_low_byte\<close> 5,
  \<open>limit_high_attr_high\<close> 6, \<open>base_high_byte\<close> 7. \<open>struct tss\<close>: \<open>esp0\<close> at 4, \<open>ss0\<close> 8, \<open>io_base\<close> 104; 108 bytes.
\<close>

section \<open>Constants of global.h and process.h\<close>

definition GDT_ATTR_HIGH :: u8 where
  "GDT_ATTR_HIGH = push_bit 7 1 + push_bit 6 1 + push_bit 5 0 + push_bit 4 0"

definition GDT_CODE_ATTR_LOW_DPL3 :: u8 where
  "GDT_CODE_ATTR_LOW_DPL3 = push_bit 7 1 + push_bit 5 3 + push_bit 4 1 + 8"

definition GDT_DATA_ATTR_LOW_DPL3 :: u8 where
  "GDT_DATA_ATTR_LOW_DPL3 = push_bit 7 1 + push_bit 5 3 + push_bit 4 1 + 2"

definition TSS_ATTR_LOW :: u8 where
  "TSS_ATTR_LOW = push_bit 7 1 + push_bit 5 0 + push_bit 4 0 + 9"

definition EFLAGS_MBS :: u32 where "EFLAGS_MBS = push_bit 1 1"
definition EFLAGS_IF_1 :: u32 where "EFLAGS_IF_1 = push_bit 9 1"
definition EFLAGS_IOPL_0 :: u32 where "EFLAGS_IOPL_0 = 0"

definition PG_P_1 :: u32 where "PG_P_1 = 1"
definition PG_RW_RW :: u32 where "PG_RW_RW = 10"
definition PG_US_U :: u32 where "PG_US_U = 100"

definition DEFAULT_PRIORITY :: u32 where "DEFAULT_PRIORITY = 31"
definition USER_STACK3_VADDR :: u32 where "USER_STACK3_VADDR = 0x7FFFE000 - 0x1000"
definition USER_VADDR_START :: u32 where "USER_VADDR_START = 0x8048000"

section \<open>The code of process.c\<close>

text \<open>The stores of \<open>StartProcess\<close> into the interrupt frame, in source order, up to the call of \<open>VirtualAddrMapping\<close>.\<close>

definition user_frame :: "kstate \<Rightarrow> addr \<Rightarrow> addr \<Rightarrow> kstate" where
  "user_frame s process_stack function =
     (let s = put16 s (process_stack + 36) 0;
          s = put32 s (process_stack + 24) 0;
          s = put32 s (process_stack + 28) 0;
          s = put32 s (process_stack + 20) 0;
          s = put32 s (process_stack + 32) 0;
          s = put32 s (process_stack + 16) 0;
          s = put32 s (process_stack + 12) 0;
          s = put32 s (process_stack + 8) 0;
          s = put32 s (process_stack + 4) 0;
          s = put16 s (process_stack + 40) SELECTOR_U_DATA;
          s = put16 s (process_stack + 44) SELECTOR_U_DATA;
          s = put16 s (process_stack + 48) SELECTOR_U_DATA;
          s = put32 s (process_stack + 56) function;
          s = put32 s (process_stack + 60) (ucast SELECTOR_U_CODE)
      in put32 s (process_stack + 64) (EFLAGS_IF_1 OR EFLAGS_IOPL_0 OR EFLAGS_MBS))"

text \<open>The state \<open>StartProcess\<close> ends in is the one in which it jumps to \<open>IntExit\<close>, with \<open>esp\<close> at the frame.\<close>

definition StartProcess :: "symbols \<Rightarrow> kstate \<Rightarrow> addr \<Rightarrow> (kstate, unit) outcome" where
  "StartProcess g s filename =
     (let function = filename;
          current_thread = GetCurrentThreadPCB s;
          s1 = put32 s (current_thread + off_self_kernel_stack)
                 (self_kernel_stack (mem s) current_thread + 4 * sizeof_thread_stack);
          process_stack = self_kernel_stack (mem s1) current_thread;
          s2 = user_frame s1 process_stack function
      in obind (VirtualAddrMapping g s2 USER_POOL USER_STACK3_VADDR) (\<lambda>v s3.
           let s4 = put32 s3 (process_stack + 68) (v + PAGE_SIZE);
               s5 = put32 s4 (process_stack + 72) (ucast SELECTOR_U_DATA)
           in Ok () (s5\<lparr>esp := process_stack\<rparr>)))"

definition CreatPDE :: "symbols \<Rightarrow> kstate \<Rightarrow> (kstate, addr) outcome" where
  "CreatPDE g s =
     obind (kpalloc g s 1) (\<lambda>PDE_vaddr s1.
       if PDE_vaddr = NULL
       then obind (console_putstr g s1 (literal g ''CreatePDE failed: kpalloc failed'')) (\<lambda>_ s2. Ok NULL s2)
       else obind (on_mem s1 (memcpy (mem s1) (PDE_vaddr + 0x300 * 4) (0xFFFFF000 + 0x300 * 4) 1024)) (\<lambda>_ s2.
            obind (on_mem s2 (memcpy (mem s2) PDE_vaddr 0xFFFFF000 4)) (\<lambda>_ s3.
              let new_PDE_physic_addr = VirtualAddrToPhysicAddr (mem s3) PDE_vaddr
              in Ok PDE_vaddr (put32 s3 (PDE_vaddr + 4 * 1023) (new_PDE_physic_addr OR PG_US_U OR PG_RW_RW OR PG_P_1)))))"

definition CreatUserVaddrBitmap :: "symbols \<Rightarrow> kstate \<Rightarrow> addr \<Rightarrow> (kstate, unit) outcome" where
  "CreatUserVaddrBitmap g s user_process =
     (let va = user_process + off_userprog_vaddr;
          s1 = put32 s (va + 8) USER_VADDR_START;
          bitmap_page_cnt = DIV_ROUND_UP ((0xC0000000 - USER_VADDR_START) div PAGE_SIZE div 8) PAGE_SIZE
      in obind (kpalloc g s1 bitmap_page_cnt) (\<lambda>b s2.
           let s3 = put32 s2 (va + 4) b
           in ASSERT ''CreatUserVaddrBitmap'' ''user_process->userprog_vaddr.vaddr_bitmap.bits != NULL''
                (bits (mem s3) va \<noteq> NULL)
                (let s4 = put32 s3 va ((0xC0000000 - USER_VADDR_START) div PAGE_SIZE div 8)
                 in ASSERT ''CreatUserVaddrBitmap'' ''user_process->userprog_vaddr.vaddr_bitmap.bitmap_bytes_len < 4096 * bitmap_page_cnt''
                      (bitmap_bytes_len (mem s4) va < 4096 * bitmap_page_cnt)
                      (on_mem s4 (BitmapInit (mem s4) va)))))"

definition ExecProcess :: "symbols \<Rightarrow> kstate \<Rightarrow> addr \<Rightarrow> addr \<Rightarrow> (kstate, unit) outcome" where
  "ExecProcess g s filename name =
     obind (kpalloc g s 1) (\<lambda>thread s1.
     obind (InitThread g s1 thread name DEFAULT_PRIORITY) (\<lambda>_ s2.
     obind (CreatUserVaddrBitmap g s2 thread) (\<lambda>_ s3.
       let s4 = ThreadCreate g s3 thread (fn_addr g Fn_StartProcess) filename
       in obind (CreatPDE g s4) (\<lambda>pde s5.
            let s6 = put32 s5 (thread + off_PDE_addr) pde;
                s7 = ArenaInit s6 (thread + off_user_arena_descs)
            in ASSERT ''ExecProcess'' ''thread->PDE_addr != NULL'' (PCB_PDE_addr (mem s7) thread \<noteq> NULL)
                 (let old_status = GetIntStatus s7
                  in obind (enlist ''ExecProcess'' ''!elem_find(&ready_thread_list, &thread->general_tag)''
                              s7 (ready_thread_list g) (general_tag thread)) (\<lambda>_ s8.
                     obind (enlist ''ExecProcess'' ''!elem_find(&all_thread_list, &thread->all_list_tag)''
                              s8 (all_thread_list g) (all_list_tag thread)) (\<lambda>_ s9.
                       Ok () (snd (SetIntStatus old_status s9)))))))))"

section \<open>The code of tss.c\<close>

definition sizeof_tss :: u32 where "sizeof_tss = 108"

definition SetUpGDTDesc :: "kstate \<Rightarrow> addr \<Rightarrow> addr \<Rightarrow> u32 \<Rightarrow> u8 \<Rightarrow> u8 \<Rightarrow> kstate" where
  "SetUpGDTDesc s desc_ptr desc_base_addr limit attr_low attr_high =
     (let s = put16 s desc_ptr (ucast (limit AND 0x0000FFFF));
          s = put8 s (desc_ptr + 6) (ucast (drop_bit 16 (limit AND 0x000F0000) + ucast attr_high));
          s = put16 s (desc_ptr + 2) (ucast (desc_base_addr AND 0x0000FFFF));
          s = put8 s (desc_ptr + 4) (ucast (desc_base_addr AND 0x00FF0000));
          s = put8 s (desc_ptr + 7) (ucast (drop_bit 24 desc_base_addr))
      in put8 s (desc_ptr + 5) attr_low)"

definition TssInit :: "symbols \<Rightarrow> kstate \<Rightarrow> (kstate, unit) outcome" where
  "TssInit g s =
     (let s1 = putlit s ''tss and ltr init..'';
          tss_size = sizeof_tss
      in obind (on_mem s1 (memset (mem s1) (sym_tss g) 0 tss_size)) (\<lambda>_ s2.
           let s3 = put32 s2 (sym_tss g + 8) (ucast SELECTOR_K_DATA);
               s4 = put32 s3 (sym_tss g + 104) tss_size;
               s5 = SetUpGDTDesc s4 0xC0000630 (sym_tss g) (tss_size - 1) TSS_ATTR_LOW GDT_ATTR_HIGH;
               s6 = SetUpGDTDesc s5 0xC0000638 0 0xFFFFF GDT_CODE_ATTR_LOW_DPL3 GDT_ATTR_HIGH;
               s7 = SetUpGDTDesc s6 0xC0000640 0 0xFFFFF GDT_DATA_ATTR_LOW_DPL3 GDT_ATTR_HIGH;
               gdt_operand = descriptor_operand (8 * 7 - 1) 0xC0000610;
               s8 = s7\<lparr>gdtr := load_operand gdt_operand, tr := SELECTOR_TSS\<rparr>
           in Ok () (putlit s8 ('' done'' @ [CHR ''\<newline>'']))))"

section \<open>Descriptors\<close>

text \<open>How the processor reads a segment descriptor.\<close>

definition seg_base :: "mem \<Rightarrow> addr \<Rightarrow> u32" where
  "seg_base m p = ucast (ld16 m (p + 2)) OR push_bit 16 (ucast (ld8 m (p + 4))) OR push_bit 24 (ucast (ld8 m (p + 7)))"

definition seg_limit :: "mem \<Rightarrow> addr \<Rightarrow> u32" where
  "seg_limit m p = ucast (ld16 m p) OR push_bit 16 (ucast (ld8 m (p + 6)) AND 0xF)"

definition seg_attr :: "mem \<Rightarrow> addr \<Rightarrow> u8 \<times> u8" where
  "seg_attr m p = (ld8 m (p + 5), ld8 m (p + 6) AND 0xF0)"

definition is_seg :: "mem \<Rightarrow> addr \<Rightarrow> u32 \<Rightarrow> u32 \<Rightarrow> u8 \<Rightarrow> bool" where
  "is_seg m p base limit attr \<longleftrightarrow> seg_base m p = base \<and> seg_limit m p = limit \<and> seg_attr m p = (attr, GDT_ATTR_HIGH)"

lemma is_seg_cong:
  assumes "eq_on m' m p 8"
  shows "is_seg m' p base limit attr = is_seg m p base limit attr"
proof -
  have w: "ld16 m' (p + off) = ld16 m (p + off)" if "unat off + 2 \<le> 8" for off
    by (rule ld16_cong [OF eq_on_part [OF assms that]])
  have b: "ld8 m' (p + off) = ld8 m (p + off)" if "unat off + 1 \<le> 8" for off
    by (rule ld8_cong [OF eq_on_part [OF assms that]])
  from w [of 0] w [of 2] b [of 4] b [of 5] b [of 6] b [of 7] show ?thesis
    by (simp add: is_seg_def seg_base_def seg_limit_def seg_attr_def)
qed

lemma SetUpGDTDesc_effect:
  assumes "limit < 0x100000"
  obtains m' where "SetUpGDTDesc s p base limit attr GDT_ATTR_HIGH = s\<lparr>mem := m'\<rparr>"
    "is_seg m' p (base AND 0xFF00FFFF) limit attr" "only_in (mem s) m' p 8"
proof -
  let ?hi = "ucast (drop_bit 16 (limit AND 0x000F0000) + 0xC0) :: u8"
  define m' where "m' = st8 (st8 (st8 (st16 (st8 (st16 (mem s) p (ucast (limit AND 0x0000FFFF))) (p + 6) ?hi)
    (p + 2) (ucast (base AND 0x0000FFFF))) (p + 4) (ucast (base AND 0x00FF0000))) (p + 7) (ucast (drop_bit 24 base))) (p + 5) attr"
  have lo: "(0xFFFF :: u32) = mask 16" "(0x000F0000 :: u32) = push_bit 16 (mask 4)" "(0x00FF0000 :: u32) = push_bit 16 (mask 8)"
    "(0xFF00FFFF :: u32) = mask 16 OR push_bit 24 (mask 8)" "(0xF :: u32) = mask 4" "(0xF0 :: u8) = push_bit 4 (mask 4)"
    by (simp_all add: mask_eq_exp_minus_1)
  have lim: "\<not> bit limit n" if "20 \<le> n" for n
  proof -
    have "unat limit < 2 ^ n"
      using assms that power_increasing [of 20 n "2 :: nat"] by (simp add: word_less_nat_alt)
    then show ?thesis
      by (metis bit_unsigned_iff bit_nat_def div_less even_zero bit_iff_odd possible_bit_nat)
  qed
  have lim': "n < 20" if "bit limit n" for n using lim [of n] that by (cases "n < 20") auto
  have c0: "(0xC0 :: u32) = push_bit 6 (mask 2)" "(0xC0 :: u8) = push_bit 6 (mask 2)" by (simp_all add: mask_eq_exp_minus_1)
  have plus: "drop_bit 16 (limit AND 0x000F0000) + 0xC0 = drop_bit 16 (limit AND 0x000F0000) OR 0xC0"
    unfolding lo(2) c0(1) by (rule disjunctive_add) (auto simp: bit_simps)
  have "seg_base m' p = base AND 0xFF00FFFF"
    unfolding seg_base_def m'_def by (simp, unfold lo, rule bit_word_eqI) (auto simp: bit_simps)
  moreover have "seg_limit m' p = limit"
    unfolding seg_limit_def m'_def plus by (simp, unfold lo c0, rule bit_word_eqI) (use lim' in \<open>force simp: bit_simps\<close>)
  moreover have "seg_attr m' p = (attr, GDT_ATTR_HIGH)"
  proof -
    have g: "GDT_ATTR_HIGH = 0xC0" by (simp add: GDT_ATTR_HIGH_def)
    have "?hi AND 0xF0 = 0xC0" unfolding plus unfolding lo c0
      by (rule bit_word_eqI) (use lim in \<open>auto simp: bit_simps\<close>)
    then show ?thesis by (simp add: seg_attr_def m'_def g)
  qed
  ultimately have S: "is_seg m' p (base AND 0xFF00FFFF) limit attr" by (simp add: is_seg_def)
  have o: "only_in m (st16 m p h) p 8" for m h using only_in_field(2) [of 0 8 m p h] by simp
  have O: "only_in (mem s) m' p 8"
    unfolding m'_def
    by (rule only_in_trans [OF only_in_trans [OF only_in_trans [OF only_in_trans [OF only_in_trans [OF o only_in_field(3)]
      only_in_field(2)] only_in_field(3)] only_in_field(3)] only_in_field(3)]) simp_all
  have "SetUpGDTDesc s p base limit attr GDT_ATTR_HIGH = s\<lparr>mem := m'\<rparr>"
    by (simp add: SetUpGDTDesc_def Let_def put8_def put16_def m'_def GDT_ATTR_HIGH_def)
  from that [OF this S O] show thesis .
qed

definition tss_view :: "mem \<Rightarrow> addr \<Rightarrow> u32 \<times> u32 \<times> u32" where
  "tss_view m a = (ld32 m (a + 4), ld32 m (a + 8), ld32 m (a + 104))"

lemma tss_view_cong:
  assumes "eq_on m' m a 108"
  shows "tss_view m' a = tss_view m a"
proof -
  have "ld32 m' (a + off) = ld32 m (a + off)" if "unat off + 4 \<le> 108" for off
    by (rule ld32_cong [OF eq_on_part [OF assms that]])
  from this [of 4] this [of 8] this [of 104] show ?thesis by (simp add: tss_view_def)
qed

lemma tss_cleared:
  fixes m :: mem
  assumes "a \<noteq> NULL"
  defines "m' \<equiv> st32 (st32 (memset_loop 108 m a 0) (a + 8) 0x10) (a + 104) 108"
  shows "tss_view m' a = (0, 0x10, 108)" "only_in m m' a 108"
proof -
  have z: "memset_loop 108 m a 0 y = 0" if "inr y a 108" for y using that by (simp add: memset_loop_byte)
  have "inr (a + 4 + j) a 108" if "j < 4" for j using that by (simp add: inr_def word_less_nat_alt unat_plus_lt add.assoc)
  then have "ld32 (memset_loop 108 m a 0) (a + 4) = 0"
    using z [of "a + 4 + 0"] z [of "a + 4 + 1"] z [of "a + 4 + 2"] z [of "a + 4 + 3"] by (simp add: ld32_def inr_def add.assoc)
  then show "tss_view m' a = (0, 0x10, 108)" by (simp add: tss_view_def m'_def)
  show "only_in m m' a 108" unfolding m'_def
    by (rule only_in_trans [OF only_in_trans [OF memset_loop_only_in only_in_field(1)] only_in_field(1)]) simp_all
qed



section \<open>The page directory of a process\<close>

lemma nth_bytes: "i < n \<Longrightarrow> bytes m a n ! i = m (a + of_nat i)"
proof (induction n arbitrary: a i)
  case (Suc n)
  then show ?case by (cases i) (simp_all add: ld8_def add.assoc)
qed simp

lemma copied_word:
  assumes "bytes m' d n = bytes m s n" "unat off + 4 \<le> n"
  shows "ld32 m' (d + off) = ld32 m (s + off)"
proof -
  have "m' (d + (off + of_nat j)) = m (s + (off + of_nat j))" if "j < 4" for j
  proof -
    have "bytes m' d n ! (unat off + j) = bytes m s n ! (unat off + j)" using assms(1) by simp
    then show ?thesis using nth_bytes [of "unat off + j" n] assms(2) that by simp
  qed
  from this [of 0] this [of 1] this [of 2] this [of 3] show ?thesis by (simp add: ld32_def add.assoc)
qed

lemma ld32_zeroed: "zeroed m a n \<Longrightarrow> unat off + 4 \<le> n \<Longrightarrow> ld32 m (a + off) = 0"
proof -
  assume z: "zeroed m a n" and o: "unat off + 4 \<le> n"
  have "m (a + off + of_nat j) = 0" if "j < 4" for j
  proof -
    have "inr (a + off + of_nat j) (a + off) 4" using that by (simp add: inr_offset)
    then have "inr (a + off + of_nat j) a n" using inr_part [OF _ o] by blast
    then show ?thesis using z by (simp add: zeroed_def)
  qed
  from this [of 0] this [of 1] this [of 2] this [of 3] show ?thesis by (simp add: ld32_def)
qed

text \<open>The entry \<open>i\<close> of a page directory that starts at \<open>v\<close>.\<close>

definition pde :: "mem \<Rightarrow> addr \<Rightarrow> nat \<Rightarrow> u32" where
  "pde m v i = ld32 m (v + of_nat (4 * i))"

lemma pde_index: "i < 1024 \<Longrightarrow> unat (of_nat (4 * i) :: u32) = 4 * i"
  by (rule unat_of_nat_u32) simp

lemma pde_frame:
  assumes "only_in m m' (v + of_nat (4 * j)) n" "i < 1024" "4 * j + n \<le> 4096" "4 * i + 4 \<le> 4 * j \<or> 4 * j + n \<le> 4 * i" "0 < n"
  shows "pde m' v i = pde m v i"
  unfolding pde_def
proof (rule b4.ld_frame [OF assms(1)])
  have j: "j < 1024" using assms(3,5) by simp
  have "n \<le> unat (of_nat (4 * i) - of_nat (4 * j) :: u32) \<and> 4 \<le> unat (of_nat (4 * j) - of_nat (4 * i) :: u32)"
    using pde_index [OF assms(2)] pde_index [OF j] assms(2-5)
    by (auto simp del: of_nat_mult simp: unat_sub_if' word_le_nat_alt)
  then show "sep (v + of_nat (4 * j)) n (v + of_nat (4 * i)) 4" by (simp add: sep_fields(1) del: of_nat_mult)
qed

lemma pde_copied:
  assumes "sep d n b n" "n < 2 ^ 32" "d = v + of_nat (4 * j)" "b = w + of_nat (4 * j)" "4 * j \<le> 4 * i" "4 * i + 4 \<le> 4 * j + n" "i < 1024"
  shows "pde (memcpy_loop n m d b) v i = pde m w i"
proof -
  have j: "j < 1024" using assms(5,7) by simp
  let ?off = "of_nat (4 * (i - j)) :: u32"
  have "unat ?off = 4 * (i - j)" by (rule unat_of_nat_u32) (use assms(7) in simp)
  then have "ld32 (memcpy_loop n m d b) (d + ?off) = ld32 m (b + ?off)"
    using assms(5,6) by (intro copied_word [OF bytes_memcpy_loop [OF assms(1,2)]]) (simp del: of_nat_mult)
  moreover have "of_nat (4 * j) + ?off = (of_nat (4 * i) :: u32)" 
  proof -
    have "4 * j + 4 * (i - j) = 4 * i" using assms(5) by simp
    then show ?thesis by (metis of_nat_add)
  qed
  ultimately show ?thesis by (simp only: pde_def assms(3,4) add.assoc)
qed

lemma pde_memcpy_keep:
  assumes "n < 2 ^ 32" "d = v + of_nat (4 * j)" "i < 1024" "4 * j + n \<le> 4096" "4 * i + 4 \<le> 4 * j \<or> 4 * j + n \<le> 4 * i" "0 < n"
  shows "pde (memcpy_loop n m d b) v i = pde m v i"
  by (rule pde_frame [OF _ assms(3-6)]) (use memcpy_loop_only_in [OF assms(1), of m d b] in \<open>simp only: assms(2)\<close>)

lemma pde_flags: "(x OR 111 :: u32) AND 0xFFFFF000 = x AND 0xFFFFF000" "(x OR 111 :: u32) AND 7 = 7"
proof -
  have m: "(0xFFFFF000 :: u32) = push_bit 12 (mask 20)" "(7 :: u32) = mask 3" "(111 :: u32) = mask 4 OR push_bit 5 (mask 2)"
    by (simp_all add: mask_eq_exp_minus_1)
  show "(x OR 111) AND 0xFFFFF000 = x AND 0xFFFFF000" "(x OR 111) AND 7 = 7"
    unfolding m by (rule bit_word_eqI, auto simp: bit_simps)+
qed

text \<open>The four stores into a zeroed page: the kernel's quarter and entry 0 copied from the current directory, the last entry.\<close>

definition pde_stores :: "mem \<Rightarrow> addr \<Rightarrow> mem" where
  "pde_stores m v =
     (let m' = memcpy_loop 4 (memcpy_loop 1024 m (v + 3072) 0xFFFFFC00) v 0xFFFFF000
      in st32 m' (v + 4092) (VirtualAddrToPhysicAddr m' v OR 111))"

lemma window_directory:
  assumes "only_in m m' v 4096" "sep v 4096 window 0x400000"
  shows "i < 1024 \<Longrightarrow> pde m' 0xFFFFF000 i = pde m 0xFFFFF000 i" "VirtualAddrToPhysicAddr m' v = VirtualAddrToPhysicAddr m v"
proof -
  have win: "sep v 4096 0xFFFFF000 4096" using sep_offset_right [OF assms(2), of "0x3FF000" 4096] by simp
  show "pde m' 0xFFFFF000 i = pde m 0xFFFFF000 i" if "i < 1024"
  proof -
    have "eq_on m' m (0xFFFFF000 + of_nat (4 * i)) 4"
      using eq_on_part [OF only_in_sep [OF assms(1) win], of "of_nat (4 * i)" 4] pde_index [OF that] that by (simp del: of_nat_mult)
    then show ?thesis unfolding pde_def by (rule ld32_cong)
  qed
  have "ld32 m' (GetPTEPointer v) = ld32 m (GetPTEPointer v)"
    by (rule b4.ld_frame [OF assms(1) sep_sym [OF window_pte_sep [OF sep_sym [OF assms(2)]]]]) simp
  then show "VirtualAddrToPhysicAddr m' v = VirtualAddrToPhysicAddr m v" by (simp add: VirtualAddrToPhysicAddr_def Let_def)
qed

lemma pde_stores_entries:
  assumes z: "zeroed m v 4096" and w: "sep v 4096 window 0x400000"
  defines "m' \<equiv> pde_stores m v"
  shows "only_in m m' v 4096" "i < 1023 \<Longrightarrow> pde m' v i = (if i = 0 \<or> 768 \<le> i then pde m' 0xFFFFF000 i else 0)"
    "pde m' v 1023 = VirtualAddrToPhysicAddr m' v OR 111"
proof -
  have win: "sep v 4096 0xFFFFF000 4096" using sep_offset_right [OF w, of "0x3FF000" 4096] by simp
  define m2 where "m2 = memcpy_loop 1024 m (v + 3072) 0xFFFFFC00"
  define m3 where "m3 = memcpy_loop 4 m2 v 0xFFFFF000"
  have m': "m' = st32 m3 (v + 4092) (VirtualAddrToPhysicAddr m3 v OR 111)"
    by (simp add: m'_def pde_stores_def m3_def m2_def Let_def)
  have o: "only_in m m2 v 4096" "only_in m2 m3 v 4096" "only_in m3 m' v 4096"
    using only_in_part [of m m2 v 3072 1024 4096] only_in_part [of m2 m3 v 0 4 4096] memcpy_loop_only_in [of 1024 m "v + 3072" "0xFFFFFC00"]
      memcpy_loop_only_in [of 4 m2 v "0xFFFFF000"] only_in_field(1) [of 4092 4096 m3 v] by (simp_all add: m2_def m3_def m')
  show "only_in m m' v 4096" by (rule only_in_trans [OF only_in_trans [OF o(1,2)] o(3)])
  note wp = window_directory(1) [OF o(1) w] window_directory(1) [OF o(2) w] window_directory(1) [OF o(3) w]
  have last: "pde m' v i = pde m3 v i" if "i < 1023" for i
    by (rule pde_frame [of _ _ _ 1023 4]) (use that only_in_st32 [of m3 "v + 4092"] in \<open>simp_all add: m'\<close>)
  show "pde m' v 1023 = VirtualAddrToPhysicAddr m' v OR 111"
    using window_directory(2) [OF o(3) w] by (simp add: pde_def m')
  show "pde m' v i = (if i = 0 \<or> 768 \<le> i then pde m' 0xFFFFF000 i else 0)" if i: "i < 1023"
  proof -
    consider "i = 0" | "0 < i" "i < 768" | "768 \<le> i" by linarith
    then show ?thesis
    proof cases
      case 1
      have "sep v 4 0xFFFFF000 4" using sep_parts [OF win, of 0 4 0 4] by simp
      then have "pde m3 v 0 = pde m2 0xFFFFF000 0" unfolding m3_def by (rule pde_copied [where j = 0]) simp_all
      then show ?thesis using 1 last [of 0] wp(2,3) [of 0] by simp
    next
      case 2
      have "pde m3 v i = pde m2 v i" unfolding m3_def by (rule pde_memcpy_keep [where j = 0]) (use 2 in simp_all)
      also have "\<dots> = pde m v i" unfolding m2_def by (rule pde_memcpy_keep [where j = 768]) (use 2 in simp_all)
      also have "\<dots> = 0" unfolding pde_def by (rule ld32_zeroed [OF z]) (use pde_index [of i] 2 in \<open>simp del: of_nat_mult\<close>)
      finally show ?thesis using 2 last [OF i] by simp
    next
      case 3
      have "sep (v + 3072) 1024 0xFFFFFC00 1024" using sep_parts [OF win, of 3072 1024 3072 1024] by simp
      then have "pde m2 v i = pde m 0xFFFFF000 i" unfolding m2_def by (rule pde_copied [where j = 768]) (use 3 i in simp_all)
      moreover have "pde m3 v i = pde m2 v i" unfolding m3_def by (rule pde_memcpy_keep [where j = 0]) (use 3 i in simp_all)
      ultimately show ?thesis using 3 i last [OF i] wp [of i] by simp
    qed
  qed
qed

lemma CreatPDE_effect:
  assumes "kpalloc_ready g s 1 v" "sep v 4096 window 0x400000"
  obtains m1 where "CreatPDE g s = Ok v (s\<lparr>mem := pde_stores m1 v\<rparr>)" "zeroed m1 v 4096" "v \<noteq> NULL"
    "\<forall>x k. kpalloc_apart g s v 4096 x k \<longrightarrow> eq_on m1 (mem s) x k" "kpalloc g s 1 = Ok v (s\<lparr>mem := m1\<rparr>)"
proof -
  obtain m1 where K: "kpalloc g s 1 = Ok v (s\<lparr>mem := m1\<rparr>)" "zeroed m1 v 4096" "v \<noteq> NULL" "page_aligned v"
    "\<forall>x k. kpalloc_apart g s v 4096 x k \<longrightarrow> eq_on m1 (mem s) x k"
  proof (rule kpalloc_effect [of g s 1 v])
    show "kpalloc_ready g s (unat (1::u32)) v" "(1::u32) \<noteq> 0" "(1::u32) < 3840" using assms(1) by simp_all
  qed (rule that, simp_all)
  have "v + 3072 \<noteq> NULL"
  proof
    assume "v + 3072 = NULL"
    moreover have "(v + 3072) AND PAGE_MASK = v" by (rule page_of_offset [OF K(4)]) simp
    ultimately show False using K(3) by simp
  qed
  then have "CreatPDE g s = Ok v (s\<lparr>mem := pde_stores m1 v\<rparr>)"
    using K(1,3) by (simp add: CreatPDE_def memcpy_def pde_stores_def put32_def Let_def PG_US_U_def PG_RW_RW_def PG_P_1_def)
  with K(1-3,5) that show thesis by blast
qed

text \<open>A new page directory. \<open>CreatPDE\<close> returns a fresh page whose upper quarter (the kernel's
  entries 768 to 1022) and entry 0 equal those of the current page directory, whose last entry maps
  the directory itself as present, writable and accessible from user level, and whose other
  entries are empty: every process has the kernel's mapping and none of another process.\<close>

theorem CreatPDE_shares_kernel:
  assumes "kpalloc_ready g s 1 v" "sep v 4096 window 0x400000"
  shows "\<exists>m'. CreatPDE g s = Ok v (s\<lparr>mem := m'\<rparr>)
    \<and> (\<forall>i < 1023. pde m' v i = (if i = 0 \<or> 768 \<le> i then pde m' 0xFFFFF000 i else 0))
    \<and> pde m' v 1023 AND 0xFFFFF000 = VirtualAddrToPhysicAddr m' v AND 0xFFFFF000
    \<and> pde m' v 1023 AND 7 = 7"
proof -
  obtain m1 where C: "CreatPDE g s = Ok v (s\<lparr>mem := pde_stores m1 v\<rparr>)" "zeroed m1 v 4096"
    using CreatPDE_effect [OF assms] by blast
  show ?thesis
    using pde_stores_entries [OF C(2) assms(2)] pde_flags C(1) by auto
qed

theorem CreatPDE_shares_kernel_witness:
  "\<exists>m'. CreatPDE demo_symbols demo_thread_state = Ok 0xC0100000 (demo_thread_state\<lparr>mem := m'\<rparr>)
    \<and> pde m' 0xC0100000 800 = pde m' 0xFFFFF000 800 \<and> pde m' 0xC0100000 5 = 0"
proof -
  have "kpalloc_ready demo_symbols demo_thread_state 1 0xC0100000" using demo_spawn_room by (simp add: spawn_room_def)
  moreover have "sep 0xC0100000 4096 window 0x400000" by (simp add: sep_def)
  ultimately show ?thesis using CreatPDE_shares_kernel [of demo_symbols demo_thread_state "0xC0100000"] by auto
qed

end
