(* ===== verification/Syscall.thy ===== *)
theory Syscall
  imports Heap Console Interrupt
begin

text \<open>
  System calls: the table and the kernel side (\<open>lib/user/syscall-init.c\<close>), the entry through
  \<open>int 0x80\<close> (\<open>syscall_handler\<close> of \<open>kernel.S\<close>), and the user side (\<open>lib/user/syscall.c\<close>).

  The entry switches to the kernel stack of the thread (\<open>tss.esp0\<close>) with interrupts disabled, as an
  interrupt gate does, and calls the function whose address is in the table; what it pushes is not part
  of the model, but how much it pushes is (92 bytes up to the first instruction of that function: five words
  by the processor, the error code, four segment registers, \<open>pushad\<close>, the vector number, three arguments
  and the return address). The register \<open>eax\<close> after a function that returns nothing is unspecified (\<open>None\<close>).
\<close>

section \<open>The kernel side\<close>

datatype SYSCALL_NR = SYS_WRITE | SYS_GETPID | SYS_MALLOC | SYS_FREE

fun syscall_code :: "SYSCALL_NR \<Rightarrow> u32" where
  "syscall_code SYS_WRITE = 0"
| "syscall_code SYS_GETPID = 1"
| "syscall_code SYS_MALLOC = 2"
| "syscall_code SYS_FREE = 3"

definition sys_getpid :: "kstate \<Rightarrow> u32" where
  "sys_getpid s = ucast (ld16 (mem s) (GetCurrentThreadPCB s + off_pid))"

definition sys_write :: "symbols \<Rightarrow> kstate \<Rightarrow> addr \<Rightarrow> (kstate, u32) outcome" where
  "sys_write g s str = console_putstr g s str"

definition set_syscall :: "symbols \<Rightarrow> kstate \<Rightarrow> SYSCALL_NR \<Rightarrow> kernel_fn \<Rightarrow> kstate" where
  "set_syscall g s nr f = put32 s (syscall_table g + 4 * syscall_code nr) (fn_addr g f)"

definition SyscallInit :: "symbols \<Rightarrow> kstate \<Rightarrow> kstate" where
  "SyscallInit g s =
     (let s1 = putlit s ''syscall init start..'';
          s2 = set_syscall g s1 SYS_GETPID Fn_sys_getpid;
          s3 = set_syscall g s2 SYS_WRITE Fn_sys_write;
          s4 = set_syscall g s3 SYS_MALLOC Fn_sys_malloc;
          s5 = set_syscall g s4 SYS_FREE Fn_sys_free
      in putlit s5 ('' done'' @ [CHR ''\<newline>'']))"

section \<open>The entry\<close>

definition syscall_enter :: "symbols \<Rightarrow> kstate \<Rightarrow> kstate" where
  "syscall_enter g s = (cli s)\<lparr>esp := ld32 (mem s) (sym_tss g + 4) - 92\<rparr>"

text \<open>The function at the address \<open>f\<close>, with \<open>ebx\<close> as its first argument; \<open>None\<close> when it is none of the four.\<close>

definition call_service :: "symbols \<Rightarrow> addr \<Rightarrow> u32 \<Rightarrow> kstate \<Rightarrow> (kstate, u32 option) outcome option" where
  "call_service g f ebx s =
     (if f = fn_addr g Fn_sys_getpid then Some (Ok (Some (sys_getpid s)) s)
      else if f = fn_addr g Fn_sys_write then Some (obind (sys_write g s ebx) (\<lambda>n s1. Ok (Some n) s1))
      else if f = fn_addr g Fn_sys_malloc then Some (obind (sys_malloc g s ebx) (\<lambda>p s1. Ok (Some p) s1))
      else if f = fn_addr g Fn_sys_free then Some (obind (sys_free g s ebx) (\<lambda>_ s1. Ok None s1))
      else None)"

definition syscall_handler :: "symbols \<Rightarrow> kstate \<Rightarrow> u32 \<Rightarrow> u32 \<Rightarrow> (kstate, u32 option) outcome option" where
  "syscall_handler g s eax ebx =
     map_option (\<lambda>r. obind r (\<lambda>ret t. Ok ret (t\<lparr>esp := esp s, eflags := eflags s\<rparr>)))
       (call_service g (ld32 (mem s) (syscall_table g + 4 * eax)) ebx (syscall_enter g s))"

section \<open>The user side\<close>

text \<open>\<open>_syscall0\<close> leaves \<open>ebx\<close> as it is; the value is irrelevant to the one service called this way.\<close>

definition syscall0 :: "symbols \<Rightarrow> u32 \<Rightarrow> kstate \<Rightarrow> u32 \<Rightarrow> (kstate, u32 option) outcome option" where
  "syscall0 g ebx s number = syscall_handler g s number ebx"

definition syscall1 :: "symbols \<Rightarrow> kstate \<Rightarrow> u32 \<Rightarrow> u32 \<Rightarrow> (kstate, u32 option) outcome option" where
  "syscall1 g s number arg1 = syscall_handler g s number arg1"

definition getpid :: "symbols \<Rightarrow> u32 \<Rightarrow> kstate \<Rightarrow> (kstate, u32 option) outcome option" where
  "getpid g ebx s = syscall0 g ebx s (syscall_code SYS_GETPID)"

definition u_write :: "symbols \<Rightarrow> kstate \<Rightarrow> addr \<Rightarrow> (kstate, u32 option) outcome option" where
  "u_write g s str = syscall1 g s (syscall_code SYS_WRITE) str"

definition malloc :: "symbols \<Rightarrow> kstate \<Rightarrow> u32 \<Rightarrow> (kstate, u32 option) outcome option" where
  "malloc g s nbytes = syscall1 g s (syscall_code SYS_MALLOC) nbytes"

definition u_free :: "symbols \<Rightarrow> kstate \<Rightarrow> addr \<Rightarrow> (kstate, u32 option) outcome option" where
  "u_free g s p = syscall1 g s (syscall_code SYS_FREE) p"

section \<open>The table\<close>

definition service :: "SYSCALL_NR \<Rightarrow> kernel_fn" where
  "service nr = (case nr of SYS_WRITE \<Rightarrow> Fn_sys_write | SYS_GETPID \<Rightarrow> Fn_sys_getpid
     | SYS_MALLOC \<Rightarrow> Fn_sys_malloc | SYS_FREE \<Rightarrow> Fn_sys_free)"

definition syscalls_ready :: "symbols \<Rightarrow> mem \<Rightarrow> bool" where
  "syscalls_ready g m \<longleftrightarrow> (\<forall>nr. ld32 m (syscall_table g + 4 * syscall_code nr) = fn_addr g (service nr))"

lemma SyscallInit_ready: "syscalls_ready g (mem (SyscallInit g s))"
  unfolding syscalls_ready_def
proof
  fix nr
  show "ld32 (mem (SyscallInit g s)) (syscall_table g + 4 * syscall_code nr) = fn_addr g (service nr)"
    by (cases nr) (simp_all add: SyscallInit_def set_syscall_def service_def Let_def)
qed

lemma SyscallInit_only: "only_in (mem s) (mem (SyscallInit g s)) (syscall_table g) 16"
proof -
  have w: "only_in m (st32 m (syscall_table g + off) v) (syscall_table g) 16" if "unat off + 4 \<le> 16" for m off v
    by (rule only_in_part [OF only_in_st32 that])
  show ?thesis
    using only_in_trans [OF only_in_trans [OF only_in_trans [OF w [of 4] w [of 0]] w [of 8]] w [of 12]]
    by (simp add: SyscallInit_def set_syscall_def Let_def)
qed

lemma enter_current:
  assumes "ld32 (mem s) (sym_tss g + 4) = p + PAGE_SIZE" "page_aligned p"
  shows "GetCurrentThreadPCB (syscall_enter g s) = p"
proof -
  have "(p + 4004) AND PAGE_MASK = p" by (rule page_of_offset [OF assms(2)]) simp
  moreover have "4096 + p - 92 = p + 4004" by simp
  ultimately show ?thesis using assms(1) by (simp add: syscall_enter_def GetCurrentThreadPCB_def PAGE_SIZE_def add.commute)
qed



end
