(* ===== verification/Timer.thy ===== *)
theory Timer
  imports Interrupt
begin

text \<open>
  \<open>device/timer.c\<close>: the programming of the interval timer and the clock interrupt, which counts
  ticks and preempts a thread whose time slice is used up. The theory ends with the absence of
  starvation among threads that only compute.
\<close>

section \<open>The code\<close>

definition IRQ0_FREQUENCY :: u32 where "IRQ0_FREQUENCY = 100"
definition PULSE_FREQUENCY :: u32 where "PULSE_FREQUENCY = 1193180"
definition COUNTER0_VALUE :: u32 where "COUNTER0_VALUE = PULSE_FREQUENCY div IRQ0_FREQUENCY"
definition COUNTER0_PORT :: u8 where "COUNTER0_PORT = 0x40"
definition COUNTER0_NUM :: u8 where "COUNTER0_NUM = 0"
definition COUNTER0_MODE :: u8 where "COUNTER0_MODE = 2"
definition READ_WRITE_LATCH :: u8 where "READ_WRITE_LATCH = 3"

text \<open>The parameters are \<open>uint8_t\<close>; the shifts are done on \<open>int\<close>.\<close>

definition FrequencySet :: "kstate \<Rightarrow> u8 \<Rightarrow> u8 \<Rightarrow> u8 \<Rightarrow> u8 \<Rightarrow> u8 \<Rightarrow> kstate" where
  "FrequencySet s counter_port counter_num rwl counter_mode counter_value =
     (let s1 = outb s (ucast counter_port)
            (ucast (push_bit 6 (ucast counter_num :: u32) OR push_bit 4 (ucast rwl) OR push_bit 1 (ucast counter_mode)));
          s2 = outb s1 (ucast counter_port) counter_value
      in outb s2 (ucast counter_port) (ucast (drop_bit 8 (ucast counter_value :: u32))))"

definition IntTimerHandler :: "symbols \<Rightarrow> kstate \<Rightarrow> (kstate, unit) outcome" where
  "IntTimerHandler g s =
     (let current_thread = GetCurrentThreadPCB s
      in ASSERT ''IntTimerHandler'' ''current_thread->canary == STACK_CANARY''
           (ld32 (mem s) (current_thread + off_canary) = STACK_CANARY)
           (let s1 = put8 s (current_thread + off_cpu_ticks_elapsed)
                  (ld8 (mem s) (current_thread + off_cpu_ticks_elapsed) + 1);
                s2 = s1\<lparr>ticks := ticks s1 + 1\<rparr>
            in if ld8 (mem s2) (current_thread + off_cpu_ticks_left) = 0
               then ScheduleThread g s2
               else Ok () (put8 s2 (current_thread + off_cpu_ticks_left)
                      (ld8 (mem s2) (current_thread + off_cpu_ticks_left) - 1))))"

definition TimerInit :: "symbols \<Rightarrow> kstate \<Rightarrow> kstate" where
  "TimerInit g s =
     (let s1 = FrequencySet (putlit s ''timer init..'') COUNTER0_PORT COUNTER0_NUM READ_WRITE_LATCH
            COUNTER0_MODE (ucast COUNTER0_VALUE);
          s2 = RegisterHandler g s1 0x20 (fn_addr g Fn_IntTimerHandler)
      in putlit s2 ('' done'' @ [CHR ''\<newline>'']))"

section \<open>One tick\<close>

text \<open>The canaries of all threads are intact.\<close>

definition canaries :: "addr set \<Rightarrow> mem \<Rightarrow> bool" where
  "canaries ts m \<longleftrightarrow> (\<forall>p \<in> ts. ld32 m (p + off_canary) = STACK_CANARY)"

definition ticks_left :: "mem \<Rightarrow> addr \<Rightarrow> u8" where
  "ticks_left m p = ld8 m (p + off_cpu_ticks_left)"

lemma canary_sep:
  assumes "layout g ts" "p \<in> ts" "q \<in> ts" "unat off + n \<le> 32" "0 < n"
  shows "sep (p + off) n (q + off_canary) 4"
proof (cases "p = q")
  case True
  have "sep q 32 (q + off_canary) 4" by simp
  from sep_offset_left [OF this assms(4,5)] True show ?thesis by simp
next
  case False
  then have "sep p 4096 q 4096" using assms(1-3) by (auto simp: layout_def intro: pages_sep)
  from sep_parts [OF this, of off n off_canary 4] assms(4,5) show ?thesis by simp
qed

lemma canaries_field:
  assumes "canaries ts m" "layout g ts" "p \<in> ts" "only_in m m' (p + off) n" "unat off + n \<le> 32" "0 < n"
  shows "canaries ts m'"
  using assms(1) b4.ld_frame [OF assms(4) canary_sep [OF assms(2,3) _ assms(5,6)]] by (simp add: canaries_def)

lemma canaries_frame:
  assumes "canaries ts m" "layout g ts" "sched_frame g ts (sched_nodes g ts) m m'"
  shows "canaries ts m'"
proof -
  have "eq_on m' m (q + off_canary) 4" if q: "q \<in> ts" for q
  proof (rule sched_frame_eq_on [OF assms(3)])
    fix p assume "p \<in> ts"
    then show "sep p 32 (q + off_canary) 4" using canary_sep [OF assms(2) _ q, of p 0 32] by simp
  next
    have "sep (sym_tss g) 108 q 4096" using assms(2) q by (simp add: layout_def)
    from sep_parts [OF this, of 4 4 off_canary 4] show "sep (sym_tss g + 4) 4 (q + off_canary) 4" by simp
  next
    fix n assume "n \<in> sched_nodes g ts"
    then consider "n = ready_thread_list g" | "n = ready_thread_list g + 8" | p where "p \<in> ts" "n = p + 32"
      by (auto simp: sched_nodes_def general_tag_def)
    then show "sep n 8 (q + off_canary) 4"
    proof cases
      case 3
      show ?thesis
      proof (cases "p = q")
        case False
        then have "sep p 4096 q 4096" using 3(1) assms(2) q by (auto simp: layout_def intro: pages_sep)
        from sep_parts [OF this, of 32 8 off_canary 4] 3(2) show ?thesis by simp
      qed (simp add: 3(2))
    next
      case 1
      have "sep (ready_thread_list g) 16 q 4096" using assms(2) q by (simp add: layout_def)
      from sep_parts [OF this, of 0 8 off_canary 4] 1 show ?thesis by simp
    next
      case 2
      have "sep (ready_thread_list g) 16 q 4096" using assms(2) q by (simp add: layout_def)
      from sep_parts [OF this, of 8 8 off_canary 4] 2 show ?thesis by simp
    qed
  qed
  from ld32_cong [OF this] show ?thesis using assms(1) by (simp add: canaries_def)
qed

text \<open>
  The state at the entry of the clock interrupt, seen by the scheduler: thread \<open>running a\<close> is on
  the processor, the gate has cleared the interrupt flag, and the handler's stack is inside the
  page of the thread.
\<close>

definition clock_state :: "symbols \<Rightarrow> addr set \<Rightarrow> sched \<Rightarrow> kstate \<Rightarrow> bool" where
  "clock_state g ts a s \<longleftrightarrow> rep g ts (running a) (mem s) a \<and> sched_inv ts a \<and> GetCurrentThreadPCB s = running a
     \<and> GetIntStatus s = INT_OFF \<and> inr (esp s - 8) (running a) 4096 \<and> canaries ts (mem s)"

text \<open>The handler before it decides: one more tick elapsed.\<close>

definition ticked :: "kstate \<Rightarrow> kstate" where
  "ticked s = (let c = GetCurrentThreadPCB s in
     s\<lparr>mem := st8 (mem s) (c + off_cpu_ticks_elapsed) (ld8 (mem s) (c + off_cpu_ticks_elapsed) + 1), ticks := ticks s + 1\<rparr>)"

lemma IntTimerHandler_eq:
  "ld32 (mem s) (GetCurrentThreadPCB s + off_canary) = STACK_CANARY \<Longrightarrow>
   IntTimerHandler g s = (let c = GetCurrentThreadPCB s in
     if ticks_left (mem s) c = 0 then ScheduleThread g (ticked s)
     else Ok () (put8 (ticked s) (c + off_cpu_ticks_left) (ticks_left (mem s) c - 1)))"
  by (simp add: IntTimerHandler_def ticked_def ticks_left_def put8_def Let_def)

lemma ticked_clock_state:
  assumes "clock_state g ts a s"
  shows "clock_state g ts a (ticked s)" "ticks_left (mem (ticked s)) (running a) = ticks_left (mem s) (running a)"
proof -
  have a: "rep g ts (running a) (mem s) a" "running a \<in> ts" "GetCurrentThreadPCB s = running a" "layout g ts"
    "canaries ts (mem s)"
    using assms by (auto simp: clock_state_def sched_inv_def rep_def)
  let ?m = "st8 (mem s) (running a + 30) (ld8 (mem s) (running a + 30) + 1)"
  have m: "mem (ticked s) = ?m" using a(3) by (simp add: ticked_def Let_def)
  have "rep g ts (running a) ?m a" by (rule rep_field [OF a(1) only_in_st8 a(2)]) simp_all
  moreover have "canaries ts ?m" by (rule canaries_field [OF a(5,4,2) only_in_st8]) simp_all
  ultimately show "clock_state g ts a (ticked s)"
    using assms unfolding clock_state_def m
    by (simp add: ticked_def Let_def GetCurrentThreadPCB_def GetIntStatus_def)
  show "ticks_left (mem (ticked s)) (running a) = ticks_left (mem s) (running a)"
    unfolding m by (simp add: ticks_left_def)
qed

lemma tick_counts:
  assumes "clock_state g ts a s" "ticks_left (mem s) (running a) \<noteq> 0"
  obtains s' where "IntTimerHandler g s = Ok () s'" "clock_state g ts a s'"
    "ticks_left (mem s') (running a) = ticks_left (mem s) (running a) - 1" "ticks s' = ticks s + 1"
proof -
  let ?c = "running a" and ?t = "ticked s"
  let ?s = "put8 ?t (?c + 29) (ticks_left (mem s) ?c - 1)"
  note T = ticked_clock_state [OF assms(1)]
  have a: "rep g ts ?c (mem ?t) a" "?c \<in> ts" "layout g ts" "canaries ts (mem ?t)"
    using T(1) by (auto simp: clock_state_def sched_inv_def rep_def)
  have c: "GetCurrentThreadPCB s = ?c" "ld32 (mem s) (?c + 232) = STACK_CANARY"
    using assms(1) a(2) by (auto simp: clock_state_def canaries_def)
  have "rep g ts ?c (mem ?s) a"
    unfolding mem_put by (rule rep_field [OF a(1) only_in_st8 a(2)]) simp_all
  moreover have "canaries ts (mem ?s)"
    unfolding mem_put by (rule canaries_field [OF a(4,3,2) only_in_st8]) simp_all
  ultimately have "clock_state g ts a ?s"
    using T(1) by (simp add: clock_state_def GetCurrentThreadPCB_def)
  moreover have "IntTimerHandler g s = Ok () ?s"
    using c assms(2) by (simp add: IntTimerHandler_eq Let_def)
  moreover have "ticks_left (mem ?s) ?c = ticks_left (mem s) ?c - 1" by (simp add: ticks_left_def)
  moreover have "ticks ?s = ticks s + 1" by (cases s) (simp add: put8_def ticked_def Let_def)
  ultimately show thesis using that by blast
qed

text \<open>What the next interrupt finds when the handler returns in, or switches to, the state \<open>s\<close>.\<close>

definition clock_result :: "symbols \<Rightarrow> addr set \<Rightarrow> sched \<Rightarrow> kstate \<Rightarrow> bool" where
  "clock_result g ts a s \<longleftrightarrow> rep g ts (running a) (mem s) a \<and> sched_inv ts a \<and> GetCurrentThreadPCB s = running a
     \<and> canaries ts (mem s)"

lemma tick_preempts:
  assumes "clock_state g ts a s" "ticks_left (mem s) (running a) = 0"
  obtains s' b where "a_preempt a = Some b" "clock_result g ts b s'"
    "IntTimerHandler g s = (if running b = running a then Ok () s' else Switched s')"
proof -
  let ?c = "running a" and ?t = "ticked s"
  note T = ticked_clock_state(1) [OF assms(1)]
  have a: "rep g ts ?c (mem ?t) a" "sched_inv ts a" "GetCurrentThreadPCB ?t = ?c" "GetIntStatus ?t = INT_OFF"
    "inr (esp ?t - 8) ?c 4096" and cn: "canaries ts (mem ?t)"
    using T by (auto simp: clock_state_def)
  obtain s' b where S: "a_preempt a = Some b" "sched_inv ts b"
    "ScheduleThread g ?t = (if running b = running a then Ok () s' else Switched s')"
    "rep g ts (running b) (mem s') b" "GetCurrentThreadPCB s' = running b" "GetIntStatus s' = INT_OFF"
    "sched_frame g ts (sched_nodes g ts) (mem ?t) (mem s')"
    by (rule ScheduleThread_effect [OF a])
  have l: "layout g ts" and c: "GetCurrentThreadPCB s = ?c" "ld32 (mem s) (?c + 232) = STACK_CANARY"
    using assms(1) by (auto simp: clock_state_def canaries_def rep_def sched_inv_def)
  have "canaries ts (mem s')" by (rule canaries_frame [OF cn l S(7)])
  with S c assms(2) show thesis
    by (intro that [of b s']) (auto simp: clock_result_def IntTimerHandler_eq)
qed

section \<open>Time sharing\<close>

text \<open>
  What a thread does between two clock interrupts when it only computes: it leaves the ready list
  and the PCBs alone, stays on its own stack, and at the next interrupt the gate clears the flag.
\<close>

definition computes :: "symbols \<Rightarrow> addr set \<Rightarrow> kstate \<Rightarrow> kstate \<Rightarrow> bool" where
  "computes g ts s t \<longleftrightarrow> eq_on (mem t) (mem s) (ready_thread_list g) 16 \<and> (\<forall>p \<in> ts. eq_on (mem t) (mem s) p 236)
     \<and> GetCurrentThreadPCB t = GetCurrentThreadPCB s \<and> GetIntStatus t = INT_OFF
     \<and> inr (esp t - 8) (GetCurrentThreadPCB t) 4096"

lemma computes_clock_state:
  assumes "clock_result g ts a s" "computes g ts s t"
  shows "clock_state g ts a t" "ticks_left (mem t) (running a) = ticks_left (mem s) (running a)"
proof -
  have r: "rep g ts (running a) (mem s) a" "sched_inv ts a" "canaries ts (mem s)" "running a \<in> ts"
    using assms(1) by (auto simp: clock_result_def sched_inv_def)
  have f: "eq_on (mem t) (mem s) (p + off) n" if "p \<in> ts" "unat off + n \<le> 236" for p off n
    using assms(2) that eq_on_part [of "mem t" "mem s" p 236 off n] by (simp add: computes_def)
  have ld: "ld32 (mem t) (p + off) = ld32 (mem s) (p + off)" if "p \<in> ts" "unat off + 4 \<le> 236" for p off
    by (rule ld32_cong [OF f [OF that]])
  have l: "eq_on (mem t) (mem s) (ready_thread_list g) 16" using assms(2) by (simp add: computes_def)
  have N: "eq_on (mem t) (mem s) n 8" if n: "n \<in> sched_nodes g ts" for n
  proof -
    consider "n = ready_thread_list g" | "n = ready_thread_list g + 8" | p where "p \<in> ts" "n = p + 32"
      using n by (auto simp: sched_nodes_def general_tag_def)
    then show ?thesis
    proof cases
      case 1
      then show ?thesis using eq_on_part [OF l, of 0 8] by simp
    next
      case 2
      then show ?thesis using eq_on_part [OF l, of 8 8] by simp
    next
      case 3
      then show ?thesis using f [of p 32 8] by simp
    qed
  qed
  have "set (ready a) \<subseteq> ts" "is_list (mem s) (ready_thread_list g) (map general_tag (ready a))"
    using r(1) by (simp_all add: rep_def)
  from is_list_frame [OF this(2) N] nodes_in_sched [OF this(1), of g]
  have "is_list (mem t) (ready_thread_list g) (map general_tag (ready a))" by blast
  moreover have "\<forall>p \<in> ts. PCB_status (mem t) p = PCB_status (mem s) p" "\<forall>p \<in> ts. saved_esp_ok (mem t) p = saved_esp_ok (mem s) p"
    using ld [of _ 8] ld [of _ 0] by (simp_all add: PCB_status_def saved_esp_ok_def)
  ultimately have "rep g ts (running a) (mem t) a" using r(1) unfolding rep_def by simp
  moreover have "canaries ts (mem t)" using ld [of _ off_canary] r(3) by (simp add: canaries_def)
  ultimately show "clock_state g ts a t"
    using assms r(2) by (auto simp: clock_state_def clock_result_def computes_def)
  show "ticks_left (mem t) (running a) = ticks_left (mem s) (running a)"
    unfolding ticks_left_def by (rule ld8_cong [OF f [OF r(4)]]) simp
qed

text \<open>A run of the machine, observed at its clock interrupts.\<close>

definition clock_run :: "symbols \<Rightarrow> addr set \<Rightarrow> (nat \<Rightarrow> kstate) \<Rightarrow> bool" where
  "clock_run g ts \<sigma> \<longleftrightarrow> (\<forall>i. \<exists>s'. (IntTimerHandler g (\<sigma> i) = Ok () s' \<or> IntTimerHandler g (\<sigma> i) = Switched s')
     \<and> computes g ts s' (\<sigma> (Suc i)))"

lemma clock_run_step:
  assumes "clock_run g ts \<sigma>" "IntTimerHandler g (\<sigma> i) = (if b then Ok () s' else Switched s')"
  shows "computes g ts s' (\<sigma> (Suc i))"
  using assms(1) [unfolded clock_run_def, rule_format, of i] assms(2) by (auto split: if_splits)

lemma clock_run_slice:
  assumes "clock_run g ts \<sigma>" "clock_state g ts a (\<sigma> i)"
  shows "\<exists>b. a_preempt a = Some b \<and> clock_state g ts b (\<sigma> (i + Suc (unat (ticks_left (mem (\<sigma> i)) (running a)))))"
  using assms(2)
proof (induction "unat (ticks_left (mem (\<sigma> i)) (running a))" arbitrary: i)
  case 0
  then have "ticks_left (mem (\<sigma> i)) (running a) = 0" by (simp add: unat_eq_0)
  from tick_preempts [OF 0(2) this] obtain s' b where S: "a_preempt a = Some b" "clock_result g ts b s'"
    "IntTimerHandler g (\<sigma> i) = (if running b = running a then Ok () s' else Switched s')" .
  from computes_clock_state(1) [OF S(2) clock_run_step [OF assms(1) S(3)]] S(1) 0(1) show ?case by auto
next
  case (Suc n)
  let ?c = "running a"
  have nz: "ticks_left (mem (\<sigma> i)) ?c \<noteq> 0" using Suc(2) by auto
  from tick_counts [OF Suc(3) nz] obtain s' where S: "IntTimerHandler g (\<sigma> i) = Ok () s'" "clock_state g ts a s'"
    "ticks_left (mem s') ?c = ticks_left (mem (\<sigma> i)) ?c - 1" by blast
  have R: "clock_result g ts a s'" using S(2) by (simp add: clock_state_def clock_result_def)
  have C: "computes g ts s' (\<sigma> (Suc i))" using clock_run_step [OF assms(1), of i True s'] S(1) by simp
  have "unat (ticks_left (mem s') ?c) = n"
    using Suc(2) nz by (simp add: S(3) unat_minus_one)
  with computes_clock_state [OF R C] have "n = unat (ticks_left (mem (\<sigma> (Suc i))) ?c)"
    "clock_state g ts a (\<sigma> (Suc i))" by simp_all
  from Suc(1) [OF this] Suc(2) \<open>n = _\<close> [symmetric] show ?case by simp
qed

lemma ready_thread_runs:
  assumes "clock_run g ts \<sigma>"
  shows "clock_state g ts a (\<sigma> i) \<Longrightarrow> ready a = xs @ p # ys \<Longrightarrow>
    \<exists>n \<le> 256 * Suc (length xs). GetCurrentThreadPCB (\<sigma> (i + n)) = p"
proof (induction xs arbitrary: a i ys)
  case Nil
  obtain b where b: "a_preempt a = Some b" "clock_state g ts b (\<sigma> (i + Suc (unat (ticks_left (mem (\<sigma> i)) (running a)))))"
    using clock_run_slice [OF assms Nil(1)] by blast
  have "running b = p" using b(1) Nil(2) by (auto simp: a_preempt_def)
  with b(2) have "GetCurrentThreadPCB (\<sigma> (i + Suc (unat (ticks_left (mem (\<sigma> i)) (running a))))) = p"
    by (simp add: clock_state_def)
  moreover have "Suc (unat (ticks_left (mem (\<sigma> i)) (running a))) \<le> 256"
    using unsigned_less [of "ticks_left (mem (\<sigma> i)) (running a)", where ?'a = nat] by simp
  ultimately show ?case by (intro exI [of _ "Suc (unat (ticks_left (mem (\<sigma> i)) (running a)))"]) simp
next
  case (Cons x xs)
  let ?k = "Suc (unat (ticks_left (mem (\<sigma> i)) (running a)))"
  obtain b where b: "a_preempt a = Some b" "clock_state g ts b (\<sigma> (i + ?k))"
    using clock_run_slice [OF assms Cons(2)] by blast
  have "ready b = xs @ p # (ys @ [running a])" using b(1) Cons(3) by (auto simp: a_preempt_def)
  from Cons.IH [OF b(2) this] obtain n where n: "n \<le> 256 * Suc (length xs)" "GetCurrentThreadPCB (\<sigma> (i + (?k + n))) = p"
    by (auto simp: add.assoc)
  have "?k \<le> 256"
    using unsigned_less [of "ticks_left (mem (\<sigma> i)) (running a)", where ?'a = nat] by simp
  with n have "?k + n \<le> 256 * Suc (length (x # xs))" by simp
  with n(2) show ?case by blast
qed

text \<open>
  Such runs exist from every state at the entry of the interrupt: the thread that gets the processor
  computes and is interrupted again with its stack at offset \<open>0xF00\<close> of its page.
\<close>

definition next_interrupt :: "kstate \<Rightarrow> kstate" where
  "next_interrupt s = s\<lparr>esp := GetCurrentThreadPCB s + 0xF00, eflags := 2\<rparr>"

primrec computing_run :: "symbols \<Rightarrow> kstate \<Rightarrow> nat \<Rightarrow> kstate" where
  "computing_run g s 0 = s"
| "computing_run g s (Suc i) = (case IntTimerHandler g (computing_run g s i) of
      Ok u t \<Rightarrow> next_interrupt t | Switched t \<Rightarrow> next_interrupt t | _ \<Rightarrow> computing_run g s i)"

lemma next_interrupt_computes: "computes g ts s (next_interrupt s)"
proof -
  let ?c = "GetCurrentThreadPCB s"
  have "page_aligned ?c" by (simp add: GetCurrentThreadPCB_def)
  from page_of_offset [OF this, of "0xF00"] have "GetCurrentThreadPCB (next_interrupt s) = ?c"
    by (simp add: GetCurrentThreadPCB_def next_interrupt_def)
  then show ?thesis
    by (simp add: computes_def next_interrupt_def eq_on_def GetIntStatus_def EFLAGS_IF_def inr_def)
qed

lemma clock_state_handler:
  assumes "clock_state g ts a s"
  obtains s' b where "IntTimerHandler g s = Ok () s' \<or> IntTimerHandler g s = Switched s'" "clock_result g ts b s'"
proof (cases "ticks_left (mem s) (running a) = 0")
  case True
  from tick_preempts [OF assms this] that show thesis by metis
next
  case False
  from tick_counts [OF assms this] that [of _ a] show thesis
    by (metis clock_state_def clock_result_def)
qed

lemma computing_run:
  assumes "clock_state g ts a s"
  shows "clock_run g ts (computing_run g s)"
proof -
  let ?r = "computing_run g s"
  have step: "\<exists>s' b. (IntTimerHandler g (?r i) = Ok () s' \<or> IntTimerHandler g (?r i) = Switched s')
      \<and> clock_result g ts b s' \<and> ?r (Suc i) = next_interrupt s'"
    if "clock_state g ts a (?r i)" for i a
    by (rule clock_state_handler [OF that]) (auto split: outcome.splits)
  have inv: "\<exists>a. clock_state g ts a (?r i)" for i
  proof (induction i)
    case (Suc i)
    then obtain a where "clock_state g ts a (?r i)" by blast
    from step [OF this] obtain s' b where "clock_result g ts b s'" "?r (Suc i) = next_interrupt s'" by blast
    with computes_clock_state(1) [OF this(1) next_interrupt_computes] show ?case by auto
  qed (use assms in auto)
  show ?thesis
    unfolding clock_run_def
  proof
    fix i
    obtain a where "clock_state g ts a (?r i)" using inv by blast
    from step [OF this] obtain s' where s': "IntTimerHandler g (?r i) = Ok () s' \<or> IntTimerHandler g (?r i) = Switched s'"
      "?r (Suc i) = next_interrupt s'" by blast
    from s'(1) next_interrupt_computes [of g ts s'] show "\<exists>s'. (IntTimerHandler g (?r i) = Ok () s' \<or> IntTimerHandler g (?r i) = Switched s') \<and> computes g ts s' (?r (Suc i))"
      unfolding s'(2) by blast
  qed
qed

section \<open>Properties\<close>

text \<open>C8. The clock interrupt. In a state at the entry of the interrupt the handler counts one tick:
  while the running thread has time left it returns to it with one tick less and the scheduler
  state unchanged, and when the slice is used up it performs the round-robin step of the abstract
  scheduler. A damaged canary of the running thread is a panic.\<close>

theorem IntTimerHandler_tick:
  assumes "clock_state g ts a s"
  shows "(ticks_left (mem s) (running a) \<noteq> 0 \<longrightarrow> (\<exists>s'. IntTimerHandler g s = Ok () s' \<and> clock_state g ts a s'
      \<and> ticks_left (mem s') (running a) = ticks_left (mem s) (running a) - 1 \<and> ticks s' = ticks s + 1))
    \<and> (ticks_left (mem s) (running a) = 0 \<longrightarrow> (\<exists>s' b. a_preempt a = Some b \<and> clock_result g ts b s'
      \<and> IntTimerHandler g s = (if running b = running a then Ok () s' else Switched s')))
    \<and> (\<forall>t. ld32 (mem t) (GetCurrentThreadPCB t + off_canary) \<noteq> STACK_CANARY \<longrightarrow>
        IntTimerHandler g t = Panic ''IntTimerHandler'' ''current_thread->canary == STACK_CANARY'')"
proof (intro conjI impI allI)
  assume "ticks_left (mem s) (running a) \<noteq> 0"
  then show "\<exists>s'. IntTimerHandler g s = Ok () s' \<and> clock_state g ts a s'
      \<and> ticks_left (mem s') (running a) = ticks_left (mem s) (running a) - 1 \<and> ticks s' = ticks s + 1"
    by (rule tick_counts [OF assms]) blast
next
  assume "ticks_left (mem s) (running a) = 0"
  then show "\<exists>s' b. a_preempt a = Some b \<and> clock_result g ts b s'
      \<and> IntTimerHandler g s = (if running b = running a then Ok () s' else Switched s')"
    by (rule tick_preempts [OF assms]) blast
qed (simp add: IntTimerHandler_def)

text \<open>The machine with two threads, with their canaries in place.\<close>

definition demo_clock_state :: kstate where
  "demo_clock_state = demo_state\<lparr>mem := st32 (st32 demo_mem 0x20E8 STACK_CANARY) 0x30E8 STACK_CANARY\<rparr>"

lemma demo_clock: "clock_state demo_symbols {0x2000, 0x3000} demo_sched demo_clock_state"
proof -
  have "rep demo_symbols {0x2000, 0x3000} (running demo_sched) (mem demo_clock_state) demo_sched"
    using demo_layout
    by (simp add: demo_simps demo_sched_def demo_clock_state_def demo_mem_def) (simp add: demo_symbols_def sep_def)
  moreover have "canaries {0x2000, 0x3000} (mem demo_clock_state)"
    by (simp add: canaries_def demo_clock_state_def sep_def)
  moreover have "GetCurrentThreadPCB demo_clock_state = running demo_sched" "GetIntStatus demo_clock_state = INT_OFF"
    "inr (esp demo_clock_state - 8) (running demo_sched) 4096"
    using demo_rep(3-5) by (simp_all add: demo_clock_state_def GetCurrentThreadPCB_def)
  ultimately show ?thesis using demo_rep(2) by (simp add: clock_state_def)
qed

theorem IntTimerHandler_tick_witness:
  "\<exists>s' b. a_preempt demo_sched = Some b \<and> clock_result demo_symbols {0x2000, 0x3000} b s'
     \<and> IntTimerHandler demo_symbols demo_clock_state = (if running b = running demo_sched then Ok () s' else Switched s')"
proof -
  have "ticks_left (mem demo_clock_state) (running demo_sched) = 0"
    by (simp add: ticks_left_def demo_clock_state_def demo_mem_def demo_sched_def sep_def)
  then show ?thesis using IntTimerHandler_tick [OF demo_clock] by blast
qed

text \<open>C7. No starvation. In every run in which the threads only compute between clock interrupts,
  the thread that is \<open>length xs\<close> places from the head of the ready queue gets the processor after at
  most \<open>256 * (length xs + 1)\<close> clock interrupts (a time slice is a byte).\<close>

theorem timer_no_starvation:
  assumes "clock_run g ts \<sigma>" "clock_state g ts a (\<sigma> 0)" "ready a = xs @ p # ys"
  shows "\<exists>n \<le> 256 * Suc (length xs). GetCurrentThreadPCB (\<sigma> n) = p"
  using ready_thread_runs [OF assms] by simp

theorem timer_no_starvation_witness:
  "\<exists>n \<le> 256. GetCurrentThreadPCB (computing_run demo_symbols demo_clock_state n) = 0x3000"
  using timer_no_starvation [OF computing_run [OF demo_clock], of demo_sched "[]" "0x3000" "[]"] demo_clock
  by (simp add: demo_sched_def)

text \<open>What \<open>TimerInit\<close> programs. All three bytes go to the data port 0x40 of counter 0: the mode
  byte 0x34, then 0x9B and 0x00. The divisor 11931 for 100 Hz passes through a \<open>uint8_t\<close> parameter
  and becomes 155. The clock handler is entered for vector 0x20 and no other vector changes.\<close>

theorem TimerInit_programs:
  "ports (TimerInit g s) = ports s @ [(0x40, 0x34), (0x40, 0x9B), (0x40, 0)]
   \<and> COUNTER0_VALUE = 11931 \<and> (ucast COUNTER0_VALUE :: u8) = 155
   \<and> (\<forall>v. handler_of g (mem (TimerInit g s)) v =
        (if v = 0x20 then fn_addr g Fn_IntTimerHandler else handler_of g (mem s) v))"
proof -
  have cv: "COUNTER0_VALUE = 11931"
    by (simp add: COUNTER0_VALUE_def PULSE_FREQUENCY_def IRQ0_FREQUENCY_def)
  have fm: "mem (FrequencySet s p n r m v) = mem s" for s p n r m v
    by (simp add: FrequencySet_def Let_def)
  show ?thesis
    by (simp add: cv fm TimerInit_def FrequencySet_def Let_def outb_def putlit_def COUNTER0_PORT_def COUNTER0_NUM_def
        COUNTER0_MODE_def READ_WRITE_LATCH_def handler_of_RegisterHandler)
       (simp add: RegisterHandler_def put32_def)
qed

end
