(* ===== verification/IoQueue.thy ===== *)
theory IoQueue
  imports Sync Print
begin

text \<open>
  \<open>device/ioqueue.c\<close>: the ring buffer between an interrupt handler and a thread, with one
  sleeping producer and one sleeping consumer. The theory holds the code on the byte store,
  the bounded FIFO it implements, an interface of bounded queues with the buffer as its
  instance, and what happens to threads that sleep on the buffer.

  \<open>struct ioqueue\<close>: \<open>lock\<close> at offset 0, \<open>sleeping_producer\<close> at 28, \<open>sleeping_consumer\<close> at 32,
  \<open>buf\<close> at 36 (\<open>bufsize\<close> bytes), \<open>head\<close> at 100, \<open>tail\<close> at 104; 108 bytes in all.
\<close>

section \<open>The code\<close>

definition bufsize :: u32 where
  "bufsize = 64"

abbreviation off_sleeping_producer :: u32 where "off_sleeping_producer \<equiv> 28"
abbreviation off_sleeping_consumer :: u32 where "off_sleeping_consumer \<equiv> 32"
abbreviation off_buf :: u32 where "off_buf \<equiv> 36"
abbreviation off_head :: u32 where "off_head \<equiv> 100"
abbreviation off_tail :: u32 where "off_tail \<equiv> 104"

definition ioq_head :: "mem \<Rightarrow> addr \<Rightarrow> u32" where
  "ioq_head m queue = ld32 m (queue + off_head)"

definition ioq_tail :: "mem \<Rightarrow> addr \<Rightarrow> u32" where
  "ioq_tail m queue = ld32 m (queue + off_tail)"

definition sleeping_producer :: "mem \<Rightarrow> addr \<Rightarrow> addr" where
  "sleeping_producer m queue = ld32 m (queue + off_sleeping_producer)"

definition sleeping_consumer :: "mem \<Rightarrow> addr \<Rightarrow> addr" where
  "sleeping_consumer m queue = ld32 m (queue + off_sleeping_consumer)"

definition ioqueueInit :: "kstate \<Rightarrow> addr \<Rightarrow> kstate" where
  "ioqueueInit s queue =
     (let s1 = LockInit s queue;
          s2 = put32 s1 (queue + off_sleeping_consumer) NULL;
          s3 = put32 s2 (queue + off_sleeping_producer) NULL;
          s4 = put32 s3 (queue + off_tail) 0
      in put32 s4 (queue + off_head) 0)"

definition ptr_next_pos :: "u32 \<Rightarrow> u32" where
  "ptr_next_pos idx = (idx + 1) mod bufsize"

definition ioqueueFull :: "kstate \<Rightarrow> addr \<Rightarrow> (kstate, bool) outcome" where
  "ioqueueFull s queue =
     ASSERT ''ioqueueFull'' ''GetIntStatus() == INT_OFF'' (GetIntStatus s = INT_OFF)
       (Ok (ptr_next_pos (ioq_head (mem s) queue) = ioq_tail (mem s) queue) s)"

definition ioqueueEmpty :: "kstate \<Rightarrow> addr \<Rightarrow> (kstate, bool) outcome" where
  "ioqueueEmpty s queue =
     ASSERT ''ioqueueEmpty'' ''GetIntStatus() == INT_OFF'' (GetIntStatus s = INT_OFF)
       (Ok (ioq_head (mem s) queue = ioq_tail (mem s) queue) s)"

text \<open>\<open>waiter\<close> is the address of one of the two \<open>PCB*\<close> fields.\<close>

definition ioqueueBlock :: "symbols \<Rightarrow> kstate \<Rightarrow> addr \<Rightarrow> (kstate, unit) outcome" where
  "ioqueueBlock g s waiter =
     ASSERT ''ioqueueBlock'' ''waiter != NULL && *waiter == NULL''
       (waiter \<noteq> NULL \<and> ld32 (mem s) waiter = NULL)
       (BlockThread g TASK_BLOCKD (put32 s waiter (GetCurrentThreadPCB s)))"

definition ioqueueWakeup :: "symbols \<Rightarrow> kstate \<Rightarrow> addr \<Rightarrow> (kstate, unit) outcome" where
  "ioqueueWakeup g s waiter =
     ASSERT ''ioqueueWakeup'' ''*waiter != NULL'' (ld32 (mem s) waiter \<noteq> NULL)
       (obind (UnblockThread g s (ld32 (mem s) waiter)) (\<lambda>_ s1. Ok () (put32 s1 waiter NULL)))"

text \<open>The body of both waiting loops.\<close>

definition ioqueue_wait :: "symbols \<Rightarrow> kstate \<Rightarrow> addr \<Rightarrow> addr \<Rightarrow> (kstate, unit) outcome" where
  "ioqueue_wait g s queue waiter =
     obind (sys_lock_lock g s queue) (\<lambda>_ s1.
     obind (ioqueueBlock g s1 waiter) (\<lambda>_ s2. sys_lock_unlock g s2 queue))"

text \<open>\<open>while (cond(queue)) { lock; block; unlock; }\<close> for the two conditions.\<close>

partial_function (option) ioqueue_wait_loop ::
  "symbols \<Rightarrow> (kstate \<Rightarrow> addr \<Rightarrow> (kstate, bool) outcome) \<Rightarrow> addr \<Rightarrow> addr \<Rightarrow> kstate \<Rightarrow> (kstate, unit) outcome option" where
  "ioqueue_wait_loop g cond queue waiter s =
     (case cond s queue of
        Ok wait s1 \<Rightarrow>
          if wait
          then (case ioqueue_wait g s1 queue waiter of
                  Ok u s2 \<Rightarrow> ioqueue_wait_loop g cond queue waiter s2
                | Panic fn c \<Rightarrow> Some (Panic fn c)
                | Switched s2 \<Rightarrow> Some (Switched s2)
                | Diverge \<Rightarrow> Some Diverge)
          else Some (Ok () s1)
      | Panic fn c \<Rightarrow> Some (Panic fn c)
      | Switched s1 \<Rightarrow> Some (Switched s1)
      | Diverge \<Rightarrow> Some Diverge)"

text \<open>What \<open>ioqueue_getchar\<close> does once the buffer is not empty.\<close>

definition ioqueue_take :: "symbols \<Rightarrow> kstate \<Rightarrow> addr \<Rightarrow> (kstate, u8) outcome" where
  "ioqueue_take g s queue =
     (let byte = ld8 (mem s) (queue + off_buf + ioq_tail (mem s) queue);
          s1 = put32 s (queue + off_tail) (ptr_next_pos (ioq_tail (mem s) queue))
      in if sleeping_producer (mem s1) queue \<noteq> NULL
         then obind (ioqueueWakeup g s1 (queue + off_sleeping_producer)) (\<lambda>_ s2. Ok byte s2)
         else Ok byte s1)"

definition ioqueue_getchar :: "symbols \<Rightarrow> kstate \<Rightarrow> addr \<Rightarrow> (kstate, u8) outcome" where
  "ioqueue_getchar g s queue =
     ASSERT ''ioqueue_getchar'' ''GetIntStatus() == INT_OFF'' (GetIntStatus s = INT_OFF)
       (obind (of_loop (ioqueue_wait_loop g ioqueueEmpty queue (queue + off_sleeping_consumer) s))
          (\<lambda>_ s1. ioqueue_take g s1 queue))"

text \<open>What \<open>ioqueue_putchar\<close> does once the buffer is not full. It tests the sleeping consumer and
  wakes the sleeping producer, as the code does.\<close>

definition ioqueue_give :: "symbols \<Rightarrow> kstate \<Rightarrow> addr \<Rightarrow> u8 \<Rightarrow> (kstate, unit) outcome" where
  "ioqueue_give g s queue byte =
     (let s1 = put8 s (queue + off_buf + ioq_head (mem s) queue) byte;
          s2 = put32 s1 (queue + off_head) (ptr_next_pos (ioq_head (mem s1) queue))
      in if sleeping_consumer (mem s2) queue \<noteq> NULL
         then ioqueueWakeup g s2 (queue + off_sleeping_producer)
         else Ok () s2)"

definition ioqueue_putchar :: "symbols \<Rightarrow> kstate \<Rightarrow> addr \<Rightarrow> u8 \<Rightarrow> (kstate, unit) outcome" where
  "ioqueue_putchar g s queue byte =
     ASSERT ''ioqueue_putchar'' ''GetIntStatus() == INT_OFF'' (GetIntStatus s = INT_OFF)
       (obind (of_loop (ioqueue_wait_loop g ioqueueFull queue (queue + off_sleeping_producer) s))
          (\<lambda>_ s1. ioqueue_give g s1 queue byte))"

text \<open>
  A consumer that blocked inside \<open>ioqueue_getchar\<close> is scheduled again in the state \<open>s\<close>: it
  returns from \<open>ScheduleThread\<close> into \<open>BlockThread\<close>, which restores \<open>INT_OFF\<close>, releases the
  lock and goes on with the loop.
\<close>

definition ioqueue_getchar_resume :: "symbols \<Rightarrow> kstate \<Rightarrow> addr \<Rightarrow> (kstate, u8) outcome" where
  "ioqueue_getchar_resume g s queue =
     (let s1 = snd (SetIntStatus INT_OFF s)
      in obind (sys_lock_unlock g s1 queue) (\<lambda>_ s2.
         obind (of_loop (ioqueue_wait_loop g ioqueueEmpty queue (queue + off_sleeping_consumer) s2))
           (\<lambda>_ s3. ioqueue_take g s3 queue)))"

section \<open>The bytes in the buffer\<close>

definition ioq_ok :: "mem \<Rightarrow> addr \<Rightarrow> bool" where
  "ioq_ok m q \<longleftrightarrow> ioq_head m q < bufsize \<and> ioq_tail m q < bufsize"

definition ioq_count :: "mem \<Rightarrow> addr \<Rightarrow> nat" where
  "ioq_count m q = (unat (ioq_head m q) + 64 - unat (ioq_tail m q)) mod 64"

definition ioq_items :: "mem \<Rightarrow> addr \<Rightarrow> u8 list" where
  "ioq_items m q = map (\<lambda>i. ld8 m (q + off_buf + of_nat ((unat (ioq_tail m q) + i) mod 64)))
     [0..<ioq_count m q]"

lemma ptr_next_pos_bound: "ptr_next_pos i < bufsize"
  by (simp add: ptr_next_pos_def bufsize_def word_mod_less_divisor)

lemma unat_ptr_next_pos: "i < bufsize \<Longrightarrow> unat (ptr_next_pos i) = (unat i + 1) mod 64"
  by (simp add: ptr_next_pos_def bufsize_def unat_mod unat_Suc_lt)

lemma ioq_okD: "ioq_ok m q \<Longrightarrow> unat (ioq_head m q) < 64 \<and> unat (ioq_tail m q) < 64"
  by (simp add: ioq_ok_def bufsize_def word_less_nat_alt)

lemma ioq_count_bound: "ioq_count m q \<le> 63"
  by (simp add: ioq_count_def less_Suc_eq_le [symmetric])

text \<open>Index arithmetic of the ring, with the remainders resolved by cases.\<close>

lemma ring_count: "h < 64 \<Longrightarrow> t < 64 \<Longrightarrow> (h + 64 - t) mod 64 = (if t \<le> h then h - t else h + 64 - t :: nat)"
proof (cases "t \<le> h")
  case True
  then have "h + 64 - t = (h - t) + 64" by simp
  moreover assume "h < 64"
  ultimately show ?thesis using True by (simp only: mod_add_self2) simp
qed simp

lemma ring_next: "h < 64 \<Longrightarrow> (h + 1) mod 64 = (if h = 63 then 0 else h + 1 :: nat)"
  by simp

lemma ring_slot: "t < 64 \<Longrightarrow> i < 64 \<Longrightarrow> (t + i) mod 64 = (if t + i < 64 then t + i else t + i - 64 :: nat)"
  by (simp add: mod_if)

lemma ring_empty: "h < 64 \<Longrightarrow> t < 64 \<Longrightarrow> (h + 64 - t) mod 64 = 0 \<longleftrightarrow> h = (t :: nat)"
  by (auto simp: ring_count)

lemma ring_full: "h < 64 \<Longrightarrow> t < 64 \<Longrightarrow> (h + 64 - t) mod 64 = 63 \<longleftrightarrow> (h + 1) mod 64 = (t :: nat)"
  by (auto simp only: ring_count ring_next split: if_splits)

lemma ring_put:
  "h < 64 \<Longrightarrow> t < 64 \<Longrightarrow> (h + 1) mod 64 \<noteq> t \<Longrightarrow>
   ((h + 1) mod 64 + 64 - t) mod 64 = Suc ((h + 64 - t) mod 64 :: nat)"
  using ring_count [of "(h + 1) mod 64" t] unfolding ring_next [of h] ring_count [of h t]
  by (auto split: if_splits)

lemma ring_get:
  "h < 64 \<Longrightarrow> t < 64 \<Longrightarrow> h \<noteq> t \<Longrightarrow>
   (h + 64 - t) mod 64 = Suc ((h + 64 - (t + 1) mod 64) mod 64 :: nat)"
  using ring_count [of h "(t + 1) mod 64"] unfolding ring_next [of t] ring_count [of h t]
  by (auto split: if_splits)

lemma ring_last: "h < 64 \<Longrightarrow> t < 64 \<Longrightarrow> (t + (h + 64 - t) mod 64) mod 64 = (h :: nat)"
  by (simp add: ring_count)

lemma ring_slot_neq:
  "h < 64 \<Longrightarrow> t < 64 \<Longrightarrow> i < (h + 64 - t) mod 64 \<Longrightarrow> (t + i) mod 64 \<noteq> (h :: nat)"
  by (auto simp: ring_count ring_slot split: if_splits)

lemma ioqueue_empty_iff: "ioq_ok m q \<Longrightarrow> ioq_head m q = ioq_tail m q \<longleftrightarrow> ioq_items m q = []"
  using ioq_okD [of m q] ring_empty [of "unat (ioq_head m q)" "unat (ioq_tail m q)"]
  by (simp add: ioq_items_def ioq_count_def word_unat_eq_iff)

lemma ioqueue_full_iff:
  "ioq_ok m q \<Longrightarrow> ptr_next_pos (ioq_head m q) = ioq_tail m q \<longleftrightarrow> length (ioq_items m q) = 63"
  using ioq_okD [of m q] ring_full [of "unat (ioq_head m q)" "unat (ioq_tail m q)"]
  by (auto simp: ioq_items_def ioq_count_def word_unat_eq_iff unat_ptr_next_pos ioq_ok_def)

section \<open>Putting and taking a byte\<close>

text \<open>The fields of a queue are apart from each other.\<close>

lemma ioq_slot_sep:
  assumes "unat i < 64"
  shows "sep (q + off_buf + i) 1 (q + off_head) 4" "sep (q + off_buf + i) 1 (q + off_tail) 4"
    "sep (q + off_buf + i) 1 (q + off_sleeping_producer) 4" "sep (q + off_buf + i) 1 (q + off_sleeping_consumer) 4"
    "sep (q + off_head) 4 (q + off_buf + i) 1" "sep (q + off_tail) 4 (q + off_buf + i) 1"
proof -
  have "sep (q + off_buf) 64 (q + off_head) 4" "sep (q + off_buf) 64 (q + off_tail) 4"
    "sep (q + off_buf) 64 (q + off_sleeping_producer) 4" "sep (q + off_buf) 64 (q + off_sleeping_consumer) 4"
    by simp_all
  from this [THEN sep_offset_left, of i 1] assms
  show "sep (q + off_buf + i) 1 (q + off_head) 4" "sep (q + off_buf + i) 1 (q + off_tail) 4"
    "sep (q + off_buf + i) 1 (q + off_sleeping_producer) 4" "sep (q + off_buf + i) 1 (q + off_sleeping_consumer) 4"
    by simp_all
  then show "sep (q + off_head) 4 (q + off_buf + i) 1" "sep (q + off_tail) 4 (q + off_buf + i) 1"
    by (blast intro: sep_sym)+
qed

lemma sep_bytes: "sep a 1 b 1 \<longleftrightarrow> a \<noteq> b"
  by (auto simp: sep_def Suc_le_eq unat_gt_0)

lemma slot_neq:
  assumes "i < 64" "unat h < 64" "i \<noteq> unat h"
  shows "sep (q + off_buf + h) 1 (q + off_buf + of_nat i) 1"
proof -
  have "(of_nat i :: u32) \<noteq> h" using assms by auto
  then show ?thesis by (simp only: sep_bytes) simp
qed

lemma ioq_buffer_writes:
  assumes "unat i < 64"
  shows "only_in m (st8 m (q + off_buf + i) b) q 108" "only_in m (st32 m (q + off_head) v) q 108"
    "only_in m (st32 m (q + off_tail) v) q 108"
proof -
  have "unat (off_buf + i) = 36 + unat i" using assms by (subst unat_plus_lt) simp_all
  with assms have "only_in m (st8 m (q + (off_buf + i)) b) q 108"
    by (intro only_in_part [OF only_in_st8]) simp
  then show "only_in m (st8 m (q + off_buf + i) b) q 108" by (simp add: add.assoc)
qed (rule only_in_part [OF only_in_st32]; simp)+

lemmas ioq_fields = ioq_head_def ioq_tail_def sleeping_producer_def sleeping_consumer_def

lemma give_store:
  fixes m :: mem and q :: addr and b :: u8
  assumes ok: "ioq_ok m q" and room: "length (ioq_items m q) < 63"
  defines "m1 \<equiv> st8 m (q + off_buf + ioq_head m q) b"
  defines "m' \<equiv> st32 m1 (q + off_head) (ptr_next_pos (ioq_head m q))"
  shows "ioq_head m1 q = ioq_head m q" "ioq_ok m' q" "ioq_items m' q = ioq_items m q @ [b]"
    "sleeping_producer m' q = sleeping_producer m q" "sleeping_consumer m' q = sleeping_consumer m q"
    "only_in m m' q 108"
proof -
  let ?h = "unat (ioq_head m q)" and ?t = "unat (ioq_tail m q)"
  have ht: "?h < 64" "?t < 64" using ioq_okD [OF ok] by auto
  note sl = ioq_slot_sep [OF ht(1), of q]
  show h1: "ioq_head m1 q = ioq_head m q" using sl by (simp add: m1_def ioq_head_def)
  have f: "ioq_head m' q = ptr_next_pos (ioq_head m q)" "ioq_tail m' q = ioq_tail m q"
    using sl by (simp_all add: m'_def m1_def ioq_head_def ioq_tail_def)
  show "sleeping_producer m' q = sleeping_producer m q" "sleeping_consumer m' q = sleeping_consumer m q"
    using sl by (simp_all add: m'_def m1_def sleeping_producer_def sleeping_consumer_def)
  show "ioq_ok m' q" using ok f by (simp add: ioq_ok_def ptr_next_pos_bound)
  have "(?h + 1) mod 64 \<noteq> ?t" using ring_full [OF ht] room by (simp add: ioq_items_def ioq_count_def)
  then have c: "ioq_count m' q = Suc (ioq_count m q)"
    using ring_put [OF ht] ok by (simp add: ioq_count_def f unat_ptr_next_pos ioq_ok_def)
  have at: "ld8 m' (q + off_buf + of_nat i) = ld8 m1 (q + off_buf + of_nat i)" if "i < 64" for i
    using ioq_slot_sep(5) [of "of_nat i" q] that by (simp add: m'_def)
  have old: "ld8 m1 (q + off_buf + of_nat ((?t + i) mod 64)) = ld8 m (q + off_buf + of_nat ((?t + i) mod 64))"
    if "i < ioq_count m q" for i
    using slot_neq [OF _ ht(1), of "(?t + i) mod 64" q] ring_slot_neq [OF ht] that
    by (simp add: m1_def ioq_count_def)
  have new: "ld8 m1 (q + off_buf + of_nat ((?t + ioq_count m q) mod 64)) = b"
    using ring_last [OF ht] by (simp add: m1_def ioq_count_def)
  show "ioq_items m' q = ioq_items m q @ [b]"
    using old new by (simp add: ioq_items_def c f at)
  show "only_in m m' q 108"
    unfolding m'_def m1_def by (rule only_in_trans [OF ioq_buffer_writes(1,2) [OF ht(1)]])
qed

lemma take_store:
  assumes ok: "ioq_ok m q" and items: "ioq_items m q = x # xs"
  defines "m' \<equiv> st32 m (q + off_tail) (ptr_next_pos (ioq_tail m q))"
  shows "ld8 m (q + off_buf + ioq_tail m q) = x" "ioq_ok m' q" "ioq_items m' q = xs"
    "sleeping_producer m' q = sleeping_producer m q" "sleeping_consumer m' q = sleeping_consumer m q"
    "only_in m m' q 108"
proof -
  let ?h = "unat (ioq_head m q)" and ?t = "unat (ioq_tail m q)"
  have ht: "?h < 64" "?t < 64" using ioq_okD [OF ok] by auto
  have f: "ioq_tail m' q = ptr_next_pos (ioq_tail m q)" "ioq_head m' q = ioq_head m q"
    by (simp_all add: m'_def ioq_head_def ioq_tail_def)
  show "sleeping_producer m' q = sleeping_producer m q" "sleeping_consumer m' q = sleeping_consumer m q"
    by (simp_all add: m'_def sleeping_producer_def sleeping_consumer_def)
  show "ioq_ok m' q" using ok f by (simp add: ioq_ok_def ptr_next_pos_bound)
  have "?h \<noteq> ?t" using ring_empty [OF ht] items by (auto simp: ioq_items_def ioq_count_def)
  then have c: "ioq_count m q = Suc (ioq_count m' q)"
    using ring_get [OF ht] ok by (simp add: ioq_count_def f unat_ptr_next_pos ioq_ok_def)
  have at: "ld8 m' (q + off_buf + of_nat i) = ld8 m (q + off_buf + of_nat i)" if "i < 64" for i
    using ioq_slot_sep(6) [of "of_nat i" q] that by (simp add: m'_def)
  have "ioq_items m q = ld8 m (q + off_buf + of_nat (?t mod 64)) # ioq_items m' q"
    using ok by (simp add: ioq_items_def c upt_rec [of 0 "Suc _"] map_Suc_upt [symmetric] f at
        unat_ptr_next_pos ioq_ok_def mod_add_left_eq del: upt_Suc)
  with items ht show "ld8 m (q + off_buf + ioq_tail m q) = x" "ioq_items m' q = xs" by simp_all
  show "only_in m m' q 108"
    unfolding m'_def by (rule ioq_buffer_writes(3) [OF ht(1)])
qed

text \<open>The two operations when no thread sleeps on the queue.\<close>

lemma wait_loop_skips:
  "cond s q = Ok False s \<Longrightarrow> of_loop (ioqueue_wait_loop g cond q w s) = Ok () s"
  by (subst ioqueue_wait_loop.simps) simp

lemma ioqueue_putchar_room:
  assumes "GetIntStatus s = INT_OFF" "ioq_ok (mem s) q" "length (ioq_items (mem s) q) < 63"
  shows "ioqueue_putchar g s q b = ioqueue_give g s q b"
  using assms ioqueue_full_iff [OF assms(2)]
  by (simp add: ioqueue_putchar_def wait_loop_skips ioqueueFull_def)

lemma ioqueue_getchar_data:
  assumes "GetIntStatus s = INT_OFF" "ioq_ok (mem s) q" "ioq_items (mem s) q = x # xs"
  shows "ioqueue_getchar g s q = ioqueue_take g s q"
  using assms ioqueue_empty_iff [OF assms(2)]
  by (simp add: ioqueue_getchar_def wait_loop_skips ioqueueEmpty_def)

definition ioq_rep :: "addr \<Rightarrow> kstate \<Rightarrow> u8 list \<Rightarrow> bool" where
  "ioq_rep q s xs \<longleftrightarrow> GetIntStatus s = INT_OFF \<and> ioq_ok (mem s) q \<and> ioq_items (mem s) q = xs
     \<and> sleeping_producer (mem s) q = NULL \<and> sleeping_consumer (mem s) q = NULL"

lemma putchar_effect:
  assumes "ioq_rep q s xs" "length xs < 63"
  obtains m' where "ioqueue_putchar g s q b = Ok () (s\<lparr>mem := m'\<rparr>)" "ioq_rep q (s\<lparr>mem := m'\<rparr>) (xs @ [b])"
    "only_in (mem s) m' q 108"
proof -
  have a: "GetIntStatus s = INT_OFF" "ioq_ok (mem s) q" "ioq_items (mem s) q = xs"
    "sleeping_producer (mem s) q = NULL" "sleeping_consumer (mem s) q = NULL"
    using assms(1) by (auto simp: ioq_rep_def)
  note G = give_store [OF a(2), of b, unfolded a(3), OF assms(2)]
  from G a ioqueue_putchar_room [OF a(1,2), of g b] assms(2) show thesis
    by (intro that) (auto simp: ioqueue_give_def put8_def put32_def ioq_rep_def Let_def)
qed

lemma getchar_effect:
  assumes "ioq_rep q s (x # xs)"
  obtains m' where "ioqueue_getchar g s q = Ok x (s\<lparr>mem := m'\<rparr>)" "ioq_rep q (s\<lparr>mem := m'\<rparr>) xs"
    "only_in (mem s) m' q 108"
proof -
  have a: "GetIntStatus s = INT_OFF" "ioq_ok (mem s) q" "ioq_items (mem s) q = x # xs"
    "sleeping_producer (mem s) q = NULL" "sleeping_consumer (mem s) q = NULL"
    using assms(1) by (auto simp: ioq_rep_def)
  from take_store [OF a(2,3)] a ioqueue_getchar_data [OF a(1-3), of g] show thesis
    by (intro that) (auto simp: ioqueue_take_def put32_def ioq_rep_def Let_def)
qed

lemma ioq_rep_bound: "ioq_rep q s xs \<Longrightarrow> length xs \<le> 63"
  using ioq_count_bound [of "mem s" q] by (auto simp: ioq_rep_def ioq_items_def)

section \<open>Bounded queues as an interface\<close>

text \<open>
  What a producer and a consumer rely on: a queue that holds at most \<open>cap\<close> elements takes one
  more while there is room, and gives the oldest one back while there is one.
\<close>

locale bounded_queue =
  fixes rep :: "'s \<Rightarrow> 'a list \<Rightarrow> bool" and put :: "'s \<Rightarrow> 'a \<Rightarrow> ('s, unit) outcome"
    and get :: "'s \<Rightarrow> ('s, 'a) outcome" and cap :: nat
  assumes put: "rep s xs \<Longrightarrow> length xs < cap \<Longrightarrow> \<exists>s'. put s x = Ok () s' \<and> rep s' (xs @ [x])"
    and get: "rep s (x # xs) \<Longrightarrow> \<exists>s'. get s = Ok x s' \<and> rep s' xs"
begin

fun put_all :: "'s \<Rightarrow> 'a list \<Rightarrow> ('s, unit) outcome" where
  "put_all s [] = Ok () s"
| "put_all s (x # xs) = obind (put s x) (\<lambda>_ s'. put_all s' xs)"

fun get_n :: "'s \<Rightarrow> nat \<Rightarrow> ('s, 'a list) outcome" where
  "get_n s 0 = Ok [] s"
| "get_n s (Suc n) = obind (get s) (\<lambda>x s'. obind (get_n s' n) (\<lambda>xs s''. Ok (x # xs) s''))"

lemma put_all_ok: "rep s xs \<Longrightarrow> length xs + length ys \<le> cap \<Longrightarrow> \<exists>s'. put_all s ys = Ok () s' \<and> rep s' (xs @ ys)"
proof (induction ys arbitrary: s xs)
  case (Cons y ys)
  then obtain s1 where "put s y = Ok () s1" "rep s1 (xs @ [y])" using put [of s xs y] by auto
  with Cons.IH [of s1 "xs @ [y]"] Cons.prems(2) show ?case by auto
qed simp

lemma get_n_ok: "rep s (xs @ ys) \<Longrightarrow> \<exists>s'. get_n s (length xs) = Ok xs s' \<and> rep s' ys"
proof (induction xs arbitrary: s)
  case (Cons x xs)
  then obtain s1 where "get s = Ok x s1" "rep s1 (xs @ ys)" using get [of s x "xs @ ys"] by auto
  with Cons.IH [of s1] show ?case by auto
qed simp

text \<open>First in, first out: what goes in behind \<open>xs\<close> comes out behind \<open>xs\<close>, in the same order.\<close>

lemma fifo:
  assumes "rep s xs" "length xs + length ys \<le> cap"
  shows "\<exists>s1 s2. put_all s ys = Ok () s1 \<and> get_n s1 (length xs + length ys) = Ok (xs @ ys) s2 \<and> rep s2 []"
proof -
  obtain s1 where "put_all s ys = Ok () s1" "rep s1 ((xs @ ys) @ [])" using put_all_ok [OF assms] by auto
  with get_n_ok [of s1 "xs @ ys" "[]"] show ?thesis by auto
qed

end

interpretation ioq: bounded_queue "ioq_rep q" "\<lambda>s. ioqueue_putchar g s q" "\<lambda>s. ioqueue_getchar g s q" 63
proof unfold_locales
  fix s xs x assume "ioq_rep q s xs" "length xs < 63"
  then show "\<exists>s'. ioqueue_putchar g s q x = Ok () s' \<and> ioq_rep q s' (xs @ [x])"
    by (rule putchar_effect [of q s xs g x]) blast
next
  fix s x xs assume "ioq_rep q s (x # xs)"
  then show "\<exists>s'. ioqueue_getchar g s q = Ok x s' \<and> ioq_rep q s' xs"
    by (rule getchar_effect [of q s x xs g]) blast
qed

section \<open>Sleeping on the queue\<close>

text \<open>The data of the queue: the buffer and the two indices, 72 bytes from offset 36 on.\<close>

lemma ioq_data_cong:
  assumes "eq_on m' m (q + off_buf) 72"
  shows "ioq_ok m' q = ioq_ok m q" "ioq_items m' q = ioq_items m q"
proof -
  have "ld32 m' (q + off_buf + off) = ld32 m (q + off_buf + off)" if "unat off + 4 \<le> 72" for off
    by (rule ld32_cong [OF eq_on_part [OF assms that]])
  note r = this
  have "ld32 m' (q + off_buf + 64) = ld32 m (q + off_buf + 64)" "ld32 m' (q + off_buf + 68) = ld32 m (q + off_buf + 68)"
    by (rule r; simp)+
  then have h: "ioq_head m' q = ioq_head m q" "ioq_tail m' q = ioq_tail m q"
    by (simp_all add: ioq_fields add.assoc)
  then show "ioq_ok m' q = ioq_ok m q" by (simp add: ioq_ok_def)
  have "ld8 m' (q + off_buf + of_nat (i mod 64)) = ld8 m (q + off_buf + of_nat (i mod 64))" for i
    by (rule ld8_cong [OF eq_on_part [OF assms]]) (simp add: Suc_le_eq trans_less_add1)
  then show "ioq_items m' q = ioq_items m q" by (simp add: ioq_items_def ioq_count_def h)
qed

lemma ioq_data_only_in:
  "only_in m m' b k \<Longrightarrow> sep b k (q + off_buf) 72 \<Longrightarrow> ioq_ok m' q = ioq_ok m q"
  "only_in m m' b k \<Longrightarrow> sep b k (q + off_buf) 72 \<Longrightarrow> ioq_items m' q = ioq_items m q"
  by (rule ioq_data_cong [OF only_in_sep]; assumption)+

definition waiter_field :: "u32 \<Rightarrow> bool" where
  "waiter_field w \<longleftrightarrow> w = off_sleeping_producer \<or> w = off_sleeping_consumer"

lemma waiter_field_sep:
  assumes "waiter_field w"
  shows "sep (q + w) 4 (q + off_buf) 72" "sep q 28 (q + w) 4" "only_in m (st32 m (q + w) v) q 108"
proof -
  show "sep (q + w) 4 (q + off_buf) 72" "sep q 28 (q + w) 4"
    using assms by (auto simp: waiter_field_def)
  show "only_in m (st32 m (q + w) v) q 108"
    using assms by (intro only_in_part [OF only_in_st32]) (auto simp: waiter_field_def)
qed

text \<open>One turn of the waiting loop: the caller takes the lock, is recorded and gives the processor away.\<close>

lemma ioqueue_wait_effect:
  assumes rep: "rep g ts (running a) (mem s) a" and inv: "sched_inv ts a"
    and cur: "GetCurrentThreadPCB s = running a" and stack: "inr (esp s - 8) (running a) 4096"
    and ready: "ready a = n # ns" and apart: "apart g ts q 108" and free: "lock_free s q"
    and w: "waiter_field w" "q + w \<noteq> NULL" "ld32 (mem s) (q + w) = NULL"
  obtains s' b m2 where "ioqueue_wait g s q (q + w) = Switched s'" "a_block TASK_BLOCKD a = Some b" "running b = n"
    "rep g ts n (mem s') b" "GetCurrentThreadPCB s' = n" "GetIntStatus s' = INT_OFF"
    "ioq_ok (mem s') q = ioq_ok (mem s) q" "ioq_items (mem s') q = ioq_items (mem s) q"
    "eq_on (mem s') (st32 m2 (q + w) (running a)) q 108" "only_in (mem s) m2 q 28"
proof -
  obtain m1 where m1: "sys_lock_lock g s q = Ok () (s\<lparr>mem := m1\<rparr>)" "lock_held (s\<lparr>mem := m1\<rparr>) q"
    "only_in (mem s) m1 q 28" using lk.lock [OF free] by blast
  let ?m2 = "st32 m1 (q + w) (running a)" and ?s2 = "s\<lparr>mem := st32 m1 (q + w) (running a)\<rparr>"
  have "only_in (mem s) m1 q 108" using only_in_part [of "mem s" m1 q 0 28 108] m1(3) by simp
  then have o2: "only_in (mem s) ?m2 q 108"
    using only_in_trans waiter_field_sep(3) [OF w(1)] by blast
  have B: "ioqueueBlock g (s\<lparr>mem := m1\<rparr>) (q + w) = BlockThread g TASK_BLOCKD ?s2"
    using w b4.ld_frame [OF m1(3) waiter_field_sep(2) [OF w(1)]] cur
    by (simp add: ioqueueBlock_def put32_def GetCurrentThreadPCB_def)
  obtain s' b where S: "BlockThread g TASK_BLOCKD ?s2 = Switched s'" "a_block TASK_BLOCKD a = Some b"
    "running b = n" "rep g ts n (mem s') b" "GetCurrentThreadPCB s' = n" "GetIntStatus s' = INT_OFF"
    "sched_frame g ts (set (nodes (ready_thread_list g) (map general_tag (ready a)))) (mem ?s2) (mem s')"
    by (rule BlockThread_effect [of g ts a ?s2 TASK_BLOCKD n ns])
      (use rep_apart [OF rep apart o2] inv cur stack ready in \<open>auto simp: GetCurrentThreadPCB_def\<close>)
  have "set (ready a) \<subseteq> ts" using rep by (simp add: rep_def)
  from frame_apart [OF S(7) apart nodes_in_sched [OF this]] have e: "eq_on (mem s') ?m2 q 108" by simp
  have "eq_on (mem s') ?m2 (q + off_buf) 72" using eq_on_part [OF e, of off_buf 72] by simp
  note D = ioq_data_cong [OF this] ioq_data_only_in [OF b4.st_local waiter_field_sep(1) [OF w(1)]]
    ioq_data_only_in [OF m1(3), of q]
  show thesis
    by (rule that [OF _ S(2-6) _ _ e m1(3)]) (use m1(1) B S(1) D in \<open>simp_all add: ioqueue_wait_def\<close>)
qed

text \<open>The state in which a sleeping consumer waits for a byte.\<close>

lemma waiter_read:
  assumes "eq_on m' (st32 m2 (q + w) c) q 108" "only_in m m2 q 28" "waiter_field w" "waiter_field v"
  shows "ld32 m' (q + v) = (if v = w then c else ld32 m (q + v))"
proof -
  have "ld32 m' (q + v) = ld32 (st32 m2 (q + w) c) (q + v)"
    using assms(4) by (intro ld32_cong [OF eq_on_part [OF assms(1)]]) (auto simp: waiter_field_def)
  also have "\<dots> = (if v = w then c else ld32 m2 (q + v))"
    using assms(3,4) by (auto simp: waiter_field_def)
  also have "ld32 m2 (q + v) = ld32 m (q + v)"
    by (rule b4.ld_frame [OF assms(2) waiter_field_sep(2) [OF assms(4)]])
  finally show ?thesis .
qed

section \<open>Properties\<close>

lemma ioq_write:
  "only_in m m' q 108 \<Longrightarrow> unat off + 4 \<le> 108 \<Longrightarrow> only_in m (st32 m' (q + off) v) q 108"
  by (rule only_in_trans [OF _ only_in_part [OF only_in_st32]])

lemma ioqueueInit_effect:
  assumes "GetCurrentThreadPCB s \<noteq> NULL"
  obtains m' where "ioqueueInit s q = s\<lparr>mem := m'\<rparr>" "lock_free (s\<lparr>mem := m'\<rparr>) q" "only_in (mem s) m' q 108"
proof -
  obtain m1 where m1: "LockInit s q = s\<lparr>mem := m1\<rparr>" "lock_free (s\<lparr>mem := m1\<rparr>) q" "only_in (mem s) m1 q 28"
    using LockInit_free [OF assms] by blast
  let ?m = "st32 (st32 (st32 (st32 m1 (q + 32) 0) (q + 28) 0) (q + 104) 0) (q + 100) 0"
  have "only_in (mem s) m1 q 108" using only_in_part [of "mem s" m1 q 0 28 108] m1(3) by simp
  then have "only_in (mem s) (st32 m1 (q + 32) 0) q 108" by (rule ioq_write) simp
  then have "only_in (mem s) (st32 (st32 m1 (q + 32) 0) (q + 28) 0) q 108" by (rule ioq_write) simp
  then have "only_in (mem s) (st32 (st32 (st32 m1 (q + 32) 0) (q + 28) 0) (q + 104) 0) q 108"
    by (rule ioq_write) simp
  then have "only_in (mem s) ?m q 108" by (rule ioq_write) simp
  moreover have "lock_free (s\<lparr>mem := ?m\<rparr>) q"
    using m1(2) by (simp add: lock_view)
  ultimately show thesis
    by (intro that) (simp_all add: ioqueueInit_def m1(1) put32_def Let_def)
qed

text \<open>C21. The ring buffer is a bounded FIFO. While no thread sleeps on it and interrupts are off,
  the buffer that represents the bytes \<open>xs\<close> (at most 63) answers \<open>ioqueueFull\<close> and
  \<open>ioqueueEmpty\<close> correctly, \<open>ioqueue_putchar\<close> appends a byte while fewer than 63 are stored,
  \<open>ioqueue_getchar\<close> removes and returns the oldest one, and neither touches memory outside the
  queue object.\<close>

theorem ioqueue_bounded_fifo:
  assumes "ioq_rep q s xs"
  shows "length xs \<le> 63 \<and> ioqueueFull s q = Ok (length xs = 63) s \<and> ioqueueEmpty s q = Ok (xs = []) s
    \<and> (length xs < 63 \<longrightarrow> (\<exists>m'. ioqueue_putchar g s q b = Ok () (s\<lparr>mem := m'\<rparr>)
         \<and> ioq_rep q (s\<lparr>mem := m'\<rparr>) (xs @ [b]) \<and> only_in (mem s) m' q 108))
    \<and> (\<forall>y ys. xs = y # ys \<longrightarrow> (\<exists>m'. ioqueue_getchar g s q = Ok y (s\<lparr>mem := m'\<rparr>)
         \<and> ioq_rep q (s\<lparr>mem := m'\<rparr>) ys \<and> only_in (mem s) m' q 108))"
proof (intro conjI impI allI)
  show "ioqueueFull s q = Ok (length xs = 63) s" "ioqueueEmpty s q = Ok (xs = []) s"
    using assms ioqueue_full_iff [of "mem s" q] ioqueue_empty_iff [of "mem s" q]
    by (auto simp: ioqueueFull_def ioqueueEmpty_def ioq_rep_def)
next
  assume "length xs < 63"
  then show "\<exists>m'. ioqueue_putchar g s q b = Ok () (s\<lparr>mem := m'\<rparr>)
      \<and> ioq_rep q (s\<lparr>mem := m'\<rparr>) (xs @ [b]) \<and> only_in (mem s) m' q 108"
    by (rule putchar_effect [OF assms, of g b]) blast
next
  fix y ys assume "xs = y # ys"
  with assms show "\<exists>m'. ioqueue_getchar g s q = Ok y (s\<lparr>mem := m'\<rparr>)
      \<and> ioq_rep q (s\<lparr>mem := m'\<rparr>) ys \<and> only_in (mem s) m' q 108"
    by (auto intro: getchar_effect [of q s y ys g])
qed (rule ioq_rep_bound [OF assms])

text \<open>A fresh queue at \<open>0x1700\<close> of the machine with two threads.\<close>

definition demo_queue_state :: kstate where
  "demo_queue_state = ioqueueInit demo_state 0x1700"

lemma ioqueueInit_rep: "GetIntStatus s = INT_OFF \<Longrightarrow> ioq_rep q (ioqueueInit s q) []"
  by (simp add: ioqueueInit_def ioq_rep_def Let_def LockInit_def SemaphoreInit_def list_init_def
      ioq_ok_def ioq_items_def ioq_count_def ioq_fields bufsize_def GetIntStatus_def)

lemma demo_queue_rep: "ioq_rep 0x1700 demo_queue_state []"
  unfolding demo_queue_state_def
  by (rule ioqueueInit_rep) (simp add: demo_state_def GetIntStatus_def EFLAGS_IF_def)

theorem ioqueue_bounded_fifo_witness:
  "ioqueueEmpty demo_queue_state 0x1700 = Ok True demo_queue_state
   \<and> (\<exists>m'. ioqueue_putchar demo_symbols demo_queue_state 0x1700 65 = Ok () (demo_queue_state\<lparr>mem := m'\<rparr>)
         \<and> ioq_rep 0x1700 (demo_queue_state\<lparr>mem := m'\<rparr>) [65])"
  using ioqueue_bounded_fifo [OF demo_queue_rep, of demo_symbols 65] by auto

text \<open>Round trip through the queue. Any string of at most 63 bytes put one by one into a
  freshly initialised queue (interrupts off) comes out unchanged and in order, and none of the
  calls blocks or panics.\<close>

theorem ioqueue_roundtrip:
  assumes "GetIntStatus s = INT_OFF" "length ys \<le> 63"
  shows "\<exists>s1 s2. bounded_queue.put_all (\<lambda>s. ioqueue_putchar g s q) (ioqueueInit s q) ys = Ok () s1
    \<and> bounded_queue.get_n (\<lambda>s. ioqueue_getchar g s q) s1 (length ys) = Ok ys s2"
  using ioq.fifo [OF ioqueueInit_rep [OF assms(1), of q], of ys g] assms(2) by auto

theorem ioqueue_roundtrip_witness:
  "\<exists>s1 s2. bounded_queue.put_all (\<lambda>s. ioqueue_putchar demo_symbols s 0x1700)
       (ioqueueInit demo_state 0x1700) (ascii ''ls'') = Ok () s1
    \<and> bounded_queue.get_n (\<lambda>s. ioqueue_getchar demo_symbols s 0x1700) s1 2 = Ok (ascii ''ls'') s2"
proof -
  have "GetIntStatus demo_state = INT_OFF" by (simp add: demo_state_def GetIntStatus_def EFLAGS_IF_def)
  moreover have "length (ascii ''ls'') = 2" by (simp add: ascii_def)
  ultimately show ?thesis
    using ioqueue_roundtrip [of demo_state "ascii ''ls''" demo_symbols "0x1700"]
    by (simp only: nat_le_iff_add) (auto simp: numeral_eq_Suc)
qed

text \<open>C25. A sleeping consumer is never woken. On an empty queue \<open>ioqueue_getchar\<close> blocks its caller
  as the abstract scheduler's block step, records it as the sleeping consumer and dispatches the
  next thread. From then on, in every state with interrupts off that agrees with that one on the
  queue object (other threads may have run), the next \<open>ioqueue_putchar\<close> does not wake the consumer:
  it looks at the sleeping producer instead, finds none, and the kernel panics.\<close>

theorem ioqueue_consumer_panics:
  assumes "rep g ts (running a) (mem s) a" "sched_inv ts a" "GetCurrentThreadPCB s = running a"
    and "inr (esp s - 8) (running a) 4096" "ready a = n # ns" "apart g ts q 108" "lock_free s q"
    and "q + off_sleeping_consumer \<noteq> NULL" "ioq_rep q s []"
  shows "\<exists>s' b. ioqueue_getchar g s q = Switched s' \<and> a_block TASK_BLOCKD a = Some b
    \<and> rep g ts n (mem s') b \<and> GetCurrentThreadPCB s' = n \<and> GetIntStatus s' = INT_OFF
    \<and> sleeping_consumer (mem s') q = running a
    \<and> (\<forall>t byte. GetIntStatus t = INT_OFF \<longrightarrow> eq_on (mem t) (mem s') q 108 \<longrightarrow>
         ioqueue_putchar g t q byte = Panic ''ioqueueWakeup'' ''*waiter != NULL'')"
proof -
  have a: "GetIntStatus s = INT_OFF" "ioq_ok (mem s) q" "ioq_items (mem s) q = []"
    "ld32 (mem s) (q + 28) = NULL" "ld32 (mem s) (q + 32) = NULL"
    using assms(9) by (auto simp: ioq_rep_def ioq_fields)
  obtain s' b m2 where W: "ioqueue_wait g s q (q + 32) = Switched s'" "a_block TASK_BLOCKD a = Some b" "running b = n"
    "rep g ts n (mem s') b" "GetCurrentThreadPCB s' = n" "GetIntStatus s' = INT_OFF"
    "ioq_ok (mem s') q = ioq_ok (mem s) q" "ioq_items (mem s') q = ioq_items (mem s) q"
    "eq_on (mem s') (st32 m2 (q + 32) (running a)) q 108" "only_in (mem s) m2 q 28"
    using ioqueue_wait_effect [OF assms(1-7) _ assms(8) a(5)] by (auto simp: waiter_field_def)
  have E: "ioqueue_getchar g s q = Switched s'"
    using a W(1) ioqueue_empty_iff [OF a(2)]
    by (simp add: ioqueue_getchar_def ioqueue_wait_loop.simps ioqueueEmpty_def)
  have C: "sleeping_consumer (mem s') q = running a" "sleeping_producer (mem s') q = NULL"
    using waiter_read [OF W(9,10)] a by (auto simp: waiter_field_def ioq_fields)
  have nn: "running a \<noteq> NULL" using assms(3,7) by (simp add: lock_free_def)
  have P: "ioqueue_putchar g t q byte = Panic ''ioqueueWakeup'' ''*waiter != NULL''"
    if t: "GetIntStatus t = INT_OFF" "eq_on (mem t) (mem s') q 108" for t byte
  proof -
    have "eq_on (mem t) (mem s') (q + off_buf) 72" using eq_on_part [OF t(2), of off_buf 72] by simp
    then have d: "ioq_ok (mem t) q" "ioq_items (mem t) q = []"
      using ioq_data_cong [of "mem t" "mem s'" q] W(7,8) a by simp_all
    have "ld32 (mem t) (q + w) = ld32 (mem s') (q + w)" if "waiter_field w" for w
      using that by (intro ld32_cong [OF eq_on_part [OF t(2)]]) (auto simp: waiter_field_def)
    from this [of 28] this [of 32] C
    have f: "sleeping_consumer (mem t) q = running a" "sleeping_producer (mem t) q = NULL"
      by (auto simp: waiter_field_def ioq_fields)
    note G = give_store [OF d(1), of byte]
    show ?thesis
      using ioqueue_putchar_room [OF t(1) d(1), of g byte] G d(2) f nn
      by (simp add: ioqueue_give_def Let_def ioqueueWakeup_def sleeping_producer_def)
  qed
  from E W(2,4-6) C(1) P show ?thesis by auto
qed

lemma demo_queue:
  "rep demo_symbols {0x2000, 0x3000} (running demo_sched) (mem demo_queue_state) demo_sched"
  "lock_free demo_queue_state 0x1700" "apart demo_symbols {0x2000, 0x3000} 0x1700 108"
  "esp demo_queue_state = 0x2F00" "GetCurrentThreadPCB demo_queue_state = 0x2000"
proof -
  show a: "apart demo_symbols {0x2000, 0x3000} 0x1700 108"
    by (simp add: apart_def demo_symbols_def sep_def)
  have c: "GetCurrentThreadPCB demo_state = 0x2000"
    by (simp add: GetCurrentThreadPCB_def demo_state_def PAGE_MASK_def)
  obtain m' where m: "demo_queue_state = demo_state\<lparr>mem := m'\<rparr>" "lock_free (demo_state\<lparr>mem := m'\<rparr>) 0x1700"
    "only_in (mem demo_state) m' 0x1700 108"
    unfolding demo_queue_state_def by (rule ioqueueInit_effect [of demo_state "0x1700"]) (simp_all add: c)
  from rep_apart [OF demo_rep(1) a m(3)] m(2)
  show "rep demo_symbols {0x2000, 0x3000} (running demo_sched) (mem demo_queue_state) demo_sched"
    "lock_free demo_queue_state 0x1700" by (simp_all add: m(1))
  show "esp demo_queue_state = 0x2F00" "GetCurrentThreadPCB demo_queue_state = 0x2000"
    using c by (simp_all add: m(1) demo_state_def GetCurrentThreadPCB_def)
qed

theorem ioqueue_consumer_panics_witness:
  "\<exists>s'. ioqueue_getchar demo_symbols demo_queue_state 0x1700 = Switched s' \<and> GetCurrentThreadPCB s' = 0x3000
     \<and> ioqueue_putchar demo_symbols s' 0x1700 65 = Panic ''ioqueueWakeup'' ''*waiter != NULL''"
proof -
  have r: "running demo_sched = 0x2000" "ready demo_sched = 0x3000 # []" by (simp_all add: demo_sched_def)
  have "GetCurrentThreadPCB demo_queue_state = running demo_sched"
    "inr (esp demo_queue_state - 8) (running demo_sched) 4096" "0x1700 + off_sleeping_consumer \<noteq> NULL"
    by (simp_all add: demo_queue(4,5) r inr_def)
  note c = this
  have e: "eq_on m m q 108" for m q by (simp add: eq_on_def)
  from ioqueue_consumer_panics [OF demo_queue(1) demo_rep(2) c(1,2) r(2) demo_queue(3,2) c(3) demo_queue_rep]
  obtain s' where "ioqueue_getchar demo_symbols demo_queue_state 0x1700 = Switched s'" "GetCurrentThreadPCB s' = 0x3000"
    "GetIntStatus s' = INT_OFF"
    and P: "\<forall>t byte. GetIntStatus t = INT_OFF \<longrightarrow> eq_on (mem t) (mem s') 0x1700 108 \<longrightarrow>
      ioqueue_putchar demo_symbols t 0x1700 byte = Panic ''ioqueueWakeup'' ''*waiter != NULL''"
    by blast
  with P [rule_format, of s' 65] e show ?thesis by blast
qed

text \<open>A sleeping producer is woken. When a producer \<open>p\<close> blocked on the full queue and was
  recorded as sleeping, \<open>ioqueue_getchar\<close> returns the oldest byte, moves \<open>p\<close> to the front of the
  ready queue (the abstract scheduler's unblock step, with the invariant kept), clears the record
  and leaves the rest of the bytes in the queue.\<close>

theorem ioqueue_getchar_wakes:
  assumes "rep g ts c (mem s) a" "sched_inv ts a" "apart g ts q 108" "p \<in> ts" "blocking (status a p)"
    and "GetIntStatus s = INT_OFF" "ioq_ok (mem s) q" "ioq_items (mem s) q = x # xs"
    and "sleeping_producer (mem s) q = p"
  shows "\<exists>m'. ioqueue_getchar g s q = Ok x (s\<lparr>mem := m'\<rparr>) \<and> rep g ts c m' (a_unblock p a)
    \<and> sched_inv ts (a_unblock p a) \<and> hd (ready (a_unblock p a)) = p \<and> sleeping_producer m' q = NULL
    \<and> ioq_ok m' q \<and> ioq_items m' q = xs"
proof -
  let ?m1 = "st32 (mem s) (q + 104) (ptr_next_pos (ioq_tail (mem s) q))" and ?w = "q + 28"
  note T = take_store [OF assms(7,8)]
  have r1: "rep g ts c ?m1 a" by (rule rep_apart [OF assms(1,3) T(6)])
  obtain m2 where U: "UnblockThread g (s\<lparr>mem := ?m1\<rparr>) p = Ok () (s\<lparr>mem := m2\<rparr>)" "rep g ts c m2 (a_unblock p a)"
    "sched_frame g ts (insert (general_tag p) (set (nodes (ready_thread_list g) (map general_tag (ready a))))) ?m1 m2"
    using UnblockThread_effect [of g ts c "s\<lparr>mem := ?m1\<rparr>" a p] r1 assms(2,4,5) by auto
  have "set (ready a) \<subseteq> ts" using assms(1) by (simp add: rep_def)
  then have "insert (general_tag p) (set (nodes (ready_thread_list g) (map general_tag (ready a)))) \<subseteq> sched_nodes g ts"
    using nodes_in_sched [of "ready a" ts g] assms(4) by (auto simp: sched_nodes_def)
  from frame_apart [OF U(3) assms(3) this] have "eq_on m2 ?m1 q 108" .
  from eq_on_part [OF this, of off_buf 72] have D: "ioq_ok m2 q" "ioq_items m2 q = xs"
    using ioq_data_cong [of m2 ?m1 q] T(2,3) by simp_all
  have w: "waiter_field 28" by (simp add: waiter_field_def)
  let ?m3 = "st32 m2 ?w NULL"
  have r3: "rep g ts c ?m3 (a_unblock p a)"
    by (rule rep_apart [OF U(2) assms(3) waiter_field_sep(3) [OF w]])
  have p: "p \<noteq> NULL" using assms(1,4) by (auto simp: rep_def layout_def)
  have "ioqueue_getchar g s q = Ok x (s\<lparr>mem := ?m3\<rparr>)"
    using ioqueue_getchar_data [OF assms(6-8), of g] T(1,4) assms(9) p U(1)
    by (simp add: ioqueue_take_def ioqueueWakeup_def put32_def Let_def sleeping_producer_def)
  moreover have "ioq_ok ?m3 q" "ioq_items ?m3 q = xs" "sleeping_producer ?m3 q = NULL"
    using D ioq_data_only_in [OF b4.st_local waiter_field_sep(1) [OF w]] by (simp_all add: sleeping_producer_def)
  ultimately show ?thesis
    using r3 a_unblock_inv [OF assms(2,4,5)] by (auto simp: a_unblock_def)
qed

text \<open>The thread \<open>0x2000\<close> waits as the producer of a queue at \<open>0x1700\<close> that holds one byte.\<close>

definition demo_waiting_state :: kstate where
  "demo_waiting_state = demo_state_blocked\<lparr>mem := st32 (st32 (st32 (st8 (mem demo_state_blocked) 0x1724 65)
     0x171C 0x2000) 0x1764 1) 0x1768 0\<rparr>"

lemma demo_waiting_items:
  "ioq_ok (mem demo_waiting_state) 0x1700" "ioq_items (mem demo_waiting_state) 0x1700 = [65]"
  "sleeping_producer (mem demo_waiting_state) 0x1700 = 0x2000"
  by (simp_all add: demo_waiting_state_def ioq_ok_def ioq_items_def ioq_count_def ioq_fields bufsize_def sep_def)

theorem ioqueue_getchar_wakes_witness:
  "\<exists>m'. ioqueue_getchar demo_symbols demo_waiting_state 0x1700 = Ok 65 (demo_waiting_state\<lparr>mem := m'\<rparr>)
     \<and> rep demo_symbols {0x2000, 0x3000} 0x3000 m' (a_unblock 0x2000 demo_sched_blocked)"
proof -
  have a: "rep demo_symbols {0x2000, 0x3000} 0x3000 (mem demo_waiting_state) demo_sched_blocked"
    using demo_layout
    by (simp add: demo_simps demo_sched_blocked_def demo_waiting_state_def demo_state_blocked_def)
      (simp add: demo_symbols_def sep_def)
  have b: "sched_inv {0x2000, 0x3000} demo_sched_blocked" by code_simp
  have c: "GetIntStatus demo_waiting_state = INT_OFF"
    by (simp add: demo_waiting_state_def demo_state_blocked_def demo_state_def GetIntStatus_def EFLAGS_IF_def)
  have d: "0x2000 \<in> {0x2000, 0x3000 :: addr}" "blocking (status demo_sched_blocked 0x2000)"
    by (simp_all add: demo_sched_blocked_def)
  from ioqueue_getchar_wakes [OF a b demo_queue(3) d c demo_waiting_items] show ?thesis by blast
qed

end
