(* ===== verification/Keyboard.thy ===== *)
theory Keyboard
  imports IoQueue Interrupt
begin

text \<open>
  \<open>device/keyboard.c\<close>: the keyboard interrupt. One byte of a scan code arrives per interrupt; the
  handler keeps the state of the modifier keys and of the \<open>0xE0\<close> prefix in static variables (fields
  of \<open>kstate\<close>) and puts the characters typed into the queue \<open>keyboard_IO_buf\<close>. The theory relates it
  to an automaton over scan codes and to the text that a sequence of key presses stands for.
\<close>

section \<open>The code\<close>

definition KEYBOARD_BUF_PORT :: u16 where "KEYBOARD_BUF_PORT = 0x60"

definition shift_l_make :: u16 where "shift_l_make = 0x2a"
definition shift_r_make :: u16 where "shift_r_make = 0x36"
definition alt_l_make :: u16 where "alt_l_make = 0x38"
definition alt_r_make :: u16 where "alt_r_make = 0xe038"
definition ctrl_l_make :: u16 where "ctrl_l_make = 0x1d"
definition ctrl_r_make :: u16 where "ctrl_r_make = 0xe01d"
definition caps_lock_make :: u16 where "caps_lock_make = 0x3a"

text \<open>The character codes of a key without and with shift, indexed by its make code.\<close>

definition keymap :: "(u8 \<times> u8) list" where
  "keymap =
     [(0, 0), (27, 27), (49, 33), (50, 64), (51, 35), (52, 36), (53, 37), (54, 94), (55, 38),
      (56, 42), (57, 40), (48, 41), (45, 95), (61, 43), (8, 8), (9, 9), (113, 81), (119, 87),
      (101, 69), (114, 82), (116, 84), (121, 89), (117, 85), (105, 73), (111, 79), (112, 80),
      (91, 123), (93, 125), (13, 13), (0, 0), (97, 65), (115, 83), (100, 68), (102, 70),
      (103, 71), (104, 72), (106, 74), (107, 75), (108, 76), (59, 58), (39, 34), (96, 126),
      (0, 0), (92, 124), (122, 90), (120, 88), (99, 67), (118, 86), (98, 66), (110, 78),
      (109, 77), (44, 60), (46, 62), (47, 63), (0, 0), (42, 42), (0, 0), (32, 32), (0, 0)]"

text \<open>The release of a key.\<close>

definition key_break :: "kstate \<Rightarrow> u16 \<Rightarrow> kstate" where
  "key_break s make_code =
     (let s1 = (if make_code = ctrl_l_make \<or> make_code = ctrl_r_make then s\<lparr>ctrl_status := 0\<rparr> else s);
          s2 = (if make_code = shift_l_make \<or> make_code = shift_r_make then s1\<lparr>shift_status := 0\<rparr> else s1)
      in if make_code = alt_l_make \<or> make_code = alt_r_make then s2\<lparr>alt_status := 0\<rparr> else s2)"

text \<open>The keys with two symbols, which caps lock does not affect.\<close>

definition double_key :: "u16 \<Rightarrow> bool" where
  "double_key scan_code \<longleftrightarrow> scan_code < 0x0e \<or> scan_code = 0x29 \<or> scan_code = 0x1a \<or> scan_code = 0x1b
     \<or> scan_code = 0x2b \<or> scan_code = 0x27 \<or> scan_code = 0x28 \<or> scan_code = 0x33
     \<or> scan_code = 0x34 \<or> scan_code = 0x35"

definition shift_mode :: "u8 \<Rightarrow> u8 \<Rightarrow> u16 \<Rightarrow> bool" where
  "shift_mode shift_down_last caps_lock_down_last scan_code =
     (if double_key scan_code then shift_down_last \<noteq> 0 else shift_down_last XOR caps_lock_down_last \<noteq> 0)"

definition key_char :: "bool \<Rightarrow> u8 \<Rightarrow> u8" where
  "key_char shifted current_idx = (if shifted then snd else fst) (keymap ! unat current_idx)"

text \<open>The modifier keys, after the character is stored.\<close>

definition key_modifiers :: "kstate \<Rightarrow> u16 \<Rightarrow> kstate" where
  "key_modifiers s scan_code =
     (if scan_code = ctrl_l_make \<or> scan_code = ctrl_r_make then s\<lparr>ctrl_status := 1\<rparr>
      else if scan_code = shift_l_make \<or> scan_code = shift_r_make then s\<lparr>shift_status := 1\<rparr>
      else if scan_code = alt_l_make \<or> scan_code = alt_r_make then s\<lparr>alt_status := 1\<rparr>
      else if scan_code = caps_lock_make
        then s\<lparr>caps_lock_status := (if caps_lock_status s = 0 then 1 else 0)\<rparr>
      else s)"

text \<open>The press of a key.\<close>

definition key_make :: "symbols \<Rightarrow> kstate \<Rightarrow> u8 \<Rightarrow> u8 \<Rightarrow> u16 \<Rightarrow> (kstate, unit) outcome" where
  "key_make g s shift_down_last caps_lock_down_last scan_code =
     (let shifted = shift_mode shift_down_last caps_lock_down_last scan_code;
          scan_code' = scan_code AND 0x00FF;
          current_char = key_char shifted (ucast scan_code')
      in obind
           (if current_char \<noteq> 0
            then obind (ioqueueFull s (keyboard_IO_buf g)) (\<lambda>full s1.
                   if \<not> full then ioqueue_putchar g s1 (keyboard_IO_buf g) current_char else Ok () s1)
            else Ok () s)
           (\<lambda>_ s2. Ok () (key_modifiers s2 scan_code')))"

definition IntKeyboardHandler :: "symbols \<Rightarrow> kstate \<Rightarrow> (kstate, unit) outcome" where
  "IntKeyboardHandler g s =
     (let shift_down_last = shift_status s;
          caps_lock_down_last = caps_lock_status s;
          scan_code = ucast (inb s KEYBOARD_BUF_PORT) :: u16
      in if scan_code = 0xE0 then Ok () (s\<lparr>ext_scancode := 1\<rparr>)
         else
           let ext = ext_scancode s \<noteq> 0;
               code = (if ext then 0xE000 OR scan_code else scan_code);
               s1 = (if ext then s\<lparr>ext_scancode := 0\<rparr> else s)
           in if code AND 0x0080 \<noteq> 0 then Ok () (key_break s1 (code AND 0xFF7F))
              else if (code > 0x00 \<and> code < 0x3B) \<or> code = alt_r_make \<or> code = ctrl_r_make
                then key_make g s1 shift_down_last caps_lock_down_last code
              else Ok () (putlit s1 (''unknown key!'' @ [CHR ''\<newline>''])))"

definition KeyboardInit :: "symbols \<Rightarrow> kstate \<Rightarrow> kstate" where
  "KeyboardInit g s =
     (let s1 = ioqueueInit (putlit s ''keyboard_init..'') (keyboard_IO_buf g);
          s2 = RegisterHandler g s1 0x21 (fn_addr g Fn_IntKeyboardHandler)
      in putlit s2 ('' done'' @ [CHR ''\<newline>'']))"

section \<open>The keyboard as an automaton\<close>

text \<open>
  The specification: which modifier keys are down, whether caps lock is on and whether the last byte
  was the prefix. A letter key types its upper-case letter when exactly one of shift and caps lock is
  active; any other key types its second symbol when shift is down.
\<close>

record kbd =
  k_ctrl :: bool
  k_shift :: bool
  k_alt :: bool
  k_caps :: bool
  k_ext :: bool

definition letter_key :: "u8 \<Rightarrow> bool" where
  "letter_key code \<longleftrightarrow>
     of_char CHR ''a'' \<le> fst (keymap ! unat code) \<and> fst (keymap ! unat code) \<le> of_char CHR ''z''"

definition kbd_char :: "bool \<Rightarrow> bool \<Rightarrow> u8 \<Rightarrow> u8" where
  "kbd_char shift caps code =
     (let (plain, shifted) = keymap ! unat code
      in if letter_key code then (if shift \<noteq> caps then shifted else plain)
         else if shift then shifted else plain)"

fun kbd_press :: "kbd \<Rightarrow> u8 \<Rightarrow> kbd" where
  "kbd_press k code =
     (if code = 0x1D then k\<lparr>k_ctrl := True\<rparr>
      else if code = 0x2A \<or> code = 0x36 then k\<lparr>k_shift := True\<rparr>
      else if code = 0x38 then k\<lparr>k_alt := True\<rparr>
      else if code = 0x3A then k\<lparr>k_caps := \<not> k_caps k\<rparr>
      else k)"

fun kbd_release :: "kbd \<Rightarrow> bool \<Rightarrow> u8 \<Rightarrow> kbd" where
  "kbd_release k ext code =
     (if code = 0x1D then k\<lparr>k_ctrl := False\<rparr>
      else if \<not> ext \<and> (code = 0x2A \<or> code = 0x36) then k\<lparr>k_shift := False\<rparr>
      else if code = 0x38 then k\<lparr>k_alt := False\<rparr>
      else k)"

definition kbd_step :: "kbd \<Rightarrow> u8 \<Rightarrow> kbd \<times> u8 list" where
  "kbd_step k b =
     (let k' = k\<lparr>k_ext := False\<rparr>; code = b AND 0x7F
      in if b = 0xE0 then (k\<lparr>k_ext := True\<rparr>, [])
         else if bit b 7 then (kbd_release k' (k_ext k) code, [])
         else if k_ext k then (if code = 0x1D \<or> code = 0x38 then kbd_press k' code else k', [])
         else if 0 < code \<and> code < 0x3B
           then (kbd_press k' code,
                 let c = kbd_char (k_shift k) (k_caps k) code in if c \<noteq> 0 then [c] else [])
         else (k', []))"

fun kbd_run :: "kbd \<Rightarrow> u8 list \<Rightarrow> kbd \<times> u8 list" where
  "kbd_run k [] = (k, [])"
| "kbd_run k (b # bs) = (let (k1, out1) = kbd_step k b; (k2, out2) = kbd_run k1 bs in (k2, out1 @ out2))"

section \<open>The key table\<close>

lemma length_keymap: "length keymap = 59"
  by (simp add: keymap_def)

text \<open>No key with two symbols is a letter, and every other key that is not a letter has one symbol.\<close>

lemma keymap_columns:
  "list_all (\<lambda>(n, p, q). if double_key (of_nat n) then \<not> (97 \<le> p \<and> p \<le> (122 :: u8))
     else (97 \<le> p \<and> p \<le> 122) \<or> p = q) (enumerate 0 keymap)"
  by (simp add: keymap_def double_key_def)

lemma keymap_entry:
  assumes "n < 59"
  shows "if double_key (of_nat n) then \<not> (97 \<le> fst (keymap ! n) \<and> fst (keymap ! n) \<le> 122)
    else (97 \<le> fst (keymap ! n) \<and> fst (keymap ! n) \<le> 122) \<or> fst (keymap ! n) = snd (keymap ! n)"
proof -
  have "(0 + n, keymap ! n) = enumerate 0 keymap ! n"
    using assms by (simp add: nth_enumerate_eq length_keymap)
  then have "(n, keymap ! n) \<in> set (enumerate 0 keymap)"
    using assms nth_mem [of n "enumerate 0 keymap"] by (simp add: length_keymap)
  with keymap_columns show ?thesis by (auto simp: list_all_iff split_def)
qed

text \<open>The character the code picks is the one the specification names.\<close>

lemma key_char_spec:
  assumes "unat code < 59" "sh \<in> {0, 1}" "ca \<in> {0, 1}"
  shows "key_char (shift_mode sh ca (ucast code)) code = kbd_char (sh \<noteq> 0) (ca \<noteq> 0) code"
proof -
  have "(of_nat (unat code) :: u16) = ucast code" by simp
  moreover have "sh XOR ca \<noteq> 0 \<longleftrightarrow> (sh \<noteq> 0) \<noteq> (ca \<noteq> 0)" using assms(2,3) by auto
  ultimately show ?thesis
    using keymap_entry [OF assms(1)]
    by (cases "keymap ! unat code") (auto simp: key_char_def shift_mode_def kbd_char_def letter_key_def)
qed

section \<open>Scan codes\<close>

text \<open>The tests of the handler on the 16-bit code, in terms of the byte received.\<close>

definition wide :: "bool \<Rightarrow> u8 \<Rightarrow> u16" where
  "wide ext b = (if ext then 0xE000 OR ucast b else ucast b)"

lemma prefix_bit: "bit (0xE000 :: u16) n \<longleftrightarrow> 13 \<le> n \<and> n < 16"
proof -
  have "(0xE000 :: u16) = push_bit 13 (mask 3)" by (simp add: mask_eq_exp_minus_1)
  then have "bit (0xE000 :: u16) n \<longleftrightarrow> bit (push_bit 13 (mask 3) :: u16) n" by (rule arg_cong)
  then show ?thesis by (simp only: bit_push_bit_iff bit_mask_iff) auto
qed

lemma unat_wide: "unat (wide ext b) = (if ext then 0xE000 else 0) + unat b"
proof -
  have "\<not> bit (0xE000 :: u16) n" if "n < 13" for n
    using that by (simp only: prefix_bit) simp
  then have "(0xE000 :: u16) OR ucast b = 0xE000 + ucast b"
    by (intro disjunctive_add [symmetric]) (force simp: bit_simps dest: bit_imp_le_length)
  moreover have b: "unat b < 256" using unsigned_less [of b, where ?'a = nat] by simp
  moreover from b have "unat (ucast b :: u16) = unat b"
    by (simp add: unsigned_ucast_eq take_bit_nat_eq_self)
  ultimately show ?thesis by (simp add: wide_def unat_plus_lt)
qed

lemma wide_eq_iff: "wide e b = wide e' b' \<longleftrightarrow> e = e' \<and> b = b'"
  using unsigned_less [of b, where ?'a = nat] unsigned_less [of b', where ?'a = nat]
  by (auto simp: word_unat_eq_iff unat_wide)

lemma wide_codes:
  "wide e b = ctrl_l_make \<longleftrightarrow> \<not> e \<and> b = 0x1D" "wide e b = ctrl_r_make \<longleftrightarrow> e \<and> b = 0x1D"
  "wide e b = shift_l_make \<longleftrightarrow> \<not> e \<and> b = 0x2A" "wide e b = shift_r_make \<longleftrightarrow> \<not> e \<and> b = 0x36"
  "wide e b = alt_l_make \<longleftrightarrow> \<not> e \<and> b = 0x38" "wide e b = alt_r_make \<longleftrightarrow> e \<and> b = 0x38"
  "wide e b = caps_lock_make \<longleftrightarrow> \<not> e \<and> b = 0x3A" "wide False b = 0xE0 \<longleftrightarrow> b = 0xE0"
proof -
  have c: "ctrl_l_make = wide False 0x1D" "ctrl_r_make = wide True 0x1D" "shift_l_make = wide False 0x2A"
    "shift_r_make = wide False 0x36" "alt_l_make = wide False 0x38" "alt_r_make = wide True 0x38"
    "caps_lock_make = wide False 0x3A" "0xE0 = wide False 0xE0"
    by (simp_all add: wide_def ctrl_l_make_def ctrl_r_make_def shift_l_make_def shift_r_make_def
        alt_l_make_def alt_r_make_def caps_lock_make_def)
  show "wide e b = ctrl_l_make \<longleftrightarrow> \<not> e \<and> b = 0x1D" "wide e b = ctrl_r_make \<longleftrightarrow> e \<and> b = 0x1D"
    "wide e b = shift_l_make \<longleftrightarrow> \<not> e \<and> b = 0x2A" "wide e b = shift_r_make \<longleftrightarrow> \<not> e \<and> b = 0x36"
    "wide e b = alt_l_make \<longleftrightarrow> \<not> e \<and> b = 0x38" "wide e b = alt_r_make \<longleftrightarrow> e \<and> b = 0x38"
    "wide e b = caps_lock_make \<longleftrightarrow> \<not> e \<and> b = 0x3A" "wide False b = 0xE0 \<longleftrightarrow> b = 0xE0"
    unfolding c wide_eq_iff by auto
qed

lemma wide_bits:
  "wide e b AND 0x80 \<noteq> 0 \<longleftrightarrow> bit b 7" "wide e b AND 0xFF7F = wide e (b AND 0x7F)" "wide e b AND 0xFF = wide False b"
proof -
  have m: "(0xFF7F :: u16) = NOT 0x80" "(0xFF :: u16) = mask 8" "(0x7F :: u8) = mask 7"
    by (simp_all add: mask_eq_exp_minus_1 not_eq_complement)
  have h: "bit (0x80 :: u16) n \<longleftrightarrow> n = 7" for n
  proof -
    have "(0x80 :: u16) = push_bit 7 1" by simp
    then have "bit (0x80 :: u16) n \<longleftrightarrow> bit (push_bit 7 (1 :: u16)) n" by (rule arg_cong)
    then show ?thesis by (auto simp only: bit_simps) auto
  qed
  have w: "bit (wide e b) n \<longleftrightarrow> (e \<and> 13 \<le> n \<and> n < 16) \<or> bit b n" for n e b
  proof (cases e)
    case True
    then have "bit (wide e b) n \<longleftrightarrow> bit (0xE000 :: u16) n \<or> bit (ucast b :: u16) n"
      by (simp only: wide_def if_True bit_or_iff)
    then show ?thesis
      using True bit_imp_le_length [of b n] by (simp only: prefix_bit) (auto simp: bit_simps)
  qed (use bit_imp_le_length [of b n] in \<open>auto simp: wide_def bit_simps\<close>)
  show "wide e b AND 0x80 \<noteq> 0 \<longleftrightarrow> bit b 7"
  proof
    assume "bit b 7"
    then have "bit (wide e b AND 0x80) 7" by (simp only: bit_and_iff h w) simp
    then show "wide e b AND 0x80 \<noteq> 0" by (metis bit_0_eq bot_apply bot_bool_def)
  next
    assume "wide e b AND 0x80 \<noteq> 0"
    then obtain n where "bit (wide e b AND 0x80) n" by (metis bit_eqI bit_0_eq bot_apply bot_bool_def)
    then show "bit b 7" by (simp only: bit_and_iff h w) auto
  qed
  show "wide e b AND 0xFF7F = wide e (b AND 0x7F)"
    unfolding m by (rule bit_word_eqI) (auto simp only: w bit_simps h dest: bit_imp_le_length, auto dest: bit_imp_le_length)
  show "wide e b AND 0xFF = wide False b"
    unfolding m by (rule bit_word_eqI) (auto simp: w bit_simps dest: bit_imp_le_length)
qed

lemma wide_range: "0 < wide e b \<and> wide e b < 0x3B \<longleftrightarrow> \<not> e \<and> 0 < b \<and> b < 0x3B"
  by (simp add: word_less_nat_alt unat_wide)

section \<open>The handler implements the automaton\<close>

definition kbd_of :: "kstate \<Rightarrow> kbd" where
  "kbd_of s = \<lparr>k_ctrl = (ctrl_status s \<noteq> 0), k_shift = (shift_status s \<noteq> 0), k_alt = (alt_status s \<noteq> 0),
     k_caps = (caps_lock_status s \<noteq> 0), k_ext = (ext_scancode s \<noteq> 0)\<rparr>"

text \<open>The static variables are truth values, 0 or 1.\<close>

definition kbd_ok :: "kstate \<Rightarrow> bool" where
  "kbd_ok s \<longleftrightarrow> ctrl_status s \<in> {0, 1} \<and> shift_status s \<in> {0, 1} \<and> alt_status s \<in> {0, 1}
     \<and> caps_lock_status s \<in> {0, 1} \<and> ext_scancode s \<in> {0, 1}"

lemma ioq_rep_regs: "mem t = mem s \<Longrightarrow> eflags t = eflags s \<Longrightarrow> ioq_rep q t xs = ioq_rep q s xs"
  by (simp add: ioq_rep_def GetIntStatus_def)

lemma key_break_spec:
  "kbd_of (key_break s (wide e c)) = kbd_release (kbd_of s) e c" "kbd_ok s \<Longrightarrow> kbd_ok (key_break s (wide e c))"
  "mem (key_break s f) = mem s" "eflags (key_break s f) = eflags s"
  by (auto simp: key_break_def wide_codes kbd_of_def kbd_ok_def Let_def)

lemma key_modifiers_spec:
  "kbd_of (key_modifiers s (wide False c)) = kbd_press (kbd_of s) c"
  "kbd_ok s \<Longrightarrow> kbd_ok (key_modifiers s (wide False c))"
  "mem (key_modifiers s f) = mem s" "eflags (key_modifiers s f) = eflags s"
  by (auto simp: key_modifiers_def wide_codes kbd_of_def kbd_ok_def)

lemma kbd_mem [simp]: "kbd_of (s\<lparr>mem := m\<rparr>) = kbd_of s" "kbd_ok (s\<lparr>mem := m\<rparr>) = kbd_ok s"
  by (simp_all add: kbd_of_def kbd_ok_def)

lemma kbd_ext_clear:
  "kbd_of (if b then s\<lparr>ext_scancode := 0\<rparr> else s) = (if b then (kbd_of s)\<lparr>k_ext := False\<rparr> else kbd_of s)"
  "kbd_ok s \<Longrightarrow> kbd_ok (s\<lparr>ext_scancode := 0\<rparr>)" "kbd_ok s \<Longrightarrow> kbd_ok (s\<lparr>ext_scancode := 1\<rparr>)"
  "kbd_of (s\<lparr>ext_scancode := 1\<rparr>) = (kbd_of s)\<lparr>k_ext := True\<rparr>" "kbd_ok (putlit s x) = kbd_ok s"
  "kbd_of (putlit s x) = kbd_of s" "eflags (putlit s x) = eflags s"
  by (simp_all add: kbd_of_def kbd_ok_def putlit_def)

text \<open>Bytes go into the queue until it holds 63; later ones are dropped.\<close>

lemma key_make_effect:
  assumes "ioq_rep (keyboard_IO_buf g) s xs" "kbd_ok s" "e \<Longrightarrow> c = 0x1D \<or> c = 0x38" "unat c < 59"
    and "sh \<in> {0, 1}" "ca \<in> {0, 1}"
  defines "out \<equiv> (let ch = kbd_char (sh \<noteq> 0) (ca \<noteq> 0) c in if ch \<noteq> 0 then [ch] else [])"
  obtains s' where "key_make g s sh ca (wide e c) = Ok () s'" "kbd_of s' = kbd_press (kbd_of s) c" "kbd_ok s'"
    "ioq_rep (keyboard_IO_buf g) s' (take 63 (xs @ out))"
proof -
  let ?q = "keyboard_IO_buf g"
  let ?ch = "key_char (shift_mode sh ca (wide e c)) c"
  have u: "ucast (wide False c) = c"
    by (rule bit_word_eqI) (simp add: wide_def bit_simps)
  have ch: "?ch = kbd_char (sh \<noteq> 0) (ca \<noteq> 0) c"
  proof (cases e)
    case True
    then have "c = 0x1D \<or> c = 0x38" by (rule assms(3))
    then have "keymap ! unat c = (0, 0)" by (auto simp: keymap_def)
    then show ?thesis by (simp add: key_char_def kbd_char_def)
  next
    case False
    then show ?thesis using key_char_spec [OF assms(4-6)] by (simp add: wide_def)
  qed
  have len: "length xs \<le> 63" by (rule ioq_rep_bound [OF assms(1)])
  have F: "ioqueueFull s ?q = Ok (length xs = 63) s"
    using assms(1) ioqueue_full_iff [of "mem s" ?q] by (auto simp: ioqueueFull_def ioq_rep_def)
  obtain m' where m: "(if ?ch \<noteq> 0 then obind (ioqueueFull s ?q) (\<lambda>full s1.
      if \<not> full then ioqueue_putchar g s1 ?q ?ch else Ok () s1) else Ok () s) = Ok () (s\<lparr>mem := m'\<rparr>)"
    "ioq_rep ?q (s\<lparr>mem := m'\<rparr>) (take 63 (xs @ out))"
  proof (cases "?ch \<noteq> 0 \<and> length xs < 63")
    case True
    obtain m' where "ioqueue_putchar g s ?q ?ch = Ok () (s\<lparr>mem := m'\<rparr>)" "ioq_rep ?q (s\<lparr>mem := m'\<rparr>) (xs @ [?ch])"
      using putchar_effect [OF assms(1)] True by blast
    moreover have "take 63 (xs @ out) = xs @ [?ch]"
      using True ch by (simp add: out_def Let_def del: take_append)
    ultimately show thesis using True F that by simp
  next
    case False
    then have "take 63 (xs @ out) = xs" using len by (auto simp: out_def ch Let_def)
    with False F len assms(1) that [of "mem s"] show thesis by auto
  qed
  let ?s = "key_modifiers (s\<lparr>mem := m'\<rparr>) (wide False c)"
  have "key_make g s sh ca (wide e c) = Ok () ?s"
    using m(1) by (simp only: key_make_def Let_def wide_bits(3) u obind.simps)
  moreover have "ioq_rep ?q ?s (take 63 (xs @ out))"
    using m(2) ioq_rep_regs [of ?s "s\<lparr>mem := m'\<rparr>"] by (simp add: key_modifiers_spec)
  ultimately show thesis
    using key_modifiers_spec(1,2) [of "s\<lparr>mem := m'\<rparr>" c] assms(2) by (intro that) auto
qed

lemma low_byte: "\<not> bit b 7 \<Longrightarrow> b AND 0x7F = (b :: u8)"
proof -
  assume "\<not> bit b 7"
  moreover have "(0x7F :: u8) = mask 7" by (simp add: mask_eq_exp_minus_1)
  ultimately show ?thesis
    by (simp only:) (rule bit_word_eqI, auto simp: bit_simps less_Suc_eq numeral_eq_Suc)
qed

lemma handler_cases:
  assumes "inb s KEYBOARD_BUF_PORT = b"
  shows "IntKeyboardHandler g s =
     (let e = (ext_scancode s \<noteq> 0); s1 = (if e then s\<lparr>ext_scancode := 0\<rparr> else s)
      in if b = 0xE0 then Ok () (s\<lparr>ext_scancode := 1\<rparr>)
         else if bit b 7 then Ok () (key_break s1 (wide e (b AND 0x7F)))
         else if (\<not> e \<and> 0 < b \<and> b < 0x3B) \<or> (e \<and> (b = 0x38 \<or> b = 0x1D))
           then key_make g s1 (shift_status s) (caps_lock_status s) (wide e b)
         else Ok () (putlit s1 (''unknown key!'' @ [CHR ''\<newline>''])))"
proof -
  have c: "(if e then 0xE000 OR ucast b else ucast b) = wide e b" "ucast b = wide False b" for e
    by (simp_all add: wide_def)
  show ?thesis
    unfolding IntKeyboardHandler_def Let_def assms c(1)
    unfolding c(2) wide_codes wide_bits wide_range
    by (intro if_cong refl) auto
qed

lemma handler_step:
  assumes "ioq_rep (keyboard_IO_buf g) s xs" "kbd_ok s" "inb s KEYBOARD_BUF_PORT = b"
  obtains s' where "IntKeyboardHandler g s = Ok () s'" "kbd_of s' = fst (kbd_step (kbd_of s) b)" "kbd_ok s'"
    "ioq_rep (keyboard_IO_buf g) s' (take 63 (xs @ snd (kbd_step (kbd_of s) b)))"
proof -
  let ?q = "keyboard_IO_buf g" and ?e = "ext_scancode s \<noteq> 0" and ?k = "kbd_of s"
  let ?s1 = "if ?e then s\<lparr>ext_scancode := 0\<rparr> else s"
  have xs: "take 63 xs = xs" using ioq_rep_bound [OF assms(1)] by simp
  have s1: "mem ?s1 = mem s" "eflags ?s1 = eflags s" "kbd_ok ?s1" "kbd_of ?s1 = ?k\<lparr>k_ext := False\<rparr>"
    using assms(2) by (auto simp: kbd_ok_def kbd_of_def)
  have q1: "ioq_rep ?q ?s1 xs" using ioq_rep_regs [OF s1(1,2)] assms(1) by simp
  have ek: "k_ext ?k = ?e" "k_shift ?k = (shift_status s \<noteq> 0)" "k_caps ?k = (caps_lock_status s \<noteq> 0)"
    by (simp_all add: kbd_of_def)
  have sh: "shift_status s \<in> {0, 1}" "caps_lock_status s \<in> {0, 1}" using assms(2) by (auto simp: kbd_ok_def)
  note H = handler_cases [OF assms(3), of g, unfolded Let_def]
  consider "b = 0xE0" | "b \<noteq> 0xE0" "bit b 7"
    | "b \<noteq> 0xE0" "\<not> bit b 7" "(\<not> ?e \<and> 0 < b \<and> b < 0x3B) \<or> (?e \<and> (b = 0x38 \<or> b = 0x1D))"
    | "b \<noteq> 0xE0" "\<not> bit b 7" "\<not> ((\<not> ?e \<and> 0 < b \<and> b < 0x3B) \<or> (?e \<and> (b = 0x38 \<or> b = 0x1D)))"
    by blast
  then show thesis
  proof cases
    case 1
    then show thesis
      using H kbd_ext_clear(3,4) [of s] assms(1,2) xs ioq_rep_regs [of "s\<lparr>ext_scancode := 1\<rparr>" s ?q xs]
      by (intro that [of "s\<lparr>ext_scancode := 1\<rparr>"]) (simp_all add: kbd_step_def)
  next
    case 2
    let ?s = "key_break ?s1 (wide ?e (b AND 0x7F))"
    have "ioq_rep ?q ?s xs" using ioq_rep_regs [of ?s ?s1 ?q xs] q1 by (simp only: key_break_spec)
    with 2 H key_break_spec(1,2) [of ?s1 ?e "b AND 0x7F"] s1(3,4) xs show thesis
      by (intro that [of ?s]) (simp_all only: kbd_step_def ek Let_def if_False if_True fst_conv snd_conv append_Nil2)
  next
    case 3
    have u: "unat b < 59" using 3(3) by (auto simp: word_less_nat_alt)
    obtain s' where S: "key_make g ?s1 (shift_status s) (caps_lock_status s) (wide ?e b) = Ok () s'"
      "kbd_of s' = kbd_press (kbd_of ?s1) b" "kbd_ok s'"
      "ioq_rep ?q s' (take 63 (xs @ (let ch = kbd_char (shift_status s \<noteq> 0) (caps_lock_status s \<noteq> 0) b in if ch \<noteq> 0 then [ch] else [])))"
      by (rule key_make_effect [OF q1 s1(3) _ u sh, of ?e]) (use 3(3) in auto)
    have k: "kbd_char x y b = 0" if ?e for x y
    proof -
      have "b = 0x1D \<or> b = 0x38" using 3(3) that by auto
      then have "keymap ! unat b = (0, 0)" by (auto simp: keymap_def)
      then show ?thesis by (simp add: kbd_char_def)
    qed
    show thesis
      using 3 H S s1(4) low_byte [OF 3(2)] k by (intro that [of s']) (auto simp: kbd_step_def ek Let_def)
  next
    case 4
    let ?s = "putlit ?s1 (''unknown key!'' @ [CHR ''\<newline>''])"
    have "ioq_rep ?q ?s xs" using ioq_rep_regs [of ?s ?s1 ?q xs] q1 by (simp only: mem_put_screen kbd_ext_clear(7))
    with 4 H s1(3,4) xs low_byte [OF 4(2)] show thesis
      by (intro that [of ?s]) (auto simp: kbd_step_def ek Let_def kbd_ext_clear(5,6))
  qed
qed

text \<open>A sequence of keyboard interrupts: the controller presents one byte for each.\<close>

definition present :: "kstate \<Rightarrow> u8 \<Rightarrow> kstate" where
  "present s b = s\<lparr>in_ports := (in_ports s)(KEYBOARD_BUF_PORT := b)\<rparr>"

fun type_codes :: "symbols \<Rightarrow> kstate \<Rightarrow> u8 list \<Rightarrow> (kstate, unit) outcome" where
  "type_codes g s [] = Ok () s"
| "type_codes g s (b # bs) = obind (IntKeyboardHandler g (present s b)) (\<lambda>_ s'. type_codes g s' bs)"

lemma present_simps: "inb (present s b) KEYBOARD_BUF_PORT = b" "kbd_of (present s b) = kbd_of s"
  "kbd_ok (present s b) = kbd_ok s" "ioq_rep q (present s b) xs = ioq_rep q s xs"
  by (simp_all add: present_def inb_def kbd_of_def kbd_ok_def ioq_rep_def GetIntStatus_def)

lemma ioqueueInit_mem_only: "mem_only s (ioqueueInit s q)"
  by (simp add: ioqueueInit_def LockInit_def SemaphoreInit_def list_init_def Let_def put32_def put8_def)

lemma kbd_mem_only: "mem_only s t \<Longrightarrow> kbd_of t = kbd_of s" "mem_only s t \<Longrightarrow> kbd_ok t = kbd_ok s"
  unfolding mem_only_def by (metis kbd_mem)+

lemma KeyboardInit_effect:
  assumes "GetIntStatus s = INT_OFF" "sep (idt_table g + 0x84) 4 (keyboard_IO_buf g) 108"
  shows "ioq_rep (keyboard_IO_buf g) (KeyboardInit g s) []" "kbd_of (KeyboardInit g s) = kbd_of s"
    "kbd_ok (KeyboardInit g s) = kbd_ok s"
proof -
  let ?q = "keyboard_IO_buf g" and ?s = "putlit s ''keyboard_init..''"
  let ?t = "ioqueueInit ?s ?q"
  let ?u = "RegisterHandler g ?t 0x21 (fn_addr g Fn_IntKeyboardHandler)"
  have K: "KeyboardInit g s = putlit ?u ('' done'' @ [CHR ''\<newline>''])" by (simp add: KeyboardInit_def Let_def)
  have "GetIntStatus ?s = INT_OFF" using assms(1) by (simp add: GetIntStatus_def putlit_def)
  then have r: "ioq_rep ?q ?t []" by (rule ioqueueInit_rep)
  have o: "only_in (mem ?t) (mem ?u) (idt_table g + 0x84) 4" by (simp add: RegisterHandler_def only_in_st32)
  have e: "GetIntStatus ?u = GetIntStatus ?t" by (simp add: RegisterHandler_def)
  have sp: "sep (idt_table g + 0x84) 4 (?q + 28) 4" "sep (idt_table g + 0x84) 4 (?q + 32) 4"
    "sep (idt_table g + 0x84) 4 (?q + off_buf) 72"
    by (rule sep_offset_right [OF assms(2)]; simp)+
  have "ioq_rep ?q ?u []"
    using r e ioq_data_only_in [OF o sp(3)] b4.ld_frame [OF o sp(1)] b4.ld_frame [OF o sp(2)]
    unfolding ioq_rep_def sleeping_producer_def sleeping_consumer_def by simp
  then show "ioq_rep ?q (KeyboardInit g s) []"
    unfolding K using ioq_rep_regs [of "putlit ?u ('' done'' @ [CHR ''\<newline>''])" ?u]
    by (simp only: mem_put_screen kbd_ext_clear(7))
  have "mem_only ?s ?u"
    unfolding RegisterHandler_def by (rule mem_only_trans [OF ioqueueInit_mem_only mem_only_put(3)])
  from kbd_mem_only [OF this] show "kbd_of (KeyboardInit g s) = kbd_of s" "kbd_ok (KeyboardInit g s) = kbd_ok s"
    unfolding K by (simp_all add: kbd_ext_clear(5,6))
qed

section \<open>Properties\<close>

text \<open>One keyboard interrupt. When no thread sleeps on the keyboard queue, interrupts are off and
  the modifier variables hold 0 or 1, the handler returns for every byte the controller can
  present: its static variables follow the automaton's step, stay 0 or 1, and the queue gets the
  character the automaton types, if there is one and the queue has room.\<close>

theorem IntKeyboardHandler_step:
  assumes "ioq_rep (keyboard_IO_buf g) s xs" "kbd_ok s"
  shows "\<exists>s'. IntKeyboardHandler g s = Ok () s' \<and> kbd_ok s'
    \<and> kbd_of s' = fst (kbd_step (kbd_of s) (inb s KEYBOARD_BUF_PORT))
    \<and> ioq_rep (keyboard_IO_buf g) s' (take 63 (xs @ snd (kbd_step (kbd_of s) (inb s KEYBOARD_BUF_PORT))))"
  by (rule handler_step [OF assms refl]) blast

text \<open>A keyboard in its initial state on the machine with two threads.\<close>

definition demo_keyboard_state :: kstate where
  "demo_keyboard_state = KeyboardInit demo_symbols demo_state"

lemma demo_keyboard: "ioq_rep (keyboard_IO_buf demo_symbols) demo_keyboard_state []" "kbd_ok demo_keyboard_state"
  "kbd_of demo_keyboard_state = \<lparr>k_ctrl = False, k_shift = False, k_alt = False, k_caps = False, k_ext = False\<rparr>"
proof -
  have "sep (idt_table demo_symbols + 0x84) 4 (keyboard_IO_buf demo_symbols) 108"
    by (simp add: demo_symbols_def sep_def)
  from KeyboardInit_effect [OF demo_rep(4) this]
  show "ioq_rep (keyboard_IO_buf demo_symbols) demo_keyboard_state []" "kbd_ok demo_keyboard_state"
    "kbd_of demo_keyboard_state = \<lparr>k_ctrl = False, k_shift = False, k_alt = False, k_caps = False, k_ext = False\<rparr>"
    unfolding demo_keyboard_state_def by (simp_all add: kbd_ok_def kbd_of_def demo_state_def)
qed

theorem IntKeyboardHandler_step_witness:
  "\<exists>s'. IntKeyboardHandler demo_symbols demo_keyboard_state = Ok () s' \<and> kbd_ok s'"
  using IntKeyboardHandler_step [OF demo_keyboard(1,2)] by blast

text \<open>Typing. A sequence of keyboard interrupts, whatever the bytes, leaves in the queue what was
  there followed by the text the key presses stand for (letters by shift and caps lock, other keys
  by shift), cut off at 63 characters; the modifier state is the automaton's.\<close>

theorem keyboard_typing:
  assumes "ioq_rep (keyboard_IO_buf g) s xs" "kbd_ok s"
  shows "\<exists>s'. type_codes g s bs = Ok () s' \<and> kbd_ok s' \<and> kbd_of s' = fst (kbd_run (kbd_of s) bs)
    \<and> ioq_rep (keyboard_IO_buf g) s' (take 63 (xs @ snd (kbd_run (kbd_of s) bs)))"
  using assms
proof (induction bs arbitrary: s xs)
  case Nil
  then show ?case using ioq_rep_bound [OF Nil(1)] by simp
next
  case (Cons b bs)
  let ?q = "keyboard_IO_buf g" and ?o = "snd (kbd_step (kbd_of s) b)"
  obtain s1 where s1: "IntKeyboardHandler g (present s b) = Ok () s1" "kbd_of s1 = fst (kbd_step (kbd_of s) b)" "kbd_ok s1"
    "ioq_rep ?q s1 (take 63 (xs @ ?o))"
    using handler_step [of g "present s b" xs b] Cons.prems by (auto simp: present_simps)
  obtain s2 where s2: "type_codes g s1 bs = Ok () s2" "kbd_ok s2" "kbd_of s2 = fst (kbd_run (kbd_of s1) bs)"
    "ioq_rep ?q s2 (take 63 (take 63 (xs @ ?o) @ snd (kbd_run (kbd_of s1) bs)))"
    using Cons.IH [OF s1(4,3)] by blast
  have "take 63 (take 63 ys @ zs) = take 63 (ys @ zs)" for ys zs :: "u8 list"
    by (simp add: min_def)
  from s2(4) [unfolded this] have "ioq_rep ?q s2 (take 63 (xs @ snd (kbd_run (kbd_of s) (b # bs))))"
    by (simp add: s1(2) split_def Let_def del: take_append)
  with s1 s2(1-3) show ?case by (simp add: split_def Let_def del: take_append)
qed

text \<open>Shift down, H down and up, shift up, I down and up.\<close>

theorem keyboard_typing_witness:
  "\<exists>s'. type_codes demo_symbols demo_keyboard_state [0x2A, 0x23, 0xA3, 0xAA, 0x17, 0x97] = Ok () s'
     \<and> ioq_rep (keyboard_IO_buf demo_symbols) s' (ascii ''Hi'')"
proof -
  let ?k = "\<lparr>k_ctrl = False, k_shift = False, k_alt = False, k_caps = False, k_ext = False\<rparr>"
  have "snd (kbd_run ?k [0x2A, 0x23, 0xA3, 0xAA, 0x17, 0x97]) = ascii ''Hi''" by code_simp
  moreover have "take 63 (ascii ''Hi'') = ascii ''Hi''" by code_simp
  ultimately show ?thesis
    using keyboard_typing [OF demo_keyboard(1,2), of "[0x2A, 0x23, 0xA3, 0xAA, 0x17, 0x97]"]
    by (simp only: demo_keyboard(3) append_Nil) blast
qed

end
