(* ===== verification/Boot.thy ===== *)
theory Boot
  imports Process Syscall Timer Keyboard
begin

text \<open>
  The kernel's start (\<open>kernel/main.c\<close>, \<open>kernel/init.c\<close>), the threads and programs it runs, and the end of
  every failed assertion (\<open>kernel/debug.c\<close>).

  A function whose body ends in \<open>while (1)\<close> never returns: its definition here is the part before
  that loop, or one turn of the loop where the loop has a body, followed by the outcome \<open>Diverge\<close>
  where the source's function is defined as a whole.
\<close>

section \<open>debug.c\<close>

definition putline :: "kstate \<Rightarrow> string \<Rightarrow> addr \<Rightarrow> (kstate, unit) outcome" where
  "putline s label str =
     obind (sys_putstr (putlit s label) str) (\<lambda>_ s1. Ok () (sys_putchar s1 (of_char CHR ''\<newline>'')))"

text \<open>What \<open>PanicSpin\<close> prints, with interrupts disabled, before it loops forever.\<close>

definition panic_report :: "kstate \<Rightarrow> addr \<Rightarrow> u32 \<Rightarrow> addr \<Rightarrow> addr \<Rightarrow> (kstate, unit) outcome" where
  "panic_report s filename line func condition =
     (let s1 = snd (DisableInt s);
          s2 = putlit s1 ([CHR ''\<newline>'', CHR ''\<newline>'', CHR ''\<newline>''] @ ''***** error! *****'' @ [CHR ''\<newline>''])
      in obind (putline s2 ''filename: '' filename) (\<lambda>_ s3.
         obind (sys_putint (putlit s3 ''line: '') line) (\<lambda>_ s4.
         obind (putline (sys_putchar s4 (of_char CHR ''\<newline>'')) ''function: '' func) (\<lambda>_ s5.
         putline s5 ''condition: '' condition))))"

definition PanicSpin :: "kstate \<Rightarrow> addr \<Rightarrow> u32 \<Rightarrow> addr \<Rightarrow> addr \<Rightarrow> (kstate, unit) outcome" where
  "PanicSpin s filename line func condition = obind (panic_report s filename line func condition) (\<lambda>_ _. Diverge)"

section \<open>init.c\<close>

definition InitAll :: "symbols \<Rightarrow> kstate \<Rightarrow> (kstate, unit) outcome" where
  "InitAll g s =
     obind (IdtInit g (putlit s (''init_all..'' @ [CHR ''\<newline>'']))) (\<lambda>_ s1.
     obind (VmemInit g (TimerInit g s1)) (\<lambda>_ s2.
     obind (ThreadInit g s2) (\<lambda>_ s3.
     obind (TssInit g (KeyboardInit g (ConsoleInit g s3))) (\<lambda>_ s4.
       Ok () (putlit (SyscallInit g s4) (''all done!'' @ [CHR ''\<newline>'']))))))"

section \<open>main.c\<close>

text \<open>The part of \<open>_start\<close> before its endless loop: initialisation, then the processes and the keyboard thread.\<close>

definition start_threads :: "symbols \<Rightarrow> kstate \<Rightarrow> (kstate, unit) outcome" where
  "start_threads g s1 =
     obind (ExecProcess g s1 (fn_addr g Fn_u_prog_a) (literal g ''userthreada'')) (\<lambda>_ s2.
     obind (ExecProcess g s2 (fn_addr g Fn_u_prog_b) (literal g ''userthreadb'')) (\<lambda>_ s3.
     obind (ThreadStart g (snd (EnableInt s3)) (literal g ''keyboard_output'') 5 (fn_addr g Fn_KeyboardOutput) (literal g ''''))
       (\<lambda>_ s4. Ok () s4)))"

definition start_setup :: "symbols \<Rightarrow> kstate \<Rightarrow> (kstate, unit) outcome" where
  "start_setup g s =
     obind (InitAll g (putlit s (''this is kernel!'' @ [CHR ''\<newline>'']))) (\<lambda>_ s1. start_threads g s1)"

definition kernel_start :: "symbols \<Rightarrow> kstate \<Rightarrow> (kstate, unit) outcome" where
  "kernel_start g s = obind (start_setup g s) (\<lambda>_ _. Diverge)"

text \<open>Calling the system from user code: \<open>None\<close> where the entry is not described.\<close>

fun ubind :: "(kstate, u32 option) outcome option \<Rightarrow> (u32 option \<Rightarrow> kstate \<Rightarrow> (kstate, 'b) outcome option) \<Rightarrow> (kstate, 'b) outcome option" where
  "ubind None f = None"
| "ubind (Some (Ok r s)) f = f r s"
| "ubind (Some (Panic fn c)) f = Some (Panic fn c)"
| "ubind (Some (Switched s)) f = Some (Switched s)"
| "ubind (Some Diverge) f = Some Diverge"

definition user_malloc :: "symbols \<Rightarrow> kstate \<Rightarrow> u32 \<Rightarrow> (addr \<Rightarrow> kstate \<Rightarrow> (kstate, 'b) outcome option) \<Rightarrow> (kstate, 'b) outcome option" where
  "user_malloc g s n f = ubind (malloc g s n) (\<lambda>r s1. case r of None \<Rightarrow> None | Some p \<Rightarrow> f p s1)"

text \<open>One turn of the loops of \<open>user_thread_a\<close> and \<open>user_thread_b\<close>.\<close>

definition user_thread_a_turn :: "symbols \<Rightarrow> u32 \<Rightarrow> kstate \<Rightarrow> (kstate, unit) outcome option" where
  "user_thread_a_turn g ebx s =
     ubind (getpid g ebx s) (\<lambda>r s1. case r of None \<Rightarrow> None | Some pid \<Rightarrow> Some (Ok () (s1\<lparr>test_var_a := pid\<rparr>)))"

definition user_thread_b_turn :: "symbols \<Rightarrow> u32 \<Rightarrow> kstate \<Rightarrow> (kstate, unit) outcome option" where
  "user_thread_b_turn g ebx s =
     ubind (getpid g ebx s) (\<lambda>r s1. case r of None \<Rightarrow> None | Some pid \<Rightarrow> Some (Ok () (s1\<lparr>test_var_b := pid\<rparr>)))"

text \<open>The body of the loop of \<open>k_thread_a\<close>: \<open>size\<close> is 128, 256, 512, and after seven doublings 65536.\<close>

definition k_thread_a_turn :: "symbols \<Rightarrow> kstate \<Rightarrow> (kstate, unit) outcome" where
  "k_thread_a_turn g s =
     (let size1 = 128; size2 = size1 * 2; size3 = size2 * 2;
          size4 = size3 * 2 * 2 * 2 * 2 * 2 * 2 * 2; size5 = size4 * 2
      in obind (sys_malloc g s size1) (\<lambda>addr1 s.
         obind (sys_malloc g s size2) (\<lambda>addr2 s.
         obind (sys_malloc g s size3) (\<lambda>addr3 s.
         obind (sys_free g s addr1) (\<lambda>_ s.
         obind (sys_malloc g s size3) (\<lambda>addr4 s.
         obind (sys_malloc g s size4) (\<lambda>addr5 s.
         obind (sys_malloc g s size4) (\<lambda>addr6 s.
         obind (sys_free g s addr5) (\<lambda>_ s.
         obind (sys_malloc g s size5) (\<lambda>addr7 s.
         obind (sys_free g s addr6) (\<lambda>_ s.
         obind (sys_free g s addr7) (\<lambda>_ s.
         obind (sys_free g s addr2) (\<lambda>_ s.
         obind (sys_free g s addr3) (\<lambda>_ s.
         sys_free g s addr4))))))))))))))"

primrec repeat_turn :: "nat \<Rightarrow> (kstate \<Rightarrow> (kstate, unit) outcome) \<Rightarrow> kstate \<Rightarrow> (kstate, unit) outcome" where
  "repeat_turn 0 f s = Ok () s"
| "repeat_turn (Suc n) f s = obind (f s) (\<lambda>_ s1. repeat_turn n f s1)"

definition k_thread_a :: "symbols \<Rightarrow> kstate \<Rightarrow> (kstate, unit) outcome" where
  "k_thread_a g s =
     obind (console_putstr g s (literal g ('' thread_a start'' @ [CHR ''\<newline>'']))) (\<lambda>_ s1.
     obind (repeat_turn 100 (k_thread_a_turn g) s1) (\<lambda>_ s2.
     obind (console_putstr g s2 (literal g ('' thread_a end'' @ [CHR ''\<newline>'']))) (\<lambda>_ _. Diverge)))"

text \<open>The body of the loop of \<open>k_thread_b\<close>: small blocks first, then nine blocks of 576 bytes.\<close>

definition k_thread_b_small :: "symbols \<Rightarrow> kstate \<Rightarrow> (kstate, unit) outcome" where
  "k_thread_b_small g s =
     (let size1 = 9; size2 = size1 * 2; size3 = size2 * 2; size4 = size3 * 2
      in obind (sys_malloc g s size1) (\<lambda>addr1 s.
         obind (sys_malloc g s size2) (\<lambda>addr2 s.
         obind (sys_free g s addr2) (\<lambda>_ s.
         obind (sys_malloc g s size3) (\<lambda>addr3 s.
         obind (sys_free g s addr1) (\<lambda>_ s.
         obind (sys_malloc g s size3) (\<lambda>addr4 s.
         obind (sys_malloc g s size3) (\<lambda>addr5 s.
         obind (sys_malloc g s size3) (\<lambda>addr6 s.
         obind (sys_free g s addr5) (\<lambda>_ s.
         obind (sys_malloc g s size4) (\<lambda>addr7 s.
         obind (sys_free g s addr6) (\<lambda>_ s.
         obind (sys_free g s addr7) (\<lambda>_ s.
         obind (sys_free g s addr3) (\<lambda>_ s.
         sys_free g s addr4))))))))))))))"

fun malloc_each :: "symbols \<Rightarrow> u32 list \<Rightarrow> kstate \<Rightarrow> (kstate, addr list) outcome" where
  "malloc_each g [] s = Ok [] s"
| "malloc_each g (n # ns) s =
     obind (sys_malloc g s n) (\<lambda>p s1. obind (malloc_each g ns s1) (\<lambda>ps s2. Ok (p # ps) s2))"

fun free_each :: "symbols \<Rightarrow> addr list \<Rightarrow> kstate \<Rightarrow> (kstate, unit) outcome" where
  "free_each g [] s = Ok () s"
| "free_each g (p # ps) s = obind (sys_free g s p) (\<lambda>_ s1. free_each g ps s1)"

definition k_thread_b_turn :: "symbols \<Rightarrow> kstate \<Rightarrow> (kstate, unit) outcome" where
  "k_thread_b_turn g s =
     obind (k_thread_b_small g s) (\<lambda>_ s1.
     obind (malloc_each g (replicate 9 (9 * 2 * 2 * 2 * 2 * 2 * 2)) s1) (\<lambda>addrs s2. free_each g addrs s2))"

definition k_thread_b :: "symbols \<Rightarrow> kstate \<Rightarrow> (kstate, unit) outcome" where
  "k_thread_b g s =
     obind (console_putstr g s (literal g ('' thread_b start'' @ [CHR ''\<newline>'']))) (\<lambda>_ s1.
     obind (repeat_turn 100 (k_thread_b_turn g) s1) (\<lambda>_ s2.
     obind (console_putstr g s2 (literal g ('' thread_b end'' @ [CHR ''\<newline>'']))) (\<lambda>_ _. Diverge)))"

definition k_thread :: "symbols \<Rightarrow> kstate \<Rightarrow> u32 \<Rightarrow> (kstate, unit) outcome" where
  "k_thread g s nbytes =
     obind (console_putstr g s (literal g ''malloc 0x'')) (\<lambda>_ s1.
     obind (console_puthex g s1 nbytes) (\<lambda>_ s2.
     obind (console_putstr g s2 (literal g '' bytes, address: 0x'')) (\<lambda>_ s3.
     obind (sys_malloc g s3 nbytes) (\<lambda>p s4.
     obind (console_puthex g s4 p) (\<lambda>_ s5.
     obind (console_putchar g s5 (of_char CHR ''\<newline>'')) (\<lambda>_ _. Diverge))))))"

text \<open>\<open>while (cpu_delay-- > 0);\<close>: the value the variable has after the loop.\<close>

function cpu_delay_loop :: "int \<Rightarrow> int" where
  "cpu_delay_loop cpu_delay = (if cpu_delay > 0 then cpu_delay_loop (cpu_delay - 1) else cpu_delay - 1)"
  by auto
termination by (relation "measure nat") auto

declare cpu_delay_loop.simps [simp del]

text \<open>The two user programs, which are the same, up to their endless loops.\<close>

definition u_prog_body :: "symbols \<Rightarrow> kstate \<Rightarrow> (kstate, unit) outcome option" where
  "u_prog_body g s =
     user_malloc g s 256 (\<lambda>addr1 s. user_malloc g s 255 (\<lambda>addr2 s. user_malloc g s 254 (\<lambda>addr3 s.
       let cpu_delay = cpu_delay_loop 100000
       in ubind (u_free g s addr1) (\<lambda>_ s. ubind (u_free g s addr2) (\<lambda>_ s. ubind (u_free g s addr3) (\<lambda>_ s. Some (Ok () s)))))))"

definition u_prog_a :: "symbols \<Rightarrow> kstate \<Rightarrow> (kstate, unit) outcome option" where
  "u_prog_a g s = map_option (\<lambda>r. obind r (\<lambda>_ _. Diverge)) (u_prog_body g s)"

definition u_prog_b :: "symbols \<Rightarrow> kstate \<Rightarrow> (kstate, unit) outcome option" where
  "u_prog_b g s = map_option (\<lambda>r. obind r (\<lambda>_ _. Diverge)) (u_prog_body g s)"

text \<open>One turn of the loop of \<open>KeyboardOutput\<close>.\<close>

definition KeyboardOutput_turn :: "symbols \<Rightarrow> kstate \<Rightarrow> (kstate, unit) outcome" where
  "KeyboardOutput_turn g s =
     (let (old_statu, s1) = DisableInt s
      in obind (ioqueueEmpty s1 (keyboard_IO_buf g)) (\<lambda>empty s2.
         obind (if \<not> empty
                then obind (ioqueue_getchar g s2 (keyboard_IO_buf g)) (\<lambda>c s3. console_putchar g s3 c)
                else Ok () s2) (\<lambda>_ s4. Ok () (snd (SetIntStatus old_statu s4)))))"

section \<open>The end of a failed assertion\<close>

definition nl :: "u8 list" where
  "nl = ascii [CHR ''\<newline>'']"

lemma putline_cstr: "cstr (mem s) a xs \<Longrightarrow> putline s label a = Ok () (s\<lparr>screen := screen s @ ascii label @ xs @ nl\<rparr>)"
  using sys_putstr_cstr [of "putlit s label" a xs]
  by (simp add: putline_def putlit_def putbytes_def sys_putchar_def nl_def ascii_def)

text \<open>What a failed assertion does. \<open>PanicSpin\<close> never returns; before its endless loop it has disabled
  interrupts and printed the file name, the line in decimal, the function and the condition, each on
  a line of its own, and memory is unchanged.\<close>

theorem PanicSpin_reports:
  assumes "cstr (mem s) filename xs" "cstr (mem s) func ys" "cstr (mem s) condition zs"
  shows "PanicSpin s filename line func condition = Diverge
    \<and> (\<exists>t bs. panic_report s filename line func condition = Ok () t \<and> GetIntStatus t = INT_OFF \<and> mem t = mem s
      \<and> sys_putint s line = putbytes s bs
      \<and> screen t = screen s @ nl @ nl @ nl @ ascii ''***** error! *****'' @ nl @ ascii ''filename: '' @ xs @ nl
          @ ascii ''line: '' @ bs @ nl @ ascii ''function: '' @ ys @ nl @ ascii ''condition: '' @ zs @ nl)"
proof -
  obtain bs where bs: "\<And>s. sys_putint s line = putbytes s bs" using sys_putint_text by blast
  let ?s1 = "snd (DisableInt s)"
  have sc: "screen ?s1 = screen s" by (simp add: DisableInt_def cli_def)
  let ?out = "nl @ nl @ nl @ ascii ''***** error! *****'' @ nl @ ascii ''filename: '' @ xs @ nl
    @ ascii ''line: '' @ bs @ nl @ ascii ''function: '' @ ys @ nl @ ascii ''condition: '' @ zs @ nl"
  have R: "panic_report s filename line func condition = Ok () (?s1\<lparr>screen := screen s @ ?out\<rparr>)"
    using assms by (simp add: panic_report_def putline_cstr bs putbytes_def putlit_def sys_putchar_def nl_def ascii_def sc)
  have "GetIntStatus (?s1\<lparr>screen := screen s @ ?out\<rparr>) = INT_OFF"
    using DisableInt_off [of s] by (simp add: GetIntStatus_def)
  with R bs [of s] show ?thesis by (simp add: PanicSpin_def)
qed

theorem PanicSpin_reports_witness:
  "PanicSpin (demo_state\<lparr>mem := st8 (\<lambda>_. 0) 0x7000 65\<rparr>) 0x7000 12 0x7000 0x7001 = Diverge"
proof -
  let ?s = "demo_state\<lparr>mem := st8 (\<lambda>_. 0) 0x7000 65\<rparr>"
  have "cstr (mem ?s) 0x7000 [65]" "cstr (mem ?s) 0x7001 []" by (simp_all add: sep_def)
  then show ?thesis using PanicSpin_reports [of ?s "0x7000" "[65]" "0x7000" "[65]" "0x7001" "[]" 12] by simp
qed

section \<open>From the keyboard buffer to the screen\<close>

lemma critical_section_screen:
  "snd (SetIntStatus (fst (DisableInt s)) ((snd (DisableInt s))\<lparr>mem := m, screen := x\<rparr>)) = s\<lparr>mem := m, screen := x\<rparr>"
proof -
  have "DisableInt (s\<lparr>screen := x\<rparr>) = (fst (DisableInt s), (snd (DisableInt s))\<lparr>screen := x\<rparr>)"
    by (simp add: DisableInt_def GetIntStatus_def cli_def)
  then have "snd (SetIntStatus (fst (DisableInt s)) ((snd (DisableInt s))\<lparr>screen := x, mem := m\<rparr>)) = s\<lparr>screen := x, mem := m\<rparr>"
    using critical_section [of "s\<lparr>screen := x\<rparr>" m] by simp
  moreover have "t\<lparr>screen := x, mem := m\<rparr> = t\<lparr>mem := m, screen := x\<rparr>" for t :: kstate by (cases t) simp
  ultimately show ?thesis by simp
qed

text \<open>The keyboard buffer holds \<open>xs\<close>, nobody waits for it, and the console is free.\<close>

definition echo_rep :: "symbols \<Rightarrow> kstate \<Rightarrow> u8 list \<Rightarrow> bool" where
  "echo_rep g s xs \<longleftrightarrow> ioq_rep (keyboard_IO_buf g) (snd (DisableInt s)) xs \<and> lock_free s (console_lock g)
     \<and> sep (keyboard_IO_buf g) 108 (console_lock g) 28"

lemma ioq_rep_apart:
  assumes "ioq_rep q s xs" "only_in (mem s) m l 28" "sep q 108 l 28"
  shows "ioq_rep q (s\<lparr>mem := m\<rparr>) xs"
proof -
  have e: "eq_on m (mem s) q 108" by (rule only_in_sep [OF assms(2) sep_sym [OF assms(3)]])
  have "ld32 m (q + off) = ld32 (mem s) (q + off)" if "unat off + 4 \<le> 108" for off
    by (rule ld32_cong [OF eq_on_part [OF e that]])
  from this [of 28] this [of 32] ioq_data_cong [OF eq_on_part [OF e, of off_buf 72]] assms(1) show ?thesis
    by (simp add: ioq_rep_def ioq_fields)
qed

lemma KeyboardOutput_echoes:
  assumes "echo_rep g s (x # xs)"
  shows "\<exists>m'. KeyboardOutput_turn g s = Ok () (s\<lparr>mem := m', screen := screen s @ [x]\<rparr>)
    \<and> echo_rep g (s\<lparr>mem := m', screen := screen s @ [x]\<rparr>) xs"
proof -
  let ?q = "keyboard_IO_buf g" and ?l = "console_lock g" and ?s1 = "snd (DisableInt s)"
  have R: "ioq_rep ?q ?s1 (x # xs)" "lock_free s ?l" "sep ?q 108 ?l 28" using assms by (simp_all add: echo_rep_def)
  obtain m1 where G: "ioqueue_getchar g ?s1 ?q = Ok x (?s1\<lparr>mem := m1\<rparr>)" "ioq_rep ?q (?s1\<lparr>mem := m1\<rparr>) xs" "only_in (mem ?s1) m1 ?q 108"
    by (rule getchar_effect [OF R(1)])
  have e: "ioqueueEmpty ?s1 ?q = Ok False ?s1"
    using R(1) ioqueue_empty_iff [of "mem ?s1" ?q] by (simp add: ioqueueEmpty_def ioq_rep_def)
  have "lock_free (s\<lparr>mem := m1\<rparr>) ?l" using lock_free_local [OF R(2)] only_in_sep [OF G(3) R(3)] by simp
  then have "lock_free (?s1\<lparr>mem := m1\<rparr>) ?l" by (simp add: lock_free_def GetCurrentThreadPCB_def)
  from console_putchar_prints [OF this, of x] obtain m2 where P:
    "console_putchar g (?s1\<lparr>mem := m1\<rparr>) x = Ok () (?s1\<lparr>mem := m2, screen := screen ?s1 @ [x]\<rparr>)"
    "only_in m1 m2 ?l 28" "lock_free (?s1\<lparr>mem := m2, screen := screen ?s1 @ [x]\<rparr>) ?l"
    by (auto simp: printed_def)
  have sc: "screen ?s1 = screen s" by (simp add: DisableInt_def cli_def)
  let ?t = "s\<lparr>mem := m2, screen := screen s @ [x]\<rparr>"
  have "KeyboardOutput_turn g s = Ok () ?t"
    using G(1) e P(1) critical_section_screen [of s "screen s @ [x]" m2] by (simp add: KeyboardOutput_turn_def split_def sc)
  moreover have "ioq_rep ?q (?s1\<lparr>mem := m2\<rparr>) xs" using ioq_rep_apart [OF G(2) _ R(3), of m2] P(2) by simp
  then have "ioq_rep ?q (snd (DisableInt ?t)) xs"
    by (simp add: ioq_rep_def)
  moreover have "lock_free ?t ?l" using P(3) by (simp add: lock_free_def GetCurrentThreadPCB_def sc)
  ultimately show ?thesis using R(3) by (auto simp: echo_rep_def)
qed

lemma KeyboardOutput_idle: "echo_rep g s [] \<Longrightarrow> KeyboardOutput_turn g s = Ok () s"
proof -
  assume "echo_rep g s []"
  then have "ioqueueEmpty (snd (DisableInt s)) (keyboard_IO_buf g) = Ok True (snd (DisableInt s))"
    using ioqueue_empty_iff [of "mem (snd (DisableInt s))" "keyboard_IO_buf g"] by (simp add: echo_rep_def ioqueueEmpty_def ioq_rep_def)
  then show ?thesis by (simp add: KeyboardOutput_turn_def split_def critical_section_id)
qed

text \<open>The keyboard thread echoes. From a state whose keyboard buffer holds \<open>xs\<close>, as many turns of
  \<open>KeyboardOutput\<close> as there are characters, or more, print exactly \<open>xs\<close> in order, leave the buffer empty and
  the console free, and restore the interrupt flag.\<close>

theorem KeyboardOutput_drains:
  assumes "echo_rep g s xs" "length xs \<le> n"
  shows "\<exists>t. repeat_turn n (KeyboardOutput_turn g) s = Ok () t \<and> screen t = screen s @ xs \<and> echo_rep g t []
    \<and> eflags t = eflags s"
  using assms
proof (induction n arbitrary: s xs)
  case (Suc n)
  show ?case
  proof (cases xs)
    case Nil
    with Suc.prems have "KeyboardOutput_turn g s = Ok () s" by (simp add: KeyboardOutput_idle)
    with Suc.IH [of s xs] Suc.prems Nil show ?thesis by simp
  next
    case (Cons x ys)
    obtain m' where "KeyboardOutput_turn g s = Ok () (s\<lparr>mem := m', screen := screen s @ [x]\<rparr>)"
      "echo_rep g (s\<lparr>mem := m', screen := screen s @ [x]\<rparr>) ys"
      using KeyboardOutput_echoes Suc.prems(1) Cons by blast
    with Suc.IH [of "s\<lparr>mem := m', screen := screen s @ [x]\<rparr>" ys] Suc.prems(2) Cons show ?thesis by auto
  qed
qed simp

definition demo_echo_state :: kstate where
  "demo_echo_state = demo_state\<lparr>mem := st8 (st32 (st32 (st8 (\<lambda>_. 0) 0x1604 1) 0x160C 0x1610) 0x1764 1) 0x1724 65\<rparr>"

theorem KeyboardOutput_drains_witness:
  "\<exists>t. repeat_turn 3 (KeyboardOutput_turn demo_symbols) demo_echo_state = Ok () t \<and> screen t = [65]"
proof -
  have g: "keyboard_IO_buf demo_symbols = 0x1700" "console_lock demo_symbols = 0x1600" by (simp_all add: demo_symbols_def)
  have d: "snd (DisableInt demo_echo_state) = demo_echo_state" "GetIntStatus demo_echo_state = INT_OFF"
    by (simp_all add: DisableInt_def GetIntStatus_def demo_echo_state_def demo_state_def EFLAGS_IF_def)
  have h: "ioq_head (mem demo_echo_state) 0x1700 = 1" "ioq_tail (mem demo_echo_state) 0x1700 = 0"
    "sleeping_producer (mem demo_echo_state) 0x1700 = NULL" "sleeping_consumer (mem demo_echo_state) 0x1700 = NULL"
    by (simp_all add: ioq_fields demo_echo_state_def sep_def)
  have "ioq_items (mem demo_echo_state) 0x1700 = [65]"
    using h by (simp add: ioq_items_def ioq_count_def) (simp add: demo_echo_state_def sep_def)
  then have q: "ioq_rep 0x1700 demo_echo_state [65]" using h d(2) by (simp add: ioq_rep_def ioq_ok_def bufsize_def)
  have l: "lock_free demo_echo_state 0x1600"
    by (simp add: lock_view demo_echo_state_def demo_state_def GetCurrentThreadPCB_def PAGE_MASK_def sep_def)
  have "echo_rep demo_symbols demo_echo_state [65]" using q l by (simp add: echo_rep_def g d(1) sep_def)
  moreover have "screen demo_echo_state = []" by (simp add: demo_echo_state_def demo_state_def)
  ultimately show ?thesis using KeyboardOutput_drains [of demo_symbols demo_echo_state "[65]" 3] by auto
qed

end
