(* ===== verification/Echo.thy ===== *)
theory Echo
  imports Boot
begin

text \<open>
  From the key to the screen: the keyboard interrupt (\<open>device/keyboard.c\<close>), the ring buffer
  (\<open>device/ioqueue.c\<close>), the keyboard thread (\<open>KeyboardOutput\<close> of \<open>kernel/main.c\<close>) and the console
  (\<open>device/console.c\<close>) together, in every interleaving of interrupts and turns of the thread.
\<close>

section \<open>Runs of events\<close>

text \<open>
  Components that interact take turns: a run is a sequence of events, each carried out to its
  end. When every event of the code refines its specification, so does every run.
\<close>

fun run_events :: "('s \<Rightarrow> 'e \<Rightarrow> ('s, unit) outcome) \<Rightarrow> 's \<Rightarrow> 'e list \<Rightarrow> ('s, unit) outcome" where
  "run_events step s [] = Ok () s"
| "run_events step s (e # es) = obind (step s e) (\<lambda>_ t. run_events step t es)"

locale event_refinement =
  fixes step :: "'s \<Rightarrow> 'e \<Rightarrow> ('s, unit) outcome"
    and astep :: "'a \<Rightarrow> 'e \<Rightarrow> 'a"
    and refines :: "'s \<Rightarrow> 'a \<Rightarrow> bool"
  assumes step_refines: "refines s a \<Longrightarrow> \<exists>t. step s e = Ok () t \<and> refines t (astep a e)"
begin

lemma run_refines:
  assumes "refines s a"
  shows "\<exists>t. run_events step s es = Ok () t \<and> refines t (foldl astep a es)"
  using assms
proof (induction es arbitrary: s a)
  case (Cons e es)
  obtain t where t: "step s e = Ok () t" "refines t (astep a e)" using step_refines [OF Cons.prems] by blast
  with Cons.IH [OF t(2)] show ?case by simp
qed simp

text \<open>A property the specification keeps in every run holds of the state the code reaches.\<close>

lemma run_invariant:
  assumes "refines s a" "P a" "\<And>a e. P a \<Longrightarrow> P (astep a e)"
  shows "\<exists>t b. run_events step s es = Ok () t \<and> refines t b \<and> P b"
proof -
  have "P (foldl astep a es)" using assms(2) by (induction es arbitrary: a) (simp_all add: assms(3))
  with run_refines [OF assms(1), of es] show ?thesis by blast
qed

end

section \<open>Events\<close>

text \<open>
  The entry stub of a vector (\<open>VECTOR\<close> of \<open>kernel/kernel.S\<close>): the processor has cleared the interrupt flag at the
  gate, the stub acknowledges the interrupt at both controllers, calls the handler of the vector
  and leaves through \<open>IntExit\<close>, whose \<open>iretd\<close> restores the flags.
\<close>

definition int_entry :: "kstate \<Rightarrow> kstate" where
  "int_entry s = outb (outb (cli s) 0xA0 0x20) 0x20 0x20"

definition int_vector :: "(kstate \<Rightarrow> (kstate, unit) outcome) \<Rightarrow> kstate \<Rightarrow> (kstate, unit) outcome" where
  "int_vector handler s = obind (handler (int_entry s)) (\<lambda>_ t. Ok () (t\<lparr>eflags := eflags s\<rparr>))"

text \<open>Vector \<open>0x21\<close>, with the byte \<open>b\<close> in the output buffer of the keyboard controller.\<close>

definition keyboard_interrupt :: "symbols \<Rightarrow> u8 \<Rightarrow> kstate \<Rightarrow> (kstate, unit) outcome" where
  "keyboard_interrupt g b s = int_vector (IntKeyboardHandler g) (present s b)"

datatype echo_event = Key u8 | Turn

fun echo_event_step :: "symbols \<Rightarrow> kstate \<Rightarrow> echo_event \<Rightarrow> (kstate, unit) outcome" where
  "echo_event_step g s (Key b) = keyboard_interrupt g b s"
| "echo_event_step g s Turn = KeyboardOutput_turn g s"

definition echo_run :: "symbols \<Rightarrow> kstate \<Rightarrow> echo_event list \<Rightarrow> (kstate, unit) outcome" where
  "echo_run g = run_events (echo_event_step g)"

section \<open>Specification\<close>

text \<open>
  The state of the keyboard, the characters typed and not yet printed, and the text on the screen.
  A byte that is no key of the table makes the handler print a message at once.
\<close>

definition kbd_message :: "kbd \<Rightarrow> u8 \<Rightarrow> u8 list" where
  "kbd_message k b =
     (if b = 0xE0 \<or> bit b 7 \<or> (if k_ext k then b = 0x1D \<or> b = 0x38 else 0 < b \<and> b < 0x3B) then []
      else ascii (''unknown key!'' @ [CHR ''\<newline>'']))"

record echo =
  e_kbd :: kbd
  e_buf :: "u8 list"
  e_out :: "u8 list"

fun a_event :: "echo \<Rightarrow> echo_event \<Rightarrow> echo" where
  "a_event e (Key b) =
     e\<lparr>e_kbd := fst (kbd_step (e_kbd e) b), e_buf := take 63 (e_buf e @ snd (kbd_step (e_kbd e) b)),
       e_out := e_out e @ kbd_message (e_kbd e) b\<rparr>"
| "a_event e Turn = e\<lparr>e_buf := tl (e_buf e), e_out := e_out e @ take 1 (e_buf e)\<rparr>"

definition a_run :: "echo \<Rightarrow> echo_event list \<Rightarrow> echo" where
  "a_run e es = foldl a_event e es"

definition echo_refines :: "symbols \<Rightarrow> kstate \<Rightarrow> echo \<Rightarrow> bool" where
  "echo_refines g s e \<longleftrightarrow> echo_rep g s (e_buf e) \<and> kbd_ok s \<and> kbd_of s = e_kbd e \<and> screen s = e_out e"

section \<open>What one interrupt leaves alone\<close>


lemma key_make_frame:
  assumes "ioq_rep (keyboard_IO_buf g) s xs" "key_make g s sh ca code = Ok () t"
  shows "only_in (mem s) (mem t) (keyboard_IO_buf g) 108 \<and> eflags t = eflags s \<and> esp t = esp s \<and> screen t = screen s"
proof -
  let ?q = "keyboard_IO_buf g" and ?ch = "key_char (shift_mode sh ca code) (ucast (code AND 0x00FF))"
  have F: "ioqueueFull s ?q = Ok (length xs = 63) s"
    using assms(1) ioqueue_full_iff [of "mem s" ?q] by (auto simp: ioqueueFull_def ioq_rep_def)
  obtain m' where m: "(if ?ch \<noteq> 0 then obind (ioqueueFull s ?q) (\<lambda>full s1.
      if \<not> full then ioqueue_putchar g s1 ?q ?ch else Ok () s1) else Ok () s) = Ok () (s\<lparr>mem := m'\<rparr>)"
    "only_in (mem s) m' ?q 108"
  proof (cases "?ch \<noteq> 0 \<and> length xs < 63")
    case True
    obtain m' where "ioqueue_putchar g s ?q ?ch = Ok () (s\<lparr>mem := m'\<rparr>)" "only_in (mem s) m' ?q 108"
      using putchar_effect [OF assms(1)] True by blast
    with True F that show thesis by simp
  next
    case False
    then show thesis using F ioq_rep_bound [OF assms(1)] that [of "mem s"] by auto
  qed
  have "key_make g s sh ca code = Ok () (key_modifiers (s\<lparr>mem := m'\<rparr>) (code AND 0x00FF))"
    unfolding key_make_def Let_def m(1) obind.simps ..
  then have t: "t = key_modifiers (s\<lparr>mem := m'\<rparr>) (code AND 0x00FF)" using assms(2) by simp
  show ?thesis unfolding t using m(2) by (simp add: key_modifiers_def)
qed

lemma key_break_frame: "esp (key_break s f) = esp s" "screen (key_break s f) = screen s"
  by (simp_all add: key_break_def Let_def)

lemma handler_frame:
  assumes "ioq_rep (keyboard_IO_buf g) s xs" "IntKeyboardHandler g s = Ok () t" "inb s KEYBOARD_BUF_PORT = b"
  shows "only_in (mem s) (mem t) (keyboard_IO_buf g) 108 \<and> eflags t = eflags s \<and> esp t = esp s
    \<and> screen t = screen s @ kbd_message (kbd_of s) b"
proof -
  let ?e = "ext_scancode s \<noteq> 0"
  let ?s1 = "if ?e then s\<lparr>ext_scancode := 0\<rparr> else s"
  have s1: "mem ?s1 = mem s" "eflags ?s1 = eflags s" "esp ?s1 = esp s" "screen ?s1 = screen s" by simp_all
  have q1: "ioq_rep (keyboard_IO_buf g) ?s1 xs" using ioq_rep_regs [OF s1(1,2)] assms(1) by simp
  have ek: "k_ext (kbd_of s) = ?e" by (simp add: kbd_of_def)
  consider "b = 0xE0" | "b \<noteq> 0xE0" "bit b 7"
    | "b \<noteq> 0xE0" "\<not> bit b 7" "(\<not> ?e \<and> 0 < b \<and> b < 0x3B) \<or> (?e \<and> (b = 0x38 \<or> b = 0x1D))"
    | "b \<noteq> 0xE0" "\<not> bit b 7" "\<not> ((\<not> ?e \<and> 0 < b \<and> b < 0x3B) \<or> (?e \<and> (b = 0x38 \<or> b = 0x1D)))"
    by blast
  then show ?thesis
  proof cases
    case 3
    with assms(2) have "key_make g ?s1 (shift_status s) (caps_lock_status s) (wide ?e b) = Ok () t"
      unfolding handler_cases [OF assms(3), of g, unfolded Let_def] by simp
    from key_make_frame [OF q1 this] 3 show ?thesis unfolding s1 by (auto simp: kbd_message_def ek)
  qed (use assms(2) in \<open>auto simp: handler_cases [OF assms(3)] Let_def kbd_message_def ek key_break_spec key_break_frame putlit_def\<close>)
qed


section \<open>Each event refines its specification\<close>

lemma ioq_rep_cli: "ioq_rep q (snd (DisableInt s)) xs = ioq_rep q (cli s) xs"
  using DisableInt_off [of s] GetIntStatus_cli [of s] by (simp add: ioq_rep_def DisableInt_def cli_def)

lemma Key_refines:
  assumes "echo_refines g s e"
  shows "\<exists>t. keyboard_interrupt g b s = Ok () t \<and> echo_refines g t (a_event e (Key b)) \<and> eflags t = eflags s"
proof -
  let ?q = "keyboard_IO_buf g" and ?l = "console_lock g" and ?s = "int_entry (present s b)"
  have A: "echo_rep g s (e_buf e)" "kbd_ok s" "kbd_of s = e_kbd e" "screen s = e_out e"
    using assms by (simp_all add: echo_refines_def)
  have c: "kbd_ok ?s = kbd_ok s" "kbd_of ?s = kbd_of s" "inb ?s KEYBOARD_BUF_PORT = b"
    by (simp_all add: int_entry_def outb_def present_def cli_def kbd_ok_def kbd_of_def inb_def)
  have r: "ioq_rep ?q ?s xs = ioq_rep ?q (cli s) xs" for xs
    by (rule ioq_rep_regs) (simp_all add: int_entry_def outb_def present_def cli_def)
  have R: "ioq_rep ?q ?s (e_buf e)" "lock_free s ?l" "sep ?q 108 ?l 28" "kbd_ok ?s" "kbd_of ?s = e_kbd e"
    using A by (simp_all add: echo_rep_def ioq_rep_cli c r)
  note i = c(3)
  obtain t where T: "IntKeyboardHandler g ?s = Ok () t" "kbd_of t = fst (kbd_step (e_kbd e) b)" "kbd_ok t"
    "ioq_rep ?q t (take 63 (e_buf e @ snd (kbd_step (e_kbd e) b)))"
    using handler_step [OF R(1,4) i] unfolding R(5) by blast
  note F = handler_frame [OF R(1) T(1) i, unfolded R(5)]
  let ?t = "t\<lparr>eflags := eflags s\<rparr>"
  have m: "mem ?s = mem s" "esp ?s = esp s" "screen ?s = screen s" by (simp_all add: int_entry_def outb_def present_def cli_def)
  have "lock_free (s\<lparr>mem := mem t\<rparr>) ?l" using lock_free_local [OF R(2)] only_in_sep [OF _ R(3)] F m(1) by metis
  then have l: "lock_free ?t ?l" using F m(2) by (simp add: lock_free_def GetCurrentThreadPCB_def)
  have "ioq_rep ?q (cli ?t) (take 63 (e_buf e @ snd (kbd_step (e_kbd e) b)))"
    using T(4) GetIntStatus_cli [of ?t] by (simp add: ioq_rep_def cli_def)
  then have "echo_rep g ?t (take 63 (e_buf e @ snd (kbd_step (e_kbd e) b)))"
    using l R(3) unfolding echo_rep_def ioq_rep_cli by blast
  moreover have "kbd_ok ?t = kbd_ok t" "kbd_of ?t = kbd_of t" by (simp_all add: kbd_ok_def kbd_of_def)
  ultimately have "echo_refines g ?t (a_event e (Key b))"
    unfolding echo_refines_def using T(2,3) F m(3) A(4) by simp
  moreover have "eflags (present s b) = eflags s" by (simp add: present_def)
  then have "keyboard_interrupt g b s = Ok () ?t" by (simp add: keyboard_interrupt_def int_vector_def T(1))
  ultimately show ?thesis by auto
qed

lemma Turn_refines:
  assumes "echo_refines g s e"
  shows "\<exists>t. KeyboardOutput_turn g s = Ok () t \<and> echo_refines g t (a_event e Turn) \<and> eflags t = eflags s"
proof (cases "e_buf e")
  case Nil
  then show ?thesis using assms KeyboardOutput_idle [of g s] by (simp add: echo_refines_def)
next
  case (Cons x xs)
  then have "echo_rep g s (x # xs)" using assms by (simp add: echo_refines_def)
  from KeyboardOutput_echoes [OF this] obtain m' where
    "KeyboardOutput_turn g s = Ok () (s\<lparr>mem := m', screen := screen s @ [x]\<rparr>)"
    "echo_rep g (s\<lparr>mem := m', screen := screen s @ [x]\<rparr>) xs" by blast
  with Cons assms show ?thesis by (simp add: echo_refines_def kbd_ok_def kbd_of_def)
qed

interpretation echo: event_refinement "echo_event_step g" a_event "\<lambda>s e. echo_refines g s e \<and> eflags s = f"
  for g f
proof unfold_locales
  fix s e ev assume "echo_refines g s e \<and> eflags s = f"
  then show "\<exists>t. echo_event_step g s ev = Ok () t \<and> echo_refines g t (a_event e ev) \<and> eflags t = f"
    using Key_refines [of g s e] Turn_refines [of g s e] by (cases ev) (auto simp only: echo_event_step.simps)
qed

section \<open>Nothing is lost while the thread keeps up\<close>

fun no_message :: "kbd \<Rightarrow> u8 list \<Rightarrow> bool" where
  "no_message k [] \<longleftrightarrow> True"
| "no_message k (b # bs) \<longleftrightarrow> kbd_message k b = [] \<and> no_message (fst (kbd_step k b)) bs"

lemma kbd_step_short: "length (snd (kbd_step k b)) \<le> 1"
  by (simp add: kbd_step_def Let_def)

lemma a_run_keeps_up:
  assumes "e_buf e = []" "no_message (e_kbd e) bs"
  shows "a_run e (concat (map (\<lambda>b. [Key b, Turn]) bs))
    = e\<lparr>e_kbd := fst (kbd_run (e_kbd e) bs), e_out := e_out e @ snd (kbd_run (e_kbd e) bs)\<rparr>"
  using assms
proof (induction bs arbitrary: e)
  case (Cons b bs)
  let ?k = "fst (kbd_step (e_kbd e) b)" and ?o = "snd (kbd_step (e_kbd e) b)"
  have m: "kbd_message (e_kbd e) b = []" and n: "no_message ?k bs" using Cons.prems(2) by simp_all
  define f where "f = a_event (a_event e (Key b)) Turn"
  have f: "f = e\<lparr>e_kbd := ?k, e_out := e_out e @ ?o\<rparr>"
    using kbd_step_short [of "e_kbd e" b] Cons.prems(1) m by (cases ?o) (simp_all add: f_def)
  have "a_run e (concat (map (\<lambda>b. [Key b, Turn]) (b # bs))) = a_run f (concat (map (\<lambda>b. [Key b, Turn]) bs))"
    by (simp add: a_run_def f_def)
  also have "\<dots> = f\<lparr>e_kbd := fst (kbd_run ?k bs), e_out := e_out f @ snd (kbd_run ?k bs)\<rparr>"
    using Cons.IH [of f] Cons.prems(1) n by (simp add: f)
  finally show ?case by (simp add: f split_def Let_def)
qed (simp add: a_run_def)

section \<open>Properties\<close>

text \<open>C22. Keyboard echo. In every interleaving of keyboard interrupts and turns of the keyboard thread,
  from a state whose ring buffer, keyboard variables and screen are those of the specification,
  the run returns, restores the interrupt flag after each event, and ends in the state of the
  specification: an interrupt adds the character the key stands for while fewer than 63 wait, a
  turn prints the oldest one.\<close>

theorem keyboard_echo_refines:
  assumes "echo_refines g s e"
  shows "\<exists>t. echo_run g s es = Ok () t \<and> echo_refines g t (a_run e es) \<and> eflags t = eflags s"
  using echo.run_refines [of g s e "eflags s" es] assms by (simp add: echo_run_def a_run_def)

text \<open>A quiet machine: an empty buffer, all keys up and a free console.\<close>

definition demo_quiet_state :: kstate where
  "demo_quiet_state = demo_state\<lparr>mem := st32 (st8 (\<lambda>_. 0) 0x1604 1) 0x160C 0x1610\<rparr>"

definition demo_quiet :: echo where
  "demo_quiet = \<lparr>e_kbd = \<lparr>k_ctrl = False, k_shift = False, k_alt = False, k_caps = False, k_ext = False\<rparr>, e_buf = [], e_out = []\<rparr>"

lemma demo_quiet_refines: "echo_refines demo_symbols demo_quiet_state demo_quiet"
proof -
  have g: "keyboard_IO_buf demo_symbols = 0x1700" "console_lock demo_symbols = 0x1600" by (simp_all add: demo_symbols_def)
  have d: "snd (DisableInt demo_quiet_state) = demo_quiet_state" "GetIntStatus demo_quiet_state = INT_OFF"
    by (simp_all add: DisableInt_def GetIntStatus_def demo_quiet_state_def demo_state_def EFLAGS_IF_def)
  have h: "ioq_head (mem demo_quiet_state) 0x1700 = 0" "ioq_tail (mem demo_quiet_state) 0x1700 = 0"
    "sleeping_producer (mem demo_quiet_state) 0x1700 = NULL" "sleeping_consumer (mem demo_quiet_state) 0x1700 = NULL"
    by (simp_all add: ioq_fields demo_quiet_state_def sep_def)
  then have q: "ioq_rep 0x1700 demo_quiet_state []"
    using d(2) by (simp add: ioq_rep_def ioq_ok_def bufsize_def ioq_items_def ioq_count_def)
  have l: "lock_free demo_quiet_state 0x1600"
    by (simp add: lock_view demo_quiet_state_def demo_state_def GetCurrentThreadPCB_def PAGE_MASK_def sep_def)
  have "kbd_ok demo_quiet_state" "kbd_of demo_quiet_state = e_kbd demo_quiet" "screen demo_quiet_state = []"
    by (simp_all add: kbd_ok_def kbd_of_def demo_quiet_state_def demo_quiet_def demo_state_def)
  with q l show ?thesis by (simp add: echo_refines_def echo_rep_def g d(1) sep_def demo_quiet_def)
qed

text \<open>Two keys arrive before the thread gets a turn.\<close>

theorem keyboard_echo_refines_witness:
  "\<exists>t. echo_run demo_symbols demo_quiet_state [Key 0x23, Key 0x17, Turn] = Ok () t
    \<and> echo_refines demo_symbols t (demo_quiet\<lparr>e_buf := ascii ''i'', e_out := ascii ''h''\<rparr>)"
proof -
  have "a_run demo_quiet [Key 0x23, Key 0x17, Turn] = demo_quiet\<lparr>e_buf := ascii ''i'', e_out := ascii ''h''\<rparr>"
    by code_simp
  then show ?thesis using keyboard_echo_refines [OF demo_quiet_refines, of "[Key 0x23, Key 0x17, Turn]"] by auto
qed



end
