(* ===== verification/Context.thy ===== *)
theory Context
  imports Echo
begin

text \<open>
  The registers of a thread on its kernel stack: the entry stubs of \<open>kernel/kernel.S\<close> (\<open>VECTOR\<close>,
  \<open>syscall_handler\<close>), their common exit \<open>IntExit\<close>, and the frame \<open>struct INT_stack\<close> of \<open>thread/thread.h\<close> between
  them. \<open>StartProcess\<close> (\<open>userprog/process.c\<close>) writes such a frame and leaves through \<open>IntExit\<close> into user mode.

  The stack pointer and the flags are those of \<open>kstate\<close>; the record \<open>regs\<close> holds the other registers.
\<close>

section \<open>Registers, push and pop\<close>

record regs =
  r_eax :: u32
  r_ecx :: u32
  r_edx :: u32
  r_ebx :: u32
  r_ebp :: u32
  r_esi :: u32
  r_edi :: u32
  r_ds :: u16
  r_es :: u16
  r_fs :: u16
  r_gs :: u16
  r_eip :: addr
  r_cs :: u16
  r_ss :: u16

definition push32 :: "u32 \<Rightarrow> kstate \<Rightarrow> kstate" where
  "push32 v s = put32 (s\<lparr>esp := esp s - 4\<rparr>) (esp s - 4) v"

text \<open>A segment register takes a word of the stack, of which the lower half is written and read.\<close>

definition push16 :: "u16 \<Rightarrow> kstate \<Rightarrow> kstate" where
  "push16 v s = put16 (s\<lparr>esp := esp s - 4\<rparr>) (esp s - 4) v"

definition pop32 :: "kstate \<Rightarrow> u32 \<times> kstate" where
  "pop32 s = (ld32 (mem s) (esp s), s\<lparr>esp := esp s + 4\<rparr>)"

definition pop16 :: "kstate \<Rightarrow> u16 \<times> kstate" where
  "pop16 s = (ld16 (mem s) (esp s), s\<lparr>esp := esp s + 4\<rparr>)"

definition skip_words :: "u32 \<Rightarrow> kstate \<Rightarrow> kstate" where
  "skip_words n s = s\<lparr>esp := esp s + 4 * n\<rparr>"

definition pushad :: "regs \<Rightarrow> kstate \<Rightarrow> kstate" where
  "pushad r s = push32 (r_edi r) (push32 (r_esi r) (push32 (r_ebp r) (push32 (esp s)
     (push32 (r_ebx r) (push32 (r_edx r) (push32 (r_ecx r) (push32 (r_eax r) s)))))))"

text \<open>The privilege level of a code selector: user code has level 3.\<close>

definition user_mode :: "u16 \<Rightarrow> bool" where
  "user_mode sel \<longleftrightarrow> sel AND 3 = 3"

section \<open>Entry\<close>

text \<open>
  What the processor does at an interrupt gate: from user mode it takes the stack of the task state
  segment (\<open>esp0\<close>, \<open>ss0\<close>) and saves the old one there; it saves the flags and the return address, clears
  \<open>IF\<close>, \<open>TF\<close>, \<open>NT\<close>, \<open>RF\<close> and \<open>VM\<close>, and pushes the error code of those exceptions that have one.
\<close>

definition GATE_FLAGS :: u32 where
  "GATE_FLAGS = 0x34300"

definition gate_enter :: "symbols \<Rightarrow> addr \<Rightarrow> u32 option \<Rightarrow> regs \<times> kstate \<Rightarrow> regs \<times> kstate" where
  "gate_enter g entry err = (\<lambda>(r, s).
     let s1 = (if user_mode (r_cs r)
               then push32 (esp s) (push32 (ucast (r_ss r)) (s\<lparr>esp := ld32 (mem s) (sym_tss g + 4)\<rparr>))
               else s);
         ss' = (if user_mode (r_cs r) then ld16 (mem s) (sym_tss g + 8) else r_ss r);
         s2 = push32 (r_eip r) (push32 (ucast (r_cs r)) (push32 (eflags s) s1));
         s3 = s2\<lparr>eflags := eflags s AND NOT GATE_FLAGS\<rparr>
     in (r\<lparr>r_cs := SELECTOR_K_CODE, r_eip := entry, r_ss := ss'\<rparr>,
         case err of None \<Rightarrow> s3 | Some code \<Rightarrow> push32 code s3))"

text \<open>\<open>push ds\<close>, \<open>push es\<close>, \<open>push fs\<close>, \<open>push gs\<close>, \<open>pushad\<close>.\<close>

definition save_context :: "regs \<Rightarrow> kstate \<Rightarrow> kstate" where
  "save_context r s = pushad r (push16 (r_gs r) (push16 (r_fs r) (push16 (r_es r) (push16 (r_ds r) s))))"

text \<open>
  \<open>VECTOR number, HAS_ERROR_CODE\<close> or \<open>NONE_ERROR_CODE\<close>, up to the call of the handler: both controllers get the
  end of interrupt.
\<close>

definition VECTOR_entry :: "u32 \<Rightarrow> bool \<Rightarrow> regs \<times> kstate \<Rightarrow> regs \<times> kstate" where
  "VECTOR_entry number has_error_code = (\<lambda>(r, s).
     let s1 = (if has_error_code then s else push32 0 s);
         s2 = save_context r s1;
         r1 = r\<lparr>r_eax := (r_eax r AND 0xFFFFFF00) OR 0x20\<rparr>;
         s3 = outb (outb s2 0xA0 0x20) 0x20 0x20
     in (r1, push32 number s3))"

text \<open>
  \<open>syscall_handler\<close> up to the call of the service, which finds \<open>ebx\<close>, \<open>ecx\<close> and \<open>edx\<close> as its arguments, and from
  its return on, with the value it returns in \<open>eax\<close>, up to the jump to \<open>IntExit\<close>.
\<close>

definition syscall_entry :: "regs \<times> kstate \<Rightarrow> regs \<times> kstate" where
  "syscall_entry = (\<lambda>(r, s).
     (r, push32 (r_ebx r) (push32 (r_ecx r) (push32 (r_edx r) (push32 0x80 (save_context r (push32 0 s)))))))"

definition syscall_leave :: "regs \<times> kstate \<Rightarrow> regs \<times> kstate" where
  "syscall_leave = (\<lambda>(r, s). let s1 = skip_words 3 s in (r, put32 s1 (esp s1 + 8 * 4) (r_eax r)))"

section \<open>Exit\<close>

definition popad :: "regs \<times> kstate \<Rightarrow> regs \<times> kstate" where
  "popad = (\<lambda>(r, s).
     let (edi, s) = pop32 s; (esi, s) = pop32 s; (ebp, s) = pop32 s; s = skip_words 1 s;
         (ebx, s) = pop32 s; (edx, s) = pop32 s; (ecx, s) = pop32 s; (eax, s) = pop32 s
     in (r\<lparr>r_edi := edi, r_esi := esi, r_ebp := ebp, r_ebx := ebx, r_edx := edx, r_ecx := ecx, r_eax := eax\<rparr>, s))"

definition iretd :: "regs \<times> kstate \<Rightarrow> regs \<times> kstate" where
  "iretd = (\<lambda>(r, s).
     let (eip, s) = pop32 s; (cs, s) = pop32 s; (fl, s) = pop32 s;
         r = r\<lparr>r_eip := eip, r_cs := ucast cs\<rparr>;
         s = s\<lparr>eflags := fl\<rparr>
     in if user_mode (ucast cs)
        then let (sp, s) = pop32 s; (ss, s) = pop32 s in (r\<lparr>r_ss := ucast ss\<rparr>, s\<lparr>esp := sp\<rparr>)
        else (r, s))"

definition IntExit :: "regs \<times> kstate \<Rightarrow> regs \<times> kstate" where
  "IntExit = (\<lambda>(r, s).
     let (r, s) = popad (r, skip_words 1 s);
         (gs, s) = pop16 s; (fs, s) = pop16 s; (es, s) = pop16 s; (ds, s) = pop16 s
     in iretd (r\<lparr>r_gs := gs, r_fs := fs, r_es := es, r_ds := ds\<rparr>, skip_words 1 s))"

section \<open>The frame\<close>

text \<open>
  \<open>struct INT_stack\<close> at \<open>a\<close> holds the registers \<open>r\<close>, the flags \<open>fl\<close> and, for user mode, the stack pointer \<open>sp\<close>;
  the vector number, \<open>esp_dummy\<close> and the error code are not restored.
\<close>

definition int_stack :: "mem \<Rightarrow> addr \<Rightarrow> regs \<Rightarrow> u32 \<Rightarrow> addr \<Rightarrow> bool" where
  "int_stack m a r fl sp \<longleftrightarrow>
     ld32 m (a + 4) = r_edi r \<and> ld32 m (a + 8) = r_esi r \<and> ld32 m (a + 12) = r_ebp r
   \<and> ld32 m (a + 20) = r_ebx r \<and> ld32 m (a + 24) = r_edx r \<and> ld32 m (a + 28) = r_ecx r \<and> ld32 m (a + 32) = r_eax r
   \<and> ld16 m (a + 36) = r_gs r \<and> ld16 m (a + 40) = r_fs r \<and> ld16 m (a + 44) = r_es r \<and> ld16 m (a + 48) = r_ds r
   \<and> ld32 m (a + 56) = r_eip r \<and> ld32 m (a + 60) = ucast (r_cs r) \<and> ld32 m (a + 64) = fl
   \<and> (user_mode (r_cs r) \<longrightarrow> ld32 m (a + 68) = sp \<and> ld32 m (a + 72) = ucast (r_ss r))"

definition frame_size :: "regs \<Rightarrow> nat" where
  "frame_size r = (if user_mode (r_cs r) then 76 else 68)"

lemmas pop_simps = pop32_def pop16_def skip_words_def Let_def add.assoc

lemma ucast_u16: "(ucast (ucast (x :: u16) :: u32) :: u16) = x"
  by (rule bit_word_eqI) (simp add: bit_simps)

text \<open>\<open>IntExit\<close> restores what the frame holds, and leaves the stack above the frame in kernel mode.\<close>

lemma popad_loads:
  "popad (r, s) = (r\<lparr>r_edi := ld32 (mem s) (esp s), r_esi := ld32 (mem s) (esp s + 4), r_ebp := ld32 (mem s) (esp s + 8),
     r_ebx := ld32 (mem s) (esp s + 16), r_edx := ld32 (mem s) (esp s + 20), r_ecx := ld32 (mem s) (esp s + 24),
     r_eax := ld32 (mem s) (esp s + 28)\<rparr>, s\<lparr>esp := esp s + 32\<rparr>)"
  by (simp add: popad_def pop_simps)

lemma iretd_loads:
  "iretd (r, s) =
     (let c = ucast (ld32 (mem s) (esp s + 4)); r1 = r\<lparr>r_eip := ld32 (mem s) (esp s), r_cs := c\<rparr>;
          s1 = s\<lparr>eflags := ld32 (mem s) (esp s + 8)\<rparr>
      in if user_mode c
         then (r1\<lparr>r_ss := ucast (ld32 (mem s) (esp s + 16))\<rparr>, s1\<lparr>esp := ld32 (mem s) (esp s + 12)\<rparr>)
         else (r1, s1\<lparr>esp := esp s + 12\<rparr>))"
  by (simp add: iretd_def pop_simps)

lemma IntExit_restores:
  assumes "int_stack (mem s) (esp s) r fl sp" "user_mode (r_cs r) \<or> sp = esp s + 68 \<and> r_ss r' = r_ss r"
  shows "IntExit (r', s) = (r, s\<lparr>esp := sp, eflags := fl\<rparr>)"
  using assms
  by (cases "user_mode (r_cs r)")
    (simp_all add: IntExit_def popad_loads iretd_loads int_stack_def pop_simps ucast_u16)

text \<open>Pushing at an offset from the lower end of the frame.\<close>

lemma push_at:
  "esp s = a + k \<Longrightarrow> push32 v s = s\<lparr>esp := a + (k - 4), mem := st32 (mem s) (a + (k - 4)) v\<rparr>"
  "esp s = a + k \<Longrightarrow> push16 w s = s\<lparr>esp := a + (k - 4), mem := st16 (mem s) (a + (k - 4)) w\<rparr>"
  by (simp_all add: push32_def push16_def put32_def put16_def add_diff_eq)

definition context_stores :: "mem \<Rightarrow> addr \<Rightarrow> regs \<Rightarrow> mem" where
  "context_stores m a r = st32 (st32 (st32 (st32 (st32 (st32 (st32 (st32 (st16 (st16 (st16 (st16 m
     (a + 48) (r_ds r)) (a + 44) (r_es r)) (a + 40) (r_fs r)) (a + 36) (r_gs r)) (a + 32) (r_eax r))
     (a + 28) (r_ecx r)) (a + 24) (r_edx r)) (a + 20) (r_ebx r)) (a + 16) (a + 36)) (a + 12) (r_ebp r))
     (a + 8) (r_esi r)) (a + 4) (r_edi r)"

lemma save_context_at:
  assumes "esp s = a + 52"
  shows "save_context r s = s\<lparr>esp := a + 4, mem := context_stores (mem s) a r\<rparr>"
  using assms by (simp add: save_context_def pushad_def push_at [of _ a] context_stores_def)

text \<open>The words the processor pushes, and the error code or the zero in its place.\<close>

definition gate_stores :: "mem \<Rightarrow> addr \<Rightarrow> regs \<Rightarrow> kstate \<Rightarrow> u32 \<Rightarrow> mem" where
  "gate_stores m a r s err = st32 (st32 (st32 (st32
     (if user_mode (r_cs r) then st32 (st32 m (a + 72) (ucast (r_ss r))) (a + 68) (esp s) else m)
     (a + 64) (eflags s)) (a + 60) (ucast (r_cs r))) (a + 56) (r_eip r)) (a + 52) err"

definition frame_base :: "symbols \<Rightarrow> regs \<Rightarrow> kstate \<Rightarrow> addr" where
  "frame_base g r s = (if user_mode (r_cs r) then ld32 (mem s) (sym_tss g + 4) - 76 else esp s - 68)"

definition gate_regs :: "symbols \<Rightarrow> addr \<Rightarrow> regs \<Rightarrow> kstate \<Rightarrow> regs" where
  "gate_regs g entry r s = r\<lparr>r_cs := SELECTOR_K_CODE, r_eip := entry,
     r_ss := if user_mode (r_cs r) then ld16 (mem s) (sym_tss g + 8) else r_ss r\<rparr>"

lemma gate_enter_at:
  assumes "a = frame_base g r s"
  shows "\<exists>s1. gate_enter g entry None (r, s) = (gate_regs g entry r s, s1)
      \<and> push32 0 s1 = s\<lparr>esp := a + 52, eflags := eflags s AND NOT GATE_FLAGS, mem := gate_stores (mem s) a r s 0\<rparr>"
    "gate_enter g entry (Some e) (r, s) = (gate_regs g entry r s,
       s\<lparr>esp := a + 52, eflags := eflags s AND NOT GATE_FLAGS, mem := gate_stores (mem s) a r s e\<rparr>)"
proof -
  define s0 where "s0 = (if user_mode (r_cs r)
    then push32 (esp s) (push32 (ucast (r_ss r)) (s\<lparr>esp := ld32 (mem s) (sym_tss g + 4)\<rparr>)) else s)"
  have s0: "s0 = s\<lparr>esp := a + 68, mem := if user_mode (r_cs r)
      then st32 (st32 (mem s) (a + 72) (ucast (r_ss r))) (a + 68) (esp s) else mem s\<rparr>"
  proof (cases "user_mode (r_cs r)")
    case True
    then have "ld32 (mem s) (sym_tss g + 4) = a + 76" by (simp add: assms frame_base_def)
    with True show ?thesis by (simp add: s0_def push_at [of _ a])
  next
    case False
    then have "esp s = a + 68" by (simp add: assms frame_base_def)
    then have "s\<lparr>esp := a + 68\<rparr> = s" by (metis kstate.surjective kstate.update_convs(3))
    with False show ?thesis by (simp add: s0_def)
  qed
  define s1 where "s1 = (push32 (r_eip r) (push32 (ucast (r_cs r)) (push32 (eflags s) s0)))\<lparr>eflags := eflags s AND NOT GATE_FLAGS\<rparr>"
  have s1: "push32 e s1 = s\<lparr>esp := a + 52, eflags := eflags s AND NOT GATE_FLAGS, mem := gate_stores (mem s) a r s e\<rparr>" for e
    by (simp add: s1_def s0 push_at [of _ a] gate_stores_def)
  show "\<exists>s1. gate_enter g entry None (r, s) = (gate_regs g entry r s, s1)
      \<and> push32 0 s1 = s\<lparr>esp := a + 52, eflags := eflags s AND NOT GATE_FLAGS, mem := gate_stores (mem s) a r s 0\<rparr>"
    using s1 [of 0] by (intro exI [of _ s1]) (simp add: gate_enter_def gate_regs_def s0_def s1_def Let_def)
  show "gate_enter g entry (Some e) (r, s) = (gate_regs g entry r s,
       s\<lparr>esp := a + 52, eflags := eflags s AND NOT GATE_FLAGS, mem := gate_stores (mem s) a r s e\<rparr>)"
    unfolding s1 [symmetric] by (simp add: gate_enter_def gate_regs_def s0_def s1_def Let_def)
qed

lemma only_in_stores:
  "only_in m' m a n \<Longrightarrow> unat i + 4 \<le> n \<Longrightarrow> only_in m' (st32 m (a + i) v) a n"
  "only_in m' m a n \<Longrightarrow> unat i + 2 \<le> n \<Longrightarrow> only_in m' (st16 m (a + i) w) a n"
  by (rule only_in_trans [OF _ only_in_part [OF only_in_st32]], assumption+)
    (rule only_in_trans [OF _ only_in_part [OF only_in_st16]], assumption+)

lemma context_stored:
  fixes a :: addr and r :: regs and m :: mem
  defines "m' \<equiv> context_stores m a r"
  shows "ld32 m' (a + 4) = r_edi r" "ld32 m' (a + 8) = r_esi r" "ld32 m' (a + 12) = r_ebp r"
    "ld32 m' (a + 20) = r_ebx r" "ld32 m' (a + 24) = r_edx r" "ld32 m' (a + 28) = r_ecx r" "ld32 m' (a + 32) = r_eax r"
    "ld16 m' (a + 36) = r_gs r" "ld16 m' (a + 40) = r_fs r" "ld16 m' (a + 44) = r_es r" "ld16 m' (a + 48) = r_ds r"
  by (simp_all add: m'_def context_stores_def)

lemma context_stores_only: "only_in m (context_stores m a r) a 52"
  unfolding context_stores_def by (intro only_in_stores only_in_refl; simp)

lemma gate_stored:
  fixes a :: addr and r :: regs and m :: mem and s :: kstate and err :: u32
  defines "m' \<equiv> gate_stores m a r s err"
  shows "ld32 m' (a + 52) = err" "ld32 m' (a + 56) = r_eip r" "ld32 m' (a + 60) = ucast (r_cs r)" "ld32 m' (a + 64) = eflags s"
    "user_mode (r_cs r) \<Longrightarrow> ld32 m' (a + 68) = esp s \<and> ld32 m' (a + 72) = ucast (r_ss r)"
  by (simp_all add: m'_def gate_stores_def)

lemma gate_stores_only: "only_in m (gate_stores m a r s err) a (frame_size r)"
  unfolding gate_stores_def frame_size_def
  by (cases "user_mode (r_cs r)"; simp; intro only_in_stores only_in_refl; simp)

definition frame_stores :: "mem \<Rightarrow> addr \<Rightarrow> regs \<Rightarrow> kstate \<Rightarrow> u32 \<Rightarrow> u32 \<Rightarrow> mem" where
  "frame_stores m a r s err number = st32 (context_stores (gate_stores m a r s err) a r) a number"

lemma frame_stored:
  fixes a :: addr and r :: regs and m :: mem and s :: kstate and err number :: u32
  defines "m' \<equiv> frame_stores m a r s err number"
  shows "int_stack m' a r (eflags s) (esp s)" "only_in m m' a (frame_size r)" "ld32 m' a = number" "ld32 m' (a + 52) = err"
proof -
  let ?m = "gate_stores m a r s err"
  have up: "ld32 m' (a + i) = ld32 ?m (a + i)" if "52 \<le> unat i" "unat i \<le> 2 ^ 31" for i
  proof -
    have "sep a 52 (a + i) 4" using that by (auto simp: unat_minus_u32)
    moreover from this have "sep a 4 (a + i) 4" using that by (auto simp: sep_def)
    ultimately show ?thesis using b4.ld_frame [OF context_stores_only] by (simp add: m'_def frame_stores_def)
  qed
  show "int_stack m' a r (eflags s) (esp s)"
    unfolding int_stack_def using gate_stored [where m = m and a = a and r = r and s = s and err = err] by (simp add: up) (simp add: m'_def frame_stores_def context_stored)
  show "ld32 m' a = number" by (simp add: m'_def frame_stores_def)
  show "ld32 m' (a + 52) = err" using gate_stored(1) [where m = m and a = a and r = r and s = s and err = err] by (simp add: up)
  have f: "52 \<le> frame_size r" by (simp add: frame_size_def)
  have "only_in ?m (context_stores ?m a r) a (frame_size r)"
    using only_in_part [of ?m "context_stores ?m a r" a 0 52] context_stores_only [of ?m a r] f by simp
  moreover have "only_in (context_stores ?m a r) m' a (frame_size r)"
    using only_in_part [of "context_stores ?m a r" m' a 0 4] only_in_st32 f by (simp add: m'_def frame_stores_def)
  ultimately show "only_in m m' a (frame_size r)" using gate_stores_only only_in_trans by blast
qed

text \<open>The word below the saved registers is the argument of the handler, which may change it.\<close>

lemma int_stack_cong:
  assumes "eq_on m' m (a + 4) (frame_size r - 4)" "int_stack m a r fl sp"
  shows "int_stack m' a r fl sp"
proof -
  have u: "unat (i - 4) = unat i - 4" if "4 \<le> unat i" for i :: u32
    using that unat_minus_le [of 4 i] by (simp add: word_le_nat_alt)
  have w: "ld32 m' (a + i) = ld32 m (a + i)" if "4 \<le> unat i" "unat i + 4 \<le> frame_size r" for i
    using ld32_cong [OF eq_on_part [OF assms(1), of "i - 4" 4]] u [OF that(1)] that by (simp add: frame_size_def)
  have h: "ld16 m' (a + i) = ld16 m (a + i)" if "4 \<le> unat i" "unat i + 4 \<le> frame_size r" for i
    using ld16_cong [OF eq_on_part [OF assms(1), of "i - 4" 2]] u [OF that(1)] that by (simp add: frame_size_def)
  show ?thesis using assms(2) unfolding int_stack_def by (simp add: w h frame_size_def)
qed

text \<open>The state in which a handler is called, for a stub that matches the exception it serves.\<close>

definition entry_state :: "symbols \<Rightarrow> regs \<Rightarrow> kstate \<Rightarrow> u32 \<Rightarrow> u32 \<Rightarrow> kstate" where
  "entry_state g r s err number =
     s\<lparr>esp := frame_base g r s, eflags := eflags s AND NOT GATE_FLAGS,
       mem := frame_stores (mem s) (frame_base g r s) r s err number\<rparr>"

lemma push_number:
  "push32 n (s\<lparr>esp := a + 4, eflags := f, mem := m\<rparr>) = s\<lparr>esp := a, eflags := f, mem := st32 m a n\<rparr>"
  by (simp add: push32_def put32_def)

lemma VECTOR_entry_at:
  assumes "VECTOR_entry number (err \<noteq> None) (gate_enter g entry err (r, s)) = (r1, s1)"
  shows "s1 = (entry_state g r s (case err of None \<Rightarrow> 0 | Some e \<Rightarrow> e) number)
      \<lparr>ports := ports s @ [(0xA0, 0x20), (0x20, 0x20)]\<rparr>"
    "r1 = (gate_regs g entry r s)\<lparr>r_eax := (r_eax r AND 0xFFFFFF00) OR 0x20\<rparr>"
proof -
  let ?a = "frame_base g r s" let ?c = "gate_regs g entry r s"
  have c: "context_stores m ?a ?c = context_stores m ?a r" for m
    by (simp add: context_stores_def gate_regs_def)
  let ?s = "\<lambda>e. s\<lparr>esp := ?a + 52, eflags := eflags s AND NOT GATE_FLAGS, mem := gate_stores (mem s) ?a r s e\<rparr>"
  have "\<exists>s2. gate_enter g entry err (r, s) = (?c, s2)
      \<and> (if err \<noteq> None then s2 else push32 0 s2) = ?s (case err of None \<Rightarrow> 0 | Some e \<Rightarrow> e)"
    using gate_enter_at [OF refl, where g = g and r = r and s = s and entry = entry] by (cases err) auto
  then obtain s2 where s2: "gate_enter g entry err (r, s) = (?c, s2)"
    "(if err \<noteq> None then s2 else push32 0 s2) = ?s (case err of None \<Rightarrow> 0 | Some e \<Rightarrow> e)" by blast
  show "r1 = ?c\<lparr>r_eax := (r_eax r AND 0xFFFFFF00) OR 0x20\<rparr>"
    using assms s2(1) by (auto simp: VECTOR_entry_def Let_def gate_regs_def)
  define e where "e = (case err of None \<Rightarrow> 0 | Some e \<Rightarrow> e)"
  have "s1 = push32 number (outb (outb (save_context ?c (if err \<noteq> None then s2 else push32 0 s2)) 0xA0 0x20) 0x20 0x20)"
    using assms s2(1) by (simp add: VECTOR_entry_def Let_def)
  also have "\<dots> = push32 number (outb (outb (save_context ?c (?s e)) 0xA0 0x20) 0x20 0x20)"
    unfolding s2(2) e_def ..
  also have "save_context ?c (?s e) = (?s e)\<lparr>esp := ?a + 4, mem := context_stores (gate_stores (mem s) ?a r s e) ?a r\<rparr>"
    using save_context_at [of "?s e" ?a ?c] by (simp add: c)
  finally show "s1 = (entry_state g r s (case err of None \<Rightarrow> 0 | Some e \<Rightarrow> e) number)
      \<lparr>ports := ports s @ [(0xA0, 0x20), (0x20, 0x20)]\<rparr>"
    by (simp add: outb_def push32_def put32_def entry_state_def frame_stores_def flip: e_def)
qed

lemma gate_disables: "eflags t = f AND NOT GATE_FLAGS \<Longrightarrow> GetIntStatus t = INT_OFF"
  by (simp add: GetIntStatus_def EFLAGS_IF_def GATE_FLAGS_def) (simp add: and.assoc)

text \<open>
  The abstract entries of \<open>Echo\<close> and \<open>Syscall\<close> are these stubs without the stack: for code that runs with \<open>TF\<close>, \<open>NT\<close>, \<open>RF\<close>
  and \<open>VM\<close> clear, the state in which the handler is called is theirs, but for the frame below the stack pointer.
\<close>

lemma entry_is_int_entry:
  assumes "VECTOR_entry number False (gate_enter g entry None (r, s)) = (r1, s1)" "eflags s AND 0x34100 = 0"
  shows "s1 = (int_entry s)\<lparr>esp := frame_base g r s, mem := frame_stores (mem s) (frame_base g r s) r s 0 number\<rparr>"
proof -
  have G: "GATE_FLAGS = EFLAGS_IF OR 0x34100" by (simp add: GATE_FLAGS_def EFLAGS_IF_def)
  have "eflags s AND NOT GATE_FLAGS = eflags s AND NOT EFLAGS_IF"
  proof (rule bit_word_eqI)
    fix n assume "n < LENGTH(32)"
    have "\<not> (bit (eflags s) n \<and> bit (0x34100 :: u32) n)" using assms(2) by (metis bit_0_eq bit_and_iff bot_apply bot_bool_def)
    then show "bit (eflags s AND NOT GATE_FLAGS) n = bit (eflags s AND NOT EFLAGS_IF) n"
      unfolding G by (auto simp only: bit_and_iff bit_or_iff bit_not_iff)
  qed
  then have f: "eflags s AND NOT GATE_FLAGS = eflags (cli s)" by (simp add: cli_def)
  have "VECTOR_entry number (None \<noteq> (None :: u32 option)) (gate_enter g entry None (r, s)) = (r1, s1)" using assms(1) by simp
  from VECTOR_entry_at(1) [OF this] show ?thesis
    by (simp add: entry_state_def f int_entry_def outb_def cli_def)
qed

text \<open>
  The table of \<open>kernel.S\<close> has stubs for the vectors 0 to \<open>0x2F\<close>; only \<open>0x1E\<close> is declared to have an error
  code. The processor pushes one for the vectors 8, 10 to 14 and 17.
\<close>

definition declared_error_code :: "u32 \<Rightarrow> bool" where
  "declared_error_code number \<longleftrightarrow> number = 0x1E"

definition cpu_error_code :: "u32 \<Rightarrow> bool" where
  "cpu_error_code number \<longleftrightarrow> number \<in> {8, 10, 11, 12, 13, 14, 17}"

text \<open>User code on the stack \<open>0x7FFFDF00\<close>, whose thread has the kernel stack up to \<open>0x3000\<close>.\<close>

definition demo_user_regs :: regs where
  "demo_user_regs = \<lparr>r_eax = 1, r_ecx = 12, r_edx = 13, r_ebx = 11, r_ebp = 0x7FFFDF40, r_esi = 14, r_edi = 15,
     r_ds = SELECTOR_U_DATA, r_es = SELECTOR_U_DATA, r_fs = SELECTOR_U_DATA, r_gs = 0, r_eip = 0x8048123,
     r_cs = SELECTOR_U_CODE, r_ss = SELECTOR_U_DATA\<rparr>"

definition demo_user_state :: kstate where
  "demo_user_state = demo_state\<lparr>esp := 0x7FFFDF00, mem := st32 demo_mem 0x1504 0x3000\<rparr>"

lemma demo_user_mode: "user_mode (r_cs demo_user_regs)"
  by (simp add: user_mode_def demo_user_regs_def SELECTOR_U_CODE_def)

text \<open>C14. Interrupts are transparent. From the gate to the call of its handler a stub saves every register in
  a frame on the kernel stack of the thread, acknowledges the interrupt and touches nothing else. When the handler
  returns, whatever it left in the registers, \<open>IntExit\<close> gives the interrupted code, in user or in kernel mode,
  all of its registers, its flags and its stack pointer back.\<close>

theorem interrupt_transparent:
  assumes "\<not> cpu_error_code number" "\<not> declared_error_code number"
    and "VECTOR_entry number (declared_error_code number) (gate_enter g entry None (r, s)) = (r1, s1)"
    and "esp s' = esp s1" "eq_on (mem s') (mem s1) (esp s1 + 4) (frame_size r - 4)" "user_mode (r_cs r) \<or> r_ss r' = r_ss r1"
  shows "IntExit (r', s') = (r, s'\<lparr>esp := esp s, eflags := eflags s\<rparr>)
    \<and> only_in (mem s) (mem s1) (frame_base g r s) (frame_size r) \<and> esp s1 = frame_base g r s
    \<and> ld32 (mem s1) (esp s1) = number \<and> GetIntStatus s1 = INT_OFF
    \<and> r_cs r1 = SELECTOR_K_CODE \<and> ports s1 = ports s @ [(0xA0, 0x20), (0x20, 0x20)]"
proof -
  have v: "VECTOR_entry number (None \<noteq> (None :: u32 option)) (gate_enter g entry None (r, s)) = (r1, s1)"
    using assms(2,3) by simp
  note E = VECTOR_entry_at [OF v, simplified]
  let ?a = "frame_base g r s"
  have s1: "mem s1 = frame_stores (mem s) ?a r s 0 number" "esp s1 = ?a" "eflags s1 = eflags s AND NOT GATE_FLAGS"
    by (simp_all add: E(1) entry_state_def)
  note F = frame_stored [where m = "mem s" and a = ?a and r = r and s = s and err = 0 and number = number, folded s1(1)]
  have "int_stack (mem s') (esp s') r (eflags s) (esp s)"
    using int_stack_cong [OF assms(5)] F(1) assms(4) s1(2) by simp
  moreover have "user_mode (r_cs r) \<or> esp s = esp s' + 68 \<and> r_ss r' = r_ss r"
    using assms(4,6) s1(2) by (auto simp: frame_base_def E(2) gate_regs_def)
  ultimately have "IntExit (r', s') = (r, s'\<lparr>esp := esp s, eflags := eflags s\<rparr>)" by (rule IntExit_restores)
  moreover have "GetIntStatus s1 = INT_OFF" by (rule gate_disables [OF s1(3)])
  ultimately show ?thesis using F s1 by (simp add: E gate_regs_def entry_state_def)
qed

theorem interrupt_transparent_witness:
  "fst (IntExit (VECTOR_entry 0x20 False (gate_enter demo_symbols 0x5080 None (demo_user_regs, demo_user_state)))) = demo_user_regs
   \<and> esp (snd (IntExit (VECTOR_entry 0x20 False (gate_enter demo_symbols 0x5080 None (demo_user_regs, demo_user_state))))) = 0x7FFFDF00"
proof -
  obtain r1 s1 where e: "VECTOR_entry 0x20 False (gate_enter demo_symbols 0x5080 None (demo_user_regs, demo_user_state)) = (r1, s1)"
    by (rule prod.exhaust)
  have "\<not> declared_error_code 0x20" "\<not> cpu_error_code 0x20" by (simp_all add: declared_error_code_def cpu_error_code_def)
  with interrupt_transparent [of "0x20" demo_symbols "0x5080" demo_user_regs demo_user_state r1 s1 s1 r1] e demo_user_mode
  show ?thesis by (simp add: eq_on_def demo_user_state_def)
qed

text \<open>C27. Exceptions with an error code. Their stubs are declared to have none and push a zero on top of the one
  the processor pushed, so the frame is shifted by one word: a handler that returned would make \<open>IntExit\<close> take the
  error code for the address of the interrupted instruction.\<close>

theorem fault_frame_shifted:
  assumes "cpu_error_code number"
    and "VECTOR_entry number (declared_error_code number) (gate_enter g entry (Some e) (r, s)) = (r1, s1)"
    and "esp s' = esp s1" "eq_on (mem s') (mem s1) (esp s1) 60"
  shows "r_eip (fst (IntExit (r', s'))) = e"
proof -
  let ?a = "frame_base g r s - 4" let ?c = "gate_regs g entry r s"
  define t where "t = s\<lparr>esp := ?a + 56, eflags := eflags s AND NOT GATE_FLAGS, mem := gate_stores (mem s) (?a + 4) r s e\<rparr>"
  have gate: "gate_enter g entry (Some e) (r, s) = (?c, t)"
    using gate_enter_at(2) [OF refl, where g = g and r = r and s = s and entry = entry and e = e] by (simp add: t_def)
  let ?m = "context_stores (st32 (mem t) (?a + 52) 0) ?a ?c"
  have "push32 0 t = t\<lparr>esp := ?a + 52, mem := st32 (mem t) (?a + 52) 0\<rparr>"
    using push_at(1) [of t ?a 56 0] by (simp add: t_def)
  then have "save_context ?c (push32 0 t) = t\<lparr>esp := ?a + 4, mem := ?m\<rparr>"
    using save_context_at [of "push32 0 t" ?a ?c] by simp
  moreover have "s1 = push32 number (outb (outb (save_context ?c (push32 0 t)) 0xA0 0x20) 0x20 0x20)"
    using assms(1,2) by (auto simp: gate VECTOR_entry_def Let_def cpu_error_code_def declared_error_code_def)
  ultimately have s1: "esp s1 = ?a" "mem s1 = st32 ?m ?a number"
    by (simp_all add: outb_def push32_def put32_def)
  have "ld32 (mem s') (?a + 56) = ld32 (mem s1) (?a + 56)"
    using ld32_cong [OF eq_on_part [OF assms(4), of 56 4]] s1(1) by simp
  also have "\<dots> = ld32 ?m (?a + 56)" using load_store_sep(9) [of ?a "?a + 56"] unfolding s1(2) sep_fields by simp
  also have "\<dots> = ld32 (st32 (mem t) (?a + 52) 0) (?a + 56)"
    by (rule b4.ld_frame [OF context_stores_only]) (unfold sep_fields, simp)
  also have "\<dots> = ld32 (mem t) (?a + 56)" using load_store_sep(9) [of "?a + 52" "?a + 56"] unfolding sep_fields by simp
  also have "\<dots> = e" using gate_stored(1) [where m = "mem s" and a = "?a + 4" and r = r and s = s and err = e]
    by (simp add: t_def add.commute)
  finally have "ld32 (mem s') (esp s' + 56) = e" using assms(3) s1(1) by simp
  then show ?thesis by (simp add: IntExit_def popad_loads iretd_loads pop_simps)
qed

theorem fault_frame_shifted_witness:
  "r_eip (fst (IntExit (VECTOR_entry 14 False (gate_enter demo_symbols 0x5038 (Some 4) (demo_user_regs, demo_user_state))))) = 4"
proof -
  obtain r1 s1 where e: "VECTOR_entry 14 False (gate_enter demo_symbols 0x5038 (Some 4) (demo_user_regs, demo_user_state)) = (r1, s1)"
    by (rule prod.exhaust)
  have "\<not> declared_error_code 14" "cpu_error_code 14" by (simp_all add: declared_error_code_def cpu_error_code_def)
  with fault_frame_shifted [of 14 demo_symbols "0x5038" 4 demo_user_regs demo_user_state r1 s1 s1 r1] e
  show ?thesis by (simp add: eq_on_def)
qed

lemma syscall_context:
  assumes "user_mode (r_cs r)" "syscall_entry (gate_enter g entry None (r, s)) = (r1, s1)"
    and "esp s' = esp s1" "eq_on (mem s') (mem s1) (esp s1 + 12) 76"
  shows "esp s1 - 4 = esp (syscall_enter g s)
    \<and> r_eax r1 = r_eax r \<and> ld32 (mem s1) (esp s1) = r_ebx r \<and> ld32 (mem s1) (esp s1 + 4) = r_ecx r
    \<and> ld32 (mem s1) (esp s1 + 8) = r_edx r \<and> GetIntStatus s1 = INT_OFF
    \<and> IntExit (syscall_leave (r', s')) =
        (r\<lparr>r_eax := r_eax r'\<rparr>, (put32 s' (esp s1 + 44) (r_eax r'))\<lparr>esp := esp s, eflags := eflags s\<rparr>)"
proof -
  let ?a = "frame_base g r s" let ?c = "gate_regs g entry r s"
  obtain t where t: "gate_enter g entry None (r, s) = (?c, t)" "push32 0 t =
      s\<lparr>esp := ?a + 52, eflags := eflags s AND NOT GATE_FLAGS, mem := gate_stores (mem s) ?a r s 0\<rparr>"
    using gate_enter_at(1) [OF refl, where g = g and r = r and s = s and entry = entry] by blast
  have c: "context_stores m ?a ?c = context_stores m ?a r" for m
    by (simp add: context_stores_def gate_regs_def)
  let ?m = "frame_stores (mem s) ?a r s 0 0x80"
  have f: "push32 0x80 (save_context ?c (push32 0 t)) = s\<lparr>esp := ?a, eflags := eflags s AND NOT GATE_FLAGS, mem := ?m\<rparr>"
    using save_context_at [of "push32 0 t" ?a ?c] unfolding t(2)
    by (simp add: c push32_def put32_def frame_stores_def)
  define b where "b = ?a - 12"
  have a: "?a = b + 12" by (simp add: b_def)
  let ?s = "s\<lparr>esp := b + 12, eflags := eflags s AND NOT GATE_FLAGS, mem := ?m\<rparr>"
  let ?m1 = "st32 (st32 (st32 ?m (b + 8) (r_edx r)) (b + 4) (r_ecx r)) b (r_ebx r)"
  have "s1 = push32 (r_ebx ?c) (push32 (r_ecx ?c) (push32 (r_edx ?c) (push32 0x80 (save_context ?c (push32 0 t)))))" "r1 = ?c"
    using assms(2) by (auto simp: syscall_entry_def t(1))
  then have s1: "esp s1 = b" "mem s1 = ?m1" "eflags s1 = eflags s AND NOT GATE_FLAGS" "r_eax r1 = r_eax r"
    unfolding f a by (simp_all add: push_at [of _ b] gate_regs_def a)
  have "only_in ?m (st32 (st32 (st32 ?m (b + 8) (r_edx r)) (b + 4) (r_ecx r)) (b + 0) (r_ebx r)) b 12"
    by (intro only_in_stores only_in_refl; simp)
  then have "only_in ?m ?m1 b 12" by simp
  from only_in_sep [OF this, of ?a 76] have "eq_on ?m1 ?m ?a 76" unfolding a by simp
  with assms(4) have "eq_on (mem s') ?m ?a 76" unfolding s1 a by (simp add: eq_on_def)
  from eq_on_part [OF this, of 4 72] have "eq_on (mem s') ?m (?a + 4) 72" by simp
  with assms(1) have I: "int_stack (mem s') ?a r (eflags s) (esp s)"
    using int_stack_cong [of "mem s'" ?m ?a r] frame_stored(1) by (simp add: frame_size_def)
  define u where "u = put32 (s'\<lparr>esp := ?a\<rparr>) (?a + 32) (r_eax r')"
  have u: "syscall_leave (r', s') = (r', u)"
    using assms(3) s1(1) a by (simp add: syscall_leave_def skip_words_def u_def Let_def)
  have "int_stack (mem u) (esp u) (r\<lparr>r_eax := r_eax r'\<rparr>) (eflags s) (esp s)"
    using I by (simp add: u_def int_stack_def)
  with assms(1) have "IntExit (r', u) = (r\<lparr>r_eax := r_eax r'\<rparr>, u\<lparr>esp := esp s, eflags := eflags s\<rparr>)"
    by (intro IntExit_restores) simp_all
  then have exit: "IntExit (syscall_leave (r', s')) =
      (r\<lparr>r_eax := r_eax r'\<rparr>, (put32 s' (esp s1 + 44) (r_eax r'))\<lparr>esp := esp s, eflags := eflags s\<rparr>)"
    unfolding u by (simp add: u_def s1(1) a put32_def add.assoc)
  have "esp s1 - 4 = esp (syscall_enter g s)"
    using assms(1) by (simp add: s1(1) b_def frame_base_def syscall_enter_def)
  moreover have "GetIntStatus s1 = INT_OFF" by (rule gate_disables [OF s1(3)])
  ultimately show ?thesis using exit s1(4) unfolding s1(1,2) by simp
qed

text \<open>
  The macros \<open>_syscall2\<close> and \<open>_syscall3\<close> of \<open>lib/user/syscall.c\<close>, not used yet: the registers with which they execute
  \<open>int 0x80\<close>. The service they call gets their arguments in order.
\<close>

definition syscall2_regs :: "regs \<Rightarrow> u32 \<Rightarrow> u32 \<Rightarrow> u32 \<Rightarrow> regs" where
  "syscall2_regs r number arg1 arg2 = r\<lparr>r_eax := number, r_ebx := arg1, r_ecx := arg2\<rparr>"

definition syscall3_regs :: "regs \<Rightarrow> u32 \<Rightarrow> u32 \<Rightarrow> u32 \<Rightarrow> u32 \<Rightarrow> regs" where
  "syscall3_regs r number arg1 arg2 arg3 = r\<lparr>r_eax := number, r_ebx := arg1, r_ecx := arg2, r_edx := arg3\<rparr>"

lemma syscall_arguments:
  assumes "user_mode (r_cs r)" "syscall_entry (gate_enter g entry None (syscall3_regs r n x y z, s)) = (r1, s1)"
    and "syscall_entry (gate_enter g entry None (syscall2_regs r n x y, s)) = (r2, s2)"
  shows "r_eax r1 = n" "ld32 (mem s1) (esp s1) = x" "ld32 (mem s1) (esp s1 + 4) = y" "ld32 (mem s1) (esp s1 + 8) = z"
    "r_eax r2 = n" "ld32 (mem s2) (esp s2) = x" "ld32 (mem s2) (esp s2 + 4) = y"
  using syscall_context [OF _ assms(2), of s1] syscall_context [OF _ assms(3), of s2] assms(1)
  by (simp_all add: syscall3_regs_def syscall2_regs_def eq_on_def)

text \<open>C15. The system call as the user sees it. \<open>int 0x80\<close> calls the service that \<open>eax\<close> selects on the kernel stack
  of the thread, at the stack pointer \<open>syscall_enter\<close> gives, with \<open>ebx\<close>, \<open>ecx\<close> and \<open>edx\<close> as its arguments; when the service
  returns, the user finds every register as it was but \<open>eax\<close>, which holds the result.\<close>

theorem syscall_transparent:
  assumes "user_mode (r_cs r)" "syscall_entry (gate_enter g entry None (r, s)) = (r1, s1)"
    and "esp s' = esp s1" "eq_on (mem s') (mem s1) (esp s1 + 12) 76"
  shows "esp s1 - 4 = esp (syscall_enter g s)
    \<and> r_eax r1 = r_eax r \<and> ld32 (mem s1) (esp s1) = r_ebx r \<and> ld32 (mem s1) (esp s1 + 4) = r_ecx r
    \<and> ld32 (mem s1) (esp s1 + 8) = r_edx r \<and> GetIntStatus s1 = INT_OFF
    \<and> IntExit (syscall_leave (r', s')) =
        (r\<lparr>r_eax := r_eax r'\<rparr>, (put32 s' (esp s1 + 44) (r_eax r'))\<lparr>esp := esp s, eflags := eflags s\<rparr>)"
  by (rule syscall_context [OF assms])

theorem syscall_transparent_witness:
  "let (r1, s1) = syscall_entry (gate_enter demo_symbols 0x6500 None (demo_user_regs, demo_user_state))
   in fst (IntExit (syscall_leave (r1\<lparr>r_eax := 7\<rparr>, s1))) = demo_user_regs\<lparr>r_eax := 7\<rparr> \<and> ld32 (mem s1) (esp s1) = 11"
proof -
  obtain r1 s1 where e: "syscall_entry (gate_enter demo_symbols 0x6500 None (demo_user_regs, demo_user_state)) = (r1, s1)"
    by (rule prod.exhaust)
  from syscall_transparent [OF demo_user_mode e, of s1 "r1\<lparr>r_eax := 7\<rparr>"] e
  show ?thesis by (simp add: eq_on_def) (simp add: demo_user_regs_def)
qed

end
