(* ===== verification/UserEntry.thy ===== *)
theory UserEntry
  imports Context
begin

text \<open>
  The way of a process into user mode: \<open>VirtualAddrMapping\<close> (\<open>kernel/memory.c\<close>) gives it the page of its
  stack, \<open>StartProcess\<close> (\<open>userprog/process.c\<close>) fills the interrupt frame on its kernel stack and
  leaves through \<open>IntExit\<close>.
\<close>

section \<open>Regions of the store\<close>

text \<open>Ranges that are separate from each other, and changes inside given ranges only.\<close>

fun all_apart :: "(addr \<times> nat) list \<Rightarrow> bool" where
  "all_apart [] \<longleftrightarrow> True"
| "all_apart ((a, n) # rs) \<longleftrightarrow> (\<forall>(b, k) \<in> set rs. sep a n b k) \<and> all_apart rs"

definition changes_in :: "mem \<Rightarrow> mem \<Rightarrow> (addr \<times> nat) list \<Rightarrow> bool" where
  "changes_in m m' rs \<longleftrightarrow> (\<forall>x. (\<forall>(a, n) \<in> set rs. \<not> inr x a n) \<longrightarrow> m' x = m x)"

lemma changes_in_only: "only_in m m' a n \<Longrightarrow> changes_in m m' [(a, n)]"
  by (simp add: changes_in_def only_in_def)

lemma changes_in_trans: "changes_in m m1 rs \<Longrightarrow> changes_in m1 m2 rs' \<Longrightarrow> changes_in m m2 (rs @ rs')"
  unfolding changes_in_def by (metis UnCI set_append)

lemma changes_in_mono: "changes_in m m' rs \<Longrightarrow> set rs \<subseteq> set rs' \<Longrightarrow> changes_in m m' rs'"
  unfolding changes_in_def by blast

lemma changes_in_eq_on:
  assumes "changes_in m m' rs" "\<forall>(a, n) \<in> set rs. sep a n b k"
  shows "eq_on m' m b k"
  unfolding eq_on_def
proof (intro allI impI)
  fix x assume x: "inr x b k"
  have "\<not> inr x a n" if "(a, n) \<in> set rs" for a n
    using assms(2) that sep_disjoint [of a n b k x] x by blast
  with assms(1) show "m' x = m x" unfolding changes_in_def by blast
qed

section \<open>A physical pool in another store\<close>

lemma pool_inv_cong:
  assumes "pool_inv p b n s" "eq_on m' (mem s) p 16"
    and "eq_on m' (mem s) (bits (mem s) p) (unat (bitmap_bytes_len (mem s) p))"
  shows "pool_inv p b n (s\<lparr>mem := m'\<rparr>)" "used_pages p (s\<lparr>mem := m'\<rparr>) = used_pages p s"
    "bits m' p = bits (mem s) p" "bitmap_bytes_len m' p = bitmap_bytes_len (mem s) p"
proof -
  have e8: "eq_on (mem s) m' p 8" using eq_on_part [OF assms(2), of 0 8] by (simp add: eq_on_def)
  note F = bitmap_frame [OF e8, symmetric]
  show "bits m' p = bits (mem s) p" "bitmap_bytes_len m' p = bitmap_bytes_len (mem s) p" by (simp_all add: F)
  have "ld32 m' (p + 8) = ld32 (mem s) (p + 8)" by (rule ld32_cong [OF eq_on_part [OF assms(2)]]) simp
  then have ps: "physic_addr_start m' p = physic_addr_start (mem s) p" by (simp add: physic_addr_start_def)
  have sz: "bm_size m' p = bm_size (mem s) p" by (simp add: bm_size_def F)
  show "pool_inv p b n (s\<lparr>mem := m'\<rparr>)"
    using assms(1) by (simp add: pool_inv_def pool_ok_def bitmap_wf_def F ps sz)
  have "bm m' p k = bm (mem s) p k" if "k < bm_size (mem s) p" for k
    using bm_frame [OF e8 _ that] assms(3) by (simp add: eq_on_def)
  then show "used_pages p (s\<lparr>mem := m'\<rparr>) = used_pages p s" by (auto simp: used_pages_def sz)
qed

section \<open>Mapping a page of the user\<close>

text \<open>
  The thread \<open>cur\<close> has an address space of its own without a page table for \<open>v\<close>; the user pool (frames from \<open>b\<close>
  on) and the kernel pool have a free page each, and \<open>v\<close> is in the range its bitmap of virtual pages covers.
\<close>

definition bitmap_range :: "mem \<Rightarrow> addr \<Rightarrow> addr \<times> nat" where
  "bitmap_range m p = (bits m p, unat (bitmap_bytes_len m p))"

definition mapping_apart :: "symbols \<Rightarrow> mem \<Rightarrow> addr \<Rightarrow> bool" where
  "mapping_apart g m cur \<longleftrightarrow> all_apart
     [(cur, 4096), (user_memory_pool g, 44), (kernel_memory_pool g, 44), bitmap_range m (cur + off_userprog_vaddr),
      bitmap_range m (user_memory_pool g), bitmap_range m (kernel_memory_pool g), (window, 0x400000)]"

definition user_page_ready :: "symbols \<Rightarrow> kstate \<Rightarrow> addr \<Rightarrow> u32 \<Rightarrow> nat \<Rightarrow> u32 \<Rightarrow> nat \<Rightarrow> bool" where
  "user_page_ready g s v b cap kb kcap \<longleftrightarrow>
     (let cur = GetCurrentThreadPCB s; pv = cur + off_userprog_vaddr; m = mem s;
          idx = (v - vaddr_start m pv) div PAGE_SIZE
      in lock_free s (pool_lock (user_memory_pool g)) \<and> PCB_PDE_addr m cur \<noteq> NULL
       \<and> bitmap_wf m pv \<and> 0 < idx \<and> unat idx < bm_size m pv
       \<and> pool_inv (user_memory_pool g) b cap s \<and> used_pages (user_memory_pool g) s \<noteq> {..<cap}
       \<and> pool_inv (kernel_memory_pool g) kb kcap s \<and> used_pages (kernel_memory_pool g) s \<noteq> {..<kcap}
       \<and> page_aligned b \<and> 0 < unat b \<and> unat b + cap * 4096 \<le> 2 ^ 32
       \<and> page_aligned v \<and> vpn v < 0xFFC00 \<and> \<not> table_present m v \<and> mapping_apart g m cur)"

definition mapping_regions :: "symbols \<Rightarrow> mem \<Rightarrow> addr \<Rightarrow> (addr \<times> nat) list" where
  "mapping_regions g m cur = [(pool_lock (user_memory_pool g), 28), bitmap_range m (cur + off_userprog_vaddr),
     bitmap_range m (user_memory_pool g), bitmap_range m (kernel_memory_pool g), (window, 0x400000)]"

lemma window_ptes: "eq_on m' m window 0x400000 \<Longrightarrow> ld32 m' (GetPTEPointer w) = ld32 m (GetPTEPointer w)"
proof -
  assume e: "eq_on m' m window 0x400000"
  have "unat (of_nat (4 * vpn w) :: u32) = 4 * vpn w" using vpn_bound [of w] by (intro unat_of_nat_u32) simp
  then have "unat (of_nat (4 * vpn w) :: u32) + 4 \<le> 0x400000" using vpn_bound [of w] by simp
  from ld32_cong [OF eq_on_part [OF e this]] show ?thesis unfolding GetPTEPointer_vpn .
qed

text \<open>The separations in the form the steps of \<open>VirtualAddrMapping\<close> use them.\<close>

lemma mapping_seps:
  assumes "mapping_apart g m c" "0 < unat (bitmap_bytes_len m (c + 52))"
    and "0 < unat (bitmap_bytes_len m U)" "0 < unat (bitmap_bytes_len m K)" "U = user_memory_pool g" "K = kernel_memory_pool g"
  defines "L \<equiv> U + 16" and "pv \<equiv> c + 52"
  shows "\<forall>(b, k) \<in> {(c, 4096), (U, 16), (K, 16), bitmap_range m pv, bitmap_range m U, bitmap_range m K, (window, 0x400000)}. sep L 28 b k"
    and "\<forall>(b, k) \<in> {(c, 4096), (U, 16), (K, 16), (L, 28), bitmap_range m U, bitmap_range m K, (window, 0x400000)}.
      sep (bits m pv) (unat (bitmap_bytes_len m pv)) b k"
    and "\<forall>(b, k) \<in> {(c, 4096), (K, 16), (L, 28), bitmap_range m K, (window, 0x400000)}.
      sep (bits m U) (unat (bitmap_bytes_len m U)) b k"
    and "\<forall>(b, k) \<in> {(c, 4096), (U, 16), (L, 28), bitmap_range m U}. sep (bits m K) (unat (bitmap_bytes_len m K)) b k"
    and "\<forall>(b, k) \<in> {(c, 4096), (U, 16), (L, 28), bitmap_range m U}. sep window 0x400000 b k"
proof -
  note S = assms(1) [unfolded mapping_apart_def bitmap_range_def, folded assms(5,6), simplified]
  have part: "sep (U + 16) 28 b k" "sep b k (U + 16) 28" "sep b k U 16" if "sep U 44 b k" "0 < k" for b k
    using that sep_offset_left [OF that(1), of 16 28] sep_offset_left [OF that(1), of 0 16] sep_sym by simp_all
  have kpart: "sep b k K 16" if "sep K 44 b k" "0 < k" for b k
    using sep_offset_left [OF that(1), of 0 16] that(2) sep_sym by simp
  have uk: "sep (U + 16) 28 K 16" using sep_parts [of U 44 K 44 16 28 0 16] S by simp
  show "\<forall>(b, k) \<in> {(c, 4096), (U, 16), (K, 16), bitmap_range m pv, bitmap_range m U, bitmap_range m K, (window, 0x400000)}. sep L 28 b k"
    using S part [of c 4096] part [of window "0x400000"] part [of "bits m U" "unat (bitmap_bytes_len m U)"]
      part [of "bits m K" "unat (bitmap_bytes_len m K)"] part [of "bits m pv" "unat (bitmap_bytes_len m pv)"] uk assms(2-4)
    by (simp add: L_def pv_def bitmap_range_def sep_commute [of U 44])
  show "\<forall>(b, k) \<in> {(c, 4096), (U, 16), (K, 16), (L, 28), bitmap_range m U, bitmap_range m K, (window, 0x400000)}.
      sep (bits m pv) (unat (bitmap_bytes_len m pv)) b k"
    using S part [of "bits m pv" "unat (bitmap_bytes_len m pv)"] kpart [of "bits m pv" "unat (bitmap_bytes_len m pv)"] assms(2)
    by (simp add: L_def pv_def bitmap_range_def sep_commute [of _ _ c])
  show "\<forall>(b, k) \<in> {(c, 4096), (K, 16), (L, 28), bitmap_range m K, (window, 0x400000)}.
      sep (bits m U) (unat (bitmap_bytes_len m U)) b k"
    using S part [of "bits m U" "unat (bitmap_bytes_len m U)"] kpart [of "bits m U" "unat (bitmap_bytes_len m U)"] assms(3)
    by (simp add: L_def bitmap_range_def sep_commute [of _ _ c])
  show "\<forall>(b, k) \<in> {(c, 4096), (U, 16), (L, 28), bitmap_range m U}. sep (bits m K) (unat (bitmap_bytes_len m K)) b k"
    using S part [of "bits m K" "unat (bitmap_bytes_len m K)"] assms(4)
    by (simp add: L_def bitmap_range_def sep_commute [of "bits m K"])
  show "\<forall>(b, k) \<in> {(c, 4096), (U, 16), (L, 28), bitmap_range m U}. sep window 0x400000 b k"
    using S part [of window "0x400000"] by (simp add: L_def bitmap_range_def sep_commute [of window])
qed

lemma pool_room_bytes: "pool_inv p b n s \<Longrightarrow> used_pages p s \<noteq> {..<n} \<Longrightarrow> 0 < unat (bitmap_bytes_len (mem s) p)"
  by (cases "n = 0") (auto simp: pool_inv_def bm_size_def used_pages_def)

lemma user_page_lens:
  assumes "user_page_ready g s v b cap kb kcap" "c = GetCurrentThreadPCB s" "U = user_memory_pool g" "K = kernel_memory_pool g"
  shows "mapping_apart g (mem s) c" "0 < unat (bitmap_bytes_len (mem s) (c + 52))"
    "0 < unat (bitmap_bytes_len (mem s) U)" "0 < unat (bitmap_bytes_len (mem s) K)"
  using assms(1) pool_room_bytes [of U b cap s] pool_room_bytes [of K kb kcap s]
  unfolding user_page_ready_def Let_def assms(2-4) by (auto simp: bm_size_def)

text \<open>The first half of \<open>VirtualAddrMapping\<close>: the lock is taken and the virtual page marked.\<close>

lemma user_page_marked:
  fixes g :: symbols and s :: kstate and v :: addr
  assumes ready: "user_page_ready g s v b cap kb kcap"
    and U: "U = user_memory_pool g" and c: "c = GetCurrentThreadPCB s" and pv: "pv = c + 52"
    and idx: "idx = (v - vaddr_start (mem s) pv) div PAGE_SIZE"
  obtains m1 m2 where "sys_lock_lock g s (pool_lock U) = Ok () (s\<lparr>mem := m1\<rparr>)" "lock_held (s\<lparr>mem := m1\<rparr>) (pool_lock U)"
    "only_in (mem s) m1 (pool_lock U) 28" "vaddr_start m1 pv = vaddr_start (mem s) pv" "PCB_PDE_addr m1 c = PCB_PDE_addr (mem s) c"
    "BitmapSetBit m1 pv idx 1 = Ok () m2" "only_in m1 m2 (bits (mem s) pv) (unat (bitmap_bytes_len (mem s) pv))"
proof -
  let ?m = "mem s" let ?L = "U + 16"
  note R = ready [unfolded user_page_ready_def Let_def, folded U c, folded pv idx]
  note S = mapping_seps [OF user_page_lens [OF ready c U refl] U refl]
  have lock: "lock_free s ?L" using R by (simp add: pool_lock_def)
  obtain m1 where m1: "sys_lock_lock g s ?L = Ok () (s\<lparr>mem := m1\<rparr>)" "lock_held (s\<lparr>mem := m1\<rparr>) ?L" "only_in ?m m1 ?L 28"
    using lk.lock [OF lock] by blast
  have c1: "eq_on m1 ?m c 4096" by (rule only_in_sep [OF m1(3)]) (use S(1) in simp)
  have w1: "ld32 m1 (c + j) = ld32 ?m (c + j)" if "unat j + 4 \<le> 4096" for j by (rule ld32_cong [OF eq_on_part [OF c1 that]])
  have pvf: "bits m1 pv = bits ?m pv" "bitmap_bytes_len m1 pv = bitmap_bytes_len ?m pv"
    using bitmap_frame [OF eq_on_part [OF c1, of 52 8]] by (simp_all add: pv)
  have vs: "vaddr_start m1 pv = vaddr_start ?m pv" "PCB_PDE_addr m1 c = PCB_PDE_addr ?m c"
    using w1 [of 60] w1 [of 48] by (simp_all add: vaddr_start_def pv PCB_PDE_addr_def add.assoc)
  have "bitmap_wf m1 pv" "unat idx < bm_size m1 pv" using R pvf by (simp_all add: bitmap_wf_def bm_size_def)
  then obtain m2 where "BitmapSetBit m1 pv idx 1 = Ok () m2" "only_in m1 m2 (bits ?m pv) (unat (bitmap_bytes_len ?m pv))"
    using BitmapSetBit_effect [of m1 pv idx 1] pvf by metis
  with m1 vs that show thesis by (simp add: pool_lock_def)
qed

text \<open>The second half: a frame of the user pool, mapped through a new page table of the kernel pool.\<close>

lemma user_page_mapped:
  fixes g :: symbols and s :: kstate and v :: addr
  assumes ready: "user_page_ready g s v b cap kb kcap"
    and U: "U = user_memory_pool g" and K: "K = kernel_memory_pool g" and c: "c = GetCurrentThreadPCB s" and pv: "pv = c + 52"
    and C2: "changes_in (mem s) m2 [(U + 16, 28), bitmap_range (mem s) pv]"
  obtains i m3 m4 where "GetOnePhysicPage (s\<lparr>mem := m2\<rparr>) U = Ok (page_at b i) (s\<lparr>mem := m3\<rparr>)" "pool_inv U b cap (s\<lparr>mem := m3\<rparr>)"
    "i < cap" "i \<notin> used_pages U s" "used_pages U (s\<lparr>mem := m3\<rparr>) = insert i (used_pages U s)"
    "bits m3 U = bits (mem s) U" "bitmap_bytes_len m3 U = bitmap_bytes_len (mem s) U" "changes_in m2 m3 [bitmap_range (mem s) U]"
    "PageMapping g (s\<lparr>mem := m3\<rparr>) v (page_at b i) = Ok () (s\<lparr>mem := m4\<rparr>)"
    "ld32 m4 (GetPTEPointer v) = page_at b i OR PAGE_FLAGS" "table_present m4 v"
    "changes_in m3 m4 [bitmap_range (mem s) K, (window, 0x400000)]"
proof -
  let ?m = "mem s" let ?bu = "bitmap_range ?m U" let ?bk = "bitmap_range ?m K"
  note R = ready [unfolded user_page_ready_def Let_def, folded U K c]
  note S = mapping_seps [OF user_page_lens [OF ready c U K] U K, folded pv]
  have e2: "eq_on m2 ?m x k" if "(x, k) \<in> {(U, 16), (K, 16), ?bu, ?bk, (window, 0x400000)}" for x k
    by (rule changes_in_eq_on [OF C2]) (use that S(1,2) in \<open>auto simp: bitmap_range_def\<close>)
  have U2: "pool_inv U b cap (s\<lparr>mem := m2\<rparr>)" "used_pages U (s\<lparr>mem := m2\<rparr>) = used_pages U s"
    "bits m2 U = bits ?m U" "bitmap_bytes_len m2 U = bitmap_bytes_len ?m U"
    using pool_inv_cong [of U b cap s m2] R e2 by (simp_all add: bitmap_range_def)
  have "used_pages U (s\<lparr>mem := m2\<rparr>) \<noteq> {..<cap}" using R U2(2) by simp
  from pool_alloc_effect [OF U2(1) this] obtain i m3 where
    m3: "GetOnePhysicPage (s\<lparr>mem := m2\<rparr>) U = Ok (page_at b i) (s\<lparr>mem := m3\<rparr>)" "pool_inv U b cap (s\<lparr>mem := m3\<rparr>)"
    "i < cap" "i \<notin> used_pages U s" "used_pages U (s\<lparr>mem := m3\<rparr>) = insert i (used_pages U s)"
    "only_in m2 m3 (bits ?m U) (unat (bitmap_bytes_len ?m U))" "bits m3 U = bits ?m U" "bitmap_bytes_len m3 U = bitmap_bytes_len ?m U"
    using U2(2-4) by auto
  have C23: "changes_in m2 m3 [?bu]" using changes_in_only [OF m3(6)] by (simp add: bitmap_range_def)
  have e3: "eq_on m3 ?m x k" if "(x, k) \<in> {(K, 16), ?bk, (window, 0x400000)}" for x k
    by (rule changes_in_eq_on [OF changes_in_trans [OF C2 C23]]) (use that S(1-3) in \<open>auto simp: bitmap_range_def\<close>)
  have K3: "pool_inv K kb kcap (s\<lparr>mem := m3\<rparr>)" "used_pages K (s\<lparr>mem := m3\<rparr>) \<noteq> {..<kcap}"
    "bits m3 K = bits ?m K" "bitmap_bytes_len m3 K = bitmap_bytes_len ?m K"
    using pool_inv_cong [of K kb kcap s m3] R e3 by (simp_all add: bitmap_range_def)
  have t3: "\<not> table_present (mem (s\<lparr>mem := m3\<rparr>)) v"
    using R window_ptes [OF e3, of "GetPTEPointer v"] by (simp add: table_present_def GetPDEPointer_PTE)
  have vb: "vpn v < 0xFFC00" using R by blast
  obtain m4 where m4: "PageMapping g (s\<lparr>mem := m3\<rparr>) v (page_at b i) = Ok () (s\<lparr>mem := m4\<rparr>)"
    "ld32 m4 (GetPTEPointer v) = page_at b i OR PAGE_FLAGS" "table_present m4 v" "alloc_frame m3 m4 K"
    by (rule PageMapping_absent [OF K3(1) K K3(2) t3 vb, of "page_at b i"]) (rule that, simp_all)
  have "changes_in m3 m4 [?bk, (window, 0x400000)]"
    using m4(4) K3(3,4) by (simp add: alloc_frame_def changes_in_def bitmap_range_def)
  with that m3(1-5,7,8) C23 m4(1-3) show thesis by blast
qed

lemma VirtualAddrMapping_effect:
  fixes g :: symbols and s :: kstate and v :: addr and b kb :: u32 and cap kcap :: nat
  assumes ready: "user_page_ready g s v b cap kb kcap" and U: "U = user_memory_pool g" and c: "c = GetCurrentThreadPCB s"
  obtains i m' where "VirtualAddrMapping g s USER_POOL v = Ok v (s\<lparr>mem := m'\<rparr>)" "i < cap" "i \<notin> used_pages U s"
    "used_pages U (s\<lparr>mem := m'\<rparr>) = insert i (used_pages U s)" "VirtualAddrToPhysicAddr m' v = page_at b i"
    "table_present m' v" "lock_free (s\<lparr>mem := m'\<rparr>) (pool_lock U)" "changes_in (mem s) m' (mapping_regions g (mem s) c)"
proof -
  define K where "K = kernel_memory_pool g"
  define pv where "pv = c + 52"
  let ?m = "mem s" let ?L = "pool_lock U" let ?bu = "bitmap_range ?m U" let ?bk = "bitmap_range ?m K" let ?bp = "bitmap_range ?m pv"
  note R = ready [unfolded user_page_ready_def Let_def, folded U c, folded pv_def]
  note S = mapping_seps [OF user_page_lens [OF ready c U K_def] U K_def, folded pv_def, folded pool_lock_def]
  obtain m1 m2 where m1: "sys_lock_lock g s ?L = Ok () (s\<lparr>mem := m1\<rparr>)" "lock_held (s\<lparr>mem := m1\<rparr>) ?L" "only_in ?m m1 ?L 28"
    "vaddr_start m1 pv = vaddr_start ?m pv" "PCB_PDE_addr m1 c = PCB_PDE_addr ?m c"
    and m2: "BitmapSetBit m1 pv ((v - vaddr_start ?m pv) div PAGE_SIZE) 1 = Ok () m2" "only_in m1 m2 (bits ?m pv) (unat (bitmap_bytes_len ?m pv))"
    by (rule user_page_marked [OF ready U c pv_def refl])
  have C12: "changes_in m1 m2 [?bp]" using changes_in_only [OF m2(2)] by (simp add: bitmap_range_def)
  have C2: "changes_in ?m m2 [(U + 16, 28), ?bp]"
    using changes_in_trans [OF changes_in_only [OF m1(3)] C12] by (simp add: pool_lock_def)
  obtain i m3 m4 where m3: "GetOnePhysicPage (s\<lparr>mem := m2\<rparr>) U = Ok (page_at b i) (s\<lparr>mem := m3\<rparr>)" "pool_inv U b cap (s\<lparr>mem := m3\<rparr>)"
    "i < cap" "i \<notin> used_pages U s" "used_pages U (s\<lparr>mem := m3\<rparr>) = insert i (used_pages U s)"
    "bits m3 U = bits ?m U" "bitmap_bytes_len m3 U = bitmap_bytes_len ?m U" "changes_in m2 m3 [?bu]"
    and m4: "PageMapping g (s\<lparr>mem := m3\<rparr>) v (page_at b i) = Ok () (s\<lparr>mem := m4\<rparr>)"
    "ld32 m4 (GetPTEPointer v) = page_at b i OR PAGE_FLAGS" "table_present m4 v" "changes_in m3 m4 [?bk, (window, 0x400000)]"
    by (rule user_page_mapped [OF ready U K_def c pv_def C2])
  have "eq_on m4 m1 ?L 28"
    by (rule changes_in_eq_on [OF changes_in_trans [OF changes_in_trans [OF C12 m3(8)] m4(4)]])
      (use S(2-5) in \<open>simp add: bitmap_range_def\<close>)
  then have "lock_held (s\<lparr>mem := m4\<rparr>) ?L" using lk.held_local [OF m1(2), of m4] by simp
  then obtain m5 where m5: "sys_lock_unlock g (s\<lparr>mem := m4\<rparr>) ?L = Ok () (s\<lparr>mem := m5\<rparr>)" "lock_free (s\<lparr>mem := m5\<rparr>) ?L"
    "only_in m4 m5 ?L 28" using lk.unlock [of "s\<lparr>mem := m4\<rparr>"] by auto
  have W5: "eq_on m5 m4 window 0x400000" by (rule only_in_sep [OF m5(3)]) (use S(1) in simp)
  note C35 = changes_in_trans [OF m4(4) changes_in_only [OF m5(3)]]
  have e5: "eq_on m5 m3 x k" if "(x, k) \<in> {(U, 16), ?bu}" for x k
    by (rule changes_in_eq_on [OF C35]) (use that S(1,4,5) in \<open>auto simp: bitmap_range_def\<close>)
  have used: "used_pages U (s\<lparr>mem := m5\<rparr>) = insert i (used_pages U s)"
    using pool_inv_cong(2) [OF m3(2), of m5] e5 m3(5-7) by (simp add: bitmap_range_def)
  have C: "changes_in ?m m5 (mapping_regions g ?m c)"
    by (rule changes_in_mono [OF changes_in_trans [OF changes_in_trans [OF C2 m3(8)] C35]])
      (simp add: mapping_regions_def U [symmetric] K_def [symmetric] pv_def pool_lock_def)
  have pa: "page_aligned (page_at b i)" "page_aligned v" "page_at b i \<noteq> NULL"
    using R page_aligned_add [of b i] page_at_nonnull [OF m3(3), of b] by (simp_all add: page_at_def pool_inv_def)
  have "VirtualAddrToPhysicAddr m5 v = page_at b i"
    using window_ptes [OF W5, of v] m4(2) by (intro translate_entry [OF _ pa(1,2)]) simp
  moreover have "table_present m5 v"
    using window_ptes [OF W5, of "GetPTEPointer v"] m4(3) by (simp add: table_present_def GetPDEPointer_PTE)
  moreover have "VirtualAddrMapping g s USER_POOL v = Ok v (s\<lparr>mem := m5\<rparr>)"
    using R m1(1,4,5) m2(1) m3(1) m4(1) m5(1) pa(3)
    by (simp add: VirtualAddrMapping_def memory_pool_of_def vaddr_pool_def U [symmetric] c [symmetric] pv_def [symmetric] Let_def)
  ultimately show thesis using that used m3(3,4) m5(2) C by blast
qed

section \<open>Entering user mode\<close>

text \<open>What \<open>StartProcess\<close> writes before it maps the stack stays clear of what the mapping depends on.\<close>

lemma user_page_ready_cong:
  fixes s :: kstate and m' :: mem
  assumes ready: "user_page_ready g s v b cap kb kcap" and ch: "changes_in (mem s) m' [(c, 4), (c + 3792, 304)]"
    and c: "c = GetCurrentThreadPCB s"
  shows "user_page_ready g (s\<lparr>mem := m'\<rparr>) v b cap kb kcap" "mapping_regions g m' c = mapping_regions g (mem s) c"
    "used_pages (user_memory_pool g) (s\<lparr>mem := m'\<rparr>) = used_pages (user_memory_pool g) s"
    "\<forall>(a, n) \<in> set (mapping_regions g (mem s) c). sep a n c 4096" "sep c 4096 window 0x400000"
proof -
  define U K pv where "U = user_memory_pool g" and "K = kernel_memory_pool g" and "pv = c + 52"
  let ?m = "mem s"
  note R = ready [unfolded user_page_ready_def Let_def, folded c U_def K_def, folded pv_def]
  note pos = user_page_lens(2-4) [OF ready c U_def K_def] and ap = user_page_lens(1) [OF ready c U_def K_def]
  note S = ap [unfolded mapping_apart_def bitmap_range_def, folded U_def K_def, folded pv_def, simplified]
  have e: "eq_on m' ?m x k" if "sep c 4096 x k" "0 < k" for x k
    by (rule changes_in_eq_on [OF ch])
      (use that sep_offset_left [OF that(1), of 0 4] sep_offset_left [OF that(1), of 3792 304] in simp)
  have "eq_on m' ?m (c + 48) 16" by (rule changes_in_eq_on [OF ch]) simp
  then have w: "ld32 m' (c + 48 + j) = ld32 ?m (c + 48 + j)" if "unat j + 4 \<le> 16" for j
    using ld32_cong [OF eq_on_part [OF _ that]] by blast
  have f: "PCB_PDE_addr m' c = PCB_PDE_addr ?m c" "bits m' pv = bits ?m pv" "bitmap_bytes_len m' pv = bitmap_bytes_len ?m pv"
    "vaddr_start m' pv = vaddr_start ?m pv"
    using w [of 0] w [of 4] w [of 8] w [of 12]
    by (simp_all add: PCB_PDE_addr_def bits_def bitmap_bytes_len_def vaddr_start_def pv_def add.assoc)
  have lock: "lock_free (s\<lparr>mem := m'\<rparr>) (pool_lock U)"
    using R lock_free_local [of s "pool_lock U" m'] e [of "pool_lock U" 28] S sep_offset_right [of c 4096 U 44 16 28]
    by (simp add: pool_lock_def)
  have eU: "eq_on m' ?m U 16" "eq_on m' ?m K 16"
    using eq_on_part [OF e [of U 44], of 0 16] eq_on_part [OF e [of K 44], of 0 16] S by simp_all
  have U: "pool_inv U b cap (s\<lparr>mem := m'\<rparr>)" "used_pages U (s\<lparr>mem := m'\<rparr>) = used_pages U s" "bits m' U = bits ?m U"
    "bitmap_bytes_len m' U = bitmap_bytes_len ?m U"
    using R eU(1) e S pos(2) pool_inv_cong [of U b cap s m'] by simp_all
  have K: "pool_inv K kb kcap (s\<lparr>mem := m'\<rparr>)" "used_pages K (s\<lparr>mem := m'\<rparr>) = used_pages K s" "bits m' K = bits ?m K"
    "bitmap_bytes_len m' K = bitmap_bytes_len ?m K"
    using R eU(2) e S pos(3) pool_inv_cong [of K kb kcap s m'] by simp_all
  have br: "bitmap_range m' p = bitmap_range ?m p" if "p \<in> {pv, U, K}" for p
    using that f U K by (auto simp: bitmap_range_def)
  have "table_present m' v = table_present ?m v"
    using window_ptes [OF e, of "GetPTEPointer v"] S by (simp add: table_present_def GetPDEPointer_PTE)
  moreover have "mapping_apart g m' c" using ap br by (simp add: mapping_apart_def U_def K_def pv_def)
  ultimately show "user_page_ready g (s\<lparr>mem := m'\<rparr>) v b cap kb kcap"
    using R lock U K f unfolding user_page_ready_def Let_def
    by (simp add: c [symmetric] U_def [symmetric] K_def [symmetric] pv_def [symmetric] bitmap_wf_def bm_size_def)
  show "mapping_regions g m' c = mapping_regions g ?m c" using br by (simp add: mapping_regions_def U_def K_def pv_def)
  show "used_pages (user_memory_pool g) (s\<lparr>mem := m'\<rparr>) = used_pages (user_memory_pool g) s"
    using U(2) by (simp add: U_def)
  show "sep c 4096 window 0x400000" using S by simp
  show "\<forall>(a, n) \<in> set (mapping_regions g ?m c). sep a n c 4096"
    using mapping_seps [OF ap pos U_def K_def]
    by (simp add: mapping_regions_def bitmap_range_def pool_lock_def U_def [symmetric] K_def [symmetric] pv_def)
qed

text \<open>The registers with which a process starts at \<open>f\<close>.\<close>

definition user_regs :: "addr \<Rightarrow> regs" where
  "user_regs f = \<lparr>r_eax = 0, r_ecx = 0, r_edx = 0, r_ebx = 0, r_ebp = 0, r_esi = 0, r_edi = 0,
     r_ds = SELECTOR_U_DATA, r_es = SELECTOR_U_DATA, r_fs = SELECTOR_U_DATA, r_gs = 0, r_eip = f,
     r_cs = SELECTOR_U_CODE, r_ss = SELECTOR_U_DATA\<rparr>"

lemma user_frame_stored:
  fixes s :: kstate and a f :: addr
  defines "m' \<equiv> mem (user_frame s a f)"
  shows "user_frame s a f = s\<lparr>mem := m'\<rparr>" "only_in (mem s) m' a 68"
    "ld32 m' (a + 4) = 0" "ld32 m' (a + 8) = 0" "ld32 m' (a + 12) = 0" "ld32 m' (a + 20) = 0" "ld32 m' (a + 24) = 0"
    "ld32 m' (a + 28) = 0" "ld32 m' (a + 32) = 0" "ld16 m' (a + 36) = 0" "ld16 m' (a + 40) = SELECTOR_U_DATA"
    "ld16 m' (a + 44) = SELECTOR_U_DATA" "ld16 m' (a + 48) = SELECTOR_U_DATA" "ld32 m' (a + 56) = f"
    "ld32 m' (a + 60) = ucast SELECTOR_U_CODE" "ld32 m' (a + 64) = 0x202"
proof -
  show "user_frame s a f = s\<lparr>mem := m'\<rparr>" by (simp add: m'_def user_frame_def put16_def put32_def Let_def)
  show "only_in (mem s) m' a 68"
    unfolding m'_def user_frame_def Let_def mem_put by (intro only_in_stores only_in_refl; simp)
qed (simp_all add: m'_def user_frame_def Let_def EFLAGS_IF_1_def EFLAGS_IOPL_0_def EFLAGS_MBS_def)

lemma StartProcess_run:
  fixes g :: symbols and s :: kstate and f :: addr
  assumes ready: "user_page_ready g s USER_STACK3_VADDR b cap kb kcap"
    and c: "c = GetCurrentThreadPCB s" and k: "self_kernel_stack (mem s) c = c + 3664"
  obtains i m' where "StartProcess g s f = Ok () (s\<lparr>mem := m', esp := c + 3792\<rparr>)"
    "int_stack m' (c + 3792) (user_regs f) 0x202 0x7FFFE000" "i < cap" "i \<notin> used_pages (user_memory_pool g) s"
    "VirtualAddrToPhysicAddr m' USER_STACK3_VADDR = page_at b i" "table_present m' USER_STACK3_VADDR"
    "changes_in (mem s) m' ((c, 4096) # mapping_regions g (mem s) c)"
proof -
  let ?a = "c + 3792" let ?s1 = "put32 s c ?a"
  define m2 where "m2 = mem (user_frame ?s1 ?a f)"
  note F = user_frame_stored [of ?s1 ?a f, folded m2_def]
  have s1: "?s1\<lparr>mem := m2\<rparr> = s\<lparr>mem := m2\<rparr>" by (simp add: put32_def)
  have C2: "changes_in (mem s) m2 [(c, 4), (?a, 304)]"
    using changes_in_trans [OF changes_in_only [OF only_in_st32 [of "mem s" c ?a]]
        changes_in_only [OF only_in_part [of "st32 (mem s) c ?a" m2 ?a 0 68 304]]] F(2) by simp
  note P = user_page_ready_cong [OF ready C2 c]
  obtain i m3 where m3: "VirtualAddrMapping g (s\<lparr>mem := m2\<rparr>) USER_POOL USER_STACK3_VADDR = Ok USER_STACK3_VADDR (s\<lparr>mem := m3\<rparr>)"
    "i < cap" "i \<notin> used_pages (user_memory_pool g) (s\<lparr>mem := m2\<rparr>)"
    "VirtualAddrToPhysicAddr m3 USER_STACK3_VADDR = page_at b i" "table_present m3 USER_STACK3_VADDR"
    "changes_in m2 m3 (mapping_regions g (mem s) c)"
    by (rule VirtualAddrMapping_effect [OF P(1) refl refl]) (use that P(2) c in simp)
  have e3: "eq_on m3 m2 c 4096" by (rule changes_in_eq_on [OF m3(6) P(4)])
  have w3: "ld32 m3 (c + j) = ld32 m2 (c + j)" if "unat j + 4 \<le> 4096" for j by (rule ld32_cong [OF eq_on_part [OF e3 that]])
  have h3: "ld16 m3 (c + j) = ld16 m2 (c + j)" if "unat j + 2 \<le> 4096" for j by (rule ld16_cong [OF eq_on_part [OF e3 that]])
  define m4 where "m4 = st32 (st32 m3 (c + 3860) 0x7FFFE000) (c + 3864) (ucast SELECTOR_U_DATA)"
  have o4: "only_in m3 m4 c 4096" unfolding m4_def by (intro only_in_stores only_in_refl; simp)
  have W4: "eq_on m4 m3 window 0x400000" by (rule only_in_sep [OF o4 P(5)])
  have "StartProcess g s f = Ok () (s\<lparr>mem := m4, esp := ?a\<rparr>)"
    using m3(1) k c F(1)
    by (simp add: StartProcess_def self_kernel_stack_def sizeof_thread_stack_def s1 Let_def m4_def put32_def add.assoc
        USER_STACK3_VADDR_def PAGE_SIZE_def m2_def [symmetric])
  moreover have "int_stack m4 ?a (user_regs f) 0x202 0x7FFFE000"
    using F(3-) unfolding int_stack_def by (simp add: m4_def user_regs_def w3 h3 add.assoc)
  moreover have "VirtualAddrToPhysicAddr m4 USER_STACK3_VADDR = page_at b i" "table_present m4 USER_STACK3_VADDR"
    using window_ptes [OF W4] m3(4,5) by (simp_all add: VirtualAddrToPhysicAddr_def table_present_def GetPDEPointer_PTE Let_def)
  moreover have "changes_in (mem s) m4 ((c, 4096) # mapping_regions g (mem s) c)"
  proof -
    have "changes_in (mem s) m2 [(c, 4096)]"
      using C2 inr_part [of _ c 0 4 4096] inr_part [of _ c 3792 304 4096] by (fastforce simp: changes_in_def)
    from changes_in_trans [OF changes_in_trans [OF this m3(6)] changes_in_only [OF o4]]
    show ?thesis by (rule changes_in_mono) auto
  qed
  ultimately show thesis using that m3(2,3) P(3) by simp
qed


text \<open>A process whose control block is at \<open>0x2000\<close>, with the bitmap of its whole user range at \<open>0x100000\<close>.\<close>

definition demo_process :: mem where
  "demo_process = st32 (st32 (st32 (st32 (st32 (st32 (st32 (st32 (st32 (st32 (st32 (st32 (st8 (\<lambda>_. 0)
     0x1214 1) 0x121C 0x1220) 0x1100 1) 0x1104 0x1180) 0x1108 0x200000) 0x1200 1) 0x1204 0x1280) 0x1208 0x400000)
     0x2000 0x2E50) 0x2030 0xC0110000) 0x2034 0x16FF7) 0x2038 0x100000) 0x203C 0x8048000"

definition demo_process_state :: kstate where
  "demo_process_state = demo_state\<lparr>mem := demo_process\<rparr>"

lemma demo_process_views:
  "GetCurrentThreadPCB demo_process_state = 0x2000" "mem demo_process_state = demo_process"
  "user_memory_pool demo_symbols = 0x1200" "kernel_memory_pool demo_symbols = 0x1100"
  "bits demo_process 0x2034 = 0x100000" "bitmap_bytes_len demo_process 0x2034 = 0x16FF7" "vaddr_start demo_process 0x2034 = 0x8048000"
  "bits demo_process 0x1200 = 0x1280" "bitmap_bytes_len demo_process 0x1200 = 1" "physic_addr_start demo_process 0x1200 = 0x400000"
  "bits demo_process 0x1100 = 0x1180" "bitmap_bytes_len demo_process 0x1100 = 1" "physic_addr_start demo_process 0x1100 = 0x200000"
  "PCB_PDE_addr demo_process 0x2000 = 0xC0110000" "self_kernel_stack demo_process 0x2000 = 0x2E50"
  by (simp_all add: demo_process_state_def demo_state_def GetCurrentThreadPCB_def PAGE_MASK_def demo_symbols_def
      bits_def bitmap_bytes_len_def vaddr_start_def physic_addr_start_def PCB_PDE_addr_def self_kernel_stack_def
      demo_process_def sep_def)

lemma demo_process_pools:
  "pool_inv 0x1200 0x400000 8 demo_process_state" "used_pages 0x1200 demo_process_state = {}"
  "pool_inv 0x1100 0x200000 8 demo_process_state" "used_pages 0x1100 demo_process_state = {}"
proof -
  have "\<not> bm demo_process 0x1200 j" "\<not> bm demo_process 0x1100 j" if "j < 8" for j
    using that by (simp_all add: bm_def demo_process_views) (simp_all add: demo_process_def sep_def)
  then show "pool_inv 0x1200 0x400000 8 demo_process_state" "used_pages 0x1200 demo_process_state = {}"
    "pool_inv 0x1100 0x200000 8 demo_process_state" "used_pages 0x1100 demo_process_state = {}"
    by (auto simp: pool_inv_def pool_ok_def bitmap_wf_def demo_process_views bm_size_def used_pages_def sep_def)
qed

lemma demo_process_ready: "user_page_ready demo_symbols demo_process_state USER_STACK3_VADDR 0x400000 8 0x200000 8"
proof -
  have lock: "lock_free demo_process_state 0x1210"
    by (simp add: lock_view demo_process_views) (simp add: demo_process_def sep_def)
  have "(0 :: nat) \<in> {..<8}" by simp
  then have ne: "{} \<noteq> {..<(8 :: nat)}" by blast
  have t: "\<not> table_present demo_process USER_STACK3_VADDR"
    by (simp add: table_present_def demo_process_def GetPDEPointer_def PDE_IDX_def USER_STACK3_VADDR_def sep_def)
  have ap: "mapping_apart demo_symbols demo_process 0x2000"
    by (simp add: mapping_apart_def bitmap_range_def demo_process_views sep_def)
  show ?thesis
    unfolding user_page_ready_def Let_def demo_process_views
    using lock ne t ap demo_process_pools
    by (simp add: pool_lock_def demo_process_views bitmap_wf_def bm_size_def sep_def USER_STACK3_VADDR_def PAGE_SIZE_def
        page_aligned_def PAGE_MASK_def vpn_def)
qed


end
