(* ===== verification/KernelRoom.thy ===== *)
theory KernelRoom
  imports HeapPages UserEntry
begin

text \<open>
  Requests for kernel pages (\<open>kpalloc\<close> of \<open>kernel/memory.c\<close>) that follow each other without a release in between. They
  are served from the room behind the last page in use, which \<open>kernel_room\<close> describes and every request shrinks. The
  theory also says which memory such a sequence leaves alone: objects apart from the allocator's data, and the page-table
  entries of all other pages.
\<close>

section \<open>The room behind the last kernel page in use\<close>

definition room_page :: "symbols \<Rightarrow> mem \<Rightarrow> nat \<Rightarrow> addr" where
  "room_page g m r = vaddr_start m (kernel_vaddr g) + of_nat r * PAGE_SIZE"

text \<open>
  The first \<open>r\<close> kernel pages are in use and no other; \<open>n\<close> more can be had, and their addresses are apart from the
  allocator's own data.
\<close>

definition kernel_room :: "symbols \<Rightarrow> kstate \<Rightarrow> nat \<Rightarrow> nat \<Rightarrow> u32 \<Rightarrow> nat \<Rightarrow> bool" where
  "kernel_room g s r n b cap \<longleftrightarrow>
     (let m = mem s; pv = kernel_vaddr g; l = pool_lock (kernel_memory_pool g); v = room_page g m r
      in palloc_ready g s KERNEL_POOL n r b cap \<and> (\<forall>k < bm_size m pv. bm m pv k \<longleftrightarrow> k < r)
         \<and> lock_free s l \<and> meta_apart g s KERNEL_POOL l 28 \<and> meta_apart g s KERNEL_POOL v (n * 4096) \<and> sep l 28 v (n * 4096))"

lemma kernel_pool_of [simp]:
  "memory_pool_of g KERNEL_POOL = kernel_memory_pool g" "vaddr_pool g s KERNEL_POOL = kernel_vaddr g"
  by (simp_all add: memory_pool_of_def vaddr_pool_def)

lemma first_run_bump:
  assumes "\<forall>k < sz. f k \<longleftrightarrow> k < r" "0 < i" "r + i \<le> sz"
  shows "first_run f i sz = Some r"
proof -
  have "run_free f i r" using assms(1,3) by (simp add: run_free_def)
  moreover have "\<not> run_free f i r'" if "r' < r" for r'
    using assms that unfolding run_free_def by (intro notI) (drule spec [of _ 0], simp)
  ultimately show ?thesis using assms(3) by (auto simp: first_run_Some)
qed

lemma room_bound: "palloc_ready g s KERNEL_POOL n r b cap \<Longrightarrow> r + n \<le> bm_size (mem s) (kernel_vaddr g)"
  by (auto simp: palloc_ready_def Let_def first_run_Some)

lemma palloc_ready_prefix:
  assumes R: "palloc_ready g s KERNEL_POOL (i + n) r b cap" and f: "\<forall>k < bm_size (mem s) (kernel_vaddr g). bm (mem s) (kernel_vaddr g) k \<longleftrightarrow> k < r"
    and i: "0 < i"
  shows "palloc_ready g s KERNEL_POOL i r b cap"
proof -
  have "first_run (bm (mem s) (kernel_vaddr g)) i (bm_size (mem s) (kernel_vaddr g)) = Some r"
    by (rule first_run_bump [OF f i]) (use room_bound [OF R] in simp)
  then show ?thesis using R by (simp add: palloc_ready_def Let_def heap_ready_def)
qed

text \<open>The pages from \<open>i\<close> on are still unmapped when the first \<open>i\<close> pages of a run have been mapped.\<close>

lemma heap_ready_rest:
  assumes "heap_ready m v (i + n)" "vpn v + (i + n) \<le> 0xFFC00"
    and "\<forall>w. vpn w < vpn v \<or> vpn v + i \<le> vpn w \<longrightarrow> ld32 m' (GetPTEPointer w) = ld32 m (GetPTEPointer w)"
  shows "heap_ready m' (v + of_nat i * PAGE_SIZE) n"
proof -
  have "table_present m' u \<and> page_absent m' u" if j: "j < n" "u = v + of_nat i * PAGE_SIZE + of_nat j * PAGE_SIZE" for j u
  proof -
    have u: "u = v + of_nat (i + j) * PAGE_SIZE" using j(2) by (simp add: algebra_simps)
    have "vpn u = vpn v + (i + j)" unfolding u using assms(2) j(1) by (intro vpn_add) simp
    then have "vpn v + i \<le> vpn u" "vpn v + i \<le> vpn (GetPTEPointer u)" using vpn_window [of u] assms(2) j(1) by auto
    moreover have "table_present m u" "page_absent m u"
      using assms(1) j(1) unfolding u heap_ready_def by (metis add_less_cancel_left)+
    ultimately show ?thesis using assms(3) by (simp add: table_present_def page_absent_def GetPDEPointer_PTE)
  qed
  then show ?thesis by (simp add: heap_ready_def)
qed

text \<open>The page-table entries of all pages but \<open>n\<close> pages from \<open>v\<close> on keep their values.\<close>

definition entries_kept :: "mem \<Rightarrow> mem \<Rightarrow> addr \<Rightarrow> nat \<Rightarrow> bool" where
  "entries_kept m m' v n \<longleftrightarrow>
     (\<forall>w. vpn w < vpn v \<or> vpn v + n \<le> vpn w \<longrightarrow> ld32 m' (GetPTEPointer w) = ld32 m (GetPTEPointer w))"

lemma window_pte_cong:
  assumes "eq_on m' m window 0x400000"
  shows "ld32 m' (GetPTEPointer v) = ld32 m (GetPTEPointer v)"
proof -
  have "unat (of_nat (4 * vpn v) :: u32) + 4 \<le> 0x400000"
    using vpn_bound [of v] by (subst unat_of_nat_u32) simp_all
  then show ?thesis unfolding GetPTEPointer_vpn by (intro ld32_cong eq_on_part [OF assms])
qed

lemma entries_kept_window: "eq_on m' m window 0x400000 \<Longrightarrow> entries_kept m m' v n"
  using window_pte_cong by (simp add: entries_kept_def)

lemma entries_kept_trans:
  "entries_kept m m1 v n \<Longrightarrow> entries_kept m1 m2 v' n' \<Longrightarrow> vpn v \<le> vpn v' \<Longrightarrow> vpn v' + n' \<le> vpn v + n \<Longrightarrow> entries_kept m m2 v n"
  by (simp add: entries_kept_def)

lemma entries_kept_mono:
  "entries_kept m m' v' n' \<Longrightarrow> vpn v \<le> vpn v' \<Longrightarrow> vpn v' + n' \<le> vpn v + n \<Longrightarrow> entries_kept m m' v n"
  by (simp add: entries_kept_def)

lemma entries_kept_around:
  "eq_on m1 m window 0x400000 \<Longrightarrow> entries_kept m1 m2 v n \<Longrightarrow> eq_on m3 m2 window 0x400000 \<Longrightarrow> entries_kept m m3 v n"
  using window_pte_cong by (simp add: entries_kept_def)

text \<open>Everything an allocation of \<open>n\<close> bytes at \<open>v\<close> may write.\<close>

definition alloc_regions :: "symbols \<Rightarrow> mem \<Rightarrow> addr \<Rightarrow> nat \<Rightarrow> (addr \<times> nat) list" where
  "alloc_regions g m v n =
     [bitmap_range m (kernel_vaddr g), bitmap_range m (kernel_memory_pool g), (window, 0x400000),
      (pool_lock (kernel_memory_pool g), 28), (v, n)]"

text \<open>Memory apart from all data of the allocator.\<close>

definition clear_of :: "symbols \<Rightarrow> kstate \<Rightarrow> addr \<Rightarrow> nat \<Rightarrow> bool" where
  "clear_of g s x k \<longleftrightarrow> meta_apart g s KERNEL_POOL x k \<and> sep (pool_lock (kernel_memory_pool g)) 28 x k"

lemma palloc_room:
  assumes R: "palloc_ready g s KERNEL_POOL (i + n) r b cap"
    and f: "\<forall>k < bm_size (mem s) (kernel_vaddr g). bm (mem s) (kernel_vaddr g) k \<longleftrightarrow> k < r"
    and i: "0 < i" "i < 3840" and n: "0 < n" and v: "v = room_page g (mem s) r"
  obtains m' where "palloc g s KERNEL_POOL (of_nat i) = Ok v (s\<lparr>mem := m'\<rparr>)" "palloc_frame g s KERNEL_POOL m'"
    "palloc_ready g (s\<lparr>mem := m'\<rparr>) KERNEL_POOL n (r + i) b cap"
    "\<forall>k < bm_size m' (kernel_vaddr g). bm m' (kernel_vaddr g) k \<longleftrightarrow> k < r + i"
    "room_page g m' (r + i) = v + of_nat i * PAGE_SIZE"
    "palloc_apart g (s\<lparr>mem := m'\<rparr>) KERNEL_POOL = palloc_apart g s KERNEL_POOL" "alloc_regions g m' = alloc_regions g (mem s)"
    "entries_kept (mem s) m' v i"
proof -
  let ?pv = "kernel_vaddr g" and ?p = "kernel_memory_pool g" and ?c = "of_nat i :: u32" and ?m = "mem s"
  have c: "unat ?c = i" "?c \<noteq> 0" "?c < 3840" using i by (auto simp: word_less_nat_alt unat_eq_0 [symmetric])
  have Ri: "palloc_ready g s KERNEL_POOL (unat ?c) r b cap" unfolding c(1) by (rule palloc_ready_prefix [OF R f i(1)])
  obtain "is" m' where E: "palloc g s KERNEL_POOL ?c = Ok v (s\<lparr>mem := m'\<rparr>)" "length is = i" "distinct is" "set is \<inter> used_pages ?p s = {}"
    "pool_inv ?p b cap (s\<lparr>mem := m'\<rparr>)" "used_pages ?p (s\<lparr>mem := m'\<rparr>) = used_pages ?p s \<union> set is"
    "\<forall>k < bm_size ?m ?pv. bm m' ?pv k = (r \<le> k \<and> k < r + i \<or> bm ?m ?pv k)" "palloc_frame g s KERNEL_POOL m'"
    "\<forall>w. vpn w < vpn v \<or> vpn v + i \<le> vpn w \<longrightarrow> ld32 m' (GetPTEPointer w) = ld32 ?m (GetPTEPointer w)"
    using palloc_effect [OF Ri c(2,3) refl refl, of v] v unfolding c(1) room_page_def kernel_pool_of by auto
  note P = R [unfolded palloc_ready_def Let_def kernel_pool_of, folded room_page_def, folded v]
  have "palloc_apart g s KERNEL_POOL ?pv 12" "palloc_apart g s KERNEL_POOL ?p 44"
    using P by (auto simp: palloc_apart_def pool_inv_def pool_ok_def pool_apart_def)
  note e = this [THEN palloc_frame_eq_on [OF E(8)]]
  have e8: "eq_on ?m m' ?pv 8" "eq_on ?m m' ?p 8"
    using eq_on_part [OF e(1), of 0 8] eq_on_part [OF e(2), of 0 8] by (simp_all add: eq_on_def)
  note F = bitmap_frame [OF e8(1), symmetric] bitmap_frame [OF e8(2), symmetric]
  have sz: "bm_size m' ?pv = bm_size ?m ?pv" by (simp add: bm_size_def F)
  have vs: "vaddr_start m' ?pv = vaddr_start ?m ?pv"
    using ld32_cong [OF eq_on_part [OF e(1), of 8 4]] by (simp add: vaddr_start_def)
  have rp: "room_page g m' (r + i) = v + of_nat i * PAGE_SIZE" by (simp add: room_page_def vs v algebra_simps)
  have bmk: "\<forall>k < bm_size m' ?pv. bm m' ?pv k \<longleftrightarrow> k < r + i" using E(7) f by (auto simp: sz)
  have fr: "first_run (bm m' ?pv) n (bm_size m' ?pv) = Some (r + i)"
    by (rule first_run_bump [OF bmk n]) (use room_bound [OF R] in \<open>simp add: sz\<close>)
  have fin: "finite (used_pages ?p s)" by (simp add: used_pages_def)
  have cd: "card (used_pages ?p (s\<lparr>mem := m'\<rparr>)) + n \<le> cap"
    using P E(2-4) fin by (simp add: E(6) card_Un_disjoint distinct_card Int_commute)
  have vb: "vpn v + (i + n) \<le> 0xFFC00" using P by blast
  have vn: "vpn (v + of_nat i * PAGE_SIZE) = vpn v + i" using vb by (intro vpn_add) simp
  then have nn: "v + of_nat i * PAGE_SIZE \<noteq> NULL" using i(1) by (auto simp: vpn_def)
  have al: "page_aligned (v + of_nat i * PAGE_SIZE)" using P page_aligned_add [of v i] by (simp add: add.commute)
  have hr: "heap_ready m' (v + of_nat i * PAGE_SIZE) n" by (rule heap_ready_rest [OF _ vb E(9)]) (use P in blast)
  have "palloc_ready g (s\<lparr>mem := m'\<rparr>) KERNEL_POOL n (r + i) b cap"
    unfolding palloc_ready_def Let_def kernel_pool_of kstate.simps room_page_def [symmetric]
    using P fr cd nn vn vb hr E(5) al by (simp add: F sz rp bitmap_wf_def pool_apart_def)
  moreover have "palloc_apart g (s\<lparr>mem := m'\<rparr>) KERNEL_POOL = palloc_apart g s KERNEL_POOL"
    by (intro ext) (simp add: palloc_apart_def F)
  moreover have "alloc_regions g m' = alloc_regions g (mem s)" by (intro ext) (simp add: alloc_regions_def bitmap_range_def F)
  moreover have "entries_kept (mem s) m' v i" using E(9) by (simp add: entries_kept_def)
  ultimately show thesis using that E(1,8) bmk rp by blast
qed

lemma room_frame:
  assumes R: "kernel_room g s r n b cap" and S: "meta_same g s KERNEL_POOL m'"
    and l: "eq_on m' (mem s) (pool_lock (kernel_memory_pool g)) 28"
  shows "kernel_room g (s\<lparr>mem := m'\<rparr>) r n b cap" "alloc_regions g m' = alloc_regions g (mem s)" "room_page g m' = room_page g (mem s)"
proof -
  note F = meta_fields [OF S refl refl, unfolded kernel_pool_of]
  show rp: "room_page g m' = room_page g (mem s)" by (intro ext) (simp add: room_page_def F(5))
  show "alloc_regions g m' = alloc_regions g (mem s)" by (intro ext) (simp add: alloc_regions_def bitmap_range_def F(1-4))
  show "kernel_room g (s\<lparr>mem := m'\<rparr>) r n b cap"
    using R lock_free_local [OF _ l] unfolding kernel_room_def Let_def
    by (simp add: meta_views [OF S] rp F(9,11))
qed

lemma kernel_meta_part:
  assumes "meta_apart g s KERNEL_POOL x k" "palloc_ready g s KERNEL_POOL n r b cap" "unat off + k' \<le> k" "0 < k'"
  shows "meta_apart g s KERNEL_POOL (x + off) k'"
proof (rule meta_apart_part [OF assms(1,3,4)])
  show "0 < unat (bitmap_bytes_len (mem s) (vaddr_pool g s KERNEL_POOL))" "0 < unat (bitmap_bytes_len (mem s) (memory_pool_of g KERNEL_POOL))"
    using assms(2) by (auto simp: palloc_ready_def Let_def pool_apart_def)
qed

lemma palloc_frame_changes:
  "palloc_frame g s KERNEL_POOL m' \<Longrightarrow>
     changes_in (mem s) m' [bitmap_range (mem s) (kernel_vaddr g), bitmap_range (mem s) (kernel_memory_pool g), (window, 0x400000)]"
  by (simp add: palloc_frame_def changes_in_def bitmap_range_def)

lemma kpalloc_room:
  assumes R: "kernel_room g s r (i + n) b cap" and i: "0 < i" "i < 3840" and n: "0 < n" and v: "v = room_page g (mem s) r"
  obtains m' where "kpalloc g s (of_nat i) = Ok v (s\<lparr>mem := m'\<rparr>)" "kernel_room g (s\<lparr>mem := m'\<rparr>) (r + i) n b cap"
    "zeroed m' v (i * 4096)" "v \<noteq> NULL" "room_page g m' (r + i) = v + of_nat i * PAGE_SIZE"
    "changes_in (mem s) m' (alloc_regions g (mem s) v (i * 4096))" "clear_of g (s\<lparr>mem := m'\<rparr>) = clear_of g s"
    "alloc_regions g m' = alloc_regions g (mem s)" "entries_kept (mem s) m' v i"
proof -
  let ?l = "pool_lock (kernel_memory_pool g)" and ?pv = "kernel_vaddr g" and ?k = "i * 4096" and ?KP = KERNEL_POOL
  have K: "palloc_ready g s ?KP (i + n) r b cap" "\<forall>k < bm_size (mem s) ?pv. bm (mem s) ?pv k \<longleftrightarrow> k < r" "lock_free s ?l"
    "meta_apart g s ?KP ?l 28" "meta_apart g s ?KP v ((i + n) * 4096)" "sep ?l 28 v ((i + n) * 4096)"
    using R by (simp_all add: kernel_room_def Let_def v)
  have V: "v \<noteq> NULL" "vpn v + (i + n) \<le> 0xFFC00" using K(1) by (simp_all add: palloc_ready_def Let_def v room_page_def)
  have k: "unat (of_nat i * PAGE_SIZE :: u32) = ?k" "?k < 2 ^ 32" "unat (of_nat i :: u32) = i"
    using i(2) by (simp_all add: unat_mult_lt)
  obtain m0 where m0: "sys_lock_lock g s ?l = Ok () (s\<lparr>mem := m0\<rparr>)" "lock_held (s\<lparr>mem := m0\<rparr>) ?l" "only_in (mem s) m0 ?l 28"
    using lk.lock [OF K(3)] by blast
  let ?s0 = "s\<lparr>mem := m0\<rparr>"
  note S0 = meta_apart_same [OF K(4) m0(3)]
  note V0 = meta_views [OF S0] and F0 = meta_fields [OF S0 refl refl, unfolded kernel_pool_of]
  have v0: "v = room_page g (mem ?s0) r" by (simp add: room_page_def F0(5) v)
  obtain m1 where m1: "palloc g ?s0 ?KP (of_nat i) = Ok v (s\<lparr>mem := m1\<rparr>)" "palloc_frame g ?s0 ?KP m1"
    "palloc_ready g (s\<lparr>mem := m1\<rparr>) ?KP n (r + i) b cap" "\<forall>k < bm_size m1 ?pv. bm m1 ?pv k \<longleftrightarrow> k < r + i"
    "room_page g m1 (r + i) = v + of_nat i * PAGE_SIZE" "palloc_apart g (s\<lparr>mem := m1\<rparr>) ?KP = palloc_apart g ?s0 ?KP"
    "alloc_regions g m1 = alloc_regions g (mem ?s0)" "entries_kept m0 m1 v i"
    by (rule palloc_room [of g ?s0 i n r b cap v]) (use K(1,2) i n v0 V0(7) F0(9,11) that in simp_all)
  let ?s1 = "s\<lparr>mem := m1\<rparr>"
  have ma: "meta_apart g ?s1 ?KP x j = meta_apart g s ?KP x j" for x j
    using V0(5) m1(6) by (simp add: meta_apart_def)
  have "eq_on m1 m0 ?l 28"
    using palloc_frame_eq_on [OF m1(2)] K(4) V0(4) by (simp add: meta_apart_def)
  then have "lock_held ?s1 ?l" using lk.held_local [OF m0(2), of m1] by simp
  then obtain m2 where m2: "sys_lock_unlock g ?s1 ?l = Ok () (s\<lparr>mem := m2\<rparr>)" "lock_free (s\<lparr>mem := m2\<rparr>) ?l" "only_in m1 m2 ?l 28"
    using lk.unlock [of ?s1] by auto
  define m3 where "m3 = memset_loop ?k m2 v 0"
  have o3: "only_in m2 m3 v ?k" unfolding m3_def by (rule memset_loop_only_in [OF k(2)])
  have vk: "meta_apart g s ?KP v ?k" "meta_apart g s ?KP (v + of_nat i * PAGE_SIZE) (n * 4096)"
    "sep ?l 28 v ?k" "sep ?l 28 (v + of_nat i * PAGE_SIZE) (n * 4096)"
    using kernel_meta_part [OF K(5,1), of 0 ?k] kernel_meta_part [OF K(5,1), of "of_nat i * PAGE_SIZE" "n * 4096"]
      sep_offset_right [OF K(6), of 0 ?k] sep_offset_right [OF K(6), of "of_nat i * PAGE_SIZE" "n * 4096"] i(1) n k(1)
    by (simp_all add: algebra_simps)
  have S2: "meta_same g ?s1 ?KP m2" using meta_apart_same [of g ?s1 ?KP ?l 28 m2] K(4) ma m2(3) by simp
  note V2 = meta_views [OF S2, unfolded kstate.simps]
  have S3: "meta_same g (s\<lparr>mem := m2\<rparr>) ?KP m3"
    using meta_apart_same [of g "s\<lparr>mem := m2\<rparr>" ?KP v ?k m3] vk(1) ma V2(5) o3 by simp
  note V3 = meta_views [OF S3, unfolded kstate.simps]
  note F2 = meta_fields [OF S2 refl refl, unfolded kernel_pool_of kstate.simps] and F3 = meta_fields [OF S3 refl refl, unfolded kernel_pool_of kstate.simps]
  show thesis
  proof (rule that [of m3])
    show "clear_of g (s\<lparr>mem := m3\<rparr>) = clear_of g s" using ma V2(5) V3(5) by (intro ext) (simp add: clear_of_def)
    show "alloc_regions g m3 = alloc_regions g (mem s)"
      using m1(7) by (intro ext) (simp add: alloc_regions_def bitmap_range_def F0(1-4) F2(1-4) F3(1-4) fun_eq_iff)
    show "kpalloc g s (of_nat i) = Ok v (s\<lparr>mem := m3\<rparr>)"
      using m0(1) m1(1) m2(1) V(1) k(1) by (simp add: kpalloc_def locked_palloc_def memset_def m3_def)
    show "zeroed m3 v ?k" using k(2) by (simp add: zeroed_def m3_def memset_loop_byte)
    have rp: "room_page g m3 (r + i) = v + of_nat i * PAGE_SIZE" using m1(5) F2(5) F3(5) by (simp add: room_page_def)
    then show "room_page g m3 (r + i) = v + of_nat i * PAGE_SIZE" .
    have "lock_free (s\<lparr>mem := m3\<rparr>) ?l"
      using lock_free_local [OF m2(2), of m3] only_in_sep [OF o3 sep_sym [OF vk(3)]] by simp
    then show "kernel_room g (s\<lparr>mem := m3\<rparr>) (r + i) n b cap"
      using m1(3,4) K(4) vk(2,4) ma V2(5,7) V3(5,7) F2(9,11) F3(9,11) rp unfolding kernel_room_def Let_def by simp
    have "changes_in m0 m1 [bitmap_range (mem s) ?pv, bitmap_range (mem s) (kernel_memory_pool g), (window, 0x400000)]"
      using palloc_frame_changes [OF m1(2)] by (simp add: bitmap_range_def F0(1-4))
    from changes_in_trans [OF changes_in_trans [OF changes_in_trans [OF changes_in_only [OF m0(3)] this] changes_in_only [OF m2(3)]]
        changes_in_only [OF o3]]
    show "changes_in (mem s) m3 (alloc_regions g (mem s) v ?k)"
      by (rule changes_in_mono) (simp add: alloc_regions_def)
    have W: "eq_on m0 (mem s) window 0x400000" "eq_on m2 m1 window 0x400000" "eq_on m3 m2 window 0x400000"
      using S0 S2 S3 by (simp_all add: meta_same_def Let_def)
    note e = W [THEN entries_kept_window, where v = v and n = i]
    show "entries_kept (mem s) m3 v i"
      using entries_kept_trans [OF entries_kept_trans [OF entries_kept_trans [OF e(1) m1(8)] e(2)] e(3)] by simp
  qed (fact V(1))
qed

section \<open>Memory the allocator does not use\<close>

lemma room_kept:
  assumes R: "kernel_room g s r n b cap" and E: "\<forall>x k. 0 < k \<and> (\<forall>(a, j) \<in> RS. sep a j x k) \<longrightarrow> eq_on m' (mem s) x k"
    and C: "\<forall>(a, j) \<in> RS. clear_of g s a j"
  shows "kernel_room g (s\<lparr>mem := m'\<rparr>) r n b cap" "alloc_regions g m' = alloc_regions g (mem s)"
    "room_page g m' = room_page g (mem s)" "clear_of g (s\<lparr>mem := m'\<rparr>) = clear_of g s" "eq_on m' (mem s) window 0x400000"
proof -
  have "0 < unat (bitmap_bytes_len (mem s) (kernel_vaddr g))" "0 < unat (bitmap_bytes_len (mem s) (kernel_memory_pool g))"
    using R by (auto simp: kernel_room_def palloc_ready_def Let_def pool_apart_def)
  moreover have e: "eq_on m' (mem s) x k" if "\<forall>(a, j) \<in> RS. sep x k a j" "0 < k" for x k
    using E that sep_sym by fast
  ultimately have S: "meta_same g s KERNEL_POOL m'"
    unfolding meta_same_def Let_def using C by (auto intro!: e simp: clear_of_def meta_apart_def palloc_apart_def)
  then show "eq_on m' (mem s) window 0x400000" by (simp add: meta_same_def Let_def)
  have "eq_on m' (mem s) (pool_lock (kernel_memory_pool g)) 28" by (rule e) (use C in \<open>auto simp: clear_of_def\<close>)
  note F = room_frame [OF R S this]
  show "kernel_room g (s\<lparr>mem := m'\<rparr>) r n b cap" "alloc_regions g m' = alloc_regions g (mem s)" "room_page g m' = room_page g (mem s)"
    by (fact F)+
  show "clear_of g (s\<lparr>mem := m'\<rparr>) = clear_of g s" by (intro ext) (simp add: clear_of_def meta_views [OF S])
qed

lemma room_changes:
  assumes R: "kernel_room g s r n b cap" and C: "changes_in (mem s) m' rs" "\<forall>(a, k) \<in> set rs. clear_of g s a k"
  shows "kernel_room g (s\<lparr>mem := m'\<rparr>) r n b cap" "alloc_regions g m' = alloc_regions g (mem s)"
    "room_page g m' = room_page g (mem s)" "clear_of g (s\<lparr>mem := m'\<rparr>) = clear_of g s" "eq_on m' (mem s) window 0x400000"
proof -
  have "\<forall>x k. 0 < k \<and> (\<forall>(a, j) \<in> set rs. sep a j x k) \<longrightarrow> eq_on m' (mem s) x k"
    using changes_in_eq_on [OF C(1)] by blast
  note K = room_kept [OF R this C(2)]
  show "kernel_room g (s\<lparr>mem := m'\<rparr>) r n b cap" "alloc_regions g m' = alloc_regions g (mem s)"
    "room_page g m' = room_page g (mem s)" "clear_of g (s\<lparr>mem := m'\<rparr>) = clear_of g s" "eq_on m' (mem s) window 0x400000" by (fact K)+
qed

lemma alloc_eq_on_more:
  assumes "changes_in (mem s) m' (alloc_regions g (mem s) v k @ rs)" "clear_of g s x j" "sep v k x j" "\<forall>(a, i) \<in> set rs. sep a i x j"
  shows "eq_on m' (mem s) x j"
  by (rule changes_in_eq_on [OF assms(1)])
    (use assms(2-4) in \<open>auto simp: alloc_regions_def bitmap_range_def clear_of_def meta_apart_def palloc_apart_def\<close>)

lemmas alloc_eq_on = alloc_eq_on_more [where rs = "[]", simplified]

lemma clear_of_part:
  assumes "clear_of g s x k" "kernel_room g s' r n b cap" "s = s'" "unat off + k' \<le> k" "0 < k'"
  shows "clear_of g s (x + off) k'"
  using assms kernel_meta_part [of g s x k n r b cap off k'] sep_offset_right [of _ 28 x k off k']
  by (auto simp: clear_of_def kernel_room_def Let_def)

lemma room_clear: "kernel_room g s r n b cap \<Longrightarrow> clear_of g s (room_page g (mem s) r) (n * 4096)"
  by (simp add: kernel_room_def clear_of_def Let_def)

lemma room_ready: "kernel_room g s r n b cap \<Longrightarrow> kpalloc_ready g s n (room_page g (mem s) r)"
  unfolding kernel_room_def kpalloc_ready_def Let_def
  by (auto simp: meta_apart_def room_page_def sep_commute)

text \<open>Only memory and the stack pointer, which tells the running thread, matter.\<close>

lemma room_state:
  assumes "mem s' = mem s" "esp s' = esp s"
  shows "kernel_room g s' r n b cap = kernel_room g s r n b cap" "clear_of g s' = clear_of g s"
proof -
  have m: "meta_apart g s' KERNEL_POOL x j = meta_apart g s KERNEL_POOL x j" for x j
    by (simp add: meta_apart_def palloc_apart_def assms)
  then show "clear_of g s' = clear_of g s" by (intro ext) (simp add: clear_of_def)
  have "palloc_ready g s' KERNEL_POOL n r b cap = palloc_ready g s KERNEL_POOL n r b cap"
    by (simp add: palloc_ready_def Let_def pool_inv_def used_pages_def assms)
  then show "kernel_room g s' r n b cap = kernel_room g s r n b cap"
    by (simp add: kernel_room_def Let_def m lock_view GetCurrentThreadPCB_def assms)
qed

lemma room_registers [simp]:
  "kernel_room g (s\<lparr>next_pid := k\<rparr>) r n b cap = kernel_room g s r n b cap" "clear_of g (s\<lparr>next_pid := k\<rparr>) = clear_of g s"
  "kernel_room g (s\<lparr>eflags := e\<rparr>) r n b cap = kernel_room g s r n b cap" "clear_of g (s\<lparr>eflags := e\<rparr>) = clear_of g s"
  by (rule room_state; simp)+

lemma room_prefix:
  assumes "kernel_room g s r (i + n) b cap" "0 < i"
  shows "kernel_room g s r i b cap"
proof -
  let ?v = "room_page g (mem s) r"
  have K: "palloc_ready g s KERNEL_POOL (i + n) r b cap" "\<forall>k < bm_size (mem s) (kernel_vaddr g). bm (mem s) (kernel_vaddr g) k \<longleftrightarrow> k < r"
    "meta_apart g s KERNEL_POOL ?v ((i + n) * 4096)" "sep (pool_lock (kernel_memory_pool g)) 28 ?v ((i + n) * 4096)"
    using assms(1) by (simp_all add: kernel_room_def Let_def)
  have "meta_apart g s KERNEL_POOL ?v (i * 4096)" "sep (pool_lock (kernel_memory_pool g)) 28 ?v (i * 4096)"
    using kernel_meta_part [OF K(3,1), of 0 "i * 4096"] sep_offset_right [OF K(4), of 0 "i * 4096"] assms(2) by simp_all
  then show ?thesis using assms palloc_ready_prefix [OF K(1,2) assms(2)] by (simp add: kernel_room_def Let_def)
qed

text \<open>Where the pages of the room are.\<close>

lemma room_start:
  assumes "kernel_room g s r n b cap" "v = room_page g (mem s) r"
  shows "page_aligned v" "v \<noteq> NULL" "vpn v + n \<le> 0xFFC00"
  using assms by (auto simp: kernel_room_def palloc_ready_def room_page_def Let_def)

lemma room_vpn:
  assumes "kernel_room g s r n b cap" "v = room_page g (mem s) r" "i \<le> n"
  shows "vpn (v + of_nat i * PAGE_SIZE) = vpn v + i"
  using room_start(3) [OF assms(1,2)] assms(3) by (intro vpn_add) simp

lemma room_rest_sep:
  assumes "kernel_room g s r (i + n) b cap" "0 < i"
  shows "sep (v + of_nat i * PAGE_SIZE) (n * 4096) v (i * 4096)"
proof -
  have b: "i + n \<le> 0xFFC00" using room_start(3) [OF assms(1) refl] by simp
  then have u: "unat (of_nat i * PAGE_SIZE :: u32) = i * 4096" by (intro unat_pages) simp
  moreover from this have "(of_nat i * PAGE_SIZE :: u32) \<noteq> 0" using assms(2) by (auto simp: unat_eq_0 [symmetric])
  ultimately show ?thesis using b by (simp only: sep_fields unat_minus_u32) simp
qed

end
