(* ===== verification/Spawn.thy ===== *)
theory Spawn
  imports KernelRoom
begin

text \<open>
  A new user process (\<open>ExecProcess\<close> of \<open>userprog/process.c\<close>) from its parts: a page for the PCB, the bitmap of the
  process's virtual pages, the first stack frame, the page directory, the arena descriptors, and the lists of
  the scheduler. What is left of the room for pages serves the next process or thread.
\<close>

section \<open>The bitmap of the user pages\<close>

lemma user_bitmap_size:
  "(0xC0000000 - USER_VADDR_START) div PAGE_SIZE div 8 = 94199"
  "DIV_ROUND_UP 94199 PAGE_SIZE = 23"
  by (simp_all add: USER_VADDR_START_def PAGE_SIZE_def DIV_ROUND_UP_def)

lemma CreatUserVaddrBitmap_effect:
  fixes p :: addr
  assumes R: "kernel_room g s r (23 + n) b cap" and n: "0 < n" and v: "v = room_page g (mem s) r"
    and p: "clear_of g s (p + 52) 12" "sep v (23 * 4096) (p + 52) 12"
  obtains m' where "CreatUserVaddrBitmap g s p = Ok () (s\<lparr>mem := m'\<rparr>)" "kernel_room g (s\<lparr>mem := m'\<rparr>) (r + 23) n b cap"
    "vaddr_start m' (p + 52) = USER_VADDR_START" "bits m' (p + 52) = v" "bitmap_bytes_len m' (p + 52) = 94199" "zeroed m' v 94199"
    "room_page g m' (r + 23) = v + of_nat 23 * PAGE_SIZE"
    "changes_in (mem s) m' (alloc_regions g (mem s) v (23 * 4096) @ [(p + 52, 12)])" "clear_of g (s\<lparr>mem := m'\<rparr>) = clear_of g s"
    "alloc_regions g m' = alloc_regions g (mem s)" "entries_kept (mem s) m' v 23"
proof -
  define m1 where "m1 = st32 (mem s) (p + 60) USER_VADDR_START"
  have f: "only_in m (st32 m (p + 52 + off) x) (p + 52) 12" if "unat off + 4 \<le> 12" for m off x
    by (rule only_in_field(1) [OF that])
  have o1: "only_in (mem s) m1 (p + 52) 12" using f [of 8 "mem s"] by (simp add: m1_def add.assoc)
  note K1 = room_changes [OF R changes_in_only [OF o1]]
  have c1: "\<forall>(a, k) \<in> set [(p + 52, 12)]. clear_of g s a k" using p(1) by simp
  obtain m2 where m2: "kpalloc g (s\<lparr>mem := m1\<rparr>) (of_nat 23) = Ok v (s\<lparr>mem := m2\<rparr>)" "kernel_room g (s\<lparr>mem := m2\<rparr>) (r + 23) n b cap"
    "zeroed m2 v (23 * 4096)" "v \<noteq> NULL" "room_page g m2 (r + 23) = v + of_nat 23 * PAGE_SIZE"
    "changes_in m1 m2 (alloc_regions g (mem s) v (23 * 4096))" "clear_of g (s\<lparr>mem := m2\<rparr>) = clear_of g s"
    "alloc_regions g m2 = alloc_regions g (mem s)" "entries_kept m1 m2 v 23"
    by (rule kpalloc_room [OF K1(1) [OF c1], where v = v]) (use n K1(2-4) [OF c1] v that in simp_all)
  have e2: "eq_on m2 m1 (p + 52) 12"
    using alloc_eq_on [of "s\<lparr>mem := m1\<rparr>" m2 g v "23 * 4096" "p + 52" 12] m2(6) K1(2,4) [OF c1] p by simp
  define m4 where "m4 = st32 (st32 m2 (p + 56) v) (p + 52) 94199"
  have o4: "only_in m2 m4 (p + 52) 12"
    using only_in_trans [OF f [of 4 m2] f [of 0]] by (simp add: m4_def add.assoc)
  define m5 where "m5 = memset_loop 94199 m4 v 0"
  have o5: "only_in m4 m5 v 94199" unfolding m5_def by (rule memset_loop_only_in) simp
  have sv: "sep v 94199 (p + 52) 12" using sep_offset_left [OF p(2), of 0 94199] by simp
  have "only_in m4 m5 v (23 * 4096)" using only_in_part [of m4 m5 v 0 94199 "23 * 4096"] o5 by simp
  from changes_in_trans [OF changes_in_only [OF o4] changes_in_only [OF this]]
  have C: "changes_in (mem (s\<lparr>mem := m2\<rparr>)) m5 [(p + 52, 12), (v, 23 * 4096)]" by simp
  have cv: "clear_of g s v (23 * 4096)"
    using clear_of_part [OF room_clear [OF R] R refl, of 0 "23 * 4096"] n by (simp add: v)
  have c5: "\<forall>(a, k) \<in> set [(p + 52, 12), (v, 23 * 4096)]. clear_of g (s\<lparr>mem := m2\<rparr>) a k" using p(1) cv m2(7) by simp
  note K5 = room_changes [OF m2(2) C c5]
  have w: "ld32 m5 (p + 52 + off) = ld32 m4 (p + 52 + off)" if "unat off + 4 \<le> 12" for off
    by (rule ld32_cong [OF eq_on_part [OF only_in_sep [OF o5 sv] that]])
  show thesis
  proof (rule that [of m5])
    have b4: "bits m4 (p + 52) = v" by (simp add: bits_def m4_def add.assoc)
    show "CreatUserVaddrBitmap g s p = Ok () (s\<lparr>mem := m5\<rparr>)"
      using m2(1,4) b4 by (simp add: CreatUserVaddrBitmap_def user_bitmap_size BitmapInit_def memset_def m1_def m4_def m5_def put32_def
          Let_def bits_def bitmap_bytes_len_def add.assoc)
    show "vaddr_start m5 (p + 52) = USER_VADDR_START"
    proof -
      have "ld32 m4 (p + 60) = ld32 m2 (p + 60)" by (simp add: m4_def)
      also have "\<dots> = ld32 m1 (p + 60)" using ld32_cong [OF eq_on_part [OF e2, of 8 4]] by (simp add: add.assoc)
      finally show ?thesis using w [of 8] by (simp add: vaddr_start_def m1_def add.assoc)
    qed
    show "bits m5 (p + 52) = v" "bitmap_bytes_len m5 (p + 52) = 94199"
      using w [of 4] w [of 0] by (simp_all add: bits_def bitmap_bytes_len_def m4_def add.assoc)
    show "zeroed m5 v 94199" by (simp add: zeroed_def m5_def memset_loop_byte)
    have "changes_in m2 m5 [(p + 52, 12), (v, 23 * 4096)]" using C by simp
    from changes_in_trans [OF changes_in_trans [OF changes_in_only [OF o1] m2(6)] this]
    show "changes_in (mem s) m5 (alloc_regions g (mem s) v (23 * 4096) @ [(p + 52, 12)])"
      by (rule changes_in_mono) (auto simp: alloc_regions_def)
    show "entries_kept (mem s) m5 v 23"
      using entries_kept_around [OF K1(5) [OF c1] m2(9)] K5(5) by simp
  qed (use K5 m2(5,7,8) in simp_all)
qed

section \<open>Room for processes and threads\<close>

text \<open>
  What the creation of processes and threads needs: \<open>n\<close> kernel pages, and that the objects the code touches are apart from
  them, from the allocator's data and from the lock of the process numbers. The set \<open>os\<close> holds other objects, apart from
  the lists and the PCBs: the names of the threads and the private pages of the processes that exist.
\<close>

definition exec_apart :: "symbols \<Rightarrow> kstate \<Rightarrow> addr \<Rightarrow> nat \<Rightarrow> addr \<Rightarrow> nat \<Rightarrow> bool" where
  "exec_apart g s p n x k \<longleftrightarrow> 0 < k \<and> clear_of g s x k \<and> sep p (n * 4096) x k \<and> sep (pid_lock g) 28 x k"

definition list_regions :: "symbols \<Rightarrow> addr set \<Rightarrow> (addr \<times> nat) set" where
  "list_regions g ts = {(ready_thread_list g, 16), (all_thread_list g, 16)} \<union> (\<lambda>q. (q, 4096)) ` ts"

definition exec_room :: "symbols \<Rightarrow> kstate \<Rightarrow> addr set \<Rightarrow> nat \<Rightarrow> nat \<Rightarrow> u32 \<Rightarrow> nat \<Rightarrow> (addr \<times> nat) set \<Rightarrow> bool" where
  "exec_room g s ts r n b cap os \<longleftrightarrow>
     (let p = room_page g (mem s) r
      in kernel_room g s r n b cap \<and> clear_of g s (pid_lock g) 28 \<and> sep p (n * 4096) (pid_lock g) 28
         \<and> sep p (n * 4096) (sym_tss g) 108
         \<and> (\<forall>(x, k) \<in> list_regions g ts \<union> os. exec_apart g s p n x k)
         \<and> (\<forall>(x, k) \<in> os. \<forall>(y, j) \<in> list_regions g ts. sep y j x k))"

lemma exec_room_page:
  assumes R: "exec_room g s ts r n b cap os" and l: "layout g ts" and n: "0 < n" and p: "p = room_page g (mem s) r"
  shows "p \<notin> ts" "layout g (insert p ts)" "clear_of g s p (n * 4096)" "sep p (n * 4096) (pid_lock g) 28"
proof -
  have K: "kernel_room g s r n b cap" "sep p (n * 4096) (sym_tss g) 108" "sep p (n * 4096) (ready_thread_list g) 16"
    "\<And>q. q \<in> ts \<Longrightarrow> sep p (n * 4096) q 4096"
    using R by (auto simp: exec_room_def Let_def p list_regions_def exec_apart_def)
  show "sep p (n * 4096) (pid_lock g) 28" using R by (simp add: exec_room_def Let_def p)
  have n4: "4096 \<le> n * 4096" using n by simp
  show "p \<notin> ts"
  proof
    assume "p \<in> ts"
    from K(4) [OF this] show False using n by (simp add: sep_def)
  qed
  have "sep x k p 4096" if "sep p (n * 4096) x k" "0 < k" for x k
    using sep_sym [OF sep_offset_left [OF that(1), of 0 4096]] n4 that(2) by simp
  then show "layout g (insert p ts)" using l K(2,3) room_start [OF K(1) p] by (simp add: layout_def)
  show "clear_of g s p (n * 4096)" using room_clear [OF K(1)] by (simp add: p)
qed

text \<open>The room that is left when the first \<open>i\<close> pages are in use, the first of them as a PCB.\<close>

lemma exec_room_next:
  assumes R: "exec_room g s ts r (i + n) b cap os" and i: "0 < i" "0 < n" and p: "p = room_page g (mem s) r"
    and K: "kernel_room g s' (r + i) n b cap" "room_page g (mem s') (r + i) = p + of_nat i * PAGE_SIZE" "clear_of g s' = clear_of g s"
    and os: "\<forall>(x, k) \<in> os. sep p 4096 x k"
  shows "exec_room g s' (insert p ts) (r + i) n b cap os"
proof -
  let ?d = "p + of_nat i * PAGE_SIZE"
  have X: "kernel_room g s r (i + n) b cap" "clear_of g s (pid_lock g) 28" "sep p ((i + n) * 4096) (pid_lock g) 28"
    "sep p ((i + n) * 4096) (sym_tss g) 108" "\<And>x k. (x, k) \<in> list_regions g ts \<union> os \<Longrightarrow> exec_apart g s p (i + n) x k"
    "\<And>x k y j. (x, k) \<in> os \<Longrightarrow> (y, j) \<in> list_regions g ts \<Longrightarrow> sep y j x k"
    using R by (auto simp: exec_room_def Let_def p)
  have b: "i + n \<le> 0xFFC00" using room_start(3) [OF X(1) refl] by simp
  have u: "unat (of_nat i * PAGE_SIZE :: u32) = i * 4096" using b by (intro unat_pages) simp
  have mv: "sep ?d (n * 4096) x k" if "sep p ((i + n) * 4096) x k" "0 < k" for x k
    by (rule sep_offset_left [OF that(1)]) (use u i that(2) in simp_all)
  have ap: "exec_apart g s' ?d n x k" if "exec_apart g s p (i + n) x k" for x k
    using that mv by (simp add: exec_apart_def K(3))
  have c: "clear_of g s p 4096"
    using clear_of_part [OF room_clear [OF X(1)] X(1) refl, of 0 4096] i by (simp add: p)
  have "sep ?d (n * 4096) p 4096" using sep_offset_right [OF room_rest_sep [OF X(1) i(1)], of 0 4096] i by simp
  moreover have "sep (pid_lock g) 28 p 4096" using sep_sym [OF sep_offset_left [OF X(3), of 0 4096]] i(1) by simp
  ultimately have "exec_apart g s' ?d n p 4096" using c by (simp add: exec_apart_def K(3))
  then show ?thesis
    using K X(2) mv [OF X(3)] mv [OF X(4)] ap [OF X(5)] X(6) os by (auto simp: exec_room_def Let_def list_regions_def)
qed

lemma exec_room_object:
  assumes "exec_room g s ts r n b cap os" "exec_apart g s (room_page g (mem s) r) n x k" "\<forall>(y, j) \<in> list_regions g ts. sep y j x k"
  shows "exec_room g s ts r n b cap (insert (x, k) os)"
  using assms by (auto simp: exec_room_def Let_def)


section \<open>Preparing the process\<close>

lemma exec_pcb:
  assumes room: "exec_room g s ts r (1 + n) b cap os" "0 < n" "layout g ts" and p: "p = room_page g (mem s) r"
    and name: "cstr (mem s) name xs" "length xs \<le> 15" "name \<noteq> NULL" "(name, Suc (length xs)) \<in> os"
    and l: "lock_free s (pid_lock g)" and mt: "main_thread s \<in> ts"
  obtains m1 m' where "kpalloc g s 1 = Ok p (s\<lparr>mem := m1\<rparr>)"
    "InitThread g (s\<lparr>mem := m1\<rparr>) p name priority = Ok () (s\<lparr>mem := m', next_pid := next_pid s + 1\<rparr>)"
    "fresh_pcb m' p (next_pid s + 1) xs TASK_READY (ucast priority)" "lock_free (s\<lparr>mem := m', next_pid := next_pid s + 1\<rparr>) (pid_lock g)"
    "kernel_room g (s\<lparr>mem := m'\<rparr>) (r + 1) n b cap" "room_page g m' (r + 1) = p + PAGE_SIZE" "clear_of g (s\<lparr>mem := m'\<rparr>) = clear_of g s"
    "entries_kept (mem s) m' p 1" "\<forall>x k. exec_apart g s p (1 + n) x k \<longrightarrow> eq_on m' (mem s) x k"
proof -
  let ?l = "pid_lock g" and ?np = "next_pid s + 1" and ?k = "Suc (length xs)" and ?N = "(1 + n) * 4096"
  note P = exec_room_page [OF room(1,3) _ p]
  have X: "kernel_room g s r (1 + n) b cap" "clear_of g s ?l 28" "sep p ?N ?l 28" "p \<notin> ts" "exec_apart g s p (1 + n) name ?k"
    "page_aligned p" "p \<noteq> NULL" "clear_of g s p ?N"
    using room(1) name(4) P by (auto simp: exec_room_def Let_def p layout_def)
  have sp: "sep p j x k" if "sep p ?N x k" "0 < k" "0 < j" "j \<le> 4096" for x k j
    using sep_offset_left [OF that(1), of 0 j] that by simp
  obtain m1 where K: "kpalloc g s 1 = Ok p (s\<lparr>mem := m1\<rparr>)" "kernel_room g (s\<lparr>mem := m1\<rparr>) (r + 1) n b cap"
    "room_page g m1 (r + 1) = p + PAGE_SIZE" "changes_in (mem s) m1 (alloc_regions g (mem s) p 4096)" "clear_of g (s\<lparr>mem := m1\<rparr>) = clear_of g s"
    "entries_kept (mem s) m1 p 1"
    by (rule kpalloc_room [OF X(1), where v = p]) (use p room(2) that in simp_all)
  have e1: "eq_on m1 (mem s) x k" if "clear_of g s x k" "sep p ?N x k" "0 < k" for x k
    by (rule alloc_eq_on [OF K(4) that(1)]) (use sp that in simp)
  have nm: "p + off_name \<noteq> NULL"
  proof
    assume "p + off_name = NULL"
    moreover have "(p + off_name) AND PAGE_MASK = p" by (rule page_of_offset [OF X(6)]) simp
    ultimately show False using X(7) by simp
  qed
  have N: "clear_of g s name ?k" "sep p ?N name ?k" "sep ?l 28 name ?k" using X(5) by (simp_all add: exec_apart_def)
  have l1: "lock_free (s\<lparr>mem := m1\<rparr>) ?l" by (rule lock_free_local [OF l e1 [OF X(2,3)]]) simp
  have n1: "cstr (mem (s\<lparr>mem := m1\<rparr>)) name xs" using cstr_cong [OF e1 [OF N(1,2)]] name(1) by simp
  obtain m' where I: "InitThread g (s\<lparr>mem := m1\<rparr>) p name priority = Ok () (s\<lparr>mem := m', next_pid := ?np\<rparr>)"
    "fresh_pcb m' p ?np xs (if p = main_thread s then TASK_RUNNING else TASK_READY) (ucast priority)"
    "\<forall>y. \<not> inr y p 236 \<and> \<not> inr y ?l 28 \<longrightarrow> m' y = m1 y" "lock_free (s\<lparr>mem := m', next_pid := ?np\<rparr>) ?l"
    using InitThread_effect [OF X(7) nm sp [OF X(3)] l1 n1 name(2,3) sp [OF N(2)] N(3), of priority] by auto
  have C: "changes_in (mem (s\<lparr>mem := m1\<rparr>)) m' [(p, 236), (?l, 28)]" using I(3) by (simp add: changes_in_def)
  have "clear_of g s p 236" using clear_of_part [OF X(8,1) refl, of 0 236] by simp
  then have c: "\<forall>(a, k) \<in> set [(p, 236), (?l, 28)]. clear_of g (s\<lparr>mem := m1\<rparr>) a k" using X(2) K(5) by simp
  note R = room_changes [OF K(2) C c]
  have "p \<noteq> main_thread s" using mt X(4) by auto
  moreover have "eq_on m' (mem s) x k" if "exec_apart g s p (1 + n) x k" for x k
  proof -
    have "eq_on m' (mem (s\<lparr>mem := m1\<rparr>)) x k"
      by (rule changes_in_eq_on [OF C]) (use that sp [of x k 236] in \<open>simp add: exec_apart_def\<close>)
    then show ?thesis using e1 [of x k] that by (simp add: exec_apart_def eq_on_def)
  qed
  moreover have "entries_kept (mem s) m' p 1" using entries_kept_around [OF _ K(6), of "mem s" m'] R(5) by (simp add: eq_on_def)
  ultimately show thesis using that [OF K(1) I(1)] I(2,4) R K(3,5) by simp
qed

text \<open>The bitmap of the user pages in the 23 pages behind the PCB, and the first stack frame.\<close>

lemma exec_frame:
  fixes p :: addr
  assumes R: "kernel_room g t r (23 + n) b cap" "0 < n" "room_page g (mem t) r = p + PAGE_SIZE" and k: "self_kernel_stack (mem t) p = p + PAGE_SIZE"
    and c: "clear_of g t p 4096"
  obtains m3 m' where "CreatUserVaddrBitmap g t p = Ok () (t\<lparr>mem := m3\<rparr>)" "ThreadCreate g (t\<lparr>mem := m3\<rparr>) p f arg = t\<lparr>mem := m'\<rparr>"
    "self_kernel_stack m' p = p + 3664" "first_frame g m' (p + 3664) f arg"
    "vaddr_start m' (p + 52) = USER_VADDR_START" "bits m' (p + 52) = p + PAGE_SIZE" "bitmap_bytes_len m' (p + 52) = 94199"
    "zeroed m' (p + PAGE_SIZE) 94199"
    "kernel_room g (t\<lparr>mem := m'\<rparr>) (r + 23) n b cap" "room_page g m' (r + 23) = p + 24 * PAGE_SIZE" "clear_of g (t\<lparr>mem := m'\<rparr>) = clear_of g t"
    "entries_kept (mem t) m' (p + PAGE_SIZE) 23" "eq_on m' (mem t) (p + 4) 48" "eq_on m' (mem t) (p + 232) 4"
    "\<forall>x k. 0 < k \<and> clear_of g t x k \<and> sep p (24 * 4096) x k \<longrightarrow> eq_on m' (mem t) x k"
proof -
  let ?v = "p + PAGE_SIZE"
  have part: "clear_of g t (p + off) j" if "unat off + j \<le> 4096" "0 < j" for off j
    by (rule clear_of_part [OF c R(1) refl that])
  have sv: "sep ?v (23 * 4096) (p + 52) 12" by (simp add: PAGE_SIZE_def)
  obtain m3 where U: "CreatUserVaddrBitmap g t p = Ok () (t\<lparr>mem := m3\<rparr>)" "kernel_room g (t\<lparr>mem := m3\<rparr>) (r + 23) n b cap"
    "vaddr_start m3 (p + 52) = USER_VADDR_START" "bits m3 (p + 52) = ?v" "bitmap_bytes_len m3 (p + 52) = 94199" "zeroed m3 ?v 94199"
    "room_page g m3 (r + 23) = ?v + of_nat 23 * PAGE_SIZE"
    "changes_in (mem t) m3 (alloc_regions g (mem t) ?v (23 * 4096) @ [(p + 52, 12)])" "clear_of g (t\<lparr>mem := m3\<rparr>) = clear_of g t"
    "entries_kept (mem t) m3 ?v 23"
    by (rule CreatUserVaddrBitmap_effect [OF R(1,2) R(3) [symmetric] part sv]) (use that in simp_all)
  have e3: "eq_on m3 (mem t) x j" if "clear_of g t x j" "sep ?v (23 * 4096) x j" "sep (p + 52) 12 x j" for x j
    by (rule alloc_eq_on_more [OF U(8)]) (use that in simp_all)
  have "self_kernel_stack m3 p = self_kernel_stack (mem t) p"
    unfolding self_kernel_stack_def using part [of 0 4] by (intro ld32_cong e3) (simp_all add: PAGE_SIZE_def)
  then have k3: "self_kernel_stack (mem (t\<lparr>mem := m3\<rparr>)) p = p + PAGE_SIZE" using k by simp
  obtain m' where T: "ThreadCreate g (t\<lparr>mem := m3\<rparr>) p f arg = t\<lparr>mem := m'\<rparr>" "self_kernel_stack m' p = p + 3664"
    "first_frame g m' (p + 3664) f arg" "eq_on m' m3 (p + 4) 3660" "only_in m3 m' p 4096"
    by (rule ThreadCreate_effect [OF k3]) (use that in simp_all)
  have C: "changes_in (mem (t\<lparr>mem := m3\<rparr>)) m' [(p, 4096)]" using changes_in_only [OF T(5)] by simp
  have c3: "\<forall>(a, j) \<in> set [(p, 4096)]. clear_of g (t\<lparr>mem := m3\<rparr>) a j" using c U(9) by simp
  note K = room_changes [OF U(2) C c3]
  have w: "ld32 m' (p + 52 + off) = ld32 m3 (p + 52 + off)" if "unat off + 4 \<le> 12" for off
    by (rule ld32_cong, rule eq_on_part [OF _ that], use eq_on_part [OF T(4), of 48 12] in \<open>simp add: add.assoc\<close>)
  show thesis
  proof (rule that [OF U(1) T(1-3)])
    show "vaddr_start m' (p + 52) = USER_VADDR_START" "bits m' (p + 52) = ?v" "bitmap_bytes_len m' (p + 52) = 94199"
      using w [of 8] w [of 4] w [of 0] U(3-5) by (simp_all add: vaddr_start_def bits_def bitmap_bytes_len_def)
    have "eq_on m' m3 ?v 94199" by (rule only_in_sep [OF T(5)]) (simp add: PAGE_SIZE_def)
    then show "zeroed m' ?v 94199" using U(6) by (simp add: zeroed_def eq_on_def inr_def)
    show "room_page g m' (r + 23) = p + 24 * PAGE_SIZE" using K(3) U(7) by (simp add: PAGE_SIZE_def)
    have "eq_on m3 (mem t) (p + 4) 48" by (rule e3 [OF part]) (simp_all add: PAGE_SIZE_def)
    then show "eq_on m' (mem t) (p + 4) 48" using eq_on_part [OF T(4), of 0 48] by (simp add: eq_on_def)
    have "eq_on m3 (mem t) (p + 232) 4" by (rule e3 [OF part]) (simp_all add: PAGE_SIZE_def)
    then show "eq_on m' (mem t) (p + 232) 4" using eq_on_part [OF T(4), of 228 4] by (simp add: eq_on_def add.assoc)
    show "\<forall>x k. 0 < k \<and> clear_of g t x k \<and> sep p (24 * 4096) x k \<longrightarrow> eq_on m' (mem t) x k"
    proof (intro allI impI, elim conjE)
      fix x j assume x: "0 < j" "clear_of g t x j" "sep p (24 * 4096) x j"
      have sp: "sep (p + off) i x j" if "unat off + i \<le> 24 * 4096" "0 < i" for off i
        by (rule sep_offset_left [OF x(3) that(1)]) (use that x(1) in simp_all)
      have "eq_on m3 (mem t) x j" by (rule e3 [OF x(2) sp sp]) (simp_all add: PAGE_SIZE_def)
      moreover have "eq_on m' m3 x j" by (rule only_in_sep [OF T(5)]) (use sp [of 0 4096] in simp)
      ultimately show "eq_on m' (mem t) x j" by (simp add: eq_on_def)
    qed
    show "entries_kept (mem t) m' ?v 23" using entries_kept_around [OF _ U(10), of "mem t" m'] K(5) by (simp add: eq_on_def)
  qed (use K U(9) in simp_all)
qed


text \<open>
  The page directory of a process shares the kernel's quarter and entry 0 with the current directory, maps itself in
  the last entry and has no other entry.
\<close>

definition process_directory :: "mem \<Rightarrow> addr \<Rightarrow> bool" where
  "process_directory m d \<longleftrightarrow>
     (\<forall>i < 1023. pde m d i = (if i = 0 \<or> 768 \<le> i then pde m 0xFFFFF000 i else 0))
     \<and> pde m d 1023 = VirtualAddrToPhysicAddr m d OR 111"

lemma pde_cong:
  assumes "eq_on m' m v 4096" "i < 1024"
  shows "pde m' v i = pde m v i"
  unfolding pde_def
  by (rule ld32_cong, rule eq_on_part [OF assms(1)]) (use pde_index [OF assms(2)] assms(2) in \<open>simp del: of_nat_mult\<close>)

text \<open>The current page directory is the last page of the window: its entries are those of the pages of the window.\<close>

lemma window_directory_entry:
  assumes "i < 1024"
  shows "0xFFFFF000 + of_nat (4 * i) = GetPTEPointer (window + of_nat i * PAGE_SIZE)" "vpn (window + of_nat i * PAGE_SIZE) = 0xFFC00 + i"
proof -
  show v: "vpn (window + of_nat i * PAGE_SIZE) = 0xFFC00 + i" using assms vpn_add [of window i] by (simp add: vpn_def)
  show "0xFFFFF000 + of_nat (4 * i) = GetPTEPointer (window + of_nat i * PAGE_SIZE)" unfolding GetPTEPointer_vpn v by simp
qed

lemma process_directory_cong:
  assumes P: "process_directory m d" and d: "eq_on m' m d 4096" and e: "entries_kept m m' v n"
    and v: "vpn d < vpn v \<or> vpn v + n \<le> vpn d" "vpn v + n \<le> 0xFFC00"
  shows "process_directory m' d"
proof -
  have W: "pde m' 0xFFFFF000 i = pde m 0xFFFFF000 i" if "i < 1024" for i
    unfolding pde_def window_directory_entry(1) [OF that] using e v(2) window_directory_entry(2) [OF that] by (simp add: entries_kept_def)
  have "ld32 m' (GetPTEPointer d) = ld32 m (GetPTEPointer d)" using e v(1) unfolding entries_kept_def by blast
  then have "VirtualAddrToPhysicAddr m' d = VirtualAddrToPhysicAddr m d" by (simp add: VirtualAddrToPhysicAddr_def Let_def)
  then show ?thesis using P W pde_cong [OF d] by (simp add: process_directory_def)
qed

lemma CreatPDE_room:
  assumes R: "kernel_room g t r (1 + n) b cap" "0 < n" and d: "d = room_page g (mem t) r"
  obtains m' where "CreatPDE g t = Ok d (t\<lparr>mem := m'\<rparr>)" "process_directory m' d"
    "kernel_room g (t\<lparr>mem := m'\<rparr>) (r + 1) n b cap" "room_page g m' (r + 1) = d + PAGE_SIZE" "clear_of g (t\<lparr>mem := m'\<rparr>) = clear_of g t"
    "entries_kept (mem t) m' d 1" "\<forall>x k. 0 < k \<and> clear_of g t x k \<and> sep d 4096 x k \<longrightarrow> eq_on m' (mem t) x k"
proof -
  note R1 = room_prefix [OF R(1) zero_less_one]
  have c: "clear_of g t d 4096" using room_clear [OF R1] d by simp
  then have dw: "sep d 4096 window 0x400000" using sep_sym by (simp add: clear_of_def meta_apart_def palloc_apart_def)
  obtain m1 where D: "CreatPDE g t = Ok d (t\<lparr>mem := pde_stores m1 d\<rparr>)" "zeroed m1 d 4096" "kpalloc g t 1 = Ok d (t\<lparr>mem := m1\<rparr>)"
    by (rule CreatPDE_effect [OF _ dw]) (use room_ready [OF R1] d that in simp_all)
  obtain m0 where K: "kpalloc g t 1 = Ok d (t\<lparr>mem := m0\<rparr>)" "kernel_room g (t\<lparr>mem := m0\<rparr>) (r + 1) n b cap"
    "room_page g m0 (r + 1) = d + PAGE_SIZE" "changes_in (mem t) m0 (alloc_regions g (mem t) d 4096)" "clear_of g (t\<lparr>mem := m0\<rparr>) = clear_of g t"
    "entries_kept (mem t) m0 d 1"
    by (rule kpalloc_room [OF R(1), where v = d]) (use R(2) d that in simp_all)
  have "t\<lparr>mem := m1\<rparr> = t\<lparr>mem := m0\<rparr>" using D(3) K(1) by simp
  from arg_cong [OF this, of mem] have "m1 = m0" by simp
  note D' = D(1,2) [unfolded this]
  note E = pde_stores_entries [OF D'(2) dw]
  let ?m = "pde_stores m0 d"
  have C: "changes_in (mem (t\<lparr>mem := m0\<rparr>)) ?m [(d, 4096)]" using changes_in_only [OF E(1)] by simp
  have c0: "\<forall>(a, k) \<in> set [(d, 4096)]. clear_of g (t\<lparr>mem := m0\<rparr>) a k" using c K(5) by simp
  note Q = room_changes [OF K(2) C c0]
  show thesis
  proof (rule that [OF D'(1)])
    show "process_directory ?m d" using E(2,3) by (simp add: process_directory_def)
    show "entries_kept (mem t) ?m d 1" using entries_kept_around [OF _ K(6), of "mem t" ?m] Q(5) by (simp add: eq_on_def)
    show "\<forall>x k. 0 < k \<and> clear_of g t x k \<and> sep d 4096 x k \<longrightarrow> eq_on ?m (mem t) x k"
      using alloc_eq_on [OF K(4)] only_in_sep [OF E(1)] unfolding eq_on_def by metis
  qed (use Q K(3,5) in simp_all)
qed

text \<open>The page directory and the arena descriptors.\<close>

lemma exec_directory:
  fixes p :: addr
  assumes R: "kernel_room g t r (1 + n) b cap" "0 < n" and d: "d = room_page g (mem t) r" "d = p + 24 * PAGE_SIZE" and c: "clear_of g t p 4096"
  obtains m5 m' where "CreatPDE g t = Ok d (t\<lparr>mem := m5\<rparr>)"
    "ArenaInit (put32 (t\<lparr>mem := m5\<rparr>) (p + 48) d) (p + 64) = t\<lparr>mem := m'\<rparr>"
    "d \<noteq> NULL" "PCB_PDE_addr m' p = d" "process_directory m' d" "\<forall>i < 7. fresh_desc m' (desc_at (p + 64) i) (class_size i)"
    "eq_on m' (mem t) p 48" "eq_on m' (mem t) (p + 52) 12" "eq_on m' (mem t) (p + 232) 3864"
    "\<forall>x k. 0 < k \<and> clear_of g t x k \<and> sep p 4096 x k \<and> sep d 4096 x k \<longrightarrow> eq_on m' (mem t) x k"
    "kernel_room g (t\<lparr>mem := m'\<rparr>) (r + 1) n b cap" "room_page g m' (r + 1) = d + PAGE_SIZE" "clear_of g (t\<lparr>mem := m'\<rparr>) = clear_of g t"
    "entries_kept (mem t) m' d 1"
proof -
  have part: "clear_of g t (p + off) j" if "unat off + j \<le> 4096" "0 < j" for off j
    by (rule clear_of_part [OF c R(1) refl that])
  note V = room_start [OF R(1) d(1)]
  obtain m5 where D: "CreatPDE g t = Ok d (t\<lparr>mem := m5\<rparr>)" "process_directory m5 d"
    "kernel_room g (t\<lparr>mem := m5\<rparr>) (r + 1) n b cap" "room_page g m5 (r + 1) = d + PAGE_SIZE" "clear_of g (t\<lparr>mem := m5\<rparr>) = clear_of g t"
    "entries_kept (mem t) m5 d 1" "\<forall>x k. 0 < k \<and> clear_of g t x k \<and> sep d 4096 x k \<longrightarrow> eq_on m5 (mem t) x k"
    by (rule CreatPDE_room [OF R d(1)])
  define m6 where "m6 = st32 m5 (p + 48) d"
  let ?s6 = "put32 (t\<lparr>mem := m5\<rparr>) (p + 48) d"
  have s6: "?s6 = t\<lparr>mem := m6\<rparr>" by (simp add: put32_def m6_def)
  define m' where "m' = mem (ArenaInit ?s6 (p + 64))"
  note A = ArenaInit_effect [where s = ?s6 and a = "p + 64", folded m'_def]
  have o6: "only_in m5 m6 (p + 48) 4" unfolding m6_def by (rule only_in_st32)
  have o7: "only_in m6 m' (p + 64) 168" using A(2) by (simp add: s6)
  have e: "eq_on m' (mem t) x k" if "0 < k" "clear_of g t x k" "sep d 4096 x k" "sep (p + 48) 4 x k" "sep (p + 64) 168 x k" for x k
    using D(7) that only_in_sep [OF o6 that(4)] only_in_sep [OF o7 that(5)] by (simp add: eq_on_def)
  have C: "changes_in (mem (t\<lparr>mem := m5\<rparr>)) m' [(p + 48, 4), (p + 64, 168)]"
    using changes_in_trans [OF changes_in_only [OF o6] changes_in_only [OF o7]] by simp
  have c5: "\<forall>(a, k) \<in> set [(p + 48, 4), (p + 64, 168)]. clear_of g (t\<lparr>mem := m5\<rparr>) a k" using part D(5) by simp
  note Q = room_changes [OF D(3) C c5]
  have w: "eq_on m' m5 window 0x400000" using Q(5) by simp
  show thesis
  proof (rule that [OF D(1)])
    show "ArenaInit ?s6 (p + 64) = t\<lparr>mem := m'\<rparr>" using A(1) by (simp add: mem_only_def m'_def s6)
    have "eq_on m' m6 (p + 48) 4" by (rule only_in_sep [OF o7]) simp
    then show "PCB_PDE_addr m' p = d" using ld32_cong by (simp add: PCB_PDE_addr_def m6_def)
    have "eq_on m' m5 d 4096"
      using only_in_sep [OF o6, of d 4096] only_in_sep [OF o7, of d 4096] by (simp add: eq_on_def d(2) PAGE_SIZE_def)
    then show "process_directory m' d"
      by (rule process_directory_cong [OF D(2) _ entries_kept_window [OF w], of d 0]) (use V in simp_all)
    show "eq_on m' (mem t) p 48" using part [of 0 48] by (intro e) (simp_all add: d(2) PAGE_SIZE_def)
    show "eq_on m' (mem t) (p + 52) 12" "eq_on m' (mem t) (p + 232) 3864" by (rule e; simp add: part d(2) PAGE_SIZE_def)+
    show "\<forall>x k. 0 < k \<and> clear_of g t x k \<and> sep p 4096 x k \<and> sep d 4096 x k \<longrightarrow> eq_on m' (mem t) x k"
      using e sep_offset_left [of p 4096 _ _ 48 4] sep_offset_left [of p 4096 _ _ 64 168] by simp
    show "entries_kept (mem t) m' d 1" using entries_kept_around [OF _ D(6) w, of "mem t"] by (simp add: eq_on_def)
  qed (use A(3) V(2) Q D(4,5) in simp_all)
qed

text \<open>
  A process that has not run: its number and name, the state and stack of a ready thread that starts in \<open>f\<close> with the
  argument \<open>arg\<close>, its page directory \<open>d\<close>, its 753592 user pages from \<open>USER_VADDR_START\<close> up to the kernel, none of them in
  use, and seven empty arena descriptors.
\<close>

definition new_process :: "symbols \<Rightarrow> mem \<Rightarrow> addr \<Rightarrow> addr \<Rightarrow> u16 \<Rightarrow> u8 list \<Rightarrow> addr \<Rightarrow> addr \<Rightarrow> bool" where
  "new_process g m p d pid name f arg \<longleftrightarrow>
     ld16 m (p + off_pid) = pid \<and> cstr m (p + off_name) name \<and> PCB_status m p = task_code TASK_READY
     \<and> ld32 m (p + off_canary) = STACK_CANARY \<and> self_kernel_stack m p = p + 3664 \<and> first_frame g m (p + 3664) f arg
     \<and> PCB_PDE_addr m p = d \<and> d \<noteq> NULL \<and> process_directory m d
     \<and> vaddr_start m (p + off_userprog_vaddr) = USER_VADDR_START \<and> bits m (p + off_userprog_vaddr) = p + PAGE_SIZE
     \<and> bm_size m (p + off_userprog_vaddr) = 753592 \<and> (\<forall>k < 753592. \<not> bm m (p + off_userprog_vaddr) k)
     \<and> (\<forall>i < 7. fresh_desc m (desc_at (p + off_user_arena_descs) i) (class_size i))"

lemma zeroed_bits:
  assumes "zeroed m (bits m va) n" "k < n * 8" "n < 2 ^ 32"
  shows "\<not> bm m va k"
proof -
  have "k div 8 < n" using assms(2) by linarith
  then have "inr (bits m va + of_nat (k div 8)) (bits m va) n" using assms(3) by (simp add: inr_def unat_of_nat_u32)
  then show ?thesis using assms(1) by (simp add: zeroed_def bm_def ld8_def)
qed

lemma new_process_cong:
  assumes N: "new_process g m p d pid xs f arg" and x: "length xs \<le> 15" and P: "eq_on m' m p 32" "eq_on m' m (p + 48) 4048"
    and Q: "eq_on m' m (p + PAGE_SIZE) 94199" "eq_on m' m d 4096" and e: "entries_kept m m' v n" "vpn d < vpn v \<or> vpn v + n \<le> vpn d" "vpn v + n \<le> 0xFFC00"
  shows "new_process g m' p d pid xs f arg"
proof -
  note N' = N [unfolded new_process_def]
  have lo: "eq_on m' m (p + off) n" if "unat off + n \<le> 32" for off n by (rule eq_on_part [OF P(1) that])
  have hi: "eq_on m' m (p + (48 + off)) n" if "unat off + n \<le> 4048" for off n using eq_on_part [OF P(2) that] by (simp add: add.assoc)
  have va: "vaddr_start m' (p + 52) = vaddr_start m (p + 52)" "bits m' (p + 52) = bits m (p + 52)"
    "bitmap_bytes_len m' (p + 52) = bitmap_bytes_len m (p + 52)" "PCB_PDE_addr m' p = PCB_PDE_addr m p"
    using hi [of 12 4, THEN ld32_cong] hi [of 8 4, THEN ld32_cong] hi [of 4 4, THEN ld32_cong] hi [of 0 4, THEN ld32_cong]
    by (simp_all add: vaddr_start_def bits_def bitmap_bytes_len_def PCB_PDE_addr_def add.assoc)
  have fr: "ld32 m' (p + 232) = ld32 m (p + 232)" "first_frame g m' (p + 3664) f arg"
    using hi [of 184 4, THEN ld32_cong] first_frame_cong [of m' m "p + 3664"] hi [of 3616 32] N' by simp_all
  have hd: "ld16 m' (p + 4) = ld16 m (p + 4)" "PCB_status m' p = PCB_status m p" "self_kernel_stack m' p = self_kernel_stack m p"
    using lo [of 4 2, THEN ld16_cong] lo [of 8 4, THEN ld32_cong] lo [of 0 4, THEN ld32_cong]
    by (simp_all add: PCB_status_def self_kernel_stack_def)
  have nm: "cstr m' (p + 13) xs" using cstr_cong [OF lo [of 13 "Suc (length xs)"]] N' x by simp
  have bits: "bm m' (p + 52) k = bm m (p + 52) k" if "k < 753592" for k
  proof -
    have k: "k div 8 < 94199" using that by linarith
    have "eq_on m' m (p + PAGE_SIZE + of_nat (k div 8)) 1" by (rule eq_on_part [OF Q(1)]) (use k in \<open>simp add: unat_of_nat_u32\<close>)
    then show ?thesis using N' va(2) by (simp add: bm_def ld8_def eq_on_def)
  qed
  have "fresh_desc m' (desc_at (p + 64) i) (class_size i)" if i: "i < 7" for i
  proof (rule fresh_desc_cong)
    have "unat (of_nat (16 + i * 24) :: u32) = 16 + i * 24" using i by (intro unat_of_nat_u32) simp
    then have "eq_on m' m (p + (48 + of_nat (16 + i * 24))) 24" using i by (intro hi) simp
    then show "eq_on m' m (desc_at (p + 64) i) 24" by (simp add: desc_at_def sizeof_arena_desc_def algebra_simps)
  qed (use N' i in blast)
  moreover have "process_directory m' d" using N' process_directory_cong [OF _ Q(2) e] by blast
  moreover have "bm_size m' (p + 52) = 753592" using N' va(3) by (simp add: bm_size_def)
  moreover note va(1,2,4) fr hd nm bits
  ultimately show ?thesis unfolding new_process_def using N' by (intro conjI) simp_all
qed


text \<open>The stages fill different fields: each keeps what the ones before it wrote.\<close>

lemma process_filled:
  fixes p :: addr
  assumes I: "fresh_pcb m2 p pid xs TASK_READY prio" "length xs \<le> 15" and F: "self_kernel_stack m4 p = p + 3664" "first_frame g m4 (p + 3664) f arg"
    "vaddr_start m4 (p + 52) = USER_VADDR_START" "bits m4 (p + 52) = p + PAGE_SIZE" "bitmap_bytes_len m4 (p + 52) = 94199"
    "zeroed m4 (p + PAGE_SIZE) 94199" "eq_on m4 m2 (p + 4) 48" "eq_on m4 m2 (p + 232) 4"
    and G: "eq_on m6 m4 p 48" "eq_on m6 m4 (p + 52) 12" "eq_on m6 m4 (p + 232) 3864" "eq_on m6 m4 (p + PAGE_SIZE) 94199"
    "d \<noteq> NULL" "PCB_PDE_addr m6 p = d" "process_directory m6 d" "\<forall>i < 7. fresh_desc m6 (desc_at (p + 64) i) (class_size i)"
  shows "new_process g m6 p d pid xs f arg"
proof -
  have lo: "eq_on m6 m2 (p + (4 + off)) n" if "unat off + n \<le> 44" "n \<le> 44" for off n
  proof -
    have "unat (4 + off) = 4 + unat off" using that by (subst unat_add_lem [THEN iffD1]) simp_all
    then have "eq_on m6 m4 (p + (4 + off)) n" using that by (intro eq_on_part [OF G(1)]) simp
    moreover have "eq_on m4 m2 (p + (4 + off)) n" using eq_on_part [OF F(7), of off n] that by (simp add: add.assoc)
    ultimately show ?thesis by (simp add: eq_on_def)
  qed
  have va: "ld32 m6 (p + 52 + off) = ld32 m4 (p + 52 + off)" if "unat off + 4 \<le> 12" for off
    by (rule ld32_cong [OF eq_on_part [OF G(2) that]])
  have v: "vaddr_start m6 (p + 52) = USER_VADDR_START" "bits m6 (p + 52) = p + PAGE_SIZE" "bm_size m6 (p + 52) = 753592"
    using va [of 8] va [of 4] va [of 0] F(3-5) by (simp_all add: vaddr_start_def bits_def bitmap_bytes_len_def bm_size_def)
  have "zeroed m6 (bits m6 (p + 52)) 94199" using F(6) G(4) v(2) by (simp add: zeroed_def eq_on_def)
  then have z: "\<not> bm m6 (p + 52) k" if "k < 753592" for k using zeroed_bits [of m6 "p + 52" 94199 k] that by simp
  have "ld16 m6 (p + 4) = pid" "PCB_status m6 p = task_code TASK_READY" "cstr m6 (p + 13) xs"
    using lo [of 0 2, THEN ld16_cong] lo [of 4 4, THEN ld32_cong] cstr_cong [OF lo [of 9 "Suc (length xs)"]] I
    by (simp_all add: fresh_pcb_def PCB_status_def)
  moreover have "ld32 m6 (p + 232) = STACK_CANARY"
    using ld32_cong [OF eq_on_part [OF G(3), of 0 4]] ld32_cong [OF F(8)] I(1) by (simp add: fresh_pcb_def)
  moreover have "self_kernel_stack m6 p = p + 3664"
    using ld32_cong [OF eq_on_part [OF G(1), of 0 4]] F(1) by (simp add: self_kernel_stack_def)
  moreover have "first_frame g m6 (p + 3664) f arg"
    using first_frame_cong [OF _ F(2), of m6] eq_on_part [OF G(3), of 3432 32] by (simp add: add.assoc)
  ultimately show ?thesis using v z G(5-8) by (simp add: new_process_def)
qed

lemma exec_prepared:
  assumes room: "exec_room g s ts r (25 + n) b cap os" "0 < n" "layout g ts" and p: "p = room_page g (mem s) r"
    and name: "cstr (mem s) name xs" "length xs \<le> 15" "name \<noteq> NULL" "(name, Suc (length xs)) \<in> os"
    and l: "lock_free s (pid_lock g)" and mt: "main_thread s \<in> ts"
  defines "pid \<equiv> next_pid s + 1" and "d \<equiv> p + 24 * PAGE_SIZE"
  obtains m1 m2 m3 m4 m5 m6 where "kpalloc g s 1 = Ok p (s\<lparr>mem := m1\<rparr>)"
    "InitThread g (s\<lparr>mem := m1\<rparr>) p name priority = Ok () (s\<lparr>mem := m2, next_pid := pid\<rparr>)"
    "CreatUserVaddrBitmap g (s\<lparr>mem := m2, next_pid := pid\<rparr>) p = Ok () (s\<lparr>mem := m3, next_pid := pid\<rparr>)"
    "ThreadCreate g (s\<lparr>mem := m3, next_pid := pid\<rparr>) p f arg = s\<lparr>mem := m4, next_pid := pid\<rparr>"
    "CreatPDE g (s\<lparr>mem := m4, next_pid := pid\<rparr>) = Ok d (s\<lparr>mem := m5, next_pid := pid\<rparr>)"
    "ArenaInit (put32 (s\<lparr>mem := m5, next_pid := pid\<rparr>) (p + 48) d) (p + 64) = s\<lparr>mem := m6, next_pid := pid\<rparr>"
    "new_process g m6 p d pid xs f arg" "lock_free (s\<lparr>mem := m6, next_pid := pid\<rparr>) (pid_lock g)"
    "kernel_room g (s\<lparr>mem := m6\<rparr>) (r + 25) n b cap" "room_page g m6 (r + 25) = p + 25 * PAGE_SIZE" "clear_of g (s\<lparr>mem := m6\<rparr>) = clear_of g s"
    "entries_kept (mem s) m6 p 25" "\<forall>x k. exec_apart g s p (25 + n) x k \<longrightarrow> eq_on m6 (mem s) x k"
proof -
  have N: "1 + (24 + n) = 25 + n" "23 + (1 + n) = 24 + n" "r + 1 + 23 + 1 = r + 25" by simp_all
  have X: "kernel_room g s r (25 + n) b cap" "clear_of g s (pid_lock g) 28" using room(1) by (simp_all add: exec_room_def Let_def)
  have part: "clear_of g s (p + off) j" if "unat off + j \<le> 25 * 4096" "0 < j" for off j
    using clear_of_part [OF room_clear [OF X(1)] X(1) refl, of off j] that by (simp add: p)
  note P = exec_room_page [OF room(1,3) _ p]
  have sp: "sep (p + off) j x k" if "sep p ((25 + n) * 4096) x k" "0 < k" "unat off + j \<le> 25 * 4096" "0 < j" for off j x k
    by (rule sep_offset_left [OF that(1)]) (use that in simp_all)
  have room': "exec_room g s ts r (1 + (24 + n)) b cap os" "0 < 24 + n" unfolding N using room(1) by simp_all
  obtain m1 m2 where I: "kpalloc g s 1 = Ok p (s\<lparr>mem := m1\<rparr>)"
    "InitThread g (s\<lparr>mem := m1\<rparr>) p name priority = Ok () (s\<lparr>mem := m2, next_pid := pid\<rparr>)"
    "fresh_pcb m2 p pid xs TASK_READY (ucast priority)" "lock_free (s\<lparr>mem := m2, next_pid := pid\<rparr>) (pid_lock g)"
    "kernel_room g (s\<lparr>mem := m2\<rparr>) (r + 1) (24 + n) b cap" "room_page g m2 (r + 1) = p + PAGE_SIZE" "clear_of g (s\<lparr>mem := m2\<rparr>) = clear_of g s"
    "entries_kept (mem s) m2 p 1" "\<forall>x k. exec_apart g s p (25 + n) x k \<longrightarrow> eq_on m2 (mem s) x k"
    unfolding pid_def by (rule exec_pcb [OF room' room(3) p name l mt, unfolded N])
  let ?t = "s\<lparr>mem := m2, next_pid := pid\<rparr>"
  have t: "kernel_room g ?t (r + 1) (23 + (1 + n)) b cap" "0 < 1 + n" "room_page g (mem ?t) (r + 1) = p + PAGE_SIZE"
    "self_kernel_stack (mem ?t) p = p + PAGE_SIZE" "clear_of g ?t p 4096" unfolding N using I part [of 0 4096] by (simp_all add: fresh_pcb_def)
  have ct: "clear_of g ?t = clear_of g s" using I(7) by simp
  obtain m3 m4 where F: "CreatUserVaddrBitmap g ?t p = Ok () (?t\<lparr>mem := m3\<rparr>)" "ThreadCreate g (?t\<lparr>mem := m3\<rparr>) p f arg = ?t\<lparr>mem := m4\<rparr>"
    "self_kernel_stack m4 p = p + 3664" "first_frame g m4 (p + 3664) f arg"
    "vaddr_start m4 (p + 52) = USER_VADDR_START" "bits m4 (p + 52) = p + PAGE_SIZE" "bitmap_bytes_len m4 (p + 52) = 94199"
    "zeroed m4 (p + PAGE_SIZE) 94199"
    "kernel_room g (?t\<lparr>mem := m4\<rparr>) (r + 1 + 23) (1 + n) b cap" "room_page g m4 (r + 1 + 23) = d" "clear_of g (?t\<lparr>mem := m4\<rparr>) = clear_of g s"
    "entries_kept m2 m4 (p + PAGE_SIZE) 23" "eq_on m4 m2 (p + 4) 48" "eq_on m4 m2 (p + 232) 4"
    "\<forall>x k. 0 < k \<and> clear_of g s x k \<and> sep p (24 * 4096) x k \<longrightarrow> eq_on m4 m2 x k"
    by (rule exec_frame [OF t, of f arg]) (use that ct d_def in simp_all)
  let ?u = "?t\<lparr>mem := m4\<rparr>"
  have u: "d = room_page g (mem ?u) (r + 1 + 23)" "d = p + 24 * PAGE_SIZE" "clear_of g ?u p 4096"
    using F(10,11) part [of 0 4096] by (simp_all add: d_def)
  obtain m5 m6 where G: "CreatPDE g ?u = Ok d (?u\<lparr>mem := m5\<rparr>)" "ArenaInit (put32 (?u\<lparr>mem := m5\<rparr>) (p + 48) d) (p + 64) = ?u\<lparr>mem := m6\<rparr>"
    "d \<noteq> NULL" "PCB_PDE_addr m6 p = d" "process_directory m6 d" "\<forall>i < 7. fresh_desc m6 (desc_at (p + 64) i) (class_size i)"
    "eq_on m6 m4 p 48" "eq_on m6 m4 (p + 52) 12" "eq_on m6 m4 (p + 232) 3864"
    "\<forall>x k. 0 < k \<and> clear_of g s x k \<and> sep p 4096 x k \<and> sep d 4096 x k \<longrightarrow> eq_on m6 m4 x k"
    "kernel_room g (?u\<lparr>mem := m6\<rparr>) (r + 25) n b cap" "room_page g m6 (r + 25) = d + PAGE_SIZE" "clear_of g (?u\<lparr>mem := m6\<rparr>) = clear_of g s"
    "entries_kept m4 m6 d 1"
    by (rule exec_directory [OF F(9) room(2) u, unfolded N F(11)]) (use that in simp_all)
  have "new_process g m6 p d pid xs f arg"
  proof (rule process_filled [OF I(3) name(2) F(3-8,13,14) G(7-9) _ G(3-6)])
    show "eq_on m6 m4 (p + PAGE_SIZE) 94199"
      using G(10) part [of PAGE_SIZE 94199] by (simp add: d_def PAGE_SIZE_def)
  qed
  moreover have e: "eq_on m6 m2 x k" if "0 < k" "clear_of g s x k" "sep p ((25 + n) * 4096) x k" for x k
  proof -
    have "eq_on m6 m4 x k" using G(10) that sp [OF that(3,1), of 0 4096] sp [OF that(3,1), of "24 * PAGE_SIZE" 4096] by (simp add: d_def PAGE_SIZE_def)
    moreover have "eq_on m4 m2 x k" using F(15) that sp [OF that(3,1), of 0 "24 * 4096"] by simp
    ultimately show ?thesis by (simp add: eq_on_def)
  qed
  moreover have "\<forall>x k. exec_apart g s p (25 + n) x k \<longrightarrow> eq_on m6 (mem s) x k"
    using I(9) e by (auto simp: exec_apart_def eq_on_def)
  moreover have "lock_free (?t\<lparr>mem := m6\<rparr>) (pid_lock g)" by (rule lock_free_local [OF I(4)]) (use e X(2) P(4) in simp)
  moreover have "entries_kept (mem s) m6 p 25"
  proof -
    have v: "vpn (p + PAGE_SIZE) = vpn p + 1" "vpn d = vpn p + 24"
      using room_vpn [OF X(1) p, of 1] room_vpn [OF X(1) p, of 24] by (simp_all add: d_def)
    show ?thesis
      by (rule entries_kept_trans [OF entries_kept_trans [OF entries_kept_mono [OF I(8)] F(12)] G(14)]) (simp_all add: v)
  qed
  moreover have "room_page g m6 (r + 25) = p + 25 * PAGE_SIZE" using G(12) by (simp add: d_def PAGE_SIZE_def)
  ultimately show thesis using that I(1,2) F(1,2) G(1,2,11,13) by (simp add: next_pid_mem)
qed

section \<open>Into the lists\<close>

text \<open>
  The state between the creation of two threads: the scheduler's data and the list of all threads are well-formed, there
  is room for \<open>n\<close> more pages, and the lock of the process numbers is free.
\<close>

definition spawn_ready ::
    "symbols \<Rightarrow> kstate \<Rightarrow> addr set \<Rightarrow> addr \<Rightarrow> sched \<Rightarrow> addr list \<Rightarrow> nat \<Rightarrow> nat \<Rightarrow> u32 \<Rightarrow> nat \<Rightarrow> (addr \<times> nat) set \<Rightarrow> bool" where
  "spawn_ready g s ts c a ys r n b cap os \<longleftrightarrow>
     rep g ts c (mem s) a \<and> sched_inv ts a \<and> all_rep g ts (mem s) ys \<and> exec_room g s ts r n b cap os
     \<and> lock_free s (pid_lock g) \<and> main_thread s \<in> ts"

text \<open>What the creation of a thread in \<open>n\<close> pages from \<open>p\<close> on leaves alone.\<close>

definition spawn_keeps :: "mem \<Rightarrow> mem \<Rightarrow> addr set \<Rightarrow> (addr \<times> nat) set \<Rightarrow> addr \<Rightarrow> nat \<Rightarrow> bool" where
  "spawn_keeps m m' ts os p n \<longleftrightarrow>
     (\<forall>(x, k) \<in> os. eq_on m' m x k) \<and> (\<forall>q \<in> ts. eq_on m' m q 32 \<and> eq_on m' m (q + 48) 4048) \<and> entries_kept m m' p n"

text \<open>The creation of a thread up to its publication: pages \<open>p\<close> to \<open>p + i\<close> are in use, the lists are as before.\<close>

definition prepared :: "symbols \<Rightarrow> kstate \<Rightarrow> kstate \<Rightarrow> nat \<Rightarrow> nat \<Rightarrow> nat \<Rightarrow> u32 \<Rightarrow> nat \<Rightarrow> addr \<Rightarrow> bool" where
  "prepared g s t r i n b cap p \<longleftrightarrow>
     kernel_room g t (r + i) n b cap \<and> room_page g (mem t) (r + i) = p + of_nat i * PAGE_SIZE \<and> clear_of g t = clear_of g s
     \<and> lock_free t (pid_lock g) \<and> entries_kept (mem s) (mem t) p i \<and> main_thread t = main_thread s
     \<and> PCB_status (mem t) p = task_code TASK_READY \<and> saved_esp_ok (mem t) p
     \<and> (\<forall>x k. exec_apart g s p (i + n) x k \<longrightarrow> eq_on (mem t) (mem s) x k)"

lemma prepared_lists:
  assumes R: "spawn_ready g s ts c a ys r (i + n) b cap os" and p: "p = room_page g (mem s) r" and T: "prepared g s t r i n b cap p"
  shows "rep g ts c (mem t) a" "all_rep g ts (mem t) ys"
proof -
  have X: "\<And>x k. (x, k) \<in> list_regions g ts \<Longrightarrow> exec_apart g s p (i + n) x k" and R': "rep g ts c (mem s) a" "all_rep g ts (mem s) ys"
    using R by (auto simp: spawn_ready_def exec_room_def Let_def p)
  have e: "eq_on (mem t) (mem s) x k" if "(x, k) \<in> list_regions g ts" for x k using X [OF that] T by (simp add: prepared_def)
  have pgs: "eq_on (mem t) (mem s) (q + off) k" if "q \<in> ts" "unat off + k \<le> 4096" for q off k
    using eq_on_part [OF e [of q 4096] that(2)] that(1) by (simp add: list_regions_def)
  show "rep g ts c (mem t) a" "all_rep g ts (mem t) ys"
    using rep_frame [OF R'(1), of "mem t"] all_rep_frame [OF R'(2), of "mem t"] e pgs [of _ 0 40] pgs [of _ 40 8]
    by (simp_all add: list_regions_def)
qed

lemma spawn_regions:
  assumes R: "exec_room g s ts r (i + n) b cap os" "0 < i" "layout g ts" and p: "p = room_page g (mem s) r"
    and x: "(x, k) \<in> list_regions g (insert p ts)"
  shows "clear_of g s x k" "sep (pid_lock g) 28 x k" "1 < i \<Longrightarrow> sep x k (p + PAGE_SIZE) ((i - 1) * 4096)"
proof -
  have K: "kernel_room g s r (i + n) b cap" using R(1) by (simp add: exec_room_def Let_def)
  note P = exec_room_page [OF R(1,3) _ p]
  have c: "clear_of g s p 4096" using clear_of_part [OF P(3) K refl, of 0 4096] R(2) by simp
  have l: "sep (pid_lock g) 28 p 4096" using sep_sym [OF sep_offset_left [OF P(4), of 0 4096]] R(2) by simp
  have X: "exec_apart g s p (i + n) x k \<or> x = p \<and> k = 4096" using R(1) x by (auto simp: exec_room_def Let_def p list_regions_def)
  show "clear_of g s x k" "sep (pid_lock g) 28 x k" using X c l by (auto simp: exec_apart_def)
  show "sep x k (p + PAGE_SIZE) ((i - 1) * 4096)" if i: "1 < i"
  proof (cases "x = p \<and> k = 4096")
    case True
    have "i * 4096 \<le> 2 ^ 32" using room_start(3) [OF K refl] by simp
    then show ?thesis using True i by (simp add: PAGE_SIZE_def)
  next
    case False
    then have s: "sep p ((i + n) * 4096) x k" "0 < k" using X by (auto simp: exec_apart_def)
    have "4096 + (i - 1) * 4096 = i * 4096" using i by (cases i) simp_all
    then have "unat (PAGE_SIZE :: u32) + (i - 1) * 4096 \<le> (i + n) * 4096" by simp
    from sep_sym [OF sep_offset_left [OF s(1) this]] show ?thesis using i s(2) by simp
  qed
qed

lemma spawn_keeps_published:
  assumes R: "exec_room g s ts r (i + n) b cap os" and p: "p = room_page g (mem s) r" and T: "prepared g s t r i n b cap p"
    and E: "\<forall>(x, k) \<in> os. 0 < k \<longrightarrow> eq_on m (mem t) x k" "\<forall>q \<in> ts. eq_on m (mem t) q 32 \<and> eq_on m (mem t) (q + 48) 4048"
    and w: "eq_on m (mem t) window 0x400000"
  shows "spawn_keeps (mem s) m ts os p i"
proof -
  have X: "exec_apart g s p (i + n) x k" if "(x, k) \<in> list_regions g ts \<union> os" for x k
    using R that by (auto simp: exec_room_def Let_def p)
  have e: "eq_on (mem t) (mem s) x k" if "(x, k) \<in> list_regions g ts \<union> os" for x k
    using T X [OF that] by (simp add: prepared_def)
  have "eq_on m (mem s) x k" if "(x, k) \<in> os" for x k
    using e [of x k] X [of x k] E(1) that by (fastforce simp: eq_on_def exec_apart_def)
  moreover have "eq_on m (mem s) q 32 \<and> eq_on m (mem s) (q + 48) 4048" if q: "q \<in> ts" for q
  proof -
    have "eq_on (mem t) (mem s) q 4096" by (rule e) (simp add: list_regions_def q)
    from eq_on_part [OF this, of 0 32] eq_on_part [OF this, of 48 4048] E(2) q show ?thesis by (simp add: eq_on_def)
  qed
  moreover have "entries_kept (mem s) m p i"
    using T entries_kept_trans [OF _ entries_kept_window [OF w], of "mem s" p i p 0] by (simp add: prepared_def)
  ultimately show ?thesis by (auto simp: spawn_keeps_def)
qed

lemma publish_room:
  assumes R: "spawn_ready g s ts c a ys r (i + n) b cap os" "0 < i" "0 < n" and p: "p = room_page g (mem s) r"
    and T: "prepared g s t r i n b cap p"
  obtains m1 m2 where "enlist fn cond t (ready_thread_list g) (general_tag p) = Ok () (t\<lparr>mem := m1\<rparr>)"
    "enlist fn' cond' (t\<lparr>mem := m1\<rparr>) (all_thread_list g) (all_list_tag p) = Ok () (t\<lparr>mem := m2\<rparr>)"
    "spawn_ready g (t\<lparr>mem := m2\<rparr>) (insert p ts) c (a_spawn p a) (ys @ [p]) (r + i) n b cap os"
    "clear_of g (t\<lparr>mem := m2\<rparr>) = clear_of g s" "room_page g m2 (r + i) = p + of_nat i * PAGE_SIZE"
    "spawn_keeps (mem s) m2 ts os p i" "entries_kept (mem t) m2 p 0" "eq_on m2 (mem t) p 32" "eq_on m2 (mem t) (p + 48) 4048"
    "\<forall>x k. 0 < k \<and> (\<forall>(y, j) \<in> list_regions g (insert p ts). sep y j x k) \<longrightarrow> eq_on m2 (mem t) x k"
proof -
  let ?L = "list_regions g (insert p ts)"
  have Y: "exec_room g s ts r (i + n) b cap os" "sched_inv ts a" "main_thread s \<in> ts" "layout g ts"
    using R(1) by (simp_all add: spawn_ready_def rep_def)
  note P = exec_room_page [OF Y(1,4) _ p] and L = prepared_lists [OF R(1) p T] and S = spawn_regions [OF Y(1) R(2) Y(4) p]
  have X: "\<And>x k. (x, k) \<in> list_regions g ts \<union> os \<Longrightarrow> exec_apart g s p (i + n) x k" "\<And>x k y j. (x, k) \<in> os \<Longrightarrow> (y, j) \<in> list_regions g ts \<Longrightarrow> sep y j x k"
    using Y(1) by (auto simp: exec_room_def Let_def p)
  have T': "kernel_room g t (r + i) n b cap" "room_page g (mem t) (r + i) = p + of_nat i * PAGE_SIZE" "clear_of g t = clear_of g s"
    "lock_free t (pid_lock g)" "entries_kept (mem s) (mem t) p i" "main_thread t = main_thread s" "PCB_status (mem t) p = task_code TASK_READY"
    "saved_esp_ok (mem t) p" "\<And>x k. exec_apart g s p (i + n) x k \<Longrightarrow> eq_on (mem t) (mem s) x k"
    using T by (simp_all add: prepared_def)
  have sp: "sep p 4096 x k" if "exec_apart g s p (i + n) x k" for x k
    using sep_offset_left [of p "(i + n) * 4096" x k 0 4096] that R(2) by (simp add: exec_apart_def)
  have al: "sep (all_thread_list g) 16 p 4096" using sep_sym [OF sp [OF X(1)]] by (simp add: list_regions_def)
  obtain m1 m2 where E: "enlist fn cond t (ready_thread_list g) (general_tag p) = Ok () (t\<lparr>mem := m1\<rparr>)"
    "enlist fn' cond' (t\<lparr>mem := m1\<rparr>) (all_thread_list g) (all_list_tag p) = Ok () (t\<lparr>mem := m2\<rparr>)"
    "rep g (insert p ts) c m2 (a_spawn p a)" "all_rep g (insert p ts) m2 (ys @ [p])"
    "\<forall>q \<in> insert p ts. \<forall>off n. 0 < n \<and> (unat off + n \<le> 32 \<or> 48 \<le> unat off \<and> unat off + n \<le> 4096) \<longrightarrow> eq_on m2 (mem t) (q + off) n"
    "\<forall>x k. 0 < k \<and> (\<forall>(y, j) \<in> ?L. sep y j x k) \<longrightarrow> eq_on m2 (mem t) x k"
    by (rule publish_thread [OF L P(1,2) al T'(7,8), folded list_regions_def]) (use R(2) that in simp_all)
  have pg: "eq_on m2 (mem t) q 32" "eq_on m2 (mem t) (q + 48) 4048" if "q \<in> insert p ts" for q
    using E(5) [rule_format, OF that, of 32 0] E(5) [rule_format, OF that, of 4048 48] by simp_all
  have fr: "eq_on m2 (mem t) x k" if "0 < k" "\<And>y j. (y, j) \<in> ?L \<Longrightarrow> sep y j x k" for x k
    using E(6) that by (simp add: split_beta)
  have os: "\<forall>(y, j) \<in> ?L. sep y j x k" if "(x, k) \<in> os" for x k
    using X(2) [OF that] sp [OF X(1)] that by (auto simp: list_regions_def)
  have cl: "\<forall>(y, j) \<in> ?L. clear_of g t y j" using S(1) T'(3) by auto
  note Q = room_kept [OF T'(1) E(6) cl]
  have rp: "room_page g (mem (t\<lparr>mem := m2\<rparr>)) (r + i) = p + of_nat i * PAGE_SIZE" using T'(2) Q(3) by simp
  have cs: "clear_of g (t\<lparr>mem := m2\<rparr>) = clear_of g s" using Q(4) T'(3) by simp
  have "exec_room g (t\<lparr>mem := m2\<rparr>) (insert p ts) (r + i) n b cap os"
    by (rule exec_room_next [OF Y(1) R(2,3) p Q(1) rp cs]) (use sp [OF X(1)] in auto)
  moreover have "lock_free (t\<lparr>mem := m2\<rparr>) (pid_lock g)"
    by (rule lock_free_local [OF T'(4)]) (use fr S(2) sep_sym in simp)
  ultimately have "spawn_ready g (t\<lparr>mem := m2\<rparr>) (insert p ts) c (a_spawn p a) (ys @ [p]) (r + i) n b cap os"
    using E(3,4) a_spawn_inv [OF Y(2) P(1)] R(2) Y(3) T'(6) by (simp add: spawn_ready_def)
  moreover have "spawn_keeps (mem s) m2 ts os p i"
    by (rule spawn_keeps_published [OF Y(1) p T _ _ Q(5)]) (use pg os E(6) in auto)
  ultimately show thesis using that [OF E(1,2)] cs rp pg E(6) entries_kept_window [OF Q(5)] by simp
qed

lemma restore_status [simp]: "snd (SetIntStatus (GetIntStatus s) (s\<lparr>mem := m\<rparr>)) = s\<lparr>mem := m\<rparr>"
  by (cases "GetIntStatus s") (simp_all add: SetIntStatus_def EnableInt_def DisableInt_def GetIntStatus_def)

lemma publish_process:
  assumes R: "spawn_ready g s ts c a ys r (25 + n) b cap os" "0 < n" and p: "p = room_page g (mem s) r"
    and T: "prepared g s t r 25 n b cap p" and N: "new_process g (mem t) p (p + 24 * PAGE_SIZE) pid xs f arg" "length xs \<le> 15"
  obtains m1 m2 where "enlist fn cond t (ready_thread_list g) (general_tag p) = Ok () (t\<lparr>mem := m1\<rparr>)"
    "enlist fn' cond' (t\<lparr>mem := m1\<rparr>) (all_thread_list g) (all_list_tag p) = Ok () (t\<lparr>mem := m2\<rparr>)"
    "spawn_ready g (t\<lparr>mem := m2\<rparr>) (insert p ts) c (a_spawn p a) (ys @ [p]) (r + 25) n b cap (insert (p + PAGE_SIZE, 24 * 4096) os)"
    "new_process g m2 p (p + 24 * PAGE_SIZE) pid xs f arg" "spawn_keeps (mem s) m2 ts os p 25" "room_page g m2 (r + 25) = p + 25 * PAGE_SIZE"
proof -
  let ?d = "p + 24 * PAGE_SIZE" and ?x = "p + PAGE_SIZE" and ?k = "24 * 4096 :: nat"
  have Y: "exec_room g s ts r (25 + n) b cap os" "layout g ts" using R(1) by (simp_all add: spawn_ready_def rep_def)
  have K: "kernel_room g s r (25 + n) b cap" using Y(1) by (simp add: exec_room_def Let_def)
  note P = exec_room_page [OF Y _ p] and S = spawn_regions [OF Y(1) _ Y(2) p]
  obtain m1 m2 where E: "enlist fn cond t (ready_thread_list g) (general_tag p) = Ok () (t\<lparr>mem := m1\<rparr>)"
    "enlist fn' cond' (t\<lparr>mem := m1\<rparr>) (all_thread_list g) (all_list_tag p) = Ok () (t\<lparr>mem := m2\<rparr>)"
    "spawn_ready g (t\<lparr>mem := m2\<rparr>) (insert p ts) c (a_spawn p a) (ys @ [p]) (r + 25) n b cap os"
    "clear_of g (t\<lparr>mem := m2\<rparr>) = clear_of g s" "room_page g m2 (r + 25) = p + 25 * PAGE_SIZE"
    "spawn_keeps (mem s) m2 ts os p 25" "entries_kept (mem t) m2 p 0" "eq_on m2 (mem t) p 32" "eq_on m2 (mem t) (p + 48) 4048"
    "\<forall>x k. 0 < k \<and> (\<forall>(y, j) \<in> list_regions g (insert p ts). sep y j x k) \<longrightarrow> eq_on m2 (mem t) x k"
    by (rule publish_room [OF R(1) _ R(2) p T]) (use that in simp_all)
  have ls: "\<forall>(y, j) \<in> list_regions g (insert p ts). sep y j ?x ?k" using S(3) by auto
  then have e: "eq_on m2 (mem t) ?x ?k" using E(10) by simp
  have "eq_on m2 (mem t) ?x 94199" "eq_on m2 (mem t) ?d 4096"
    using eq_on_part [OF e, of 0 94199] eq_on_part [OF e, of "23 * PAGE_SIZE" 4096] by (simp_all add: PAGE_SIZE_def add.assoc)
  moreover have "vpn ?d = vpn p + 24" using room_vpn [OF K p, of 24] by simp
  ultimately have W: "new_process g m2 p ?d pid xs f arg"
    using room_start(3) [OF K p] by (intro new_process_cong [OF N E(8,9) _ _ E(7)]) simp_all
  have "sep (p + of_nat 25 * PAGE_SIZE) (n * 4096) ?x ?k"
    using sep_offset_right [OF room_rest_sep [OF K, of p], of PAGE_SIZE ?k] R(2) by simp
  moreover have "clear_of g s ?x ?k" using clear_of_part [OF P(3) K refl, of PAGE_SIZE ?k] by simp
  moreover have "sep (pid_lock g) 28 ?x ?k" using sep_sym [OF sep_offset_left [OF P(4), of PAGE_SIZE ?k]] by simp
  ultimately have "exec_apart g (t\<lparr>mem := m2\<rparr>) (room_page g (mem (t\<lparr>mem := m2\<rparr>)) (r + 25)) n ?x ?k"
    using E(4,5) by (simp add: exec_apart_def)
  with exec_room_object [OF _ this ls] E(3)
  have "spawn_ready g (t\<lparr>mem := m2\<rparr>) (insert p ts) c (a_spawn p a) (ys @ [p]) (r + 25) n b cap (insert (?x, ?k) os)"
    by (simp add: spawn_ready_def)
  then show thesis using that [OF E(1,2)] W E(5,6) by simp
qed

lemma ExecProcess_effect:
  assumes R: "spawn_ready g s ts c a ys r (25 + n) b cap os" "0 < n" and p: "p = room_page g (mem s) r"
    and name: "cstr (mem s) name xs" "length xs \<le> 15" "name \<noteq> NULL" "(name, Suc (length xs)) \<in> os"
  obtains m' where "ExecProcess g s filename name = Ok () (s\<lparr>mem := m', next_pid := next_pid s + 1\<rparr>)"
    "spawn_ready g (s\<lparr>mem := m', next_pid := next_pid s + 1\<rparr>) (insert p ts) c (a_spawn p a) (ys @ [p]) (r + 25) n b cap
       (insert (p + PAGE_SIZE, 24 * 4096) os)"
    "new_process g m' p (p + 24 * PAGE_SIZE) (next_pid s + 1) xs (fn_addr g Fn_StartProcess) filename"
    "spawn_keeps (mem s) m' ts os p 25" "room_page g m' (r + 25) = p + 25 * PAGE_SIZE"
    "\<forall>q \<in> ts. starts_in g (s\<lparr>mem := m', next_pid := next_pid s + 1\<rparr>) q p (fn_addr g Fn_StartProcess) filename"
proof -
  let ?pid = "next_pid s + 1" and ?d = "p + 24 * PAGE_SIZE" and ?f = "fn_addr g Fn_StartProcess"
  have Y: "exec_room g s ts r (25 + n) b cap os" "layout g ts" "lock_free s (pid_lock g)" "main_thread s \<in> ts"
    using R(1) by (simp_all add: spawn_ready_def rep_def)
  note P = exec_room_page [OF Y(1,2) _ p]
  obtain m1 m2 m3 m4 m5 m6 where E: "kpalloc g s 1 = Ok p (s\<lparr>mem := m1\<rparr>)"
    "InitThread g (s\<lparr>mem := m1\<rparr>) p name DEFAULT_PRIORITY = Ok () (s\<lparr>mem := m2, next_pid := ?pid\<rparr>)"
    "CreatUserVaddrBitmap g (s\<lparr>mem := m2, next_pid := ?pid\<rparr>) p = Ok () (s\<lparr>mem := m3, next_pid := ?pid\<rparr>)"
    "ThreadCreate g (s\<lparr>mem := m3, next_pid := ?pid\<rparr>) p ?f filename = s\<lparr>mem := m4, next_pid := ?pid\<rparr>"
    "CreatPDE g (s\<lparr>mem := m4, next_pid := ?pid\<rparr>) = Ok ?d (s\<lparr>mem := m5, next_pid := ?pid\<rparr>)"
    "ArenaInit (put32 (s\<lparr>mem := m5, next_pid := ?pid\<rparr>) (p + 48) ?d) (p + 64) = s\<lparr>mem := m6, next_pid := ?pid\<rparr>"
    "new_process g m6 p ?d ?pid xs ?f filename" "lock_free (s\<lparr>mem := m6, next_pid := ?pid\<rparr>) (pid_lock g)"
    "kernel_room g (s\<lparr>mem := m6\<rparr>) (r + 25) n b cap" "room_page g m6 (r + 25) = p + 25 * PAGE_SIZE" "clear_of g (s\<lparr>mem := m6\<rparr>) = clear_of g s"
    "entries_kept (mem s) m6 p 25" "\<forall>x k. exec_apart g s p (25 + n) x k \<longrightarrow> eq_on m6 (mem s) x k"
    by (rule exec_prepared [OF Y(1) R(2) Y(2) p name Y(3,4)])
  let ?t = "s\<lparr>mem := m6, next_pid := ?pid\<rparr>"
  have N: "PCB_status m6 p = task_code TASK_READY" "saved_esp_ok m6 p" "PCB_PDE_addr m6 p = ?d" "?d \<noteq> NULL"
    using E(7) by (simp_all add: new_process_def saved_esp_ok_def self_kernel_stack_def inr_def)
  have T: "prepared g s ?t r 25 n b cap p" unfolding prepared_def using E(8-13) N(1,2) by simp
  have N': "new_process g (mem ?t) p ?d ?pid xs ?f filename" using E(7) by simp
  obtain m7 m8 where Q:
    "enlist ''ExecProcess'' ''!elem_find(&ready_thread_list, &thread->general_tag)'' ?t (ready_thread_list g) (general_tag p) = Ok () (?t\<lparr>mem := m7\<rparr>)"
    "enlist ''ExecProcess'' ''!elem_find(&all_thread_list, &thread->all_list_tag)'' (?t\<lparr>mem := m7\<rparr>) (all_thread_list g) (all_list_tag p)
       = Ok () (?t\<lparr>mem := m8\<rparr>)"
    "spawn_ready g (?t\<lparr>mem := m8\<rparr>) (insert p ts) c (a_spawn p a) (ys @ [p]) (r + 25) n b cap (insert (p + PAGE_SIZE, 24 * 4096) os)"
    "new_process g m8 p ?d ?pid xs ?f filename" "spawn_keeps (mem s) m8 ts os p 25" "room_page g m8 (r + 25) = p + 25 * PAGE_SIZE"
    by (rule publish_process [OF R p T N' name(2)])
  have pg: "page_aligned p" "\<And>q. q \<in> ts \<Longrightarrow> sep q 4096 p 4096" using P(1,2) by (auto simp: layout_def intro!: pages_sep)
  let ?u = "s\<lparr>mem := m8, next_pid := ?pid\<rparr>"
  have "ExecProcess g s filename name = Ok () ?u"
    using E(1-6) Q(1,2) N(3,4) restore_status [of ?t m8] by (simp add: ExecProcess_def next_pid_mem Let_def)
  moreover have "starts_in g ?u q p ?f filename" if "q \<in> ts" for q
    by (rule first_switch [OF _ _ pg(1) pg(2) [OF that]]) (use Q(4) in \<open>simp_all add: new_process_def\<close>)
  ultimately show thesis using that Q(3-6) by (simp add: next_pid_mem)
qed

text \<open>C12. Process creation refines adding a ready thread. When more than 25 kernel pages and room for them are there,
  \<open>ExecProcess\<close> makes the first of them a PCB: the scheduler's state has the process at the end of the ready sequence
  with status \<open>TASK_READY\<close>, the list of all threads has it at the end, and the PCB is that of a process that has not
  run: its number is the next one, its name the given one, its page directory shares the kernel's entries with the current
  one, none of its 753592 user pages is in use and its arena descriptors are empty. The first switch to it from
  any other thread enters \<open>KernelThread\<close> with \<open>StartProcess\<close> and the program's address as arguments. The threads and
  processes that exist keep their data, and what is left of the room serves the next one.\<close>

theorem ExecProcess_spawns:
  assumes "spawn_ready g s ts c a ys r (25 + n) b cap os" "0 < n" "p = room_page g (mem s) r"
    and "cstr (mem s) name xs" "length xs \<le> 15" "name \<noteq> NULL" "(name, Suc (length xs)) \<in> os"
  shows "\<exists>m'. ExecProcess g s filename name = Ok () (s\<lparr>mem := m', next_pid := next_pid s + 1\<rparr>)
    \<and> spawn_ready g (s\<lparr>mem := m', next_pid := next_pid s + 1\<rparr>) (insert p ts) c (a_spawn p a) (ys @ [p]) (r + 25) n b cap
        (insert (p + PAGE_SIZE, 24 * 4096) os)
    \<and> new_process g m' p (p + 24 * PAGE_SIZE) (next_pid s + 1) xs (fn_addr g Fn_StartProcess) filename
    \<and> spawn_keeps (mem s) m' ts os p 25
    \<and> (\<forall>q \<in> ts. starts_in g (s\<lparr>mem := m', next_pid := next_pid s + 1\<rparr>) q p (fn_addr g Fn_StartProcess) filename)"
  by (rule ExecProcess_effect [OF assms]) blast

section \<open>A small system\<close>

text \<open>The system of \<open>demo_threads\<close> with bitmaps of eight bytes each: 64 kernel pages and frames, all free.\<close>

definition demo_exec :: mem where
  "demo_exec = st32 (st32 (st32 demo_threads 0x1100 8) 0x1300 8) 0x1304 0xC009A008"

definition demo_exec_state :: kstate where
  "demo_exec_state = demo_state\<lparr>mem := demo_exec\<rparr>"

lemma demo_exec_views:
  "bitmap_bytes_len demo_exec 0x1100 = 8" "bits demo_exec 0x1100 = 0xC009A000" "physic_addr_start demo_exec 0x1100 = 0x200000"
  "bitmap_bytes_len demo_exec 0x1300 = 8" "bits demo_exec 0x1300 = 0xC009A008" "vaddr_start demo_exec 0x1300 = 0xC0100000"
  by (simp_all add: demo_exec_def demo_threads_def demo_pools_def bitmap_bytes_len_def bits_def physic_addr_start_def vaddr_start_def sep_def)

lemma demo_exec_rep:
  "rep demo_symbols {0x2000, 0x3000} 0x2000 demo_exec demo_sched"
  "all_rep demo_symbols {0x2000, 0x3000} demo_exec [0x2000, 0x3000]"
proof -
  have e: "eq_on demo_exec demo_threads x k" if "sep 0x1100 4 x k" "sep 0x1300 4 x k" "sep 0x1304 4 x k" for x k
    unfolding demo_exec_def by (intro eq_on_store(1) that) (simp add: eq_on_def)
  show "rep demo_symbols {0x2000, 0x3000} 0x2000 demo_exec demo_sched"
    by (rule rep_frame [OF demo_threads_rep(1)]) (auto intro!: e simp: demo_symbols_def sep_def)
  show "all_rep demo_symbols {0x2000, 0x3000} demo_exec [0x2000, 0x3000]"
    by (rule all_rep_frame [OF demo_threads_rep(2)]) (auto intro!: e simp: demo_symbols_def sep_def)
qed

lemma demo_exec_free:
  assumes "j < 64"
  shows "\<not> bm demo_exec 0x1100 j" "\<not> bm demo_exec 0x1300 j"
proof -
  have "zeroed demo_exec (bits demo_exec 0x1100) 8" "zeroed demo_exec (bits demo_exec 0x1300) 8"
  proof -
    have "eq_on demo_exec (\<lambda>_. 0) 0xC009A000 8" "eq_on demo_exec (\<lambda>_. 0) 0xC009A008 8"
      unfolding demo_exec_def demo_threads_def demo_pools_def by (intro eq_on_store; simp add: sep_def eq_on_def)+
    then show "zeroed demo_exec (bits demo_exec 0x1100) 8" "zeroed demo_exec (bits demo_exec 0x1300) 8"
      by (simp_all add: demo_exec_views zeroed_def eq_on_def)
  qed
  then show "\<not> bm demo_exec 0x1100 j" "\<not> bm demo_exec 0x1300 j" using zeroed_bits [of demo_exec _ 8 j] assms by simp_all
qed

lemma demo_exec_heap: "heap_ready demo_exec 0xC0100000 52"
proof -
  have z: "eq_on demo_exec (\<lambda>_. 0) 0xFFF00400 256"
    unfolding demo_exec_def demo_threads_def demo_pools_def by (intro eq_on_store) (simp_all add: sep_def eq_on_def)
  have "table_present demo_exec u \<and> page_absent demo_exec u" if i: "i < 52" and u: "u = 0xC0100000 + of_nat i * PAGE_SIZE" for i u
  proof -
    have "vpn u = vpn 0xC0100000 + i" unfolding u using i by (intro vpn_add) (simp add: vpn_def)
    then have t: "GetPTEPointer u = 0xFFF00400 + of_nat (4 * i)" by (simp add: GetPTEPointer_vpn vpn_def)
    have n: "unat (of_nat (4 * i) :: u32) = 4 * i" using i by (intro unat_of_nat_u32) simp
    have "unat (0xFFF00400 + of_nat (4 * i) :: u32) = 0xFFF00400 + 4 * i"
      using n i by (subst unat_add_lem [THEN iffD1]) simp_all
    then have v: "vpn (GetPTEPointer u) = 0xFFF00" using i unfolding t by (simp add: vpn_def)
    have "ld32 demo_exec (GetPDEPointer u) = 0x101007"
      unfolding GetPDEPointer_PTE GetPTEPointer_vpn [of "GetPTEPointer u"] v
      by (simp add: demo_exec_def demo_threads_def demo_pools_def sep_def)
    moreover have "ld32 demo_exec (GetPTEPointer u) = ld32 (\<lambda>_. 0) (GetPTEPointer u)"
      unfolding t by (rule ld32_cong [OF eq_on_part [OF z]]) (use n i in simp)
    ultimately show ?thesis by (simp add: table_present_def page_absent_def PAGE_P_1_def)
  qed
  then show ?thesis by (simp add: heap_ready_def)
qed

lemma demo_exec_ready: "palloc_ready demo_symbols demo_exec_state KERNEL_POOL 52 0 0x200000 64"
proof -
  have m: "mem demo_exec_state = demo_exec" by (simp add: demo_exec_state_def)
  have G: "kernel_memory_pool demo_symbols = 0x1100" "kernel_vaddr demo_symbols = 0x1300" by (simp_all add: demo_symbols_def)
  note W = demo_exec_views and B = demo_exec_free
  have fr: "first_run (bm demo_exec 0x1300) 52 (bm_size demo_exec 0x1300) = Some 0"
    using B(2) by (simp add: first_run_Some run_free_def bm_size_def W)
  have up: "used_pages 0x1100 demo_exec_state = {}" using B(1) by (auto simp: used_pages_def m bm_size_def W)
  show ?thesis
    unfolding palloc_ready_def Let_def kernel_pool_of G m
    using fr demo_exec_heap up
    by (simp add: W bitmap_wf_def sep_def pool_inv_def pool_ok_def bm_size_def m pool_apart_def page_aligned_def PAGE_MASK_def vpn_def)
qed

lemma demo_exec_room: "exec_room demo_symbols demo_exec_state {0x2000, 0x3000} 0 52 0x200000 64 {(0x7000, 2)}"
proof -
  have m: "mem demo_exec_state = demo_exec" by (simp add: demo_exec_state_def)
  have G: "kernel_memory_pool demo_symbols = 0x1100" "kernel_vaddr demo_symbols = 0x1300" "user_memory_pool demo_symbols = 0x1200"
    "ready_thread_list demo_symbols = 0x1000" "all_thread_list demo_symbols = 0x1010" "pid_lock demo_symbols = 0x1020" "sym_tss demo_symbols = 0x1500"
    by (simp_all add: demo_symbols_def)
  note W = demo_exec_views
  have P: "room_page demo_symbols demo_exec 0 = 0xC0100000" by (simp add: room_page_def G W)
  have A: "meta_apart demo_symbols demo_exec_state KERNEL_POOL b n = (sep 0xC009A008 8 b n \<and> sep 0xC009A000 8 b n
      \<and> sep 0xFFC00000 0x400000 b n \<and> sep 0x1300 12 b n \<and> sep 0x1100 16 b n \<and> sep 0x1200 12 b n)" for b n
    by (simp add: meta_apart_def palloc_apart_def m W G)
  have "lock_free demo_exec_state 0x1110"
    by (simp add: lock_view demo_exec_state_def demo_exec_def demo_threads_def demo_pools_def demo_state_def GetCurrentThreadPCB_def PAGE_MASK_def sep_def)
  moreover have "\<forall>k < bm_size demo_exec 0x1300. bm demo_exec 0x1300 k \<longleftrightarrow> k < 0" using demo_exec_free(2) by (simp add: bm_size_def W)
  ultimately have K: "kernel_room demo_symbols demo_exec_state 0 52 0x200000 64"
    using demo_exec_ready unfolding kernel_room_def Let_def m P A by (simp add: G pool_lock_def sep_def)
  then show ?thesis unfolding exec_room_def exec_apart_def clear_of_def list_regions_def Let_def m P A by (simp add: G pool_lock_def sep_def)
qed

lemma demo_spawn_ready:
  "spawn_ready demo_symbols demo_exec_state {0x2000, 0x3000} 0x2000 demo_sched [0x2000, 0x3000] 0 52 0x200000 64 {(0x7000, 2)}"
proof -
  have "main_thread demo_exec_state = 0x2000" "mem demo_exec_state = demo_exec" by (simp_all add: demo_exec_state_def demo_state_def)
  moreover have "lock_free demo_exec_state (pid_lock demo_symbols)"
    by (simp add: demo_symbols_def lock_view demo_exec_state_def demo_exec_def demo_threads_def demo_pools_def demo_state_def
        GetCurrentThreadPCB_def PAGE_MASK_def sep_def)
  ultimately show ?thesis using demo_exec_rep demo_rep(2) demo_exec_room by (simp add: spawn_ready_def)
qed

lemma demo_exec_name: "cstr (mem demo_exec_state) 0x7000 [107]"
  by (simp add: demo_exec_state_def demo_exec_def demo_threads_def demo_pools_def sep_def)

lemma demo_exec_page: "0xC0100000 = room_page demo_symbols (mem demo_exec_state) 0"
  by (simp add: room_page_def demo_exec_state_def demo_exec_views demo_symbols_def)

theorem ExecProcess_spawns_witness:
  "\<exists>m'. ExecProcess demo_symbols demo_exec_state 0x6B00 0x7000 = Ok () (demo_exec_state\<lparr>mem := m', next_pid := 3\<rparr>)
    \<and> spawn_ready demo_symbols (demo_exec_state\<lparr>mem := m', next_pid := 3\<rparr>) {0xC0100000, 0x2000, 0x3000} 0x2000 (a_spawn 0xC0100000 demo_sched)
        [0x2000, 0x3000, 0xC0100000] 25 27 0x200000 64 {(0xC0101000, 98304), (0x7000, 2)}
    \<and> new_process demo_symbols m' 0xC0100000 0xC0118000 3 [107] 0x6100 0x6B00"
proof -
  have s: "next_pid demo_exec_state = 2" "fn_addr demo_symbols Fn_StartProcess = 0x6100" "(0xC0100000 + 24 * PAGE_SIZE :: u32) = 0xC0118000"
    "(0xC0100000 + PAGE_SIZE :: u32) = 0xC0101000" by (simp_all add: demo_exec_state_def demo_state_def demo_symbols_def PAGE_SIZE_def)
  have r: "spawn_ready demo_symbols demo_exec_state {0x2000, 0x3000} 0x2000 demo_sched [0x2000, 0x3000] 0 (25 + 27) 0x200000 64 {(0x7000, 2)}"
    using demo_spawn_ready by simp
  show ?thesis
    using ExecProcess_spawns [OF r _ demo_exec_page demo_exec_name, of "0x6B00"] s by auto
qed

end
