(* ===== verification/Start.thy ===== *)
theory Start
  imports Spawn Boot
begin

text \<open>
  The processes and the thread that \<open>_start\<close> of \<open>kernel/main.c\<close> creates before its endless loop (\<open>start_threads\<close>): two
  processes with \<open>ExecProcess\<close>, then the keyboard thread with \<open>ThreadStart\<close>, one after the other from the same room.
\<close>

section \<open>A thread from the room for pages\<close>

lemma ThreadStart_effect:
  assumes R: "spawn_ready g s ts c a ys r (1 + n) b cap os" "0 < n" and p: "p = room_page g (mem s) r"
    and name: "cstr (mem s) name xs" "length xs \<le> 15" "name \<noteq> NULL" "(name, Suc (length xs)) \<in> os"
  obtains m' where "ThreadStart g s name priority f arg = Ok p (s\<lparr>mem := m', next_pid := next_pid s + 1\<rparr>)"
    "spawn_ready g (s\<lparr>mem := m', next_pid := next_pid s + 1\<rparr>) (insert p ts) c (a_spawn p a) (ys @ [p]) (r + 1) n b cap os"
    "spawn_keeps (mem s) m' ts os p 1" "ld16 m' (p + off_pid) = next_pid s + 1" "cstr m' (p + off_name) xs"
    "self_kernel_stack m' p = p + 3664" "first_frame g m' (p + 3664) f arg"
proof -
  let ?pid = "next_pid s + 1"
  have Y: "exec_room g s ts r (1 + n) b cap os" "layout g ts" "lock_free s (pid_lock g)" "main_thread s \<in> ts"
    using R(1) by (simp_all add: spawn_ready_def rep_def)
  have K: "kernel_room g s r (1 + n) b cap" "clear_of g s (pid_lock g) 28" using Y(1) by (simp_all add: exec_room_def Let_def)
  note P = exec_room_page [OF Y(1,2) _ p]
  obtain m1 m2 where I: "kpalloc g s 1 = Ok p (s\<lparr>mem := m1\<rparr>)"
    "InitThread g (s\<lparr>mem := m1\<rparr>) p name priority = Ok () (s\<lparr>mem := m2, next_pid := ?pid\<rparr>)"
    "fresh_pcb m2 p ?pid xs TASK_READY (ucast priority)" "lock_free (s\<lparr>mem := m2, next_pid := ?pid\<rparr>) (pid_lock g)"
    "kernel_room g (s\<lparr>mem := m2\<rparr>) (r + 1) n b cap" "room_page g m2 (r + 1) = p + PAGE_SIZE" "clear_of g (s\<lparr>mem := m2\<rparr>) = clear_of g s"
    "entries_kept (mem s) m2 p 1" "\<forall>x k. exec_apart g s p (1 + n) x k \<longrightarrow> eq_on m2 (mem s) x k"
    by (rule exec_pcb [OF Y(1) R(2) Y(2) p name Y(3,4)])
  let ?t = "s\<lparr>mem := m2, next_pid := ?pid\<rparr>"
  have "self_kernel_stack (mem ?t) p = p + PAGE_SIZE" using I(3) by (simp add: fresh_pcb_def)
  then obtain m3 where C: "ThreadCreate g ?t p f arg = ?t\<lparr>mem := m3\<rparr>" "self_kernel_stack m3 p = p + 3664"
    "first_frame g m3 (p + 3664) f arg" "eq_on m3 (mem ?t) (p + 4) 3660" "only_in (mem ?t) m3 p 4096"
    by (rule ThreadCreate_effect)
  have c: "clear_of g s p 4096" using clear_of_part [OF P(3) K(1) refl, of 0 4096] by simp
  have t: "kernel_room g ?t (r + 1) n b cap" "clear_of g ?t = clear_of g s" using I(5,7) by simp_all
  note Q = room_changes [OF t(1) changes_in_only [OF C(5)]]
  have c': "\<forall>(x, k) \<in> set [(p, 4096)]. clear_of g ?t x k" using c t(2) by simp
  note Q' = Q [OF c']
  have e: "eq_on m3 m2 x k" if "sep p ((1 + n) * 4096) x k" "0 < k" for x k
    using only_in_sep [OF C(5), of x k] sep_offset_left [OF that(1), of 0 4096] that(2) by simp
  have st: "PCB_status m3 p = task_code TASK_READY" "ld16 m3 (p + off_pid) = ?pid" "cstr m3 (p + off_name) xs"
    using ld32_cong [OF eq_on_part [OF C(4), of 4 4]] ld16_cong [OF eq_on_part [OF C(4), of 0 2]]
      cstr_cong [OF eq_on_part [OF C(4), of 9 "Suc (length xs)"]] I(3) name(2)
    by (simp_all add: fresh_pcb_def PCB_status_def add.assoc)
  let ?u = "?t\<lparr>mem := m3\<rparr>"
  have T: "prepared g s ?u r 1 n b cap p"
    unfolding prepared_def
  proof (intro conjI)
    show "lock_free ?u (pid_lock g)" by (rule lock_free_local [OF I(4)]) (use e P(4) in simp)
    show "entries_kept (mem s) (mem ?u) p 1"
      using entries_kept_around [OF _ I(8), of "mem s" m3] Q'(5) by (simp add: eq_on_def)
    show "\<forall>x k. exec_apart g s p (1 + n) x k \<longrightarrow> eq_on (mem ?u) (mem s) x k"
      using I(9) e by (auto simp: exec_apart_def eq_on_def)
    show "saved_esp_ok (mem ?u) p" using C(2) by (simp add: saved_esp_ok_def self_kernel_stack_def inr_def)
  qed (use Q' t(2) I(6) st(1) in simp_all)
  obtain m4 m5 where E:
    "enlist ''ThreadStart'' ''!elem_find(&ready_thread_list, &thread_PCB->general_tag)'' ?u (ready_thread_list g) (general_tag p) = Ok () (?u\<lparr>mem := m4\<rparr>)"
    "enlist ''ThreadStart'' ''!elem_find(&all_thread_list, &thread_PCB->all_list_tag)'' (?u\<lparr>mem := m4\<rparr>) (all_thread_list g) (all_list_tag p)
       = Ok () (?u\<lparr>mem := m5\<rparr>)"
    "spawn_ready g (?u\<lparr>mem := m5\<rparr>) (insert p ts) c (a_spawn p a) (ys @ [p]) (r + 1) n b cap os"
    "spawn_keeps (mem s) m5 ts os p 1" "eq_on m5 (mem ?u) p 32" "eq_on m5 (mem ?u) (p + 48) 4048"
    by (rule publish_room [OF R(1) zero_less_one R(2) p T])
  show thesis
  proof (rule that)
    show "ThreadStart g s name priority f arg = Ok p (s\<lparr>mem := m5, next_pid := ?pid\<rparr>)"
      using I(1,2) C(1) E(1,2) by (simp add: ThreadStart_def next_pid_mem)
    show "spawn_ready g (s\<lparr>mem := m5, next_pid := ?pid\<rparr>) (insert p ts) c (a_spawn p a) (ys @ [p]) (r + 1) n b cap os"
      using E(3) by (simp add: next_pid_mem)
    have lo: "eq_on m5 m3 (p + off) k" if "unat off + k \<le> 32" for off k using eq_on_part [OF E(5) that] by simp
    show "ld16 m5 (p + off_pid) = ?pid" "cstr m5 (p + off_name) xs" "self_kernel_stack m5 p = p + 3664"
      using ld16_cong [OF lo [of 4 2]] cstr_cong [OF lo [of 13 "Suc (length xs)"]] ld32_cong [OF lo [of 0 4]] st(2,3) C(2) name(2)
      by (simp_all add: self_kernel_stack_def)
    show "first_frame g m5 (p + 3664) f arg"
      using first_frame_cong [OF _ C(3), of m5] eq_on_part [OF E(6), of 3616 32] by (simp add: add.assoc)
  qed (fact E(4))
qed


text \<open>A process that has not run is still one when another thread has been created.\<close>

lemma new_process_kept:
  assumes "new_process g m q (q + 24 * PAGE_SIZE) pid xs f arg" "length xs \<le> 15" "spawn_keeps m m' ts os p n"
    and "q \<in> ts" "(q + PAGE_SIZE, 24 * 4096) \<in> os" "vpn (q + 24 * PAGE_SIZE) < vpn p" "vpn p + n \<le> 0xFFC00"
  shows "new_process g m' q (q + 24 * PAGE_SIZE) pid xs f arg"
proof -
  have e: "eq_on m' m (q + PAGE_SIZE) (24 * 4096)" "eq_on m' m q 32" "eq_on m' m (q + 48) 4048" "entries_kept m m' p n"
    using assms(3-5) by (auto simp: spawn_keeps_def)
  have "eq_on m' m (q + PAGE_SIZE) 94199" "eq_on m' m (q + 24 * PAGE_SIZE) 4096"
    using eq_on_part [OF e(1), of 0 94199] eq_on_part [OF e(1), of "23 * PAGE_SIZE" 4096] by (simp_all add: PAGE_SIZE_def add.assoc)
  then show ?thesis using new_process_cong [OF assms(1,2) e(2,3) _ _ e(4)] assms(6,7) by simp
qed

section \<open>The interrupt flag\<close>

lemma spawn_ready_flags [simp]: "spawn_ready g (s\<lparr>eflags := k\<rparr>) ts c a ys r n b cap os = spawn_ready g s ts c a ys r n b cap os"
  by (simp add: spawn_ready_def exec_room_def exec_apart_def Let_def lock_view GetCurrentThreadPCB_def)

lemma EnableInt_flags: "\<exists>k. snd (EnableInt s) = s\<lparr>eflags := k\<rparr> \<and> GetIntStatus (s\<lparr>eflags := k\<rparr>) = INT_ON"
proof (cases "GetIntStatus s")
  case INT_ON
  then show ?thesis by (intro exI [of _ "eflags s"]) (simp add: EnableInt_def)
next
  case INT_OFF
  then show ?thesis using GetIntStatus_sti [of s] by (intro exI [of _ "eflags s OR EFLAGS_IF"]) (simp add: EnableInt_def sti_def)
qed


section \<open>The threads of the kernel\<close>

text \<open>A string literal of the kernel that fits in the name of a thread.\<close>

definition thread_name :: "symbols \<Rightarrow> mem \<Rightarrow> (addr \<times> nat) set \<Rightarrow> string \<Rightarrow> u8 list \<Rightarrow> bool" where
  "thread_name g m os str xs \<longleftrightarrow>
     cstr m (literal g str) xs \<and> length xs \<le> 15 \<and> literal g str \<noteq> NULL \<and> (literal g str, Suc (length xs)) \<in> os"

lemma thread_name_kept:
  "thread_name g m os str xs \<Longrightarrow> spawn_keeps m m' ts os p n \<Longrightarrow> os \<subseteq> os' \<Longrightarrow> thread_name g m' os' str xs"
  using cstr_cong [of m' m "literal g str" xs] by (auto simp: thread_name_def spawn_keeps_def)

lemma spawn_page: "spawn_ready g s ts c a ys r n b cap os \<Longrightarrow> 0 < n \<Longrightarrow> p = room_page g (mem s) r \<Longrightarrow> p \<notin> ts"
  using exec_room_page(1) [of g s ts r n b cap os p] by (simp add: spawn_ready_def rep_def)

lemma start_processes:
  assumes R: "spawn_ready g s ts c a ys r (51 + n) b cap os" "0 < n"
    and names: "thread_name g (mem s) os ''userthreada'' xa" "thread_name g (mem s) os ''userthreadb'' xb" "thread_name g (mem s) os ''keyboard_output'' xk"
    and p: "pa = room_page g (mem s) r" "pb = pa + 25 * PAGE_SIZE"
  defines "os' \<equiv> {(pb + PAGE_SIZE, 24 * 4096), (pa + PAGE_SIZE, 24 * 4096)} \<union> os"
  obtains m1 m2 where
    "ExecProcess g s (fn_addr g Fn_u_prog_a) (literal g ''userthreada'') = Ok () (s\<lparr>mem := m1, next_pid := next_pid s + 1\<rparr>)"
    "ExecProcess g (s\<lparr>mem := m1, next_pid := next_pid s + 1\<rparr>) (fn_addr g Fn_u_prog_b) (literal g ''userthreadb'')
       = Ok () (s\<lparr>mem := m2, next_pid := next_pid s + 2\<rparr>)"
    "spawn_ready g (s\<lparr>mem := m2, next_pid := next_pid s + 2\<rparr>) ({pb, pa} \<union> ts) c (a_spawn pb (a_spawn pa a)) (ys @ [pa, pb]) (r + 50) (1 + n) b cap os'"
    "new_process g m2 pa (pa + 24 * PAGE_SIZE) (next_pid s + 1) xa (fn_addr g Fn_StartProcess) (fn_addr g Fn_u_prog_a)"
    "new_process g m2 pb (pb + 24 * PAGE_SIZE) (next_pid s + 2) xb (fn_addr g Fn_StartProcess) (fn_addr g Fn_u_prog_b)"
    "thread_name g m2 os' ''keyboard_output'' xk" "room_page g m2 (r + 50) = pa + 50 * PAGE_SIZE" "pa \<notin> ts \<and> pb \<notin> ts"
proof -
  let ?n1 = "next_pid s + 1" and ?n2 = "next_pid s + 2" and ?os1 = "insert (pa + PAGE_SIZE, 24 * 4096) os" and ?f = "fn_addr g Fn_StartProcess"
  have N: "25 + (26 + n) = 51 + n" "25 + (1 + n) = 26 + n" "r + 25 + 25 = r + 50" "next_pid s + 1 + 1 = ?n2" by simp_all
  have K: "kernel_room g s r (51 + n) b cap" using R(1) by (simp add: spawn_ready_def exec_room_def Let_def)
  have v: "vpn (pa + 24 * PAGE_SIZE) = vpn pa + 24" "vpn pb = vpn pa + 25" "vpn pa + 51 \<le> 0xFFC00"
    using room_vpn [OF K p(1), of 24] room_vpn [OF K p(1), of 25] room_start(3) [OF K p(1)] by (simp_all add: p(2))
  note A = names(1) [unfolded thread_name_def]
  have R1: "spawn_ready g s ts c a ys r (25 + (26 + n)) b cap os" "0 < 26 + n" unfolding N using R(1) by simp_all
  obtain m1 where E: "ExecProcess g s (fn_addr g Fn_u_prog_a) (literal g ''userthreada'') = Ok () (s\<lparr>mem := m1, next_pid := ?n1\<rparr>)"
    "spawn_ready g (s\<lparr>mem := m1, next_pid := ?n1\<rparr>) (insert pa ts) c (a_spawn pa a) (ys @ [pa]) (r + 25) (26 + n) b cap ?os1"
    "new_process g m1 pa (pa + 24 * PAGE_SIZE) ?n1 xa ?f (fn_addr g Fn_u_prog_a)"
    "spawn_keeps (mem s) m1 ts os pa 25" "room_page g m1 (r + 25) = pa + 25 * PAGE_SIZE"
    using ExecProcess_effect [OF R1 p(1), of "literal g ''userthreada''" xa] A by blast
  let ?s1 = "s\<lparr>mem := m1, next_pid := ?n1\<rparr>"
  have "thread_name g (mem ?s1) ?os1 ''userthreadb'' xb" using thread_name_kept [OF names(2) E(4)] by auto
  then have B: "cstr (mem ?s1) (literal g ''userthreadb'') xb" "length xb \<le> 15" "literal g ''userthreadb'' \<noteq> NULL"
    "(literal g ''userthreadb'', Suc (length xb)) \<in> ?os1" unfolding thread_name_def by blast+
  have R2: "spawn_ready g ?s1 (insert pa ts) c (a_spawn pa a) (ys @ [pa]) (r + 25) (25 + (1 + n)) b cap ?os1" "0 < 1 + n"
    "pb = room_page g (mem ?s1) (r + 25)" unfolding N using E(2,5) p(2) by simp_all
  obtain m2 where F: "ExecProcess g ?s1 (fn_addr g Fn_u_prog_b) (literal g ''userthreadb'') = Ok () (?s1\<lparr>mem := m2, next_pid := ?n2\<rparr>)"
    "spawn_ready g (?s1\<lparr>mem := m2, next_pid := ?n2\<rparr>) (insert pb (insert pa ts)) c (a_spawn pb (a_spawn pa a)) ((ys @ [pa]) @ [pb])
       (r + 50) (1 + n) b cap (insert (pb + PAGE_SIZE, 24 * 4096) ?os1)"
    "new_process g m2 pb (pb + 24 * PAGE_SIZE) ?n2 xb ?f (fn_addr g Fn_u_prog_b)"
    "spawn_keeps m1 m2 (insert pa ts) ?os1 pb 25" "room_page g m2 (r + 50) = pb + 25 * PAGE_SIZE"
    by (rule ExecProcess_effect [OF R2 B, of "fn_addr g Fn_u_prog_b"]) (use that N(3,4) in simp_all)
  have s2: "?s1\<lparr>mem := m2, next_pid := ?n2\<rparr> = s\<lparr>mem := m2, next_pid := ?n2\<rparr>" by (simp add: next_pid_mem)
  show thesis
  proof (rule that [OF E(1) F(1) [unfolded s2]])
    show "spawn_ready g (s\<lparr>mem := m2, next_pid := ?n2\<rparr>) ({pb, pa} \<union> ts) c (a_spawn pb (a_spawn pa a)) (ys @ [pa, pb]) (r + 50) (1 + n) b cap os'"
      using F(2) unfolding s2 by (simp add: os'_def)
    show "new_process g m2 pa (pa + 24 * PAGE_SIZE) ?n1 xa ?f (fn_addr g Fn_u_prog_a)"
      by (rule new_process_kept [OF E(3) _ F(4)]) (use A v in simp_all)
    show "thread_name g m2 os' ''keyboard_output'' xk"
      by (rule thread_name_kept [OF thread_name_kept [OF names(3) E(4)] F(4)]) (auto simp: os'_def)
    show "room_page g m2 (r + 50) = pa + 50 * PAGE_SIZE" using F(5) p(2) by (simp add: PAGE_SIZE_def add.assoc)
    show "pa \<notin> ts \<and> pb \<notin> ts"
      using spawn_page [OF R1(1) _ p(1)] spawn_page [OF R2(1) _ R2(3)] by simp
  qed (fact F(3))
qed


lemma start_keyboard:
  assumes R: "spawn_ready g s ts c a ys r (1 + n) b cap os" "0 < n" and p: "p = room_page g (mem s) r"
    and name: "thread_name g (mem s) os ''keyboard_output'' xs"
  obtains t where "ThreadStart g (snd (EnableInt s)) (literal g ''keyboard_output'') 5 f arg = Ok p t" "GetIntStatus t = INT_ON"
    "next_pid t = next_pid s + 1" "spawn_ready g t (insert p ts) c (a_spawn p a) (ys @ [p]) (r + 1) n b cap os"
    "spawn_keeps (mem s) (mem t) ts os p 1" "ld16 (mem t) (p + off_pid) = next_pid s + 1" "cstr (mem t) (p + off_name) xs"
    "\<forall>q \<in> ts. starts_in g t q p f arg"
proof -
  obtain k where k: "snd (EnableInt s) = s\<lparr>eflags := k\<rparr>" "GetIntStatus (s\<lparr>eflags := k\<rparr>) = INT_ON" using EnableInt_flags by blast
  let ?s = "s\<lparr>eflags := k\<rparr>"
  have R': "spawn_ready g ?s ts c a ys r (1 + n) b cap os" "p = room_page g (mem ?s) r" "thread_name g (mem ?s) os ''keyboard_output'' xs"
    using R p name by simp_all
  then have N: "cstr (mem ?s) (literal g ''keyboard_output'') xs" "length xs \<le> 15" "literal g ''keyboard_output'' \<noteq> NULL"
    "(literal g ''keyboard_output'', Suc (length xs)) \<in> os" unfolding thread_name_def by blast+
  obtain m where F: "ThreadStart g ?s (literal g ''keyboard_output'') 5 f arg = Ok p (?s\<lparr>mem := m, next_pid := next_pid ?s + 1\<rparr>)"
    "spawn_ready g (?s\<lparr>mem := m, next_pid := next_pid ?s + 1\<rparr>) (insert p ts) c (a_spawn p a) (ys @ [p]) (r + 1) n b cap os"
    "spawn_keeps (mem ?s) m ts os p 1" "ld16 m (p + off_pid) = next_pid ?s + 1" "cstr m (p + off_name) xs"
    "self_kernel_stack m p = p + 3664" "first_frame g m (p + 3664) f arg"
    by (rule ThreadStart_effect [OF R'(1) R(2) R'(2) N])
  let ?t = "?s\<lparr>mem := m, next_pid := next_pid ?s + 1\<rparr>"
  have Y: "exec_room g s ts r (1 + n) b cap os" "layout g ts" using R(1) by (simp_all add: spawn_ready_def rep_def)
  note P = exec_room_page [OF Y _ p]
  have "starts_in g ?t q p f arg" if "q \<in> ts" for q
    by (rule first_switch) (use F(6,7) P(1,2) that in \<open>auto simp: layout_def intro!: pages_sep\<close>)
  moreover have "GetIntStatus ?t = INT_ON" using k(2) by (simp add: GetIntStatus_def)
  ultimately show thesis using that [of ?t] F k(1) by simp
qed

lemma process_starts:
  assumes "new_process g (mem t) p d pid xs f arg" "rep g ts c (mem t) a" "p \<in> ts" "q \<in> ts" "q \<noteq> p"
  shows "starts_in g t q p f arg"
proof (rule first_switch)
  have "layout g ts" using assms(2) by (simp add: rep_def)
  then show "page_aligned p" "sep q 4096 p 4096" using assms(3-5) by (auto simp: layout_def intro!: pages_sep)
qed (use assms(1) in \<open>simp_all add: new_process_def\<close>)

text \<open>C11. The start of the kernel. With more than 51 free kernel pages, \<open>start_threads\<close> creates the two user processes and the
  keyboard thread one after the other and enables interrupts: the scheduler's state has the three at the end of the ready
  sequence, in this order, and its invariant holds; they are numbered in the order of creation and have their names; the
  two processes are complete, each with its own page directory and free user pages, and the creation of the later ones has
  not changed the earlier ones; the first switch from a thread that exists starts \<open>StartProcess\<close> with the program of the
  process, and \<open>KeyboardOutput\<close> for the thread.\<close>

theorem start_threads_run:
  assumes "spawn_ready g s ts c a ys r (51 + n) b cap os" "0 < n"
    and "thread_name g (mem s) os ''userthreada'' xa" "thread_name g (mem s) os ''userthreadb'' xb" "thread_name g (mem s) os ''keyboard_output'' xk"
    and "pa = room_page g (mem s) r" "pb = pa + 25 * PAGE_SIZE" "pk = pa + 50 * PAGE_SIZE"
  shows "\<exists>t. start_threads g s = Ok () t \<and> GetIntStatus t = INT_ON \<and> next_pid t = next_pid s + 3
    \<and> spawn_ready g t ({pk, pb, pa} \<union> ts) c (a_spawn pk (a_spawn pb (a_spawn pa a))) (ys @ [pa, pb, pk]) (r + 51) n b cap
        ({(pb + PAGE_SIZE, 24 * 4096), (pa + PAGE_SIZE, 24 * 4096)} \<union> os)
    \<and> new_process g (mem t) pa (pa + 24 * PAGE_SIZE) (next_pid s + 1) xa (fn_addr g Fn_StartProcess) (fn_addr g Fn_u_prog_a)
    \<and> new_process g (mem t) pb (pb + 24 * PAGE_SIZE) (next_pid s + 2) xb (fn_addr g Fn_StartProcess) (fn_addr g Fn_u_prog_b)
    \<and> ld16 (mem t) (pk + off_pid) = next_pid s + 3 \<and> cstr (mem t) (pk + off_name) xk
    \<and> (\<forall>q \<in> ts. starts_in g t q pa (fn_addr g Fn_StartProcess) (fn_addr g Fn_u_prog_a)
        \<and> starts_in g t q pb (fn_addr g Fn_StartProcess) (fn_addr g Fn_u_prog_b)
        \<and> starts_in g t q pk (fn_addr g Fn_KeyboardOutput) (literal g ''''))"
proof -
  let ?os = "{(pb + PAGE_SIZE, 24 * 4096), (pa + PAGE_SIZE, 24 * 4096)} \<union> os" and ?ts = "{pb, pa} \<union> ts"
  let ?f = "fn_addr g Fn_StartProcess" and ?a = "fn_addr g Fn_u_prog_a" and ?b = "fn_addr g Fn_u_prog_b"
  obtain m1 m2 where E: "ExecProcess g s ?a (literal g ''userthreada'') = Ok () (s\<lparr>mem := m1, next_pid := next_pid s + 1\<rparr>)"
    "ExecProcess g (s\<lparr>mem := m1, next_pid := next_pid s + 1\<rparr>) ?b (literal g ''userthreadb'') = Ok () (s\<lparr>mem := m2, next_pid := next_pid s + 2\<rparr>)"
    "spawn_ready g (s\<lparr>mem := m2, next_pid := next_pid s + 2\<rparr>) ?ts c (a_spawn pb (a_spawn pa a)) (ys @ [pa, pb]) (r + 50) (1 + n) b cap ?os"
    "new_process g m2 pa (pa + 24 * PAGE_SIZE) (next_pid s + 1) xa ?f ?a" "new_process g m2 pb (pb + 24 * PAGE_SIZE) (next_pid s + 2) xb ?f ?b"
    "thread_name g m2 ?os ''keyboard_output'' xk" "room_page g m2 (r + 50) = pa + 50 * PAGE_SIZE" "pa \<notin> ts \<and> pb \<notin> ts"
    by (rule start_processes [OF assms(1-7)])
  let ?s2 = "s\<lparr>mem := m2, next_pid := next_pid s + 2\<rparr>"
  have N: "pk = room_page g (mem ?s2) (r + 50)" "thread_name g (mem ?s2) ?os ''keyboard_output'' xk" using E(6,7) assms(8) by simp_all
  obtain t where T: "ThreadStart g (snd (EnableInt ?s2)) (literal g ''keyboard_output'') 5 (fn_addr g Fn_KeyboardOutput) (literal g '''') = Ok pk t"
    "GetIntStatus t = INT_ON" "next_pid t = next_pid ?s2 + 1"
    "spawn_ready g t (insert pk ?ts) c (a_spawn pk (a_spawn pb (a_spawn pa a))) ((ys @ [pa, pb]) @ [pk]) (r + 50 + 1) n b cap ?os"
    "spawn_keeps (mem ?s2) (mem t) ?ts ?os pk 1" "ld16 (mem t) (pk + off_pid) = next_pid ?s2 + 1" "cstr (mem t) (pk + off_name) xk"
    "\<forall>q \<in> ?ts. starts_in g t q pk (fn_addr g Fn_KeyboardOutput) (literal g '''')"
    by (rule start_keyboard [OF E(3) assms(2) N])
  have K: "kernel_room g s r (51 + n) b cap" using assms(1) by (simp add: spawn_ready_def exec_room_def Let_def)
  have v: "vpn (pa + 24 * PAGE_SIZE) = vpn pa + 24" "vpn (pb + 24 * PAGE_SIZE) = vpn pa + 49" "vpn pk = vpn pa + 50" "vpn pa + 51 \<le> 0xFFC00"
    using room_vpn [OF K assms(6), of 24] room_vpn [OF K assms(6), of 49] room_vpn [OF K assms(6), of 50] room_start(3) [OF K assms(6)]
    by (simp_all add: assms(7,8) PAGE_SIZE_def add.assoc)
  have L: "length xa \<le> 15" "length xb \<le> 15" using assms(3,4) by (simp_all add: thread_name_def)
  have E': "new_process g (mem ?s2) pa (pa + 24 * PAGE_SIZE) (next_pid s + 1) xa ?f ?a"
    "new_process g (mem ?s2) pb (pb + 24 * PAGE_SIZE) (next_pid s + 2) xb ?f ?b" using E(4,5) by simp_all
  have W: "new_process g (mem t) pa (pa + 24 * PAGE_SIZE) (next_pid s + 1) xa ?f ?a"
    "new_process g (mem t) pb (pb + 24 * PAGE_SIZE) (next_pid s + 2) xb ?f ?b"
    using new_process_kept [OF E'(1) L(1) T(5)] new_process_kept [OF E'(2) L(2) T(5)] v by simp_all
  have R: "rep g (insert pk ?ts) c (mem t) (a_spawn pk (a_spawn pb (a_spawn pa a)))" using T(4) by (simp add: spawn_ready_def)
  have "starts_in g t q pa ?f ?a \<and> starts_in g t q pb ?f ?b" if "q \<in> ts" for q
    using process_starts [OF W(1) R] process_starts [OF W(2) R] E(8) that by auto
  moreover have "start_threads g s = Ok () t" using E(1,2) T(1) by (simp add: start_threads_def)
  moreover have "spawn_ready g t ({pk, pb, pa} \<union> ts) c (a_spawn pk (a_spawn pb (a_spawn pa a))) (ys @ [pa, pb, pk]) (r + 51) n b cap ?os"
    using T(4) by (simp add: add.commute [of r])
  moreover have "next_pid t = next_pid s + 3" "ld16 (mem t) (pk + off_pid) = next_pid s + 3" using T(3,6) by simp_all
  moreover have "\<forall>q \<in> ts. starts_in g t q pk (fn_addr g Fn_KeyboardOutput) (literal g '''')" using T(8) by blast
  ultimately show ?thesis using T(2,7) W by blast
qed


theorem start_threads_run_witness:
  "\<exists>t. start_threads demo_symbols demo_exec_state = Ok () t \<and> GetIntStatus t = INT_ON
    \<and> spawn_ready demo_symbols t ({0xC0132000, 0xC0119000, 0xC0100000} \<union> {0x2000, 0x3000}) 0x2000
        (a_spawn 0xC0132000 (a_spawn 0xC0119000 (a_spawn 0xC0100000 demo_sched))) [0x2000, 0x3000, 0xC0100000, 0xC0119000, 0xC0132000]
        51 1 0x200000 64 ({(0xC011A000, 98304), (0xC0101000, 98304)} \<union> {(0x7000, 2)})
    \<and> new_process demo_symbols (mem t) 0xC0100000 0xC0118000 3 [107] 0x6100 0x6B00
    \<and> new_process demo_symbols (mem t) 0xC0119000 0xC0131000 4 [107] 0x6100 0x6C00
    \<and> starts_in demo_symbols t 0x2000 0xC0132000 0x6A00 0x7000"
proof -
  have s: "next_pid demo_exec_state = 2" "fn_addr demo_symbols Fn_StartProcess = 0x6100" "fn_addr demo_symbols Fn_u_prog_a = 0x6B00"
    "fn_addr demo_symbols Fn_u_prog_b = 0x6C00" "fn_addr demo_symbols Fn_KeyboardOutput = 0x6A00" "literal demo_symbols '''' = 0x7000"
    by (simp_all add: demo_exec_state_def demo_state_def demo_symbols_def)
  have r: "spawn_ready demo_symbols demo_exec_state {0x2000, 0x3000} 0x2000 demo_sched [0x2000, 0x3000] 0 (51 + 1) 0x200000 64 {(0x7000, 2)}"
    using demo_spawn_ready by simp
  have t: "thread_name demo_symbols (mem demo_exec_state) {(0x7000, 2)} str [107]" for str
    using demo_exec_name by (simp add: thread_name_def demo_symbols_def)
  have p: "(0xC0119000 :: u32) = 0xC0100000 + 25 * PAGE_SIZE" "(0xC0132000 :: u32) = 0xC0100000 + 50 * PAGE_SIZE"
    "(0xC0100000 + 24 * PAGE_SIZE :: u32) = 0xC0118000" "(0xC0119000 + 24 * PAGE_SIZE :: u32) = 0xC0131000"
    "(0xC0100000 + PAGE_SIZE :: u32) = 0xC0101000" "(0xC0119000 + PAGE_SIZE :: u32) = 0xC011A000" by (simp_all add: PAGE_SIZE_def)
  show ?thesis
    using start_threads_run [OF r _ t t t demo_exec_page p(1,2)] unfolding p(3-6) s by auto
qed

end
