(* ===== verification/Switch.thy ===== *)
theory Switch
  imports Context
begin

text \<open>
  \<open>switch_to\<close> of \<open>thread/switch.S\<close> with the registers it saves. \<open>Scheduler\<close> models its effect on the stack
  pointers; here a thread that is switched away from finds its registers and its place in the program again when
  it is switched to.
\<close>

section \<open>The code\<close>

text \<open>The call pushes \<open>next_thread\<close>, \<open>current_thread\<close> and the return address \<open>ret\<close>.\<close>

definition switch_call :: "addr \<Rightarrow> addr \<Rightarrow> addr \<Rightarrow> kstate \<Rightarrow> kstate" where
  "switch_call current_thread next_thread ret s = push32 ret (push32 current_thread (push32 next_thread s))"

definition switch_body :: "regs \<times> kstate \<Rightarrow> regs \<times> kstate" where
  "switch_body = (\<lambda>(r, s).
     let s = push32 (r_ebp r) (push32 (r_ebx r) (push32 (r_edi r) (push32 (r_esi r) s)));
         eax = ld32 (mem s) (esp s + 20);
         s = put32 s eax (esp s);
         eax = ld32 (mem s) (esp s + 24);
         s = s\<lparr>esp := ld32 (mem s) eax\<rparr>;
         (ebp, s) = pop32 s; (ebx, s) = pop32 s; (edi, s) = pop32 s; (esi, s) = pop32 s;
         (eip, s) = pop32 s
     in (r\<lparr>r_eax := eax, r_ebp := ebp, r_ebx := ebx, r_edi := edi, r_esi := esi, r_eip := eip\<rparr>, s))"

definition switch_regs :: "addr \<Rightarrow> addr \<Rightarrow> addr \<Rightarrow> regs \<times> kstate \<Rightarrow> regs \<times> kstate" where
  "switch_regs current_thread next_thread ret = (\<lambda>(r, s). switch_body (r, switch_call current_thread next_thread ret s))"

section \<open>The saved frame\<close>

text \<open>\<open>struct thread_stack\<close> at \<open>a\<close>: the callee-saved registers and the return address.\<close>

definition thread_stack :: "mem \<Rightarrow> addr \<Rightarrow> regs \<Rightarrow> addr \<Rightarrow> bool" where
  "thread_stack m a r ret \<longleftrightarrow> ld32 m a = r_ebp r \<and> ld32 m (a + 4) = r_ebx r \<and> ld32 m (a + 8) = r_edi r
     \<and> ld32 m (a + 12) = r_esi r \<and> ld32 m (a + 16) = ret"

definition switch_stores :: "mem \<Rightarrow> addr \<Rightarrow> regs \<Rightarrow> addr \<Rightarrow> addr \<Rightarrow> addr \<Rightarrow> mem" where
  "switch_stores m a r c n ret = st32 (st32 (st32 (st32 (st32 (st32 (st32 m (a + 24) n) (a + 20) c) (a + 16) ret)
     (a + 12) (r_esi r)) (a + 8) (r_edi r)) (a + 4) (r_ebx r)) (a + 0) (r_ebp r)"

lemma switch_stores_only: "only_in m (switch_stores m a r c n ret) a 28"
  unfolding switch_stores_def by (intro only_in_stores only_in_refl; simp)

lemma switch_stored:
  "thread_stack (switch_stores m a r c n ret) a r ret" "ld32 (switch_stores m a r c n ret) (a + 20) = c"
  "ld32 (switch_stores m a r c n ret) (a + 24) = n"
  by (simp_all add: thread_stack_def switch_stores_def)

lemma thread_stack_cong: "eq_on m' m a 20 \<Longrightarrow> thread_stack m a r ret \<Longrightarrow> thread_stack m' a r ret"
proof -
  assume e: "eq_on m' m a 20"
  have w: "ld32 m' (a + i) = ld32 m (a + i)" if "unat i + 4 \<le> 20" for i by (rule ld32_cong [OF eq_on_part [OF e that]])
  show "thread_stack m a r ret \<Longrightarrow> thread_stack m' a r ret"
    using w [of 0] by (simp add: thread_stack_def w)
qed

text \<open>The state after the frame is saved, and the registers it is left with.\<close>

lemma switch_regs_at:
  fixes s :: kstate and r :: regs and c n ret :: addr
  assumes a: "a = esp s - 28" and c: "sep c 4 a 28"
  defines "m1 \<equiv> st32 (switch_stores (mem s) a r c n ret) c a"
  shows "switch_regs c n ret (r, s) =
    (r\<lparr>r_eax := n, r_ebp := ld32 m1 (ld32 m1 n), r_ebx := ld32 m1 (ld32 m1 n + 4), r_edi := ld32 m1 (ld32 m1 n + 8),
       r_esi := ld32 m1 (ld32 m1 n + 12), r_eip := ld32 m1 (ld32 m1 n + 16)\<rparr>,
     s\<lparr>esp := ld32 m1 n + 20, mem := m1\<rparr>)"
proof -
  let ?m = "switch_stores (mem s) a r c n ret"
  have e: "esp s = a + 28" by (simp add: a)
  have p: "push32 (r_ebp r) (push32 (r_ebx r) (push32 (r_edi r) (push32 (r_esi r) (switch_call c n ret s)))) = s\<lparr>esp := a, mem := ?m\<rparr>"
    by (simp add: switch_call_def push_at [of _ a, OF e] push_at [of _ a] switch_stores_def)
  have "sep c 4 (a + 24) 4" using sep_offset_right [OF c, of 24 4] by simp
  then have n: "ld32 m1 (a + 24) = n" by (simp add: m1_def switch_stored(3))
  show ?thesis
    unfolding switch_regs_def switch_body_def prod.case p Let_def
    using n by (simp add: switch_stored(2) put32_def m1_def [symmetric] pop32_def add.assoc)
qed

section \<open>Resumption\<close>

text \<open>The switch of \<open>Scheduler\<close> is this one without the contents of the stack.\<close>

lemma switch_regs_to:
  fixes s :: kstate and r :: regs and c n ret :: addr
  assumes a: "a = esp s - 28" and c: "sep c 4 a 28" and n: "sep a 28 n 4"
    and run: "switch_regs c n ret (r, s) = (r1, s1)"
  shows "esp s1 = esp (switch_to s c n)" "ld32 (mem s1) c = a" "thread_stack (mem s1) a r ret"
    "\<forall>x. \<not> inr x a 28 \<longrightarrow> mem s1 x = mem (switch_to s c n) x"
proof -
  let ?m = "switch_stores (mem s) a r c n ret"
  have s1: "mem s1 = st32 ?m c a" "esp s1 = ld32 (st32 ?m c a) n + 20"
    using run switch_regs_at [OF a c, where r = r and n = n and ret = ret] by auto
  show "ld32 (mem s1) c = a" by (simp add: s1)
  have b: "st32 ?m c a x = st32 (mem s) c a x" if "\<not> inr x a 28" for x
    using only_inD [OF switch_stores_only that, of "mem s" r c n ret] by (simp add: st32_def)
  then show "\<forall>x. \<not> inr x a 28 \<longrightarrow> mem s1 x = mem (switch_to s c n) x"
    by (simp add: s1 switch_to_def Let_def a)
  have "eq_on (st32 ?m c a) (st32 (mem s) c a) n 4"
    unfolding eq_on_def using b sep_disjoint [OF sep_sym [OF n]] by blast
  then show "esp s1 = esp (switch_to s c n)" by (simp add: s1 switch_to_def Let_def a ld32_cong)
  have "eq_on (st32 ?m c a) ?m a 20"
    by (rule only_in_sep [OF only_in_st32]) (use sep_offset_right [OF c, of 0 20] in simp)
  from thread_stack_cong [OF this switch_stored(1)] show "thread_stack (mem s1) a r ret" by (simp add: s1)
qed

lemma switch_back:
  fixes s :: kstate and r :: regs and c d ret ret' :: addr
  assumes st: "thread_stack (mem s) a r ret" "ld32 (mem s) c = a" and b: "b = esp s - 28" "sep d 4 b 28"
    and sp: "sep d 4 c 4" "sep d 4 a 20" "sep b 28 c 4" "sep b 28 a 20"
    and run: "switch_regs d c ret' (r', s) = (r2, s2)"
  shows "r_ebp r2 = r_ebp r" "r_ebx r2 = r_ebx r" "r_edi r2 = r_edi r" "r_esi r2 = r_esi r" "r_eip r2 = ret" "esp s2 = a + 20"
proof -
  let ?m = "st32 (switch_stores (mem s) b r' d c ret') d b"
  have o: "eq_on ?m (mem s) x k" if "sep d 4 x k" "sep b 28 x k" for x k
    using only_in_sep [OF only_in_st32 that(1)] only_in_sep [OF switch_stores_only that(2)] by (auto simp: eq_on_def)
  have c: "ld32 ?m c = a" using ld32_cong [OF o [OF sp(1,3)]] st(2) by simp
  have "thread_stack ?m a r ret" by (rule thread_stack_cong [OF o [OF sp(2,4)] st(1)])
  with run switch_regs_at [OF b, where r = r' and n = c and ret = ret'] c
  show "r_ebp r2 = r_ebp r" "r_ebx r2 = r_ebx r" "r_edi r2 = r_edi r" "r_esi r2 = r_esi r" "r_eip r2 = ret" "esp s2 = a + 20"
    by (auto simp: thread_stack_def)
qed

text \<open>C13. Context switches are transparent. A thread \<open>c\<close> calls \<open>switch_to\<close>, other threads run, and some thread \<open>d\<close> switches
  back to \<open>c\<close>; if meanwhile nobody wrote to the saved frame and the saved stack pointer of \<open>c\<close>, then \<open>c\<close> goes on behind its
  call, with its stack pointer and the registers a C function may rely on. Both switches move the
  stack pointers the way the scheduler's model of them does.\<close>

theorem switch_to_resumes:
  assumes "a = esp s - 28" "sep c 4 a 28" "sep a 28 n 4" "switch_regs c n ret (r, s) = (r1, s1)"
    and "ld32 (mem s') c = ld32 (mem s1) c" "eq_on (mem s') (mem s1) a 20"
    and "b = esp s' - 28" "sep d 4 b 28" "sep d 4 c 4" "sep d 4 a 20" "sep b 28 c 4" "sep b 28 a 20"
    and "switch_regs d c ret' (r', s') = (r2, s2)"
  shows "r_eip r2 = ret \<and> esp s2 = esp s - 8 \<and> r_ebp r2 = r_ebp r \<and> r_ebx r2 = r_ebx r \<and> r_edi r2 = r_edi r \<and> r_esi r2 = r_esi r
    \<and> esp s1 = esp (switch_to s c n) \<and> esp s2 = esp (switch_to s' d c)"
proof -
  note A = switch_regs_to [OF assms(1-4)]
  have "thread_stack (mem s') a r ret" by (rule thread_stack_cong [OF assms(6) A(3)])
  from switch_back [OF this _ assms(7-13)] A(2) assms(5)
  have "r_ebp r2 = r_ebp r" "r_ebx r2 = r_ebx r" "r_edi r2 = r_edi r" "r_esi r2 = r_esi r" "r_eip r2 = ret" "esp s2 = a + 20" by simp_all
  moreover have "esp s2 = esp (switch_to s' d c)"
    using switch_regs_to(1) [OF assms(7,8) _ assms(13)] assms(11) by simp
  ultimately show ?thesis using A(1) assms(1) by simp
qed

text \<open>The thread at \<open>0x2000\<close> switches to the one at \<open>0x3000\<close>, which switches back at once.\<close>

theorem switch_to_resumes_witness:
  "let (r1, s1) = switch_regs 0x2000 0x3000 0xC0001234 (demo_user_regs, demo_state);
       (r2, s2) = switch_regs 0x3000 0x2000 0xC0005678 (r1, s1)
   in r_eip r2 = 0xC0001234 \<and> esp s2 = 0x2EF8 \<and> r_esi r2 = 14 \<and> r_edi r2 = 15"
proof -
  obtain r1 s1 where e1: "switch_regs 0x2000 0x3000 0xC0001234 (demo_user_regs, demo_state) = (r1, s1)" by (rule prod.exhaust)
  obtain r2 s2 where e2: "switch_regs 0x3000 0x2000 0xC0005678 (r1, s1) = (r2, s2)" by (rule prod.exhaust)
  have d: "esp demo_state = 0x2F00" "r_esi demo_user_regs = 14" "r_edi demo_user_regs = 15"
    by (simp_all add: demo_state_def demo_user_regs_def)
  have a: "0x2EE4 = esp demo_state - 28" "sep 0x2000 4 0x2EE4 28" "sep 0x2EE4 28 0x3000 4" by (simp_all add: d sep_def)
  have "ld32 (mem (switch_to demo_state 0x2000 0x3000)) 0x3000 = 0x3F00" "esp (switch_to demo_state 0x2000 0x3000) = 0x3F14"
    by (simp_all add: switch_to_def Let_def d demo_state_def demo_mem_def sep_def)
  then have "esp s1 = 0x3F14" using switch_regs_to(1) [OF a e1] by simp
  then have b: "0x3EF8 = esp s1 - 28" "sep 0x3000 4 0x3EF8 28" "sep 0x3000 4 0x2000 4" "sep 0x3000 4 0x2EE4 20"
    "sep 0x3EF8 28 0x2000 4" "sep 0x3EF8 28 0x2EE4 20" by (simp_all add: sep_def)
  have same: "eq_on (mem s1) (mem s1) 0x2EE4 20" by (simp add: eq_on_def)
  from switch_to_resumes [OF a e1 refl same b e2] show ?thesis by (simp add: e1 e2 d)
qed

end
