(* ===== verification/HeapRelease.thy ===== *)
theory HeapRelease
  imports HeapPages
begin

text \<open>
  The last block of an arena: \<open>sys_free\<close> (\<open>kernel/memory.c\<close>) takes the blocks of the arena out of the
  free list and gives its page back to the page allocator.
\<close>

section \<open>Arenas and the page allocator\<close>

definition heap_meta_apart :: "symbols \<Rightarrow> kstate \<Rightarrow> pool_flags \<Rightarrow> addr set \<Rightarrow> bool" where
  "heap_meta_apart g s pf ps \<longleftrightarrow> meta_apart g s pf (pool_lock (memory_pool_of g pf)) 28
     \<and> meta_apart g s pf (arenas_of_thread g s) 168 \<and> palloc_apart g s pf (PDE_field s) 4
     \<and> (\<forall>av \<in> ps. meta_apart g s pf av 4096)"

lemma arena_frame_meta:
  assumes "arena_frame d ps (mem s) m'" "meta_apart g s pf d 24" "\<forall>av \<in> ps. meta_apart g s pf av 4096"
  shows "meta_same g s pf m'"
proof -
  have e: "eq_on m' (mem s) x k" if "sep d 24 x k" "\<forall>av \<in> ps. sep av 4096 x k" for x k
    by (rule arena_frame_eq_on [OF assms(1) that(1)]) (use that(2) in blast)
  show ?thesis
    using assms(2,3) unfolding meta_same_def meta_apart_def palloc_apart_def Let_def by (auto intro!: e simp: sep_commute)
qed

text \<open>The page of an empty arena is the page \<open>j\<close> of the pool; nothing of the heap is among the data of the allocator.\<close>

definition page_release :: "symbols \<Rightarrow> kstate \<Rightarrow> pool_flags \<Rightarrow> nat \<Rightarrow> nat \<Rightarrow> mem \<Rightarrow> addr \<Rightarrow> bool" where
  "page_release g s pf r j m' av \<longleftrightarrow>
     (let p = memory_pool_of g pf; pv = vaddr_pool g s pf
      in used_pages p (s\<lparr>mem := m'\<rparr>) = used_pages p s - {j} \<and> ld32 m' (GetPTEPointer av) = 0
         \<and> (\<forall>k < bm_size (mem s) pv. bm m' pv k = (bm (mem s) pv k \<and> k \<noteq> r)) \<and> bm_size m' pv = bm_size (mem s) pv
         \<and> (\<forall>x k. meta_apart g (s\<lparr>mem := m'\<rparr>) pf x k = meta_apart g s pf x k))"

lemma page_release_cong:
  "page_release g s pf r j m av \<Longrightarrow> meta_same g (s\<lparr>mem := m\<rparr>) pf m' \<Longrightarrow> page_release g s pf r j m' av"
  using meta_views(1,5) [of g "s\<lparr>mem := m\<rparr>" pf m'] meta_fields(8,9,11) [of g "s\<lparr>mem := m\<rparr>" pf m', OF _ refl refl]
  unfolding page_release_def Let_def by auto

lemma pfree_page:
  assumes ready: "pfree_ready g s pf r [j] b cap" and same: "meta_same g s pf m"
    and av: "av = vaddr_start (mem s) (vaddr_pool g s pf) + of_nat r * PAGE_SIZE"
  shows "\<exists>m'. pfree g (s\<lparr>mem := m\<rparr>) pf av 1 = Ok () (s\<lparr>mem := m'\<rparr>) \<and> page_release g s pf r j m' av
    \<and> palloc_frame g (s\<lparr>mem := m\<rparr>) pf m'"
proof -
  let ?pv = "vaddr_pool g s pf" and ?p = "memory_pool_of g pf" and ?s = "s\<lparr>mem := m\<rparr>"
  note M = meta_views [OF same] and F = meta_fields [OF same refl refl]
  have "pfree_ready g ?s pf r [j] b cap" "av = vaddr_start (mem ?s) ?pv + of_nat r * PAGE_SIZE" using ready M av F by simp_all
  from pfree_effect [OF this(1) _ _ _ refl this(2), of 1] obtain m' where B:
    "pfree g ?s pf av 1 = Ok () (s\<lparr>mem := m'\<rparr>)" "used_pages ?p (s\<lparr>mem := m'\<rparr>) = used_pages ?p ?s - {j}"
    "ld32 m' (GetPTEPointer av) = 0" "\<forall>k < bm_size (mem s) ?pv. bm m' ?pv k = (bm m ?pv k \<and> \<not> (r \<le> k \<and> k < r + 1))"
    "eq_on m' m ?pv 12" "eq_on m' m ?p 44" "palloc_frame g ?s pf m'"
    by (auto simp: F)
  have e: "eq_on m m' ?pv 8" "eq_on m m' ?p 8"
    using eq_on_part [OF B(5), of 0 8] eq_on_part [OF B(6), of 0 8] by (simp_all add: eq_on_def)
  note E = bitmap_frame [OF e(1), symmetric] bitmap_frame [OF e(2), symmetric]
  have "meta_apart g (s\<lparr>mem := m'\<rparr>) pf x k = meta_apart g s pf x k" for x k
    by (simp add: meta_apart_def palloc_apart_def E F)
  moreover have "bm m' ?pv k = (bm (mem s) ?pv k \<and> k \<noteq> r)" if "k < bm_size (mem s) ?pv" for k
    using B(4) F(9) that by auto
  ultimately have "page_release g s pf r j m' av"
    using B(2,3) M(1) by (simp add: page_release_def bm_size_def E F)
  with B(1,7) show ?thesis by blast
qed

section \<open>Releasing an arena\<close>

lemma release_body:
  assumes inv: "heap_inv g s i ps xs" and bs: "bs = class_size i" and x: "x \<in> blocks_of bs ps" "x \<notin> set xs"
    and av: "av = block2arena x" and c: "Suc (card (free_in bs av (set xs))) = 4084 div bs"
    and pf: "pf = pool_of_thread s" and a: "a = arenas_of_thread g s" and l: "l = pool_lock (memory_pool_of g pf)"
    and ready: "pfree_ready g s pf r [j] b cap" and v: "av = vaddr_start (mem s) (vaddr_pool g s pf) + of_nat r * PAGE_SIZE"
    and ap: "heap_meta_apart g s pf ps" and o: "only_in (mem s) m l 28"
  shows "\<exists>m'. free_block g (s\<lparr>mem := m\<rparr>) pf av x = Ok () (s\<lparr>mem := m'\<rparr>) \<and> eq_on m' m l 28 \<and> page_release g s pf r j m' av
    \<and> arena_inv m' (desc_at a i) bs (ps - {av}) (filter (\<lambda>y. block2arena y \<noteq> av) xs) \<and> desc_sizes m' a
    \<and> eq_on m' (mem s) (PDE_field s) 4 \<and> (\<forall>z \<in> blocks_of bs (ps - {av}) - set xs. eq_on m' (mem s) z bs)"
proof -
  let ?d = "desc_at a i" and ?s = "s\<lparr>mem := m\<rparr>" and ?ws = "filter (\<lambda>y. block2arena y \<noteq> av) xs"
  have i: "i < 7" and lay: "heap_layout g s ps" and al: "arena_layout ?d bs ps"
    using inv by (simp_all add: heap_inv_def a bs arena_inv_def)
  note A = ap [unfolded heap_meta_apart_def, folded l a]
  have len: "0 < unat (bitmap_bytes_len (mem s) (vaddr_pool g s pf))" "0 < unat (bitmap_bytes_len (mem s) (memory_pool_of g pf))"
    using ready by (simp_all add: pfree_ready_def Let_def pool_apart_def)
  note H = heap_locked [OF inv a l [unfolded pf] o, folded bs]
  have same0: "meta_same g s pf m" by (rule meta_apart_same [OF _ o]) (use A in blast)
  note M0 = meta_views [OF same0]
  have "arena_inv (mem ?s) ?d bs ps xs" using H(1) by simp
  from free_block_releases [OF this x av c, of g pf] obtain m1 where R: "free_block g ?s pf av x = pfree g (s\<lparr>mem := m1\<rparr>) pf av 1"
    "arena_inv m1 ?d bs (ps - {av}) ?ws" "arena_frame ?d ps m m1" "\<forall>z \<in> blocks_of bs ps - set (x # xs). eq_on m1 m z bs" "av \<in> ps"
    by auto
  have dm: "meta_apart g ?s pf ?d 24"
  proof -
    have "unat (of_nat i * sizeof_arena_desc) + 24 \<le> 168"
      using i unat_mult_lt [of "of_nat i" sizeof_arena_desc] by (simp add: sizeof_arena_desc_def)
    from meta_apart_part [OF _ this _ len] show ?thesis using A M0(5) by (simp add: desc_at_def)
  qed
  have "arena_frame ?d ps (mem ?s) m1" using R(3) by simp
  from arena_frame_meta [OF this dm] A M0(5) have "meta_same g ?s pf m1" by blast
  then have same1: "meta_same g s pf m1" using same0 meta_fields [OF same0 refl refl]
    unfolding meta_same_def Let_def by (auto simp: eq_on_def)
  from pfree_page [OF ready same1 v] obtain m2 where P: "pfree g (s\<lparr>mem := m1\<rparr>) pf av 1 = Ok () (s\<lparr>mem := m2\<rparr>)"
    "page_release g s pf r j m2 av" "palloc_frame g (s\<lparr>mem := m1\<rparr>) pf m2" by blast
  have e2: "eq_on m2 m1 y k" if "palloc_apart g s pf y k" for y k
    using palloc_frame_eq_on [OF P(3)] meta_views(4) [OF same1] that by simp
  have part: "eq_on m2 m1 ?d 24" "eq_on m2 m1 l 28" "eq_on m2 m1 (PDE_field s) 4" "\<forall>aw \<in> ps. eq_on m2 m1 aw 4096" "eq_on m2 m1 a 168"
    using e2 A dm M0(5) by (auto simp: meta_apart_def)
  have "is_desc m1 ?d (class_size i)" using R(2) by (simp add: arena_inv_def bs)
  note S = heap_step [OF lay a i l [unfolded pf] R(3) H(2) this]
  have inv2: "arena_inv m2 ?d bs (ps - {av}) ?ws" by (rule arena_inv_apart [OF R(2) part(1)]) (use part(4) in blast)
  have "desc_sizes m2 a"
  proof (rule desc_sizes_cong [OF S(1), of i])
    show "is_desc m2 ?d (class_size i)" using inv2 by (simp add: arena_inv_def bs)
    fix k :: nat assume "k < 7"
    then have "unat (of_nat k * sizeof_arena_desc) + 24 \<le> 168"
      using unat_mult_lt [of "of_nat k" sizeof_arena_desc] by (simp add: sizeof_arena_desc_def)
    from eq_on_part [OF part(5) this] show "eq_on m2 m1 (desc_at a k) 24" by (simp add: desc_at_def)
  qed
  moreover have "eq_on m2 m l 28" "eq_on m2 (mem s) (PDE_field s) 4" using part S H(3) by (simp_all add: eq_on_def)
  moreover have "eq_on m2 (mem s) z bs" if z: "z \<in> blocks_of bs (ps - {av}) - set xs" for z
  proof -
    have al2: "arena_layout ?d bs (ps - {av})" using R(2) by (simp add: arena_inv_def)
    have "block2arena z \<in> ps - {av}" using block_cases [OF al2, of z] z by (metis DiffD1)
    then have zx: "z \<noteq> x" using av by auto
    have zb: "z \<in> blocks_of bs ps" using z by (auto simp: blocks_of_def)
    have "eq_on m2 m1 z bs" using block_in_page [OF al zb order_refl] part(4) by (auto simp: eq_on_def)
    moreover have "eq_on m1 m z bs" using R(4) z zb zx by auto
    moreover have "eq_on m (mem s) z bs"
      using only_in_sep [OF o] heap_block_sep [OF lay al zb] by (simp add: l pf)
    ultimately show ?thesis by (simp add: eq_on_def)
  qed
  ultimately show ?thesis using R(1) P(1,2) inv2 by (intro exI [of _ m2]) simp
qed

lemma free_releases:
  assumes inv: "heap_inv g s i ps xs" and bs: "bs = class_size i" and x: "x \<in> blocks_of bs ps" "x \<notin> set xs"
    and av: "av = block2arena x" and c: "Suc (card (free_in bs av (set xs))) = 4084 div bs"
    and pf: "pf = pool_of_thread s" and k: "pf = KERNEL_POOL \<longrightarrow> x \<ge> KERNEL_HEAP_BASE"
    and ready: "pfree_ready g s pf r [j] b cap" and v: "av = vaddr_start (mem s) (vaddr_pool g s pf) + of_nat r * PAGE_SIZE"
    and ap: "heap_meta_apart g s pf ps"
  shows "\<exists>m'. sys_free g s x = Ok () (s\<lparr>mem := m'\<rparr>) \<and> page_release g s pf r j m' av
    \<and> heap_inv g (s\<lparr>mem := m'\<rparr>) i (ps - {av}) (filter (\<lambda>y. block2arena y \<noteq> av) xs)
    \<and> (\<forall>z \<in> blocks_of bs (ps - {av}) - set xs. eq_on m' (mem s) z bs)"
proof -
  define a where "a = arenas_of_thread g s"
  define l where "l = pool_lock (memory_pool_of g pf)"
  let ?d = "desc_at a i" and ?ws = "filter (\<lambda>y. block2arena y \<noteq> av) xs" and ?live = "blocks_of bs (ps - {av}) - set xs"
  let ?Q = "\<lambda>m'. page_release g s pf r j m' av \<and> arena_inv m' ?d bs (ps - {av}) ?ws \<and> desc_sizes m' a
    \<and> eq_on m' (mem s) (PDE_field s) 4 \<and> (\<forall>z \<in> ?live. eq_on m' (mem s) z bs)"
  have i: "i < 7" and lay: "heap_layout g s ps" and fr: "lock_free s l" and al: "arena_layout ?d bs ps"
    using inv by (simp_all add: heap_inv_def l_def pf a_def bs arena_inv_def)
  have lay2: "heap_layout g s (ps - {av})" using lay by (auto simp: heap_layout_def Let_def)
  have avp: "av \<in> ps" using block_cases [OF al x(1)] av by metis
  have l': "l = pool_lock (memory_pool_of g (pool_of_thread s))" by (simp add: l_def pf)
  have body: "large_request m (block2arena x) = 0
      \<and> (\<exists>m'. free_block g (s\<lparr>mem := m\<rparr>) (pool_of_thread s) (block2arena x) x = Ok () (s\<lparr>mem := m'\<rparr>) \<and> eq_on m' m l 28 \<and> ?Q m')"
    if o: "only_in (mem s) m l 28" for m
  proof
    show "large_request m (block2arena x) = 0"
      using heap_locked(1) [OF inv a_def l' o] avp av by (auto simp: arena_inv_def arena_header_def)
    from release_body [OF inv bs x av c pf a_def l_def ready v ap o]
    show "\<exists>m'. free_block g (s\<lparr>mem := m\<rparr>) (pool_of_thread s) (block2arena x) x = Ok () (s\<lparr>mem := m'\<rparr>) \<and> eq_on m' m l 28 \<and> ?Q m'"
      by (simp add: av pf)
  qed
  have k': "pool_of_thread s = KERNEL_POOL \<longrightarrow> x \<ge> KERNEL_HEAP_BASE" using k pf by simp
  obtain m1 m2 where G: "sys_free g s x = Ok () (s\<lparr>mem := m2\<rparr>)" "?Q m1" "only_in m1 m2 l 28" "lock_free (s\<lparr>mem := m2\<rparr>) l"
    by (rule sys_free_small [OF block_nonnull [OF al x(1)] k' l' fr, of ?Q]) (use body in blast)
  have "heap_inv g (s\<lparr>mem := m2\<rparr>) i (ps - {av}) ?ws"
    by (rule heap_unlocked [OF lay2 a_def i l' _ _ _ G(3,4)]) (use G(2) in \<open>simp_all add: bs\<close>)
  moreover have "page_release g s pf r j m2 av"
  proof (rule page_release_cong)
    show "page_release g s pf r j m1 av" using G(2) by blast
    moreover have "meta_apart g s pf l 28" using ap by (simp add: heap_meta_apart_def l_def)
    ultimately have "meta_apart g (s\<lparr>mem := m1\<rparr>) pf l 28" by (simp add: page_release_def Let_def)
    then show "meta_same g (s\<lparr>mem := m1\<rparr>) pf m2" by (rule meta_apart_same) (use G(3) in simp)
  qed
  moreover have "eq_on m2 (mem s) z bs" if z: "z \<in> ?live" for z
  proof -
    have "z \<in> blocks_of bs ps" using z by (auto simp: blocks_of_def)
    then show ?thesis using only_in_sep [OF G(3) [unfolded l'] heap_block_sep [OF lay al]] G(2) z by (auto simp: eq_on_def)
  qed
  ultimately show ?thesis using G(1) by blast
qed

text \<open>C19. The last block of an arena. When \<open>sys_free\<close> gets the last block in use of an arena, it takes every block of the
  arena out of the free list and returns the page: its frame is free again in the pool, its virtual page is
  free and unmapped, the heap's invariant holds without the arena, and no block in use of another arena
  changes.\<close>

theorem sys_free_releases_arena:
  assumes "heap_inv g s i ps xs" "bs = class_size i" "x \<in> blocks_of bs ps" "x \<notin> set xs"
    and "av = block2arena x" "Suc (card (free_in bs av (set xs))) = 4084 div bs"
    and "pf = pool_of_thread s" "pf = KERNEL_POOL \<longrightarrow> x \<ge> KERNEL_HEAP_BASE"
    and "pfree_ready g s pf r [j] b cap" "av = vaddr_start (mem s) (vaddr_pool g s pf) + of_nat r * PAGE_SIZE"
    and "heap_meta_apart g s pf ps"
  shows "\<exists>m'. sys_free g s x = Ok () (s\<lparr>mem := m'\<rparr>)
    \<and> used_pages (memory_pool_of g pf) (s\<lparr>mem := m'\<rparr>) = used_pages (memory_pool_of g pf) s - {j}
    \<and> ld32 m' (GetPTEPointer av) = 0
    \<and> (\<forall>k < bm_size (mem s) (vaddr_pool g s pf).
          bm m' (vaddr_pool g s pf) k = (bm (mem s) (vaddr_pool g s pf) k \<and> k \<noteq> r))
    \<and> heap_inv g (s\<lparr>mem := m'\<rparr>) i (ps - {av}) (filter (\<lambda>y. block2arena y \<noteq> av) xs)
    \<and> (\<forall>z \<in> blocks_of bs (ps - {av}) - set xs. eq_on m' (mem s) z bs)"
proof -
  obtain m' where F: "sys_free g s x = Ok () (s\<lparr>mem := m'\<rparr>)" "page_release g s pf r j m' av"
    "heap_inv g (s\<lparr>mem := m'\<rparr>) i (ps - {av}) (filter (\<lambda>y. block2arena y \<noteq> av) xs)"
    "\<forall>z \<in> blocks_of bs (ps - {av}) - set xs. eq_on m' (mem s) z bs"
    using free_releases [OF assms] by blast
  note P = F(2) [unfolded page_release_def Let_def]
  show ?thesis
    by (rule exI [of _ m'], intro conjI) (use F(1,3,4) P in blast)+
qed

text \<open>
  The page \<open>0xC0100000\<close>, mapped to the first frame of the kernel pool, is an arena of 1024-byte blocks with
  the blocks 1 and 2 free and the block 0 in use.
\<close>

definition demo_last :: mem where
  "demo_last = st32 (st8 (st8 (st32 (st32 (st32 (st32 (st32 (st32 (st32 (st32 (st32 (st32 (st32 demo_heap0
     0x1494 3) 0x149C 0xC010040C) 0xC010040C 0x1498) 0xC0100410 0xC010080C) 0xC010080C 0xC010040C) 0xC0100810 0x14A0)
     0x14A0 0xC010080C) 0xC0100000 0x1490) 0xC0100004 2) 0xC0100008 0) 0x1208 0x208000)
     0xC009A000 1) 0xC009A001 1) 0xFFF00400 0x200007"

lemmas demo_last_defs = demo_last_def demo_heap0_def demo_pools_def sep_def

lemma demo_last_views:
  "ld32 demo_last 0x2030 = 0" "is_desc demo_last 0x1490 1024" "lock_free (demo_heap_state demo_last) 0x1110"
  "mem (demo_heap_state demo_last) = demo_last" "arena_header demo_last 0xC0100000 0x1490 2"
  "is_list demo_last (free_list 0x1490) [0xC010040C, 0xC010080C]"
  by (simp_all add: demo_last_defs is_desc_def block_size_def memory_blocks_sum_def lock_view demo_heap_state_def
      demo_pool_state_def demo_state_def GetCurrentThreadPCB_def PAGE_MASK_def arena_header_def arena_desc_of_def
      large_request_def arena_cnt_def demo_simps free_list_def)

lemma demo_last_sizes: "desc_sizes demo_last 0x1400"
  unfolding desc_sizes_def less_7_cases
  by (simp add: demo_last_defs desc_at_def sizeof_arena_desc_def block_size_def class_size_def)

lemma demo_last_free_in: "card (free_in 1024 0xC0100000 {0xC010040C, 0xC010080C}) = 2"
proof -
  have "block_at 0xC0100000 1024 j \<in> {0xC010040C, 0xC010080C} \<longleftrightarrow> j = 1 \<or> j = 2" if "j < 3" for j
    using that by (auto simp: block_at_def numeral_3_eq_3 less_Suc_eq)
  then have "free_in 1024 0xC0100000 {0xC010040C, 0xC010080C} = {1, 2}" by (auto simp: free_in_def block_at_def)
  then show ?thesis by simp
qed

lemma demo_last_blocks: "{0xC010000C, 0xC010040C, 0xC010080C} \<subseteq> blocks_of 1024 {0xC0100000}"
proof -
  have "block_at 0xC0100000 1024 0 = 0xC010000C" "block_at 0xC0100000 1024 1 = 0xC010040C" "block_at 0xC0100000 1024 2 = 0xC010080C"
    by (simp_all add: block_at_def)
  then show ?thesis unfolding blocks_of_def by (auto intro: exI [of _ 0] exI [of _ 1] exI [of _ 2])
qed

lemma demo_last_inv: "heap_inv demo_symbols (demo_heap_state demo_last) 6 {0xC0100000} [0xC010040C, 0xC010080C]"
proof -
  note V = demo_last_views and T = demo_thread [OF demo_last_views(1)]
  have d: "desc_at 0x1400 6 = 0x1490" by (simp add: desc_at_def sizeof_arena_desc_def)
  have c: "class_size 6 = 1024" by (simp add: class_size_def)
  have A: "arena_layout 0x1490 1024 {0xC0100000}"
    using heap_arena_layout [OF demo_heap_layout(1) [OF V(1)], of 6] unfolding T d by (simp add: c)
  have "arena_inv demo_last 0x1490 1024 {0xC0100000} [0xC010040C, 0xC010080C]"
    unfolding arena_inv_def using A V(2,5,6) demo_last_blocks demo_last_free_in by simp
  then show ?thesis
    unfolding heap_inv_def T V(4) d c using V(3) demo_last_sizes demo_heap_layout [OF V(1)] by (simp add: pool_lock_def)
qed

lemma demo_last_pools:
  "bitmap_bytes_len demo_last 0x1100 = 1" "bits demo_last 0x1100 = 0xC009A000" "physic_addr_start demo_last 0x1100 = 0x200000"
  "physic_addr_start demo_last 0x1200 = 0x208000" "bitmap_bytes_len demo_last 0x1300 = 1" "bits demo_last 0x1300 = 0xC009A001"
  "vaddr_start demo_last 0x1300 = 0xC0100000" "VirtualAddrToPhysicAddr demo_last 0xC0100000 = 0x200000"
  by (simp_all add: demo_last_defs bitmap_bytes_len_def bits_def physic_addr_start_def vaddr_start_def
      VirtualAddrToPhysicAddr_def GetPTEPointer_def PTE_IDX_def PDE_IDX_def Let_def)

lemma demo_last_used: "used_pages 0x1100 (demo_heap_state demo_last) = {0}"
proof -
  have "bm demo_last 0x1100 j \<longleftrightarrow> j = 0" if "j < 8" for j
    using that by (simp add: bm_def demo_last_pools) (simp add: demo_last_defs bit_1_iff)
  then show ?thesis by (auto simp: used_pages_def demo_last_views bm_size_def demo_last_pools)
qed

lemma demo_last_ready:
  "pfree_ready demo_symbols (demo_heap_state demo_last) KERNEL_POOL 0 [0] 0x200000 8"
  "heap_meta_apart demo_symbols (demo_heap_state demo_last) KERNEL_POOL {0xC0100000}"
proof -
  note V = demo_last_views and T = demo_thread [OF demo_last_views(1)] and W = demo_last_pools
  have g: "kernel_memory_pool demo_symbols = 0x1100" "user_memory_pool demo_symbols = 0x1200" by (simp_all add: demo_symbols_def)
  show "pfree_ready demo_symbols (demo_heap_state demo_last) KERNEL_POOL 0 [0] 0x200000 8"
    unfolding pfree_ready_def Let_def T V(4)
    by (simp add: W bitmap_wf_def sep_def pool_inv_def pool_ok_def bm_size_def V(4) pool_apart_def page_aligned_def PAGE_MASK_def
        vpn_def pool_side_def g page_side_def run_mapped_def page_at_def)
  show "heap_meta_apart demo_symbols (demo_heap_state demo_last) KERNEL_POOL {0xC0100000}"
    unfolding heap_meta_apart_def meta_apart_def palloc_apart_def T V(4)
    by (simp add: W g sep_def pool_lock_def)
qed

theorem sys_free_releases_arena_witness:
  "\<exists>m'. sys_free demo_symbols (demo_heap_state demo_last) 0xC010000C = Ok () (demo_heap_state m')
    \<and> heap_inv demo_symbols (demo_heap_state m') 6 {} [] \<and> used_pages 0x1100 (demo_heap_state m') = {}"
proof -
  note T = demo_thread [OF demo_last_views(1)]
  have b: "0xC0100000 = block2arena 0xC010000C" "block2arena 0xC010040C = 0xC0100000" "block2arena 0xC010080C = 0xC0100000"
    by (simp_all add: block2arena_def)
  have c: "1024 = class_size 6" by (simp add: class_size_def)
  have m: "(demo_heap_state demo_last)\<lparr>mem := m'\<rparr> = demo_heap_state m'" for m' by (simp add: demo_heap_state_def)
  have "\<exists>m'. sys_free demo_symbols (demo_heap_state demo_last) 0xC010000C = Ok () ((demo_heap_state demo_last)\<lparr>mem := m'\<rparr>)
    \<and> used_pages (memory_pool_of demo_symbols KERNEL_POOL) ((demo_heap_state demo_last)\<lparr>mem := m'\<rparr>)
        = used_pages (memory_pool_of demo_symbols KERNEL_POOL) (demo_heap_state demo_last) - {0}
    \<and> ld32 m' (GetPTEPointer 0xC0100000) = 0
    \<and> (\<forall>k < bm_size (mem (demo_heap_state demo_last)) (vaddr_pool demo_symbols (demo_heap_state demo_last) KERNEL_POOL).
          bm m' (vaddr_pool demo_symbols (demo_heap_state demo_last) KERNEL_POOL) k
            = (bm (mem (demo_heap_state demo_last)) (vaddr_pool demo_symbols (demo_heap_state demo_last) KERNEL_POOL) k \<and> k \<noteq> 0))
    \<and> heap_inv demo_symbols ((demo_heap_state demo_last)\<lparr>mem := m'\<rparr>) 6 ({0xC0100000} - {0xC0100000})
        (filter (\<lambda>y. block2arena y \<noteq> 0xC0100000) [0xC010040C, 0xC010080C])
    \<and> (\<forall>z \<in> blocks_of 1024 ({0xC0100000} - {0xC0100000}) - set [0xC010040C, 0xC010080C]. eq_on m' (mem (demo_heap_state demo_last)) z 1024)"
    by (rule sys_free_releases_arena [OF demo_last_inv c _ _ b(1) _ _ _ demo_last_ready(1) _ demo_last_ready(2)])
      (use demo_last_blocks demo_last_free_in in
        \<open>simp_all add: T KERNEL_HEAP_BASE_def demo_last_views demo_last_pools\<close>)
  then show ?thesis unfolding m by (auto simp: b T demo_last_used)
qed

end
