(* ===== verification/Ide.thy ===== *)
theory Ide
  imports Arena
begin

text \<open>
  \<open>device/ide.c\<close> and \<open>device/ide.h\<close>: the channels of the disk controller and their initialisation. The
  functions \<open>printk\<close>, \<open>sprintf\<close>, \<open>lock_init\<close> and \<open>sema_init\<close> that \<open>ide.c\<close> calls are not part of the repository: they
  are fields of the record \<open>ide_library\<close>, and \<open>ide_contract\<close> states what the driver relies on.
\<close>

section \<open>Layout of structures\<close>

text \<open>
  The layout rule of the ABI: each field, given by its size and its alignment, starts at the next
  multiple of its alignment, and the size of the structure is a multiple of its own.
\<close>

definition round_up :: "nat \<Rightarrow> nat \<Rightarrow> nat" where
  "round_up a n = (n + a - 1) div a * a"

fun field_offsets :: "nat \<Rightarrow> (nat \<times> nat) list \<Rightarrow> nat list" where
  "field_offsets e [] = []"
| "field_offsets e ((sz, al) # fs) = round_up al e # field_offsets (round_up al e + sz) fs"

fun fields_end :: "nat \<Rightarrow> (nat \<times> nat) list \<Rightarrow> nat" where
  "fields_end e [] = e"
| "fields_end e ((sz, al) # fs) = fields_end (round_up al e + sz) fs"

definition sizeof_struct :: "(nat \<times> nat) list \<Rightarrow> nat" where
  "sizeof_struct fs = round_up (foldr (\<lambda>f a. max (snd f) a) fs 1) (fields_end 0 fs)"

text \<open>\<open>struct list_elem\<close>, \<open>list\<close>, \<open>bitmap\<close>, \<open>semaphore\<close> and \<open>lock\<close>, which the structures of the driver contain.\<close>

definition list_struct :: "(nat \<times> nat) list" where
  "list_struct = [(8, 4), (8, 4)]"

definition semaphore_struct :: "(nat \<times> nat) list" where
  "semaphore_struct = [(1, 1), (sizeof_struct list_struct, 4)]"

definition lock_struct :: "(nat \<times> nat) list" where
  "lock_struct = [(4, 4), (sizeof_struct semaphore_struct, 4), (4, 4)]"

text \<open>
  \<open>struct partition\<close>: \<open>start_lba\<close>, \<open>sec_cnt\<close>, \<open>my_disk\<close>, \<open>part_tag\<close>, \<open>name\<close>, \<open>sb\<close>, \<open>block_bitmap\<close>, \<open>inode_bitmap\<close>,
  \<open>open_inodes\<close>. \<open>struct disk\<close>: \<open>name\<close>, \<open>my_channel\<close>, \<open>dev_no\<close>, \<open>prim_parts\<close>, \<open>logic_parts\<close>.
  \<open>struct ide_channel\<close>: \<open>name\<close>, \<open>port_base\<close>, \<open>irq_no\<close>, \<open>lock\<close>, \<open>expecting_intr\<close>, \<open>disk_done\<close>, \<open>devices\<close>.
\<close>

definition partition_struct :: "(nat \<times> nat) list" where
  "partition_struct = [(4, 4), (4, 4), (4, 4), (8, 4), (8, 1), (4, 4), (8, 4), (8, 4),
     (sizeof_struct list_struct, 4)]"

definition disk_struct :: "(nat \<times> nat) list" where
  "disk_struct = [(8, 1), (4, 4), (1, 1), (4 * sizeof_struct partition_struct, 4),
     (8 * sizeof_struct partition_struct, 4)]"

definition ide_channel_struct :: "(nat \<times> nat) list" where
  "ide_channel_struct = [(8, 1), (2, 2), (1, 1), (sizeof_struct lock_struct, 4), (1, 1),
     (sizeof_struct semaphore_struct, 4), (2 * sizeof_struct disk_struct, 4)]"

section \<open>The code\<close>

definition sizeof_ide_channel :: u32 where
  "sizeof_ide_channel = 1632"

definition port_base :: "mem \<Rightarrow> addr \<Rightarrow> u16" where
  "port_base m channel = ld16 m (channel + 8)"

definition irq_no :: "mem \<Rightarrow> addr \<Rightarrow> u8" where
  "irq_no m channel = ld8 m (channel + 10)"

definition channel_lock :: "addr \<Rightarrow> addr" where
  "channel_lock channel = channel + 12"

definition expecting_intr :: "mem \<Rightarrow> addr \<Rightarrow> u8" where
  "expecting_intr m channel = ld8 m (channel + 40)"

definition disk_done :: "addr \<Rightarrow> addr" where
  "disk_done channel = channel + 44"

text \<open>The ports of the registers of a channel; \<open>reg_cmd\<close> is \<open>reg_status\<close> and \<open>reg_ctl\<close> is \<open>reg_alt_status\<close>.\<close>

definition reg_data :: "mem \<Rightarrow> addr \<Rightarrow> u16" where
  "reg_data m channel = port_base m channel + 0"

definition reg_error :: "mem \<Rightarrow> addr \<Rightarrow> u16" where
  "reg_error m channel = port_base m channel + 1"

definition reg_sect_cnt :: "mem \<Rightarrow> addr \<Rightarrow> u16" where
  "reg_sect_cnt m channel = port_base m channel + 2"

definition reg_lba_l :: "mem \<Rightarrow> addr \<Rightarrow> u16" where
  "reg_lba_l m channel = port_base m channel + 3"

definition reg_lba_m :: "mem \<Rightarrow> addr \<Rightarrow> u16" where
  "reg_lba_m m channel = port_base m channel + 4"

definition reg_lba_h :: "mem \<Rightarrow> addr \<Rightarrow> u16" where
  "reg_lba_h m channel = port_base m channel + 5"

definition reg_dev :: "mem \<Rightarrow> addr \<Rightarrow> u16" where
  "reg_dev m channel = port_base m channel + 6"

definition reg_status :: "mem \<Rightarrow> addr \<Rightarrow> u16" where
  "reg_status m channel = port_base m channel + 7"

definition reg_alt_status :: "mem \<Rightarrow> addr \<Rightarrow> u16" where
  "reg_alt_status m channel = port_base m channel + 0x206"

definition channel_registers :: "mem \<Rightarrow> addr \<Rightarrow> u16 list" where
  "channel_registers m channel = map (\<lambda>reg. reg m channel)
     [reg_data, reg_error, reg_sect_cnt, reg_lba_l, reg_lba_m, reg_lba_h, reg_dev, reg_status, reg_alt_status]"

text \<open>The functions from outside, and the addresses of the two variables of \<open>ide.c\<close>.\<close>

record ide_library =
  printk :: "kstate \<Rightarrow> string \<Rightarrow> kstate"
  sprintf :: "kstate \<Rightarrow> addr \<Rightarrow> string \<Rightarrow> u8 \<Rightarrow> kstate"
  lock_init :: "kstate \<Rightarrow> addr \<Rightarrow> kstate"
  sema_init :: "kstate \<Rightarrow> addr \<Rightarrow> u8 \<Rightarrow> kstate"

record ide_symbols =
  channels :: addr
  channel_cnt :: addr

text \<open>The switch has no default: a third channel keeps the port and the vector its memory holds.\<close>

definition channel_ports :: "kstate \<Rightarrow> addr \<Rightarrow> u8 \<Rightarrow> kstate" where
  "channel_ports s channel channel_no =
     (if channel_no = 0 then put8 (put16 s (channel + 8) 0x1F0) (channel + 10) (0x20 + 14)
      else if channel_no = 1 then put8 (put16 s (channel + 8) 0x170) (channel + 10) (0x20 + 15)
      else s)"

definition channel_setup :: "ide_library \<Rightarrow> kstate \<Rightarrow> addr \<Rightarrow> u8 \<Rightarrow> kstate" where
  "channel_setup L s channel channel_no =
     (let s1 = sprintf L s channel ''ide%d'' channel_no;
          s2 = channel_ports s1 channel channel_no;
          s3 = put8 s2 (channel + 40) 0;
          s4 = lock_init L s3 (channel_lock channel)
      in sema_init L s4 (disk_done channel) 0)"

text \<open>
  The loop reads \<open>channel_cnt\<close> in every turn. It ends whatever the library functions do to that
  byte, since \<open>channel_no\<close> is below a byte and cannot wrap.
\<close>

function ide_init_loop :: "ide_library \<Rightarrow> ide_symbols \<Rightarrow> u8 \<Rightarrow> kstate \<Rightarrow> kstate" where
  "ide_init_loop L v channel_no s =
     (if channel_no < ld8 (mem s) (channel_cnt v)
      then ide_init_loop L v (channel_no + 1)
             (channel_setup L s (channels v + sizeof_ide_channel * ucast channel_no) channel_no)
      else s)"
  by pat_completeness auto

termination
proof (relation "measure (\<lambda>(L, v, channel_no, s). 255 - unat channel_no)")
  fix L :: ide_library and v :: ide_symbols and channel_no :: u8 and s :: kstate
  assume *: "channel_no < ld8 (mem s) (channel_cnt v)"
  have "unat (ld8 (mem s) (channel_cnt v)) < 2 ^ LENGTH(8)" by (rule unsigned_less)
  moreover have "unat channel_no < unat (ld8 (mem s) (channel_cnt v))" using * by (simp add: word_less_nat_alt)
  ultimately show "((L, v, channel_no + 1, channel_setup L s (channels v + sizeof_ide_channel * ucast channel_no) channel_no),
      L, v, channel_no, s) \<in> measure (\<lambda>(L, v, channel_no, s). 255 - unat channel_no)"
    using unat_Suc_lt [OF *] by simp
qed simp

declare ide_init_loop.simps [simp del]

definition ide_init :: "ide_library \<Rightarrow> ide_symbols \<Rightarrow> kstate \<Rightarrow> (kstate, unit) outcome" where
  "ide_init L v s =
     (let s1 = printk L s (''ide_init start'' @ [CHR 0x0A]);
          hd_cnt = ld8 (mem s1) 0x475
      in ASSERT ''ide_init'' ''hd_cnt > 0'' (hd_cnt > 0)
         (let s2 = put8 s1 (channel_cnt v) (ucast (DIV_ROUND_UP (ucast hd_cnt) 2));
              s3 = ide_init_loop L v 0 s2
          in Ok () (printk L s3 (''ide_init done'' @ [CHR 0x0A]))))"

section \<open>Transfers of sectors (kernel/io.h)\<close>

text \<open>
  \<open>outsw\<close> and \<open>insw\<close>, the string instructions for the data register of a disk, called nowhere yet: \<open>outsw\<close> sends
  the words of a buffer to the port, \<open>insw\<close> stores the words \<open>dev 0\<close>, \<open>dev 1\<close>, and so on that the device presents.
\<close>

primrec rep_outsw :: "nat \<Rightarrow> mem \<Rightarrow> addr \<Rightarrow> u16 list" where
  "rep_outsw 0 m a = []"
| "rep_outsw (Suc n) m a = ld16 m a # rep_outsw n m (a + 2)"

primrec rep_insw :: "nat \<Rightarrow> (nat \<Rightarrow> u16) \<Rightarrow> nat \<Rightarrow> mem \<Rightarrow> addr \<Rightarrow> mem" where
  "rep_insw 0 dev k m a = m"
| "rep_insw (Suc n) dev k m a = rep_insw n dev (Suc k) (st16 m a (dev k)) (a + 2)"

definition outsw :: "mem \<Rightarrow> u16 \<Rightarrow> addr \<Rightarrow> u32 \<Rightarrow> (u16 \<times> u16) list" where
  "outsw m port a word_cnt = map (Pair port) (rep_outsw (unat word_cnt) m a)"

definition insw :: "(u16 \<Rightarrow> nat \<Rightarrow> u16) \<Rightarrow> mem \<Rightarrow> u16 \<Rightarrow> addr \<Rightarrow> u32 \<Rightarrow> mem" where
  "insw dev m port a word_cnt = rep_insw (unat word_cnt) (dev port) 0 m a"

text \<open>A sector read into a buffer and written from it is the same sector, and only the buffer changes.\<close>

lemma rep_transfer:
  assumes "2 * n < 2 ^ 32"
  shows "rep_outsw n (rep_insw n dev k m a) a = map dev [k..<k + n] \<and> only_in m (rep_insw n dev k m a) a (2 * n)"
  using assms
proof (induction n arbitrary: k m a)
  case (Suc n)
  let ?m = "st16 m a (dev k)" let ?m' = "rep_insw n dev (Suc k) ?m (a + 2)"
  have IH: "rep_outsw n ?m' (a + 2) = map dev [Suc k..<Suc k + n]" "only_in ?m ?m' (a + 2) (2 * n)"
    using Suc.IH [of "Suc k" ?m "a + 2"] Suc.prems by simp_all
  have "sep (a + 2) (2 * n) a 2" using Suc.prems by simp
  then have "ld16 ?m' a = dev k" using b2.ld_frame [OF IH(2)] by simp
  moreover have "only_in m ?m' a (2 * Suc n)"
    using only_in_part [of m ?m a 0 2 "2 * Suc n"] only_in_st16 [of m a "dev k"] only_in_part [OF IH(2), of "2 * Suc n"]
    by (auto intro: only_in_trans)
  ultimately show ?case using IH(1) by (simp add: upt_conv_Cons del: upt_Suc)
qed simp

lemma sector_transfer:
  "word_cnt < 0x80000000 \<Longrightarrow>
   outsw (insw dev m port a word_cnt) port a word_cnt = map (\<lambda>i. (port, dev port i)) [0..<unat word_cnt]"
  using rep_transfer [of "unat word_cnt" "dev port" 0 m a] by (simp add: outsw_def insw_def word_less_nat_alt)

section \<open>The layout of a channel\<close>

lemma round_up_ge: "0 < a \<Longrightarrow> n \<le> round_up a n"
proof -
  assume "0 < a"
  moreover from this have "(n + a - 1) mod a < a" by simp
  moreover have "round_up a n + (n + a - 1) mod a = n + a - 1" unfolding round_up_def by (rule div_mult_mod_eq)
  ultimately show ?thesis by linarith
qed

lemma round_up_dvd: "a dvd round_up a n"
  by (simp add: round_up_def)

text \<open>Every layout is aligned, in the order of the fields, without overlap and inside the structure.\<close>

lemma fields_end_ge: "\<forall>f \<in> set fs. 0 < snd f \<Longrightarrow> e \<le> fields_end e fs"
proof (induction e fs rule: fields_end.induct)
  case (2 e sz al fs)
  have "e \<le> round_up al e" using 2(2) round_up_ge by simp
  moreover have "round_up al e + sz \<le> fields_end (round_up al e + sz) fs" using 2 by simp
  ultimately show ?case by simp
qed simp

lemma field_offsets_length [simp]: "length (field_offsets e fs) = length fs"
  by (induction e fs rule: field_offsets.induct) simp_all

lemma field_offsets_start: "\<forall>f \<in> set fs. 0 < snd f \<Longrightarrow> i < length fs \<Longrightarrow> e \<le> field_offsets e fs ! i"
proof (induction e fs arbitrary: i rule: field_offsets.induct)
  case (2 e sz al fs)
  have "e \<le> round_up al e" using 2(2) round_up_ge by simp
  with 2 show ?case by (cases i) (auto intro: le_trans [of e "round_up al e + sz"])
qed simp

lemma field_offsets_end:
  "\<forall>f \<in> set fs. 0 < snd f \<Longrightarrow> i < length fs \<Longrightarrow> field_offsets e fs ! i + fst (fs ! i) \<le> fields_end e fs"
proof (induction e fs arbitrary: i rule: field_offsets.induct)
  case (2 e sz al fs)
  then show ?case by (cases i) (auto intro: fields_end_ge)
qed simp

lemma field_offsets_aligned: "i < length fs \<Longrightarrow> snd (fs ! i) dvd field_offsets e fs ! i"
proof (induction e fs arbitrary: i rule: field_offsets.induct)
  case (2 e sz al fs)
  then show ?case by (cases i) (auto simp: round_up_dvd)
qed simp

lemma field_offsets_apart:
  "\<forall>f \<in> set fs. 0 < snd f \<Longrightarrow> i < j \<Longrightarrow> j < length fs \<Longrightarrow>
   field_offsets e fs ! i + fst (fs ! i) \<le> field_offsets e fs ! j"
proof (induction e fs arbitrary: i j rule: field_offsets.induct)
  case (2 e sz al fs)
  then show ?case by (cases i; cases j) (auto intro: field_offsets_start)
qed simp

lemma sizeof_struct_end: "\<forall>f \<in> set fs. 0 < snd f \<Longrightarrow> fields_end 0 fs \<le> sizeof_struct fs"
proof -
  have "1 \<le> foldr (\<lambda>f a. max (snd f) a) fs 1" by (induction fs) auto
  then show ?thesis unfolding sizeof_struct_def by (intro round_up_ge) simp
qed

lemma struct_sizes:
  "sizeof_struct list_struct = 16" "sizeof_struct semaphore_struct = 20" "sizeof_struct lock_struct = 28"
  "sizeof_struct partition_struct = 64" "sizeof_struct disk_struct = 784" "sizeof_struct ide_channel_struct = 1632"
  by (simp_all add: sizeof_struct_def list_struct_def semaphore_struct_def lock_struct_def partition_struct_def
      disk_struct_def ide_channel_struct_def round_up_def)



section \<open>Initialisation\<close>

text \<open>
  What the driver relies on: \<open>printk\<close> leaves the memory alone; \<open>sprintf\<close> writes the formatted string and
  its zero byte; \<open>lock_init\<close> and \<open>sema_init\<close> write a free lock and a semaphore nobody waits for, each inside
  its object.
\<close>

fun decimal :: "nat \<Rightarrow> u8 list" where
  "decimal n = (if n < 10 then [48 + of_nat n] else decimal (n div 10) @ [48 + of_nat (n mod 10)])"

declare decimal.simps [simp del]

definition lock_fresh :: "mem \<Rightarrow> addr \<Rightarrow> bool" where
  "lock_fresh m l \<longleftrightarrow> holder m l = NULL \<and> holder_repeat_request_sum m l = 0
     \<and> sem_value m (lock_semaphore l) = 1 \<and> list_empty m (l + 8)"

definition sema_fresh :: "mem \<Rightarrow> addr \<Rightarrow> u8 \<Rightarrow> bool" where
  "sema_fresh m a n \<longleftrightarrow> sem_value m a = n \<and> list_empty m (waiting_thread_list a)"

definition ide_contract :: "ide_library \<Rightarrow> bool" where
  "ide_contract L \<longleftrightarrow>
     (\<forall>s str. mem (printk L s str) = mem s)
   \<and> (\<forall>s a n. let m' = mem (sprintf L s a ''ide%d'' n); str = ascii ''ide'' @ decimal (unat n)
        in cstr m' a str \<and> only_in (mem s) m' a (Suc (length str)))
   \<and> (\<forall>s a. let m' = mem (lock_init L s a) in lock_fresh m' a \<and> only_in (mem s) m' a 28)
   \<and> (\<forall>s a n. let m' = mem (sema_init L s a n) in sema_fresh m' a n \<and> only_in (mem s) m' a 20)"

text \<open>A channel after its initialisation, with the name, the ports and the vector of its number.\<close>

definition channel_ready :: "mem \<Rightarrow> addr \<Rightarrow> u8 \<Rightarrow> bool" where
  "channel_ready m ch n \<longleftrightarrow> cstr m ch (ascii ''ide'' @ decimal (unat n))
     \<and> (n = 0 \<longrightarrow> port_base m ch = 0x1F0 \<and> irq_no m ch = 0x2E)
     \<and> (n = 1 \<longrightarrow> port_base m ch = 0x170 \<and> irq_no m ch = 0x2F)
     \<and> expecting_intr m ch = 0 \<and> lock_fresh m (channel_lock ch) \<and> sema_fresh m (disk_done ch) 0"

text \<open>The registers of the two channels are different ports.\<close>

lemma channel_registers_distinct:
  assumes "channel_ready m c0 0" "channel_ready m c1 1"
  shows "distinct (channel_registers m c0 @ channel_registers m c1)"
  using assms by (simp add: channel_registers_def channel_ready_def reg_data_def reg_error_def reg_sect_cnt_def reg_lba_l_def reg_lba_m_def
      reg_lba_h_def reg_dev_def reg_status_def reg_alt_status_def)

lemma length_decimal: "n < 1000 \<Longrightarrow> length (decimal n) \<le> 3"
  by (simp add: decimal.simps [of n] decimal.simps [of "n div 10"] decimal.simps [of "n div 100"] div_mult2_eq [symmetric])

lemma length_channel_name: "length (ascii ''ide'' @ decimal (unat (n :: u8))) \<le> 6"
proof -
  have "unat n < 2 ^ LENGTH(8)" by (rule unsigned_less)
  then show ?thesis using length_decimal [of "unat n"] by (simp add: ascii_def)
qed

lemma channel_ready_cong: "eq_on m m' ch 64 \<Longrightarrow> channel_ready m' ch n \<Longrightarrow> channel_ready m ch n"
proof -
  assume e: "eq_on m m' ch 64" and r: "channel_ready m' ch n"
  have "eq_on m m' ch (Suc (length (ascii ''ide'' @ decimal (unat n))))"
    using eq_on_part [OF e, of 0] length_channel_name [of n] by simp
  from cstr_cong [OF this] r have "cstr m ch (ascii ''ide'' @ decimal (unat n))" by (simp add: channel_ready_def)
  moreover have "ld32 m (ch + i) = ld32 m' (ch + i)" if "unat i \<le> 60" for i
    using that by (intro ld32_cong eq_on_part [OF e]) simp
  moreover have "ld16 m (ch + i) = ld16 m' (ch + i)" if "unat i \<le> 60" for i
    using that by (intro ld16_cong eq_on_part [OF e]) simp
  moreover have "ld8 m (ch + i) = ld8 m' (ch + i)" if "unat i \<le> 60" for i
    using that by (intro ld8_cong eq_on_part [OF e]) simp
  ultimately show ?thesis
    using r by (simp add: channel_ready_def lock_fresh_def sema_fresh_def lock_view port_base_def irq_no_def
        expecting_intr_def channel_lock_def disk_done_def waiting_thread_list_def add.assoc)
qed

lemma ide_contractD:
  assumes "ide_contract L"
  shows "mem (printk L s str) = mem s"
    "cstr (mem (sprintf L s a ''ide%d'' n)) a (ascii ''ide'' @ decimal (unat n))"
    "only_in (mem s) (mem (sprintf L s a ''ide%d'' n)) a 8"
    "lock_fresh (mem (lock_init L s a)) a" "only_in (mem s) (mem (lock_init L s a)) a 28"
    "sema_fresh (mem (sema_init L s a n)) a n" "only_in (mem s) (mem (sema_init L s a n)) a 20"
proof -
  let ?k = "Suc (length (ascii ''ide'' @ decimal (unat n)))"
  have "only_in (mem s) (mem (sprintf L s a ''ide%d'' n)) (a + 0) ?k"
    using assms by (simp add: ide_contract_def Let_def)
  from only_in_part [OF this] show "only_in (mem s) (mem (sprintf L s a ''ide%d'' n)) a 8"
    using length_channel_name [of n] by simp
qed (use assms in \<open>simp_all add: ide_contract_def Let_def\<close>)

lemma channel_setup_effect:
  fixes ch :: addr and s :: kstate and n :: u8
  assumes L: "ide_contract L"
  defines "t \<equiv> channel_setup L s ch n"
  shows "channel_ready (mem t) ch n" "only_in (mem s) (mem t) ch 64"
    "1 < n \<Longrightarrow> port_base (mem t) ch = port_base (mem s) ch \<and> irq_no (mem t) ch = irq_no (mem s) ch"
proof -
  let ?str = "ascii ''ide'' @ decimal (unat n)"
  define s1 where "s1 = sprintf L s ch ''ide%d'' n"
  define s2 where "s2 = channel_ports s1 ch n"
  define s3 where "s3 = put8 s2 (ch + 40) 0"
  define s4 where "s4 = lock_init L s3 (ch + 12)"
  have t: "t = sema_init L s4 (ch + 44) 0"
    by (simp add: t_def channel_setup_def Let_def s1_def s2_def s3_def s4_def channel_lock_def disk_done_def)
  have o1: "only_in (mem s) (mem s1) (ch + 0) 8" using ide_contractD(3) [OF L] by (simp add: s1_def)
  have "only_in m (st8 (st16 m (ch + 8) p) (ch + 10) b) (ch + 8) 4" for m p b
    using only_in_part [of m "st16 m (ch + 8) p" "ch + 8" 0 2 4] only_in_st16 [of m "ch + 8" p]
      only_in_part [of "st16 m (ch + 8) p" "st8 (st16 m (ch + 8) p) (ch + 10) b" "ch + 8" 2 1 4] only_in_st8
    by (auto simp: add.assoc intro: only_in_trans)
  then have o2: "only_in (mem s1) (mem s2) (ch + 8) 4" by (simp add: s2_def channel_ports_def)
  have o3: "only_in (mem s2) (mem s3) (ch + 40) 1" using only_in_st8 [of "mem s2" "ch + 40"] by (simp add: s3_def)
  have o4: "only_in (mem s3) (mem s4) (ch + 12) 28" using ide_contractD(5) [OF L] by (simp add: s4_def)
  have o5: "only_in (mem s4) (mem t) (ch + 44) 20" using ide_contractD(7) [OF L] by (simp add: t)
  note os = o1 o2 o3 o4 o5
  show "only_in (mem s) (mem t) ch 64"
    using os [THEN only_in_part, of 64] by (simp add: only_in_def)
  have name: "cstr (mem t) ch ?str"
  proof -
    have "eq_on (mem t) (mem s1) (ch + 0) 8"
      using os(2-5) [THEN only_in_sep, of "ch + 0" 8] by (simp add: eq_on_def)
    then have "eq_on (mem t) (mem s1) ch (Suc (length ?str))"
      using length_channel_name [of n] eq_on_part [of "mem t" "mem s1" ch 8 0] by simp
    from cstr_cong [OF this] show ?thesis using ide_contractD(2) [OF L, of s ch n] by (simp add: s1_def)
  qed
  have ports: "port_base (mem t) ch = port_base (mem s2) ch" "irq_no (mem t) ch = irq_no (mem s2) ch"
    unfolding port_base_def irq_no_def
    by (simp_all add: b1.ld_frame [OF o5] b1.ld_frame [OF o4] b1.ld_frame [OF o3] b2.ld_frame [OF o5]
        b2.ld_frame [OF o4] b2.ld_frame [OF o3])
  show "port_base (mem t) ch = port_base (mem s) ch \<and> irq_no (mem t) ch = irq_no (mem s) ch" if "1 < n"
  proof -
    have "s2 = s1" using that by (auto simp: s2_def channel_ports_def)
    then show ?thesis using ports by (simp add: port_base_def irq_no_def b1.ld_frame [OF o1] b2.ld_frame [OF o1])
  qed
  have exp: "expecting_intr (mem t) ch = 0"
    by (simp add: expecting_intr_def b1.ld_frame [OF o5] b1.ld_frame [OF o4]) (simp add: s3_def)
  have "lock_fresh (mem s4) (ch + 12)" using ide_contractD(4) [OF L] by (simp add: s4_def)
  then have lock: "lock_fresh (mem t) (ch + 12)"
    by (simp add: lock_fresh_def lock_view b1.ld_frame [OF o5] b4.ld_frame [OF o5] add.assoc)
  have "sema_fresh (mem t) (ch + 44) 0" using ide_contractD(6) [OF L] by (simp add: t)
  with name exp lock show "channel_ready (mem t) ch n"
    unfolding channel_ready_def ports
    by (auto simp: channel_lock_def disk_done_def s2_def channel_ports_def port_base_def irq_no_def)
qed

definition channel_at :: "ide_symbols \<Rightarrow> nat \<Rightarrow> addr" where
  "channel_at v i = channels v + of_nat (1632 * i)"

lemma channel_at_Suc: "channel_at v (Suc i) = channel_at v i + 1632"
  by (simp add: channel_at_def algebra_simps)

lemma channel_at_ucast: "channels v + sizeof_ide_channel * ucast (n :: u8) = channel_at v (unat n)"
proof -
  have "(ucast n :: u32) = of_nat (unat n)" by simp
  then show ?thesis by (simp add: channel_at_def sizeof_ide_channel_def)
qed

lemma ide_init_loop_effect:
  assumes L: "ide_contract L"
    and "ld8 (mem s) (channel_cnt v) = N" "unat N \<le> 128" "no \<le> N"
    and "\<not> inr (channel_cnt v) (channel_at v (unat no)) (1632 * (unat N - unat no))"
  shows "(\<forall>i. unat no \<le> i \<and> i < unat N \<longrightarrow>
            channel_ready (mem (ide_init_loop L v no s)) (channel_at v i) (of_nat i))
       \<and> only_in (mem s) (mem (ide_init_loop L v no s)) (channel_at v (unat no)) (1632 * (unat N - unat no))"
  using assms(2-)
proof (induction "unat N - unat no" arbitrary: no s)
  case 0
  then have "N = no" by (simp add: word_le_nat_alt word_unat_eq_iff)
  moreover from this 0 have "ide_init_loop L v no s = s" by (simp add: ide_init_loop.simps [of L v no s])
  ultimately show ?case by auto
next
  case (Suc d)
  let ?ch = "channel_at v (unat no)" let ?n = "1632 * (unat N - unat no)"
  define t where "t = channel_setup L s ?ch no"
  define u where "u = ide_init_loop L v (no + 1) t"
  have lt: "no < N" using Suc(2) by (simp add: word_less_nat_alt)
  have u1: "unat (no + 1) = Suc (unat no)" by (rule unat_Suc_lt [OF lt])
  have d: "?n = 1632 + 1632 * d" "d \<le> 127" using Suc(2) Suc.prems(2) by auto
  note E = channel_setup_effect [OF L, where s = s and ch = ?ch and n = no, folded t_def]
  have "\<not> inr (channel_cnt v) ?ch 64" using Suc.prems(4) inr_part [of "channel_cnt v" ?ch 0 64 ?n] d(1) by auto
  then have c: "ld8 (mem t) (channel_cnt v) = N" using only_inD [OF E(2)] Suc.prems(1) by (simp add: ld8_def)
  have loop: "ide_init_loop L v no s = u"
    using lt Suc.prems(1) by (simp add: ide_init_loop.simps [of L v no s] channel_at_ucast t_def u_def)
  have nxt: "channel_at v (unat (no + 1)) = ?ch + 1632" by (simp add: u1 channel_at_Suc)
  have r: "1632 * (unat N - unat (no + 1)) = 1632 * d" using Suc(2) u1 by simp
  have s2: "\<not> inr (channel_cnt v) (channel_at v (unat (no + 1))) (1632 * (unat N - unat (no + 1)))"
    unfolding nxt r using Suc.prems(4) inr_part [of "channel_cnt v" ?ch 1632 "1632 * d" ?n] d(1) by auto
  have IH: "\<forall>i. unat (no + 1) \<le> i \<and> i < unat N \<longrightarrow> channel_ready (mem u) (channel_at v i) (of_nat i)"
    "only_in (mem t) (mem u) (channel_at v (unat (no + 1))) (1632 * (unat N - unat (no + 1)))"
    using Suc(1) [of "no + 1" t] Suc(2) c Suc.prems(2) lt u1 s2 by (auto simp: u_def word_le_nat_alt word_less_nat_alt)
  have o2: "only_in (mem t) (mem u) (?ch + 1632) (1632 * d)" using IH(2) unfolding nxt r .
  have "sep (?ch + 1632) (1632 * d) ?ch 64" using d(2) by simp
  from channel_ready_cong [OF only_in_sep [OF o2 this] E(1)]
  have now: "channel_ready (mem u) ?ch no" .
  have "only_in (mem s) (mem u) ?ch ?n"
    using only_in_part [OF o2, of ?n] only_in_part [of "mem s" "mem t" ?ch 0 64 ?n] E(2) d(1)
    by (auto intro: only_in_trans)
  moreover have "channel_ready (mem u) (channel_at v i) (of_nat i)" if "unat no \<le> i" "i < unat N" for i
    using that now IH(1) u1 by (cases "i = unat no") auto
  ultimately show ?case unfolding loop by blast
qed

lemma channel_count: "unat (ucast (DIV_ROUND_UP (ucast (hd_cnt :: u8)) 2) :: u8) = (unat hd_cnt + 1) div 2"
proof -
  have b: "unat hd_cnt < 2 ^ LENGTH(8)" by (rule unsigned_less)
  have h: "unat (ucast hd_cnt :: u32) = unat hd_cnt" using b by (simp add: unsigned_ucast_eq take_bit_nat_eq_self)
  have "(ucast hd_cnt :: u32) + 2 - 1 = 1 + ucast hd_cnt" by simp
  moreover have "unat (1 + ucast hd_cnt :: u32) = unat hd_cnt + 1"
    using b h unat_plus_lt [of 1 "ucast hd_cnt :: u32"] by simp
  ultimately have d: "unat (DIV_ROUND_UP (ucast hd_cnt) 2) = (unat hd_cnt + 1) div 2"
    unfolding DIV_ROUND_UP_def unat_div by simp
  have "(unat hd_cnt + 1) div 2 < 2 ^ 8" using b by simp
  then show ?thesis using d by (simp add: unsigned_ucast_eq take_bit_nat_eq_self)
qed

text \<open>C28. \<open>ide_init\<close>. With no disk it panics. With disks it returns, stores the number of channels, two disks
  to a channel, and leaves each channel named by its number, with the ports and the vector of that number,
  a free lock and a semaphore that is down; nothing else changes, and no port belongs to two channels. The array has two channels: with more than four
  disks the driver initialises a third one in the memory after the array.\<close>

theorem ide_init_channels:
  assumes "ide_contract L" "hd_cnt = ld8 (mem s) 0x475" "n = (unat hd_cnt + 1) div 2"
    and "\<not> inr (channel_cnt v) (channels v) (1632 * n)"
  shows "if hd_cnt = 0 then ide_init L v s = Panic ''ide_init'' ''hd_cnt > 0''
    else \<exists>t. ide_init L v s = Ok () t \<and> ld8 (mem t) (channel_cnt v) = of_nat n
      \<and> (\<forall>i < n. channel_ready (mem t) (channels v + of_nat (1632 * i)) (of_nat i))
      \<and> (\<forall>x. \<not> inr x (channels v) (1632 * n) \<and> x \<noteq> channel_cnt v \<longrightarrow> mem t x = mem s x)
      \<and> (1 < n \<longrightarrow> distinct (channel_registers (mem t) (channels v)
            @ channel_registers (mem t) (channels v + sizeof_ide_channel)))
      \<and> (4 < hd_cnt \<longrightarrow> cstr (mem t) (channels v + 2 * sizeof_ide_channel) (ascii ''ide2''))"
proof (cases "hd_cnt = 0")
  case True
  then show ?thesis using assms(2) ide_contractD(1) [OF assms(1)] by (simp add: ide_init_def Let_def)
next
  case False
  let ?N = "ucast (DIV_ROUND_UP (ucast hd_cnt) 2) :: u8"
  define s2 where "s2 = put8 (printk L s (''ide_init start'' @ [CHR 0x0A])) (channel_cnt v) ?N"
  define u where "u = ide_init_loop L v 0 s2"
  define t where "t = printk L u (''ide_init done'' @ [CHR 0x0A])"
  note P = ide_contractD(1) [OF assms(1)]
  have N: "unat ?N = n" by (simp add: channel_count assms(3))
  have b: "unat hd_cnt < 2 ^ LENGTH(8)" by (rule unsigned_less)
  then have n: "n \<le> 128" by (simp add: assms(3))
  have n': "?N = of_nat n" by (simp flip: N)
  have m2: "mem s2 = st8 (mem s) (channel_cnt v) ?N" by (simp add: s2_def P)
  have E: "\<forall>i. i < n \<longrightarrow> channel_ready (mem u) (channel_at v i) (of_nat i)"
    "only_in (mem s2) (mem u) (channels v) (1632 * n)"
    using ide_init_loop_effect [OF assms(1), of s2 v ?N 0] n assms(4) N m2
    by (auto simp: u_def channel_at_def)
  have run: "ide_init L v s = Ok () t"
    using False assms(2) by (simp add: ide_init_def Let_def P t_def u_def s2_def word_neq_0_conv)
  have cnt: "ld8 (mem u) (channel_cnt v) = of_nat n" using only_inD [OF E(2) assms(4)] m2 n' by (simp add: ld8_def st8_def)
  have rest: "mem u x = mem s x" if "\<not> inr x (channels v) (1632 * n)" "x \<noteq> channel_cnt v" for x
    using that only_inD [OF E(2)] m2 by (simp add: st8_def)
  have third: "cstr (mem u) (channels v + 2 * sizeof_ide_channel) (ascii ''ide2'')" if "4 < hd_cnt"
  proof -
    have "2 < n" using that by (simp add: assms(3) word_less_nat_alt)
    then show ?thesis using E(1) [rule_format, of 2]
      by (simp add: channel_ready_def channel_at_def sizeof_ide_channel_def ascii_def decimal.simps)
  qed
  have regs: "distinct (channel_registers (mem u) (channels v) @ channel_registers (mem u) (channels v + sizeof_ide_channel))"
    if "1 < n"
  proof (rule channel_registers_distinct)
    show "channel_ready (mem u) (channels v) 0" using E(1) [rule_format, of 0] that by (simp add: channel_at_def)
    show "channel_ready (mem u) (channels v + sizeof_ide_channel) 1"
      using E(1) [rule_format, of 1] that by (simp add: channel_at_def sizeof_ide_channel_def)
  qed
  have "mem t = mem u" by (simp add: t_def P)
  with run cnt rest third regs E(1) False show ?thesis by (simp add: channel_at_def del: of_nat_mult)
qed

text \<open>
  The contract holds of the initialisers the kernel has in \<open>thread/sync.c\<close>, with a \<open>printk\<close> that writes to
  the screen and a \<open>sprintf\<close> that writes the decimal numeral of its argument.
\<close>

fun write_string :: "mem \<Rightarrow> addr \<Rightarrow> u8 list \<Rightarrow> mem" where
  "write_string m a [] = st8 m a 0"
| "write_string m a (x # xs) = st8 (write_string m (a + 1) xs) a x"

definition demo_ide_library :: ide_library where
  "demo_ide_library = \<lparr>printk = putlit,
     sprintf = \<lambda>s a fmt n. s\<lparr>mem := write_string (mem s) a (ascii ''ide'' @ decimal (unat n))\<rparr>,
     lock_init = LockInit, sema_init = SemaphoreInit\<rparr>"

lemma write_string_effect:
  "0 \<notin> set xs \<Longrightarrow> length xs < 2 ^ 31 \<Longrightarrow>
   cstr (write_string m a xs) a xs \<and> only_in m (write_string m a xs) a (Suc (length xs))"
proof (induction xs arbitrary: a)
  case (Cons x xs)
  let ?m = "write_string m (a + 1) xs"
  have IH: "cstr ?m (a + 1) xs" "only_in m ?m (a + 1) (Suc (length xs))" using Cons by auto
  have "sep a 1 (a + 1) (Suc (length xs))" using Cons.prems(2) by simp
  from only_in_sep [OF only_in_st8 this] have "eq_on (st8 ?m a x) ?m (a + 1) (Suc (length xs))" .
  from cstr_cong [OF this] IH(1) have "cstr (st8 ?m a x) (a + 1) xs" by simp
  moreover have "only_in m (st8 ?m a x) a (Suc (Suc (length xs)))"
    using only_in_part [OF IH(2), of "Suc (Suc (length xs))"]
      only_in_part [of ?m "st8 ?m a x" a 0 1] only_in_st8 [of ?m a x] by (auto intro: only_in_trans)
  ultimately show ?case using Cons.prems(1) by simp
qed (use only_in_st8 in simp)

lemma decimal_nonzero: "0 \<notin> set (decimal n)"
proof (induction n rule: decimal.induct)
  case (1 n)
  have "48 + of_nat k \<noteq> (0 :: u8)" if "k < 10" for k :: nat
  proof -
    have "unat (of_nat k :: u8) = k" using that by (simp add: unsigned_of_nat take_bit_nat_eq_self)
    then have "unat (48 + of_nat k :: u8) = 48 + k" using that unat_plus_lt [of "48 :: u8" "of_nat k"] by simp
    then show ?thesis by (metis add_is_0 unsigned_0 zero_neq_numeral)
  qed
  with 1 show ?case by (auto simp: decimal.simps [of n])
qed

lemma SemaphoreInit_effect:
  "sema_fresh (mem (SemaphoreInit s a n)) a n" "only_in (mem s) (mem (SemaphoreInit s a n)) a 20"
proof -
  let ?s = "put8 s a n"
  note E = list_init_effect [of ?s "waiting_thread_list a"]
  have o: "only_in (mem ?s) (mem (SemaphoreInit s a n)) (a + 4) 16"
    using E(2) by (simp add: SemaphoreInit_def waiting_thread_list_def)
  have "sem_value (mem (SemaphoreInit s a n)) a = n" using b1.ld_frame [OF o, of a] by (simp add: sem_value_def)
  then show "sema_fresh (mem (SemaphoreInit s a n)) a n"
    using list_empty_iff [OF E(1)] by (simp add: sema_fresh_def SemaphoreInit_def)
  show "only_in (mem s) (mem (SemaphoreInit s a n)) a 20"
    using only_in_part [OF o, of 20] only_in_part [of "mem s" "mem ?s" a 0 1 20] only_in_st8 [of "mem s" a n]
    by (auto intro: only_in_trans)
qed

lemma LockInit_effect: "lock_fresh (mem (LockInit s l)) l" "only_in (mem s) (mem (LockInit s l)) l 28"
proof -
  let ?s = "put32 (put32 s l NULL) (l + 24) 0"
  have eq: "LockInit s l = SemaphoreInit ?s (l + 4) 1" by (simp add: LockInit_def lock_semaphore_def Let_def)
  note o = SemaphoreInit_effect(2) [of ?s "l + 4" 1]
  show "lock_fresh (mem (LockInit s l)) l"
    using SemaphoreInit_effect(1) [of ?s "l + 4" 1] b4.ld_frame [OF o, of l] b4.ld_frame [OF o, of "l + 24"]
    by (simp add: eq lock_fresh_def sema_fresh_def holder_def holder_repeat_request_sum_def lock_semaphore_def
        waiting_thread_list_def add.assoc)
  show "only_in (mem s) (mem (LockInit s l)) l 28"
    using only_in_part [OF o, of 28] only_in_lock_writes(1) [of "mem s" l NULL]
      only_in_lock_writes(2) [of "st32 (mem s) l NULL" l 0] by (auto simp: eq intro: only_in_trans)
qed

lemma demo_ide_contract: "ide_contract demo_ide_library"
proof -
  have "0 \<notin> set (ascii ''ide'' @ decimal (unat n))" "length (ascii ''ide'' @ decimal (unat n)) < 2 ^ 31" for n :: u8
    using decimal_nonzero [of "unat n"] length_channel_name [of n] by (simp_all add: ascii_def)
  from write_string_effect [OF this] show ?thesis
    by (simp add: ide_contract_def demo_ide_library_def Let_def putlit_def LockInit_effect SemaphoreInit_effect)
qed

text \<open>Three disks: two channels.\<close>

definition demo_disks :: "u8 \<Rightarrow> kstate" where
  "demo_disks n = demo_state\<lparr>mem := st8 (\<lambda>_. 0) 0x475 n\<rparr>"

lemma ide_init_channels_witness:
  "\<exists>t. ide_init demo_ide_library \<lparr>channels = 0x10000, channel_cnt = 0x9000\<rparr> (demo_disks 3) = Ok () t
     \<and> ld8 (mem t) 0x9000 = 2 \<and> channel_ready (mem t) 0x10000 0 \<and> channel_ready (mem t) 0x10660 1"
proof -
  have d: "3 = ld8 (mem (demo_disks 3)) 0x475" by (simp add: demo_disks_def)
  have "\<not> inr (channel_cnt \<lparr>channels = 0x10000, channel_cnt = 0x9000\<rparr>) (channels \<lparr>channels = 0x10000, channel_cnt = 0x9000\<rparr>) (1632 * 2)"
    by (simp add: inr_def)
  from ide_init_channels [OF demo_ide_contract d _ this]
  obtain t where t: "ide_init demo_ide_library \<lparr>channels = 0x10000, channel_cnt = 0x9000\<rparr> (demo_disks 3) = Ok () t"
    "ld8 (mem t) 0x9000 = 2" "\<forall>i < 2. channel_ready (mem t) (0x10000 + of_nat (1632 * i)) (of_nat i)"
    by auto
  from t(3) [rule_format, of 0] t(3) [rule_format, of 1] t(1,2) show ?thesis by auto
qed

end
