(* ===== verification/Screen.thy ===== *)
theory Screen
  imports Interrupt
begin

text \<open>
  \<open>sys_putchar\<close> of \<open>lib/kernel/print_asm.S\<close> on the text-mode display: the cursor registers of the
  display controller behind the ports \<open>0x3D4\<close> and \<open>0x3D5\<close>, and the 2000 cells of video memory, a
  character and an attribute each, behind the segment register \<open>gs\<close>. Elsewhere in the development a
  character that is printed is appended to the field \<open>screen\<close>; here is what becomes of it.

  The specification is a teletype with an endless sheet of paper, on which nothing ever scrolls: the
  display shows the last 25 lines of it (\<open>sys_putchar_refines\<close>).
\<close>

section \<open>The display\<close>

text \<open>
  The controller selects a register with a write to \<open>0x3D4\<close> and gives access to it at \<open>0x3D5\<close>; registers
  \<open>0x0E\<close> and \<open>0x0F\<close> are the two halves of the cursor position.
\<close>

record vga =
  vmem :: mem
  crtc_index :: u8
  crtc_regs :: "u8 \<Rightarrow> u8"

definition crtc_out :: "u16 \<times> u8 \<Rightarrow> vga \<Rightarrow> vga" where
  "crtc_out pd v =
     (if fst pd = 0x3D4 then v\<lparr>crtc_index := snd pd\<rparr>
      else if fst pd = 0x3D5 then v\<lparr>crtc_regs := (crtc_regs v)(crtc_index v := snd pd)\<rparr>
      else v)"

definition crtc_in :: "u16 \<Rightarrow> vga \<Rightarrow> u8" where
  "crtc_in port v = (if port = 0x3D5 then crtc_regs v (crtc_index v) else 0)"

text \<open>
  The descriptor \<open>VIDEO_DESC\<close> of \<open>boot/loader.S\<close>, with the base moved into the kernel's half of the address
  space before the kernel starts, read the way the processor does: the limit counts pages.
\<close>

definition DESC_VIDEO_HIGH4 :: u32 where
  "DESC_VIDEO_HIGH4 = 0x800000 + 0x400000 + 0x8000 + 0x1000 + 0x200 + 0x0B"

definition VIDEO_DESC :: "u32 \<times> u32" where
  "VIDEO_DESC = (0x80000007, DESC_VIDEO_HIGH4 OR 0xC0000000)"

definition gs_base :: addr where
  "gs_base = drop_bit 16 (fst VIDEO_DESC) OR push_bit 16 (snd VIDEO_DESC AND 0xFF) OR (snd VIDEO_DESC AND 0xFF000000)"

definition gs_limit :: u32 where
  "gs_limit = (let limit = (fst VIDEO_DESC AND 0xFFFF) OR (snd VIDEO_DESC AND 0xF0000)
               in push_bit 12 limit OR 0xFFF)"

text \<open>A store through \<open>gs\<close>; behind the limit it is a general protection fault, the value \<open>None\<close>.\<close>

definition gs_st8 :: "vga \<Rightarrow> u32 \<Rightarrow> u8 \<Rightarrow> vga option" where
  "gs_st8 v off b = (if off \<le> gs_limit then Some (v\<lparr>vmem := st8 (vmem v) (gs_base + off) b\<rparr>) else None)"

definition gs_st16 :: "vga \<Rightarrow> u32 \<Rightarrow> u16 \<Rightarrow> vga option" where
  "gs_st16 v off w =
     (if off < gs_limit then Some (v\<lparr>vmem := st16 (vmem v) (gs_base + off) w\<rparr>) else None)"

section \<open>The code\<close>

definition get_cursor :: "vga \<Rightarrow> u16 \<times> vga" where
  "get_cursor v =
     (let v1 = crtc_out (0x3D4, 0x0E) v; ah = crtc_in 0x3D5 v1;
          v2 = crtc_out (0x3D4, 0x0F) v1; al = crtc_in 0x3D5 v2
      in (push_bit 8 (ucast ah) OR ucast al, v2))"

definition SetCursor :: "u16 \<Rightarrow> vga \<Rightarrow> vga" where
  "SetCursor bx v =
     (let v1 = crtc_out (0x3D4, 0x0E) v; v2 = crtc_out (0x3D5, ucast (drop_bit 8 bx)) v1;
          v3 = crtc_out (0x3D4, 0x0F) v2
      in crtc_out (0x3D5, ucast bx) v3)"

text \<open>\<open>rep movsd\<close> with the direction flag cleared.\<close>

primrec rep_movsd :: "nat \<Rightarrow> mem \<Rightarrow> addr \<Rightarrow> addr \<Rightarrow> mem" where
  "rep_movsd 0 m esi edi = m"
| "rep_movsd (Suc ecx) m esi edi = rep_movsd ecx (st32 m edi (ld32 m esi)) (esi + 4) (edi + 4)"

primrec RollOneLine_CLL :: "nat \<Rightarrow> vga \<Rightarrow> u32 \<Rightarrow> vga option" where
  "RollOneLine_CLL 0 v ebx = Some v"
| "RollOneLine_CLL (Suc ecx) v ebx =
     (case gs_st16 v ebx 0x0720 of None \<Rightarrow> None | Some v' \<Rightarrow> RollOneLine_CLL ecx v' (ebx + 2))"

definition RollOneLine :: "vga \<Rightarrow> vga option" where
  "RollOneLine v =
     (let v1 = v\<lparr>vmem := rep_movsd 960 (vmem v) 0xC00B80A0 0xC00B8000\<rparr>
      in map_option (SetCursor 1920) (RollOneLine_CLL 80 v1 3840))"

text \<open>
  The line feed divides \<open>ax\<close>, which still holds the position the cursor had at the call, and takes the remainder
  off \<open>bx\<close>. The comparisons with 2000 are signed.
\<close>

definition LineFeed :: "u16 \<Rightarrow> u16 \<Rightarrow> vga \<Rightarrow> vga option" where
  "LineFeed ax bx v =
     (let dx = ax mod 80; bx1 = bx - dx; bx2 = bx1 + 80
      in if bx2 <s 2000 then Some (SetCursor bx2 v) else RollOneLine v)"

definition BackSpace :: "u16 \<Rightarrow> vga \<Rightarrow> vga option" where
  "BackSpace bx v =
     (let bx1 = bx - 1; bx2 = push_bit 1 bx1
      in case gs_st8 v (ucast bx2) 0x20 of None \<Rightarrow> None
         | Some v1 \<Rightarrow>
             let bx3 = bx2 + 1
             in case gs_st8 v1 (ucast bx3) 0x07 of None \<Rightarrow> None
                | Some v2 \<Rightarrow> Some (SetCursor (drop_bit 1 bx3) v2))"

definition AnyOther :: "u16 \<Rightarrow> u8 \<Rightarrow> vga \<Rightarrow> vga option" where
  "AnyOther ax cl v =
     (let bx1 = push_bit 1 ax
      in case gs_st8 v (ucast bx1) cl of None \<Rightarrow> None
         | Some v1 \<Rightarrow>
             let bx2 = bx1 + 1
             in case gs_st8 v1 (ucast bx2) 0x07 of None \<Rightarrow> None
                | Some v2 \<Rightarrow>
                    let bx3 = drop_bit 1 (bx2 + 1)
                    in if bx3 <s 2000 then Some (SetCursor bx3 v2) else LineFeed ax bx3 v2)"

definition sys_putchar_vga :: "vga \<Rightarrow> u8 \<Rightarrow> vga option" where
  "sys_putchar_vga v cl =
     (let (ax, v1) = get_cursor v; bx = ax
      in if cl = 0x0d \<or> cl = 0x0a then LineFeed ax bx v1
         else if cl = 0x08 then BackSpace bx v1
         else AnyOther ax cl v1)"

text \<open>A sequence of characters, as \<open>sys_putstr\<close> and the writers of the field \<open>screen\<close> pass it on.\<close>

primrec putchars :: "vga \<Rightarrow> u8 list \<Rightarrow> vga option" where
  "putchars v [] = Some v"
| "putchars v (c # cs) = (case sys_putchar_vga v c of None \<Rightarrow> None | Some v' \<Rightarrow> putchars v' cs)"

section \<open>The teletype\<close>

record paper =
  sheet :: "u16 list"
  pos :: nat

definition cell_of :: "u8 \<Rightarrow> u16" where
  "cell_of c = ucast c OR 0x0700"

definition feed :: "paper \<Rightarrow> paper" where
  "feed p = (if pos p < length (sheet p) then p else p\<lparr>sheet := sheet p @ replicate 80 (cell_of 0x20)\<rparr>)"

definition teletype :: "paper \<Rightarrow> u8 \<Rightarrow> paper" where
  "teletype p c =
     (if c = 0x0d \<or> c = 0x0a then feed (p\<lparr>pos := (pos p div 80 + 1) * 80\<rparr>)
      else if c = 0x08 then p\<lparr>sheet := (sheet p)[pos p - 1 := cell_of 0x20], pos := pos p - 1\<rparr>
      else feed (p\<lparr>sheet := (sheet p)[pos p := cell_of c], pos := pos p + 1\<rparr>))"

text \<open>The first position of the last 25 lines.\<close>

definition top_pos :: "paper \<Rightarrow> nat" where
  "top_pos p = length (sheet p) - 2000"

definition cell :: "mem \<Rightarrow> nat \<Rightarrow> u16" where
  "cell m i = ld16 m (0xC00B8000 + of_nat (2 * i))"

definition cursor :: "vga \<Rightarrow> u16" where
  "cursor v = fst (get_cursor v)"

definition display_of :: "paper \<Rightarrow> vga \<Rightarrow> bool" where
  "display_of p v \<longleftrightarrow> 80 dvd length (sheet p) \<and> 2000 \<le> length (sheet p) \<and> top_pos p \<le> pos p \<and> pos p < length (sheet p) \<and>
     unat (cursor v) = pos p - top_pos p \<and> map (cell (vmem v)) [0..<2000] = drop (top_pos p) (sheet p)"

section \<open>The cursor\<close>

lemma gs_segment [simp]: "gs_base = 0xC00B8000" "gs_limit = 0x7FFF"
  by (simp_all add: gs_base_def gs_limit_def VIDEO_DESC_def DESC_VIDEO_HIGH4_def)

lemma cursor_SetCursor [simp]: "cursor (SetCursor bx v) = bx"
proof -
  have "push_bit 8 (ucast (ucast (drop_bit 8 bx) :: u8)) OR ucast (ucast bx :: u8) = bx"
    by (rule bit_word_eqI) (auto simp: bit_simps)
  then show ?thesis by (simp add: cursor_def SetCursor_def get_cursor_def crtc_out_def crtc_in_def Let_def)
qed

lemma vmem_cursor [simp]: "vmem (SetCursor bx v) = vmem v" "vmem (snd (get_cursor v)) = vmem v"
  by (simp_all add: SetCursor_def get_cursor_def crtc_out_def Let_def)

lemma putchar_split:
  "sys_putchar_vga v c =
     (let v1 = snd (get_cursor v)
      in if c = 0x0d \<or> c = 0x0a then LineFeed (cursor v) (cursor v) v1
         else if c = 0x08 then BackSpace (cursor v) v1
         else AnyOther (cursor v) c v1)"
  by (simp add: sys_putchar_vga_def cursor_def case_prod_unfold Let_def)

section \<open>Arithmetic of positions\<close>

lemma ucast_of_nat_u16: "n < 65536 \<Longrightarrow> ucast (of_nat n :: u16) = (of_nat n :: u32)"
  by (simp add: unsigned_of_nat take_bit_eq_mod)

lemma of_nat_sless_2000: "n < 32768 \<Longrightarrow> (of_nat n :: u16) <s 2000 \<longleftrightarrow> n < 2000"
proof -
  assume n: "n < 32768"
  have "sint (of_nat n :: u16) = int n"
    using n by (simp add: signed_of_nat signed_take_bit_int_eq_self)
  then show ?thesis by (simp add: word_sless_alt)
qed

lemma cell_offset: "push_bit 1 (of_nat i :: u16) = of_nat (2 * i)"
  by (simp add: push_bit_eq_mult)

lemma unat_of_nat_u16: "n < 65536 \<Longrightarrow> unat (of_nat n :: u16) = n"
  by (simp add: unsigned_of_nat take_bit_eq_mod)

lemma cell_position: "i < 32768 \<Longrightarrow> drop_bit 1 (of_nat (2 * i) :: u16) = of_nat i"
  by (rule unsigned_word_eqI [where ?'a = nat])
    (simp add: drop_bit_eq_div unat_div_distrib unat_of_nat_u16 del: of_nat_mult)

lemma column_offset:
  assumes "i < 2000" "i \<le> k"
  shows "(of_nat k :: u16) - of_nat i mod 80 + 80 = of_nat (k - i mod 80 + 80)"
proof -
  have "(of_nat i :: u16) mod 80 = of_nat (i mod 80)"
    by (rule unsigned_word_eqI [where ?'a = nat]) (use assms(1) in \<open>simp add: unat_mod unat_of_nat_u16\<close>)
  moreover have "i mod 80 \<le> k" using assms(2) mod_less_eq_dividend [of i 80] by linarith
  ultimately show ?thesis by (simp add: of_nat_diff)
qed

section \<open>Cells\<close>

definition put_cell :: "mem \<Rightarrow> nat \<Rightarrow> u8 \<Rightarrow> mem" where
  "put_cell m i c = st8 (st8 m (0xC00B8000 + of_nat (2 * i)) c) (0xC00B8000 + of_nat (2 * i) + 1) 7"

lemma sep_cells: "i \<noteq> j \<Longrightarrow> i < 2000 \<Longrightarrow> j < 2000 \<Longrightarrow> sep (0xC00B8000 + of_nat (2 * i)) 2 (0xC00B8000 + of_nat (2 * j)) 2"
  by (rule sep_array [of i j 2000]) simp_all

lemma only_in_cell: "i < 2000 \<Longrightarrow> only_in m m' (0xC00B8000 + of_nat (2 * i)) 2 \<Longrightarrow> only_in m m' 0xC00B8000 4000"
  by (erule only_in_part) (use array_offset [of i 2000 2] in simp)

lemma put_cell_local: "only_in m (put_cell m i c) (0xC00B8000 + of_nat (2 * i)) 2"
  by (auto simp: put_cell_def only_in_def st8_def inr_def)

lemma cell_put_cell:
  assumes "i < 2000" "j < 2000"
  shows "cell (put_cell m i c) j = (if j = i then cell_of c else cell m j)"
proof (cases "j = i")
  case True
  then show ?thesis by (simp add: cell_def put_cell_def cell_of_def ld16_def st8_def)
next
  case False
  then show ?thesis
    using b2.ld_frame [OF put_cell_local sep_cells [OF False [symmetric]]] assms by (simp add: cell_def)
qed

section \<open>Rolling\<close>

lemma copy_word: "st32 m a (ld32 m b) x = (if inr x a 4 then m (x - a + b) else m x)"
proof -
  have "x = a \<or> x = a + 1 \<or> x = a + 2 \<or> x = a + 3" if "inr x a 4"
  proof -
    have "unat (x - a) < 4" using that by (simp add: inr_def)
    then have "unat (x - a) = 0 \<or> unat (x - a) = 1 \<or> unat (x - a) = 2 \<or> unat (x - a) = 3" by linarith
    then have "x - a = 0 \<or> x - a = 1 \<or> x - a = 2 \<or> x - a = 3" by (simp add: word_eq_iff_unsigned [where ?'a = nat])
    then show ?thesis by (auto simp: diff_eq_eq add.commute)
  qed
  moreover have "ucast (ld32 m b) = m b" "ucast (drop_bit 8 (ld32 m b)) = m (b + 1)"
    "ucast (drop_bit 16 (ld32 m b)) = m (b + 2)" "ucast (drop_bit 24 (ld32 m b)) = m (b + 3)"
    by (rule bit_word_eqI; auto simp: ld32_def bit_simps dest: bit_imp_le_length)+
  ultimately show ?thesis
    using only_inD [OF only_in_st32, of x a m] by (cases "inr x a 4") (auto simp: st32_def add.commute)
qed

lemma inr_tail: "n + 4 \<le> 2 ^ 32 \<Longrightarrow> inr x (a + 4) n \<longleftrightarrow> 4 \<le> unat (x - a) \<and> unat (x - a) < n + 4"
  unfolding inr_def diff_diff_add [symmetric] using unat_sub_if' [of "x - a" 4] by auto

text \<open>A forward copy by whole words to a lower address: overlapping ranges are no problem.\<close>

lemma rep_movsd_shift:
  assumes "4 \<le> unat d" "4 * n + unat d \<le> 2 ^ 32"
  shows "rep_movsd n m (edi + d) edi x = (if inr x edi (4 * n) then m (x + d) else m x)"
  using assms(2)
proof (induction n arbitrary: m edi)
  case (Suc n)
  let ?m = "st32 m edi (ld32 m (edi + d))"
  have IH: "rep_movsd (Suc n) m (edi + d) edi x = (if inr x (edi + 4) (4 * n) then ?m (x + d) else ?m x)"
    using Suc.IH [of ?m "edi + 4"] Suc.prems by (simp add: algebra_simps)
  have tail: "inr x (edi + 4) (4 * n) \<longleftrightarrow> \<not> inr x edi 4 \<and> inr x edi (4 * Suc n)"
    using inr_tail [of "4 * n" x edi] Suc.prems assms(1) by (auto simp: inr_def)
  have apart: "\<not> inr (x + d) edi 4" if "inr x edi (4 * Suc n)"
  proof -
    have "unat (x - edi) + unat d < 2 ^ LENGTH(32)" using that Suc.prems by (simp add: inr_def)
    then have "unat (x - edi + d) = unat (x - edi) + unat d" by (rule unat_plus_lt)
    moreover have "x + d - edi = x - edi + d" by simp
    ultimately show ?thesis unfolding inr_def using assms(1) by (simp only:)
  qed
  have first: "inr x edi (4 * Suc n)" "x - edi + (edi + d) = x + d" if "inr x edi 4"
    using that by (simp_all add: inr_def)
  show ?case unfolding IH tail copy_word using apart first by presburger
qed simp

lemma rolled_cells:
  defines "m' \<equiv> \<lambda>m. rep_movsd 960 m 0xC00B80A0 0xC00B8000"
  shows "j < 1920 \<Longrightarrow> cell (m' m) j = cell m (j + 80)"
    and "1920 \<le> j \<Longrightarrow> j < 2000 \<Longrightarrow> cell (m' m) j = cell m j"
    and "only_in m (m' m) 0xC00B8000 4000"
proof -
  have byte: "m' m x = (if inr x 0xC00B8000 3840 then m (x + 0xA0) else m x)" for x
    using rep_movsd_shift [of "0xA0" 960 m "0xC00B8000" x] by (simp add: m'_def)
  have off: "unat (of_nat (2 * j) + 1 :: u32) = 2 * j + 1" if "j < 2000"
    using that unat_Suc_lt [of "of_nat (2 * j) :: u32" "5000"] by (simp add: word_less_nat_alt del: of_nat_mult)
  { assume j: "j < 1920"
    then have "inr (0xC00B8000 + of_nat (2 * j)) 0xC00B8000 3840" "inr (0xC00B8000 + (of_nat (2 * j) + 1)) 0xC00B8000 3840"
      using off unfolding inr_offset by (simp_all del: of_nat_mult)
    then show "cell (m' m) j = cell m (j + 80)"
      by (simp add: cell_def ld16_def byte algebra_simps) }
  { assume j: "1920 \<le> j" "j < 2000"
    then have "\<not> inr (0xC00B8000 + of_nat (2 * j)) 0xC00B8000 3840" "\<not> inr (0xC00B8000 + (of_nat (2 * j) + 1)) 0xC00B8000 3840"
      using off unfolding inr_offset by (simp_all del: of_nat_mult)
    then show "cell (m' m) j = cell m j"
      by (simp add: cell_def ld16_def byte algebra_simps) }
  show "only_in m (m' m) 0xC00B8000 4000"
    unfolding only_in_def byte by (auto simp: inr_def)
qed

lemma CLL_clears:
  assumes "j + n \<le> 2000"
  obtains m' where "RollOneLine_CLL n v (of_nat (2 * j)) = Some (v\<lparr>vmem := m'\<rparr>)" "only_in (vmem v) m' 0xC00B8000 4000"
    "\<And>i. i < 2000 \<Longrightarrow> cell m' i = (if j \<le> i \<and> i < j + n then 0x0720 else cell (vmem v) i)"
  using assms
proof (induction n arbitrary: v j thesis)
  case 0
  show ?case by (rule 0(1) [of "vmem v"]) auto
next
  case (Suc n)
  let ?a = "0xC00B8000 + of_nat (2 * j)" let ?m = "st16 (vmem v) ?a 0x0720"
  have j: "j < 2000" using Suc.prems(2) by simp
  have lim: "(of_nat (2 * j) :: u32) < 0x7FFF"
    using j by (simp add: word_less_nat_alt del: of_nat_mult)
  have nxt: "of_nat (2 * j) + 2 = (of_nat (2 * Suc j) :: u32)" by simp
  have c: "cell ?m i = (if i = j then 0x0720 else cell (vmem v) i)" if "i < 2000" for i
    using sep_cells [of j i] j that by (auto simp: cell_def simp del: of_nat_mult)
  obtain m' where m': "RollOneLine_CLL n (v\<lparr>vmem := ?m\<rparr>) (of_nat (2 * Suc j)) = Some (v\<lparr>vmem := m'\<rparr>)"
    "only_in ?m m' 0xC00B8000 4000"
    "\<And>i. i < 2000 \<Longrightarrow> cell m' i = (if Suc j \<le> i \<and> i < Suc j + n then 0x0720 else cell ?m i)"
    by (rule Suc.IH [where v = "v\<lparr>vmem := ?m\<rparr>" and j = "Suc j"]) (use that Suc.prems(2) in auto)
  show ?case
  proof (rule Suc.prems(1))
    show "RollOneLine_CLL (Suc n) v (of_nat (2 * j)) = Some (v\<lparr>vmem := m'\<rparr>)"
      using lim m'(1) by (simp add: gs_st16_def nxt del: of_nat_mult)
    show "only_in (vmem v) m' 0xC00B8000 4000"
      by (rule only_in_trans [OF only_in_cell [OF j only_in_st16] m'(2)])
  qed (use m'(3) c in auto)
qed

lemma RollOneLine_rolls:
  obtains v' where "RollOneLine v = Some v'" "cursor v' = 1920" "only_in (vmem v) (vmem v') 0xC00B8000 4000"
    "\<And>i. i < 2000 \<Longrightarrow> cell (vmem v') i = (if i < 1920 then cell (vmem v) (i + 80) else cell_of 0x20)"
proof -
  let ?m = "rep_movsd 960 (vmem v) 0xC00B80A0 0xC00B8000"
  obtain m' where m': "RollOneLine_CLL 80 (v\<lparr>vmem := ?m\<rparr>) 3840 = Some (v\<lparr>vmem := m'\<rparr>)" "only_in ?m m' 0xC00B8000 4000"
    "\<And>i. i < 2000 \<Longrightarrow> cell m' i = (if 1920 \<le> i \<and> i < 2000 then 0x0720 else cell ?m i)"
    by (rule CLL_clears [of 1920 80 "v\<lparr>vmem := ?m\<rparr>"]) simp_all
  show thesis
    by (rule that [of "SetCursor 1920 (v\<lparr>vmem := m'\<rparr>)"])
      (use m' rolled_cells only_in_trans [OF rolled_cells(3) m'(2)] in \<open>simp_all add: RollOneLine_def Let_def cell_of_def\<close>)
qed

section \<open>What each character does\<close>

lemma gs_put_cell:
  assumes "i < 2000"
  shows "(case gs_st8 v (ucast (push_bit 1 (of_nat i :: u16))) c of None \<Rightarrow> None
          | Some v1 \<Rightarrow> (case gs_st8 v1 (ucast (push_bit 1 (of_nat i :: u16) + 1)) 7 of None \<Rightarrow> None | Some v2 \<Rightarrow> f v2))
       = f (v\<lparr>vmem := put_cell (vmem v) i c\<rparr>)"
proof -
  have "ucast (push_bit 1 (of_nat i :: u16)) = (of_nat (2 * i) :: u32)"
    "ucast (push_bit 1 (of_nat i :: u16) + 1) = (of_nat (2 * i) + 1 :: u32)"
    using assms ucast_of_nat_u16 [of "2 * i"] ucast_of_nat_u16 [of "2 * i + 1"] by (simp_all add: push_bit_eq_mult ac_simps)
  moreover have "(of_nat (2 * i) :: u32) \<le> 0x7FFF" "(of_nat (2 * i) + 1 :: u32) \<le> 0x7FFF"
    using assms unat_of_nat_u32 [of "2 * i"] unat_Suc_lt [of "of_nat (2 * i) :: u32" 5000]
    by (simp_all add: word_le_nat_alt word_less_nat_alt del: of_nat_mult)
  ultimately show ?thesis
    by (simp add: gs_st8_def put_cell_def add.assoc del: of_nat_mult)
qed

lemma LineFeed_effect:
  assumes "i < 2000" "i \<le> k" "k \<le> 2000"
  shows "LineFeed (of_nat i) (of_nat k) v =
     (if k - i mod 80 + 80 < 2000 then Some (SetCursor (of_nat (k - i mod 80 + 80)) v) else RollOneLine v)"
  using assms of_nat_sless_2000 [of "k - i mod 80 + 80"]
  by (simp only: LineFeed_def Let_def column_offset)

lemma AnyOther_effect:
  assumes "i < 2000"
  shows "AnyOther (of_nat i) c v = (let v' = v\<lparr>vmem := put_cell (vmem v) i c\<rparr>
     in if i + 1 < 2000 then Some (SetCursor (of_nat (i + 1)) v') else RollOneLine v')"
proof -
  have "push_bit 1 (of_nat i :: u16) + 1 + 1 = of_nat (2 * (i + 1))" by (simp add: push_bit_eq_mult)
  then have "drop_bit 1 (push_bit 1 (of_nat i :: u16) + 1 + 1) = of_nat (i + 1)"
    using cell_position [of "i + 1"] assms by (simp only:)
  moreover have "LineFeed (of_nat i) (of_nat (i + 1)) v' = RollOneLine v'" if "\<not> i + 1 < 2000" for v'
  proof -
    have "i = 1999" using that assms by simp
    then show ?thesis using LineFeed_effect [of i "i + 1" v'] by simp
  qed
  ultimately show ?thesis
    unfolding AnyOther_def Let_def gs_put_cell [OF assms] using of_nat_sless_2000 [of "i + 1"] assms by (simp only:) simp
qed

lemma BackSpace_effect:
  assumes "i < 2000"
  shows "BackSpace (of_nat i) v =
     (if i = 0 then None else Some (SetCursor (of_nat (i - 1)) (v\<lparr>vmem := put_cell (vmem v) (i - 1) 0x20\<rparr>)))"
proof (cases "i = 0")
  case True
  then show ?thesis by (simp add: BackSpace_def gs_st8_def Let_def)
next
  case False
  then obtain j where j: "i = Suc j" "j < 2000" using assms by (cases i) auto
  have "push_bit 1 (of_nat j :: u16) + 1 = of_nat (2 * j + 1)" by (simp add: push_bit_eq_mult)
  moreover have "drop_bit 1 (of_nat (2 * j + 1) :: u16) = of_nat j"
    by (rule unsigned_word_eqI [where ?'a = nat])
      (use j(2) in \<open>simp add: drop_bit_eq_div unat_div_distrib unat_of_nat_u16 del: of_nat_mult of_nat_add of_nat_Suc\<close>)
  ultimately have "drop_bit 1 (push_bit 1 (of_nat j :: u16) + 1) = of_nat j" by (simp only:)
  moreover have "of_nat i - 1 = (of_nat j :: u16)" by (simp add: j(1))
  ultimately show ?thesis
    unfolding BackSpace_def Let_def by (simp only: gs_put_cell [OF j(2)]) (simp add: j(1))
qed

section \<open>The display shows the paper\<close>

definition shown :: "u16 list \<Rightarrow> mem \<Rightarrow> bool" where
  "shown L m \<longleftrightarrow> 80 dvd length L \<and> 2000 \<le> length L \<and> (\<forall>j < 2000. cell m j = L ! (length L - 2000 + j))"

lemma display_of_shown:
  "display_of p v \<longleftrightarrow> shown (sheet p) (vmem v) \<and> top_pos p \<le> pos p \<and> pos p < length (sheet p) \<and>
     unat (cursor v) = pos p - top_pos p"
proof -
  have "map (cell (vmem v)) [0..<2000] = drop (top_pos p) (sheet p) \<longleftrightarrow>
      (\<forall>j < 2000. cell (vmem v) j = sheet p ! (top_pos p + j))" if "2000 \<le> length (sheet p)"
    using that by (auto simp: list_eq_iff_nth_eq top_pos_def)
  then show ?thesis unfolding display_of_def shown_def top_pos_def by blast
qed

lemma shown_put:
  "shown L m \<Longrightarrow> i < 2000 \<Longrightarrow> shown (L[length L - 2000 + i := cell_of c]) (put_cell m i c)"
  by (auto simp: shown_def cell_put_cell nth_list_update)

lemma shown_roll:
  assumes "shown L (vmem v)" "\<And>i. i < 2000 \<Longrightarrow> cell (vmem v') i = (if i < 1920 then cell (vmem v) (i + 80) else cell_of 0x20)"
  shows "shown (L @ replicate 80 (cell_of 0x20)) (vmem v')"
  unfolding shown_def
proof (intro conjI allI impI)
  fix j :: nat assume j: "j < 2000"
  show "cell (vmem v') j = (L @ replicate 80 (cell_of 0x20)) ! (length (L @ replicate 80 (cell_of 0x20)) - 2000 + j)"
    using assms j by (auto simp: shown_def nth_append algebra_simps)
qed (use assms(1) in \<open>auto simp: shown_def\<close>)

text \<open>The cursor and the position on the paper after a step that may feed a new line.\<close>

lemma display_feed:
  assumes sh: "shown L (vmem v)" and n: "length L - 2000 + k = n" "k \<le> 2000"
  obtains v' where "(if k < 2000 then Some (SetCursor (of_nat k) v) else RollOneLine v) = Some v'"
    "display_of (feed \<lparr>sheet = L, pos = n\<rparr>) v'" "only_in (vmem v) (vmem v') 0xC00B8000 4000"
proof (cases "k < 2000")
  case True
  show thesis
    by (rule that [of "SetCursor (of_nat k) v"])
      (use True sh n in \<open>auto simp: display_of_shown feed_def shown_def top_pos_def unat_of_nat_u16\<close>)
next
  case False
  obtain v' where v': "RollOneLine v = Some v'" "cursor v' = 1920" "only_in (vmem v) (vmem v') 0xC00B8000 4000"
    "\<And>i. i < 2000 \<Longrightarrow> cell (vmem v') i = (if i < 1920 then cell (vmem v) (i + 80) else cell_of 0x20)"
    using RollOneLine_rolls [of v] by blast
  have len: "2000 \<le> length L" "n = length L" using sh n False by (auto simp: shown_def)
  have "display_of (feed \<lparr>sheet = L, pos = n\<rparr>) v'"
    using shown_roll [OF sh v'(4)] len v'(2) by (simp add: display_of_shown feed_def top_pos_def)
  with False v' that show thesis by simp
qed

lemma next_line:
  assumes "80 dvd (t :: nat)"
  shows "((t + i) div 80 + 1) * 80 = t + (i - i mod 80 + 80)"
proof -
  obtain q where "t = 80 * q" using assms by blast
  moreover have "i - i mod 80 = 80 * (i div 80)" using minus_mod_eq_mult_div [of i 80] by simp
  ultimately show ?thesis by simp
qed

lemma paper_updates:
  "(p :: paper)\<lparr>pos := n\<rparr> = \<lparr>sheet = sheet p, pos = n\<rparr>" "(p :: paper)\<lparr>sheet := L, pos := n\<rparr> = \<lparr>sheet = L, pos = n\<rparr>"
  by (cases p; simp)+

lemma putchar_step:
  assumes d: "display_of p v" and ok: "c \<noteq> 0x08 \<or> top_pos p < pos p"
  obtains v' where "sys_putchar_vga v c = Some v'" "display_of (teletype p c) v'" "only_in (vmem v) (vmem v') 0xC00B8000 4000"
proof -
  define v1 where "v1 = snd (get_cursor v)"
  define i where "i = pos p - top_pos p"
  have "unat (cursor v) = i" using d by (simp add: display_of_shown i_def)
  then have cur: "cursor v = of_nat i" by auto
  have P: "shown (sheet p) (vmem v1)" "vmem v1 = vmem v" "pos p = top_pos p + i" "i < 2000"
    using d by (auto simp: display_of_shown i_def top_pos_def v1_def)
  have S: "sys_putchar_vga v c =
     (if c = 0x0d \<or> c = 0x0a then LineFeed (of_nat i) (of_nat i) v1
      else if c = 0x08 then BackSpace (of_nat i) v1 else AnyOther (of_nat i) c v1)"
    by (simp add: putchar_split v1_def cur)
  have put: "shown ((sheet p)[top_pos p + j := cell_of b]) (put_cell (vmem v) j b)"
    "only_in (vmem v) (put_cell (vmem v) j b) 0xC00B8000 4000" if "j < 2000" for j b
    using shown_put [OF P(1) that, of b] only_in_cell [OF that put_cell_local] by (simp_all add: top_pos_def P(2))
  consider (line) "c = 0x0d \<or> c = 0x0a" | (erase) "c = 0x08" | (char) "c \<noteq> 0x0d" "c \<noteq> 0x0a" "c \<noteq> 0x08" by blast
  then show thesis
  proof cases
    case line
    have "80 dvd top_pos p" using P(1) by (auto simp: shown_def top_pos_def intro: dvd_diff_nat)
    note nl = next_line [OF this, of i]
    have "i div 80 < 25" using P(4) by (intro less_mult_imp_div_less) simp
    then have k: "i - i mod 80 + 80 \<le> 2000" using minus_mod_eq_mult_div [of i 80] by linarith
    have e: "length (sheet p) - 2000 + (i - i mod 80 + 80) = (pos p div 80 + 1) * 80"
      using nl P(3) by (simp only: top_pos_def)
    obtain v' where v': "LineFeed (of_nat i) (of_nat i) v1 = Some v'" "only_in (vmem v1) (vmem v') 0xC00B8000 4000"
      "display_of (feed \<lparr>sheet = sheet p, pos = (pos p div 80 + 1) * 80\<rparr>) v'"
      unfolding LineFeed_effect [OF P(4) order_refl less_imp_le [OF P(4)]] by (rule display_feed [OF P(1) e k])
    have "display_of (teletype p c) v'" using v'(3) line by (auto simp: teletype_def paper_updates)
    with v'(1,2) line P(2) S show thesis by (intro that) auto
  next
    case erase
    then obtain j where j: "i = Suc j" "j < 2000" using ok P(3,4) by (cases i) auto
    let ?v' = "SetCursor (of_nat j) (v1\<lparr>vmem := put_cell (vmem v) j 0x20\<rparr>)"
    have "display_of (teletype p c) ?v'"
      using erase j put(1) [OF j(2), of "0x20"] P(3) d
      by (simp add: display_of_shown teletype_def top_pos_def unat_of_nat_u16)
    moreover have "sys_putchar_vga v c = Some ?v'"
      using BackSpace_effect [OF P(4), of v1] erase j(1) P(2) S by simp
    ultimately show thesis using put(2) [OF j(2), of "0x20"] by (intro that [of ?v']) simp_all
  next
    case char
    let ?v = "v1\<lparr>vmem := put_cell (vmem v1) i c\<rparr>" let ?L = "(sheet p)[top_pos p + i := cell_of c]"
    have "shown ?L (vmem ?v)" using put(1) [OF P(4)] P(2) by simp
    then obtain v' where v': "(if i + 1 < 2000 then Some (SetCursor (of_nat (i + 1)) ?v) else RollOneLine ?v) = Some v'"
      "display_of (feed \<lparr>sheet = ?L, pos = pos p + 1\<rparr>) v'" "only_in (vmem ?v) (vmem v') 0xC00B8000 4000"
      by (rule display_feed [of ?L ?v "i + 1" "pos p + 1"]) (use P(3,4) that in \<open>simp_all add: top_pos_def\<close>)
    have "sys_putchar_vga v c = Some v'"
      unfolding S AnyOther_effect [OF P(4)] Let_def v'(1) using char by simp
    moreover have "display_of (teletype p c) v'" using v'(2) char P(3) by (simp add: teletype_def paper_updates)
    moreover have "only_in (vmem v) (vmem v') 0xC00B8000 4000"
      using only_in_trans [OF put(2) [OF P(4)]] v'(3) P(2) by simp
    ultimately show thesis by (rule that)
  qed
qed

lemma putchars_run:
  assumes "display_of p v" "0x08 \<notin> set cs"
  obtains v' where "putchars v cs = Some v'" "display_of (foldl teletype p cs) v'" "only_in (vmem v) (vmem v') 0xC00B8000 4000"
  using assms
proof (induction cs arbitrary: p v thesis)
  case Nil
  show ?case by (rule Nil(1) [of v]) (simp_all add: Nil)
next
  case (Cons c cs)
  obtain v1 where v1: "sys_putchar_vga v c = Some v1" "display_of (teletype p c) v1" "only_in (vmem v) (vmem v1) 0xC00B8000 4000"
    by (rule putchar_step [OF Cons.prems(2), of c]) (use Cons.prems(3) that in auto)
  obtain v' where "putchars v1 cs = Some v'" "display_of (foldl teletype (teletype p c) cs) v'"
    "only_in (vmem v1) (vmem v') 0xC00B8000 4000"
    by (rule Cons.IH [OF _ v1(2)]) (use Cons.prems(3) that in auto)
  then show ?case using v1 only_in_trans by (intro Cons.prems(1) [of v']) auto
qed

text \<open>Text without control characters stands on the paper as it was written, across the ends of lines.\<close>

lemma teletype_plain:
  assumes "c \<notin> {0x0d, 0x0a, 0x08}" "pos p < length (sheet p)"
  shows "pos (teletype p c) = pos p + 1" "pos (teletype p c) < length (sheet (teletype p c))"
    "take (pos (teletype p c)) (sheet (teletype p c)) = take (pos p) (sheet p) @ [cell_of c]"
proof -
  have "take (Suc (pos p)) ((sheet p)[pos p := cell_of c]) = take (pos p) (sheet p) @ [cell_of c]"
    using assms(2) by (simp add: take_Suc_conv_app_nth)
  then show "pos (teletype p c) = pos p + 1" "pos (teletype p c) < length (sheet (teletype p c))"
    "take (pos (teletype p c)) (sheet (teletype p c)) = take (pos p) (sheet p) @ [cell_of c]"
    using assms by (auto simp: teletype_def feed_def)
qed

lemma plain_text_on_paper:
  assumes "set cs \<inter> {0x0d, 0x0a, 0x08} = {}" "pos p < length (sheet p)"
  shows "pos (foldl teletype p cs) = pos p + length cs \<and>
    take (pos p + length cs) (sheet (foldl teletype p cs)) = take (pos p) (sheet p) @ map cell_of cs"
  using assms
proof (induction cs arbitrary: p)
  case (Cons c cs)
  have c: "c \<notin> {0x0d, 0x0a, 0x08}" using Cons.prems(1) by auto
  note T = teletype_plain [OF c Cons.prems(2)]
  show ?case using Cons.IH [OF _ T(2)] Cons.prems(1) T(1,3) by auto
qed simp

text \<open>
  \<open>sys_setcursor\<close> moves the cursor to whatever the register \<open>si\<close> holds, and from a position the display does not have
  the next character is a fault.
\<close>

lemma setcursor_moves:
  obtains out where "ports (sys_setcursor si s) = ports s @ out" "cursor (fold crtc_out out v) = si" "vmem (fold crtc_out out v) = vmem v"
proof -
  let ?out = "[(0x3D4, 0x0E), (0x3D5, ucast (drop_bit 8 si)), (0x3D4, 0x0F), (0x3D5, ucast si)] :: (u16 \<times> u8) list"
  have "fold crtc_out ?out v = SetCursor si v" by (simp add: SetCursor_def Let_def)
  moreover have "ports (sys_setcursor si s) = ports s @ ?out" by (simp add: sys_setcursor_def outb_def Let_def)
  ultimately show thesis using that [of ?out] by simp
qed

lemma putchar_outside_faults:
  assumes "0x4000 \<le> unat (cursor v)" "unat (cursor v) < 0x8000" "c \<notin> {0x0d, 0x0a, 0x08}"
  shows "sys_putchar_vga v c = None"
proof -
  define i where "i = unat (cursor v)"
  have i: "cursor v = of_nat i" by (simp add: i_def)
  have "\<not> (of_nat (2 * i) :: u32) \<le> 0x7FFF"
    using assms(1,2) unat_of_nat_u32 [of "2 * i"] by (simp add: word_le_nat_alt i_def del: of_nat_mult)
  moreover have "ucast (push_bit 1 (of_nat i :: u16)) = (of_nat (2 * i) :: u32)"
    unfolding cell_offset by (rule ucast_of_nat_u16) (use assms(2) in \<open>simp add: i_def\<close>)
  ultimately have "gs_st8 (snd (get_cursor v)) (ucast (push_bit 1 (cursor v))) c = None"
    unfolding i by (simp only: gs_st8_def gs_segment if_False)
  then show ?thesis using assms(3) by (simp add: putchar_split AnyOther_def)
qed

section \<open>Properties\<close>

text \<open>C24. A character printed by \<open>sys_putchar\<close> changes the display as it changes the last 25 lines of a teletype's
  paper: a printable character takes the cell under the cursor, a line feed or a carriage return goes to the next
  line, a backspace clears the cell before the cursor, and where the paper gets a new line the display rolls up by
  one. Only the 4000 bytes of the display change. A backspace in the first cell is a general protection fault.
\<close>

theorem sys_putchar_refines:
  assumes "display_of p v"
  shows "if c = 0x08 \<and> pos p = top_pos p then sys_putchar_vga v c = None
     else (\<exists>v'. sys_putchar_vga v c = Some v' \<and> display_of (teletype p c) v' \<and> only_in (vmem v) (vmem v') 0xC00B8000 4000)"
proof (cases "c = 0x08 \<and> pos p = top_pos p")
  case True
  then have "cursor v = of_nat 0" using assms by (simp add: display_of_shown unat_eq_0)
  then show ?thesis using True BackSpace_effect [of 0 "snd (get_cursor v)"] by (simp add: putchar_split)
next
  case False
  then have "c \<noteq> 0x08 \<or> top_pos p < pos p" using assms by (auto simp: display_of_shown)
  with False show ?thesis using putchar_step [OF assms, of c] by metis
qed

text \<open>The cleared display.\<close>

definition blank_vga :: vga where
  "blank_vga = \<lparr>vmem = \<lambda>a. if even a then 0x20 else 0x07, crtc_index = 0, crtc_regs = \<lambda>_. 0\<rparr>"

lemma blank_display: "display_of \<lparr>sheet = replicate 2000 (cell_of 0x20), pos = 0\<rparr> blank_vga"
proof -
  have "cell (vmem blank_vga) j = cell_of 0x20" for j by (simp add: cell_def ld16_def blank_vga_def cell_of_def)
  then show ?thesis
    by (simp add: display_of_shown shown_def top_pos_def cursor_def get_cursor_def crtc_in_def crtc_out_def blank_vga_def Let_def)
qed

theorem sys_putchar_refines_witness:
  "\<exists>v'. sys_putchar_vga blank_vga 0x41 = Some v' \<and>
     display_of (teletype \<lparr>sheet = replicate 2000 (cell_of 0x20), pos = 0\<rparr> 0x41) v' \<and>
     only_in (vmem blank_vga) (vmem v') 0xC00B8000 4000"
  using sys_putchar_refines [OF blank_display, of "0x41"] by simp

end
