(* ===== verification/Loader.thy ===== *)
theory Loader
  imports AddressSpace CString Screen
begin

text \<open>
  The loader (\<open>boot/loader.S\<close>), from the size of the memory to the jump into the kernel: it reads the image of the
  kernel from the disk, sets up the page directory and the first page table, and copies the segments of the
  image to the addresses the kernel is linked at. The kernel's theorems rely on what it leaves behind: the
  directory that maps itself, the page tables of the kernel's quarter of the address space, and the word at
  \<open>0x810\<close> with the size of the memory.

  Registers are arguments and results; \<open>loop\<close> counts down the 32 bits of \<open>ecx\<close>.
\<close>

section \<open>The size of the memory (LoaderStart)\<close>

text \<open>
  What the BIOS call \<open>int 0x15\<close> with \<open>ax = 0xE801\<close> returns in \<open>ax\<close> and \<open>bx\<close>: the kilobytes between 1 MB and 16 MB and the
  64 KB blocks above. The result is the word stored at \<open>TOTAL_MEM_BYTES\<close> and the value left in \<open>ecx\<close>.
\<close>

definition mul16 :: "u16 \<Rightarrow> u16 \<Rightarrow> u16 \<times> u16" where
  "mul16 a b = (let p = (ucast a :: u32) * ucast b in (ucast (drop_bit 16 p), ucast p))"

definition LoaderStart :: "u16 \<Rightarrow> u16 \<Rightarrow> u32 \<times> u32" where
  "LoaderStart ax bx =
     (let (dx, ax1) = mul16 ax 0x400;
          edx = push_bit 16 (ucast dx :: u32);
          eax = ucast ax1;
          esi = (edx OR eax) + 0x100000;
          ecx = 0x10000;
          eax2 = (ucast bx :: u32) * ecx
      in (esi + eax2, ecx))"

section \<open>Reading the disk (ReadDiskSector_32)\<close>

text \<open>
  The device is given by the bytes it presents at the status port, one per poll, and the words at the data
  port. The poll may never end.
\<close>

partial_function (option) DiskNotReady :: "(nat \<Rightarrow> u8) \<Rightarrow> nat \<Rightarrow> nat option" where
  "DiskNotReady stat k = (if stat k AND 0x88 = 0x08 then Some k else DiskNotReady stat (Suc k))"

primrec ReadingLoop :: "nat \<Rightarrow> (nat \<Rightarrow> u16) \<Rightarrow> nat \<Rightarrow> mem \<Rightarrow> addr \<Rightarrow> mem" where
  "ReadingLoop 0 data k m edi = m"
| "ReadingLoop (Suc n) data k m edi = ReadingLoop n data (Suc k) (st16 m edi (data k)) (edi + 2)"

text \<open>The number of times the body of a \<open>loop\<close> runs: a counter of zero wraps around.\<close>

definition loop_count :: "u32 \<Rightarrow> nat" where
  "loop_count ecx = (if ecx = 0 then 2 ^ 32 else unat ecx)"

definition disk_command :: "u32 \<Rightarrow> u32 \<Rightarrow> (u16 \<times> u8) list" where
  "disk_command esi edx =
     [(0x1F2, ucast edx), (0x1F3, ucast esi), (0x1F4, ucast (drop_bit 8 esi)), (0x1F5, ucast (drop_bit 16 esi)),
      (0x1F6, (ucast (drop_bit 24 esi) AND 0xF) OR 0xE0), (0x1F7, 0x20)]"

text \<open>
  \<open>mov cx,ax\<close> sets the lower half of the counter only. The results are the bytes sent to the ports, the store, and
  the counter \<open>loop\<close> leaves.
\<close>

definition ReadDiskSector_32 ::
  "(nat \<Rightarrow> u8) \<Rightarrow> (nat \<Rightarrow> u16) \<Rightarrow> u32 \<Rightarrow> u32 \<Rightarrow> u32 \<Rightarrow> u32 \<Rightarrow> mem \<Rightarrow> ((u16 \<times> u8) list \<times> mem \<times> u32) option" where
  "ReadDiskSector_32 stat data ecx esi edi edx m =
     (case DiskNotReady stat 0 of None \<Rightarrow> None
      | Some _ \<Rightarrow>
          let (_, ax) = mul16 (ucast edx) 256;
              ecx1 = (ecx AND 0xFFFF0000) OR ucast ax
          in Some (disk_command esi edx, ReadingLoop (loop_count ecx1) data 0 m edi, 0))"

section \<open>The page tables (SetupPage)\<close>

definition PAGE_DIR_TABLE_POS :: u32 where "PAGE_DIR_TABLE_POS = 0x100000"

text \<open>The numerals of \<open>boot.inc\<close> are decimal: \<open>equ 10\<close> and \<open>equ 100\<close>.\<close>

definition PG_P_boot :: u32 where "PG_P_boot = 1"
definition PG_RW_RW_boot :: u32 where "PG_RW_RW_boot = 10"
definition PG_US_U_boot :: u32 where "PG_US_U_boot = 100"

primrec SetupPage_ClearPDE :: "nat \<Rightarrow> mem \<Rightarrow> u32 \<Rightarrow> mem" where
  "SetupPage_ClearPDE 0 m esi = m"
| "SetupPage_ClearPDE (Suc ecx) m esi = SetupPage_ClearPDE ecx (st8 m (PAGE_DIR_TABLE_POS + esi) 0) (esi + 1)"

primrec SetupPage_CreatePTE :: "nat \<Rightarrow> mem \<Rightarrow> addr \<Rightarrow> u32 \<Rightarrow> u32 \<Rightarrow> mem" where
  "SetupPage_CreatePTE 0 m ebx esi edx = m"
| "SetupPage_CreatePTE (Suc ecx) m ebx esi edx =
     SetupPage_CreatePTE ecx (st32 m (ebx + esi * 4) edx) ebx (esi + 1) (edx + 0x1000)"

primrec SetupPage_CreateKernelPDE :: "nat \<Rightarrow> mem \<Rightarrow> addr \<Rightarrow> u32 \<Rightarrow> u32 \<Rightarrow> mem" where
  "SetupPage_CreateKernelPDE 0 m ebx esi eax = m"
| "SetupPage_CreateKernelPDE (Suc ecx) m ebx esi eax =
     SetupPage_CreateKernelPDE ecx (st32 m (ebx + esi * 4) eax) ebx (esi + 1) (eax + 0x1000)"

definition SetupPage :: "mem \<Rightarrow> mem" where
  "SetupPage m =
     (let m1 = SetupPage_ClearPDE 0x1000 m 0;
          eax = PAGE_DIR_TABLE_POS + 0x1000;
          ebx = eax;
          eax1 = eax OR (PG_US_U_boot OR PG_RW_RW_boot OR PG_P_boot);
          m2 = st32 m1 (PAGE_DIR_TABLE_POS + 0x0) eax1;
          m3 = st32 m2 (PAGE_DIR_TABLE_POS + 0xC00) eax1;
          m4 = st32 m3 (PAGE_DIR_TABLE_POS + 0xFFC) (eax1 - 0x1000);
          m5 = SetupPage_CreatePTE 256 m4 ebx 0 (PG_US_U_boot OR PG_RW_RW_boot OR PG_P_boot);
          eax2 = (PAGE_DIR_TABLE_POS + 0x2000) OR (PG_US_U_boot OR PG_RW_RW_boot OR PG_P_boot)
      in SetupPage_CreateKernelPDE 254 m5 PAGE_DIR_TABLE_POS 769 eax2)"

section \<open>The segments of the kernel (KernelInit)\<close>

definition KERNEL_BIN_BASE_ADDR :: u32 where "KERNEL_BIN_BASE_ADDR = 0x60000"
definition PT_NULL :: u8 where "PT_NULL = 0"

primrec rep_movsb :: "nat \<Rightarrow> mem \<Rightarrow> addr \<Rightarrow> addr \<Rightarrow> mem" where
  "rep_movsb 0 m esi edi = m"
| "rep_movsb (Suc ecx) m esi edi = rep_movsb ecx (st8 m edi (ld8 m esi)) (esi + 1) (edi + 1)"

definition mem_cpy :: "mem \<Rightarrow> addr \<Rightarrow> addr \<Rightarrow> u32 \<Rightarrow> mem" where
  "mem_cpy m dst src nbytes = rep_movsb (unat nbytes) m src dst"

primrec LoadKernelEachSegment :: "nat \<Rightarrow> mem \<Rightarrow> addr \<Rightarrow> u32 \<Rightarrow> mem" where
  "LoadKernelEachSegment 0 m ebx edx = m"
| "LoadKernelEachSegment (Suc ecx) m ebx edx =
     (let m1 = (if ld8 m ebx = PT_NULL then m
                else mem_cpy m (ld32 m (ebx + 8)) (ld32 m (ebx + 4) + KERNEL_BIN_BASE_ADDR) (ld32 m (ebx + 16)))
      in LoadKernelEachSegment ecx m1 (ebx + edx) edx)"

text \<open>\<open>None\<close>: the jump to \<open>FatalKernelBroken\<close>, which writes a message and spins.\<close>

definition KernelInit :: "u32 \<Rightarrow> mem \<Rightarrow> mem option" where
  "KernelInit ecx m =
     (if ld32 m KERNEL_BIN_BASE_ADDR \<noteq> 0x464c457f \<or> ld8 m (KERNEL_BIN_BASE_ADDR + 4) \<noteq> 1 \<or>
         ld8 m (KERNEL_BIN_BASE_ADDR + 5) \<noteq> 1 then None
      else let ebx = ld32 m (KERNEL_BIN_BASE_ADDR + 28) + KERNEL_BIN_BASE_ADDR;
               edx = ucast (ld16 m (KERNEL_BIN_BASE_ADDR + 42));
               ecx1 = (ecx AND 0xFFFF0000) OR ucast (ld16 m (KERNEL_BIN_BASE_ADDR + 44))
           in Some (LoadKernelEachSegment (loop_count ecx1) m ebx edx))"

section \<open>The boot sector and the whole loader\<close>

text \<open>
  \<open>ReadDiskSector_16\<close> of \<open>boot/mbr.S\<close>, in real mode: the counter is the 16 bits of \<open>cx\<close>, and the words go to the segment
  \<open>ds\<close>, which the boot sector takes from \<open>cx\<close>.
\<close>

primrec ReadingLoop_16 :: "nat \<Rightarrow> (nat \<Rightarrow> u16) \<Rightarrow> nat \<Rightarrow> u16 \<Rightarrow> mem \<Rightarrow> u16 \<Rightarrow> mem" where
  "ReadingLoop_16 0 data k ds m di = m"
| "ReadingLoop_16 (Suc n) data k ds m di =
     ReadingLoop_16 n data (Suc k) ds (st16 m (push_bit 4 (ucast ds) + ucast di) (data k)) (di + 2)"

definition ReadDiskSector_16 ::
  "(nat \<Rightarrow> u8) \<Rightarrow> (nat \<Rightarrow> u16) \<Rightarrow> u16 \<Rightarrow> u32 \<Rightarrow> u16 \<Rightarrow> u16 \<Rightarrow> mem \<Rightarrow> ((u16 \<times> u8) list \<times> mem) option" where
  "ReadDiskSector_16 stat data ds esi di dx m =
     (case DiskNotReady stat 0 of None \<Rightarrow> None
      | Some _ \<Rightarrow>
          let (_, cx) = mul16 dx 256
          in Some (disk_command esi (ucast dx), ReadingLoop_16 (if cx = 0 then 65536 else unat cx) data 0 ds m di))"

definition LOADER_BASE_ADDR :: u16 where "LOADER_BASE_ADDR = 0x600"
definition LOADER_START_SECTOR :: u32 where "LOADER_START_SECTOR = 2"

definition MBR :: "(nat \<Rightarrow> u8) \<Rightarrow> (nat \<Rightarrow> u16) \<Rightarrow> u16 \<Rightarrow> mem \<Rightarrow> ((u16 \<times> u8) list \<times> mem) option" where
  "MBR stat data cx m =
     (let ds = cx; m1 = st8 m 0xB8000 (of_char CHR ''M'')
      in ReadDiskSector_16 stat data ds LOADER_START_SECTOR LOADER_BASE_ADDR 4 m1)"

text \<open>
  \<open>ProctectionModeStart\<close>, from protected mode to the jump into the kernel. The results are the bytes sent to the disk,
  physical memory when paging is switched on, and what \<open>KernelInit\<close> makes of the memory it sees through the page
  tables. \<open>gs\<close> keeps its base, below the kernel's half, until the kernel loads it again.
\<close>

definition KERNEL_START_SECTOR :: u32 where "KERNEL_START_SECTOR = 9"
definition KERNEL_SUM_SECTOR :: u32 where "KERNEL_SUM_SECTOR = 200"
definition GDT_BASE :: u32 where "GDT_BASE = 0x610"
definition gdt_ptr :: u32 where "gdt_ptr = 0x814"

definition ProctectionModeStart ::
  "(nat \<Rightarrow> u8) \<Rightarrow> (nat \<Rightarrow> u16) \<Rightarrow> u32 \<Rightarrow> mem \<Rightarrow> ((u16 \<times> u8) list \<times> mem \<times> mem option) option" where
  "ProctectionModeStart stat data ecx m =
     (let m0 = st8 m (0xB8000 + 2) (of_char CHR ''P'')
      in case ReadDiskSector_32 stat data ecx KERNEL_START_SECTOR KERNEL_BIN_BASE_ADDR KERNEL_SUM_SECTOR m0 of
           None \<Rightarrow> None
         | Some (out, m1, _) \<Rightarrow>
             let m2 = SetupPage m1;
                 ebx = GDT_BASE;
                 m3 = st32 m2 (ebx + 0x18 + 4) (ld32 m2 (ebx + 0x18 + 4) OR 0xC0000000);
                 m4 = st32 m3 (gdt_ptr + 2) (ebx + 0xC0000000);
                 v = st8 (vview m4 PAGE_DIR_TABLE_POS) (0xB8000 + 4) (of_char CHR ''V'')
             in Some (out, m4, KernelInit 0 v))"

lemmas loader_constants = KERNEL_START_SECTOR_def KERNEL_SUM_SECTOR_def KERNEL_BIN_BASE_ADDR_def GDT_BASE_def gdt_ptr_def
  PAGE_DIR_TABLE_POS_def

section \<open>Memory and disk\<close>

lemma mul16_parts: "mul16 a b = (d, x) \<Longrightarrow> push_bit 16 (ucast d) OR ucast x = (ucast a :: u32) * ucast b"
proof -
  let ?p = "(ucast a :: u32) * ucast b"
  have "push_bit 16 (ucast (ucast (drop_bit 16 ?p) :: u16)) OR ucast (ucast ?p :: u16) = ?p"
    by (rule bit_word_eqI) (auto simp: bit_simps)
  moreover assume "mul16 a b = (d, x)"
  ultimately show ?thesis by (auto simp: mul16_def Let_def)
qed

text \<open>The stored size is the sum of the three parts, as long as it is below 4 GB.\<close>

lemma LoaderStart_total:
  assumes "1024 * unat ax + 0x100000 + 65536 * unat bx < 2 ^ 32"
  shows "unat (fst (LoaderStart ax bx)) = 1024 * unat ax + 0x100000 + 65536 * unat bx"
proof -
  obtain d x where dx: "mul16 ax 0x400 = (d, x)" by force
  have "fst (LoaderStart ax bx) = ucast ax * 0x400 + 0x100000 + ucast bx * 0x10000"
    using mul16_parts [OF dx] by (simp add: LoaderStart_def dx Let_def)
  also have "\<dots> = of_nat (unat ax * 1024 + 0x100000 + unat bx * 65536)"
    by (simp only: of_nat_add of_nat_mult of_nat_numeral of_nat_unat)
  finally show "unat (fst (LoaderStart ax bx)) = 1024 * unat ax + 0x100000 + 65536 * unat bx"
    using unat_of_nat_u32 [of "unat ax * 1024 + 0x100000 + unat bx * 65536"] assms by (simp only: mult.commute)
qed

text \<open>
  \<open>LoaderStart\<close> leaves \<open>0x10000\<close> in \<open>ecx\<close>, so the 200 sectors of the kernel are read with a counter of \<open>0x1C800\<close> words,
  more than twice the 51200 words the disk was asked for.
\<close>

lemma LoaderStart_ecx: "snd (LoaderStart ax bx) = 0x10000"
  by (simp add: LoaderStart_def case_prod_unfold Let_def)

lemma kernel_read_count:
  assumes "DiskNotReady stat 0 \<noteq> None"
  shows "ReadDiskSector_32 stat data (snd (LoaderStart ax bx)) 9 0x60000 200 m =
     Some (disk_command 9 200, ReadingLoop 0x1C800 data 0 m 0x60000, 0)"
  using assms by (auto simp: ReadDiskSector_32_def LoaderStart_def case_prod_unfold Let_def mul16_def loop_count_def)

section \<open>The page tables\<close>

lemma page_entry_sep:
  "i \<noteq> j \<Longrightarrow> i < 1024 \<Longrightarrow> j < 1024 \<Longrightarrow> sep (a + of_nat (4 * i)) 4 (a + of_nat (4 * j)) 4"
  by (rule sep_array [of i j 1024]) simp_all

lemma only_in_entry: "i < 1024 \<Longrightarrow> only_in m m' (a + of_nat (4 * i)) 4 \<Longrightarrow> only_in m m' a 4096"
  by (erule only_in_part) (use array_offset [of i 1024 4] in simp)

text \<open>Both loops over entries.\<close>

definition entries_set :: "mem \<Rightarrow> mem \<Rightarrow> addr \<Rightarrow> nat \<Rightarrow> nat \<Rightarrow> u32 \<Rightarrow> bool" where
  "entries_set m m' a k n e \<longleftrightarrow> only_in m m' a 4096 \<and>
     (\<forall>j < 1024. ld32 m' (a + of_nat (4 * j)) =
        (if k \<le> j \<and> j < k + n then e + of_nat (j - k) * 0x1000 else ld32 m (a + of_nat (4 * j))))"

lemma entry_store:
  "i < 1024 \<Longrightarrow> j < 1024 \<Longrightarrow>
     ld32 (st32 m (a + of_nat (4 * i)) e) (a + of_nat (4 * j)) = (if j = i then e else ld32 m (a + of_nat (4 * j)))"
  using page_entry_sep [of i j a] by (auto simp del: of_nat_mult)

lemma entries_set_Suc:
  assumes "entries_set (st32 m (a + of_nat (4 * k)) e) m' a (Suc k) n (e + 0x1000)" "k < 1024"
  shows "entries_set m m' a k (Suc n) e"
proof -
  have "e + 0x1000 + of_nat (j - Suc k) * 0x1000 = e + of_nat (j - k) * 0x1000" if "Suc k \<le> j" for j
  proof -
    have "j - k = Suc (j - Suc k)" using that by simp
    then show ?thesis by (simp only: of_nat_Suc) (simp add: algebra_simps)
  qed
  moreover have "only_in m m' a 4096"
    using assms(1) only_in_trans [OF only_in_entry [OF assms(2) only_in_st32]] unfolding entries_set_def by blast
  ultimately show ?thesis using assms(1) entry_store [OF assms(2), of _ m a e] unfolding entries_set_def
    by (auto simp del: of_nat_mult)
qed

lemma CreatePTE_entries: "k + n \<le> 1024 \<Longrightarrow> entries_set m (SetupPage_CreatePTE n m a (of_nat k) e) a k n e"
proof (induction n arbitrary: m k e)
  case (Suc n)
  then show ?case
    using Suc.IH [of "Suc k" "st32 m (a + of_nat (4 * k)) e" "e + 0x1000"] entries_set_Suc [of m a k e]
    by (simp add: mult.commute add.commute)
qed (auto simp: entries_set_def)

lemma CreateKernelPDE_entries: "k + n \<le> 1024 \<Longrightarrow> entries_set m (SetupPage_CreateKernelPDE n m a (of_nat k) e) a k n e"
proof (induction n arbitrary: m k e)
  case (Suc n)
  then show ?case
    using Suc.IH [of "Suc k" "st32 m (a + of_nat (4 * k)) e" "e + 0x1000"] entries_set_Suc [of m a k e]
    by (simp add: mult.commute add.commute)
qed (auto simp: entries_set_def)

lemma ClearPDE_bytes:
  "k + n \<le> 4096 \<Longrightarrow> SetupPage_ClearPDE n m (of_nat k) x =
     (if k \<le> unat (x - 0x100000) \<and> unat (x - 0x100000) < k + n then 0 else m x)"
proof (induction n arbitrary: m k)
  case (Suc n)
  have "x = 0x100000 + of_nat k \<longleftrightarrow> unat (x - 0x100000) = k"
    using Suc.prems unat_of_nat_u32 [of k] by (auto simp: algebra_simps)
  then show ?case
    using Suc.IH [of "Suc k" "st8 m (0x100000 + of_nat k) 0"] Suc.prems
    by (auto simp: PAGE_DIR_TABLE_POS_def st8_def add.commute fun_upd_def)
qed auto

lemma cleared_entries:
  "j < 1024 \<Longrightarrow> ld32 (SetupPage_ClearPDE 0x1000 m 0) (0x100000 + of_nat (4 * j)) = 0"
  "only_in m (SetupPage_ClearPDE 0x1000 m 0) 0x100000 4096"
proof -
  have byte: "SetupPage_ClearPDE 0x1000 m 0 x = (if inr x 0x100000 4096 then 0 else m x)" for x
    using ClearPDE_bytes [of 0 "0x1000" m x] by (simp add: inr_def)
  show "only_in m (SetupPage_ClearPDE 0x1000 m 0) 0x100000 4096" by (simp add: only_in_def byte)
  assume "j < 1024"
  then have "inr (0x100000 + of_nat (4 * j) + o4) 0x100000 4096" if "unat o4 < 4" for o4
    using inr_part [of _ "0x100000" "of_nat (4 * j)" 4 4096] array_offset [of j 1024 4] that by (auto simp: inr_offset)
  from this [of 0] this [of 1] this [of 2] this [of 3]
  show "ld32 (SetupPage_ClearPDE 0x1000 m 0) (0x100000 + of_nat (4 * j)) = 0"
    by (simp add: ld32_def byte del: of_nat_mult)
qed

lemma page_flags [simp]: "PG_US_U_boot OR PG_RW_RW_boot OR PG_P_boot = 0x6F"
  by (simp add: PG_US_U_boot_def PG_RW_RW_boot_def PG_P_boot_def)

text \<open>The three entries the loader writes one by one.\<close>

lemma single_entries:
  fixes m :: mem
  defines "m' \<equiv> st32 (st32 (st32 (SetupPage_ClearPDE 0x1000 m 0) 0x100000 0x10106F) 0x100C00 0x10106F) 0x100FFC 0x10006F"
  shows "only_in m m' 0x100000 4096"
    and "j < 1024 \<Longrightarrow> ld32 m' (0x100000 + of_nat (4 * j)) = (if j = 0 \<or> j = 768 then 0x10106F else if j = 1023 then 0x10006F else 0)"
proof -
  let ?m = "SetupPage_ClearPDE 0x1000 m 0"
  have m': "m' = st32 (st32 (st32 ?m (0x100000 + of_nat (4 * 0)) 0x10106F) (0x100000 + of_nat (4 * 768)) 0x10106F)
      (0x100000 + of_nat (4 * 1023)) 0x10006F"
    by (simp add: m'_def)
  have st: "only_in m0 (st32 m0 (0x100000 + of_nat (4 * i)) e) 0x100000 4096" if "i < 1024" for i m0 e
    by (rule only_in_entry [OF that only_in_st32])
  have c: "(0::nat) < 1024" "(768::nat) < 1024" "(1023::nat) < 1024" by simp_all
  show "only_in m m' 0x100000 4096" unfolding m'
    by (rule only_in_trans [OF only_in_trans [OF only_in_trans [OF cleared_entries(2) st [OF c(1)]] st [OF c(2)]] st [OF c(3)]])
  show "ld32 m' (0x100000 + of_nat (4 * j)) = (if j = 0 \<or> j = 768 then 0x10106F else if j = 1023 then 0x10006F else 0)"
    if j: "j < 1024"
    unfolding m' entry_store [OF c(3) j] entry_store [OF c(2) j] entry_store [OF c(1) j] cleared_entries(1) [OF j] by simp
qed

lemma table_pages_sep:
  assumes "j < 1024"
  shows "sep 0x101000 4096 (0x100000 + of_nat (4 * j)) 4" "sep 0x100000 4096 (0x101000 + of_nat (4 * j)) 4"
proof -
  have b: "sep 0x101000 4096 (0x100000 :: addr) 4096" "sep 0x100000 4096 (0x101000 :: addr) 4096" by (simp_all add: sep_def)
  have "unat (of_nat (4 * j) :: u32) + 4 \<le> 4096" using array_offset [of j 1024 4] assms by simp
  from sep_offset_right [OF b(1) this] sep_offset_right [OF b(2) this]
  show "sep 0x101000 4096 (0x100000 + of_nat (4 * j)) 4" "sep 0x100000 4096 (0x101000 + of_nat (4 * j)) 4"
    by (simp_all only: zero_less_numeral)
qed

text \<open>The directory and the first table after \<open>SetupPage\<close>, entry by entry.\<close>

lemma SetupPage_entries:
  shows "only_in m (SetupPage m) 0x100000 0x2000"
    and "j < 1024 \<Longrightarrow> ld32 (SetupPage m) (0x100000 + of_nat (4 * j)) =
      (if j = 0 then 0x10106F else if j < 768 then 0 else if j < 1023 then 0x10106F + of_nat (j - 768) * 0x1000 else 0x10006F)"
    and "j < 256 \<Longrightarrow> ld32 (SetupPage m) (0x101000 + of_nat (4 * j)) = 0x6F + of_nat j * 0x1000"
proof -
  define m4 where "m4 = st32 (st32 (st32 (SetupPage_ClearPDE 0x1000 m 0) 0x100000 0x10106F) 0x100C00 0x10106F) 0x100FFC 0x10006F"
  define m5 where "m5 = SetupPage_CreatePTE 256 m4 0x101000 0 0x6F"
  define m6 where "m6 = SetupPage_CreateKernelPDE 254 m5 0x100000 769 0x10206F"
  have eq: "SetupPage m = m6"
    unfolding SetupPage_def page_flags by (simp add: m4_def m5_def m6_def PAGE_DIR_TABLE_POS_def Let_def)
  note S = single_entries [where m = m, folded m4_def]
  have E5: "entries_set m4 m5 0x101000 0 256 0x6F" using CreatePTE_entries [of 0 256 m4] by (simp add: m5_def)
  have E6: "entries_set m5 m6 0x100000 769 254 0x10206F" using CreateKernelPDE_entries [of 769 254 m5] by (simp add: m6_def)
  have o5: "only_in m4 m5 0x101000 4096" and o6: "only_in m5 m6 0x100000 4096"
    using E5 E6 by (simp_all only: entries_set_def)
  have p: "only_in m m4 0x100000 0x2000" "only_in m4 m5 0x100000 0x2000" "only_in m5 m6 0x100000 0x2000"
    using only_in_part [of m m4 "0x100000" 0] only_in_part [of m4 m5 "0x100000" "0x1000"] only_in_part [of m5 m6 "0x100000" 0]
      S(1) o5 o6 by simp_all
  show "only_in m (SetupPage m) 0x100000 0x2000"
    unfolding eq by (rule only_in_trans [OF only_in_trans [OF p(1,2)] p(3)])
  show "ld32 (SetupPage m) (0x100000 + of_nat (4 * j)) =
      (if j = 0 then 0x10106F else if j < 768 then 0 else if j < 1023 then 0x10106F + of_nat (j - 768) * 0x1000 else 0x10006F)"
    if j: "j < 1024"
  proof -
    have "ld32 m6 (0x100000 + of_nat (4 * j)) =
      (if 769 \<le> j \<and> j < 1023 then 0x10206F + of_nat (j - 769) * 0x1000 else ld32 m5 (0x100000 + of_nat (4 * j)))"
      using E6 j by (simp add: entries_set_def)
    moreover have "ld32 m5 (0x100000 + of_nat (4 * j)) = ld32 m4 (0x100000 + of_nat (4 * j))"
      by (rule b4.ld_frame [OF o5 table_pages_sep(1) [OF j]])
    moreover have "0x10206F + of_nat (j - 769) * 0x1000 = (0x10106F + of_nat (j - 768) * 0x1000 :: u32)" if "769 \<le> j"
    proof -
      have "j - 768 = Suc (j - 769)" using that by simp
      then show ?thesis by (simp only: of_nat_Suc) (simp add: algebra_simps)
    qed
    ultimately show ?thesis using S(2) [OF j] j unfolding eq by (cases "j = 768") auto
  qed
  show "ld32 (SetupPage m) (0x101000 + of_nat (4 * j)) = 0x6F + of_nat j * 0x1000" if j: "j < 256"
  proof -
    have "ld32 m6 (0x101000 + of_nat (4 * j)) = ld32 m5 (0x101000 + of_nat (4 * j))"
      by (rule b4.ld_frame [OF o6 table_pages_sep(2)]) (use j in simp)
    then show ?thesis using E5 j unfolding eq entries_set_def by simp
  qed
qed

section \<open>Address translation\<close>

lemma low_bits:
  assumes "(v :: u32) < 0x100000" "bit v n"
  shows "n < 20"
proof (rule ccontr)
  assume "\<not> n < 20"
  then have "2 ^ n \<ge> (2 ^ 20 :: nat)" by (intro power_increasing) simp_all
  moreover have "unat v < 2 ^ 20" using assms(1) by (simp add: word_less_nat_alt)
  moreover have "bit (unat v) n" using assms(2) by (simp add: bit_unsigned_iff)
  then have "2 ^ n \<le> unat v" by (metis bit_iff_odd div_less even_zero not_le)
  ultimately show False by simp
qed

lemma kernel_half: "(0xC0000000 :: u32) = push_bit 30 (mask 2)" "(768 :: u32) = push_bit 8 (mask 2)"
  by (simp_all add: mask_eq_exp_minus_1)

lemma kernel_address: "(v :: u32) < 0x100000 \<Longrightarrow> 0xC0000000 + v = push_bit 30 (mask 2) OR v"
  unfolding kernel_half by (rule disjunctive_add) (auto simp: bit_simps dest: low_bits)

lemma low_address:
  assumes "(v :: u32) < 0x100000"
  shows "PDE_IDX v = 0" "PDE_IDX (0xC0000000 + v) = 768" "PTE_IDX (0xC0000000 + v) = PTE_IDX v"
    "(0xC0000000 + v) AND 0xFFF = v AND 0xFFF"
  unfolding kernel_address [OF assms] kernel_half(2) masks(3)
  using low_bits [OF assms] by (intro bit_word_eqI; fastforce simp: bit_simps PDE_IDX_bit PTE_IDX_bit)+

lemma times_page: "(x :: u32) * 0x1000 = push_bit 12 x"
  by (simp add: push_bit_eq_mult)

lemma page_split:
  assumes "(v :: u32) < 0x100000"
  shows "PTE_IDX v * 0x1000 + (v AND 0xFFF) = v" "unat (PTE_IDX v) < 256"
proof -
  have "push_bit 12 (PTE_IDX v) + (v AND mask 12) = push_bit 12 (PTE_IDX v) OR (v AND mask 12)"
    by (rule disjunctive_add) (auto simp: bit_simps)
  also have "\<dots> = v"
    by (rule bit_word_eqI) (use low_bits [OF assms] in \<open>fastforce simp: bit_simps PTE_IDX_bit\<close>)
  finally show "PTE_IDX v * 0x1000 + (v AND 0xFFF) = v" unfolding times_page masks(3) .
  have "PTE_IDX v = take_bit 8 (PTE_IDX v)"
    by (rule bit_word_eqI) (use low_bits [OF assms] in \<open>fastforce simp: bit_simps PTE_IDX_bit\<close>)
  then have "unat (PTE_IDX v) = take_bit 8 (unat (PTE_IDX v))" by (metis unsigned_take_bit_eq)
  then show "unat (PTE_IDX v) < 256" using take_bit_nat_less_exp [of 8 "unat (PTE_IDX v)"] by simp
qed

lemma frame_entry: "bit (0x6F + x * 0x1000 :: u32) 0" "frame_of (0x6F + x * 0x1000) = x * 0x1000"
proof -
  show "bit (0x6F + x * 0x1000) 0" by (simp add: bit_0)
  have "page_aligned (push_bit 12 x)"
    unfolding page_aligned_def by (rule bit_word_eqI) (auto simp: bit_simps PAGE_MASK_bit)
  moreover have "unat (0x6F :: u32) < 4096" by simp
  ultimately have "(push_bit 12 x + 0x6F) AND PAGE_MASK = push_bit 12 x" by (rule page_of_offset)
  then show "frame_of (0x6F + x * 0x1000) = x * 0x1000"
    by (simp add: frame_of_def times_page add.commute)
qed

lemma directory_frame: "frame_of 0x100000 = 0x100000"
  by (simp add: frame_of_def PAGE_MASK_def)

lemma PDE_IDX_less: "unat (PDE_IDX v) < 1024"
proof -
  have "PDE_IDX v = take_bit 10 (PDE_IDX v)" by (rule bit_word_eqI) (auto simp: bit_simps PDE_IDX_bit)
  then have "unat (PDE_IDX v) = take_bit 10 (unat (PDE_IDX v))" by (metis unsigned_take_bit_eq)
  then show ?thesis using take_bit_nat_less_exp [of 10 "unat (PDE_IDX v)"] by simp
qed

lemma SetupPage_pde:
  "pde_of (SetupPage m) 0x100000 v = (let j = unat (PDE_IDX v) in
     if j = 0 then 0x10106F else if j < 768 then 0 else if j < 1023 then 0x10106F + of_nat (j - 768) * 0x1000 else 0x10006F)"
proof -
  have "PDE_IDX v * 4 = of_nat (4 * unat (PDE_IDX v))" by simp
  then show ?thesis
    using SetupPage_entries(2) [OF PDE_IDX_less, of m v] unfolding pde_of_def directory_frame Let_def by (simp only:)
qed

lemma SetupPage_self: "self_mapped (SetupPage m) 0x100000"
  using SetupPage_entries(2) [of 1023 m] by (simp add: self_mapped_def directory_frame) (simp add: frame_of_def PAGE_MASK_def)

text \<open>Memory that has the tables of \<open>SetupPage\<close>, whatever else was written since.\<close>

definition has_tables :: "mem \<Rightarrow> mem \<Rightarrow> bool" where
  "has_tables m pm \<longleftrightarrow> eq_on pm (SetupPage m) 0x100000 0x2000"

lemma has_tables_entry:
  assumes "has_tables m pm" "j < 1024"
  shows "ld32 pm (0x100000 + of_nat (4 * j)) = ld32 (SetupPage m) (0x100000 + of_nat (4 * j))"
    "ld32 pm (0x101000 + of_nat (4 * j)) = ld32 (SetupPage m) (0x101000 + of_nat (4 * j))"
proof -
  have e: "eq_on pm (SetupPage m) (0x100000 + of_nat (4 * i)) 4" if "i < 2048" for i
    by (rule eq_on_part [OF assms(1) [unfolded has_tables_def]]) (use array_offset [of i 2048 4] that in simp)
  have "0x101000 + of_nat (4 * j) = (0x100000 + of_nat (4 * (1024 + j)) :: addr)" by simp
  then show "ld32 pm (0x100000 + of_nat (4 * j)) = ld32 (SetupPage m) (0x100000 + of_nat (4 * j))"
    "ld32 pm (0x101000 + of_nat (4 * j)) = ld32 (SetupPage m) (0x101000 + of_nat (4 * j))"
    using ld32_cong [OF e [of j]] ld32_cong [OF e [of "1024 + j"]] assms(2) by simp_all
qed

text \<open>An address whose directory entry is the first table, below the first megabyte of it.\<close>

lemma first_table_walk:
  assumes t: "has_tables m pm" and a: "unat (PDE_IDX a) \<in> {0, 768}" "PTE_IDX a = PTE_IDX v" "a AND 0xFFF = v AND 0xFFF" "v < 0x100000"
  shows "page_walk pm 0x100000 a = Some v"
proof -
  have pde: "pde_of pm 0x100000 a = 0x10106F"
  proof -
    have "PDE_IDX a * 4 = of_nat (4 * unat (PDE_IDX a))" by simp
    then have "pde_of pm 0x100000 a = pde_of (SetupPage m) 0x100000 a"
      unfolding pde_of_def directory_frame using has_tables_entry(1) [OF t PDE_IDX_less, of a] by (simp only:)
    then show ?thesis using a(1) by (auto simp: SetupPage_pde)
  qed
  have "frame_of 0x10106F = 0x101000" by (simp add: frame_of_def PAGE_MASK_def)
  then have "pte_slot pm 0x100000 a = 0x101000 + of_nat (4 * unat (PTE_IDX v))" by (simp add: pte_slot_def pde a(2))
  moreover have "unat (PTE_IDX v) < 1024" using page_split(2) [OF a(4)] by simp
  note has_tables_entry(2) [OF t this]
  ultimately have "ld32 pm (pte_slot pm 0x100000 a) = 0x6F + PTE_IDX v * 0x1000"
    using SetupPage_entries(3) [OF page_split(2) [OF a(4)], of m] by simp
  then show ?thesis
    using pde a(3) page_split(1) [OF a(4)] frame_entry [of "PTE_IDX v"] by (simp add: page_walk_def bit_0)
qed

lemma low_walk:
  assumes "has_tables m pm" "v < 0x100000"
  shows "page_walk pm 0x100000 v = Some v" "page_walk pm 0x100000 (0xC0000000 + v) = Some v"
  by (rule first_table_walk [OF assms(1)], use assms(2) low_address [OF assms(2)] in simp_all)+

lemma low_load:
  assumes "has_tables m pm" "unat v + 4 \<le> 0x100000"
  shows "ld32 (vview pm 0x100000) v = ld32 pm v" "ld32 (vview pm 0x100000) (0xC0000000 + v) = ld32 pm v"
proof -
  have "v + i < 0x100000" if "unat i < 4" for i
    using unat_plus_le [of v i] assms(2) that by (simp add: word_less_nat_alt)
  note w = low_walk [OF assms(1) this]
  show "ld32 (vview pm 0x100000) v = ld32 pm v" "ld32 (vview pm 0x100000) (0xC0000000 + v) = ld32 pm v"
    by (rule vview_entry, use w in \<open>simp add: add.assoc\<close>)+
qed

section \<open>Segments\<close>

lemma mem_cpy_bytes:
  assumes "sep dst (unat n) src (unat n)"
  shows "bytes (mem_cpy m dst src n) dst (unat n) = bytes m src (unat n)" "only_in m (mem_cpy m dst src n) dst (unat n)"
proof -
  have "rep_movsb k m src dst = memcpy_loop k m dst src" for k m src dst
    by (induction k arbitrary: m src dst) simp_all
  moreover have "unat n < 2 ^ LENGTH(32)" by (rule unsigned_less)
  ultimately show "bytes (mem_cpy m dst src n) dst (unat n) = bytes m src (unat n)" "only_in m (mem_cpy m dst src n) dst (unat n)"
    using bytes_memcpy_loop [OF assms] memcpy_loop_only_in [of "unat n"] by (simp_all add: mem_cpy_def)
qed

text \<open>The fields of the program header at \<open>h\<close>, as the loader reads them, and the headers themselves.\<close>

definition seg_dst :: "mem \<Rightarrow> addr \<Rightarrow> addr" where "seg_dst m h = ld32 m (h + 8)"
definition seg_src :: "mem \<Rightarrow> addr \<Rightarrow> addr" where "seg_src m h = ld32 m (h + 4) + KERNEL_BIN_BASE_ADDR"
definition seg_size :: "mem \<Rightarrow> addr \<Rightarrow> u32" where "seg_size m h = (if ld8 m h = PT_NULL then 0 else ld32 m (h + 16))"

definition phdr :: "mem \<Rightarrow> nat \<Rightarrow> addr" where
  "phdr m i = ld32 m (KERNEL_BIN_BASE_ADDR + 28) + KERNEL_BIN_BASE_ADDR + of_nat i * ucast (ld16 m (KERNEL_BIN_BASE_ADDR + 42))"

text \<open>
  An image of \<open>len\<close> bytes with \<open>n\<close> headers: the headers and the bytes of the segments are inside, and the places of the
  segments are apart from the image and from each other.
\<close>

definition image_ok :: "mem \<Rightarrow> nat \<Rightarrow> nat \<Rightarrow> bool" where
  "image_ok m len n \<longleftrightarrow>
     (\<forall>i < n. unat (phdr m i - KERNEL_BIN_BASE_ADDR) + 32 \<le> len \<and>
        (seg_size m (phdr m i) \<noteq> 0 \<longrightarrow>
           unat (ld32 m (phdr m i + 4)) + unat (seg_size m (phdr m i)) \<le> len \<and>
           sep (seg_dst m (phdr m i)) (unat (seg_size m (phdr m i))) KERNEL_BIN_BASE_ADDR len \<and>
           (\<forall>j < i. seg_size m (phdr m j) \<noteq> 0 \<longrightarrow>
              sep (seg_dst m (phdr m i)) (unat (seg_size m (phdr m i))) (seg_dst m (phdr m j)) (unat (seg_size m (phdr m j))))))"

lemma load_segment:
  assumes "eq_on m' m KERNEL_BIN_BASE_ADDR len" "image_ok m len n" "i < n"
  defines "h \<equiv> phdr m i"
  defines "m1 \<equiv> (if ld8 m' h = PT_NULL then m'
      else mem_cpy m' (ld32 m' (h + 8)) (ld32 m' (h + 4) + KERNEL_BIN_BASE_ADDR) (ld32 m' (h + 16)))"
  shows "eq_on m1 m KERNEL_BIN_BASE_ADDR len" "only_in m' m1 (seg_dst m h) (unat (seg_size m h))"
    "bytes m1 (seg_dst m h) (unat (seg_size m h)) = bytes m (seg_src m h) (unat (seg_size m h))"
proof -
  let ?b = KERNEL_BIN_BASE_ADDR
  have I: "unat (h - ?b) + 32 \<le> len" "seg_size m h \<noteq> 0 \<Longrightarrow> unat (ld32 m (h + 4)) + unat (seg_size m h) \<le> len"
    "seg_size m h \<noteq> 0 \<Longrightarrow> sep (seg_dst m h) (unat (seg_size m h)) ?b len"
    using assms(2,3) unfolding image_ok_def h_def by blast+
  have eh: "eq_on m' m h 32" using eq_on_part [OF assms(1) I(1)] by simp
  have f: "ld32 m' (h + 4) = ld32 m (h + 4)" "ld32 m' (h + 8) = ld32 m (h + 8)" "ld32 m' (h + 16) = ld32 m (h + 16)"
    by (rule ld32_cong [OF eq_on_part [OF eh]], simp)+
  have n: "ld8 m' h = ld8 m h" using ld8_cong [OF eq_on_part [OF eh, of 0 1]] by simp
  have m1: "m1 = mem_cpy m' (seg_dst m h) (seg_src m h) (seg_size m h)"
    by (simp add: m1_def f n seg_dst_def seg_src_def seg_size_def) (simp add: mem_cpy_def)
  show "eq_on m1 m ?b len" "only_in m' m1 (seg_dst m h) (unat (seg_size m h))"
    "bytes m1 (seg_dst m h) (unat (seg_size m h)) = bytes m (seg_src m h) (unat (seg_size m h))"
  proof (atomize (full), cases "seg_size m h = 0")
    case True
    then show "eq_on m1 m ?b len \<and> only_in m' m1 (seg_dst m h) (unat (seg_size m h)) \<and>
      bytes m1 (seg_dst m h) (unat (seg_size m h)) = bytes m (seg_src m h) (unat (seg_size m h))"
      using assms(1) by (simp add: m1 mem_cpy_def)
  next
    case False
    then have pos: "0 < unat (seg_size m h)" by (simp add: unat_gt_0)
    have src: "seg_src m h = ?b + ld32 m (h + 4)" by (simp add: seg_src_def)
    have s: "sep (seg_dst m h) (unat (seg_size m h)) (seg_src m h) (unat (seg_size m h))"
      unfolding src by (rule sep_offset_right [OF I(3) [OF False] I(2) [OF False] pos pos])
    have "bytes m' (seg_src m h) (unat (seg_size m h)) = bytes m (seg_src m h) (unat (seg_size m h))"
      unfolding src by (rule bytes_cong [OF eq_on_part [OF assms(1) I(2) [OF False]]])
    moreover have "eq_on m1 m ?b len"
      using only_in_sep [OF mem_cpy_bytes(2) [OF s, of m'] I(3) [OF False]] assms(1) by (simp add: eq_on_def m1)
    ultimately show "eq_on m1 m ?b len \<and> only_in m' m1 (seg_dst m h) (unat (seg_size m h)) \<and>
      bytes m1 (seg_dst m h) (unat (seg_size m h)) = bytes m (seg_src m h) (unat (seg_size m h))"
      using mem_cpy_bytes [OF s, of m'] by (simp add: m1)
  qed
qed

text \<open>The segments from header \<open>k\<close> on, with what they leave alone.\<close>

lemma load_segments:
  assumes "image_ok m len n" "eq_on m' m KERNEL_BIN_BASE_ADDR len" "k + r = n"
  defines "R \<equiv> LoadKernelEachSegment r m' (phdr m k) (ucast (ld16 m (KERNEL_BIN_BASE_ADDR + 42)))"
  shows "(\<forall>i. k \<le> i \<and> i < n \<longrightarrow>
      bytes R (seg_dst m (phdr m i)) (unat (seg_size m (phdr m i))) = bytes m (seg_src m (phdr m i)) (unat (seg_size m (phdr m i)))) \<and>
    (\<forall>a s. (\<forall>i. k \<le> i \<and> i < n \<and> seg_size m (phdr m i) \<noteq> 0 \<longrightarrow>
      sep (seg_dst m (phdr m i)) (unat (seg_size m (phdr m i))) a s) \<longrightarrow> eq_on R m' a s)"
  using assms(2,3) unfolding R_def
proof (induction r arbitrary: k m')
  case 0
  then show ?case by (auto simp: eq_on_def)
next
  case (Suc r)
  let ?h = "phdr m k" let ?e = "ucast (ld16 m (KERNEL_BIN_BASE_ADDR + 42)) :: u32"
  define m1 where "m1 = (if ld8 m' ?h = PT_NULL then m'
      else mem_cpy m' (ld32 m' (?h + 8)) (ld32 m' (?h + 4) + KERNEL_BIN_BASE_ADDR) (ld32 m' (?h + 16)))"
  define R where "R = LoadKernelEachSegment r m1 (phdr m (Suc k)) ?e"
  have k: "k < n" using Suc.prems(2) by simp
  note S = load_segment [OF Suc.prems(1) assms(1) k, folded m1_def]
  have "?h + ?e = phdr m (Suc k)" by (simp add: phdr_def algebra_simps)
  then have eq: "LoadKernelEachSegment (Suc r) m' ?h ?e = R" by (simp add: R_def m1_def Let_def)
  have "Suc k + r = n" using Suc.prems(2) by simp
  note IH = Suc.IH [OF S(1) this, folded R_def]
  have first: "bytes R (seg_dst m ?h) (unat (seg_size m ?h)) = bytes m (seg_src m ?h) (unat (seg_size m ?h))"
  proof (cases "seg_size m ?h = 0")
    case False
    have "sep (seg_dst m (phdr m i)) (unat (seg_size m (phdr m i))) (seg_dst m ?h) (unat (seg_size m ?h))"
      if "Suc k \<le> i \<and> i < n \<and> seg_size m (phdr m i) \<noteq> 0" for i
      using assms(1) that False unfolding image_ok_def by auto
    then have "eq_on R m1 (seg_dst m ?h) (unat (seg_size m ?h))" using IH by blast
    then show ?thesis using bytes_cong S(3) by metis
  qed simp
  have "eq_on m1 m' a s" if "seg_size m ?h \<noteq> 0 \<longrightarrow> sep (seg_dst m ?h) (unat (seg_size m ?h)) a s" for a s
  proof (cases "seg_size m ?h = 0")
    case True
    then show ?thesis using S(2) by (simp add: only_in_def eq_on_def)
  qed (use that only_in_sep [OF S(2)] in blast)
  then have frame: "eq_on R m' a s" if "\<forall>i. k \<le> i \<and> i < n \<and> seg_size m (phdr m i) \<noteq> 0 \<longrightarrow>
      sep (seg_dst m (phdr m i)) (unat (seg_size m (phdr m i))) a s" for a s
    using IH that k unfolding eq_on_def by (metis Suc_leD order_refl)
  show ?case unfolding eq using IH first frame by (metis Suc_leI le_neq_implies_less)
qed

text \<open>
  \<open>KernelInit\<close> puts the bytes of every segment where the program header says and changes nothing else; in particular the
  part of a segment that is not in the file, the variables without initial value, keeps what was in memory.
\<close>

lemma KernelInit_loads:
  assumes magic: "ld32 m KERNEL_BIN_BASE_ADDR = 0x464c457f" "ld8 m (KERNEL_BIN_BASE_ADDR + 4) = 1" "ld8 m (KERNEL_BIN_BASE_ADDR + 5) = 1"
    and n: "n = unat (ld16 m (KERNEL_BIN_BASE_ADDR + 44))" "0 < n" and ok: "image_ok m len n"
  obtains m' where "KernelInit 0 m = Some m'"
    "\<And>i. i < n \<Longrightarrow> bytes m' (seg_dst m (phdr m i)) (unat (seg_size m (phdr m i))) = bytes m (seg_src m (phdr m i)) (unat (seg_size m (phdr m i)))"
    "\<And>a s. (\<And>i. i < n \<Longrightarrow> seg_size m (phdr m i) \<noteq> 0 \<Longrightarrow> sep (seg_dst m (phdr m i)) (unat (seg_size m (phdr m i))) a s) \<Longrightarrow> eq_on m' m a s"
proof -
  let ?R = "LoadKernelEachSegment n m (phdr m 0) (ucast (ld16 m (KERNEL_BIN_BASE_ADDR + 42)))"
  let ?c = "ucast (ld16 m (KERNEL_BIN_BASE_ADDR + 44)) :: u32"
  have "unat (ld16 m (KERNEL_BIN_BASE_ADDR + 44)) < 2 ^ LENGTH(16)" by (rule unsigned_less)
  then have c: "unat ?c = n" using n(1) by (simp add: unsigned_ucast_eq take_bit_nat_eq_self)
  then have "?c \<noteq> 0" using n(2) by (metis less_irrefl unsigned_0)
  with c have "loop_count ?c = n" by (simp only: loop_count_def if_False)
  then have init: "KernelInit 0 m = Some ?R" using magic by (simp add: KernelInit_def phdr_def Let_def)
  have "eq_on m m KERNEL_BIN_BASE_ADDR len" by (simp add: eq_on_def)
  note L = load_segments [OF ok this, of 0 n]
  show thesis by (rule that [OF init]) (use L in auto)
qed

lemma KernelInit_broken:
  "ld32 m KERNEL_BIN_BASE_ADDR \<noteq> 0x464c457f \<Longrightarrow> KernelInit ecx m = None"
  by (simp add: KernelInit_def)

section \<open>The hand-over\<close>

lemma ReadingLoop_only_in: "only_in m (ReadingLoop n data k m edi) edi (2 * n)"
proof (induction n arbitrary: k m edi)
  case (Suc n)
  have "only_in m (st16 m edi (data k)) (edi + 0) 2" using only_in_st16 by simp
  from only_in_trans [OF only_in_part [OF this] only_in_part [OF Suc.IH]] show ?case by simp
qed simp

text \<open>The words arrive in order, one behind the other.\<close>

lemma ReadingLoop_words:
  assumes "i < n" "2 * n \<le> 2 ^ 32"
  shows "ld16 (ReadingLoop n data k m edi) (edi + of_nat (2 * i)) = data (k + i)"
  using assms
proof (induction n arbitrary: k m edi i)
  case (Suc n)
  let ?m = "st16 m edi (data k)"
  show ?case
  proof (cases i)
    case 0
    have "ld16 (ReadingLoop n data (Suc k) ?m (edi + 2)) edi = data k"
    proof (cases "n = 0")
      case False
      then have "sep (edi + 2) (2 * n) edi 2" using Suc.prems(2) by (simp add: unat_minus_u32)
      from b2.ld_frame [OF ReadingLoop_only_in this] show ?thesis by simp
    qed simp
    with 0 show ?thesis by simp
  next
    case (Suc j)
    then show ?thesis using Suc.IH [of j "Suc k" ?m "edi + 2"] Suc.prems by (simp add: algebra_simps)
  qed
qed simp

text \<open>The boot sector loads the loader to \<open>0x600\<close> when the BIOS leaves 0 in \<open>cx\<close>.\<close>

lemma ReadingLoop_16_flat:
  "unat di + 2 * n < 65536 \<Longrightarrow> ReadingLoop_16 n data k 0 m di = ReadingLoop n data k m (ucast di)"
proof (induction n arbitrary: k m di)
  case (Suc n)
  have "unat (di + 2) = unat di + 2" using Suc.prems unat_plus_lt [of di 2] by simp
  moreover from this have "ucast (di + 2) = (ucast di + 2 :: u32)"
    using Suc.prems by (simp add: word_eq_iff_unsigned [where ?'a = nat] unsigned_ucast_eq take_bit_nat_eq_self unat_plus_lt)
  ultimately show ?case using Suc.IH [of "di + 2"] Suc.prems by simp
qed simp

lemma MBR_loads:
  assumes "DiskNotReady stat 0 \<noteq> None" "i < 1024"
  obtains out m' where "MBR stat data 0 m = Some (out, m')" "ld16 m' (0x600 + of_nat (2 * i)) = data i"
proof -
  let ?m = "st8 m 0xB8000 (of_char CHR ''M'')"
  have "MBR stat data 0 m = Some (disk_command 2 4, ReadingLoop 1024 data 0 ?m 0x600)"
    using assms(1) ReadingLoop_16_flat [of "0x600" 1024 data 0 ?m]
    by (auto simp: MBR_def ReadDiskSector_16_def mul16_def LOADER_BASE_ADDR_def LOADER_START_SECTOR_def Let_def)
  then show thesis
    using that ReadingLoop_words [OF assms(2), of data 0 ?m "0x600"] by simp
qed

text \<open>
  What the kernel finds through the page tables: the size of the memory at \<open>0x810\<close>, and the descriptor of the display
  with its base in the kernel's half, as \<open>sys_putchar\<close> uses it.
\<close>

lemma loader_hands_over:
  assumes "DiskNotReady stat 0 \<noteq> None" "ld32 m 0x628 = 0x80000007" "ld32 m 0x62C = DESC_VIDEO_HIGH4"
  obtains out m1 pm r where "ProctectionModeStart stat data 0x10000 m = Some (out, pm, r)" "has_tables m1 pm"
    "ld32 (vview pm 0x100000) 0x810 = ld32 m 0x810"
    "(ld32 (vview pm 0x100000) 0xC0000628, ld32 (vview pm 0x100000) 0xC000062C) = VIDEO_DESC"
proof -
  define m0 where "m0 = st8 m (0xB8000 + 2) (of_char CHR ''P'')"
  define m1 where "m1 = ReadingLoop 0x1C800 data 0 m0 0x60000"
  define m4 where "m4 = st32 (st32 (SetupPage m1) 0x62C (ld32 (SetupPage m1) 0x62C OR 0xC0000000)) 0x816 0xC0000610"
  have P: "ProctectionModeStart stat data 0x10000 m = Some (disk_command 9 200, m4,
      KernelInit 0 (st8 (vview m4 0x100000) (0xB8000 + 4) (of_char CHR ''V'')))"
    using kernel_read_count [OF assms(1), of data 0 0 m0] LoaderStart_ecx [of 0 0]
    by (simp add: ProctectionModeStart_def loader_constants m4_def m1_def m0_def Let_def)
  have o1: "only_in m0 m1 0x60000 0x39000" using ReadingLoop_only_in [of m0 "0x1C800" data 0 "0x60000"] by (simp add: m1_def)
  have keep: "ld32 (SetupPage m1) a = ld32 m a" if "sep 0xB8002 1 a 4" "sep 0x60000 0x39000 a 4" "sep 0x100000 0x2000 a 4" for a
    using b4.ld_frame [OF SetupPage_entries(1) that(3), of m1] b4.ld_frame [OF o1 that(2)] that(1) by (simp add: m0_def)
  have k: "ld32 (SetupPage m1) 0x810 = ld32 m 0x810" "ld32 (SetupPage m1) 0x628 = ld32 m 0x628" "ld32 (SetupPage m1) 0x62C = ld32 m 0x62C"
    by (rule keep; simp add: sep_def)+
  have T: "has_tables m1 m4"
  proof -
    have "eq_on (st32 pm a x) pm 0x100000 0x2000" if "sep a 4 0x100000 0x2000" for pm a x
      by (rule b4.st_frame [OF that])
    from this [of "0x62C"] this [of "0x816"] show ?thesis
      by (simp add: has_tables_def m4_def sep_def eq_on_def)
  qed
  have l: "ld32 m4 0x810 = ld32 m 0x810" "ld32 m4 0x628 = 0x80000007" "ld32 m4 0x62C = DESC_VIDEO_HIGH4 OR 0xC0000000"
    using k assms(2,3) by (simp_all add: m4_def sep_def)
  show thesis
    by (rule that [OF P T]) (use low_load [OF T, of "0x810"] low_load [OF T, of "0x628"] low_load [OF T, of "0x62C"] l in
        \<open>simp_all add: VIDEO_DESC_def\<close>)
qed

section \<open>Properties\<close>

text \<open>C34. After \<open>SetupPage\<close> the page directory at \<open>0x100000\<close> maps itself, so that the kernel's window onto the page tables
  works; the first megabyte of physical memory is mapped at 0 and at \<open>0xC0000000\<close>, and the kernel's own translation
  routine says so; every address \<open>w\<close> of the kernel's quarter below the window has a page table of its own, which lies
  below the first page the allocator hands out; nothing is mapped in the rest of the user's part. Only the directory
  and the first table are written.
\<close>

theorem SetupPage_maps:
  fixes m :: mem and v w u :: addr
  defines "pm \<equiv> SetupPage m"
  assumes v: "v < 0x100000" and w: "768 \<le> unat (PDE_IDX w)" "unat (PDE_IDX w) < 1023"
    and u: "0 < unat (PDE_IDX u)" "unat (PDE_IDX u) < 768"
  shows "self_mapped pm 0x100000 \<and> page_walk pm 0x100000 v = Some v \<and> page_walk pm 0x100000 (0xC0000000 + v) = Some v
    \<and> VirtualAddrToPhysicAddr (vview pm 0x100000) (0xC0000000 + v) = v \<and> page_walk pm 0x100000 u = None
    \<and> bit (ld32 (vview pm 0x100000) (GetPDEPointer w)) 0
    \<and> frame_of (ld32 (vview pm 0x100000) (GetPDEPointer w)) = 0x101000 + (PDE_IDX w - 768) * 0x1000
    \<and> 0x101000 + (PDE_IDX w - 768) * 0x1000 < 0x200000 \<and> only_in m pm 0x100000 0x2000"
proof -
  note self = SetupPage_self [of m, folded pm_def]
  have low: "page_walk pm 0x100000 v = Some v" "page_walk pm 0x100000 (0xC0000000 + v) = Some v"
    using low_walk [of m pm v] v by (simp_all add: has_tables_def pm_def eq_on_def)
  define x where "x = 0x101 + (PDE_IDX w - 768)"
  have "of_nat (unat (PDE_IDX w) - 768) = PDE_IDX w - 768" using w(1) by (simp add: of_nat_diff)
  then have pw: "ld32 (vview pm 0x100000) (GetPDEPointer w) = 0x6F + x * 0x1000"
    unfolding window_pde [OF self] unfolding pm_def SetupPage_pde using w by (simp add: Let_def x_def algebra_simps)
  have "unat (PDE_IDX w - 768) < 255" using w unat_minus_le [of 768 "PDE_IDX w"] by (simp add: word_le_nat_alt)
  then have "unat (of_nat (0x101000 + unat (PDE_IDX w - 768) * 0x1000) :: u32) < 0x200000"
    using unat_of_nat_u32 [of "0x101000 + unat (PDE_IDX w - 768) * 0x1000"] by (simp del: of_nat_add of_nat_mult)
  then have bound: "0x101000 + (PDE_IDX w - 768) * 0x1000 < 0x200000" by (simp add: word_less_nat_alt)
  have "page_walk pm 0x100000 u = None"
    unfolding pm_def page_walk_def SetupPage_pde using u by simp
  then show ?thesis
    using self low bound window_translation [OF self low(2)] frame_entry [of x] SetupPage_entries(1) [of m] unfolding pw
    by (simp add: pm_def x_def algebra_simps)
qed

theorem SetupPage_maps_witness:
  "page_walk (SetupPage (\<lambda>_. 0)) 0x100000 0xC0001500 = Some 0x1500 \<and>
     VirtualAddrToPhysicAddr (vview (SetupPage (\<lambda>_. 0)) 0x100000) 0xC0001500 = 0x1500 \<and>
     page_walk (SetupPage (\<lambda>_. 0)) 0x100000 0x8048000 = None"
  using SetupPage_maps [of "0x1500" "0xC0100000" "0x8048000" "\<lambda>_. 0"] by (simp add: PDE_IDX_def)

end
