(* ===== verification/Spec2Isabelle.thy ===== *)
theory Spec2Isabelle
  imports Start Switch HeapRelease Ide Loader
begin

text \<open>
  Verification of the kernel chuj-elephant-os (IA-32, C, one processor).

  \<^bold>\<open>The program.\<close> A small kernel in C with some assembly. \<open>boot/\<close> loads it; \<open>kernel/main.c\<close> initialises the
  parts through \<open>kernel/init.c\<close>, starts two user processes and a keyboard thread, and idles. Threads
  (\<open>thread/\<close>) are scheduled round robin from the clock interrupt (\<open>device/timer.c\<close>), block on semaphores
  and re-entrant locks (\<open>thread/sync.c\<close>), and are linked in intrusive lists (\<open>lib/kernel/list.c\<close>). Memory
  (\<open>kernel/memory.c\<close>) has physical and virtual page pools kept in bitmaps (\<open>lib/kernel/bitmap.c\<close>) and a byte
  allocator over pages. User processes (\<open>userprog/\<close>) have page directories of their own and call the
  kernel through \<open>int 0x80\<close> (\<open>lib/user/\<close>). The keyboard interrupt fills a ring buffer
  (\<open>device/keyboard.c\<close>, \<open>device/ioqueue.c\<close>) that the keyboard thread prints on the console
  (\<open>device/console.c\<close>, \<open>lib/kernel/print.c\<close>).

  \<^bold>\<open>The model.\<close> One byte store \<open>mem = addr \<Rightarrow> u8\<close> holds every C object whose address is taken, at its
  own byte offset, and is seen through the current address space; field access is \<open>ld8\<close>, \<open>ld16\<close>, \<open>ld32\<close> and the
  stores \<open>st8\<close>, \<open>st16\<close>, \<open>st32\<close> (little endian, wrapping at \<open>2^32\<close>). The record \<open>kstate\<close> adds the registers, the
  ports, the characters printed and the static scalars. The record \<open>symbols\<close> holds the addresses the
  linker chooses: it is a parameter everywhere, and the theorems state which of the objects must
  be separate. Integers have the width of the source (\<open>u8\<close>, \<open>u16\<close>, \<open>u32\<close> are words). Every function of the
  source returns an \<open>outcome\<close>: \<open>Ok\<close> with its value and the new state; \<open>Panic\<close> with the function and the
  condition of a failed \<open>ASSERT\<close> or of \<open>PANIC\<close>; \<open>Switched\<close> with the state just after \<open>switch_to\<close> gave the
  processor to another thread; \<open>Diverge\<close> where a loop never ends. A call that blocks is split at the
  switch: what follows the switch is a definition \<open>..._resume\<close>. Loops without a static bound are
  \<open>partial_function (option)\<close>, and \<open>of_loop\<close> makes \<open>None\<close> into \<open>Diverge\<close>; no fuel is used anywhere, and
  each theorem that a routine returns says so with \<open>Ok\<close>. Bounded loops are primitive recursion on
  the number of turns left.

  \<^bold>\<open>Theories and the code they model.\<close>
  \<^item> \<open>Prelude\<close>: store, address ranges (\<open>inr\<close>, \<open>sep\<close>, \<open>eq_on\<close>, \<open>only_in\<close>), \<open>outcome\<close>, \<open>ASSERT\<close>. The locale
    \<open>c_access\<close> states what a load returns after a store; it is interpreted for the three widths.
  \<^item> \<open>Machine\<close>: state, \<open>outb\<close> and \<open>inb\<close> (\<open>kernel/io.h\<close>), the interrupt flag (\<open>kernel/interrupt.c\<close>).
  \<^item> \<open>CString\<close> (\<open>lib/string.c\<close>), \<open>Bitmap\<close> (\<open>lib/kernel/bitmap.c\<close>), \<open>Print\<close> (\<open>lib/kernel/print.c\<close>).
  \<^item> \<open>KList\<close> (\<open>lib/kernel/list.c\<close>): the predicate \<open>is_list\<close> relates the store to a sequence of nodes; the
    locale \<open>kernel_queue\<close> is the interface its clients use.
  \<^item> \<open>PCB\<close>, \<open>AddressSpace\<close>, \<open>Scheduler\<close> (\<open>thread/thread.h\<close>, the page tables of \<open>kernel/memory.c\<close>, the
    switching half of \<open>thread/thread.c\<close>, \<open>thread/switch.S\<close>): \<open>rep\<close> relates the store to the abstract
    scheduler \<open>sched\<close> (running thread, ready sequence, status of each thread).
  \<^item> \<open>Sync\<close> (\<open>thread/sync.c\<close>): the step relation \<open>lock_step\<close> of the lock protocol, its invariant, and the
    functions on the store that perform its steps; the locale \<open>mutex\<close> is what a client of a lock uses.
  \<^item> \<open>PageAlloc\<close>, \<open>Arena\<close>, \<open>Heap\<close> (\<open>kernel/memory.c\<close>): pools and pages, arenas and their blocks, \<open>sys_malloc\<close>
    and \<open>sys_free\<close>; the locale \<open>page_allocator\<close> is the interface of one physical pool.
  \<^item> \<open>IoQueue\<close> (\<open>device/ioqueue.c\<close>, locale \<open>bounded_queue\<close>), \<open>Console\<close> (\<open>device/console.c\<close>), \<open>Interrupt\<close>
    (\<open>kernel/interrupt.c\<close>), \<open>Timer\<close> (\<open>device/timer.c\<close>), \<open>Keyboard\<close> (\<open>device/keyboard.c\<close>).
  \<^item> \<open>Thread\<close> (the creating half of \<open>thread/thread.c\<close>), \<open>Process\<close> (\<open>userprog/process.c\<close>, \<open>userprog/tss.c\<close>),
    \<open>Syscall\<close> (\<open>lib/user/\<close>, the \<open>int 0x80\<close> entry of \<open>kernel/kernel.S\<close>), \<open>Boot\<close> (\<open>kernel/init.c\<close>, \<open>kernel/main.c\<close>,
    \<open>kernel/debug.c\<close>).
  \<^item> \<open>PageFree\<close>, \<open>HeapPages\<close>, \<open>HeapRelease\<close> (\<open>kernel/memory.c\<close>): \<open>pfree\<close>, requests above 1024 bytes, and the arena whose
    last block is freed.
  \<^item> \<open>Echo\<close>: keyboard interrupts and turns of the keyboard thread in any order; the locale \<open>event_refinement\<close>
    lifts a refinement of single events to runs.
  \<^item> \<open>Context\<close> (\<open>VECTOR\<close>, \<open>syscall_handler\<close> and \<open>IntExit\<close> of \<open>kernel/kernel.S\<close>, \<open>struct INT_stack\<close>): the registers of the
    interrupted code on the kernel stack. \<open>Switch\<close> (\<open>thread/switch.S\<close>): the registers a thread leaves on its stack when
    it is switched away from. \<open>UserEntry\<close> (\<open>VirtualAddrMapping\<close>, \<open>StartProcess\<close>): the way into user mode.
  \<^item> \<open>KernelRoom\<close>: kernel pages requested one after the other; \<open>kernel_room\<close> describes the free pages behind the last one in
    use. \<open>Spawn\<close> (\<open>ExecProcess\<close>, \<open>CreatUserVaddrBitmap\<close>): a new process from its pages. \<open>Start\<close> (\<open>_start\<close> of
    \<open>kernel/main.c\<close>): the processes and the thread the kernel starts with.
  \<^item> \<open>Ide\<close> (\<open>device/ide.c\<close>, \<open>device/ide.h\<close>, \<open>outsw\<close> and \<open>insw\<close>): layout and initialisation of the disk channels. The
    functions \<open>printk\<close>, \<open>sprintf\<close>, \<open>lock_init\<close> and \<open>sema_init\<close>, which the repository does not have, are parameters with
    the contract \<open>ide_contract\<close>; it is shown to hold of the initialisers in \<open>thread/sync.c\<close>.
  \<^item> \<open>Screen\<close> (\<open>sys_putchar\<close> of \<open>lib/kernel/print_asm.S\<close>): cursor registers and video memory. \<open>Loader\<close> (\<open>boot/mbr.S\<close>,
    \<open>boot/loader.S\<close>): the disk, the first page tables and the segments of the kernel.

  \<^bold>\<open>What is shown.\<close>
  \<^item> Scheduling: \<open>ScheduleThread\<close>, \<open>BlockThread\<close>, \<open>UnblockThread\<close>, \<open>ThreadStart\<close>, \<open>ExecProcess\<close> and the clock handler refine
    operations on the abstract scheduler and keep its invariant, which \<open>ThreadInit\<close> establishes; a
    ready thread gets the processor after at most 256 clock interrupts for each thread before it.
    A thread that is switched away from goes on with its registers where it was when it is switched to.
  \<^item> Locks: mutual exclusion in every interleaving, and the store-level functions implement the protocol.
  \<^item> Memory: pages are handed out once, mapped where they were unmapped, from disjoint pools; blocks of
    an arena are disjoint and inside their page; \<open>sys_malloc\<close> and \<open>sys_free\<close> keep the heap's invariant and
    leave the blocks in use alone; \<open>pfree\<close> undoes \<open>palloc\<close>, \<open>sys_free\<close> undoes a large \<open>sys_malloc\<close> and gives the page
    of an empty arena back; translation through the recursive window is the page walk.
  \<^item> Devices: the ring buffer is a bounded queue; scan codes become the text they stand for, and the
    keyboard thread prints it, in every interleaving of interrupts and turns; console output is exactly its
    argument; the fields of the disk structures are aligned and apart, and \<open>ide_init\<close> prepares every channel.
  \<^item> Processes: \<open>ExecProcess\<close> adds a ready process whose user pages are all free and whose page directory shares the
    kernel's entries; the kernel's start creates its two processes and the keyboard thread in order, and none of them
    disturbs another; \<open>StartProcess\<close> leads to the first
    instruction of the program at privilege level 3 on a fresh stack page; an interrupt gives the interrupted code
    all its registers back, a system call all but the one with its result; system calls reach their services.
  \<^item> Display and start: the display shows the last 25 lines of what was printed, as on an endless paper; the loader's
    page tables give the kernel the mapping its theorems start from, and every segment is where it was linked.
  \<^item> Library: list, bitmap, string and number routines against their reference definitions.
  \<^item> Defects of the code, stated as what the code does: the last bit searched by \<open>BitmapScan\<close> is outside
    the bitmap, a consumer of a ring buffer is never woken, the first user page is returned to the
    kernel pool, descriptor-table bases lose their upper half, \<open>strrchr\<close> finds the first occurrence, the
    frame of an exception with an error code is shifted by a word, \<open>ide_init\<close> writes past its two channels when
    there are more than four disks, a backspace in the first cell of the screen is a fault, the loader reads more than
    twice the words it asked the disk for and does not clear the variables without initial value.

  \<^bold>\<open>Not modelled.\<close> The switch of the processor to protected mode and the BIOS calls before it; caches and the
  translation buffer; outside \<open>Screen\<close>, a printed character is an element of the sequence \<open>screen\<close>; the stack
  frames of the C functions (a handler's theorem starts at its entry, with interrupts off, and \<open>Context\<close> asks of it
  that it keeps the frame of the stub); \<open>lib/stdio.c\<close>, which has no function. Endless loops of threads are
  represented by one turn. In \<open>device/ide.c\<close>, which is not part of the build, \<open>bool\<close> is taken to be one byte.
\<close>

end
